(* ===== verification/Go_Prelude.thy ===== *)
theory Go_Prelude
  imports Main "HOL-Library.AList" "HOL-Library.List_Lexorder" "HOL-Library.Char_ord"
    "HOL-Library.Product_Lexorder"
begin

text \<open>
  The part of Go that the store package is written in: results that may be an error or a
  panic, \<open>int64\<close> arithmetic, instants, byte strings with \<open>strings.TrimSpace\<close> and
  \<open>strings.ToLower\<close>, and Go maps with their range loops, nested maps and nil maps.
  Nothing here is code of the repository: it is the language and the standard library as the
  repository uses them. The theorem collections of the development are declared here.
\<close>

named_theorems gomap_simps \<open>reading a Go map after an update\<close>
named_theorems op_defs \<open>the definitions of store operations\<close>
named_theorems frame \<open>fields an operation leaves alone\<close>

section \<open>Results\<close>

text \<open>
  An operation returns a value, returns a non-nil \<open>error\<close>, or panics. Assigning to an entry of
  a nil map is the one panic the modelled code can run into.
\<close>

datatype ('e, 'a) res = Ok 'a | Err 'e | Panic

fun res_ok :: "('e, 'a) res \<Rightarrow> bool" where
  "res_ok (Ok _) = True"
| "res_ok _ = False"

fun res_panics :: "('e, 'a) res \<Rightarrow> bool" where
  "res_panics Panic = True"
| "res_panics _ = False"

lemma res_ok_iff: "res_ok r \<longleftrightarrow> (\<exists>a. r = Ok a)"
  by (cases r) auto

section \<open>Signed 64-bit integers\<close>

text \<open>Go's \<open>int64\<close> wraps around silently; \<open>wrap64\<close> is applied where the code adds.\<close>

type_synonym int64 = int

definition max_int64 :: int where
  "max_int64 = 9223372036854775807"

definition wrap64 :: "int \<Rightarrow> int64" where
  "wrap64 x = (x + 9223372036854775808) mod 18446744073709551616 - 9223372036854775808"

definition is_int64 :: "int \<Rightarrow> bool" where
  "is_int64 x \<longleftrightarrow> - 9223372036854775808 \<le> x \<and> x \<le> max_int64"

lemma wrap64_id: "is_int64 x \<Longrightarrow> wrap64 x = x"
  by (simp add: wrap64_def is_int64_def max_int64_def)

lemma wrap64_is_int64 [simp]: "is_int64 (wrap64 x)"
proof -
  have "0 \<le> (x + 9223372036854775808) mod 18446744073709551616"
    and "(x + 9223372036854775808) mod 18446744073709551616 < 18446744073709551616"
    by simp_all
  then show ?thesis by (simp add: wrap64_def is_int64_def max_int64_def)
qed

lemma wrap64_add_left [simp]: "wrap64 (wrap64 x + y) = wrap64 (x + y)"
proof -
  have "((x + 9223372036854775808) mod 18446744073709551616 + y) mod 18446744073709551616
      = (x + 9223372036854775808 + y) mod 18446744073709551616"
    by (simp add: mod_add_left_eq)
  then show ?thesis by (simp add: wrap64_def algebra_simps)
qed

lemma wrap64_add_right [simp]: "wrap64 (x + wrap64 y) = wrap64 (x + y)"
  using wrap64_add_left [of y x] by (simp add: add.commute)

section \<open>Instants\<close>

text \<open>
  A \<open>time.Time\<close> is the number of nanoseconds since its zero value (January 1 of year 1, UTC),
  so \<open>IsZero\<close> is \<open>t = 0\<close>, \<open>After\<close>, \<open>Before\<close> and \<open>Equal\<close> are the order of the integers and
  \<open>UTC()\<close>, which changes the location and not the instant, is the identity. \<open>time.Sub\<close>
  saturates at the bounds of \<open>int64\<close>; \<open>Truncate(time.Microsecond)\<close> rounds down.
\<close>

type_synonym time = int
type_synonym duration = int

definition time_IsZero :: "time \<Rightarrow> bool" where
  "time_IsZero t \<longleftrightarrow> t = 0"

definition time_Sub :: "time \<Rightarrow> time \<Rightarrow> duration" where
  "time_Sub t u = max (- 9223372036854775808) (min max_int64 (t - u))"

definition truncate_microsecond :: "time \<Rightarrow> time" where
  "truncate_microsecond t = t - t mod 1000"

definition unix_epoch :: time where
  "unix_epoch = 62135596800 * 1000000000"

lemma truncate_microsecond_idem [simp]:
  "truncate_microsecond (truncate_microsecond t) = truncate_microsecond t"
  by (simp add: truncate_microsecond_def)

text \<open>The default the code fills in: \<open>if t.IsZero() { t = d }\<close>.\<close>

definition time_or :: "time \<Rightarrow> time \<Rightarrow> time" where
  "time_or t d = (if time_IsZero t then d else t)"

section \<open>Byte strings\<close>

text \<open>
  A Go string is a sequence of bytes, and so is a \<open>string\<close> here (a \<open>char\<close> is a byte). White
  space is the Unicode property in its UTF-8 encoding: \<open>strings.TrimSpace\<close> removes an encoded
  space rune from either end until there is none.
\<close>

definition space1 :: "string list" where
  "space1 = [[CHR 0x20], [CHR 0x09], [CHR 0x0A], [CHR 0x0B], [CHR 0x0C], [CHR 0x0D]]"

definition space2 :: "string list" where
  "space2 = [[CHR 0xC2, CHR 0x85], [CHR 0xC2, CHR 0xA0]]"

definition space3 :: "string list" where
  "space3 = [[CHR 0xE1, CHR 0x9A, CHR 0x80],
     [CHR 0xE2, CHR 0x80, CHR 0x80], [CHR 0xE2, CHR 0x80, CHR 0x81], [CHR 0xE2, CHR 0x80, CHR 0x82],
     [CHR 0xE2, CHR 0x80, CHR 0x83], [CHR 0xE2, CHR 0x80, CHR 0x84], [CHR 0xE2, CHR 0x80, CHR 0x85],
     [CHR 0xE2, CHR 0x80, CHR 0x86], [CHR 0xE2, CHR 0x80, CHR 0x87], [CHR 0xE2, CHR 0x80, CHR 0x88],
     [CHR 0xE2, CHR 0x80, CHR 0x89], [CHR 0xE2, CHR 0x80, CHR 0x8A], [CHR 0xE2, CHR 0x80, CHR 0xA8],
     [CHR 0xE2, CHR 0x80, CHR 0xA9], [CHR 0xE2, CHR 0x80, CHR 0xAF], [CHR 0xE2, CHR 0x81, CHR 0x9F],
     [CHR 0xE3, CHR 0x80, CHR 0x80]]"

definition space_width :: "(nat \<Rightarrow> string) \<Rightarrow> nat" where
  "space_width part = (if part 1 \<in> set space1 then 1 else if part 2 \<in> set space2 then 2
     else if part 3 \<in> set space3 then 3 else 0)"

definition space_prefix :: "string \<Rightarrow> nat" where
  "space_prefix s = space_width (\<lambda>n. take n s)"

definition space_suffix :: "string \<Rightarrow> nat" where
  "space_suffix s = space_width (\<lambda>n. rev (take n (rev s)))"

lemma space_lengths:
  "e \<in> set space1 \<Longrightarrow> length e = 1" "e \<in> set space2 \<Longrightarrow> length e = 2"
  "e \<in> set space3 \<Longrightarrow> length e = 3"
  by (auto simp: space1_def space2_def space3_def)

lemma space_width_le:
  assumes "\<And>n. length (part n) \<le> m"
  shows "space_width part \<le> m"
  using assms [of 1] assms [of 2] assms [of 3] space_lengths
  by (auto simp: space_width_def)

lemma space_prefix_le: "space_prefix s \<le> length s"
  unfolding space_prefix_def by (rule space_width_le) simp

lemma space_suffix_le: "space_suffix s \<le> length s"
  unfolding space_suffix_def by (rule space_width_le) simp

function trim_left :: "string \<Rightarrow> string" where
  "trim_left s = (if space_prefix s = 0 then s else trim_left (drop (space_prefix s) s))"
  by pat_completeness auto
termination
proof (relation "measure length")
  fix s :: string
  assume "space_prefix s \<noteq> 0"
  with space_prefix_le [of s] show "(drop (space_prefix s) s, s) \<in> measure length" by auto
qed simp

function trim_right :: "string \<Rightarrow> string" where
  "trim_right s =
     (if space_suffix s = 0 then s else trim_right (take (length s - space_suffix s) s))"
  by pat_completeness auto
termination
proof (relation "measure length")
  fix s :: string
  assume "space_suffix s \<noteq> 0"
  with space_suffix_le [of s] show "(take (length s - space_suffix s) s, s) \<in> measure length"
    by auto
qed simp

declare trim_left.simps [simp del] trim_right.simps [simp del]

definition TrimSpace :: "string \<Rightarrow> string" where
  "TrimSpace s = trim_right (trim_left s)"

lemma space_prefix_trim_left: "space_prefix (trim_left s) = 0"
  by (induction s rule: trim_left.induct) (metis trim_left.simps)

lemma space_suffix_trim_right: "space_suffix (trim_right s) = 0"
  by (induction s rule: trim_right.induct) (metis trim_right.simps)

lemma trim_right_prefix: "\<exists>k. trim_right s = take k s"
proof (induction s rule: trim_right.induct)
  case (1 s)
  show ?case
  proof (cases "space_suffix s = 0")
    case True
    then have "trim_right s = take (length s) s" by (simp add: trim_right.simps)
    then show ?thesis ..
  next
    case False
    with 1 obtain k where "trim_right (take (length s - space_suffix s) s)
        = take k (take (length s - space_suffix s) s)" by blast
    with False have "trim_right s = take (min k (length s - space_suffix s)) s"
      by (simp add: trim_right.simps [of s])
    then show ?thesis ..
  qed
qed

lemma take_take_space:
  "take n (take k s) \<in> set E \<Longrightarrow> (\<And>e. e \<in> set E \<Longrightarrow> length e = n) \<Longrightarrow> take n s \<in> set E"
  by (metis length_take min.absorb_iff1 min.cobounded1 min_def take_take)

lemma space_prefix_take: "space_prefix s = 0 \<Longrightarrow> space_prefix (take k s) = 0"
  unfolding space_prefix_def space_width_def
  using take_take_space [of 1 k s space1] take_take_space [of 2 k s space2]
    take_take_space [of 3 k s space3] space_lengths
  by (auto split: if_splits)

lemma TrimSpace_idem [simp]: "TrimSpace (TrimSpace s) = TrimSpace s"
proof -
  obtain k where k: "trim_right (trim_left s) = take k (trim_left s)"
    using trim_right_prefix by blast
  have "space_prefix (TrimSpace s) = 0"
    unfolding TrimSpace_def k by (rule space_prefix_take) (rule space_prefix_trim_left)
  then have "trim_left (TrimSpace s) = TrimSpace s" by (simp add: trim_left.simps)
  moreover have "trim_right (TrimSpace s) = TrimSpace s"
    using space_suffix_trim_right by (subst trim_right.simps) (simp add: TrimSpace_def)
  ultimately show ?thesis by (simp add: TrimSpace_def [of "TrimSpace s"])
qed

text \<open>
  \<open>strings.ToLower\<close> on ASCII letters and on the two other runes whose lower case is an ASCII
  letter (U+0130 and the Kelvin sign U+212A); other runes are kept as they are, which no
  comparison with an ASCII constant can see.
\<close>

definition lower_byte :: "char \<Rightarrow> char" where
  "lower_byte c = (if 65 \<le> (of_char c :: nat) \<and> (of_char c :: nat) \<le> 90
     then char_of ((of_char c :: nat) + 32) else c)"

fun ToLower :: "string \<Rightarrow> string" where
  "ToLower [] = []"
| "ToLower (a # s) =
     (if a = CHR 0xC4 \<and> take 1 s = [CHR 0xB0] then CHR ''i'' # ToLower (drop 1 s)
      else if a = CHR 0xE2 \<and> take 2 s = [CHR 0x84, CHR 0xAA] then CHR ''k'' # ToLower (drop 2 s)
      else lower_byte a # ToLower s)"

text \<open>
  \<open>strings.EqualFold\<close> on strings one of which is ASCII: besides the two cases of a letter, the
  Kelvin sign folds to k and the long s (U+017F) to s.
\<close>

fun fold_ascii :: "string \<Rightarrow> string" where
  "fold_ascii [] = []"
| "fold_ascii (a # s) =
     (if a = CHR 0xC5 \<and> take 1 s = [CHR 0xBF] then CHR ''s'' # fold_ascii (drop 1 s)
      else if a = CHR 0xE2 \<and> take 2 s = [CHR 0x84, CHR 0xAA] then CHR ''k'' # fold_ascii (drop 2 s)
      else lower_byte a # fold_ascii s)"

definition EqualFold :: "string \<Rightarrow> string \<Rightarrow> bool" where
  "EqualFold s t \<longleftrightarrow> fold_ascii s = fold_ascii t"

end
