(* ===== verification/Go_Map.thy ===== *)
theory Go_Map
  imports Go_Prelude
begin

text \<open>
  Go maps. A map is an association list read through its first entry for a key; a \<open>range\<close> loop
  visits the entries of \<open>gentries\<close> in list order. Go leaves the order of a \<open>range\<close> loop open, and
  the list stands for one choice of it: two lists with the same lookups (\<open>same_map\<close>) are the same
  Go map with its entries met in another order, so a statement about all lists is a statement
  about all iteration orders. The locale \<open>go_map\<close> states what the store relies on, and is
  interpreted on the association lists below.
\<close>

locale go_map =
  fixes get :: "'m \<Rightarrow> 'k \<Rightarrow> 'v option"
    and put :: "'k \<Rightarrow> 'v \<Rightarrow> 'm \<Rightarrow> 'm"
    and del :: "'k \<Rightarrow> 'm \<Rightarrow> 'm"
    and entries :: "'m \<Rightarrow> ('k \<times> 'v) list"
  assumes get_put: "get (put k v m) k' = (if k' = k then Some v else get m k')"
    and get_del: "get (del k m) k' = (if k' = k then None else get m k')"
    and entries_get: "(k, v) \<in> set (entries m) \<longleftrightarrow> get m k = Some v"
    and entries_distinct: "distinct (map fst (entries m))"
begin

lemma get_put_same: "get (put k v m) k = Some v"
  by (simp add: get_put)

lemma get_put_other: "k' \<noteq> k \<Longrightarrow> get (put k v m) k' = get m k'"
  by (simp add: get_put)

lemma entry_keys: "set (map fst (entries m)) = {k. get m k \<noteq> None}"
proof -
  have "k \<in> fst ` set (entries m) \<longleftrightarrow> (\<exists>v. (k, v) \<in> set (entries m))" for k by force
  then show ?thesis by (auto simp: entries_get)
qed

lemma entry_values: "set (map snd (entries m)) = {v. \<exists>k. get m k = Some v}"
proof -
  have "v \<in> snd ` set (entries m) \<longleftrightarrow> (\<exists>k. (k, v) \<in> set (entries m))" for v by force
  then show ?thesis by (auto simp: entries_get)
qed

lemma distinct_entries: "distinct (entries m)"
  using entries_distinct [of m] by (simp add: distinct_map)

text \<open>A loop that returns the first entry with a property: what it returns, and when.\<close>

lemma find_entry_Some:
  "find (\<lambda>(k, v). P k v) (entries m) = Some (k, v) \<Longrightarrow> get m k = Some v \<and> P k v"
  by (auto simp: find_Some_iff entries_get [symmetric] in_set_conv_nth)

lemma find_entry_None:
  "find (\<lambda>(k, v). P k v) (entries m) = None \<longleftrightarrow> (\<forall>k v. get m k = Some v \<longrightarrow> \<not> P k v)"
  by (auto simp: find_None_iff entries_get)

lemma entry_all: "(\<forall>(k, v) \<in> set (entries m). P k v) \<longleftrightarrow> (\<forall>k v. get m k = Some v \<longrightarrow> P k v)"
  by (auto simp: entries_get)

lemma entry_ex: "(\<exists>(k, v) \<in> set (entries m). P k v) \<longleftrightarrow> (\<exists>k v. get m k = Some v \<and> P k v)"
  by (auto simp: entries_get Bex_def)

text \<open>Two maps with the same lookups have the same entries up to order.\<close>

lemma entries_same:
  assumes "\<And>k. get m k = get m' k"
  shows "set (entries m) = set (entries m')"
proof -
  have "p \<in> set (entries m) \<longleftrightarrow> p \<in> set (entries m')" for p
    by (cases p) (simp add: entries_get assms)
  then show ?thesis by blast
qed

end

type_synonym ('k, 'v) gomap = "('k \<times> 'v) list"

definition gget :: "('k, 'v) gomap \<Rightarrow> 'k \<Rightarrow> 'v option" where
  "gget m k = map_of m k"

definition gput :: "'k \<Rightarrow> 'v \<Rightarrow> ('k, 'v) gomap \<Rightarrow> ('k, 'v) gomap" where
  "gput k v m = AList.update k v m"

definition gdel :: "'k \<Rightarrow> ('k, 'v) gomap \<Rightarrow> ('k, 'v) gomap" where
  "gdel k m = AList.delete k m"

definition gentries :: "('k, 'v) gomap \<Rightarrow> ('k \<times> 'v) list" where
  "gentries m = AList.clearjunk m"

definition gvalues :: "('k, 'v) gomap \<Rightarrow> 'v list" where
  "gvalues m = map snd (gentries m)"

definition same_map :: "('k, 'v) gomap \<Rightarrow> ('k, 'v) gomap \<Rightarrow> bool" where
  "same_map m m' \<longleftrightarrow> (\<forall>k. gget m k = gget m' k)"

interpretation al: go_map gget gput gdel gentries
proof
  fix k k' :: 'k and v :: 'v and m :: "('k, 'v) gomap"
  show "gget (gput k v m) k' = (if k' = k then Some v else gget m k')"
    by (simp add: gget_def gput_def update_conv')
  show "gget (gdel k m) k' = (if k' = k then None else gget m k')"
    by (simp add: gget_def gdel_def delete_conv')
  have "(k, v) \<in> set (AList.clearjunk m) \<longleftrightarrow> map_of (AList.clearjunk m) k = Some v"
    by (rule map_of_eq_Some_iff [symmetric]) (rule distinct_clearjunk)
  then show "(k, v) \<in> set (gentries m) \<longleftrightarrow> gget m k = Some v"
    by (simp add: gget_def gentries_def map_of_clearjunk)
  show "distinct (map fst (gentries m))"
    unfolding gentries_def by (rule distinct_clearjunk)
qed

lemma gget_Nil [simp]: "gget [] k = None"
  by (simp add: gget_def)

lemma gget_Cons: "gget ((a, v) # m) k = (if k = a then Some v else gget m k)"
  by (simp add: gget_def)

lemma gentries_Nil [simp]: "gentries [] = []"
  by (simp add: gentries_def)

lemma gvalues_Nil [simp]: "gvalues [] = []"
  by (simp add: gvalues_def)

lemma gvalues_iff: "v \<in> set (gvalues m) \<longleftrightarrow> (\<exists>k. gget m k = Some v)"
  using al.entry_values [of m] by (auto simp: gvalues_def)

lemma gget_empty_iff: "(\<forall>k. gget m k = None) \<longleftrightarrow> m = []"
  by (cases m) (auto simp: gget_def)

lemmas gget_simps [gomap_simps] = al.get_put al.get_del

section \<open>Totals over a map\<close>

definition gsum :: "('k \<Rightarrow> 'v \<Rightarrow> int) \<Rightarrow> ('k, 'v) gomap \<Rightarrow> int" where
  "gsum f m = sum_list (map (\<lambda>(k, v). f k v) (gentries m))"

abbreviation gdom :: "('k, 'v) gomap \<Rightarrow> 'k set" where
  "gdom m \<equiv> {k. gget m k \<noteq> None}"

lemma finite_gdom: "finite (gdom m)"
  using al.entry_keys [of m] by (metis finite_set)

lemma gsum_dom: "gsum f m = (\<Sum>k \<in> gdom m. f k (the (gget m k)))"
proof -
  have d: "distinct (gentries m)" by (rule al.distinct_entries)
  have i: "inj_on fst (set (gentries m))"
    using al.entries_distinct [of m] by (simp add: distinct_map)
  have "gsum f m = (\<Sum>p \<in> set (gentries m). f (fst p) (snd p))"
    unfolding gsum_def by (subst sum_list_distinct_conv_sum_set [OF d]) (simp add: case_prod_beta)
  also have "\<dots> = (\<Sum>p \<in> set (gentries m). f (fst p) (the (gget m (fst p))))"
    by (rule sum.cong) (auto simp: al.entries_get)
  also have "\<dots> = (\<Sum>k \<in> fst ` set (gentries m). f k (the (gget m k)))"
    using sum.reindex [OF i, of "\<lambda>k. f k (the (gget m k))"] by (simp add: comp_def)
  also have "fst ` set (gentries m) = gdom m"
    using al.entry_keys [of m] by simp
  finally show ?thesis .
qed

lemma gsum_cong:
  assumes "\<And>k. gget m k = gget m' k"
  shows "gsum f m = gsum f m'"
  by (simp add: gsum_dom assms)

lemma gsum_Nil [simp]: "gsum f [] = 0"
  by (simp add: gsum_def)

lemma gsum_gput_new:
  assumes "gget m k = None"
  shows "gsum f (gput k v m) = f k v + gsum f m"
proof -
  have d: "gdom (gput k v m) = insert k (gdom m)" by (auto simp: al.get_put)
  have "(\<Sum>j \<in> gdom m. f j (the (gget (gput k v m) j))) = (\<Sum>j \<in> gdom m. f j (the (gget m j)))"
    by (rule sum.cong) (use assms in \<open>auto simp: al.get_put\<close>)
  moreover have "gsum f (gput k v m) = f k (the (gget (gput k v m) k))
      + (\<Sum>j \<in> gdom m. f j (the (gget (gput k v m) j)))"
    unfolding gsum_dom d using finite_gdom by (rule sum.insert) (simp add: assms)
  ultimately show ?thesis by (simp only: gsum_dom al.get_put_same option.sel)
qed

lemma gsum_gdel:
  assumes "gget m k = Some v"
  shows "gsum f m = f k v + gsum f (gdel k m)"
proof -
  have "gsum f m = gsum f (gput k v (gdel k m))"
    by (rule gsum_cong) (simp add: al.get_put al.get_del assms)
  then show ?thesis by (simp add: gsum_gput_new al.get_del)
qed

lemma gsum_gput:
  "gsum f (gput k v m) = f k v + gsum f (gdel k m)"
proof -
  have "gsum f (gput k v m) = gsum f (gput k v (gdel k m))"
    by (rule gsum_cong) (simp add: al.get_put al.get_del)
  then show ?thesis by (simp add: gsum_gput_new al.get_del)
qed

lemma gsum_replace:
  "gget m k = Some w \<Longrightarrow> gsum f (gput k v m) = gsum f m - f k w + f k v"
  by (simp add: gsum_gput gsum_gdel)

lemma gsum_nonneg: "(\<And>k v. gget m k = Some v \<Longrightarrow> 0 \<le> f k v) \<Longrightarrow> 0 \<le> gsum f m"
  by (auto simp: gsum_dom intro!: sum_nonneg)

section \<open>Maps of maps\<close>

text \<open>
  An absent inner map is nil: it reads as empty (\<open>gread\<close>, \<open>read2\<close>), and assigning to one of its
  entries panics (\<open>assign2\<close> returns \<open>None\<close>). \<open>put2\<close> is the assignment after the usual
  \<open>if m[a] == nil { m[a] = ... }\<close>; \<open>remove2\<close> is \<open>delete(m[a], b)\<close>, a no-op on nil;
  \<open>prune\<close> is \<open>if len(m[a]) == 0 { delete(m, a) }\<close>.
\<close>

definition gread :: "('a, 'b list) gomap \<Rightarrow> 'a \<Rightarrow> 'b list" where
  "gread m a = (case gget m a of None \<Rightarrow> [] | Some i \<Rightarrow> i)"

definition read2 :: "('a, ('b, 'v) gomap) gomap \<Rightarrow> 'a \<Rightarrow> 'b \<Rightarrow> 'v option" where
  "read2 m a b = gget (gread m a) b"

definition slice2 :: "('a, ('b, 'v list) gomap) gomap \<Rightarrow> 'a \<Rightarrow> 'b \<Rightarrow> 'v list" where
  "slice2 m a b = (case read2 m a b of None \<Rightarrow> [] | Some l \<Rightarrow> l)"

definition put2 :: "'a \<Rightarrow> 'b \<Rightarrow> 'v \<Rightarrow> ('a, ('b, 'v) gomap) gomap \<Rightarrow> ('a, ('b, 'v) gomap) gomap" where
  "put2 a b v m = gput a (gput b v (gread m a)) m"

definition ensure :: "'a \<Rightarrow> ('a, 'b list) gomap \<Rightarrow> ('a, 'b list) gomap" where
  "ensure a m = (if gget m a = None then gput a [] m else m)"

definition assign2 ::
  "'a \<Rightarrow> 'b \<Rightarrow> 'v \<Rightarrow> ('a, ('b, 'v) gomap) gomap \<Rightarrow> ('a, ('b, 'v) gomap) gomap option" where
  "assign2 a b v m = (case gget m a of None \<Rightarrow> None | Some i \<Rightarrow> Some (gput a (gput b v i) m))"

definition remove2 :: "'a \<Rightarrow> 'b \<Rightarrow> ('a, ('b, 'v) gomap) gomap \<Rightarrow> ('a, ('b, 'v) gomap) gomap" where
  "remove2 a b m = (case gget m a of None \<Rightarrow> m | Some i \<Rightarrow> gput a (gdel b i) m)"

definition prune :: "'a \<Rightarrow> ('a, 'b list) gomap \<Rightarrow> ('a, 'b list) gomap" where
  "prune a m = (if gread m a = [] then gdel a m else m)"

lemma gread_gput [gomap_simps]: "gread (gput a i m) x = (if x = a then i else gread m x)"
  by (simp add: gread_def al.get_put)

lemma gread_gdel [gomap_simps]: "gread (gdel a m) x = (if x = a then [] else gread m x)"
  by (simp add: gread_def al.get_del)

lemma gread_Nil [simp]: "gread [] a = []"
  by (simp add: gread_def)

lemma gread_ensure [gomap_simps]: "gread (ensure a m) x = gread m x"
  by (simp add: ensure_def gread_gput) (simp add: gread_def)

lemma gread_prune [gomap_simps]: "gread (prune a m) x = gread m x"
  by (simp add: prune_def gread_gdel)

lemma read2_put2 [gomap_simps]:
  "read2 (put2 a b v m) x y = (if x = a \<and> y = b then Some v else read2 m x y)"
  by (simp add: read2_def put2_def gread_gput al.get_put)

lemma read2_gput [gomap_simps]: "read2 (gput a i m) x y = (if x = a then gget i y else read2 m x y)"
  by (simp add: read2_def gread_gput)

lemma read2_gdel [gomap_simps]: "read2 (gdel a m) x y = (if x = a then None else read2 m x y)"
  by (simp add: read2_def gread_gdel)

lemma read2_ensure [gomap_simps]: "read2 (ensure a m) x y = read2 m x y"
  by (simp add: read2_def gread_ensure)

lemma read2_prune [gomap_simps]: "read2 (prune a m) x y = read2 m x y"
  by (simp add: read2_def gread_prune)

lemma gread_remove2: "gread (remove2 a b m) x = (if x = a then gdel b (gread m a) else gread m x)"
  by (simp add: remove2_def gread_def al.get_put gdel_def split: option.splits)

lemma read2_remove2 [gomap_simps]:
  "read2 (remove2 a b m) x y = (if x = a \<and> y = b then None else read2 m x y)"
  by (simp add: read2_def gread_remove2 al.get_del)

lemma assign2_put2: "assign2 a b v m = (if gget m a = None then None else Some (put2 a b v m))"
  by (auto simp: assign2_def put2_def gread_def split: option.splits)

lemma read2_assign2 [gomap_simps]:
  "assign2 a b v m = Some m' \<Longrightarrow> read2 m' x y = (if x = a \<and> y = b then Some v else read2 m x y)"
  by (auto simp: assign2_put2 read2_put2 split: if_splits)

lemma assign2_present: "read2 m a y = Some w \<Longrightarrow> assign2 a b v m = Some (put2 a b v m)"
  by (auto simp: assign2_put2 read2_def gread_def split: option.splits)

lemma read2_Nil [simp]: "read2 [] a b = None"
  by (simp add: read2_def)

lemma slice2_Nil [simp]: "slice2 [] a b = []"
  by (simp add: slice2_def)

lemma slice2_put2 [gomap_simps]:
  "slice2 (put2 a b v m) x y = (if x = a \<and> y = b then v else slice2 m x y)"
  by (simp add: slice2_def read2_put2)

lemma slice2_ensure [gomap_simps]: "slice2 (ensure a m) x y = slice2 m x y"
  by (simp add: slice2_def read2_ensure)

lemma slice2_prune [gomap_simps]: "slice2 (prune a m) x y = slice2 m x y"
  by (simp add: slice2_def read2_prune)

lemma slice2_remove2 [gomap_simps]:
  "slice2 (remove2 a b m) x y = (if x = a \<and> y = b then [] else slice2 m x y)"
  by (simp add: slice2_def read2_remove2)

lemma slice2_gdel [gomap_simps]: "slice2 (gdel a m) x y = (if x = a then [] else slice2 m x y)"
  by (simp add: slice2_def read2_gdel)

lemma slice2_None: "read2 m a b = None \<Longrightarrow> slice2 m a b = []"
  by (simp add: slice2_def)

text \<open>Three levels: \<open>m[a][b][c]\<close>.\<close>

definition read3 :: "('a, ('b, ('c, 'v) gomap) gomap) gomap \<Rightarrow> 'a \<Rightarrow> 'b \<Rightarrow> 'c \<Rightarrow> 'v option" where
  "read3 m a b c = gget (slice2 m a b) c"

definition put3 :: "'a \<Rightarrow> 'b \<Rightarrow> 'c \<Rightarrow> 'v \<Rightarrow> ('a, ('b, ('c, 'v) gomap) gomap) gomap
    \<Rightarrow> ('a, ('b, ('c, 'v) gomap) gomap) gomap" where
  "put3 a b c v m = put2 a b (gput c v (slice2 m a b)) m"

definition slice3 :: "('a, ('b, ('c, 'v list) gomap) gomap) gomap \<Rightarrow> 'a \<Rightarrow> 'b \<Rightarrow> 'c \<Rightarrow> 'v list" where
  "slice3 m a b c = (case read3 m a b c of None \<Rightarrow> [] | Some l \<Rightarrow> l)"

definition assign3 :: "'a \<Rightarrow> 'b \<Rightarrow> 'c \<Rightarrow> 'v \<Rightarrow> ('a, ('b, ('c, 'v) gomap) gomap) gomap
    \<Rightarrow> ('a, ('b, ('c, 'v) gomap) gomap) gomap option" where
  "assign3 a b c v m = (case read2 m a b of None \<Rightarrow> None
     | Some i \<Rightarrow> Some (put2 a b (gput c v i) m))"

lemma read3_put3 [gomap_simps]:
  "read3 (put3 a b c v m) x y z = (if x = a \<and> y = b \<and> z = c then Some v else read3 m x y z)"
  by (simp add: read3_def put3_def slice2_put2 al.get_put)

lemma slice3_put3 [gomap_simps]:
  "slice3 (put3 a b c v m) x y z = (if x = a \<and> y = b \<and> z = c then v else slice3 m x y z)"
  by (simp add: slice3_def read3_put3)

lemma slice2_put3 [gomap_simps]:
  "slice2 (put3 a b c v m) x y = (if x = a \<and> y = b then gput c v (slice2 m a b) else slice2 m x y)"
  by (simp add: put3_def slice2_put2)

lemma read3_remove2 [gomap_simps]:
  "read3 (remove2 a b m) x y z = (if x = a \<and> y = b then None else read3 m x y z)"
  by (simp add: read3_def slice2_remove2)

lemma read3_prune [gomap_simps]: "read3 (prune a m) x y z = read3 m x y z"
  by (simp add: read3_def slice2_prune)

lemma read3_ensure [gomap_simps]: "read3 (ensure a m) x y z = read3 m x y z"
  by (simp add: read3_def slice2_ensure)

lemma read3_gdel [gomap_simps]: "read3 (gdel a m) x y z = (if x = a then None else read3 m x y z)"
  by (simp add: read3_def slice2_gdel)

lemma slice3_remove2 [gomap_simps]:
  "slice3 (remove2 a b m) x y z = (if x = a \<and> y = b then [] else slice3 m x y z)"
  by (simp add: slice3_def read3_remove2)

lemma slice3_prune [gomap_simps]: "slice3 (prune a m) x y z = slice3 m x y z"
  by (simp add: slice3_def read3_prune)

lemma slice3_gdel [gomap_simps]: "slice3 (gdel a m) x y z = (if x = a then [] else slice3 m x y z)"
  by (simp add: slice3_def read3_gdel)

lemma read3_Nil [simp]: "read3 [] a b c = None"
  by (simp add: read3_def)

lemma slice3_Nil [simp]: "slice3 [] a b c = []"
  by (simp add: slice3_def)

lemma assign3_put3: "read3 m a b c = Some w \<Longrightarrow> assign3 a b c v m = Some (put3 a b c v m)"
  by (auto simp: assign3_def put3_def read3_def slice2_def split: option.splits)

end
