(* ===== verification/Go_Json.thy ===== *)
theory Go_Json
  imports Go_Prelude
begin

text \<open>
  \<open>json.Valid\<close> of \<open>encoding/json\<close>, as the byte-at-a-time scanner the standard library runs: a
  step function with a stack of open objects and arrays, limited to 10000 levels. The store
  checks every payload it is given with it and never looks inside.
\<close>

datatype json_step =
    BeginValue | BeginValueOrEmpty | BeginStringOrEmpty | BeginString | EndValue | EndTop
  | InString | InStringEsc | InStringEscU nat | NumNeg | Num1 | Num0 | NumDot | NumDot0
  | NumE | NumESign | NumE0 | Lit string | ScanError

datatype json_ctx = ParseObjectKey | ParseObjectValue | ParseArrayValue

type_synonym json_scanner = "json_step \<times> json_ctx list"

definition max_nesting_depth :: nat where
  "max_nesting_depth = 10000"

definition json_space :: "char \<Rightarrow> bool" where
  "json_space c \<longleftrightarrow> c \<in> {CHR 0x20, CHR 0x09, CHR 0x0A, CHR 0x0D}"

definition digit :: "char \<Rightarrow> bool" where
  "digit c \<longleftrightarrow> 48 \<le> (of_char c :: nat) \<and> (of_char c :: nat) \<le> 57"

definition hex_digit :: "char \<Rightarrow> bool" where
  "hex_digit c \<longleftrightarrow> digit c \<or> 97 \<le> (of_char c :: nat) \<and> (of_char c :: nat) \<le> 102
     \<or> 65 \<le> (of_char c :: nat) \<and> (of_char c :: nat) \<le> 70"

definition scan_push :: "json_ctx \<Rightarrow> json_step \<Rightarrow> json_ctx list \<Rightarrow> json_scanner" where
  "scan_push p st stack =
     (if length stack < max_nesting_depth then (st, p # stack) else (ScanError, stack))"

definition scan_pop :: "json_ctx list \<Rightarrow> json_scanner" where
  "scan_pop stack = (case tl stack of [] \<Rightarrow> (EndTop, []) | rest \<Rightarrow> (EndValue, rest))"

definition scan_end_value :: "char \<Rightarrow> json_ctx list \<Rightarrow> json_scanner" where
  "scan_end_value c stack = (case stack of
     [] \<Rightarrow> if json_space c then (EndTop, []) else (ScanError, [])
   | p # rest \<Rightarrow>
       if json_space c then (EndValue, stack)
       else (case p of
           ParseObjectKey \<Rightarrow>
             if c = CHR '':'' then (BeginValue, ParseObjectValue # rest) else (ScanError, stack)
         | ParseObjectValue \<Rightarrow>
             if c = CHR '','' then (BeginString, ParseObjectKey # rest)
             else if c = CHR ''}'' then scan_pop stack else (ScanError, stack)
         | ParseArrayValue \<Rightarrow>
             if c = CHR '','' then (BeginValue, stack)
             else if c = CHR '']'' then scan_pop stack else (ScanError, stack)))"

definition scan_begin_value :: "json_step \<Rightarrow> char \<Rightarrow> json_ctx list \<Rightarrow> json_scanner" where
  "scan_begin_value self c stack =
     (if json_space c then (self, stack)
      else if c = CHR ''{'' then scan_push ParseObjectKey BeginStringOrEmpty stack
      else if c = CHR ''['' then scan_push ParseArrayValue BeginValueOrEmpty stack
      else if c = CHR 0x22 then (InString, stack)
      else if c = CHR ''-'' then (NumNeg, stack)
      else if c = CHR ''0'' then (Num0, stack)
      else if c = CHR ''t'' then (Lit ''rue'', stack)
      else if c = CHR ''f'' then (Lit ''alse'', stack)
      else if c = CHR ''n'' then (Lit ''ull'', stack)
      else if digit c then (Num1, stack)
      else (ScanError, stack))"

definition scan_begin_string :: "json_step \<Rightarrow> char \<Rightarrow> json_ctx list \<Rightarrow> json_scanner" where
  "scan_begin_string self c stack =
     (if json_space c then (self, stack)
      else if c = CHR 0x22 then (InString, stack) else (ScanError, stack))"

definition scan_num0 :: "char \<Rightarrow> json_ctx list \<Rightarrow> json_scanner" where
  "scan_num0 c stack =
     (if c = CHR ''.'' then (NumDot, stack)
      else if c = CHR ''e'' \<or> c = CHR ''E'' then (NumE, stack) else scan_end_value c stack)"

fun json_scan :: "json_scanner \<Rightarrow> char \<Rightarrow> json_scanner" where
  "json_scan (BeginValue, stack) c = scan_begin_value BeginValue c stack"
| "json_scan (BeginValueOrEmpty, stack) c =
     (if c = CHR '']'' then scan_end_value c stack
      else scan_begin_value BeginValueOrEmpty c stack)"
| "json_scan (BeginStringOrEmpty, stack) c =
     (if c = CHR ''}'' then scan_end_value c (ParseObjectValue # tl stack)
      else scan_begin_string BeginStringOrEmpty c stack)"
| "json_scan (BeginString, stack) c = scan_begin_string BeginString c stack"
| "json_scan (EndValue, stack) c = scan_end_value c stack"
| "json_scan (EndTop, stack) c = (if json_space c then (EndTop, stack) else (ScanError, stack))"
| "json_scan (InString, stack) c =
     (if c = CHR 0x22 then (EndValue, stack)
      else if c = CHR 0x5C then (InStringEsc, stack)
      else if (of_char c :: nat) < 32 then (ScanError, stack)
      else (InString, stack))"
| "json_scan (InStringEsc, stack) c =
     (if c \<in> {CHR ''b'', CHR ''f'', CHR ''n'', CHR ''r'', CHR ''t'', CHR 0x5C, CHR ''/'', CHR 0x22}
      then (InString, stack)
      else if c = CHR ''u'' then (InStringEscU 3, stack) else (ScanError, stack))"
| "json_scan (InStringEscU n, stack) c =
     (if \<not> hex_digit c then (ScanError, stack)
      else case n of 0 \<Rightarrow> (InString, stack) | Suc k \<Rightarrow> (InStringEscU k, stack))"
| "json_scan (NumNeg, stack) c =
     (if c = CHR ''0'' then (Num0, stack) else if digit c then (Num1, stack) else (ScanError, stack))"
| "json_scan (Num1, stack) c = (if digit c then (Num1, stack) else scan_num0 c stack)"
| "json_scan (Num0, stack) c = scan_num0 c stack"
| "json_scan (NumDot, stack) c = (if digit c then (NumDot0, stack) else (ScanError, stack))"
| "json_scan (NumDot0, stack) c =
     (if digit c then (NumDot0, stack)
      else if c = CHR ''e'' \<or> c = CHR ''E'' then (NumE, stack) else scan_end_value c stack)"
| "json_scan (NumE, stack) c =
     (if c = CHR ''+'' \<or> c = CHR ''-'' then (NumESign, stack)
      else if digit c then (NumE0, stack) else (ScanError, stack))"
| "json_scan (NumESign, stack) c = (if digit c then (NumE0, stack) else (ScanError, stack))"
| "json_scan (NumE0, stack) c = (if digit c then (NumE0, stack) else scan_end_value c stack)"
| "json_scan (Lit w, stack) c =
     (case w of [] \<Rightarrow> (ScanError, stack)
      | d # rest \<Rightarrow>
          if c \<noteq> d then (ScanError, stack)
          else if rest = [] then (EndValue, stack) else (Lit rest, stack))"
| "json_scan (ScanError, stack) c = (ScanError, stack)"

text \<open>At the end of the input the scanner is either done or is fed one more space.\<close>

definition json_Valid :: "string \<Rightarrow> bool" where
  "json_Valid s =
     (let final = foldl json_scan (BeginValue, []) s
      in fst final = EndTop \<or> fst (json_scan final (CHR 0x20)) = EndTop)"

lemma json_Valid_empty_object: "json_Valid ''{}''"
  by code_simp

lemma json_Valid_nested: "json_Valid ''{ } '' \<and> json_Valid ''[1,-2.5e+3,true,null]''"
  by code_simp

lemma json_Valid_rejects: "\<not> json_Valid '''' \<and> \<not> json_Valid ''{'' \<and> \<not> json_Valid ''01''
    \<and> \<not> json_Valid ''[1,]'' \<and> \<not> json_Valid ''{} {}''"
  by code_simp

end
