(* ===== verification/Store_Types.thy ===== *)
theory Store_Types
  imports Go_Map Go_Json
begin

text \<open>
  The data of the package \<open>store\<close>: scopes, messages, assistant runs and their events,
  conversation items, threads, turns, thread events, attachments, replica claims, spend,
  permits, preferences and thumbnails, with the validation and normalisation functions that
  every operation applies to its arguments (\<open>store.go\<close>, \<open>thread.go\<close>, \<open>claims.go\<close>,
  \<open>attachment.go\<close>, \<open>spend.go\<close>, \<open>project_thumbnail.go\<close> and the end of \<open>memory.go\<close>).
  Values are immutable here, so the \<open>clone...\<close> helpers of the code, which only keep callers
  from sharing memory with the store, have no counterpart. A read of the clock inside an
  operation is the argument \<open>now\<close>; a pointer that may be nil is an \<open>option\<close>.
\<close>

section \<open>Errors\<close>

text \<open>
  One constructor per sentinel error of the package; an error wrapped with \<open>%w\<close> is its
  sentinel, which is what callers test with \<open>errors.Is\<close>. \<open>ErrInvalid\<close> is an error made by
  \<open>fmt.Errorf\<close> or \<open>errors.New\<close> on the spot, with its fixed text.
\<close>

datatype store_err =
    ErrAssistantRunNotFound | ErrAssistantRunConflict | ErrAssistantRunEventConflict
  | ErrAssistantConversationItemConflict | ErrAssistantApprovalModeInvalid
  | ErrProjectBootstrapPermitConflict
  | ErrAssistantThreadNotFound | ErrAssistantThreadConflict | ErrAssistantThreadActive
  | ErrAssistantTurnNotFound | ErrAssistantTurnConflict | ErrAssistantThreadEventConflict
  | ErrAttachmentNotFound | ErrAttachmentConflict | ErrAttachmentForbidden
  | ErrAttachmentImmutable | ErrAttachmentReceiptMismatch | ErrAttachmentQuotaExceeded
  | ErrAttachmentProjectDeleted | ErrProjectThumbnailNotFound
  | ErrInvalid string

type_synonym 'a sres = "(store_err, 'a) res"

definition check :: "bool \<Rightarrow> store_err \<Rightarrow> store_err option" where
  "check bad e = (if bad then Some e else None)"

fun first_error :: "store_err option list \<Rightarrow> store_err option" where
  "first_error [] = None"
| "first_error (None # es) = first_error es"
| "first_error (Some e # es) = Some e"

lemma check_None [simp]: "check bad e = None \<longleftrightarrow> \<not> bad"
  by (simp add: check_def)

lemma first_error_None [simp]: "first_error es = None \<longleftrightarrow> (\<forall>e \<in> set es. e = None)"
  by (induction es rule: first_error.induct) auto

section \<open>Scopes\<close>

record Scope =
  OrgUUID :: string
  WorkspaceUUID :: string
  ProjectName :: string
  ProjectUID :: string

definition blank :: "string \<Rightarrow> bool" where
  "blank s \<longleftrightarrow> TrimSpace s = []"

definition Scope_validate :: "Scope \<Rightarrow> store_err option" where
  "Scope_validate s = check (blank (OrgUUID s) \<or> blank (WorkspaceUUID s) \<or> blank (ProjectName s)
     \<or> blank (ProjectUID s)) (ErrInvalid ''scope is incomplete'')"

section \<open>Page keys\<close>

text \<open>
  Every listing of the store is ordered by a timestamp and then by ID. The key is a type of its
  own with that order, so that \<open>sort_key\<close> and the cursor comparisons of the code
  (\<open>at.After(cursorAt) || at.Equal(cursorAt) && id > cursorID\<close>) are the order of the type.
\<close>

datatype page_key = PageKey (key_at: time) (key_id: string)

instantiation page_key :: linorder
begin

definition less_eq_page_key :: "page_key \<Rightarrow> page_key \<Rightarrow> bool" where
  "less_eq_page_key k l \<longleftrightarrow> key_at k < key_at l \<or> key_at k = key_at l \<and> key_id k \<le> key_id l"

definition less_page_key :: "page_key \<Rightarrow> page_key \<Rightarrow> bool" where
  "less_page_key k l \<longleftrightarrow> key_at k < key_at l \<or> key_at k = key_at l \<and> key_id k < key_id l"

instance
  by standard (auto simp: less_eq_page_key_def less_page_key_def page_key.expand)

end

section \<open>Messages\<close>

text \<open>A metadata value is a Go \<open>any\<close>: a string, or some other JSON value kept as its text.\<close>

datatype any_value = AnyString string | AnyOther string

record Message =
  msg_ID :: string
  msg_ProjectName :: string
  msg_ProjectUID :: string
  msg_ActorID :: string
  msg_Role :: string
  msg_Content :: string
  msg_ContentEncrypted :: bool
  msg_ContentKeyID :: string
  msg_Metadata :: "(string, any_value) gomap"
  msg_CreatedAt :: time
  msg_UpdatedAt :: time

definition prepareMessage :: "time \<Rightarrow> Scope \<Rightarrow> Message \<Rightarrow> Message" where
  "prepareMessage now scope msg =
     (let msg = msg\<lparr>msg_CreatedAt := time_or (msg_CreatedAt msg) now\<rparr>;
          msg = msg\<lparr>msg_UpdatedAt := time_or (msg_UpdatedAt msg) (msg_CreatedAt msg)\<rparr>
      in msg\<lparr>msg_ProjectName := ProjectName scope, msg_ProjectUID := ProjectUID scope\<rparr>)"

definition message_key :: "Message \<Rightarrow> page_key" where
  "message_key m = PageKey (msg_CreatedAt m) (msg_ID m)"

record Page =
  page_Items :: "Message list"
  page_NextCursor :: string

section \<open>Assistant runs\<close>

datatype AssistantRunStatus =
    AssistantRunStatusPendingPermission | AssistantRunStatusPendingInput
  | AssistantRunStatusRunning | AssistantRunStatusStopping | AssistantRunStatusCompleted
  | AssistantRunStatusFailed | AssistantRunStatusInterrupted | AssistantRunStatusAborted
  | AssistantRunStatusUnknown string \<comment> \<open>any other string, the empty one included\<close>

record AssistantRun =
  run_ID :: string
  run_ThreadID :: string
  run_ProjectName :: string
  run_ProjectUID :: string
  run_Mode :: string
  run_ApprovalMode :: string
  run_Status :: AssistantRunStatus
  run_ClientRequestID :: string
  run_UserMessageID :: string
  run_ActiveMessageID :: string
  run_Revision :: int64
  run_RequestID :: string
  run_Checkpoint :: string
  run_Audit :: string
  run_Error :: string
  run_AbortReason :: string
  run_CreatedAt :: time
  run_UpdatedAt :: time

definition run_key :: "AssistantRun \<Rightarrow> page_key" where
  "run_key r = PageKey (run_CreatedAt r) (run_ID r)"

text \<open>The key the latest run is chosen by.\<close>

definition run_updated_key :: "AssistantRun \<Rightarrow> page_key" where
  "run_updated_key r = PageKey (run_UpdatedAt r) (run_ID r)"

definition assistantRunModeValid :: "string \<Rightarrow> bool" where
  "assistantRunModeValid mode \<longleftrightarrow> mode = ''default'' \<or> mode = ''plan'' \<or> mode = ''review''"

definition approval_modes :: "string list" where
  "approval_modes = [''on_request'', ''always_ask'', ''never'', ''auto_approve'']"

definition NormalizeAssistantApprovalMode :: "string \<Rightarrow> store_err + string" where
  "NormalizeAssistantApprovalMode mode =
     (let mode = ToLower (TrimSpace mode)
      in if mode = [] then Inr ''on_request''
         else if mode \<in> set approval_modes then Inr mode
         else Inl ErrAssistantApprovalModeInvalid)"

fun assistantRunStatusTerminal :: "AssistantRunStatus \<Rightarrow> bool" where
  "assistantRunStatusTerminal AssistantRunStatusCompleted = True"
| "assistantRunStatusTerminal AssistantRunStatusFailed = True"
| "assistantRunStatusTerminal AssistantRunStatusInterrupted = True"
| "assistantRunStatusTerminal AssistantRunStatusAborted = True"
| "assistantRunStatusTerminal _ = False"

fun assistantRunStatusWaitsForInput :: "AssistantRunStatus \<Rightarrow> bool" where
  "assistantRunStatusWaitsForInput AssistantRunStatusPendingPermission = True"
| "assistantRunStatusWaitsForInput AssistantRunStatusPendingInput = True"
| "assistantRunStatusWaitsForInput _ = False"

fun run_status_known :: "AssistantRunStatus \<Rightarrow> bool" where
  "run_status_known (AssistantRunStatusUnknown _) = False"
| "run_status_known _ = True"

definition abort_reasons :: "string list" where
  "abort_reasons = [[], ''interrupted'', ''replaced'', ''budget_limited'', ''iteration_limited'']"

definition validateAssistantRunMode :: "AssistantRun \<Rightarrow> store_err option" where
  "validateAssistantRunMode run = check (\<not> assistantRunModeValid (run_Mode run))
     (ErrInvalid ''assistant run mode must be default, plan, or review'')"

definition validateAssistantRun :: "AssistantRun \<Rightarrow> store_err option" where
  "validateAssistantRun run = first_error
     [check (run_ID run = [] \<or> run_Status run = AssistantRunStatusUnknown [])
        (ErrInvalid ''assistant run id and status are required''),
      (case NormalizeAssistantApprovalMode (run_ApprovalMode run) of Inl e \<Rightarrow> Some e | Inr _ \<Rightarrow> None),
      check (\<not> run_status_known (run_Status run)) (ErrInvalid ''invalid assistant run status''),
      check (run_Error run \<noteq> [] \<and> \<not> json_Valid (run_Error run))
        (ErrInvalid ''assistant run error must be valid json''),
      check (run_AbortReason run \<notin> set abort_reasons)
        (ErrInvalid ''invalid assistant run abort reason''),
      validateAssistantRunMode run]"

definition validateNewAssistantRun ::
  "Message \<Rightarrow> Message \<Rightarrow> AssistantRun \<Rightarrow> store_err option" where
  "validateNewAssistantRun user assistant run = first_error
     [validateAssistantRun run,
      check (msg_ID user = [] \<or> msg_ID assistant = [] \<or> msg_ID user = msg_ID assistant)
        (ErrInvalid ''distinct user and assistant message ids are required''),
      check (msg_Role user \<noteq> ''user'' \<or> blank (msg_ActorID user))
        (ErrInvalid ''user message role and actor are required''),
      check (msg_Role assistant \<noteq> ''assistant'')
        (ErrInvalid ''assistant message role is required''),
      check (run_ClientRequestID run = [] \<or> run_ActiveMessageID run = []
          \<or> run_UserMessageID run \<noteq> msg_ID user \<or> run_ActiveMessageID run \<noteq> msg_ID assistant)
        (ErrInvalid ''assistant run message and client request ids must match its messages''),
      check (run_Revision run \<noteq> 1) (ErrInvalid ''new assistant run revision must be 1'')]"

definition validateAssistantRunSnapshot ::
  "AssistantRun \<Rightarrow> Message list \<Rightarrow> int64 \<Rightarrow> store_err option" where
  "validateAssistantRunSnapshot run messages expectedRevision = first_error
     ([validateAssistantRun run,
       check (expectedRevision < 1 \<or> run_Revision run \<noteq> wrap64 (expectedRevision + 1))
         ErrAssistantRunConflict]
      @ map (\<lambda>m. check (msg_ID m = []) (ErrInvalid ''snapshot message id is required'')) messages)"

definition prepareAssistantRun :: "time \<Rightarrow> Scope \<Rightarrow> AssistantRun \<Rightarrow> AssistantRun" where
  "prepareAssistantRun now scope run =
     (let run = run\<lparr>run_ApprovalMode :=
            (case NormalizeAssistantApprovalMode (run_ApprovalMode run) of Inl _ \<Rightarrow> [] | Inr m \<Rightarrow> m)\<rparr>;
          run = run\<lparr>run_CreatedAt := time_or (run_CreatedAt run) now\<rparr>;
          run = run\<lparr>run_UpdatedAt := time_or (run_UpdatedAt run) (run_CreatedAt run)\<rparr>
      in run\<lparr>run_ProjectName := ProjectName scope, run_ProjectUID := ProjectUID scope\<rparr>)"

definition normalizeLimit :: "int \<Rightarrow> int" where
  "normalizeLimit limit = (if limit \<le> 0 then 50 else if limit > 500 then 500 else limit)"

lemma normalizeLimit_bounds: "1 \<le> normalizeLimit n" "normalizeLimit n \<le> 500"
  by (auto simp: normalizeLimit_def)

section \<open>Run events and conversation items\<close>

record AssistantRunEvent =
  rev_RunID :: string
  rev_ProjectName :: string
  rev_ProjectUID :: string
  rev_Sequence :: int64
  rev_Type :: string
  rev_CallID :: string
  rev_ToolName :: string
  rev_ArgsDigest :: string
  rev_Payload :: string
  rev_CreatedAt :: time

definition prepareAssistantRunEvent ::
  "time \<Rightarrow> Scope \<Rightarrow> AssistantRunEvent \<Rightarrow> int64 \<Rightarrow> store_err + AssistantRunEvent" where
  "prepareAssistantRunEvent now scope event expectedSequence =
     (case Scope_validate scope of Some e \<Rightarrow> Inl e | None \<Rightarrow>
      let event = event\<lparr>rev_RunID := TrimSpace (rev_RunID event), rev_Type := TrimSpace (rev_Type event),
            rev_CallID := TrimSpace (rev_CallID event), rev_ToolName := TrimSpace (rev_ToolName event),
            rev_ArgsDigest := TrimSpace (rev_ArgsDigest event)\<rparr>
      in if rev_RunID event = [] \<or> rev_Type event = []
         then Inl (ErrInvalid ''assistant run event run id and type are required'')
         else if expectedSequence < 0 \<or> expectedSequence = max_int64
         then Inl ErrAssistantRunEventConflict
         else let nextSequence = wrap64 (expectedSequence + 1)
              in if rev_Sequence event \<noteq> 0 \<and> rev_Sequence event \<noteq> nextSequence
                 then Inl ErrAssistantRunEventConflict
                 else let event = event\<lparr>rev_Sequence := nextSequence,
                            rev_Payload := (if rev_Payload event = [] then ''{}'' else rev_Payload event)\<rparr>
                      in if \<not> json_Valid (rev_Payload event)
                         then Inl (ErrInvalid ''assistant run event payload is not valid json'')
                         else Inr (event\<lparr>rev_CreatedAt := time_or (rev_CreatedAt event) now,
                                rev_ProjectName := ProjectName scope,
                                rev_ProjectUID := ProjectUID scope\<rparr>))"

definition validateAssistantRunEventList ::
  "Scope \<Rightarrow> string \<Rightarrow> int64 \<Rightarrow> store_err + string" where
  "validateAssistantRunEventList scope runID afterSequence =
     (case Scope_validate scope of Some e \<Rightarrow> Inl e | None \<Rightarrow>
      let runID = TrimSpace runID
      in if runID = [] then Inl (ErrInvalid ''assistant run event run id is required'')
         else if afterSequence < 0 then Inl ErrAssistantRunEventConflict
         else Inr runID)"

record AssistantConversationItem =
  item_ID :: string
  item_RunID :: string
  item_ProjectName :: string
  item_ProjectUID :: string
  item_Sequence :: int64
  item_Type :: string
  item_Payload :: string
  item_CreatedAt :: time

definition prepareAssistantConversationItem ::
  "time \<Rightarrow> Scope \<Rightarrow> AssistantConversationItem \<Rightarrow> store_err + AssistantConversationItem" where
  "prepareAssistantConversationItem now scope item =
     (case Scope_validate scope of Some e \<Rightarrow> Inl e | None \<Rightarrow>
      let item = item\<lparr>item_ID := TrimSpace (item_ID item), item_RunID := TrimSpace (item_RunID item),
            item_Type := TrimSpace (item_Type item)\<rparr>
      in if item_ID item = [] \<or> item_RunID item = [] \<or> item_Type item = []
         then Inl (ErrInvalid ''assistant conversation item id, run id, and type are required'')
         else let item = item\<lparr>item_ProjectName := ProjectName scope, item_ProjectUID := ProjectUID scope,
                    item_Payload := (if item_Payload item = [] then ''{}'' else item_Payload item)\<rparr>
              in if \<not> json_Valid (item_Payload item)
                 then Inl (ErrInvalid ''assistant conversation item payload must be valid json'')
                 else Inr (item\<lparr>item_CreatedAt := time_or (item_CreatedAt item) now\<rparr>))"

text \<open>
  \<open>canon\<close> is the canonical re-encoding of a JSON document (\<open>encoding/json\<close> decoding with
  \<open>UseNumber\<close>, then encoding): a parameter, \<open>None\<close> where decoding fails.
\<close>

definition assistantConversationPayloadEqual ::
  "(string \<Rightarrow> string option) \<Rightarrow> string \<Rightarrow> string \<Rightarrow> bool" where
  "assistantConversationPayloadEqual canon left right =
     (case (canon left, canon right) of (Some l, Some r) \<Rightarrow> l = r | _ \<Rightarrow> False)"

definition assistantConversationItemsMatch ::
  "(string \<Rightarrow> string option) \<Rightarrow> AssistantConversationItem \<Rightarrow> AssistantConversationItem \<Rightarrow> bool" where
  "assistantConversationItemsMatch canon existing candidate \<longleftrightarrow>
     TrimSpace (item_RunID existing) = TrimSpace (item_RunID candidate)
     \<and> TrimSpace (item_Type existing) = TrimSpace (item_Type candidate)
     \<and> assistantConversationPayloadEqual canon (item_Payload existing) (item_Payload candidate)"

section \<open>Threads, turns and thread events\<close>

datatype AssistantThreadStatus =
    AssistantThreadStatusIdle | AssistantThreadStatusActive | AssistantThreadStatusArchived
  | AssistantThreadStatusUnknown string

record AssistantThread =
  thread_ID :: string
  thread_Title :: string
  thread_Status :: AssistantThreadStatus
  thread_ActorID :: string
  thread_ReasoningEffortByModel :: "(string, string) gomap"
  thread_CreatedAt :: time
  thread_UpdatedAt :: time

definition thread_key :: "AssistantThread \<Rightarrow> page_key" where
  "thread_key t = PageKey (thread_UpdatedAt t) (thread_ID t)"

record AssistantThreadPage =
  tpage_Items :: "AssistantThread list"
  tpage_NextCursor :: string

definition prepareAssistantThread :: "time \<Rightarrow> AssistantThread \<Rightarrow> store_err + AssistantThread" where
  "prepareAssistantThread now thread =
     (let thread = thread\<lparr>thread_ID := TrimSpace (thread_ID thread),
            thread_Title := TrimSpace (thread_Title thread),
            thread_ActorID := TrimSpace (thread_ActorID thread)\<rparr>
      in if thread_ID thread = [] \<or> thread_ActorID thread = []
         then Inl (ErrInvalid ''assistant thread id and actor are required'')
         else let thread = (if thread_Status thread = AssistantThreadStatusUnknown []
                     then thread\<lparr>thread_Status := AssistantThreadStatusIdle\<rparr> else thread)
              in if thread_Status thread \<notin> {AssistantThreadStatusIdle, AssistantThreadStatusActive,
                       AssistantThreadStatusArchived}
                 then Inl (ErrInvalid ''invalid assistant thread status'')
                 else let thread = thread\<lparr>thread_CreatedAt := time_or (thread_CreatedAt thread) now\<rparr>
                      in Inr (thread\<lparr>thread_UpdatedAt :=
                           time_or (thread_UpdatedAt thread) (thread_CreatedAt thread)\<rparr>))"

datatype AssistantTurnStatus =
    AssistantTurnStatusInProgress | AssistantTurnStatusCompleted
  | AssistantTurnStatusInterrupted | AssistantTurnStatusFailed
  | AssistantTurnStatusUnknown string

record AssistantTurn =
  turn_ID :: string
  turn_ThreadID :: string
  turn_ActorID :: string
  turn_ClientUserMessageID :: string
  turn_Mode :: string
  turn_ApprovalMode :: string
  turn_Status :: AssistantTurnStatus
  turn_Checkpoint :: string
  turn_Error :: string
  turn_CreatedAt :: time
  turn_UpdatedAt :: time

fun assistantTurnStatusValid :: "AssistantTurnStatus \<Rightarrow> bool" where
  "assistantTurnStatusValid (AssistantTurnStatusUnknown _) = False"
| "assistantTurnStatusValid _ = True"

definition assistantTurnStatusTerminal :: "AssistantTurnStatus \<Rightarrow> bool" where
  "assistantTurnStatusTerminal status \<longleftrightarrow> status = AssistantTurnStatusCompleted
     \<or> status = AssistantTurnStatusInterrupted \<or> status = AssistantTurnStatusFailed"

definition prepareAssistantTurn :: "time \<Rightarrow> AssistantTurn \<Rightarrow> store_err + AssistantTurn" where
  "prepareAssistantTurn now turn =
     (let turn = turn\<lparr>turn_ID := TrimSpace (turn_ID turn), turn_ThreadID := TrimSpace (turn_ThreadID turn),
            turn_ActorID := TrimSpace (turn_ActorID turn),
            turn_ClientUserMessageID := TrimSpace (turn_ClientUserMessageID turn)\<rparr>
      in if turn_ID turn = [] \<or> turn_ThreadID turn = [] \<or> turn_ActorID turn = []
            \<or> turn_ClientUserMessageID turn = []
         then Inl (ErrInvalid ''assistant turn id, thread id, actor, and client user message id are required'')
         else let turn = turn\<lparr>turn_Mode := (if turn_Mode turn = [] then ''default'' else turn_Mode turn)\<rparr>
         in if \<not> assistantRunModeValid (turn_Mode turn)
            then Inl (ErrInvalid ''invalid assistant turn mode'')
            else (case NormalizeAssistantApprovalMode (turn_ApprovalMode turn) of
              Inl e \<Rightarrow> Inl e
            | Inr mode \<Rightarrow>
              let turn = turn\<lparr>turn_ApprovalMode := mode,
                    turn_Status := (if turn_Status turn = AssistantTurnStatusUnknown []
                      then AssistantTurnStatusInProgress else turn_Status turn)\<rparr>
              in if \<not> assistantTurnStatusValid (turn_Status turn)
                 then Inl (ErrInvalid ''invalid assistant turn status'')
                 else let turn = turn\<lparr>turn_CreatedAt := time_or (turn_CreatedAt turn) now\<rparr>;
                          turn = turn\<lparr>turn_UpdatedAt := time_or (turn_UpdatedAt turn) (turn_CreatedAt turn),
                            turn_Checkpoint := (if turn_Checkpoint turn = [] then ''{}'' else turn_Checkpoint turn),
                            turn_Error := (if turn_Error turn = [] then ''{}'' else turn_Error turn)\<rparr>
                      in if \<not> json_Valid (turn_Checkpoint turn) \<or> \<not> json_Valid (turn_Error turn)
                         then Inl (ErrInvalid ''assistant turn checkpoint and error must be valid json'')
                         else Inr turn))"

record AssistantThreadEvent =
  tev_ThreadID :: string
  tev_TurnID :: string
  tev_Sequence :: int64
  tev_Type :: string
  tev_ItemID :: string
  tev_RequestID :: string
  tev_Payload :: string
  tev_CreatedAt :: time

definition prepareAssistantThreadEvent ::
  "time \<Rightarrow> AssistantThreadEvent \<Rightarrow> store_err + AssistantThreadEvent" where
  "prepareAssistantThreadEvent now event =
     (let event = event\<lparr>tev_ThreadID := TrimSpace (tev_ThreadID event),
            tev_TurnID := TrimSpace (tev_TurnID event), tev_Type := TrimSpace (tev_Type event),
            tev_ItemID := TrimSpace (tev_ItemID event), tev_RequestID := TrimSpace (tev_RequestID event)\<rparr>
      in if tev_ThreadID event = [] \<or> tev_Type event = []
         then Inl (ErrInvalid ''assistant thread event thread id and type are required'')
         else let event = event\<lparr>tev_Payload := (if tev_Payload event = [] then ''{}'' else tev_Payload event)\<rparr>
              in if \<not> json_Valid (tev_Payload event)
                 then Inl (ErrInvalid ''assistant thread event payload must be valid json'')
                 else Inr (event\<lparr>tev_CreatedAt := time_or (tev_CreatedAt event) now\<rparr>))"

text \<open>The loops \<open>for index, event := range events { prepared[index], err = ... }\<close>.\<close>

fun prepareAssistantThreadEvents ::
  "time \<Rightarrow> AssistantThreadEvent list \<Rightarrow> store_err + AssistantThreadEvent list" where
  "prepareAssistantThreadEvents now [] = Inr []"
| "prepareAssistantThreadEvents now (e # es) =
     (case prepareAssistantThreadEvent now e of
        Inl err \<Rightarrow> Inl err
      | Inr p \<Rightarrow> (case prepareAssistantThreadEvents now es of Inl err \<Rightarrow> Inl err | Inr ps \<Rightarrow> Inr (p # ps)))"

text \<open>Sequence numbers \<open>base + index + 1\<close> for a block of events.\<close>

fun number_events :: "int64 \<Rightarrow> AssistantThreadEvent list \<Rightarrow> AssistantThreadEvent list" where
  "number_events base [] = []"
| "number_events base (e # es) =
     e\<lparr>tev_Sequence := wrap64 (base + 1)\<rparr> # number_events (wrap64 (base + 1)) es"

record AssistantThreadActivity =
  TurnCount :: int
  LastActivityAt :: time

end
