(* ===== verification/Store_State.thy ===== *)
theory Store_State
  imports Store_Types
begin

text \<open>
  The remaining records of the package (attachments, replica claims, spend, permits,
  preferences, thumbnails, the event broadcaster) and the state of \<open>MemoryStore\<close>
  (\<open>memory.go\<close>) with its constructor. An operation of the store takes the state and returns its
  result with the new state; the mutex of the code makes every operation one atomic step, so
  concurrency is the order in which operations run.
\<close>

section \<open>Attachments\<close>

record AttachmentQuota =
  WorkspaceMaxBytes :: int64
  DraftProjectMaxBytes :: int64
  DraftProjectMaxCount :: int

record Attachment =
  att_ID :: string
  att_ProjectName :: string
  att_ProjectUID :: string
  att_ActorID :: string
  att_Filename :: string
  att_ContentType :: string
  att_SizeBytes :: int64
  att_SHA256 :: string
  att_Draft :: bool
  att_CreatedAt :: time
  att_ExpiresAt :: "time option"
  att_Data :: string
  att_DataEncrypted :: bool
  att_DataKeyID :: string
  att_BindingID :: string
  att_DraftExpiresAt :: "time option"

record AttachmentReceipt =
  rcpt_ID :: string
  rcpt_Filename :: string
  rcpt_ContentType :: string
  rcpt_SizeBytes :: int64
  rcpt_SHA256 :: string
  rcpt_CreatedAt :: time

section \<open>Replica claims, spend, permits, preferences\<close>

record ReplicaClaim =
  claim_Key :: string
  claim_Kind :: string
  claim_ScopeKey :: string
  claim_OwnerReplica :: string
  claim_OwnerAddr :: string
  claim_Detail :: string
  claim_Revision :: int64
  claim_HeartbeatAt :: time

record OrganizationSpend =
  spend_OrgUUID :: string
  spend_PeriodStart :: time
  spend_InputTokens :: int64
  spend_OutputTokens :: int64
  spend_USDMicros :: int64
  spend_UpdatedAt :: time

record OrganizationSpendDelta =
  delta_InputTokens :: int64
  delta_OutputTokens :: int64
  delta_USDMicros :: int64

type_synonym organizationSpendKey = "string \<times> time"

record projectBootstrapPermit =
  permit_actor :: string
  permit_promptDigest :: string
  permit_clientRequestID :: string

record AssistantApprovalPreference =
  pref_ActorID :: string
  pref_Mode :: string
  pref_UpdatedAt :: time

section \<open>Thumbnails\<close>

record ProjectThumbnail =
  thumb_CommitSHA :: string
  thumb_CommitCreatedAt :: time
  thumb_CommitOrder :: string
  thumb_Variant :: string
  thumb_ContentType :: string
  thumb_SHA256 :: string
  thumb_Data :: string
  thumb_DataEncrypted :: bool
  thumb_DataKeyID :: string
  thumb_CapturedAt :: time

record ProjectThumbnailMetadata =
  tmeta_CommitSHA :: string
  tmeta_CommitCreatedAt :: time
  tmeta_CommitOrder :: string
  tmeta_Variant :: string
  tmeta_ContentType :: string
  tmeta_SHA256 :: string
  tmeta_CapturedAt :: time

section \<open>The event broadcaster\<close>

text \<open>
  A subscriber channel has capacity one and carries no data, so its content is a flag: a
  signal is pending or not. Channels are numbered in the order they are made.
\<close>

record threadEventBroadcaster =
  bc_subs :: "(string, (nat, unit) gomap) gomap"
  bc_pending :: "(nat, bool) gomap"
  bc_next :: nat

section \<open>The store\<close>

type_synonym run_event_lookup_key = "string \<times> string" \<comment> \<open>run ID, event type\<close>
type_synonym turn_event_lookup_key = "string \<times> string" \<comment> \<open>turn ID, event type\<close>

record MemoryStore =
  threadEventSignals :: threadEventBroadcaster
  assistantThreads :: "(Scope, (string, AssistantThread) gomap) gomap"
  assistantTurns :: "(Scope, (string, (string, AssistantTurn) gomap) gomap) gomap"
  threadEvents :: "(Scope, (string, AssistantThreadEvent list) gomap) gomap"
  threadTurnEvents :: "(Scope, (string, AssistantThreadEvent list) gomap) gomap"
  threadTurnEventIndex ::
    "(Scope, (string, (turn_event_lookup_key, AssistantThreadEvent list) gomap) gomap) gomap"
  threadTurnStarts :: "(Scope, (string, (string, int64) gomap) gomap) gomap"
  messages :: "(Scope, (string, Message) gomap) gomap"
  assistantRuns :: "(Scope, (string, AssistantRun) gomap) gomap"
  assistantEvents :: "(Scope, (string, AssistantRunEvent list) gomap) gomap"
  assistantEventLookup :: "(Scope, (run_event_lookup_key, AssistantRunEvent list) gomap) gomap"
  conversationItems :: "(Scope, AssistantConversationItem list) gomap"
  conversationSequences :: "(Scope, int64) gomap"
  replicaClaims :: "(string, ReplicaClaim) gomap"
  approvalModes :: "(Scope, (string, AssistantApprovalPreference) gomap) gomap"
  bootstrapPermits :: "(Scope, projectBootstrapPermit) gomap"
  projectThumbnails :: "(Scope, ProjectThumbnail) gomap"
  attachments :: "(Scope, (string, Attachment) gomap) gomap"
  attachmentDeleted :: "(Scope, unit) gomap"
  attachmentQuota :: AttachmentQuota
  organizationSpend :: "(organizationSpendKey, OrganizationSpend) gomap"

type_synonym 'a op = "MemoryStore \<Rightarrow> 'a sres \<times> MemoryStore"

text \<open>
  \<open>NewMemoryStore\<close>; the default quota comes from constants of the provider SDK and is a
  parameter.
\<close>

definition NewMemoryStore :: "AttachmentQuota \<Rightarrow> MemoryStore" where
  "NewMemoryStore quota = \<lparr>
     threadEventSignals = \<lparr>bc_subs = [], bc_pending = [], bc_next = 0\<rparr>,
     assistantThreads = [], assistantTurns = [], threadEvents = [], threadTurnEvents = [],
     threadTurnEventIndex = [], threadTurnStarts = [], messages = [], assistantRuns = [],
     assistantEvents = [], assistantEventLookup = [], conversationItems = [],
     conversationSequences = [], replicaClaims = [], approvalModes = [], bootstrapPermits = [],
     projectThumbnails = [], attachments = [], attachmentDeleted = [],
     attachmentQuota = quota, organizationSpend = []\<rparr>"

end
