(* ===== verification/Store_Paging.thy ===== *)
theory Store_Paging
  imports Store_State
begin

text \<open>
  Cursor pagination, as \<open>ListMessages\<close> (\<open>memory.go\<close>) and \<open>ListAssistantThreads\<close>
  (\<open>thread_memory.go\<close>) do it: a sorted listing, a window that starts at the first item past the
  cursor, and a next cursor made of the last item of the window when more follow. The locale
  \<open>pager\<close> is the interface between a listing and its pages: the cursor order must agree with
  the positions in the listing. It is interpreted by the message and the thread listings in
  their own theories.
\<close>

section \<open>Cursors\<close>

text \<open>
  The text of a cursor is base64 of JSON; those four standard functions are parameters
  (messages and threads use different JSON members, so each listing has its own codec). What
  the code adds around them is modelled: an empty cursor is the zero time, and a decoded
  cursor must have both members.
\<close>

record cursor_codec =
  codec_marshal :: "time \<Rightarrow> string \<Rightarrow> string"
  codec_unmarshal :: "string \<Rightarrow> (time \<times> string) option"
  codec_EncodeToString :: "string \<Rightarrow> string"
  codec_DecodeString :: "string \<Rightarrow> string option"

definition encodeCursor :: "cursor_codec \<Rightarrow> time \<Rightarrow> string \<Rightarrow> string" where
  "encodeCursor codec createdAt i = codec_EncodeToString codec (codec_marshal codec createdAt i)"

definition decodeCursor :: "cursor_codec \<Rightarrow> string \<Rightarrow> store_err + time \<times> string" where
  "decodeCursor codec raw =
     (let raw = TrimSpace raw
      in if raw = [] then Inr (0, [])
         else (case codec_DecodeString codec raw of
             None \<Rightarrow> Inl (ErrInvalid ''decode cursor'')
           | Some payload \<Rightarrow> (case codec_unmarshal codec payload of
               None \<Rightarrow> Inl (ErrInvalid ''decode cursor json'')
             | Some (at, i) \<Rightarrow>
                 if time_IsZero at \<or> blank i then Inl (ErrInvalid ''cursor is missing createdAt or id'')
                 else Inr (at, i))))"

definition encodeThreadCursor :: "cursor_codec \<Rightarrow> time \<Rightarrow> string \<Rightarrow> string" where
  "encodeThreadCursor codec at i = codec_EncodeToString codec (codec_marshal codec at i)"

definition decodeThreadCursor :: "cursor_codec \<Rightarrow> string \<Rightarrow> store_err + time \<times> string" where
  "decodeThreadCursor codec cursor =
     (if blank cursor then Inr (0, [])
      else (case codec_DecodeString codec cursor of
          None \<Rightarrow> Inl (ErrInvalid ''illegal base64 data'')
        | Some payload \<Rightarrow> (case codec_unmarshal codec payload of
            None \<Rightarrow> Inl ErrAssistantThreadConflict
          | Some (at, i) \<Rightarrow>
              if time_IsZero at \<or> blank i then Inl ErrAssistantThreadConflict else Inr (at, i))))"

text \<open>
  What the code relies on, for the keys \<open>K\<close> that are paged through: base64 decoding undoes
  encoding, encoded text has no white space at its ends and is empty only for an empty input,
  and JSON decoding undoes encoding on those keys (it does for UTF-8 IDs and for years up to
  9999, not for every byte string and instant).
\<close>

definition codec_ok :: "cursor_codec \<Rightarrow> page_key set \<Rightarrow> bool" where
  "codec_ok codec K \<longleftrightarrow>
     (\<forall>payload. codec_DecodeString codec (codec_EncodeToString codec payload) = Some payload
        \<and> TrimSpace (codec_EncodeToString codec payload) = codec_EncodeToString codec payload
        \<and> (payload \<noteq> [] \<longrightarrow> codec_EncodeToString codec payload \<noteq> []))
     \<and> (\<forall>k \<in> K. codec_unmarshal codec (codec_marshal codec (key_at k) (key_id k))
            = Some (key_at k, key_id k)
        \<and> codec_marshal codec (key_at k) (key_id k) \<noteq> [])"

lemma decodeCursor_encode:
  assumes "codec_ok codec K" "k \<in> K" "\<not> time_IsZero (key_at k)" "\<not> blank (key_id k)"
  shows "decodeCursor codec (encodeCursor codec (key_at k) (key_id k)) = Inr (key_at k, key_id k)"
    and "encodeCursor codec (key_at k) (key_id k) \<noteq> []"
  using assms by (auto simp: codec_ok_def decodeCursor_def encodeCursor_def Let_def)

lemma decodeThreadCursor_encode:
  assumes "codec_ok codec K" "k \<in> K" "\<not> time_IsZero (key_at k)" "\<not> blank (key_id k)"
  shows "decodeThreadCursor codec (encodeThreadCursor codec (key_at k) (key_id k))
      = Inr (key_at k, key_id k)"
    and "encodeThreadCursor codec (key_at k) (key_id k) \<noteq> []"
  using assms by (auto simp: codec_ok_def decodeThreadCursor_def encodeThreadCursor_def blank_def)

text \<open>A page key that a cursor can name.\<close>

definition cursor_key :: "page_key \<Rightarrow> bool" where
  "cursor_key k \<longleftrightarrow> \<not> time_IsZero (key_at k) \<and> \<not> blank (key_id k)"

definition cursor_in :: "page_key set \<Rightarrow> page_key option \<Rightarrow> bool" where
  "cursor_in K cursor \<longleftrightarrow> (\<forall>k. cursor = Some k \<longrightarrow> k \<in> K \<and> cursor_key k)"

lemma decodeCursor_empty [simp]: "decodeCursor codec [] = Inr (0, [])"
  by (simp add: decodeCursor_def TrimSpace_def trim_left.simps trim_right.simps space_prefix_def
      space_suffix_def space_width_def space1_def space2_def space3_def)

lemma blank_Nil [simp]: "blank []"
  by (simp add: blank_def TrimSpace_def trim_left.simps trim_right.simps space_prefix_def
      space_suffix_def space_width_def space1_def space2_def space3_def)

lemma decodeThreadCursor_empty [simp]: "decodeThreadCursor codec [] = Inr (0, [])"
  by (simp add: decodeThreadCursor_def)

section \<open>Windows\<close>

text \<open>
  The window a page is made of, and the item its next cursor names. \<open>after\<close> says whether an
  item lies past the cursor; without a cursor the window starts at the beginning.
\<close>

definition page_window :: "('a \<Rightarrow> bool) option \<Rightarrow> int \<Rightarrow> 'a list \<Rightarrow> 'a list \<times> 'a option" where
  "page_window after limit all =
     (let start = (case after of None \<Rightarrow> 0 | Some P \<Rightarrow> length (takeWhile (\<lambda>x. \<not> P x) all))
      in if length all \<le> start then ([], None)
         else let stop = min (start + nat limit) (length all);
                  items = take (stop - start) (drop start all)
              in (items, if stop < length all then Some (last items) else None))"

definition page_fetch :: "(page_key \<Rightarrow> 'a \<Rightarrow> bool) \<Rightarrow> int \<Rightarrow> 'a list \<Rightarrow> page_key option
    \<Rightarrow> 'a list \<times> 'a option" where
  "page_fetch after limit all cursor = page_window (map_option after cursor) limit all"

text \<open>A client that asks for pages until there is no next cursor.\<close>

fun page_loop :: "nat \<Rightarrow> (page_key option \<Rightarrow> 'a list \<times> 'a option) \<Rightarrow> ('a \<Rightarrow> page_key)
    \<Rightarrow> page_key option \<Rightarrow> 'a list" where
  "page_loop 0 fetch key cursor = []"
| "page_loop (Suc fuel) fetch key cursor =
     (case fetch cursor of
        (items, None) \<Rightarrow> items
      | (items, Some x) \<Rightarrow> items @ page_loop fuel fetch key (Some (key x)))"

lemma page_fetch_next_mem:
  assumes "page_fetch after limit all cursor = (items, Some x)" "1 \<le> limit"
  shows "x \<in> set all"
proof -
  from assms have "x = last items" "items \<noteq> []" "set items \<subseteq> set all"
    by (auto simp: page_fetch_def page_window_def Let_def split: if_splits
        dest!: in_set_takeD in_set_dropD)
  then show ?thesis using last_in_set by blast
qed

text \<open>The same client against an operation that takes and returns cursors as text.\<close>

fun collect_pages :: "nat \<Rightarrow> (string \<Rightarrow> ('a list \<times> string) sres) \<Rightarrow> string \<Rightarrow> 'a list sres" where
  "collect_pages 0 fetch cursor = Ok []"
| "collect_pages (Suc fuel) fetch cursor =
     (case fetch cursor of
        Err e \<Rightarrow> Err e
      | Panic \<Rightarrow> Panic
      | Ok (items, nextCursor) \<Rightarrow>
          if nextCursor = [] then Ok items
          else (case collect_pages fuel fetch nextCursor of Ok rest \<Rightarrow> Ok (items @ rest) | other \<Rightarrow> other))"

definition page_result :: "(page_key option \<Rightarrow> string) \<Rightarrow> ('a \<Rightarrow> page_key) \<Rightarrow> 'a list \<times> 'a option
    \<Rightarrow> ('a list \<times> string) sres" where
  "page_result start key p = (case p of (items, None) \<Rightarrow> Ok (items, [])
     | (items, Some x) \<Rightarrow> Ok (items, start (Some (key x))))"

lemma collect_pages_loop:
  assumes keys: "\<forall>k \<in> key ` set all. cursor_key k \<and> start (Some k) \<noteq> []" and lim: "1 \<le> limit"
    and fetch: "\<And>cursor. cursor_in (key ` set all) cursor \<Longrightarrow>
      fetch (start cursor) = page_result start key (page_fetch after limit all cursor)"
  shows "cursor_in (key ` set all) cursor \<Longrightarrow> collect_pages fuel fetch (start cursor) =
    Ok (page_loop fuel (page_fetch after limit all) key cursor)"
proof (induction fuel arbitrary: cursor)
  case (Suc fuel)
  obtain items nxt where F: "page_fetch after limit all cursor = (items, nxt)" by fastforce
  note L = fetch [OF Suc.prems, unfolded F page_result_def]
  show ?case
  proof (cases nxt)
    case (Some x)
    then have "x \<in> set all" using page_fetch_next_mem [OF F [unfolded Some] lim] by simp
    then have x: "cursor_in (key ` set all) (Some (key x))" "start (Some (key x)) \<noteq> []"
      using keys by (auto simp: cursor_in_def)
    from Suc.IH [OF x(1)] L F Some x(2) show ?thesis by simp
  qed (use L F in simp)
qed simp

locale pager =
  fixes wf :: "'m \<Rightarrow> bool"
    and listing :: "'m \<Rightarrow> 'a list"
    and key :: "'a \<Rightarrow> page_key"
    and after :: "page_key \<Rightarrow> 'a \<Rightarrow> bool"
  assumes after_later: "wf m \<Longrightarrow> i < j \<Longrightarrow> j < length (listing m) \<Longrightarrow>
      after (key (listing m ! i)) (listing m ! j)"
    and not_after_earlier: "wf m \<Longrightarrow> j \<le> i \<Longrightarrow> i < length (listing m) \<Longrightarrow>
      \<not> after (key (listing m ! i)) (listing m ! j)"
begin

lemma window_start:
  assumes "wf m" "i < length (listing m)"
  shows "length (takeWhile (\<lambda>x. \<not> after (key (listing m ! i)) x) (listing m)) = Suc i"
proof -
  let ?L = "listing m" and ?P = "\<lambda>x. \<not> after (key (listing m ! i)) x"
  have "takeWhile ?P ?L = take (Suc i) ?L"
  proof (rule takeWhile_eq_take_P_nth)
    fix n assume "n < Suc i" "n < length ?L"
    with assms show "?P (?L ! n)" by (simp add: not_after_earlier)
  next
    assume "Suc i < length ?L"
    with assms show "\<not> ?P (?L ! Suc i)" by (simp add: after_later)
  qed
  with assms(2) show ?thesis by simp
qed

lemma fetch_at:
  assumes wf: "wf m" and k: "k \<le> length (listing m)" and lim: "1 \<le> limit"
    and start: "cursor = (if k = 0 then None else Some (key (listing m ! (k - 1))))"
  shows "page_fetch after limit (listing m) cursor =
    (take (nat limit) (drop k (listing m)),
     if k + nat limit < length (listing m) then Some (listing m ! (k + nat limit - 1)) else None)"
proof -
  let ?L = "listing m"
  have st: "(case map_option after cursor of None \<Rightarrow> 0
      | Some P \<Rightarrow> length (takeWhile (\<lambda>x. \<not> P x) ?L)) = k"
    using start k window_start [OF wf, of "k - 1"] by (cases k) auto
  have last: "last (take (nat limit) (drop k ?L)) = ?L ! (k + nat limit - 1)"
    if "k + nat limit < length ?L"
    using that lim by (simp add: last_conv_nth)
  show ?thesis
    unfolding page_fetch_def page_window_def Let_def st
    using lim last by (auto simp: min_def)
qed

text \<open>
  Following the next cursors visits every item of the listing exactly once and in order, for
  any page size, and a fetch per page is enough.
\<close>

lemma page_loop_from:
  assumes wf: "wf m" and lim: "1 \<le> limit"
  shows "k \<le> length (listing m) \<Longrightarrow>
    cursor = (if k = 0 then None else Some (key (listing m ! (k - 1)))) \<Longrightarrow>
    length (listing m) - k < fuel \<Longrightarrow>
    page_loop fuel (page_fetch after limit (listing m)) key cursor = drop k (listing m)"
proof (induction fuel arbitrary: k cursor)
  case 0
  then show ?case by simp
next
  case (Suc fuel)
  let ?L = "listing m"
  note F = fetch_at [OF wf Suc.prems(1) lim Suc.prems(2)]
  show ?case
  proof (cases "k + nat limit < length ?L")
    case False
    then show ?thesis by (simp add: F)
  next
    case True
    have "page_loop fuel (page_fetch after limit (listing m)) key (Some (key (?L ! (k + nat limit - 1))))
        = drop (k + nat limit) ?L"
      using True lim Suc.prems(3) by (intro Suc.IH) auto
    moreover have "take (nat limit) (drop k ?L) @ drop (k + nat limit) ?L = drop k ?L"
      by (metis add.commute append_take_drop_id drop_drop)
    ultimately show ?thesis
      using True by (simp add: F)
  qed
qed

lemma page_loop_all:
  assumes "wf m" "1 \<le> limit" "length (listing m) < fuel"
  shows "page_loop fuel (page_fetch after limit (listing m)) key None = listing m"
  using page_loop_from [OF assms(1,2), of 0 None fuel] assms(3) by simp

lemma collect_all:
  assumes "wf m" "1 \<le> limit" "length (listing m) < fuel"
    and "\<forall>k \<in> key ` set (listing m). cursor_key k \<and> start (Some k) \<noteq> []"
    and "\<And>cursor. cursor_in (key ` set (listing m)) cursor \<Longrightarrow>
      fetch (start cursor) = page_result start key (page_fetch after limit (listing m) cursor)"
  shows "collect_pages fuel fetch (start None) = Ok (listing m)"
proof -
  have "collect_pages fuel fetch (start None)
      = Ok (page_loop fuel (page_fetch after limit (listing m)) key None)"
    by (rule collect_pages_loop [OF assms(4,2,5)]) (auto simp: cursor_in_def)
  then show ?thesis using page_loop_all [OF assms(1-3)] by simp
qed

text \<open>No page is larger than the limit.\<close>

lemma fetch_limit: "length (fst (page_fetch after limit (listing m) cursor)) \<le> nat limit"
  by (auto simp: page_fetch_def page_window_def Let_def)

end

section \<open>Sorted listings\<close>

text \<open>
  Sorting by a key that is different for different items gives one result, whatever the order
  of the input: the listings do not depend on the iteration order of the maps.
\<close>

lemma sort_key_unique:
  assumes "set xs = set ys" "distinct xs" "distinct ys" "inj_on f (set xs)"
  shows "sort_key f xs = sort_key f ys"
proof -
  have "map f (sort_key f xs) = map f (sort_key f ys)"
  proof (rule sorted_distinct_set_unique)
    show "distinct (map f (sort_key f xs))" using assms by (simp add: distinct_map)
    show "distinct (map f (sort_key f ys))" using assms by (simp add: distinct_map)
  qed (use assms in simp_all)
  moreover have "inj_on f (set (sort_key f xs) \<union> set (sort_key f ys))"
    using assms by simp
  ultimately show ?thesis by (rule map_inj_on)
qed

lemma sort_key_strict:
  assumes "distinct xs" "inj_on f (set xs)" "i < j" "j < length xs"
  shows "f (sort_key f xs ! i) < f (sort_key f xs ! j)"
proof -
  let ?ys = "sort_key f xs"
  have "sorted (map f ?ys)" by simp
  then have "f (?ys ! i) \<le> f (?ys ! j)"
    using assms(3,4) sorted_nth_mono [of "map f ?ys" i j] by simp
  moreover have "distinct (map f ?ys)" using assms by (simp add: distinct_map)
  then have "f (?ys ! i) \<noteq> f (?ys ! j)"
    using assms(3,4) nth_eq_iff_index_eq [of "map f ?ys" i j] by simp
  ultimately show ?thesis by simp
qed

text \<open>Values stored under their own ID are distinct, and so are their keys.\<close>

lemma keyed_values:
  assumes "\<And>k v. gget m k = Some v \<Longrightarrow> ident v = k"
  shows "distinct (gvalues m)" "inj_on ident (set (gvalues m))"
proof -
  have "map ident (gvalues m) = map fst (gentries m)"
    using assms by (auto simp: gvalues_def al.entries_get)
  with al.entries_distinct [of m] have d: "distinct (map ident (gvalues m))" by simp
  then show "distinct (gvalues m)" by (simp add: distinct_map)
  from d show "inj_on ident (set (gvalues m))" by (simp add: distinct_map)
qed

lemma same_map_values:
  assumes "same_map m m'"
  shows "set (gvalues m) = set (gvalues m')"
  using assms by (auto simp: same_map_def gvalues_iff)

end
