(* ===== verification/Store_Messages.thy ===== *)
theory Store_Messages
  imports Store_Paging
begin

text \<open>
  The message transcript of \<open>MemoryStore\<close> (\<open>memory.go\<close>): \<open>AppendMessage\<close>, \<open>ListMessages\<close>,
  \<open>LoadRecentMessages\<close>, \<open>GetMessagesByIDs\<close> and \<open>sortedMessages\<close>. Shown: messages stay filed under their own ID and keep their actor, a listing
  does not depend on map order, and paging through the store returns the whole transcript.
\<close>

section \<open>Operations\<close>

definition AppendMessage :: "time \<Rightarrow> Scope \<Rightarrow> Message \<Rightarrow> unit op" where
  [op_defs]: "AppendMessage now scope msg st =
     (case Scope_validate scope of Some e \<Rightarrow> (Err e, st) | None \<Rightarrow>
      if msg_ID msg = [] then (Err (ErrInvalid ''message id is required''), st)
      else let msg = prepareMessage now scope msg;
               st = st\<lparr>messages := ensure scope (messages st)\<rparr>
      in (case read2 (messages st) scope (msg_ID msg) of
            Some existing \<Rightarrow>
              if msg_ActorID existing \<noteq> msg_ActorID msg
              then (Err (ErrInvalid ''message actor is immutable''), st)
              else (Ok (), st\<lparr>messages := put2 scope (msg_ID msg) msg (messages st)\<rparr>)
          | None \<Rightarrow> (Ok (), st\<lparr>messages := put2 scope (msg_ID msg) msg (messages st)\<rparr>)))"

definition sortedMessages :: "(string, Message) gomap \<Rightarrow> Message list" where
  "sortedMessages ms = sort_key message_key (gvalues ms)"

definition ListMessages :: "cursor_codec \<Rightarrow> Scope \<Rightarrow> int \<Rightarrow> string \<Rightarrow> MemoryStore \<Rightarrow> Page sres" where
  "ListMessages codec scope limit cursor st =
     (case Scope_validate scope of Some e \<Rightarrow> Err e | None \<Rightarrow>
      let limit = normalizeLimit limit;
          all = sortedMessages (gread (messages st) scope)
      in (case decodeCursor codec cursor of
          Inl e \<Rightarrow> Err e
        | Inr (cursorAt, cursorID) \<Rightarrow>
            let after = (if time_IsZero cursorAt then None
                  else Some (\<lambda>m. PageKey cursorAt cursorID < message_key m))
            in (case page_window after limit all of
                (items, None) \<Rightarrow> Ok \<lparr>page_Items = items, page_NextCursor = []\<rparr>
              | (items, Some last_item) \<Rightarrow> Ok \<lparr>page_Items = items,
                  page_NextCursor = encodeCursor codec (msg_CreatedAt last_item) (msg_ID last_item)\<rparr>)))"

definition LoadRecentMessages :: "Scope \<Rightarrow> int \<Rightarrow> MemoryStore \<Rightarrow> Message list sres" where
  "LoadRecentMessages scope limit st =
     (case Scope_validate scope of Some e \<Rightarrow> Err e | None \<Rightarrow>
      let limit = normalizeLimit limit;
          all = sortedMessages (gread (messages st) scope)
      in Ok (if int (length all) > limit then drop (length all - nat limit) all else all))"

fun collect_messages_by_id ::
  "(string, Message) gomap \<Rightarrow> string set \<Rightarrow> string list \<Rightarrow> Message list" where
  "collect_messages_by_id ms seen [] = []"
| "collect_messages_by_id ms seen (rawID # rest) =
     (let i = TrimSpace rawID
      in if i = [] \<or> i \<in> seen then collect_messages_by_id ms seen rest
         else (case gget ms i of
             Some m \<Rightarrow> m # collect_messages_by_id ms (insert i seen) rest
           | None \<Rightarrow> collect_messages_by_id ms (insert i seen) rest))"

definition GetMessagesByIDs :: "Scope \<Rightarrow> string list \<Rightarrow> MemoryStore \<Rightarrow> Message list sres" where
  "GetMessagesByIDs scope messageIDs st =
     (case Scope_validate scope of Some e \<Rightarrow> Err e
      | None \<Rightarrow> Ok (collect_messages_by_id (gread (messages st) scope) {} messageIDs))"

section \<open>Messages are filed under their ID\<close>

definition messages_keyed :: "MemoryStore \<Rightarrow> bool" where
  "messages_keyed st \<longleftrightarrow> (\<forall>scope i m. read2 (messages st) scope i = Some m \<longrightarrow>
     msg_ID m = i \<and> msg_ProjectName m = ProjectName scope \<and> msg_ProjectUID m = ProjectUID scope)"

lemma prepareMessage_simps [simp]:
  "msg_ID (prepareMessage now scope m) = msg_ID m"
  "msg_ActorID (prepareMessage now scope m) = msg_ActorID m"
  "msg_ProjectName (prepareMessage now scope m) = ProjectName scope"
  "msg_ProjectUID (prepareMessage now scope m) = ProjectUID scope"
  by (simp_all add: prepareMessage_def Let_def)

text \<open>What \<open>AppendMessage\<close> does to the state, on every branch.\<close>

lemma AppendMessage_cases:
  assumes "AppendMessage now scope msg st = (r, st')"
  obtains (refused) e where "r = Err e" "messages st' = messages st \<or> messages st' = ensure scope (messages st)"
      "st' = st\<lparr>messages := messages st'\<rparr>"
  | (stored) "r = Ok ()" "Scope_validate scope = None" "msg_ID msg \<noteq> []"
      "st' = st\<lparr>messages := put2 scope (msg_ID msg) (prepareMessage now scope msg)
         (ensure scope (messages st))\<rparr>"
      "\<And>old. read2 (messages st) scope (msg_ID msg) = Some old \<Longrightarrow> msg_ActorID old = msg_ActorID msg"
proof (cases "Scope_validate scope = None \<and> msg_ID msg \<noteq> []")
  case False
  with assms have "(\<exists>e. r = Err e) \<and> st' = st"
    by (auto simp: AppendMessage_def split: option.splits if_splits)
  with refused show thesis by fastforce
next
  case valid: True
  show thesis
  proof (cases "\<exists>old. read2 (messages st) scope (msg_ID msg) = Some old
      \<and> msg_ActorID old \<noteq> msg_ActorID msg")
    case True
    with valid assms have "r = Err (ErrInvalid ''message actor is immutable'')"
      and "st' = st\<lparr>messages := ensure scope (messages st)\<rparr>"
      by (auto simp: AppendMessage_def Let_def read2_ensure)
    with refused show thesis by simp
  next
    case False
    with valid assms show thesis
      by (intro stored) (auto simp: AppendMessage_def Let_def read2_ensure split: option.splits)
  qed
qed

lemma AppendMessage_read2:
  assumes "AppendMessage now scope msg st = (r, st')"
  shows "read2 (messages st') sc i =
    (if r = Ok () \<and> sc = scope \<and> i = msg_ID msg then Some (prepareMessage now scope msg)
     else read2 (messages st) sc i)"
  using assms
  by (cases rule: AppendMessage_cases) (auto simp: gomap_simps)

lemma AppendMessage_keyed:
  "AppendMessage now scope msg st = (r, st') \<Longrightarrow> messages_keyed st \<Longrightarrow> messages_keyed st'"
  by (auto simp: messages_keyed_def AppendMessage_read2)

lemma AppendMessage_no_panic:
  "AppendMessage now scope msg st = (r, st') \<Longrightarrow> r \<noteq> Panic"
  by (auto elim: AppendMessage_cases)

lemma AppendMessage_frame [frame]:
  assumes "AppendMessage now scope msg st = (r, st')"
  shows "st' = st\<lparr>messages := messages st'\<rparr>"
  using assms by (cases rule: AppendMessage_cases) auto

section \<open>Listings\<close>

definition msgs_keyed :: "(string, Message) gomap \<Rightarrow> bool" where
  "msgs_keyed ms \<longleftrightarrow> (\<forall>k v. gget ms k = Some v \<longrightarrow> msg_ID v = k)"

lemma messages_keyed_scope: "messages_keyed st \<Longrightarrow> msgs_keyed (gread (messages st) scope)"
  by (simp add: messages_keyed_def msgs_keyed_def read2_def)

lemma message_key_inj: "inj_on msg_ID A \<Longrightarrow> inj_on message_key A"
  by (auto simp: inj_on_def message_key_def)

lemma msgs_keyed_values:
  assumes "msgs_keyed ms"
  shows "distinct (gvalues ms)" "inj_on message_key (set (gvalues ms))"
proof -
  have k: "\<And>k v. gget ms k = Some v \<Longrightarrow> msg_ID v = k"
    using assms by (simp add: msgs_keyed_def)
  show "distinct (gvalues ms)" by (rule keyed_values(1) [OF k])
  show "inj_on message_key (set (gvalues ms))"
    by (rule message_key_inj) (rule keyed_values(2) [OF k])
qed

lemma sortedMessages_strict:
  assumes "msgs_keyed ms" "i < j" "j < length (sortedMessages ms)"
  shows "message_key (sortedMessages ms ! i) < message_key (sortedMessages ms ! j)"
  using assms msgs_keyed_values [OF assms(1)]
  by (simp add: sortedMessages_def sort_key_strict)

lemma set_sortedMessages: "m \<in> set (sortedMessages ms) \<longleftrightarrow> (\<exists>k. gget ms k = Some m)"
  by (simp add: sortedMessages_def gvalues_iff)

lemma sortedMessages_order_independent:
  assumes "same_map ms ms'" "msgs_keyed ms"
  shows "sortedMessages ms = sortedMessages ms'"
proof -
  from assms have "msgs_keyed ms'" by (simp add: msgs_keyed_def same_map_def)
  with assms show ?thesis
    unfolding sortedMessages_def
    by (intro sort_key_unique same_map_values msgs_keyed_values)
qed

interpretation msgs: pager msgs_keyed sortedMessages message_key "\<lambda>k m. k < message_key m"
proof
  fix ms i j
  assume "msgs_keyed ms" "i < j" "j < length (sortedMessages ms)"
  then show "message_key (sortedMessages ms ! i) < message_key (sortedMessages ms ! j)"
    by (rule sortedMessages_strict)
next
  fix ms j and i :: nat
  assume "msgs_keyed ms" "j \<le> i" "i < length (sortedMessages ms)"
  then show "\<not> message_key (sortedMessages ms ! i) < message_key (sortedMessages ms ! j)"
    using sortedMessages_strict [of ms j i] by (cases "j = i") auto
qed

text \<open>\<open>ListMessages\<close> is a fetch of the pager, and its client loop collects its pages.\<close>

definition page_start :: "cursor_codec \<Rightarrow> page_key option \<Rightarrow> string" where
  "page_start codec cursor = (case cursor of None \<Rightarrow> []
     | Some k \<Rightarrow> encodeCursor codec (key_at k) (key_id k))"

definition fetch_messages ::
  "cursor_codec \<Rightarrow> Scope \<Rightarrow> int \<Rightarrow> MemoryStore \<Rightarrow> string \<Rightarrow> (Message list \<times> string) sres" where
  "fetch_messages codec scope limit st cursor =
     (case ListMessages codec scope limit cursor st of
        Err e \<Rightarrow> Err e | Panic \<Rightarrow> Panic | Ok page \<Rightarrow> Ok (page_Items page, page_NextCursor page))"

lemma ListMessages_fetch:
  assumes "Scope_validate scope = None" "codec_ok codec K" "cursor_in K cursor"
  shows "fetch_messages codec scope limit st (page_start codec cursor) =
    page_result (page_start codec) message_key
      (page_fetch (\<lambda>k m. k < message_key m) (normalizeLimit limit)
        (sortedMessages (gread (messages st) scope)) cursor)"
proof -
  have [simp]: "time_IsZero 0" by (simp add: time_IsZero_def)
  from assms show ?thesis
    by (cases cursor) (auto simp: fetch_messages_def ListMessages_def page_start_def page_fetch_def
        Let_def cursor_in_def cursor_key_def decodeCursor_encode(1) [OF assms(2)] page_result_def
        message_key_def split: prod.split option.split)
qed

definition messages_pageable :: "cursor_codec \<Rightarrow> (string, Message) gomap \<Rightarrow> bool" where
  "messages_pageable codec ms \<longleftrightarrow> msgs_keyed ms
     \<and> (\<forall>m \<in> set (gvalues ms). cursor_key (message_key m))
     \<and> codec_ok codec (message_key ` set (gvalues ms))"

text \<open>A client that asks for page after page.\<close>

definition collectMessages ::
  "nat \<Rightarrow> cursor_codec \<Rightarrow> Scope \<Rightarrow> int \<Rightarrow> MemoryStore \<Rightarrow> Message list sres" where
  "collectMessages fuel codec scope limit st =
     collect_pages fuel (fetch_messages codec scope limit st) []"

lemma collectMessages_all:
  assumes valid: "Scope_validate scope = None"
    and ok: "messages_pageable codec (gread (messages st) scope)"
    and fuel: "length (sortedMessages (gread (messages st) scope)) < fuel"
  shows "collectMessages fuel codec scope limit st = Ok (sortedMessages (gread (messages st) scope))"
proof -
  let ?ms = "gread (messages st) scope"
  have set_eq: "set (sortedMessages ?ms) = set (gvalues ?ms)" by (simp add: sortedMessages_def)
  from ok have keyed: "msgs_keyed ?ms" and codec: "codec_ok codec (message_key ` set (gvalues ?ms))"
    and keys: "\<forall>m \<in> set (gvalues ?ms). cursor_key (message_key m)"
    by (simp_all add: messages_pageable_def)
  have "collect_pages fuel (fetch_messages codec scope limit st) (page_start codec None)
      = Ok (sortedMessages ?ms)"
  proof (rule msgs.collect_all [OF keyed normalizeLimit_bounds(1) fuel])
    show "\<forall>k \<in> message_key ` set (sortedMessages ?ms). cursor_key k \<and> page_start codec (Some k) \<noteq> []"
      using keys decodeCursor_encode(2) [OF codec]
      by (auto simp: set_eq page_start_def cursor_key_def)
  qed (use ListMessages_fetch [OF valid codec] set_eq in simp)
  then show ?thesis by (simp add: collectMessages_def page_start_def)
qed

end
