(* ===== verification/Store_Runs.thy ===== *)
theory Store_Runs
  imports Store_Messages
begin

text \<open>
  The assistant runs of \<open>MemoryStore\<close> (\<open>memory.go\<close>): saving, creating, stopping, snapshotting
  and claiming a run, and the lookups. Shown: every operation keeps the run table well formed
  (a run sits under its own ID with a known status, at most one run of a thread is unfinished,
  a client request ID is used once per thread), the contract of a run never changes, its
  revision never decreases, and creation is idempotent.
\<close>

section \<open>Operations\<close>

definition validateUniqueAssistantRun ::
  "(string, AssistantRun) gomap \<Rightarrow> AssistantRun \<Rightarrow> store_err option" where
  "validateUniqueAssistantRun runs run = first_error (map (\<lambda>(i, existing).
     first_error
      [check (i \<noteq> run_ID run \<and> run_ThreadID existing = run_ThreadID run \<and> run_ClientRequestID run \<noteq> []
          \<and> run_ClientRequestID existing = run_ClientRequestID run) ErrAssistantRunConflict,
       check (i \<noteq> run_ID run \<and> run_ThreadID existing = run_ThreadID run
          \<and> \<not> assistantRunStatusTerminal (run_Status run)
          \<and> \<not> assistantRunStatusTerminal (run_Status existing)) ErrAssistantRunConflict])
     (gentries runs))"

definition SaveAssistantRun :: "time \<Rightarrow> Scope \<Rightarrow> AssistantRun \<Rightarrow> unit op" where
  [op_defs]: "SaveAssistantRun now scope run st =
     (case Scope_validate scope of Some e \<Rightarrow> (Err e, st) | None \<Rightarrow>
      case validateAssistantRun run of Some e \<Rightarrow> (Err e, st) | None \<Rightarrow>
      let run = prepareAssistantRun now scope run;
          st = st\<lparr>assistantRuns := ensure scope (assistantRuns st)\<rparr>;
          commit = (\<lambda>run. case validateUniqueAssistantRun (gread (assistantRuns st) scope) run of
              Some e \<Rightarrow> (Err e, st)
            | None \<Rightarrow> (Ok (), st\<lparr>assistantRuns := put2 scope (run_ID run) run (assistantRuns st)\<rparr>))
      in (case read2 (assistantRuns st) scope (run_ID run) of
            None \<Rightarrow> commit run
          | Some existing \<Rightarrow>
              if run_ThreadID run \<noteq> run_ThreadID existing then (Err ErrAssistantRunConflict, st)
              else let run = run\<lparr>run_CreatedAt := run_CreatedAt existing,
                         run_ClientRequestID := run_ClientRequestID existing,
                         run_UserMessageID := run_UserMessageID existing,
                         run_Revision := run_Revision existing\<rparr>
                   in if run_Mode run \<noteq> run_Mode existing
                        \<or> run_ApprovalMode run \<noteq> run_ApprovalMode existing
                      then (Err ErrAssistantRunConflict, st) else commit run))"

definition CreateAssistantRun ::
  "time \<Rightarrow> Scope \<Rightarrow> Message \<Rightarrow> Message \<Rightarrow> AssistantRun \<Rightarrow> AssistantRun op" where
  [op_defs]: "CreateAssistantRun now scope user assistant run st =
     (case Scope_validate scope of Some e \<Rightarrow> (Err e, st) | None \<Rightarrow>
      case validateNewAssistantRun user assistant run of Some e \<Rightarrow> (Err e, st) | None \<Rightarrow>
      let user = prepareMessage now scope user; assistant = prepareMessage now scope assistant;
          run = prepareAssistantRun now scope run;
          runs = gread (assistantRuns st) scope
      in (case gget runs (run_ID run) of
            Some existing \<Rightarrow>
              if run_ThreadID existing \<noteq> run_ThreadID run
                 \<or> run_ClientRequestID existing \<noteq> run_ClientRequestID run
              then (Err ErrAssistantRunConflict, st) else (Ok existing, st)
          | None \<Rightarrow>
          case find (\<lambda>existing. run_ThreadID existing = run_ThreadID run
              \<and> run_ClientRequestID existing = run_ClientRequestID run) (gvalues runs) of
            Some existing \<Rightarrow> (Ok existing, st)
          | None \<Rightarrow>
          case validateUniqueAssistantRun runs run of
            Some e \<Rightarrow> (Err e, st)
          | None \<Rightarrow>
            (Ok run, st\<lparr>messages := put2 scope (msg_ID assistant) assistant
                 (put2 scope (msg_ID user) user (messages st)),
               assistantRuns := put2 scope (run_ID run) run (assistantRuns st)\<rparr>)))"

text \<open>
  The assignment \<open>s.messages[scope][assistant.ID] = assistant\<close> is not preceded by the usual nil
  check, so it panics when the scope has no message map.
\<close>

definition requestAssistantRunStop ::
  "time \<Rightarrow> Scope \<Rightarrow> string \<Rightarrow> int64 \<Rightarrow> Message \<Rightarrow> time \<Rightarrow> AssistantRun op" where
  [op_defs]: "requestAssistantRunStop clock scope runID expectedRunRevision assistant now st =
     (case Scope_validate scope of Some e \<Rightarrow> (Err e, st) | None \<Rightarrow>
      if runID = [] \<or> expectedRunRevision < 1
      then (Err (ErrInvalid ''assistant run and revision are required''), st)
      else let now = time_or now clock
      in (case read2 (assistantRuns st) scope runID of
            None \<Rightarrow> (Err ErrAssistantRunConflict, st)
          | Some run \<Rightarrow>
            if run_Revision run \<noteq> expectedRunRevision \<or> run_Status run \<noteq> AssistantRunStatusRunning
            then (Err ErrAssistantRunConflict, st)
            else let run = run\<lparr>run_Status := AssistantRunStatusStopping,
                   run_Revision := wrap64 (run_Revision run + 1), run_UpdatedAt := now\<rparr>;
                 commit = (\<lambda>st. (Ok run, st\<lparr>assistantRuns := put2 scope runID run (assistantRuns st)\<rparr>))
            in if msg_ID assistant = [] then commit st
               else if msg_Role assistant \<noteq> ''assistant'' \<or> msg_ID assistant \<noteq> run_ActiveMessageID run
               then (Err (ErrInvalid ''assistant lifecycle message must be the active run message''), st)
               else let assistant = prepareMessage clock scope assistant;
                    store_message = (case assign2 scope (msg_ID assistant) assistant (messages st) of
                        None \<Rightarrow> (Panic, st)
                      | Some ms \<Rightarrow> commit (st\<lparr>messages := ms\<rparr>))
               in (case read2 (messages st) scope (msg_ID assistant) of
                    Some existing \<Rightarrow>
                      if msg_ActorID existing \<noteq> msg_ActorID assistant
                      then (Err (ErrInvalid ''message actor is immutable''), st) else store_message
                  | None \<Rightarrow> store_message)))"

definition RequestAssistantRunStopWithAssistantMessage ::
  "time \<Rightarrow> Scope \<Rightarrow> string \<Rightarrow> int64 \<Rightarrow> Message \<Rightarrow> time \<Rightarrow> AssistantRun op" where
  "RequestAssistantRunStopWithAssistantMessage = requestAssistantRunStop"

text \<open>
  The message loop of a snapshot writes as it goes and stops at the first message whose actor
  differs from the stored one; what it wrote before stays.
\<close>

fun save_snapshot_messages :: "Scope \<Rightarrow> Message list \<Rightarrow> (Scope, (string, Message) gomap) gomap
    \<Rightarrow> store_err option \<times> (Scope, (string, Message) gomap) gomap" where
  "save_snapshot_messages scope [] ms = (None, ms)"
| "save_snapshot_messages scope (message # rest) ms =
     (case read2 ms scope (msg_ID message) of
        Some existing \<Rightarrow>
          if msg_ActorID existing \<noteq> msg_ActorID message
          then (Some (ErrInvalid ''message actor is immutable''), ms)
          else save_snapshot_messages scope rest (put2 scope (msg_ID message) message ms)
      | None \<Rightarrow> save_snapshot_messages scope rest (put2 scope (msg_ID message) message ms))"

definition SaveAssistantRunSnapshot ::
  "time \<Rightarrow> Scope \<Rightarrow> AssistantRun \<Rightarrow> Message list \<Rightarrow> int64 \<Rightarrow> unit op" where
  [op_defs]: "SaveAssistantRunSnapshot now scope run msgs expectedRevision st =
     (case Scope_validate scope of Some e \<Rightarrow> (Err e, st) | None \<Rightarrow>
      case validateAssistantRunSnapshot run msgs expectedRevision of Some e \<Rightarrow> (Err e, st) | None \<Rightarrow>
      let run = prepareAssistantRun now scope run; prepared = map (prepareMessage now scope) msgs
      in (case read2 (assistantRuns st) scope (run_ID run) of
            None \<Rightarrow> (Err ErrAssistantRunConflict, st)
          | Some current \<Rightarrow>
            if run_Revision current \<noteq> expectedRevision then (Err ErrAssistantRunConflict, st)
            else if run_Mode run \<noteq> run_Mode current \<or> run_ApprovalMode run \<noteq> run_ApprovalMode current
            then (Err ErrAssistantRunConflict, st)
            else if run_ThreadID run \<noteq> run_ThreadID current then (Err ErrAssistantRunConflict, st)
            else let run = run\<lparr>run_CreatedAt := run_CreatedAt current,
                   run_ClientRequestID := run_ClientRequestID current,
                   run_UserMessageID := run_UserMessageID current\<rparr>
            in (case validateUniqueAssistantRun (gread (assistantRuns st) scope) run of
                  Some e \<Rightarrow> (Err e, st)
                | None \<Rightarrow>
                  (case save_snapshot_messages scope prepared (ensure scope (messages st)) of
                    (Some e, ms) \<Rightarrow> (Err e, st\<lparr>messages := ms\<rparr>)
                  | (None, ms) \<Rightarrow> (Ok (), st\<lparr>messages := ms,
                      assistantRuns := put2 scope (run_ID run) run (assistantRuns st)\<rparr>)))))"

definition ClaimAssistantRun ::
  "time \<Rightarrow> Scope \<Rightarrow> string \<Rightarrow> string \<Rightarrow> time \<Rightarrow> AssistantRun op" where
  [op_defs]: "ClaimAssistantRun clock scope i requestID now st =
     (case Scope_validate scope of Some e \<Rightarrow> (Err e, st) | None \<Rightarrow>
      if i = [] \<or> requestID = []
      then (Err (ErrInvalid ''assistant run id and request id are required''), st)
      else let now = time_or now clock
      in (case read2 (assistantRuns st) scope i of
            None \<Rightarrow> (Err ErrAssistantRunNotFound, st)
          | Some run \<Rightarrow>
            if \<not> assistantRunStatusWaitsForInput (run_Status run) \<or> run_RequestID run \<noteq> requestID
            then (Err (ErrInvalid ''assistant run is not waiting for this request''), st)
            else let run = run\<lparr>run_Status := AssistantRunStatusRunning, run_UpdatedAt := now\<rparr>
                 in (Ok run, st\<lparr>assistantRuns := put2 scope i run (assistantRuns st)\<rparr>)))"

definition GetAssistantRun :: "Scope \<Rightarrow> string \<Rightarrow> MemoryStore \<Rightarrow> AssistantRun sres" where
  "GetAssistantRun scope i st =
     (case Scope_validate scope of Some e \<Rightarrow> Err e | None \<Rightarrow>
      if i = [] then Err (ErrInvalid ''assistant run id is required'')
      else (case read2 (assistantRuns st) scope i of
          None \<Rightarrow> Err ErrAssistantRunNotFound | Some run \<Rightarrow> Ok run))"

definition FindAssistantRunByClientRequestID ::
  "Scope \<Rightarrow> string \<Rightarrow> MemoryStore \<Rightarrow> AssistantRun sres" where
  "FindAssistantRunByClientRequestID scope clientRequestID st =
     (case Scope_validate scope of Some e \<Rightarrow> Err e | None \<Rightarrow>
      if clientRequestID = [] then Err (ErrInvalid ''assistant run client request id is required'')
      else (case find (\<lambda>run. run_ThreadID run = [] \<and> run_ClientRequestID run = clientRequestID)
              (gvalues (gread (assistantRuns st) scope)) of
          None \<Rightarrow> Err ErrAssistantRunNotFound | Some run \<Rightarrow> Ok run))"

definition FindAssistantRunByThreadClientRequestID ::
  "Scope \<Rightarrow> string \<Rightarrow> string \<Rightarrow> MemoryStore \<Rightarrow> AssistantRun sres" where
  "FindAssistantRunByThreadClientRequestID scope threadID clientRequestID st =
     (case Scope_validate scope of Some e \<Rightarrow> Err e | None \<Rightarrow>
      let threadID = TrimSpace threadID; clientRequestID = TrimSpace clientRequestID
      in if threadID = [] \<or> clientRequestID = []
         then Err (ErrInvalid ''assistant thread and client request ids are required'')
         else (case find (\<lambda>run. run_ThreadID run = threadID \<and> run_ClientRequestID run = clientRequestID)
                 (gvalues (gread (assistantRuns st) scope)) of
             None \<Rightarrow> Err ErrAssistantRunNotFound | Some run \<Rightarrow> Ok run))"

text \<open>The loop that keeps the run with the latest update, ties broken by the larger ID.\<close>

fun latest_run :: "AssistantRun option \<Rightarrow> AssistantRun list \<Rightarrow> AssistantRun option" where
  "latest_run latest [] = latest"
| "latest_run None (run # rest) = latest_run (Some run) rest"
| "latest_run (Some l) (run # rest) =
     latest_run (Some (if run_UpdatedAt l < run_UpdatedAt run
         \<or> run_UpdatedAt run = run_UpdatedAt l \<and> run_ID l < run_ID run then run else l)) rest"

definition LatestAssistantRun :: "Scope \<Rightarrow> MemoryStore \<Rightarrow> AssistantRun sres" where
  "LatestAssistantRun scope st =
     (case Scope_validate scope of Some e \<Rightarrow> Err e | None \<Rightarrow>
      (case latest_run None (gvalues (gread (assistantRuns st) scope)) of
        None \<Rightarrow> Err ErrAssistantRunNotFound | Some run \<Rightarrow> Ok run))"

definition LatestAssistantRunForThread ::
  "Scope \<Rightarrow> string \<Rightarrow> MemoryStore \<Rightarrow> AssistantRun sres" where
  "LatestAssistantRunForThread scope threadID st =
     (case Scope_validate scope of Some e \<Rightarrow> Err e | None \<Rightarrow>
      let threadID = TrimSpace threadID
      in if threadID = [] then Err (ErrInvalid ''assistant thread id is required'')
         else (case latest_run None (filter (\<lambda>run. run_ThreadID run = threadID)
                 (gvalues (gread (assistantRuns st) scope))) of
             None \<Rightarrow> Err ErrAssistantRunNotFound | Some run \<Rightarrow> Ok run))"

definition ListActiveAssistantRuns :: "Scope \<Rightarrow> MemoryStore \<Rightarrow> AssistantRun list sres" where
  "ListActiveAssistantRuns scope st =
     (case Scope_validate scope of Some e \<Rightarrow> Err e | None \<Rightarrow>
      Ok (sort_key run_key (filter (\<lambda>run. \<not> assistantRunStatusTerminal (run_Status run))
            (gvalues (gread (assistantRuns st) scope)))))"

section \<open>The invariant of the run table\<close>

definition run_wf :: "Scope \<Rightarrow> string \<Rightarrow> AssistantRun \<Rightarrow> bool" where
  "run_wf scope i r \<longleftrightarrow> run_ID r = i \<and> i \<noteq> [] \<and> run_ProjectName r = ProjectName scope
     \<and> run_ProjectUID r = ProjectUID scope \<and> run_status_known (run_Status r)
     \<and> assistantRunModeValid (run_Mode r) \<and> run_ApprovalMode r \<in> set approval_modes"

definition runs_compatible :: "AssistantRun \<Rightarrow> AssistantRun \<Rightarrow> bool" where
  "runs_compatible r r' \<longleftrightarrow> run_ThreadID r = run_ThreadID r' \<longrightarrow>
     \<not> (run_ClientRequestID r \<noteq> [] \<and> run_ClientRequestID r = run_ClientRequestID r')
     \<and> (assistantRunStatusTerminal (run_Status r) \<or> assistantRunStatusTerminal (run_Status r'))"

definition runs_inv :: "(Scope, (string, AssistantRun) gomap) gomap \<Rightarrow> bool" where
  "runs_inv runs \<longleftrightarrow> (\<forall>scope i r. read2 runs scope i = Some r \<longrightarrow> run_wf scope i r)
     \<and> (\<forall>scope i j r r'. i \<noteq> j \<longrightarrow> read2 runs scope i = Some r \<longrightarrow> read2 runs scope j = Some r'
         \<longrightarrow> runs_compatible r r')"

lemma runs_compatible_sym: "runs_compatible r r' \<longleftrightarrow> runs_compatible r' r"
  by (auto simp: runs_compatible_def)

lemma runs_inv_Nil [simp]: "runs_inv []"
  by (simp add: runs_inv_def)

lemma runs_invD:
  "runs_inv runs \<Longrightarrow> read2 runs scope i = Some r \<Longrightarrow> run_wf scope i r"
  "runs_inv runs \<Longrightarrow> i \<noteq> j \<Longrightarrow> read2 runs scope i = Some r \<Longrightarrow> read2 runs scope j = Some r'
    \<Longrightarrow> runs_compatible r r'"
  by (auto simp: runs_inv_def)

text \<open>Dropping runs keeps it; storing a run keeps it when the run fits the others.\<close>

lemma runs_inv_sub:
  assumes "runs_inv runs" "\<And>sc i r. read2 runs' sc i = Some r \<Longrightarrow> read2 runs sc i = Some r"
  shows "runs_inv runs'"
  using assms unfolding runs_inv_def by blast

lemma runs_inv_put:
  assumes inv: "runs_inv runs" and wf: "run_wf scope i run"
    and fits: "\<And>j r. j \<noteq> i \<Longrightarrow> read2 runs scope j = Some r \<Longrightarrow> runs_compatible r run"
  shows "runs_inv (put2 scope i run runs)"
  unfolding runs_inv_def
proof (intro conjI allI impI)
  fix sc k r
  assume "read2 (put2 scope i run runs) sc k = Some r"
  with inv wf show "run_wf sc k r"
    by (auto simp: read2_put2 runs_invD split: if_splits)
next
  fix sc k j r r'
  assume "k \<noteq> j" "read2 (put2 scope i run runs) sc k = Some r"
    "read2 (put2 scope i run runs) sc j = Some r'"
  moreover have "i \<noteq> j \<Longrightarrow> read2 runs scope j = Some r' \<Longrightarrow> runs_compatible run r'" for j r'
    using fits [of j r'] runs_compatible_sym by blast
  ultimately show "runs_compatible r r'"
    using fits by (auto simp: read2_put2 dest: runs_invD(2) [OF inv] split: if_splits)
qed

lemma validateUnique_None:
  "validateUniqueAssistantRun runs run = None \<longleftrightarrow>
     (\<forall>i r. gget runs i = Some r \<longrightarrow> i \<noteq> run_ID run \<longrightarrow> runs_compatible r run)"
proof -
  have "validateUniqueAssistantRun runs run = None \<longleftrightarrow> (\<forall>(i, r) \<in> set (gentries runs).
      i \<noteq> run_ID run \<longrightarrow> runs_compatible r run)"
    unfolding validateUniqueAssistantRun_def first_error_None set_map ball_simps
    by (rule ball_cong) (auto simp: runs_compatible_def check_def split: if_splits)
  then show ?thesis by (simp only: al.entry_all)
qed

lemma validateUnique_fits:
  assumes "validateUniqueAssistantRun (gread runs scope) run = None"
    and "j \<noteq> run_ID run" "read2 runs scope j = Some r"
  shows "runs_compatible r run"
  using assms by (auto simp: validateUnique_None read2_def)

lemma NormalizeAssistantApprovalMode_Inr:
  "NormalizeAssistantApprovalMode m = Inr m' \<Longrightarrow> m' \<in> set approval_modes"
  by (auto simp: NormalizeAssistantApprovalMode_def Let_def approval_modes_def split: if_splits)

lemma prepareAssistantRun_simps [simp]:
  "run_ID (prepareAssistantRun now scope r) = run_ID r"
  "run_ThreadID (prepareAssistantRun now scope r) = run_ThreadID r"
  "run_Mode (prepareAssistantRun now scope r) = run_Mode r"
  "run_Status (prepareAssistantRun now scope r) = run_Status r"
  "run_ClientRequestID (prepareAssistantRun now scope r) = run_ClientRequestID r"
  "run_UserMessageID (prepareAssistantRun now scope r) = run_UserMessageID r"
  "run_ActiveMessageID (prepareAssistantRun now scope r) = run_ActiveMessageID r"
  "run_Revision (prepareAssistantRun now scope r) = run_Revision r"
  "run_ProjectName (prepareAssistantRun now scope r) = ProjectName scope"
  "run_ProjectUID (prepareAssistantRun now scope r) = ProjectUID scope"
  by (simp_all add: prepareAssistantRun_def Let_def)

lemma validateAssistantRun_wf:
  assumes "validateAssistantRun run = None"
  shows "run_wf scope (run_ID run) (prepareAssistantRun now scope run)"
  using assms
  by (auto simp: validateAssistantRun_def run_wf_def validateAssistantRunMode_def
      prepareAssistantRun_def Let_def dest: NormalizeAssistantApprovalMode_Inr split: sum.splits)

section \<open>What an operation does to the run table\<close>

text \<open>
  Two states of the same run: its contract and its identity are unchanged and its revision is
  the same or one more.
\<close>

definition run_evolves :: "AssistantRun \<Rightarrow> AssistantRun \<Rightarrow> bool" where
  "run_evolves old new \<longleftrightarrow> run_ID new = run_ID old \<and> run_ThreadID new = run_ThreadID old
     \<and> run_Mode new = run_Mode old \<and> run_ApprovalMode new = run_ApprovalMode old
     \<and> run_ClientRequestID new = run_ClientRequestID old
     \<and> run_UserMessageID new = run_UserMessageID old \<and> run_CreatedAt new = run_CreatedAt old
     \<and> (run_Revision new = run_Revision old \<or> run_Revision new = wrap64 (run_Revision old + 1))"

text \<open>One write to the run table of a scope: the run it stores fits and evolves from the old one.\<close>

definition runs_write :: "Scope \<Rightarrow> (Scope, (string, AssistantRun) gomap) gomap
    \<Rightarrow> (Scope, (string, AssistantRun) gomap) gomap \<Rightarrow> AssistantRun \<Rightarrow> bool" where
  "runs_write scope runs runs' run \<longleftrightarrow> run_wf scope (run_ID run) run
     \<and> (\<forall>j r. j \<noteq> run_ID run \<longrightarrow> read2 runs scope j = Some r \<longrightarrow> runs_compatible r run)
     \<and> (\<forall>old. read2 runs scope (run_ID run) = Some old \<longrightarrow> run_evolves old run)
     \<and> (\<forall>sc j. read2 runs' sc j =
          (if sc = scope \<and> j = run_ID run then Some run else read2 runs sc j))"

definition runs_same :: "(Scope, (string, AssistantRun) gomap) gomap
    \<Rightarrow> (Scope, (string, AssistantRun) gomap) gomap \<Rightarrow> bool" where
  "runs_same runs runs' \<longleftrightarrow> (\<forall>sc j. read2 runs' sc j = read2 runs sc j)"

definition runs_step :: "Scope \<Rightarrow> (Scope, (string, AssistantRun) gomap) gomap
    \<Rightarrow> (Scope, (string, AssistantRun) gomap) gomap \<Rightarrow> bool" where
  "runs_step scope runs runs' \<longleftrightarrow> runs_same runs runs' \<or> (\<exists>run. runs_write scope runs runs' run)"

lemma runs_same_refl [simp]: "runs_same runs runs"
  by (simp add: runs_same_def)

lemma runs_step_refl [simp]: "runs_step scope runs runs"
  by (simp add: runs_step_def)

lemma runs_write_put2:
  assumes "run_wf scope (run_ID run) run"
    and "\<And>j r. j \<noteq> run_ID run \<Longrightarrow> read2 runs scope j = Some r \<Longrightarrow> runs_compatible r run"
    and "\<And>old. read2 runs scope (run_ID run) = Some old \<Longrightarrow> run_evolves old run"
  shows "runs_write scope runs (put2 scope (run_ID run) run runs) run"
  using assms by (auto simp: runs_write_def read2_put2)

lemma runs_write_inv:
  assumes inv: "runs_inv runs" and w: "runs_write scope runs runs' run"
  shows "runs_inv runs'"
proof -
  have "runs_inv (put2 scope (run_ID run) run runs)"
    using w by (intro runs_inv_put [OF inv]) (auto simp: runs_write_def)
  moreover have "read2 runs' sc j = read2 (put2 scope (run_ID run) run runs) sc j" for sc j
    using w by (simp add: runs_write_def read2_put2)
  ultimately show ?thesis by (simp add: runs_inv_def)
qed

lemma runs_step_inv: "runs_inv runs \<Longrightarrow> runs_step scope runs runs' \<Longrightarrow> runs_inv runs'"
  by (auto simp: runs_step_def runs_same_def dest: runs_write_inv intro: runs_inv_sub)

lemma runs_step_evolves:
  assumes "runs_step scope runs runs'" "read2 runs sc i = Some old"
  obtains new where "read2 runs' sc i = Some new" "run_evolves old new"
proof -
  have refl: "run_evolves old old" by (simp add: run_evolves_def)
  from assms(1) consider "runs_same runs runs'" | run where "runs_write scope runs runs' run"
    by (auto simp: runs_step_def)
  then show thesis
  proof cases
    case 1
    with assms(2) refl that show thesis by (simp add: runs_same_def)
  next
    case (2 run)
    then have "read2 runs' sc i = (if sc = scope \<and> i = run_ID run then Some run else Some old)"
      and "sc = scope \<and> i = run_ID run \<Longrightarrow> run_evolves old run"
      using assms(2) by (auto simp: runs_write_def)
    then show thesis using refl by (cases "sc = scope \<and> i = run_ID run") (auto intro: that)
  qed
qed

lemma runs_step_other:
  "runs_step scope runs runs' \<Longrightarrow> sc \<noteq> scope \<Longrightarrow> read2 runs' sc i = read2 runs sc i"
  by (auto simp: runs_step_def runs_same_def runs_write_def)

section \<open>What an operation does to the messages\<close>

text \<open>Messages are only added or replaced under their own ID, in the scope of the operation.\<close>

definition messages_grow :: "Scope \<Rightarrow> (Scope, (string, Message) gomap) gomap
    \<Rightarrow> (Scope, (string, Message) gomap) gomap \<Rightarrow> bool" where
  "messages_grow scope ms ms' \<longleftrightarrow>
     (\<forall>sc i. read2 ms' sc i = read2 ms sc i \<or> sc = scope \<and> (\<exists>m. read2 ms' sc i = Some m
        \<and> msg_ID m = i \<and> msg_ProjectName m = ProjectName scope \<and> msg_ProjectUID m = ProjectUID scope))"

definition actors_kept :: "(Scope, (string, Message) gomap) gomap
    \<Rightarrow> (Scope, (string, Message) gomap) gomap \<Rightarrow> bool" where
  "actors_kept ms ms' \<longleftrightarrow> (\<forall>sc i m m'. read2 ms sc i = Some m \<longrightarrow> read2 ms' sc i = Some m' \<longrightarrow>
     msg_ActorID m' = msg_ActorID m)"

lemma messages_grow_refl [simp]: "messages_grow scope ms ms"
  by (simp add: messages_grow_def)

lemma messages_grow_ensure [simp]: "messages_grow scope ms (ensure scope ms)"
  by (simp add: messages_grow_def read2_ensure)

lemma messages_grow_put2 [simp]:
  "msg_ID m = i \<Longrightarrow> messages_grow scope ms (put2 scope i (prepareMessage now scope m) ms)"
  by (auto simp: messages_grow_def read2_put2)

lemma messages_grow_trans:
  assumes 1: "messages_grow scope ms ms'" and 2: "messages_grow scope ms' ms''"
  shows "messages_grow scope ms ms''"
  unfolding messages_grow_def
proof (intro allI)
  fix sc i
  from 2 consider "read2 ms'' sc i = read2 ms' sc i" | "sc = scope \<and> (\<exists>m. read2 ms'' sc i = Some m
      \<and> msg_ID m = i \<and> msg_ProjectName m = ProjectName scope \<and> msg_ProjectUID m = ProjectUID scope)"
    by (auto simp: messages_grow_def)
  then show "read2 ms'' sc i = read2 ms sc i \<or> sc = scope \<and> (\<exists>m. read2 ms'' sc i = Some m
      \<and> msg_ID m = i \<and> msg_ProjectName m = ProjectName scope \<and> msg_ProjectUID m = ProjectUID scope)"
  proof cases
    case 1
    then show ?thesis using assms(1) unfolding messages_grow_def by metis
  qed blast
qed

lemma messages_grow_keyed:
  assumes "messages_grow scope (messages st) (messages st')" "messages_keyed st"
  shows "messages_keyed st'"
  unfolding messages_keyed_def
proof (intro allI impI)
  fix sc i m
  assume m: "read2 (messages st') sc i = Some m"
  from assms(1) have "read2 (messages st') sc i = read2 (messages st) sc i \<or> sc = scope
      \<and> (\<exists>m. read2 (messages st') sc i = Some m \<and> msg_ID m = i
      \<and> msg_ProjectName m = ProjectName scope \<and> msg_ProjectUID m = ProjectUID scope)"
    by (simp add: messages_grow_def)
  with m assms(2) show "msg_ID m = i \<and> msg_ProjectName m = ProjectName sc \<and> msg_ProjectUID m = ProjectUID sc"
    by (auto simp: messages_keyed_def)
qed

section \<open>The operations one by one\<close>

lemma runs_same_ensure [simp]: "runs_same runs (ensure scope runs)"
  by (simp add: runs_same_def read2_ensure)

lemma runs_write_ensure:
  "runs_write scope (ensure scope runs) runs' run \<Longrightarrow> runs_write scope runs runs' run"
  by (simp add: runs_write_def read2_ensure)

lemma runs_inv_ensure [simp]: "runs_inv (ensure scope runs) = runs_inv runs"
  by (simp add: runs_inv_def read2_ensure)

lemma gget_gread: "gget (gread m a) b = read2 m a b"
  by (simp add: read2_def)

text \<open>Which messages an operation refused or stored is left open by these two predicates.\<close>

definition run_op :: "Scope \<Rightarrow> MemoryStore \<Rightarrow> MemoryStore \<Rightarrow> bool" where
  "run_op scope st st' \<longleftrightarrow> runs_step scope (assistantRuns st) (assistantRuns st')
     \<and> messages_grow scope (messages st) (messages st')
     \<and> st' = st\<lparr>messages := messages st', assistantRuns := assistantRuns st'\<rparr>"

lemma run_op_refl [simp]: "run_op scope st st"
  by (simp add: run_op_def)

lemma run_op_ensure [simp]:
  "run_op scope st (st\<lparr>assistantRuns := ensure scope (assistantRuns st)\<rparr>)"
  by (simp add: run_op_def runs_step_def)

lemma run_op_write:
  assumes "runs_write scope (assistantRuns st) runs' run" "messages_grow scope (messages st) ms'"
  shows "run_op scope st (st\<lparr>messages := ms', assistantRuns := runs'\<rparr>)"
  using assms by (auto simp: run_op_def runs_step_def)

lemma run_op_write_runs:
  assumes "runs_write scope (assistantRuns st) runs' run"
  shows "run_op scope st (st\<lparr>assistantRuns := runs'\<rparr>)"
  using assms by (auto simp: run_op_def runs_step_def)

lemma SaveAssistantRun_op:
  assumes op: "SaveAssistantRun now scope run st = (r, st')" and inv: "runs_inv (assistantRuns st)"
  shows "run_op scope st st' \<and> r \<noteq> Panic"
proof (cases "Scope_validate scope = None \<and> validateAssistantRun run = None")
  case False
  with op have "st' = st" "r \<noteq> Panic" by (auto simp: SaveAssistantRun_def split: option.splits)
  then show ?thesis by simp
next
  case True
  let ?run = "prepareAssistantRun now scope run"
  let ?runs = "ensure scope (assistantRuns st)"
  have wf: "run_wf scope (run_ID run) ?run" using True by (simp add: validateAssistantRun_wf)
  have store: "run_op scope st (st\<lparr>assistantRuns := put2 scope (run_ID run) new ?runs\<rparr>)"
    if "run_wf scope (run_ID run) new" "run_ID new = run_ID run"
      "validateUniqueAssistantRun (gread (assistantRuns st) scope) new = None"
      "\<And>old. read2 (assistantRuns st) scope (run_ID run) = Some old \<Longrightarrow> run_evolves old new" for new
  proof (rule run_op_write_runs, rule runs_write_ensure)
    have "runs_write scope ?runs (put2 scope (run_ID new) new ?runs) new"
      using that by (intro runs_write_put2)
        (auto simp: read2_ensure intro: validateUnique_fits)
    then show "runs_write scope ?runs (put2 scope (run_ID run) new ?runs) new" using that by simp
  qed
  show ?thesis
  proof (cases "read2 (assistantRuns st) scope (run_ID run)")
    case None
    with True op wf store [of ?run] show ?thesis
      by (auto simp: SaveAssistantRun_def Let_def read2_ensure gread_ensure split: option.splits)
  next
    case (Some old)
    let ?new = "?run\<lparr>run_CreatedAt := run_CreatedAt old, run_ClientRequestID := run_ClientRequestID old,
      run_UserMessageID := run_UserMessageID old, run_Revision := run_Revision old\<rparr>"
    have "run_wf scope (run_ID run) old" using inv Some by (rule runs_invD)
    then have "run_evolves old ?new" if "run_ThreadID run = run_ThreadID old"
      "run_Mode run = run_Mode old" "run_ApprovalMode ?run = run_ApprovalMode old"
      using that by (simp add: run_evolves_def run_wf_def)
    moreover have "run_wf scope (run_ID run) ?new" using wf by (simp add: run_wf_def)
    ultimately show ?thesis
      using True op Some store [of ?new]
      by (auto simp: SaveAssistantRun_def Let_def read2_ensure gread_ensure
          split: option.splits if_splits)
  qed
qed

lemma CreateAssistantRun_op:
  assumes op: "CreateAssistantRun now scope user assistant run st = (r, st')"
    and inv: "runs_inv (assistantRuns st)"
  shows "run_op scope st st' \<and> r \<noteq> Panic"
proof (cases "Scope_validate scope = None \<and> validateNewAssistantRun user assistant run = None")
  case False
  with op have "st' = st" "r \<noteq> Panic" by (auto simp: CreateAssistantRun_def split: option.splits)
  then show ?thesis by simp
next
  case True
  let ?run = "prepareAssistantRun now scope run"
  let ?runs = "assistantRuns st"
  have wf: "run_wf scope (run_ID run) ?run"
    using True by (intro validateAssistantRun_wf) (simp add: validateNewAssistantRun_def)
  have store: "run_op scope st (st\<lparr>messages := put2 scope (msg_ID assistant) (prepareMessage now scope assistant)
          (put2 scope (msg_ID user) (prepareMessage now scope user) (messages st)),
        assistantRuns := put2 scope (run_ID run) ?run ?runs\<rparr>)"
    if "read2 ?runs scope (run_ID run) = None" "validateUniqueAssistantRun (gread ?runs scope) ?run = None"
  proof (rule run_op_write)
    have "runs_write scope ?runs (put2 scope (run_ID ?run) ?run ?runs) ?run"
      using that wf by (intro runs_write_put2) (auto intro: validateUnique_fits)
    then show "runs_write scope ?runs (put2 scope (run_ID run) ?run ?runs) ?run" by simp
    show "messages_grow scope (messages st) (put2 scope (msg_ID assistant)
        (prepareMessage now scope assistant)
        (put2 scope (msg_ID user) (prepareMessage now scope user) (messages st)))"
      by (rule messages_grow_trans [OF messages_grow_put2 messages_grow_put2]) simp_all
  qed
  with True op show ?thesis
    by (auto simp: CreateAssistantRun_def Let_def gget_gread split: option.splits if_splits)
qed

lemma requestAssistantRunStop_op:
  assumes op: "requestAssistantRunStop clock scope runID expected assistant now st = (r, st')"
    and inv: "runs_inv (assistantRuns st)"
  shows "run_op scope st st'"
    and "r = Panic \<Longrightarrow> st' = st \<and> gget (messages st) scope = None"
proof -
  let ?runs = "assistantRuns st"
  let ?new = "\<lambda>run. run\<lparr>run_Status := AssistantRunStatusStopping,
    run_Revision := wrap64 (run_Revision run + 1), run_UpdatedAt := time_or now clock\<rparr>"
  have w: "runs_write scope ?runs (put2 scope runID (?new run) ?runs) (?new run)"
    if run: "read2 ?runs scope runID = Some run" "run_Status run = AssistantRunStatusRunning" for run
  proof -
    have wf: "run_wf scope runID run" using inv run(1) by (rule runs_invD)
    have "runs_write scope ?runs (put2 scope (run_ID (?new run)) (?new run) ?runs) (?new run)"
    proof (rule runs_write_put2)
      show "run_wf scope (run_ID (?new run)) (?new run)" using wf by (simp add: run_wf_def)
      fix j q assume "j \<noteq> run_ID (?new run)" "read2 ?runs scope j = Some q"
      then have "runs_compatible q run" using runs_invD(2) [OF inv] run(1) wf by (simp add: run_wf_def)
      then show "runs_compatible q (?new run)" using run(2) by (simp add: runs_compatible_def)
    next
      fix old assume "read2 ?runs scope (run_ID (?new run)) = Some old"
      with run wf show "run_evolves old (?new run)" by (simp add: run_evolves_def run_wf_def)
    qed
    then show ?thesis using wf by (simp add: run_wf_def)
  qed
  show "run_op scope st st'"
    using op
    by (auto simp: requestAssistantRunStop_def Let_def assign2_put2
        split: option.splits if_splits
        intro!: run_op_write_runs run_op_write w)
  show "st' = st \<and> gget (messages st) scope = None" if "r = Panic"
    using op that
    by (auto simp: requestAssistantRunStop_def Let_def assign2_put2 split: option.splits if_splits)
qed

lemma save_snapshot_messages_grow:
  assumes "save_snapshot_messages scope (map (prepareMessage now scope) msgs) ms = (e, ms')"
  shows "messages_grow scope ms ms'"
  using assms
proof (induction msgs arbitrary: ms)
  case (Cons m msgs)
  have "messages_grow scope ms (put2 scope (msg_ID m) (prepareMessage now scope m) ms)"
    by simp
  note later = messages_grow_trans [OF this Cons.IH]
  from Cons.prems consider "ms' = ms" | "save_snapshot_messages scope (map (prepareMessage now scope) msgs)
      (put2 scope (msg_ID m) (prepareMessage now scope m) ms) = (e, ms')"
    by (auto split: option.splits if_splits)
  then show ?case by cases (simp, rule later)
qed simp

lemma SaveAssistantRunSnapshot_op:
  assumes op: "SaveAssistantRunSnapshot now scope run msgs expected st = (r, st')"
    and inv: "runs_inv (assistantRuns st)"
  shows "run_op scope st st' \<and> r \<noteq> Panic"
proof (cases "Scope_validate scope = None \<and> validateAssistantRunSnapshot run msgs expected = None")
  case False
  with op have "st' = st" "r \<noteq> Panic" by (auto simp: SaveAssistantRunSnapshot_def split: option.splits)
  then show ?thesis by simp
next
  case True
  let ?run = "prepareAssistantRun now scope run"
  let ?runs = "assistantRuns st"
  let ?new = "\<lambda>old. ?run\<lparr>run_CreatedAt := run_CreatedAt old,
    run_ClientRequestID := run_ClientRequestID old, run_UserMessageID := run_UserMessageID old\<rparr>"
  have wf: "run_wf scope (run_ID run) ?run"
    using True by (intro validateAssistantRun_wf) (simp add: validateAssistantRunSnapshot_def)
  have rev: "run_Revision run = wrap64 (expected + 1)"
    using True by (simp add: validateAssistantRunSnapshot_def)
  have w: "runs_write scope ?runs (put2 scope (run_ID run) (?new old) ?runs) (?new old)"
    if old: "read2 ?runs scope (run_ID run) = Some old" "run_Revision old = expected"
      "run_Mode run = run_Mode old" "run_ApprovalMode ?run = run_ApprovalMode old"
      "run_ThreadID run = run_ThreadID old"
      "validateUniqueAssistantRun (gread ?runs scope) (?new old) = None" for old
  proof -
    have "run_wf scope (run_ID run) old" using inv old(1) by (rule runs_invD)
    then have "runs_write scope ?runs (put2 scope (run_ID (?new old)) (?new old) ?runs) (?new old)"
      using old wf rev
      by (intro runs_write_put2)
        (auto simp: run_wf_def run_evolves_def intro: validateUnique_fits)
    then show ?thesis by simp
  qed
  show ?thesis
  proof (cases "read2 ?runs scope (run_ID run)")
    case None
    with True op show ?thesis by (auto simp: SaveAssistantRunSnapshot_def Let_def)
  next
    case (Some old)
    obtain e ms' where S: "save_snapshot_messages scope (map (prepareMessage now scope) msgs)
        (ensure scope (messages st)) = (e, ms')" by fastforce
    have grow: "messages_grow scope (messages st) ms'"
      by (rule messages_grow_trans [OF messages_grow_ensure save_snapshot_messages_grow [OF S]])
    then have "run_op scope st (st\<lparr>messages := ms'\<rparr>)" by (simp add: run_op_def)
    with True op Some S grow show ?thesis
      by (auto simp: SaveAssistantRunSnapshot_def Let_def
          split: option.splits if_splits intro!: run_op_write w)
  qed
qed

lemma ClaimAssistantRun_op:
  assumes op: "ClaimAssistantRun clock scope i requestID now st = (r, st')"
    and inv: "runs_inv (assistantRuns st)"
  shows "run_op scope st st' \<and> r \<noteq> Panic"
proof -
  let ?runs = "assistantRuns st"
  let ?new = "\<lambda>run. run\<lparr>run_Status := AssistantRunStatusRunning, run_UpdatedAt := time_or now clock\<rparr>"
  have w: "runs_write scope ?runs (put2 scope i (?new run) ?runs) (?new run)"
    if run: "read2 ?runs scope i = Some run" "assistantRunStatusWaitsForInput (run_Status run)" for run
  proof -
    have wf: "run_wf scope i run" using inv run(1) by (rule runs_invD)
    have waiting: "\<not> assistantRunStatusTerminal (run_Status run)"
      using run(2) by (cases "run_Status run") simp_all
    have "runs_write scope ?runs (put2 scope (run_ID (?new run)) (?new run) ?runs) (?new run)"
    proof (rule runs_write_put2)
      show "run_wf scope (run_ID (?new run)) (?new run)" using wf by (simp add: run_wf_def)
      fix j q assume "j \<noteq> run_ID (?new run)" "read2 ?runs scope j = Some q"
      then have "runs_compatible q run" using runs_invD(2) [OF inv] run(1) wf by (simp add: run_wf_def)
      then show "runs_compatible q (?new run)" using waiting by (simp add: runs_compatible_def)
    next
      fix old assume "read2 ?runs scope (run_ID (?new run)) = Some old"
      with run wf show "run_evolves old (?new run)" by (simp add: run_evolves_def run_wf_def)
    qed
    then show ?thesis using wf by (simp add: run_wf_def)
  qed
  show ?thesis
    using op
    by (auto simp: ClaimAssistantRun_def Let_def split: option.splits if_splits
        intro!: run_op_write_runs w)
qed

section \<open>Creation is idempotent, the latest run, the unfinished runs\<close>

lemma CreateAssistantRun_Ok:
  assumes op: "CreateAssistantRun now scope user assistant run st = (Ok stored, st')"
    and inv: "runs_inv (assistantRuns st)"
  shows "read2 (assistantRuns st') scope (run_ID stored) = Some stored"
    and "run_ThreadID stored = run_ThreadID run"
    and "run_ClientRequestID stored = run_ClientRequestID run"
    and "run_ClientRequestID run \<noteq> []"
    and "Scope_validate scope = None"
    and "validateNewAssistantRun user assistant run = None"
proof -
  let ?run = "prepareAssistantRun now scope run"
  from op show valid: "Scope_validate scope = None" "validateNewAssistantRun user assistant run = None"
    by (auto simp: CreateAssistantRun_def split: option.splits)
  then show "run_ClientRequestID run \<noteq> []" by (simp add: validateNewAssistantRun_def)
  have hit: "read2 (assistantRuns st) scope (run_ID q) = Some q"
    if "q \<in> set (gvalues (gread (assistantRuns st) scope))" for q
    using that runs_invD(1) [OF inv] by (auto simp: gvalues_iff gget_gread run_wf_def)
  let ?P = "\<lambda>q. run_ThreadID q = run_ThreadID run \<and> run_ClientRequestID q = run_ClientRequestID run"
  let ?vs = "gvalues (gread (assistantRuns st) scope)"
  have "(read2 (assistantRuns st) scope (run_ID run) = Some stored \<and> ?P stored \<and> st' = st)
    \<or> (find ?P ?vs = Some stored \<and> st' = st)
    \<or> (stored = ?run \<and> assistantRuns st' = put2 scope (run_ID run) ?run (assistantRuns st))"
  proof (cases "read2 (assistantRuns st) scope (run_ID run)")
    case (Some old)
    with op valid show ?thesis
      by (auto simp: CreateAssistantRun_def Let_def gget_gread split: if_splits)
  next
    case None
    with op valid show ?thesis
      by (cases "find ?P ?vs")
        (auto simp: CreateAssistantRun_def Let_def gget_gread split: option.splits)
  qed
  then consider (same) "read2 (assistantRuns st) scope (run_ID run) = Some stored" "?P stored" "st' = st"
    | (found) "find ?P ?vs = Some stored" "st' = st"
    | (new) "stored = ?run" "assistantRuns st' = put2 scope (run_ID run) ?run (assistantRuns st)"
    by blast
  then have "read2 (assistantRuns st') scope (run_ID stored) = Some stored
      \<and> run_ThreadID stored = run_ThreadID run \<and> run_ClientRequestID stored = run_ClientRequestID run"
  proof cases
    case same
    then show ?thesis using runs_invD(1) [OF inv same(1)] by (simp add: run_wf_def)
  next
    case found
    then have "stored \<in> set ?vs" "?P stored" by (auto simp: find_Some_iff)
    with hit found(2) show ?thesis by simp
  next
    case new
    then show ?thesis by (simp add: read2_put2)
  qed
  then show "read2 (assistantRuns st') scope (run_ID stored) = Some stored"
    and "run_ThreadID stored = run_ThreadID run"
    and "run_ClientRequestID stored = run_ClientRequestID run" by simp_all
qed

text \<open>
  A request that is sent again with the same client request ID (on the same thread) gets the
  stored run and writes nothing, even with other message IDs, another run ID or another clock.
\<close>

lemma CreateAssistantRun_again:
  assumes inv: "runs_inv (assistantRuns st)"
    and stored: "read2 (assistantRuns st) scope i = Some stored"
    and key: "run_ThreadID stored = run_ThreadID run" "run_ClientRequestID stored = run_ClientRequestID run"
    and valid: "Scope_validate scope = None" "validateNewAssistantRun user assistant run = None"
    and fresh: "run_ID run = i \<or> read2 (assistantRuns st) scope (run_ID run) = None"
  shows "CreateAssistantRun now scope user assistant run st = (Ok stored, st)"
proof (cases "run_ID run = i")
  case True
  with stored key valid show ?thesis
    by (simp add: CreateAssistantRun_def Let_def gget_gread)
next
  case False
  have nonempty: "run_ClientRequestID run \<noteq> []" using valid by (simp add: validateNewAssistantRun_def)
  let ?P = "\<lambda>q. run_ThreadID q = run_ThreadID run \<and> run_ClientRequestID q = run_ClientRequestID run"
  have mem: "stored \<in> set (gvalues (gread (assistantRuns st) scope))"
    using stored by (auto simp: gvalues_iff gget_gread)
  have unique: "q = stored" if q: "q \<in> set (gvalues (gread (assistantRuns st) scope))" "?P q" for q
  proof -
    from q(1) obtain j where j: "read2 (assistantRuns st) scope j = Some q"
      by (auto simp: gvalues_iff gget_gread)
    have "j = i"
    proof (rule ccontr)
      assume "j \<noteq> i"
      with runs_invD(2) [OF inv _ j stored] have "runs_compatible q stored" by simp
      with q(2) key nonempty show False by (simp add: runs_compatible_def)
    qed
    with j stored show ?thesis by simp
  qed
  have "find ?P (gvalues (gread (assistantRuns st) scope)) = Some stored"
  proof (cases "find ?P (gvalues (gread (assistantRuns st) scope))")
    case None
    with mem key show ?thesis by (auto simp: find_None_iff)
  next
    case (Some q)
    then have "q \<in> set (gvalues (gread (assistantRuns st) scope))" "?P q"
      by (auto simp: find_Some_iff)
    with unique Some show ?thesis by simp
  qed
  with False fresh valid show ?thesis
    by (auto simp: CreateAssistantRun_def Let_def gget_gread)
qed

text \<open>The loop of \<open>LatestAssistantRun\<close> finds the maximum of the update key.\<close>

lemma latest_run_Some:
  "latest_run (Some l) rs = Some (foldl (\<lambda>l r. if run_updated_key l < run_updated_key r then r else l) l rs)"
  by (induction rs arbitrary: l) (auto simp: run_updated_key_def less_page_key_def)

lemma latest_fold_max:
  "let m = foldl (\<lambda>l r. if run_updated_key l < run_updated_key r then r else l) l rs
   in m \<in> set (l # rs) \<and> (\<forall>r \<in> set (l # rs). run_updated_key r \<le> run_updated_key m)"
proof (induction rs arbitrary: l)
  case (Cons r rs)
  show ?case
    using Cons [of "if run_updated_key l < run_updated_key r then r else l"]
    by (fastforce simp: Let_def not_less split: if_splits)
qed simp

lemma latest_run_max:
  "latest_run None rs = Some m \<Longrightarrow> m \<in> set rs \<and> (\<forall>r \<in> set rs. run_updated_key r \<le> run_updated_key m)"
  "latest_run None rs = None \<longleftrightarrow> rs = []"
  using latest_fold_max by (cases rs; auto simp: latest_run_Some Let_def)+

text \<open>With the invariant there is at most one unfinished run per thread.\<close>

lemma one_unfinished_run:
  assumes inv: "runs_inv (assistantRuns st)"
    and active: "ListActiveAssistantRuns scope st = Ok rs"
    and r: "r \<in> set rs" and q: "q \<in> set rs" and same: "run_ThreadID r = run_ThreadID q"
  shows "r = q"
proof -
  from active r q obtain i j where i: "read2 (assistantRuns st) scope i = Some r"
    and j: "read2 (assistantRuns st) scope j = Some q"
    and live: "\<not> assistantRunStatusTerminal (run_Status r)" "\<not> assistantRunStatusTerminal (run_Status q)"
    by (auto simp: ListActiveAssistantRuns_def gvalues_iff gget_gread split: option.splits)
  have "i = j"
    using runs_invD(2) [OF inv _ i j] same live by (auto simp: runs_compatible_def)
  with i j show ?thesis by simp
qed

end
