(* ===== verification/Store_Log.thy ===== *)
theory Store_Log
  imports Store_State
begin

text \<open>
  Append-only logs with increasing sequence numbers: assistant run events, thread events and
  conversation items are three of them. \<open>sort_Search\<close> is \<open>sort.Search\<close> of the Go library, and
  \<open>log_page_after\<close>, \<open>log_page_before\<close> are the windows that \<open>thread_memory.go\<close> cuts out of a log
  with it. The locale \<open>event_log\<close> states what the readers need of a log, and shows that a client
  that follows the log page by page, forwards or backwards, sees every event once and in order.
\<close>

section \<open>Binary search\<close>

function search_from :: "nat \<Rightarrow> nat \<Rightarrow> (nat \<Rightarrow> bool) \<Rightarrow> nat" where
  "search_from i j f =
     (if i < j then (let h = (i + j) div 2 in if \<not> f h then search_from (h + 1) j f else search_from i h f)
      else i)"
  by pat_completeness auto
termination
proof (relation "measure (\<lambda>(i, j, f). j - i)")
  fix i j h :: nat and f :: "nat \<Rightarrow> bool"
  assume "i < j" "h = (i + j) div 2"
  then have "i \<le> h" "h < j" by simp_all
  with \<open>i < j\<close> show "((h + 1, j, f), i, j, f) \<in> measure (\<lambda>(i, j, f). j - i)"
    and "((i, h, f), i, j, f) \<in> measure (\<lambda>(i, j, f). j - i)"
    by simp_all
qed simp

declare search_from.simps [simp del]

definition sort_Search :: "nat \<Rightarrow> (nat \<Rightarrow> bool) \<Rightarrow> nat" where
  "sort_Search n f = search_from 0 n f"

lemma search_from_least:
  assumes "i \<le> j" and mono: "\<And>a b. a \<le> b \<Longrightarrow> b < j \<Longrightarrow> f a \<Longrightarrow> f b"
  shows "i \<le> search_from i j f \<and> search_from i j f \<le> j
    \<and> (\<forall>k. i \<le> k \<longrightarrow> k < search_from i j f \<longrightarrow> \<not> f k)
    \<and> (\<forall>k. search_from i j f \<le> k \<longrightarrow> k < j \<longrightarrow> f k)"
  using assms
proof (induction i j f rule: search_from.induct)
  case (1 i j f)
  define h where "h = (i + j) div 2"
  note mono = "1.prems"(2)
  show ?case
  proof (cases "i < j")
    case False
    with "1.prems"(1) show ?thesis by (simp add: search_from.simps)
  next
    case True
    then have h: "i \<le> h" "h < j" by (simp_all add: h_def)
    show ?thesis
    proof (cases "f h")
      case False
      have low: "\<not> f k" if "k \<le> h" for k using mono [OF that h(2)] False by blast
      have r: "search_from i j f = search_from (h + 1) j f"
        using True False by (subst search_from.simps) (simp add: Let_def h_def)
      have L: "h + 1 \<le> search_from (h + 1) j f \<and> search_from (h + 1) j f \<le> j
        \<and> (\<forall>k. h + 1 \<le> k \<longrightarrow> k < search_from (h + 1) j f \<longrightarrow> \<not> f k)
        \<and> (\<forall>k. search_from (h + 1) j f \<le> k \<longrightarrow> k < j \<longrightarrow> f k)"
        by (rule "1.IH"(1) [OF True h_def False _ mono]) (use h in simp)
      show ?thesis unfolding r
      proof (intro conjI allI impI)
        show "i \<le> search_from (h + 1) j f" "search_from (h + 1) j f \<le> j" using L h(1) by simp_all
        fix k assume "i \<le> k" "k < search_from (h + 1) j f"
        then show "\<not> f k" using L low by (cases "k \<le> h") simp_all
      qed (use L in blast)
    next
      case found: True
      have high: "f k" if "h \<le> k" "k < j" for k using mono [OF that found] .
      have r: "search_from i j f = search_from i h f"
        using True found by (subst search_from.simps) (simp add: Let_def h_def)
      have L: "i \<le> search_from i h f \<and> search_from i h f \<le> h
        \<and> (\<forall>k. i \<le> k \<longrightarrow> k < search_from i h f \<longrightarrow> \<not> f k)
        \<and> (\<forall>k. search_from i h f \<le> k \<longrightarrow> k < h \<longrightarrow> f k)"
        by (rule "1.IH"(2) [OF True h_def _ h(1)]) (use found mono h(2) in auto)
      show ?thesis unfolding r
      proof (intro conjI allI impI)
        show "i \<le> search_from i h f" "search_from i h f \<le> j" using L h(2) by simp_all
        fix k assume "search_from i h f \<le> k" "k < j"
        then show "f k" using L high by (cases "k < h") simp_all
      qed (use L in blast)
    qed
  qed
qed

text \<open>On a predicate that stays true once it is true, the search finds its first index.\<close>

lemma sort_Search_takeWhile:
  assumes mono: "\<And>a b. a \<le> b \<Longrightarrow> b < length xs \<Longrightarrow> P (xs ! a) \<Longrightarrow> P (xs ! b)"
  shows "sort_Search (length xs) (\<lambda>k. P (xs ! k)) = length (takeWhile (\<lambda>x. \<not> P x) xs)"
proof -
  define r where "r = sort_Search (length xs) (\<lambda>k. P (xs ! k))"
  have L: "0 \<le> r \<and> r \<le> length xs \<and> (\<forall>k. 0 \<le> k \<longrightarrow> k < r \<longrightarrow> \<not> P (xs ! k))
      \<and> (\<forall>k. r \<le> k \<longrightarrow> k < length xs \<longrightarrow> P (xs ! k))"
    unfolding sort_Search_def r_def by (rule search_from_least) (simp, rule mono)
  have "takeWhile (\<lambda>x. \<not> P x) xs = take r xs"
  proof (rule takeWhile_eq_take_P_nth)
    show "\<not> P (xs ! k)" if "k < r" "k < length xs" for k using L that(1) by simp
    show "\<not> \<not> P (xs ! r)" if "r < length xs" using L that by simp
  qed
  with L have "length (takeWhile (\<lambda>x. \<not> P x) xs) = r" by simp
  then show ?thesis by (simp add: r_def)
qed

section \<open>Windows of a log\<close>

definition log_page_after :: "('e \<Rightarrow> int64) \<Rightarrow> 'e list \<Rightarrow> int64 \<Rightarrow> int \<Rightarrow> 'e list" where
  "log_page_after sequence events afterSequence limit =
     (let start = sort_Search (length events) (\<lambda>index. sequence (events ! index) > afterSequence);
          stop = min (start + nat limit) (length events)
      in take (stop - start) (drop start events))"

definition log_page_before :: "('e \<Rightarrow> int64) \<Rightarrow> 'e list \<Rightarrow> int64 \<Rightarrow> int \<Rightarrow> 'e list" where
  "log_page_before sequence events beforeSequence limit =
     (let stop = (if beforeSequence > 0
            then sort_Search (length events) (\<lambda>index. sequence (events ! index) \<ge> beforeSequence)
            else length events);
          start = stop - nat limit
      in take (stop - start) (drop start events))"

text \<open>
  The loop that skips up to a sequence number and stops when the page is full, as
  \<open>ListAssistantRunEvents\<close> and the conversation listing do it; \<open>room\<close> is the space left.
\<close>

fun scan_after :: "('e \<Rightarrow> int64) \<Rightarrow> int64 \<Rightarrow> nat \<Rightarrow> 'e list \<Rightarrow> 'e list" where
  "scan_after sequence afterSequence room [] = []"
| "scan_after sequence afterSequence room (e # es) =
     (if sequence e \<le> afterSequence then scan_after sequence afterSequence room es
      else if room = 1 then [e] else e # scan_after sequence afterSequence (room - 1) es)"

lemma scan_after_take:
  "1 \<le> room \<Longrightarrow> scan_after sequence a room es = take room (filter (\<lambda>e. a < sequence e) es)"
proof (induction es arbitrary: room)
  case (Cons e es)
  then show ?case by (cases room) (auto simp: not_less)
qed simp

text \<open>A reader that follows the log forwards, and one that scrolls back from its end.\<close>

fun follow :: "nat \<Rightarrow> (int64 \<Rightarrow> 'e list) \<Rightarrow> ('e \<Rightarrow> int64) \<Rightarrow> int64 \<Rightarrow> 'e list" where
  "follow 0 fetch sequence a = []"
| "follow (Suc fuel) fetch sequence a =
     (let page = fetch a
      in if page = [] then [] else page @ follow fuel fetch sequence (sequence (last page)))"

fun scroll_back :: "nat \<Rightarrow> (int64 \<Rightarrow> 'e list) \<Rightarrow> ('e \<Rightarrow> int64) \<Rightarrow> int64 \<Rightarrow> 'e list" where
  "scroll_back 0 fetch sequence b = []"
| "scroll_back (Suc fuel) fetch sequence b =
     (let page = fetch b
      in if page = [] then [] else scroll_back fuel fetch sequence (sequence (hd page)) @ page)"

locale event_log =
  fixes sequence :: "'e \<Rightarrow> int64"
    and wf :: "'e list \<Rightarrow> bool"
  assumes increasing: "wf l \<Longrightarrow> i < j \<Longrightarrow> j < length l \<Longrightarrow> sequence (l ! i) < sequence (l ! j)"
    and positive: "wf l \<Longrightarrow> i < length l \<Longrightarrow> 0 < sequence (l ! i)"
begin

lemma index_le: "wf l \<Longrightarrow> i \<le> j \<Longrightarrow> j < length l \<Longrightarrow> sequence (l ! i) \<le> sequence (l ! j)"
  using increasing [of l i j] by (cases "i = j") auto

lemma filter_after:
  assumes "wf l" "k \<le> length l" "k = 0 \<longrightarrow> a = 0" "0 < k \<longrightarrow> a = sequence (l ! (k - 1))"
  shows "filter (\<lambda>e. a < sequence e) l = drop k l"
proof -
  have "filter (\<lambda>e. a < sequence e) (take k l @ drop k l) = drop k l"
    unfolding filter_append
  proof -
    have "filter (\<lambda>e. a < sequence e) (take k l) = []"
      using assms index_le [OF assms(1), of _ "k - 1"]
      by (auto simp: filter_empty_conv in_set_conv_nth not_less)
    moreover have "filter (\<lambda>e. a < sequence e) (drop k l) = drop k l"
    proof (cases "k = 0")
      case True
      with assms positive [OF assms(1)] show ?thesis by (auto simp: filter_id_conv in_set_conv_nth)
    next
      case False
      with assms increasing [OF assms(1), of "k - 1"] show ?thesis
        by (auto simp: filter_id_conv in_set_conv_nth)
    qed
    ultimately show "filter (\<lambda>e. a < sequence e) (take k l) @ filter (\<lambda>e. a < sequence e) (drop k l)
      = drop k l" by simp
  qed
  then show ?thesis by simp
qed

lemma search_after:
  assumes "wf l"
  shows "drop (sort_Search (length l) (\<lambda>k. a < sequence (l ! k))) l = filter (\<lambda>e. a < sequence e) l"
proof -
  have "sort_Search (length l) (\<lambda>k. a < sequence (l ! k)) = length (takeWhile (\<lambda>e. \<not> a < sequence e) l)"
    by (rule sort_Search_takeWhile) (use index_le [OF assms] in force)
  moreover have "dropWhile (\<lambda>e. \<not> a < sequence e) l = filter (\<lambda>e. a < sequence e) l"
  proof -
    let ?n = "length (takeWhile (\<lambda>e. \<not> a < sequence e) l)"
    have len: "?n \<le> length l" by (rule length_takeWhile_le)
    have "filter (\<lambda>e. a < sequence e) (takeWhile (\<lambda>e. \<not> a < sequence e) l) = []"
      by (auto simp: filter_empty_conv dest: set_takeWhileD)
    moreover have "filter (\<lambda>e. a < sequence e) (dropWhile (\<lambda>e. \<not> a < sequence e) l)
        = dropWhile (\<lambda>e. \<not> a < sequence e) l"
    proof -
      have "a < sequence (l ! k)" if "?n \<le> k" "k < length l" for k
      proof -
        have "a < sequence (l ! ?n)" using nth_length_takeWhile [of "\<lambda>e. \<not> a < sequence e" l] that by simp
        then show ?thesis using index_le [OF assms that] by simp
      qed
      then show ?thesis
        by (auto simp: filter_id_conv in_set_conv_nth dropWhile_eq_drop)
    qed
    ultimately show ?thesis
      by (metis append_Nil filter_append takeWhile_dropWhile_id)
  qed
  ultimately show ?thesis by (simp add: dropWhile_eq_drop)
qed

lemma search_before:
  assumes "wf l"
  shows "take (sort_Search (length l) (\<lambda>k. b \<le> sequence (l ! k))) l = takeWhile (\<lambda>e. sequence e < b) l"
proof -
  have "sort_Search (length l) (\<lambda>k. b \<le> sequence (l ! k)) = length (takeWhile (\<lambda>e. \<not> b \<le> sequence e) l)"
    by (rule sort_Search_takeWhile) (use index_le [OF assms] in force)
  then show ?thesis by (simp add: not_le takeWhile_eq_take [symmetric])
qed

text \<open>A page after a sequence number is the next events of the log.\<close>

lemma log_page_after_eq:
  assumes "wf l"
  shows "log_page_after sequence l a limit = take (nat limit) (filter (\<lambda>e. a < sequence e) l)"
proof -
  let ?s = "sort_Search (length l) (\<lambda>k. a < sequence (l ! k))"
  have "take (min (?s + nat limit) (length l) - ?s) (drop ?s l) = take (nat limit) (drop ?s l)"
    by (simp add: min_def take_all_iff)
  then show ?thesis by (simp add: log_page_after_def search_after [OF assms])
qed

lemma follow_from:
  assumes wf: "wf l" and lim: "1 \<le> limit"
    and fetch: "\<And>a. 0 \<le> a \<Longrightarrow> fetch a = take limit (filter (\<lambda>e. a < sequence e) l)"
  shows "k \<le> length l \<Longrightarrow> k = 0 \<longrightarrow> a = 0 \<Longrightarrow> 0 < k \<longrightarrow> a = sequence (l ! (k - 1)) \<Longrightarrow>
    length l - k < fuel \<Longrightarrow> follow fuel fetch sequence a = drop k l"
proof (induction fuel arbitrary: k a)
  case 0
  then show ?case by simp
next
  case (Suc fuel)
  have "0 \<le> a" using Suc.prems(1-3) positive [OF wf, of "k - 1"] by (cases "k = 0") force+
  then have F: "fetch a = take limit (drop k l)"
    using fetch filter_after [OF wf Suc.prems(1-3)] by simp
  show ?case
  proof (cases "k = length l")
    case True
    with F show ?thesis by simp
  next
    case False
    with Suc.prems(1) have k: "k < length l" by simp
    let ?k' = "min (k + limit) (length l)"
    have page: "fetch a = take (?k' - k) (drop k l)"
      using F k by (simp add: min_def)
    have ne: "fetch a \<noteq> []" using F k lim by simp
    have "last (fetch a) = l ! (?k' - 1)"
      using page ne k lim by (simp add: last_conv_nth)
    then have "follow fuel fetch sequence (sequence (last (fetch a))) = drop ?k' l"
      using k lim Suc.prems(4) by (intro Suc.IH) auto
    moreover have "take (?k' - k) (drop k l) @ drop ?k' l = drop k l"
    proof -
      have "drop (?k' - k) (drop k l) = drop ?k' l" using k by simp
      then show ?thesis using append_take_drop_id [of "?k' - k" "drop k l"] by simp
    qed
    ultimately show ?thesis using ne page by (simp add: Let_def)
  qed
qed

lemma follow_all:
  assumes "wf l" "1 \<le> limit" "\<And>a. 0 \<le> a \<Longrightarrow> fetch a = take limit (filter (\<lambda>e. a < sequence e) l)"
    "length l < fuel"
  shows "follow fuel fetch sequence 0 = l"
  using follow_from [OF assms(1-3), of 0 0 fuel] assms(4) by simp

text \<open>Scrolling back: a page before a sequence number is the last events in front of it.\<close>

lemma takeWhile_before:
  assumes "wf l" "k < length l"
  shows "takeWhile (\<lambda>e. sequence e < sequence (l ! k)) l = take k l"
  using assms by (intro takeWhile_eq_take_P_nth) (auto simp: increasing)

lemma log_page_before_at:
  assumes wf: "wf l" and k: "k \<le> length l"
    and b: "k = length l \<and> b = 0 \<or> k < length l \<and> b = sequence (l ! k)"
  shows "log_page_before sequence l b limit = drop (k - nat limit) (take k l)"
proof (cases "b > 0")
  case False
  with b positive [OF wf, of k] have "k = length l" by auto
  with False show ?thesis by (simp add: log_page_before_def Let_def)
next
  case True
  with b have k': "k < length l" "b = sequence (l ! k)" by auto
  let ?s = "sort_Search (length l) (\<lambda>i. b \<le> sequence (l ! i))"
  have s: "?s \<le> length l"
    unfolding sort_Search_def
    by (rule conjunct1 [OF conjunct2 [OF search_from_least]])
      (use index_le [OF wf] order_trans in blast)+
  have "take ?s l = take k l" using search_before [OF wf, of b] takeWhile_before [OF wf k'(1)] k' by simp
  then have "?s = k" using s k by (metis length_take min.absorb2)
  with True show ?thesis
    by (simp add: log_page_before_def Let_def drop_take)
qed

lemma scroll_back_from:
  assumes wf: "wf l" and lim: "1 \<le> limit"
    and fetch: "\<And>b. fetch b = log_page_before sequence l b limit"
  shows "k \<le> length l \<Longrightarrow> k = length l \<and> b = 0 \<or> k < length l \<and> b = sequence (l ! k) \<Longrightarrow>
    k < fuel \<Longrightarrow> scroll_back fuel fetch sequence b = take k l"
proof (induction fuel arbitrary: k b)
  case 0
  then show ?case by simp
next
  case (Suc fuel)
  have F: "fetch b = drop (k - nat limit) (take k l)"
    unfolding fetch by (rule log_page_before_at [OF wf Suc.prems(1,2)])
  show ?case
  proof (cases "k = 0")
    case True
    with F show ?thesis by simp
  next
    case False
    let ?k' = "k - nat limit"
    have k': "?k' < k" "?k' < length l" using False lim Suc.prems(1) by auto
    then have "fetch b \<noteq> []" "hd (fetch b) = l ! ?k'"
      using F Suc.prems(1) by (auto simp: hd_drop_conv_nth)
    moreover have "scroll_back fuel fetch sequence (sequence (l ! ?k')) = take ?k' l"
      using k' Suc.prems(3) by (intro Suc.IH) auto
    moreover have "take ?k' l @ drop ?k' (take k l) = take k l"
      using k' by (metis append_take_drop_id min.absorb1 less_imp_le take_take)
    ultimately show ?thesis using F by (simp add: Let_def)
  qed
qed

lemma scroll_back_all:
  assumes "wf l" "1 \<le> limit" "\<And>b. fetch b = log_page_before sequence l b limit" "length l < fuel"
  shows "scroll_back fuel fetch sequence 0 = l"
  using scroll_back_from [OF assms(1-3), of "length l" 0 fuel] assms(4) by simp

end

text \<open>
  Contiguous logs: the event at position \<open>k\<close> has sequence \<open>k + 1\<close>. As long as the last number
  fits an \<open>int64\<close> they are logs in the sense above.
\<close>

definition contiguous :: "('e \<Rightarrow> int64) \<Rightarrow> 'e list \<Rightarrow> bool" where
  "contiguous sequence l \<longleftrightarrow> (\<forall>k < length l. sequence (l ! k) = int k + 1)"

lemma contiguous_Nil [simp]: "contiguous sequence []"
  by (simp add: contiguous_def)

lemma contiguous_snoc:
  "contiguous sequence l \<Longrightarrow> sequence e = int (length l) + 1 \<Longrightarrow> contiguous sequence (l @ [e])"
  by (auto simp: contiguous_def nth_append less_Suc_eq)

lemma contiguous_last: "contiguous sequence l \<Longrightarrow> l \<noteq> [] \<Longrightarrow> sequence (last l) = int (length l)"
  by (auto simp: contiguous_def last_conv_nth of_nat_diff Suc_leI)

lemma event_log_contiguous: "event_log sequence (contiguous sequence)"
  by unfold_locales (auto simp: contiguous_def)

end
