(* ===== verification/Store_Run_Events.thy ===== *)
theory Store_Run_Events
  imports Store_Runs Store_Log
begin

text \<open>
  Assistant run events and conversation items of \<open>MemoryStore\<close> (\<open>memory.go\<close>). Shown: the log of
  a run is contiguous and its type index is a projection of it, an append is a compare-and-swap
  on the last sequence number, and the sequence numbers of conversation items increase and are
  never used again after retention removed items.
\<close>

section \<open>Operations\<close>

definition current_run_sequence :: "AssistantRunEvent list \<Rightarrow> int64" where
  "current_run_sequence events = (if events \<noteq> [] then rev_Sequence (last events) else 0)"

definition AppendAssistantRunEvent ::
  "time \<Rightarrow> Scope \<Rightarrow> AssistantRunEvent \<Rightarrow> int64 \<Rightarrow> AssistantRunEvent op" where
  [op_defs]: "AppendAssistantRunEvent now scope event expectedSequence st =
     (case prepareAssistantRunEvent now scope event expectedSequence of
        Inl e \<Rightarrow> (Err e, st)
      | Inr event \<Rightarrow>
        if read2 (assistantRuns st) scope (rev_RunID event) = None
        then (Err ErrAssistantRunNotFound, st)
        else let st = st\<lparr>assistantEvents := ensure scope (assistantEvents st)\<rparr>;
                 events = slice2 (assistantEvents st) scope (rev_RunID event);
                 currentSequence = current_run_sequence events
        in if currentSequence \<noteq> expectedSequence then (Err ErrAssistantRunEventConflict, st)
           else let st = st\<lparr>assistantEvents :=
                      put2 scope (rev_RunID event) (events @ [event]) (assistantEvents st)\<rparr>;
                    st = st\<lparr>assistantEventLookup := ensure scope (assistantEventLookup st)\<rparr>;
                    lookupKey = (rev_RunID event, rev_Type event);
                    st = st\<lparr>assistantEventLookup := put2 scope lookupKey
                      (slice2 (assistantEventLookup st) scope lookupKey @ [event]) (assistantEventLookup st)\<rparr>
                in (Ok event, st))"

definition ListAssistantRunEvents ::
  "Scope \<Rightarrow> string \<Rightarrow> int64 \<Rightarrow> int \<Rightarrow> MemoryStore \<Rightarrow> AssistantRunEvent list sres" where
  "ListAssistantRunEvents scope runID afterSequence limit st =
     (case validateAssistantRunEventList scope runID afterSequence of
        Inl e \<Rightarrow> Err e
      | Inr runID \<Rightarrow>
        let limit = normalizeLimit limit
        in if read2 (assistantRuns st) scope runID = None then Err ErrAssistantRunNotFound
           else Ok (scan_after rev_Sequence afterSequence (nat limit)
                  (slice2 (assistantEvents st) scope runID)))"

fun collect_events_by_runs ::
  "(string \<Rightarrow> AssistantRunEvent list) \<Rightarrow> int \<Rightarrow> string set \<Rightarrow> string list \<Rightarrow> AssistantRunEvent list" where
  "collect_events_by_runs stored_for perRunLimit seen [] = []"
| "collect_events_by_runs stored_for perRunLimit seen (rawRunID # rest) =
     (let runID = TrimSpace rawRunID
      in if runID = [] \<or> runID \<in> seen then collect_events_by_runs stored_for perRunLimit seen rest
         else let stored = stored_for runID;
                  start = nat (int (length stored) - perRunLimit)
              in drop start stored
                 @ collect_events_by_runs stored_for perRunLimit (insert runID seen) rest)"

definition ListAssistantRunEventsByRuns ::
  "Scope \<Rightarrow> string list \<Rightarrow> string \<Rightarrow> int \<Rightarrow> MemoryStore \<Rightarrow> AssistantRunEvent list sres" where
  "ListAssistantRunEventsByRuns scope runIDs eventType perRunLimit st =
     (case Scope_validate scope of Some e \<Rightarrow> Err e | None \<Rightarrow>
      let eventType = TrimSpace eventType
      in if eventType = [] \<or> perRunLimit \<le> 0 then Ok []
         else Ok (collect_events_by_runs
                (\<lambda>runID. slice2 (assistantEventLookup st) scope (runID, eventType))
                perRunLimit {} runIDs))"

text \<open>The loop \<open>if existing.Sequence > nextSequence { nextSequence = existing.Sequence }\<close>.\<close>

fun max_item_sequence :: "int64 \<Rightarrow> AssistantConversationItem list \<Rightarrow> int64" where
  "max_item_sequence nextSequence [] = nextSequence"
| "max_item_sequence nextSequence (existing # rest) =
     max_item_sequence (if item_Sequence existing > nextSequence then item_Sequence existing
       else nextSequence) rest"

definition item_high_water :: "MemoryStore \<Rightarrow> Scope \<Rightarrow> int64" where
  "item_high_water st scope = (case gget (conversationSequences st) scope of None \<Rightarrow> 0 | Some n \<Rightarrow> n)"

definition AppendAssistantConversationItem :: "(string \<Rightarrow> string option) \<Rightarrow> time \<Rightarrow> Scope
    \<Rightarrow> AssistantConversationItem \<Rightarrow> AssistantConversationItem op" where
  [op_defs]: "AppendAssistantConversationItem canon now scope item st =
     (case prepareAssistantConversationItem now scope item of
        Inl e \<Rightarrow> (Err e, st)
      | Inr prepared \<Rightarrow>
        (case find (\<lambda>existing. item_ID existing = item_ID prepared
             \<and> item_RunID existing = item_RunID prepared) (gread (conversationItems st) scope) of
          Some existing \<Rightarrow>
            if \<not> assistantConversationItemsMatch canon existing prepared
            then (Err ErrAssistantConversationItemConflict, st) else (Ok existing, st)
        | None \<Rightarrow>
          let nextSequence = max_item_sequence (item_high_water st scope)
                (gread (conversationItems st) scope);
              nextSequence = wrap64 (nextSequence + 1);
              st = st\<lparr>conversationSequences := gput scope nextSequence (conversationSequences st)\<rparr>;
              prepared = prepared\<lparr>item_Sequence := nextSequence\<rparr>
          in (Ok prepared, st\<lparr>conversationItems := gput scope
                (gread (conversationItems st) scope @ [prepared]) (conversationItems st)\<rparr>)))"

definition listAssistantConversationItems ::
  "Scope \<Rightarrow> string \<Rightarrow> int64 \<Rightarrow> int \<Rightarrow> MemoryStore \<Rightarrow> AssistantConversationItem list sres" where
  "listAssistantConversationItems scope threadID afterSequence limit st =
     (case Scope_validate scope of Some e \<Rightarrow> Err e | None \<Rightarrow>
      let limit = normalizeLimit limit
      in Ok (scan_after item_Sequence afterSequence (nat limit)
           (filter (\<lambda>item. threadID \<noteq> [] \<longrightarrow>
               read3 (assistantTurns st) scope threadID (item_RunID item) \<noteq> None)
             (gread (conversationItems st) scope))))"

definition ListAssistantConversationItems ::
  "Scope \<Rightarrow> int64 \<Rightarrow> int \<Rightarrow> MemoryStore \<Rightarrow> AssistantConversationItem list sres" where
  "ListAssistantConversationItems scope afterSequence limit st =
     listAssistantConversationItems scope [] afterSequence limit st"

definition ListAssistantThreadConversationItems ::
  "Scope \<Rightarrow> string \<Rightarrow> int64 \<Rightarrow> int \<Rightarrow> MemoryStore \<Rightarrow> AssistantConversationItem list sres" where
  "ListAssistantThreadConversationItems scope threadID afterSequence limit st =
     (if blank threadID then Err (ErrInvalid ''assistant conversation thread is required'')
      else listAssistantConversationItems scope threadID afterSequence limit st)"

section \<open>The logs of the runs\<close>

interpretation run_log: event_log rev_Sequence "contiguous rev_Sequence"
  by (rule event_log_contiguous)

definition run_log_ok :: "MemoryStore \<Rightarrow> Scope \<Rightarrow> string \<Rightarrow> bool" where
  "run_log_ok st scope i \<longleftrightarrow>
     (let events = slice2 (assistantEvents st) scope i in
       contiguous rev_Sequence events \<and> int (length events) \<le> max_int64
       \<and> (\<forall>e \<in> set events. rev_RunID e = i)
       \<and> (events \<noteq> [] \<longrightarrow> read2 (assistantRuns st) scope i \<noteq> None)
       \<and> (\<forall>t. slice2 (assistantEventLookup st) scope (i, t) = filter (\<lambda>e. rev_Type e = t) events))"

definition run_events_inv :: "MemoryStore \<Rightarrow> bool" where
  "run_events_inv st \<longleftrightarrow> (\<forall>scope i. run_log_ok st scope i)"

lemma run_log_okD:
  assumes "run_events_inv st"
  shows "contiguous rev_Sequence (slice2 (assistantEvents st) scope i)"
    and "int (length (slice2 (assistantEvents st) scope i)) \<le> max_int64"
    and "e \<in> set (slice2 (assistantEvents st) scope i) \<Longrightarrow> rev_RunID e = i"
    and "slice2 (assistantEventLookup st) scope (i, t)
      = filter (\<lambda>e. rev_Type e = t) (slice2 (assistantEvents st) scope i)"
    and "read2 (assistantRuns st) scope i = None \<Longrightarrow> slice2 (assistantEvents st) scope i = []"
proof -
  have ok: "run_log_ok st scope i" using assms by (simp add: run_events_inv_def)
  show "contiguous rev_Sequence (slice2 (assistantEvents st) scope i)"
    and "int (length (slice2 (assistantEvents st) scope i)) \<le> max_int64"
    and "e \<in> set (slice2 (assistantEvents st) scope i) \<Longrightarrow> rev_RunID e = i"
    and "slice2 (assistantEventLookup st) scope (i, t)
      = filter (\<lambda>e. rev_Type e = t) (slice2 (assistantEvents st) scope i)"
    and "read2 (assistantRuns st) scope i = None \<Longrightarrow> slice2 (assistantEvents st) scope i = []"
    using ok by (auto simp: run_log_ok_def Let_def)
qed

text \<open>The invariant only reads the two event maps and which runs exist.\<close>

lemma run_events_inv_frame:
  assumes "run_events_inv st" "assistantEvents st' = assistantEvents st"
    "assistantEventLookup st' = assistantEventLookup st"
    "\<And>sc i. read2 (assistantRuns st) sc i \<noteq> None \<Longrightarrow> read2 (assistantRuns st') sc i \<noteq> None"
  shows "run_events_inv st'"
  using assms unfolding run_events_inv_def run_log_ok_def Let_def by metis

lemma run_op_run_events:
  assumes inv: "run_events_inv st" and op: "run_op scope st st'"
  shows "run_events_inv st'"
proof (rule run_events_inv_frame [OF inv])
  from op have eq: "st' = st\<lparr>messages := messages st', assistantRuns := assistantRuns st'\<rparr>"
    and step: "runs_step scope (assistantRuns st) (assistantRuns st')"
    by (simp_all add: run_op_def)
  show "assistantEvents st' = assistantEvents st" by (subst eq) simp
  show "assistantEventLookup st' = assistantEventLookup st" by (subst eq) simp
  show "read2 (assistantRuns st') sc i \<noteq> None" if "read2 (assistantRuns st) sc i \<noteq> None" for sc i
    using that step by (auto elim: runs_step_evolves)
qed

lemma prepareAssistantRunEvent_Inr:
  assumes "prepareAssistantRunEvent now scope event expected = Inr e"
  shows "Scope_validate scope = None" "rev_Sequence e = wrap64 (expected + 1)" "0 \<le> expected"
    "expected \<noteq> max_int64" "rev_RunID e = TrimSpace (rev_RunID event)" "rev_RunID e \<noteq> []"
    "rev_Type e = TrimSpace (rev_Type event)" "rev_Type e \<noteq> []" "json_Valid (rev_Payload e)"
    "rev_ProjectUID e = ProjectUID scope"
  using assms
  by (auto simp: prepareAssistantRunEvent_def Let_def split: option.splits if_splits)

lemma current_run_sequence_length:
  "contiguous rev_Sequence events \<Longrightarrow> current_run_sequence events = int (length events)"
  using contiguous_last [of rev_Sequence events] by (auto simp: current_run_sequence_def)

lemma AppendAssistantRunEvent_cases:
  assumes op: "AppendAssistantRunEvent now scope event expected st = (r, st')"
  obtains (refused) e where "r = Err e" "st' = st \<or> st' = st\<lparr>assistantEvents := ensure scope (assistantEvents st)\<rparr>"
  | (stored) e events where "r = Ok e" "prepareAssistantRunEvent now scope event expected = Inr e"
      "events = slice2 (assistantEvents st) scope (rev_RunID e)"
      "read2 (assistantRuns st) scope (rev_RunID e) \<noteq> None"
      "expected = current_run_sequence events"
      "st' = st\<lparr>assistantEvents := put2 scope (rev_RunID e) (events @ [e])
           (ensure scope (assistantEvents st)),
         assistantEventLookup := put2 scope (rev_RunID e, rev_Type e)
           (slice2 (assistantEventLookup st) scope (rev_RunID e, rev_Type e) @ [e])
           (ensure scope (assistantEventLookup st))\<rparr>"
proof (cases "prepareAssistantRunEvent now scope event expected")
  case (Inl e)
  with op refused show thesis by (auto simp: AppendAssistantRunEvent_def)
next
  case (Inr e)
  let ?events = "slice2 (assistantEvents st) scope (rev_RunID e)"
  show thesis
  proof (cases "read2 (assistantRuns st) scope (rev_RunID e) \<noteq> None
      \<and> expected = current_run_sequence ?events")
    case True
    with op Inr show thesis
      by (intro stored [of e ?events]) (auto simp: AppendAssistantRunEvent_def Let_def slice2_ensure)
  next
    case False
    with op Inr refused show thesis
      by (auto simp: AppendAssistantRunEvent_def Let_def slice2_ensure split: if_splits)
  qed
qed

lemma run_events_inv_ensure:
  "run_events_inv st \<Longrightarrow> run_events_inv (st\<lparr>assistantEvents := ensure scope (assistantEvents st)\<rparr>)"
  by (simp add: run_events_inv_def run_log_ok_def slice2_ensure)

lemma AppendAssistantRunEvent_inv:
  assumes op: "AppendAssistantRunEvent now scope event expected st = (r, st')"
    and inv: "run_events_inv st"
  shows "run_events_inv st' \<and> r \<noteq> Panic"
  using op
proof (cases rule: AppendAssistantRunEvent_cases)
  case (refused e)
  then show ?thesis using inv run_events_inv_ensure by auto
next
  case (stored e events)
  note p = prepareAssistantRunEvent_Inr [OF stored(2)]
  note old = run_log_okD [OF inv, where scope = scope and i = "rev_RunID e", folded stored(3)]
  have expected: "expected = int (length events)"
    using stored(5) current_run_sequence_length [OF old(1)] by simp
  have fits: "int (length events) + 1 \<le> max_int64"
    using old(2) p(4) expected by simp
  then have seq: "rev_Sequence e = int (length events) + 1"
    using p(2) expected by (simp add: wrap64_id is_int64_def)
  have "run_log_ok st' sc i" for sc i
  proof (cases "sc = scope \<and> i = rev_RunID e")
    case True
    then have log: "slice2 (assistantEvents st') sc i = events @ [e]"
      and index: "slice2 (assistantEventLookup st') sc (i, t)
        = (if t = rev_Type e then slice2 (assistantEventLookup st) scope (rev_RunID e, t) @ [e]
           else slice2 (assistantEventLookup st) scope (rev_RunID e, t))"
      and "assistantRuns st' = assistantRuns st" for t
      unfolding stored(6) by (simp_all add: gomap_simps)
    then show ?thesis
      unfolding run_log_ok_def Let_def log index old(4)
      using True stored(4) old(1,3) seq fits by (auto intro: contiguous_snoc)
  next
    case False
    moreover have "run_log_ok st sc i" using inv by (simp add: run_events_inv_def)
    ultimately show ?thesis
      using stored(6) by (auto simp: run_log_ok_def Let_def gomap_simps)
  qed
  with stored(1) show ?thesis by (simp add: run_events_inv_def)
qed

text \<open>A successful append adds one event at the end of the log of its run.\<close>

lemma AppendAssistantRunEvent_Ok:
  assumes "AppendAssistantRunEvent now scope event expected st = (Ok e, st')"
    and "run_events_inv st"
  shows "slice2 (assistantEvents st') scope (rev_RunID e)
      = slice2 (assistantEvents st) scope (rev_RunID e) @ [e]
    \<and> expected = int (length (slice2 (assistantEvents st) scope (rev_RunID e)))
    \<and> rev_RunID e = TrimSpace (rev_RunID event)"
  using assms(1)
proof (cases rule: AppendAssistantRunEvent_cases)
  case (stored e' events)
  have "slice2 (assistantEvents st') scope (rev_RunID e) = events @ [e]"
    using stored(1) unfolding stored(6) by (simp add: gomap_simps)
  then show ?thesis
    using stored(1,2,3,5) current_run_sequence_length [OF run_log_okD(1) [OF assms(2)]]
      prepareAssistantRunEvent_Inr(5) by simp
qed simp_all

text \<open>Of two writers that expect the same sequence number only the first one succeeds.\<close>

lemma AppendAssistantRunEvent_cas:
  assumes first: "AppendAssistantRunEvent now scope event expected st = (Ok e, st')"
    and inv: "run_events_inv st"
    and same_run: "TrimSpace (rev_RunID other) = TrimSpace (rev_RunID event)"
    and second: "AppendAssistantRunEvent now' scope other expected st' = (r, st'')"
  shows "\<not> res_ok r"
proof
  assume "res_ok r"
  then obtain e' where e': "r = Ok e'" by (auto simp: res_ok_iff)
  have inv': "run_events_inv st'" using AppendAssistantRunEvent_inv [OF first inv] by simp
  note F = AppendAssistantRunEvent_Ok [OF first inv]
    and S = AppendAssistantRunEvent_Ok [OF second [unfolded e'] inv']
  have "rev_RunID e' = rev_RunID e" using F S same_run by simp
  then have "int (length (slice2 (assistantEvents st') scope (rev_RunID e)))
      = int (length (slice2 (assistantEvents st) scope (rev_RunID e)))"
    using F S by metis
  then show False using arg_cong [OF conjunct1 [OF F], of length] by simp
qed

text \<open>Reading the log after a sequence number, and following it from the start.\<close>

lemma ListAssistantRunEvents_eq:
  assumes "Scope_validate scope = None" "TrimSpace i \<noteq> []" "0 \<le> a"
    "read2 (assistantRuns st) scope (TrimSpace i) \<noteq> None"
  shows "ListAssistantRunEvents scope i a limit st =
    Ok (take (nat (normalizeLimit limit)) (filter (\<lambda>e. a < rev_Sequence e)
      (slice2 (assistantEvents st) scope (TrimSpace i))))"
  using assms normalizeLimit_bounds(1) [of limit]
  by (simp add: ListAssistantRunEvents_def validateAssistantRunEventList_def Let_def scan_after_take)

text \<open>The newest events of one type of one run, as the batched lookup returns them.\<close>

lemma ListAssistantRunEventsByRuns_one:
  assumes inv: "run_events_inv st" and "Scope_validate scope = None"
    and "TrimSpace i \<noteq> []" "TrimSpace t \<noteq> []" "0 < n"
  shows "ListAssistantRunEventsByRuns scope [i] t n st =
    (let found = filter (\<lambda>e. rev_Type e = TrimSpace t)
           (slice2 (assistantEvents st) scope (TrimSpace i))
     in Ok (drop (nat (int (length found) - n)) found))"
  using assms run_log_okD(4) [OF inv]
  by (simp add: ListAssistantRunEventsByRuns_def Let_def)

section \<open>Conversation items\<close>

definition item_log :: "AssistantConversationItem list \<Rightarrow> bool" where
  "item_log items \<longleftrightarrow> sorted_wrt (\<lambda>a b. item_Sequence a < item_Sequence b) items
     \<and> (\<forall>x \<in> set items. 0 < item_Sequence x)"

interpretation item_log: event_log item_Sequence item_log
proof
  fix l :: "AssistantConversationItem list" and i j :: nat
  assume "item_log l" "i < j" "j < length l"
  then show "item_Sequence (l ! i) < item_Sequence (l ! j)"
    by (simp add: item_log_def sorted_wrt_iff_nth_less)
next
  fix l :: "AssistantConversationItem list" and i :: nat
  assume "item_log l" "i < length l"
  then show "0 < item_Sequence (l ! i)" by (simp add: item_log_def)
qed

definition conversation_ok :: "MemoryStore \<Rightarrow> Scope \<Rightarrow> bool" where
  "conversation_ok st scope \<longleftrightarrow>
     (let items = gread (conversationItems st) scope in
       item_log items \<and> (\<forall>x \<in> set items. item_Sequence x \<le> item_high_water st scope)
       \<and> 0 \<le> item_high_water st scope
       \<and> distinct (map (\<lambda>x. (item_ID x, item_RunID x)) items))"

definition conversation_inv :: "MemoryStore \<Rightarrow> bool" where
  "conversation_inv st \<longleftrightarrow> (\<forall>scope. conversation_ok st scope)"

text \<open>Removing items keeps it, whichever they are: the high-water mark stays.\<close>

lemma conversation_ok_subseq:
  assumes "conversation_ok st scope" "gread (conversationItems st') scope
      = filter P (gread (conversationItems st) scope)"
    "item_high_water st' scope = item_high_water st scope"
  shows "conversation_ok st' scope"
  using assms
  by (auto simp: conversation_ok_def Let_def item_log_def sorted_wrt_filter distinct_map_filter)

lemma max_item_sequence_bound:
  "\<forall>x \<in> set items. item_Sequence x \<le> n \<Longrightarrow> max_item_sequence n items = n"
  by (induction items) (auto simp: not_less)

lemma AppendAssistantConversationItem_cases:
  assumes op: "AppendAssistantConversationItem canon now scope item st = (r, st')"
  obtains (refused) e where "r = Err e" "st' = st"
  | (found) existing where "r = Ok existing" "st' = st"
      "existing \<in> set (gread (conversationItems st) scope)"
      "item_ID existing = TrimSpace (item_ID item)" "item_RunID existing = TrimSpace (item_RunID item)"
  | (stored) x n where "r = Ok x"
      "n = wrap64 (max_item_sequence (item_high_water st scope) (gread (conversationItems st) scope) + 1)"
      "item_Sequence x = n"
      "item_ID x = TrimSpace (item_ID item)" "item_RunID x = TrimSpace (item_RunID item)"
      "\<And>y. y \<in> set (gread (conversationItems st) scope) \<Longrightarrow>
         (item_ID y, item_RunID y) \<noteq> (item_ID x, item_RunID x)"
      "st' = st\<lparr>conversationSequences := gput scope n (conversationSequences st),
         conversationItems := gput scope (gread (conversationItems st) scope @ [x]) (conversationItems st)\<rparr>"
proof (cases "prepareAssistantConversationItem now scope item")
  case (Inl e)
  with op refused show thesis by (auto simp: AppendAssistantConversationItem_def)
next
  case (Inr p)
  then have ids: "item_ID p = TrimSpace (item_ID item)" "item_RunID p = TrimSpace (item_RunID item)"
    by (auto simp: prepareAssistantConversationItem_def Let_def split: option.splits if_splits)
  let ?P = "\<lambda>y. item_ID y = item_ID p \<and> item_RunID y = item_RunID p"
  show thesis
  proof (cases "find ?P (gread (conversationItems st) scope)")
    case None
    then have "\<And>y. y \<in> set (gread (conversationItems st) scope) \<Longrightarrow> \<not> ?P y" by (simp add: find_None_iff)
    with op Inr None ids show thesis
      by (intro stored [of "p\<lparr>item_Sequence := wrap64 (max_item_sequence (item_high_water st scope)
          (gread (conversationItems st) scope) + 1)\<rparr>"])
        (auto simp: AppendAssistantConversationItem_def Let_def)
  next
    case (Some y)
    then have "y \<in> set (gread (conversationItems st) scope)" "?P y" by (auto simp: find_Some_iff)
    with op Inr Some ids found refused show thesis
      by (auto simp: AppendAssistantConversationItem_def split: if_splits)
  qed
qed

text \<open>
  An append either returns a stored item or stores one with the next unused number, as long as
  the numbers of the scope have not reached the end of \<open>int64\<close>.
\<close>

lemma AppendAssistantConversationItem_inv:
  assumes op: "AppendAssistantConversationItem canon now scope item st = (r, st')"
    and inv: "conversation_inv st" and room: "item_high_water st scope < max_int64"
  shows "conversation_inv st' \<and> r \<noteq> Panic"
  using op
proof (cases rule: AppendAssistantConversationItem_cases)
  case (stored x n)
  have ok: "conversation_ok st scope" using inv by (simp add: conversation_inv_def)
  then have "max_item_sequence (item_high_water st scope) (gread (conversationItems st) scope)
      = item_high_water st scope"
    by (intro max_item_sequence_bound) (simp add: conversation_ok_def Let_def)
  then have n: "n = item_high_water st scope + 1"
    using stored(2) room ok by (simp add: wrap64_id is_int64_def conversation_ok_def Let_def)
  have items: "gread (conversationItems st') sc
      = (if sc = scope then gread (conversationItems st) scope @ [x] else gread (conversationItems st) sc)"
    and hw: "item_high_water st' sc = (if sc = scope then n else item_high_water st sc)" for sc
    unfolding stored(7) by (simp_all add: gomap_simps item_high_water_def)
  have "conversation_ok st' sc" for sc
  proof (cases "sc = scope")
    case True
    with ok n stored(3) stored(6) show ?thesis
      unfolding conversation_ok_def Let_def items hw
      by (auto simp: item_log_def sorted_wrt_append image_iff)
        blast
  next
    case False
    with inv show ?thesis
      by (simp add: conversation_inv_def conversation_ok_def Let_def items hw)
  qed
  with stored(1) show ?thesis by (simp add: conversation_inv_def)
qed (use inv in simp_all)

end
