(* ===== verification/Store_Thread_Log.thy ===== *)
theory Store_Thread_Log
  imports Store_Log
begin

text \<open>
  The event log of a thread and its three projections in \<open>MemoryStore\<close> (\<open>thread_memory.go\<close>): the
  events of turns, their index by turn and type, and the sequence at which each turn started.
  \<open>appendAssistantThreadTurnEventsLocked\<close> maintains the projections; shown is that whatever is
  appended they stay projections of the log.
\<close>

definition latestAssistantThreadEventSequence :: "AssistantThreadEvent list \<Rightarrow> int64" where
  "latestAssistantThreadEventSequence events = (if length events = 0 then 0 else tev_Sequence (last events))"

text \<open>One round of the loop of \<open>appendAssistantThreadTurnEventsLocked\<close>.\<close>

definition index_turn_event :: "Scope \<Rightarrow> string \<Rightarrow> AssistantThreadEvent \<Rightarrow> MemoryStore \<Rightarrow> MemoryStore" where
  "index_turn_event scope threadID event st =
     (if blank (tev_TurnID event) then st
      else let st = st\<lparr>threadTurnEvents := put2 scope threadID
                 (slice2 (threadTurnEvents st) scope threadID @ [event]) (threadTurnEvents st)\<rparr>;
               lookupKey = (TrimSpace (tev_TurnID event), TrimSpace (tev_Type event));
               st = st\<lparr>threadTurnEventIndex := put3 scope threadID lookupKey
                 (slice3 (threadTurnEventIndex st) scope threadID lookupKey @ [event])
                 (threadTurnEventIndex st)\<rparr>
           in if tev_Type event = ''turn.started''
                 \<and> read3 (threadTurnStarts st) scope threadID (TrimSpace (tev_TurnID event)) = None
              then st\<lparr>threadTurnStarts := put3 scope threadID (TrimSpace (tev_TurnID event))
                     (tev_Sequence event) (threadTurnStarts st)\<rparr>
              else st)"

fun appendAssistantThreadTurnEventsLocked ::
  "Scope \<Rightarrow> string \<Rightarrow> AssistantThreadEvent list \<Rightarrow> MemoryStore \<Rightarrow> MemoryStore" where
  "appendAssistantThreadTurnEventsLocked scope threadID [] st = st"
| "appendAssistantThreadTurnEventsLocked scope threadID (event # events) st =
     appendAssistantThreadTurnEventsLocked scope threadID events (index_turn_event scope threadID event st)"

section \<open>Projections of a log\<close>

definition has_turn :: "AssistantThreadEvent \<Rightarrow> bool" where
  "has_turn e \<longleftrightarrow> \<not> blank (tev_TurnID e)"

definition of_turn :: "string \<Rightarrow> string \<Rightarrow> AssistantThreadEvent \<Rightarrow> bool" where
  "of_turn u ty e \<longleftrightarrow> has_turn e \<and> TrimSpace (tev_TurnID e) = u \<and> TrimSpace (tev_Type e) = ty"

definition starts_turn :: "string \<Rightarrow> AssistantThreadEvent \<Rightarrow> bool" where
  "starts_turn u e \<longleftrightarrow> has_turn e \<and> TrimSpace (tev_TurnID e) = u \<and> tev_Type e = ''turn.started''"

definition projections_ok :: "MemoryStore \<Rightarrow> Scope \<Rightarrow> string \<Rightarrow> AssistantThreadEvent list \<Rightarrow> bool" where
  "projections_ok st scope tid log \<longleftrightarrow>
     slice2 (threadTurnEvents st) scope tid = filter has_turn log
     \<and> (\<forall>u ty. slice3 (threadTurnEventIndex st) scope tid (u, ty) = filter (of_turn u ty) log)
     \<and> (\<forall>u. read3 (threadTurnStarts st) scope tid u = map_option tev_Sequence (find (starts_turn u) log))"

lemma find_append: "find P (xs @ ys) = (case find P xs of None \<Rightarrow> find P ys | Some x \<Rightarrow> Some x)"
  by (induction xs) auto

lemma index_turn_event_frame:
  "\<exists>a b c. index_turn_event scope tid e st =
     st\<lparr>threadTurnEvents := a, threadTurnEventIndex := b, threadTurnStarts := c\<rparr>"
proof -
  have "index_turn_event scope tid e st = st\<lparr>
     threadTurnEvents := threadTurnEvents (index_turn_event scope tid e st),
     threadTurnEventIndex := threadTurnEventIndex (index_turn_event scope tid e st),
     threadTurnStarts := threadTurnStarts (index_turn_event scope tid e st)\<rparr>"
    by (simp add: index_turn_event_def Let_def)
  then show ?thesis by blast
qed

lemma index_turn_event_projections:
  assumes ok: "projections_ok st scope tid log"
  shows "projections_ok (index_turn_event scope tid e st) scope tid (log @ [e])"
proof (cases "has_turn e")
  case False
  then have "index_turn_event scope tid e st = st" by (simp add: index_turn_event_def has_turn_def)
  moreover have "\<not> of_turn u ty e" "\<not> starts_turn u e" for u ty
    using False by (simp_all add: of_turn_def starts_turn_def)
  ultimately show ?thesis using ok False
    by (simp add: projections_ok_def find_append split: option.split)
next
  case True
  let ?st = "index_turn_event scope tid e st"
  have ev: "slice2 (threadTurnEvents ?st) scope tid = filter has_turn (log @ [e])"
    using ok True
    by (simp add: projections_ok_def index_turn_event_def Let_def has_turn_def gomap_simps)
  have ix: "slice3 (threadTurnEventIndex ?st) scope tid (u, ty) = filter (of_turn u ty) (log @ [e])" for u ty
    using ok True
    by (auto simp: projections_ok_def index_turn_event_def Let_def has_turn_def of_turn_def gomap_simps)
  have old: "read3 (threadTurnStarts st) scope tid u = map_option tev_Sequence (find (starts_turn u) log)" for u
    using ok by (simp add: projections_ok_def)
  have new: "read3 (threadTurnStarts ?st) scope tid u
      = (if starts_turn u e \<and> read3 (threadTurnStarts st) scope tid u = None
         then Some (tev_Sequence e) else read3 (threadTurnStarts st) scope tid u)" for u
    using True
    by (auto simp: index_turn_event_def Let_def has_turn_def starts_turn_def read3_put3)
  have stt: "read3 (threadTurnStarts ?st) scope tid u
      = map_option tev_Sequence (find (starts_turn u) (log @ [e]))" for u
    unfolding new old by (simp add: find_append split: option.split)
  show ?thesis unfolding projections_ok_def using ev ix stt by blast
qed

lemma index_turn_event_other:
  assumes "sc \<noteq> scope \<or> t \<noteq> tid"
  shows "projections_ok (index_turn_event scope tid e st) sc t log = projections_ok st sc t log"
  using assms
  by (auto simp: projections_ok_def index_turn_event_def Let_def gomap_simps)

lemma append_turn_events_frame:
  "\<exists>a b c. appendAssistantThreadTurnEventsLocked scope tid es st =
     st\<lparr>threadTurnEvents := a, threadTurnEventIndex := b, threadTurnStarts := c\<rparr>"
proof (induction es arbitrary: st)
  case Nil
  have "st = st\<lparr>threadTurnEvents := threadTurnEvents st,
    threadTurnEventIndex := threadTurnEventIndex st, threadTurnStarts := threadTurnStarts st\<rparr>" by simp
  then show ?case unfolding appendAssistantThreadTurnEventsLocked.simps by blast
next
  case (Cons e es)
  obtain a b c where 1: "index_turn_event scope tid e st =
      st\<lparr>threadTurnEvents := a, threadTurnEventIndex := b, threadTurnStarts := c\<rparr>"
    using index_turn_event_frame by blast
  obtain a' b' c' where 2: "appendAssistantThreadTurnEventsLocked scope tid es (index_turn_event scope tid e st)
      = (index_turn_event scope tid e st)
          \<lparr>threadTurnEvents := a', threadTurnEventIndex := b', threadTurnStarts := c'\<rparr>"
    using Cons by blast
  have "appendAssistantThreadTurnEventsLocked scope tid (e # es) st
      = st\<lparr>threadTurnEvents := a', threadTurnEventIndex := b', threadTurnStarts := c'\<rparr>"
    using 2 unfolding appendAssistantThreadTurnEventsLocked.simps 1 by simp
  then show ?case by blast
qed

lemma append_turn_events_projections:
  "projections_ok st scope tid log \<Longrightarrow>
   projections_ok (appendAssistantThreadTurnEventsLocked scope tid es st) scope tid (log @ es)"
proof (induction es arbitrary: st log)
  case (Cons e es)
  show ?case using Cons.IH [OF index_turn_event_projections [OF Cons.prems, of e]] by simp
qed simp

lemma append_turn_events_other:
  "sc \<noteq> scope \<or> t \<noteq> tid \<Longrightarrow>
   projections_ok (appendAssistantThreadTurnEventsLocked scope tid es st) sc t log = projections_ok st sc t log"
  by (induction es arbitrary: st) (auto simp: index_turn_event_other)

text \<open>The projections depend on nothing else.\<close>

lemma projections_ok_cong:
  assumes "threadTurnEvents st' = threadTurnEvents st" "threadTurnEventIndex st' = threadTurnEventIndex st"
    "threadTurnStarts st' = threadTurnStarts st"
  shows "projections_ok st' = projections_ok st"
  using assms by (auto simp: projections_ok_def fun_eq_iff)

lemma projections_ok_Nil:
  "projections_ok st scope tid [] \<longleftrightarrow> slice2 (threadTurnEvents st) scope tid = []
     \<and> (\<forall>k. slice3 (threadTurnEventIndex st) scope tid k = [])
     \<and> (\<forall>u. read3 (threadTurnStarts st) scope tid u = None)"
  by (auto simp: projections_ok_def)

section \<open>Sequence numbers\<close>

text \<open>
  The event at position \<open>k\<close> of a thread log has the sequence number \<open>k + 1\<close>, computed in
  \<open>int64\<close>. A log that fits is contiguous.
\<close>

definition numbered :: "AssistantThreadEvent list \<Rightarrow> bool" where
  "numbered log \<longleftrightarrow> (\<forall>k < length log. tev_Sequence (log ! k) = wrap64 (int k + 1))"

lemma numbered_contiguous:
  assumes "numbered log" "int (length log) \<le> max_int64"
  shows "contiguous tev_Sequence log"
  using assms by (auto simp: numbered_def contiguous_def wrap64_id is_int64_def)

lemma numbered_latest:
  assumes "numbered log"
  shows "latestAssistantThreadEventSequence log = wrap64 (int (length log))"
proof (cases log rule: rev_cases)
  case Nil
  then show ?thesis by (simp add: latestAssistantThreadEventSequence_def wrap64_def)
next
  case (snoc ys y)
  with assms have "tev_Sequence ((ys @ [y]) ! length ys) = wrap64 (int (length ys) + 1)"
    unfolding numbered_def by fastforce
  with snoc show ?thesis
    by (simp add: latestAssistantThreadEventSequence_def add.commute)
qed

lemma number_events_simps [simp]: "length (number_events base es) = length es"
  by (induction base es rule: number_events.induct) simp_all

lemma number_events_nth:
  "k < length es \<Longrightarrow> tev_Sequence (number_events base es ! k) = wrap64 (base + int k + 1)"
proof (induction base es arbitrary: k rule: number_events.induct)
  case (2 base e es)
  show ?case
  proof (cases k)
    case (Suc j)
    with 2 have "tev_Sequence (number_events base (e # es) ! k)
        = wrap64 (wrap64 (base + 1) + int j + 1)" by simp
    also have "\<dots> = wrap64 (wrap64 (base + 1) + (int j + 1))" by (simp add: algebra_simps)
    also have "\<dots> = wrap64 (base + 1 + (int j + 1))" by (rule wrap64_add_left)
    finally show ?thesis using Suc by (simp add: algebra_simps)
  qed simp
qed simp

text \<open>Numbering a block from the latest sequence keeps the log numbered.\<close>

lemma numbered_append:
  assumes "numbered log"
  shows "numbered (log @ number_events (latestAssistantThreadEventSequence log) es)"
  unfolding numbered_def
proof (intro allI impI)
  fix k assume k: "k < length (log @ number_events (latestAssistantThreadEventSequence log) es)"
  show "tev_Sequence ((log @ number_events (latestAssistantThreadEventSequence log) es) ! k)
      = wrap64 (int k + 1)"
  proof (cases "k < length log")
    case True
    with assms show ?thesis by (simp add: numbered_def nth_append)
  next
    case False
    let ?j = "k - length log"
    have "tev_Sequence ((log @ number_events (latestAssistantThreadEventSequence log) es) ! k)
        = wrap64 (wrap64 (int (length log)) + (int ?j + 1))"
      using False k numbered_latest [OF assms]
      by (simp add: nth_append number_events_nth algebra_simps)
    also have "\<dots> = wrap64 (int (length log) + (int ?j + 1))" by (rule wrap64_add_left)
    also have "int (length log) + (int ?j + 1) = int k + 1" using False by simp
    finally show ?thesis .
  qed
qed

lemma number_events_same:
  "length (number_events base es) = length es"
  "map tev_ThreadID (number_events base es) = map tev_ThreadID es"
  "map tev_TurnID (number_events base es) = map tev_TurnID es"
  by (induction base es rule: number_events.induct) simp_all

lemma number_events_single: "number_events base [e] = [e\<lparr>tev_Sequence := wrap64 (base + 1)\<rparr>]"
  by simp

interpretation thread_log: event_log tev_Sequence "contiguous tev_Sequence"
  by (rule event_log_contiguous)

text \<open>A projection by a filter of a contiguous log is a log with increasing numbers.\<close>

definition sublog :: "AssistantThreadEvent list \<Rightarrow> bool" where
  "sublog l \<longleftrightarrow> sorted_wrt (\<lambda>a b. tev_Sequence a < tev_Sequence b) l \<and> (\<forall>e \<in> set l. 0 < tev_Sequence e)"

interpretation sublog: event_log tev_Sequence sublog
  by unfold_locales (auto simp: sublog_def sorted_wrt_iff_nth_less)

lemma contiguous_sublog: "contiguous tev_Sequence l \<Longrightarrow> sublog (filter P l)"
proof -
  assume c: "contiguous tev_Sequence l"
  then have "sorted_wrt (\<lambda>a b. tev_Sequence a < tev_Sequence b) l"
    by (auto simp: sorted_wrt_iff_nth_less contiguous_def)
  then have "sorted_wrt (\<lambda>a b. tev_Sequence a < tev_Sequence b) (filter P l)"
    by (rule sorted_wrt_filter)
  with c show ?thesis by (auto simp: sublog_def contiguous_def in_set_conv_nth)
qed

end
