(* ===== verification/Store_Notify.thy ===== *)
theory Store_Notify
  imports Store_State
begin

text \<open>
  Thread event signals (\<open>thread_notify.go\<close>): the length-prefixed key of a thread's log and the
  broadcaster that wakes the streams waiting on it. Shown: the key is injective, so a signal for
  one thread never wakes another, and a published signal stays pending at every subscriber until
  it is received, however often it is repeated.
\<close>

section \<open>Keys\<close>

definition digit :: "nat \<Rightarrow> char" where
  "digit n = char_of (48 + n)"

fun itoa :: "nat \<Rightarrow> string" where
  "itoa n = (if n < 10 then [digit n] else itoa (n div 10) @ [digit (n mod 10)])"

declare itoa.simps [simp del]

definition write_component :: "string \<Rightarrow> string" where
  "write_component component = itoa (length component) @ CHR '':'' # component"

definition threadEventKey :: "Scope \<Rightarrow> string \<Rightarrow> string" where
  "threadEventKey scope threadID = concat (map write_component
     [OrgUUID scope, WorkspaceUUID scope, ProjectName scope, ProjectUID scope, TrimSpace threadID])"

lemma digit_inj: "m < 10 \<Longrightarrow> n < 10 \<Longrightarrow> digit m = digit n \<Longrightarrow> m = n"
  unfolding digit_def by (drule arg_cong [where f = "of_char :: char \<Rightarrow> nat"]) (simp add: of_char_of)

lemma digit_not_colon: "n < 10 \<Longrightarrow> digit n \<noteq> CHR '':''"
proof
  assume n: "n < 10" and "digit n = CHR '':''"
  then have "of_char (char_of (48 + n) :: char) = (of_char (CHR '':'') :: nat)"
    by (simp add: digit_def)
  with n show False by (simp add: of_char_of)
qed

lemma itoa_no_colon: "CHR '':'' \<notin> set (itoa n)"
proof (induction n rule: itoa.induct)
  case (1 n)
  then show ?case using digit_not_colon by (subst itoa.simps) (auto simp: eq_commute)
qed

lemma itoa_not_Nil [simp]: "itoa n \<noteq> []"
  by (subst itoa.simps) simp

lemma itoa_inj: "itoa m = itoa n \<Longrightarrow> m = n"
proof (induction m arbitrary: n rule: itoa.induct)
  case (1 m)
  have em: "itoa m = (if m < 10 then [digit m] else itoa (m div 10) @ [digit (m mod 10)])"
    and en: "itoa n = (if n < 10 then [digit n] else itoa (n div 10) @ [digit (n mod 10)])"
    by (subst itoa.simps, rule refl)+
  show ?case
  proof (cases "m < 10")
    case True
    with "1.prems" em en itoa_not_Nil [of "n div 10"] show ?thesis
      by (auto simp del: itoa_not_Nil split: if_splits dest: digit_inj)
  next
    case False
    with "1.prems" em en have n: "\<not> n < 10" by (auto split: if_splits)
    with False "1.prems" em en have "itoa (m div 10) = itoa (n div 10)"
      and last: "digit (m mod 10) = digit (n mod 10)" by auto
    with "1.IH" False have "m div 10 = n div 10" by simp
    moreover have "m mod 10 = n mod 10" using last by (rule digit_inj [rotated 2]) simp_all
    ultimately show ?thesis by (metis div_mult_mod_eq)
  qed
qed

lemma colon_split:
  assumes "xs @ CHR '':'' # r = ys @ CHR '':'' # q" "CHR '':'' \<notin> set xs" "CHR '':'' \<notin> set ys"
  shows "xs = ys \<and> r = q"
  using assms by (induction xs arbitrary: ys) (auto simp: Cons_eq_append_conv)

lemma write_component_prefix:
  assumes "write_component c @ r = write_component d @ q"
  shows "c = d \<and> r = q"
proof -
  from assms have "itoa (length c) @ CHR '':'' # (c @ r) = itoa (length d) @ CHR '':'' # (d @ q)"
    by (simp add: write_component_def)
  then have "itoa (length c) = itoa (length d) \<and> c @ r = d @ q"
    by (rule colon_split) (rule itoa_no_colon)+
  then show ?thesis using itoa_inj by (metis append_eq_append_conv)
qed

lemma concat_components_inj:
  "length cs = length ds \<Longrightarrow> concat (map write_component cs) = concat (map write_component ds) \<Longrightarrow>
    cs = ds"
proof (induction cs arbitrary: ds)
  case (Cons c cs)
  then obtain d ds' where ds: "ds = d # ds'" by (cases ds) auto
  with Cons.prems have "c = d \<and> concat (map write_component cs) = concat (map write_component ds')"
    by (intro write_component_prefix) simp
  with Cons ds show ?case by simp
qed simp

lemma threadEventKey_eq:
  "threadEventKey scope i = threadEventKey scope' j \<longleftrightarrow> scope = scope' \<and> TrimSpace i = TrimSpace j"
proof
  assume "threadEventKey scope i = threadEventKey scope' j"
  then have "[OrgUUID scope, WorkspaceUUID scope, ProjectName scope, ProjectUID scope, TrimSpace i]
    = [OrgUUID scope', WorkspaceUUID scope', ProjectName scope', ProjectUID scope', TrimSpace j]"
    unfolding threadEventKey_def by (rule concat_components_inj [rotated]) simp
  then show "scope = scope' \<and> TrimSpace i = TrimSpace j" by simp
qed (simp add: threadEventKey_def)

section \<open>The broadcaster\<close>

definition subscribe :: "string \<Rightarrow> threadEventBroadcaster \<Rightarrow> nat \<times> threadEventBroadcaster" where
  "subscribe key b =
     (let ch = bc_next b
      in (ch, b\<lparr>bc_next := Suc ch, bc_pending := gput ch False (bc_pending b),
            bc_subs := put2 key ch () (bc_subs b)\<rparr>))"

text \<open>
  The release function of a subscription. Its \<open>sync.Once\<close> makes a second call do nothing, which
  deleting an entry that is gone does as well.
\<close>

definition release :: "string \<Rightarrow> nat \<Rightarrow> threadEventBroadcaster \<Rightarrow> threadEventBroadcaster" where
  "release key ch b =
     (if gget (bc_subs b) key = None then b
      else b\<lparr>bc_subs := prune key (remove2 key ch (bc_subs b))\<rparr>)"

text \<open>\<open>select { case ch <- struct{}{}: default: }\<close> on a channel of capacity one.\<close>

definition signal :: "nat \<Rightarrow> threadEventBroadcaster \<Rightarrow> threadEventBroadcaster" where
  "signal ch b = b\<lparr>bc_pending := gput ch True (bc_pending b)\<rparr>"

definition publish :: "string \<Rightarrow> threadEventBroadcaster \<Rightarrow> threadEventBroadcaster" where
  "publish key b = fold signal (map fst (gentries (gread (bc_subs b) key))) b"

definition publishAll :: "threadEventBroadcaster \<Rightarrow> threadEventBroadcaster" where
  "publishAll b = fold (\<lambda>subs. fold signal (map fst (gentries subs))) (gvalues (bc_subs b)) b"

text \<open>The receiving end of a channel, and whether a signal waits there.\<close>

definition receive :: "nat \<Rightarrow> threadEventBroadcaster \<Rightarrow> threadEventBroadcaster" where
  "receive ch b = b\<lparr>bc_pending := gput ch False (bc_pending b)\<rparr>"

definition pending :: "threadEventBroadcaster \<Rightarrow> nat \<Rightarrow> bool" where
  "pending b ch \<longleftrightarrow> gget (bc_pending b) ch = Some True"

definition subscribed :: "threadEventBroadcaster \<Rightarrow> string \<Rightarrow> nat \<Rightarrow> bool" where
  "subscribed b key ch \<longleftrightarrow> read2 (bc_subs b) key ch \<noteq> None"

lemma signal_simps [simp]:
  "bc_subs (signal ch b) = bc_subs b" "bc_next (signal ch b) = bc_next b"
  "pending (signal ch b) c \<longleftrightarrow> c = ch \<or> pending b c"
  by (simp_all add: signal_def pending_def al.get_put)

lemma fold_signal:
  "bc_subs (fold signal chs b) = bc_subs b \<and> bc_next (fold signal chs b) = bc_next b
   \<and> (pending (fold signal chs b) c \<longleftrightarrow> c \<in> set chs \<or> pending b c)"
  by (induction chs arbitrary: b) auto

lemma subscribers: "ch \<in> set (map fst (gentries (gread (bc_subs b) key))) \<longleftrightarrow> subscribed b key ch"
  using al.entry_keys [of "gread (bc_subs b) key"] by (auto simp: subscribed_def read2_def)

text \<open>A publish sets the signal of exactly the subscribers of its key, and changes nothing else.\<close>

lemma publish_pending [simp]:
  "pending (publish key b) ch \<longleftrightarrow> subscribed b key ch \<or> pending b ch"
  using fold_signal [of "map fst (gentries (gread (bc_subs b) key))" b ch] subscribers [of ch b key]
  by (auto simp: publish_def)

lemma publish_subs [simp]: "bc_subs (publish key b) = bc_subs b" "bc_next (publish key b) = bc_next b"
  using fold_signal by (auto simp: publish_def)

lemma publish_subscribed [simp]: "subscribed (publish key b) k ch = subscribed b k ch"
  by (simp add: subscribed_def)

lemma publish_idem: "pending (publish key (publish key b)) ch = pending (publish key b) ch"
  by auto

lemma receive_pending [simp]: "pending (receive ch b) c \<longleftrightarrow> c \<noteq> ch \<and> pending b c"
  by (simp add: receive_def pending_def al.get_put)

lemma receive_subscribed [simp]: "subscribed (receive ch b) k c = subscribed b k c"
  by (simp add: receive_def subscribed_def)

lemma subscribe_subscribed:
  "subscribe key b = (ch, b') \<Longrightarrow> subscribed b' k c \<longleftrightarrow> k = key \<and> c = ch \<or> subscribed b k c"
  by (auto simp: subscribe_def Let_def subscribed_def read2_put2 split: if_splits)

lemma release_subscribed:
  "subscribed (release key ch b) k c \<longleftrightarrow> subscribed b k c \<and> \<not> (k = key \<and> c = ch)"
  by (auto simp: release_def subscribed_def gomap_simps) (simp add: read2_def gread_def)

lemma release_pending [simp]: "pending (release key ch b) c = pending b c"
  by (simp add: release_def pending_def)

lemma release_twice: "subscribed (release key ch (release key ch b)) k c = subscribed (release key ch b) k c"
  by (auto simp: release_subscribed)

lemma publishAll_fold:
  "bc_subs (fold (\<lambda>subs. fold signal (map fst (gentries subs))) ss b) = bc_subs b
   \<and> (pending (fold (\<lambda>subs. fold signal (map fst (gentries subs))) ss b) c \<longleftrightarrow>
       (\<exists>s \<in> set ss. gget s c \<noteq> None) \<or> pending b c)"
proof (induction ss arbitrary: b)
  case (Cons s ss)
  have "c \<in> set (map fst (gentries s)) \<longleftrightarrow> gget s c \<noteq> None"
    using al.entry_keys [of s] by auto
  with Cons [of "fold signal (map fst (gentries s)) b"] fold_signal [of "map fst (gentries s)" b c]
  show ?case by auto
qed simp

lemma publishAll_pending:
  "pending (publishAll b) ch \<longleftrightarrow> (\<exists>key. subscribed b key ch) \<or> pending b ch"
proof -
  have "(\<exists>s \<in> set (gvalues (bc_subs b)). gget s ch \<noteq> None) \<longleftrightarrow> (\<exists>key. subscribed b key ch)"
  proof
    assume "\<exists>s \<in> set (gvalues (bc_subs b)). gget s ch \<noteq> None"
    then obtain s key where "gget s ch \<noteq> None" "gget (bc_subs b) key = Some s"
      by (auto simp: gvalues_iff)
    then have "subscribed b key ch" by (simp add: subscribed_def read2_def gread_def)
    then show "\<exists>key. subscribed b key ch" ..
  next
    assume "\<exists>key. subscribed b key ch"
    then obtain key s where "gget (bc_subs b) key = Some s" "gget s ch \<noteq> None"
      by (auto simp: subscribed_def read2_def gread_def split: option.splits)
    then show "\<exists>s \<in> set (gvalues (bc_subs b)). gget s ch \<noteq> None"
      unfolding Bex_def gvalues_iff by blast
  qed
  then show ?thesis
    using publishAll_fold [of "gvalues (bc_subs b)" b ch] by (simp add: publishAll_def)
qed

end
