(* ===== verification/Store_Threads.thy ===== *)
theory Store_Threads
  imports Store_Thread_Log Store_Notify Store_Paging
begin

text \<open>
  The threads of \<open>MemoryStore\<close> (\<open>thread_memory.go\<close>): creating, reading, listing and updating a
  thread, the compare-and-swap append of an event, the readers of the event log and its
  projections, and watching a thread. The invariant \<open>thread_inv\<close> couples the six maps of a
  thread; it is kept by the operations here and by those on turns (\<open>Store_Turns\<close>).
\<close>

section \<open>Operations\<close>

definition set_thread_ids :: "string \<Rightarrow> AssistantThreadEvent list \<Rightarrow> AssistantThreadEvent list" where
  "set_thread_ids threadID events = map (\<lambda>event. event\<lparr>tev_ThreadID := threadID\<rparr>) events"

definition CreateAssistantThread ::
  "time \<Rightarrow> Scope \<Rightarrow> AssistantThread \<Rightarrow> AssistantThreadEvent list \<Rightarrow> AssistantThread op" where
  [op_defs]: "CreateAssistantThread now scope thread events st =
     (case Scope_validate scope of Some e \<Rightarrow> (Err e, st) | None \<Rightarrow>
      case prepareAssistantThread now thread of Inl e \<Rightarrow> (Err e, st) | Inr prepared \<Rightarrow>
      let st = st\<lparr>assistantThreads := ensure scope (assistantThreads st)\<rparr>
      in (case read2 (assistantThreads st) scope (thread_ID prepared) of
            Some existing \<Rightarrow>
              if thread_ActorID existing \<noteq> thread_ActorID prepared
              then (Err ErrAssistantThreadConflict, st) else (Ok existing, st)
          | None \<Rightarrow>
            (case prepareAssistantThreadEvents now (set_thread_ids (thread_ID prepared) events) of
              Inl e \<Rightarrow> (Err e, st)
            | Inr preparedEvents \<Rightarrow>
              let preparedEvents = number_events 0 preparedEvents;
                  st = st\<lparr>assistantThreads := put2 scope (thread_ID prepared) prepared (assistantThreads st)\<rparr>;
                  st = st\<lparr>threadEvents := put2 scope (thread_ID prepared) preparedEvents (threadEvents st)\<rparr>;
                  st = appendAssistantThreadTurnEventsLocked scope (thread_ID prepared) preparedEvents st
              in (Ok prepared, st))))"

definition GetAssistantThread :: "Scope \<Rightarrow> string \<Rightarrow> MemoryStore \<Rightarrow> AssistantThread sres" where
  "GetAssistantThread scope threadID st =
     (case Scope_validate scope of Some e \<Rightarrow> Err e | None \<Rightarrow>
      (case read2 (assistantThreads st) scope (TrimSpace threadID) of
         None \<Rightarrow> Err ErrAssistantThreadNotFound | Some thread \<Rightarrow> Ok thread))"

definition LatestAssistantThreadEventSequence :: "Scope \<Rightarrow> string \<Rightarrow> MemoryStore \<Rightarrow> int64 sres" where
  "LatestAssistantThreadEventSequence scope threadID st =
     (case Scope_validate scope of Some e \<Rightarrow> Err e | None \<Rightarrow>
      let threadID = TrimSpace threadID
      in if read2 (assistantThreads st) scope threadID = None then Err ErrAssistantThreadNotFound
         else Ok (latestAssistantThreadEventSequence (slice2 (threadEvents st) scope threadID)))"

text \<open>
  The listing is sorted by update time and then ID, latest first; the IDs of a scope differ, so
  the order of \<open>sort.Slice\<close> is the reverse of the sorted keys.
\<close>

definition sortedThreads :: "string \<Rightarrow> bool \<Rightarrow> (string, AssistantThread) gomap \<Rightarrow> AssistantThread list" where
  "sortedThreads actorID includeArchived threads = rev (sort_key thread_key
     (filter (\<lambda>thread. thread_ActorID thread = TrimSpace actorID
         \<and> (includeArchived \<or> thread_Status thread \<noteq> AssistantThreadStatusArchived))
       (gvalues threads)))"

definition ListAssistantThreads :: "cursor_codec \<Rightarrow> Scope \<Rightarrow> string \<Rightarrow> bool \<Rightarrow> int \<Rightarrow> string
    \<Rightarrow> MemoryStore \<Rightarrow> AssistantThreadPage sres" where
  "ListAssistantThreads codec scope actorID includeArchived limit cursor st =
     (case Scope_validate scope of Some e \<Rightarrow> Err e | None \<Rightarrow>
      let limit = normalizeLimit limit
      in (case decodeThreadCursor codec cursor of
          Inl e \<Rightarrow> Err e
        | Inr (cursorTime, cursorID) \<Rightarrow>
            let items = sortedThreads actorID includeArchived (gread (assistantThreads st) scope);
                after = (if time_IsZero cursorTime then None
                  else Some (\<lambda>t. thread_key t < PageKey cursorTime cursorID))
            in (case page_window after limit items of
                (page, None) \<Rightarrow> Ok \<lparr>tpage_Items = page, tpage_NextCursor = []\<rparr>
              | (page, Some last_item) \<Rightarrow> Ok \<lparr>tpage_Items = page,
                  tpage_NextCursor =
                    encodeThreadCursor codec (thread_UpdatedAt last_item) (thread_ID last_item)\<rparr>)))"

definition UpdateAssistantThread :: "time \<Rightarrow> Scope \<Rightarrow> AssistantThread \<Rightarrow> AssistantThread op" where
  [op_defs]: "UpdateAssistantThread now scope thread st =
     (case Scope_validate scope of Some e \<Rightarrow> (Err e, st) | None \<Rightarrow>
      case prepareAssistantThread now thread of Inl e \<Rightarrow> (Err e, st) | Inr prepared \<Rightarrow>
      (case read2 (assistantThreads st) scope (thread_ID prepared) of
         None \<Rightarrow> (Err ErrAssistantThreadNotFound, st)
       | Some existing \<Rightarrow>
           if thread_ActorID existing \<noteq> thread_ActorID prepared
           then (Err ErrAssistantThreadConflict, st)
           else let prepared = prepared\<lparr>thread_CreatedAt := thread_CreatedAt existing\<rparr>
                in (Ok prepared, st\<lparr>assistantThreads :=
                      put2 scope (thread_ID prepared) prepared (assistantThreads st)\<rparr>)))"

text \<open>
  \<open>title_payload\<close> is the JSON document \<open>{"thread": {"id": ..., "title": ...}}\<close> that
  \<open>encoding/json\<close> makes for an event without a payload of its own. The assignment to
  \<open>s.threadEvents[scope][threadID]\<close> is not guarded; so are the ones of the next two operations.
\<close>

definition SetAssistantThreadTitleIfEmpty :: "(string \<Rightarrow> string \<Rightarrow> string) \<Rightarrow> time \<Rightarrow> Scope \<Rightarrow> string
    \<Rightarrow> string \<Rightarrow> string \<Rightarrow> AssistantThreadEvent \<Rightarrow> (AssistantThread \<times> bool) op" where
  [op_defs]: "SetAssistantThreadTitleIfEmpty title_payload now scope threadID actorID title event st =
     (case Scope_validate scope of Some e \<Rightarrow> (Err e, st) | None \<Rightarrow>
      let threadID = TrimSpace threadID; actorID = TrimSpace actorID; title = TrimSpace title
      in if threadID = [] \<or> actorID = []
         then (Err (ErrInvalid ''assistant thread id and actor are required''), st)
         else if title = [] then (Err (ErrInvalid ''assistant thread title is required''), st)
         else (case prepareAssistantThreadEvent now (event\<lparr>tev_ThreadID := threadID\<rparr>) of
           Inl e \<Rightarrow> (Err e, st)
         | Inr preparedEvent \<Rightarrow>
           (case read2 (assistantThreads st) scope threadID of
             None \<Rightarrow> (Err ErrAssistantThreadNotFound, st)
           | Some thread \<Rightarrow>
             if thread_ActorID thread \<noteq> actorID then (Err ErrAssistantThreadConflict, st)
             else if thread_Status thread = AssistantThreadStatusArchived \<or> \<not> blank (thread_Title thread)
             then (Ok (thread, False), st)
             else let preparedEvent = (if tev_Payload preparedEvent = [] \<or> tev_Payload preparedEvent = ''{}''
                        then preparedEvent\<lparr>tev_Payload := title_payload (thread_ID thread) title\<rparr>
                        else preparedEvent);
                      thread = thread\<lparr>thread_Title := title, thread_UpdatedAt := now\<rparr>;
                      st = st\<lparr>assistantThreads := put2 scope threadID thread (assistantThreads st)\<rparr>;
                      preparedEvent = preparedEvent\<lparr>tev_Sequence := wrap64
                        (latestAssistantThreadEventSequence (slice2 (threadEvents st) scope threadID) + 1)\<rparr>
                  in (case assign2 scope threadID (slice2 (threadEvents st) scope threadID @ [preparedEvent])
                        (threadEvents st) of
                      None \<Rightarrow> (Panic, st)
                    | Some events \<Rightarrow> (Ok (thread, True),
                        appendAssistantThreadTurnEventsLocked scope threadID [preparedEvent]
                          (st\<lparr>threadEvents := events\<rparr>))))))"

definition UpdateAssistantThreadWithEvent :: "time \<Rightarrow> Scope \<Rightarrow> AssistantThread \<Rightarrow> AssistantThreadEvent
    \<Rightarrow> int64 \<Rightarrow> (AssistantThread \<times> AssistantThreadEvent) op" where
  [op_defs]: "UpdateAssistantThreadWithEvent now scope thread event expectedSequence st =
     (case Scope_validate scope of Some e \<Rightarrow> (Err e, st) | None \<Rightarrow>
      case prepareAssistantThread now thread of Inl e \<Rightarrow> (Err e, st) | Inr prepared \<Rightarrow>
      case prepareAssistantThreadEvent now (event\<lparr>tev_ThreadID := thread_ID prepared\<rparr>) of
        Inl e \<Rightarrow> (Err e, st) | Inr preparedEvent \<Rightarrow>
      (case read2 (assistantThreads st) scope (thread_ID prepared) of
         None \<Rightarrow> (Err ErrAssistantThreadNotFound, st)
       | Some existing \<Rightarrow>
           if thread_ActorID existing \<noteq> thread_ActorID prepared
           then (Err ErrAssistantThreadConflict, st)
           else let events = slice2 (threadEvents st) scope (thread_ID prepared);
                    currentSequence = latestAssistantThreadEventSequence events
           in if currentSequence \<noteq> expectedSequence then (Err ErrAssistantThreadEventConflict, st)
              else let prepared = prepared\<lparr>thread_CreatedAt := thread_CreatedAt existing\<rparr>;
                       st = st\<lparr>assistantThreads := put2 scope (thread_ID prepared) prepared (assistantThreads st)\<rparr>;
                       preparedEvent = preparedEvent\<lparr>tev_Sequence := wrap64 (currentSequence + 1)\<rparr>
                   in (case assign2 scope (thread_ID prepared) (events @ [preparedEvent]) (threadEvents st) of
                       None \<Rightarrow> (Panic, st)
                     | Some all \<Rightarrow> (Ok (prepared, preparedEvent),
                         appendAssistantThreadTurnEventsLocked scope (thread_ID prepared) [preparedEvent]
                           (st\<lparr>threadEvents := all\<rparr>)))))"

text \<open>The deferred \<open>publish\<close> runs when the append has succeeded.\<close>

definition AppendAssistantThreadEvent ::
  "time \<Rightarrow> Scope \<Rightarrow> AssistantThreadEvent \<Rightarrow> int64 \<Rightarrow> AssistantThreadEvent op" where
  [op_defs]: "AppendAssistantThreadEvent now scope event expectedSequence st =
     (case Scope_validate scope of Some e \<Rightarrow> (Err e, st) | None \<Rightarrow>
      case prepareAssistantThreadEvent now event of Inl e \<Rightarrow> (Err e, st) | Inr prepared \<Rightarrow>
      if read2 (assistantThreads st) scope (tev_ThreadID prepared) = None
      then (Err ErrAssistantThreadNotFound, st)
      else let events = slice2 (threadEvents st) scope (tev_ThreadID prepared);
               currentSequence = latestAssistantThreadEventSequence events
      in if currentSequence \<noteq> expectedSequence then (Err ErrAssistantThreadEventConflict, st)
         else let prepared = prepared\<lparr>tev_Sequence := wrap64 (currentSequence + 1)\<rparr>
              in (case assign2 scope (tev_ThreadID prepared) (events @ [prepared]) (threadEvents st) of
                  None \<Rightarrow> (Panic, st)
                | Some all \<Rightarrow>
                    let st = appendAssistantThreadTurnEventsLocked scope (tev_ThreadID prepared) [prepared]
                          (st\<lparr>threadEvents := all\<rparr>)
                    in (Ok prepared, st\<lparr>threadEventSignals :=
                          publish (threadEventKey scope (tev_ThreadID prepared)) (threadEventSignals st)\<rparr>)))"

definition WatchAssistantThreadEvents :: "Scope \<Rightarrow> string \<Rightarrow> nat op" where
  [op_defs]: "WatchAssistantThreadEvents scope threadID st =
     (case Scope_validate scope of Some e \<Rightarrow> (Err e, st) | None \<Rightarrow>
      if blank threadID then (Err (ErrInvalid ''assistant thread id is required''), st)
      else (case subscribe (threadEventKey scope threadID) (threadEventSignals st) of
          (ch, b) \<Rightarrow> (Ok ch, st\<lparr>threadEventSignals := b\<rparr>)))"

section \<open>Readers\<close>

definition ListAssistantThreadEvents ::
  "Scope \<Rightarrow> string \<Rightarrow> int64 \<Rightarrow> int \<Rightarrow> MemoryStore \<Rightarrow> AssistantThreadEvent list sres" where
  "ListAssistantThreadEvents scope threadID afterSequence limit st =
     (case Scope_validate scope of Some e \<Rightarrow> Err e | None \<Rightarrow>
      let limit = normalizeLimit limit
      in if read2 (assistantThreads st) scope (TrimSpace threadID) = None then Err ErrAssistantThreadNotFound
         else Ok (log_page_after tev_Sequence (slice2 (threadEvents st) scope (TrimSpace threadID))
                afterSequence limit))"

definition ListAssistantThreadEventsBefore ::
  "Scope \<Rightarrow> string \<Rightarrow> int64 \<Rightarrow> int \<Rightarrow> MemoryStore \<Rightarrow> AssistantThreadEvent list sres" where
  "ListAssistantThreadEventsBefore scope threadID beforeSequence limit st =
     (case Scope_validate scope of Some e \<Rightarrow> Err e | None \<Rightarrow>
      let limit = normalizeLimit limit; threadID = TrimSpace threadID
      in if read2 (assistantThreads st) scope threadID = None then Err ErrAssistantThreadNotFound
         else Ok (log_page_before tev_Sequence (slice2 (threadEvents st) scope threadID)
                beforeSequence limit))"

definition ListAssistantThreadTurnEventsBefore ::
  "Scope \<Rightarrow> string \<Rightarrow> int64 \<Rightarrow> int \<Rightarrow> MemoryStore \<Rightarrow> AssistantThreadEvent list sres" where
  "ListAssistantThreadTurnEventsBefore scope threadID beforeSequence limit st =
     (case Scope_validate scope of Some e \<Rightarrow> Err e | None \<Rightarrow>
      let limit = normalizeLimit limit; threadID = TrimSpace threadID
      in if read2 (assistantThreads st) scope threadID = None then Err ErrAssistantThreadNotFound
         else Ok (log_page_before tev_Sequence (slice2 (threadTurnEvents st) scope threadID)
                beforeSequence limit))"

definition ListAssistantThreadTurnEventsAfter :: "Scope \<Rightarrow> string \<Rightarrow> string \<Rightarrow> string \<Rightarrow> int64 \<Rightarrow> int
    \<Rightarrow> MemoryStore \<Rightarrow> AssistantThreadEvent list sres" where
  "ListAssistantThreadTurnEventsAfter scope threadID turnID eventType afterSequence limit st =
     (case Scope_validate scope of Some e \<Rightarrow> Err e | None \<Rightarrow>
      let threadID = TrimSpace threadID; turnID = TrimSpace turnID; eventType = TrimSpace eventType
      in if turnID = [] \<or> eventType = []
         then Err (ErrInvalid ''assistant turn id and event type are required'')
         else let limit = normalizeLimit limit
         in if read2 (assistantThreads st) scope threadID = None then Err ErrAssistantThreadNotFound
            else Ok (log_page_after tev_Sequence
                   (slice3 (threadTurnEventIndex st) scope threadID (turnID, eventType))
                   afterSequence limit))"

text \<open>The loop that picks events of one type until the page is full.\<close>

fun take_of_type :: "string \<Rightarrow> nat \<Rightarrow> AssistantThreadEvent list \<Rightarrow> AssistantThreadEvent list" where
  "take_of_type eventType room [] = []"
| "take_of_type eventType room (e # es) =
     (if room = 0 then []
      else if tev_Type e = eventType then e # take_of_type eventType (room - 1) es
      else take_of_type eventType room es)"

definition ListAssistantThreadTurnEventsByTypeAfter ::
  "Scope \<Rightarrow> string \<Rightarrow> string \<Rightarrow> int64 \<Rightarrow> int \<Rightarrow> MemoryStore \<Rightarrow> AssistantThreadEvent list sres" where
  "ListAssistantThreadTurnEventsByTypeAfter scope threadID eventType afterSequence limit st =
     (case Scope_validate scope of Some e \<Rightarrow> Err e | None \<Rightarrow>
      let threadID = TrimSpace threadID; eventType = TrimSpace eventType
      in if eventType = [] then Err (ErrInvalid ''assistant thread event type is required'')
         else let limit = normalizeLimit limit
         in if read2 (assistantThreads st) scope threadID = None then Err ErrAssistantThreadNotFound
            else let events = slice2 (threadTurnEvents st) scope threadID;
                     start = sort_Search (length events) (\<lambda>index. tev_Sequence (events ! index) > afterSequence)
                 in Ok (take_of_type eventType (nat limit) (drop start events)))"

definition GetAssistantThreadTurnStartSequence ::
  "Scope \<Rightarrow> string \<Rightarrow> string \<Rightarrow> MemoryStore \<Rightarrow> int64 sres" where
  "GetAssistantThreadTurnStartSequence scope threadID turnID st =
     (case Scope_validate scope of Some e \<Rightarrow> Err e | None \<Rightarrow>
      let threadID = TrimSpace threadID; turnID = TrimSpace turnID
      in if read2 (assistantThreads st) scope threadID = None then Err ErrAssistantThreadNotFound
         else (case read3 (threadTurnStarts st) scope threadID turnID of
             None \<Rightarrow> Err ErrAssistantTurnNotFound
           | Some sequence \<Rightarrow> if sequence > 0 then Ok sequence else Err ErrAssistantTurnNotFound))"

text \<open>The fold over the turns of a thread.\<close>

fun fold_activity :: "AssistantThreadActivity \<Rightarrow> AssistantTurn list \<Rightarrow> AssistantThreadActivity" where
  "fold_activity activity [] = activity"
| "fold_activity activity (turn # turns) =
     (let activity = activity\<lparr>TurnCount := TurnCount activity + 1\<rparr>
      in fold_activity (if turn_UpdatedAt turn > LastActivityAt activity
           then activity\<lparr>LastActivityAt := turn_UpdatedAt turn\<rparr> else activity) turns)"

definition AssistantThreadActivity_of ::
  "Scope \<Rightarrow> string \<Rightarrow> MemoryStore \<Rightarrow> AssistantThreadActivity sres" where
  "AssistantThreadActivity_of scope threadID st =
     (case Scope_validate scope of Some e \<Rightarrow> Err e | None \<Rightarrow>
      let threadID = TrimSpace threadID
      in (case read2 (assistantThreads st) scope threadID of
            None \<Rightarrow> Err ErrAssistantThreadNotFound
          | Some thread \<Rightarrow> Ok (fold_activity
                \<lparr>TurnCount = 0, LastActivityAt = thread_UpdatedAt thread\<rparr>
                (gvalues (slice2 (assistantTurns st) scope threadID)))))"

section \<open>The invariant of a thread\<close>

definition turns_ok :: "AssistantThread \<Rightarrow> (string \<Rightarrow> AssistantTurn option) \<Rightarrow> bool" where
  "turns_ok t turns \<longleftrightarrow>
     (\<forall>u a. turns u = Some a \<longrightarrow> turn_ID a = u \<and> u \<noteq> [] \<and> turn_ThreadID a = thread_ID t
        \<and> turn_ActorID a = thread_ActorID t \<and> turn_ClientUserMessageID a \<noteq> []
        \<and> assistantTurnStatusValid (turn_Status a))
     \<and> (\<forall>u v a b. u \<noteq> v \<longrightarrow> turns u = Some a \<longrightarrow> turns v = Some b \<longrightarrow>
        turn_ClientUserMessageID a \<noteq> turn_ClientUserMessageID b)"

definition thread_wf :: "string \<Rightarrow> AssistantThread \<Rightarrow> bool" where
  "thread_wf tid t \<longleftrightarrow> thread_ID t = tid \<and> tid \<noteq> [] \<and> thread_ActorID t \<noteq> []
     \<and> thread_Status t \<in> {AssistantThreadStatusIdle, AssistantThreadStatusActive, AssistantThreadStatusArchived}"

definition log_ok :: "MemoryStore \<Rightarrow> Scope \<Rightarrow> string \<Rightarrow> AssistantThreadEvent list \<Rightarrow> bool" where
  "log_ok st scope tid log \<longleftrightarrow> numbered log \<and> (\<forall>e \<in> set log. tev_ThreadID e = tid)
     \<and> projections_ok st scope tid log"

definition thread_ok :: "MemoryStore \<Rightarrow> Scope \<Rightarrow> string \<Rightarrow> bool" where
  "thread_ok st scope tid \<longleftrightarrow>
     (case read2 (assistantThreads st) scope tid of
        None \<Rightarrow> read2 (threadEvents st) scope tid = None \<and> projections_ok st scope tid []
          \<and> (\<forall>u. read3 (assistantTurns st) scope tid u = None)
      | Some t \<Rightarrow> thread_wf tid t
          \<and> (\<exists>log. read2 (threadEvents st) scope tid = Some log \<and> log_ok st scope tid log)
          \<and> turns_ok t (read3 (assistantTurns st) scope tid))"

definition thread_inv :: "MemoryStore \<Rightarrow> bool" where
  "thread_inv st \<longleftrightarrow> (\<forall>scope tid. thread_ok st scope tid)"

lemma thread_ok_cong:
  assumes "read2 (assistantThreads st') sc t = read2 (assistantThreads st) sc t"
    "read2 (threadEvents st') sc t = read2 (threadEvents st) sc t"
    "\<And>log. projections_ok st' sc t log = projections_ok st sc t log"
    "\<And>u. read3 (assistantTurns st') sc t u = read3 (assistantTurns st) sc t u"
  shows "thread_ok st' sc t = thread_ok st sc t"
proof -
  have "read3 (assistantTurns st') sc t = read3 (assistantTurns st) sc t" using assms(4) by blast
  then show ?thesis using assms by (simp add: thread_ok_def log_ok_def split: option.split)
qed

lemma thread_okD:
  assumes "thread_inv st" "read2 (assistantThreads st) scope tid = Some t"
  shows "thread_wf tid t" "turns_ok t (read3 (assistantTurns st) scope tid)"
    "\<exists>log. read2 (threadEvents st) scope tid = Some log \<and> log_ok st scope tid log"
proof -
  have "thread_ok st scope tid" using assms(1) by (simp add: thread_inv_def)
  with assms(2) show "thread_wf tid t" "turns_ok t (read3 (assistantTurns st) scope tid)"
    "\<exists>log. read2 (threadEvents st) scope tid = Some log \<and> log_ok st scope tid log"
    by (simp_all add: thread_ok_def)
qed

text \<open>The log of a thread, whether the thread exists or not.\<close>

lemma thread_log_ok:
  assumes "thread_inv st"
  shows "log_ok st scope tid (slice2 (threadEvents st) scope tid)"
proof -
  have "thread_ok st scope tid" using assms by (simp add: thread_inv_def)
  then show ?thesis
    by (auto simp: thread_ok_def slice2_def log_ok_def numbered_def split: option.splits)
qed

lemma thread_no_turns:
  assumes "thread_inv st" "read2 (assistantThreads st) scope tid = None"
  shows "read3 (assistantTurns st) scope tid u = None"
proof -
  have "thread_ok st scope tid" using assms(1) by (simp add: thread_inv_def)
  with assms(2) show ?thesis by (simp add: thread_ok_def)
qed

lemma thread_events_present:
  assumes "thread_inv st" "read2 (assistantThreads st) scope tid = Some t"
  shows "assign2 scope tid v (threadEvents st) = Some (put2 scope tid v (threadEvents st))"
  using thread_okD(3) [OF assms] by (auto intro: assign2_present)

text \<open>
  Every write to a thread has this form: the thread, its log and its turns are stored, events
  are appended to the log, and the projections follow.
\<close>

lemma thread_commit:
  assumes inv: "thread_inv st"
    and T: "\<And>sc t. read2 (assistantThreads st1) sc t
      = (if sc = scope \<and> t = tid then Some th else read2 (assistantThreads st) sc t)"
    and E: "\<And>sc t. read2 (threadEvents st1) sc t
      = (if sc = scope \<and> t = tid then Some (slice2 (threadEvents st) scope tid @ es)
         else read2 (threadEvents st) sc t)"
    and U: "\<And>sc t u. sc \<noteq> scope \<or> t \<noteq> tid \<Longrightarrow>
      read3 (assistantTurns st1) sc t u = read3 (assistantTurns st) sc t u"
    and P: "threadTurnEvents st1 = threadTurnEvents st" "threadTurnEventIndex st1 = threadTurnEventIndex st"
      "threadTurnStarts st1 = threadTurnStarts st"
    and wf: "thread_wf tid th" and turns: "turns_ok th (read3 (assistantTurns st1) scope tid)"
    and num: "numbered (slice2 (threadEvents st) scope tid @ es)"
    and own: "\<forall>e \<in> set es. tev_ThreadID e = tid"
  shows "thread_inv (appendAssistantThreadTurnEventsLocked scope tid es st1)"
  unfolding thread_inv_def
proof (intro allI)
  fix sc t
  let ?st = "appendAssistantThreadTurnEventsLocked scope tid es st1"
  obtain a b c where F: "?st = st1\<lparr>threadTurnEvents := a, threadTurnEventIndex := b, threadTurnStarts := c\<rparr>"
    using append_turn_events_frame by blast
  then have same: "assistantThreads ?st = assistantThreads st1" "threadEvents ?st = threadEvents st1"
    "assistantTurns ?st = assistantTurns st1" by simp_all
  note proj = projections_ok_cong [of st1 st, OF P]
  note old = thread_log_ok [OF inv, of scope tid, unfolded log_ok_def]
  show "thread_ok ?st sc t"
  proof (cases "sc = scope \<and> t = tid")
    case True
    have "projections_ok ?st scope tid (slice2 (threadEvents st) scope tid @ es)"
      using old by (intro append_turn_events_projections) (simp add: proj)
    with True old wf turns num own show ?thesis
      by (auto simp: thread_ok_def log_ok_def same T E)
  next
    case False
    then have "thread_ok ?st sc t = thread_ok st sc t"
      using append_turn_events_other [of sc scope t tid es st1]
      by (intro thread_ok_cong) (auto simp: same T E U proj)
    with inv show ?thesis by (simp add: thread_inv_def)
  qed
qed

lemma thread_inv_cong:
  assumes "thread_inv st"
    "assistantThreads st' = assistantThreads st" "threadEvents st' = threadEvents st"
    "threadTurnEvents st' = threadTurnEvents st" "threadTurnEventIndex st' = threadTurnEventIndex st"
    "threadTurnStarts st' = threadTurnStarts st" "assistantTurns st' = assistantTurns st"
  shows "thread_inv st'"
  using assms thread_ok_cong [of st' _ _ st] projections_ok_cong [of st' st]
  by (simp add: thread_inv_def)

lemma thread_inv_ensure:
  "thread_inv st \<Longrightarrow> thread_inv (st\<lparr>assistantThreads := ensure scope (assistantThreads st)\<rparr>)"
  using thread_ok_cong [of "st\<lparr>assistantThreads := ensure scope (assistantThreads st)\<rparr>" _ _ st]
  by (simp add: thread_inv_def read2_ensure projections_ok_def)

text \<open>The fields an operation on threads or turns may change.\<close>

definition thread_fields :: "MemoryStore \<Rightarrow> MemoryStore \<Rightarrow> bool" where
  "thread_fields st st' \<longleftrightarrow> st' = st\<lparr>threadEventSignals := threadEventSignals st',
     assistantThreads := assistantThreads st', assistantTurns := assistantTurns st',
     threadEvents := threadEvents st', threadTurnEvents := threadTurnEvents st',
     threadTurnEventIndex := threadTurnEventIndex st', threadTurnStarts := threadTurnStarts st'\<rparr>"

lemma thread_fields_refl [simp]: "thread_fields st st"
  by (simp add: thread_fields_def)

lemma thread_fields_aux [simp]:
  "thread_fields st (st1\<lparr>threadTurnEvents := a, threadTurnEventIndex := b, threadTurnStarts := c\<rparr>)
   \<longleftrightarrow> thread_fields st st1"
  by (cases st; cases st1) (simp add: thread_fields_def)

lemma thread_fields_signals [simp]:
  "thread_fields st (st1\<lparr>threadEventSignals := b\<rparr>) \<longleftrightarrow> thread_fields st st1"
  by (cases st; cases st1) (simp add: thread_fields_def)

lemma thread_fields_append:
  "thread_fields st st1 \<Longrightarrow> thread_fields st (appendAssistantThreadTurnEventsLocked scope tid es st1)"
proof -
  assume "thread_fields st st1"
  moreover obtain a b c where "appendAssistantThreadTurnEventsLocked scope tid es st1
      = st1\<lparr>threadTurnEvents := a, threadTurnEventIndex := b, threadTurnStarts := c\<rparr>"
    using append_turn_events_frame by blast
  ultimately show ?thesis by simp
qed

section \<open>The operations keep it\<close>

lemma prepareAssistantThread_Inr:
  assumes "prepareAssistantThread now t = Inr p"
  shows "thread_ID p = TrimSpace (thread_ID t)" "thread_ActorID p = TrimSpace (thread_ActorID t)"
    "thread_wf (thread_ID p) p" "thread_Title p = TrimSpace (thread_Title t)"
  using assms
  by (auto simp: prepareAssistantThread_def thread_wf_def Let_def split: if_splits)

lemma prepareAssistantThreadEvent_Inr:
  assumes "prepareAssistantThreadEvent now e = Inr p"
  shows "tev_ThreadID p = TrimSpace (tev_ThreadID e)" "tev_TurnID p = TrimSpace (tev_TurnID e)"
    "tev_ThreadID p \<noteq> []" "tev_Type p \<noteq> []" "json_Valid (tev_Payload p)"
    "tev_Type p = TrimSpace (tev_Type e)"
  using assms by (auto simp: prepareAssistantThreadEvent_def Let_def split: if_splits)

lemma prepareAssistantThreadEvents_own:
  assumes "prepareAssistantThreadEvents now es = Inr ps" "\<forall>e \<in> set es. TrimSpace (tev_ThreadID e) = tid"
  shows "\<forall>p \<in> set ps. tev_ThreadID p = tid" "length ps = length es"
  using assms
  by (induction es arbitrary: ps)
    (auto dest: prepareAssistantThreadEvent_Inr(1) split: sum.splits)

lemma number_events_own:
  "\<forall>p \<in> set es. tev_ThreadID p = tid \<Longrightarrow> \<forall>p \<in> set (number_events base es). tev_ThreadID p = tid"
  by (induction base es rule: number_events.induct) auto

lemma set_thread_ids_own: "TrimSpace tid = tid \<Longrightarrow> \<forall>e \<in> set (set_thread_ids tid es). TrimSpace (tev_ThreadID e) = tid"
  by (auto simp: set_thread_ids_def)

lemma latest_Nil [simp]: "latestAssistantThreadEventSequence [] = 0"
  by (simp add: latestAssistantThreadEventSequence_def)

lemma CreateAssistantThread_inv:
  assumes op: "CreateAssistantThread now scope thread events st = (r, st')" and inv: "thread_inv st"
  shows "thread_inv st' \<and> thread_fields st st' \<and> r \<noteq> Panic"
proof (cases "Scope_validate scope = None \<and> (\<exists>p. prepareAssistantThread now thread = Inr p)")
  case False
  with op have "st' = st" "r \<noteq> Panic"
    by (auto simp: CreateAssistantThread_def split: option.splits sum.splits)
  with inv show ?thesis by simp
next
  case True
  then obtain p where valid: "Scope_validate scope = None" and p: "prepareAssistantThread now thread = Inr p"
    by blast
  let ?tid = "thread_ID p"
  let ?st0 = "st\<lparr>assistantThreads := ensure scope (assistantThreads st)\<rparr>"
  have early: "thread_inv ?st0" "thread_fields st ?st0"
    using inv by (simp_all add: thread_inv_ensure thread_fields_def)
  show ?thesis
  proof (cases "read2 (assistantThreads st) scope ?tid")
    case (Some old)
    with op valid p early show ?thesis
      by (auto simp: CreateAssistantThread_def Let_def read2_ensure split: if_splits)
  next
    case None
    show ?thesis
    proof (cases "prepareAssistantThreadEvents now (set_thread_ids ?tid events)")
      case (Inl e)
      with op valid p None early show ?thesis
        by (auto simp: CreateAssistantThread_def Let_def read2_ensure)
    next
      case (Inr ps)
      let ?es = "number_events 0 ps"
      let ?st1 = "?st0\<lparr>assistantThreads := put2 scope ?tid p (ensure scope (assistantThreads st)),
        threadEvents := put2 scope ?tid ?es (threadEvents st)\<rparr>"
      have st': "r = Ok p" "st' = appendAssistantThreadTurnEventsLocked scope ?tid ?es ?st1"
        using op valid p None Inr by (auto simp: CreateAssistantThread_def Let_def read2_ensure)
      have empty: "slice2 (threadEvents st) scope ?tid = []"
        using inv None by (auto simp: thread_inv_def thread_ok_def slice2_def dest!: spec [of _ scope] spec [of _ ?tid])
      have trimmed: "TrimSpace ?tid = ?tid" using prepareAssistantThread_Inr(1) [OF p] by simp
      have own: "\<forall>e \<in> set ?es. tev_ThreadID e = ?tid"
        using prepareAssistantThreadEvents_own(1) [OF Inr set_thread_ids_own [OF trimmed]]
        by (rule number_events_own)
      have "thread_inv st'"
        unfolding st'(2)
      proof (rule thread_commit [OF inv, where th = p])
        show "numbered (slice2 (threadEvents st) scope ?tid @ ?es)"
          using numbered_append [of "[]" ps] by (simp add: empty numbered_def)
        show "turns_ok p (read3 (assistantTurns ?st1) scope ?tid)"
          using thread_no_turns [OF inv None] by (simp add: turns_ok_def)
      qed (use own empty prepareAssistantThread_Inr(3) [OF p] in \<open>simp_all add: gomap_simps\<close>)
      moreover have "thread_fields st st'"
        unfolding st'(2) by (rule thread_fields_append) (simp add: thread_fields_def)
      ultimately show ?thesis using st'(1) by simp
    qed
  qed
qed

lemma UpdateAssistantThread_inv:
  assumes op: "UpdateAssistantThread now scope thread st = (r, st')" and inv: "thread_inv st"
  shows "thread_inv st' \<and> thread_fields st st' \<and> r \<noteq> Panic"
proof -
  have "thread_inv (st\<lparr>assistantThreads := put2 scope (thread_ID p)
      (p\<lparr>thread_CreatedAt := thread_CreatedAt old\<rparr>) (assistantThreads st)\<rparr>)"
    if p: "prepareAssistantThread now thread = Inr p"
      and old: "read2 (assistantThreads st) scope (thread_ID p) = Some old"
        "thread_ActorID old = thread_ActorID p" for p old
  proof -
    let ?th = "p\<lparr>thread_CreatedAt := thread_CreatedAt old\<rparr>"
    let ?st1 = "st\<lparr>assistantThreads := put2 scope (thread_ID p) ?th (assistantThreads st)\<rparr>"
    note t = thread_okD [OF inv old(1)]
    obtain log where log: "read2 (threadEvents st) scope (thread_ID p) = Some log" using t(3) by blast
    then have slice: "slice2 (threadEvents st) scope (thread_ID p) = log" by (simp add: slice2_def)
    have "thread_inv (appendAssistantThreadTurnEventsLocked scope (thread_ID p) [] ?st1)"
    proof (rule thread_commit [OF inv, where th = ?th])
      show "turns_ok ?th (read3 (assistantTurns ?st1) scope (thread_ID p))"
        using t(1,2) old(2) by (simp add: turns_ok_def thread_wf_def)
      show "thread_wf (thread_ID p) ?th"
        using prepareAssistantThread_Inr(3) [OF p] by (simp add: thread_wf_def)
      show "numbered (slice2 (threadEvents st) scope (thread_ID p) @ [])"
        using thread_log_ok [OF inv] by (simp add: log_ok_def)
    qed (simp_all add: gomap_simps log slice)
    then show ?thesis by simp
  qed
  with op inv show ?thesis
    by (auto simp: UpdateAssistantThread_def Let_def thread_fields_def
        split: option.splits sum.splits if_splits)
qed

text \<open>
  The three operations that add one event to an existing thread share this step: the log grows
  by the event, numbered after the latest one, and the thread record is replaced by \<open>th\<close>.
\<close>

lemma append_one_inv:
  assumes inv: "thread_inv st" and old: "read2 (assistantThreads st) scope tid = Some t"
    and th: "thread_wf tid th" "thread_ActorID th = thread_ActorID t"
    and e: "tev_ThreadID e = tid"
      "tev_Sequence e = wrap64 (latestAssistantThreadEventSequence (slice2 (threadEvents st) scope tid) + 1)"
    and T: "\<And>sc u. read2 T sc u
      = (if sc = scope \<and> u = tid then Some th else read2 (assistantThreads st) sc u)"
  shows "thread_inv (appendAssistantThreadTurnEventsLocked scope tid [e]
    (st\<lparr>assistantThreads := T,
        threadEvents := put2 scope tid (slice2 (threadEvents st) scope tid @ [e]) (threadEvents st)\<rparr>))"
proof (rule thread_commit [OF inv, where th = th])
  let ?log = "slice2 (threadEvents st) scope tid"
  note t = thread_okD [OF inv old]
  have "numbered ?log" using thread_log_ok [OF inv] by (simp add: log_ok_def)
  then have "numbered (?log @ number_events (latestAssistantThreadEventSequence ?log) [e])"
    by (rule numbered_append)
  moreover have "number_events (latestAssistantThreadEventSequence ?log) [e] = [e]"
    using e(2) by simp
  ultimately show "numbered (?log @ [e])" by simp
  show "turns_ok th (read3 (assistantTurns (st\<lparr>assistantThreads := T,
        threadEvents := put2 scope tid (?log @ [e]) (threadEvents st)\<rparr>)) scope tid)"
    using t(1,2) th by (simp add: turns_ok_def thread_wf_def)
qed (use th e T in \<open>simp_all add: gomap_simps\<close>)

lemma SetAssistantThreadTitleIfEmpty_inv:
  assumes op: "SetAssistantThreadTitleIfEmpty tp now scope i actor title event st = (r, st')"
    and inv: "thread_inv st"
  shows "thread_inv st' \<and> thread_fields st st' \<and> r \<noteq> Panic"
proof -
  let ?tid = "TrimSpace i" and ?title = "TrimSpace title"
  let ?log = "slice2 (threadEvents st) scope ?tid"
  have step: "thread_inv (appendAssistantThreadTurnEventsLocked scope ?tid [e]
      (st\<lparr>assistantThreads := put2 scope ?tid (t\<lparr>thread_Title := ?title, thread_UpdatedAt := now\<rparr>) (assistantThreads st),
        threadEvents := put2 scope ?tid (?log @ [e]) (threadEvents st)\<rparr>))"
    if "read2 (assistantThreads st) scope ?tid = Some t" "tev_ThreadID e = ?tid"
      "tev_Sequence e = wrap64 (latestAssistantThreadEventSequence ?log + 1)" for t e
    using that thread_okD(1) [OF inv that(1)]
    by (intro append_one_inv [OF inv that(1)]) (auto simp: thread_wf_def read2_put2)
  have fields: "thread_fields st (appendAssistantThreadTurnEventsLocked scope ?tid [e]
      (st\<lparr>assistantThreads := a, threadEvents := b\<rparr>))" for e a b
    by (rule thread_fields_append) (simp add: thread_fields_def)
  show ?thesis
  proof (cases "prepareAssistantThreadEvent now (event\<lparr>tev_ThreadID := ?tid\<rparr>)")
    case (Inl e)
    with op inv show ?thesis
      by (auto simp: SetAssistantThreadTitleIfEmpty_def Let_def split: option.splits if_splits)
  next
    case (Inr pe)
    then have own: "tev_ThreadID pe = ?tid" using prepareAssistantThreadEvent_Inr(1) by fastforce
    show ?thesis
    proof (cases "read2 (assistantThreads st) scope ?tid")
      case None
      with op inv Inr show ?thesis
        by (auto simp: SetAssistantThreadTitleIfEmpty_def Let_def split: option.splits if_splits)
    next
      case (Some t)
      note present = thread_events_present [OF inv Some]
      show ?thesis
        using op inv Inr Some present own step [OF Some] fields
        by (auto simp: SetAssistantThreadTitleIfEmpty_def Let_def
            simp del: appendAssistantThreadTurnEventsLocked.simps
            split: option.splits if_splits)
    qed
  qed
qed

lemma UpdateAssistantThreadWithEvent_inv:
  assumes op: "UpdateAssistantThreadWithEvent now scope thread event expected st = (r, st')"
    and inv: "thread_inv st"
  shows "thread_inv st' \<and> thread_fields st st' \<and> r \<noteq> Panic"
proof (cases "Scope_validate scope = None \<and> (\<exists>p pe. prepareAssistantThread now thread = Inr p
    \<and> prepareAssistantThreadEvent now (event\<lparr>tev_ThreadID := thread_ID p\<rparr>) = Inr pe)")
  case False
  with op inv show ?thesis
    by (auto simp: UpdateAssistantThreadWithEvent_def split: option.splits sum.splits)
next
  case True
  then obtain p pe where valid: "Scope_validate scope = None"
    and p: "prepareAssistantThread now thread = Inr p"
    and pe: "prepareAssistantThreadEvent now (event\<lparr>tev_ThreadID := thread_ID p\<rparr>) = Inr pe" by blast
  let ?tid = "thread_ID p"
  let ?log = "slice2 (threadEvents st) scope ?tid"
  have own: "tev_ThreadID pe = ?tid"
    using prepareAssistantThreadEvent_Inr(1) [OF pe] prepareAssistantThread_Inr(1) [OF p] by simp
  have fields: "thread_fields st (appendAssistantThreadTurnEventsLocked scope ?tid [e]
      (st\<lparr>assistantThreads := a, threadEvents := b\<rparr>))" for e a b
    by (rule thread_fields_append) (simp add: thread_fields_def)
  show ?thesis
  proof (cases "\<exists>old. read2 (assistantThreads st) scope ?tid = Some old
      \<and> thread_ActorID old = thread_ActorID p \<and> latestAssistantThreadEventSequence ?log = expected")
    case False
    with op inv valid p pe show ?thesis
      by (auto simp: UpdateAssistantThreadWithEvent_def Let_def split: option.splits if_splits)
  next
    case True
    then obtain old where old: "read2 (assistantThreads st) scope ?tid = Some old"
      "thread_ActorID old = thread_ActorID p" "latestAssistantThreadEventSequence ?log = expected" by blast
    let ?th = "p\<lparr>thread_CreatedAt := thread_CreatedAt old\<rparr>"
    let ?e = "pe\<lparr>tev_Sequence := wrap64 (expected + 1)\<rparr>"
    have "thread_inv (appendAssistantThreadTurnEventsLocked scope ?tid [?e]
      (st\<lparr>assistantThreads := put2 scope ?tid ?th (assistantThreads st),
        threadEvents := put2 scope ?tid (?log @ [?e]) (threadEvents st)\<rparr>))"
      using old own prepareAssistantThread_Inr(3) [OF p]
      by (intro append_one_inv [OF inv old(1)]) (auto simp: thread_wf_def read2_put2)
    with op valid p pe old thread_events_present [OF inv old(1)] fields show ?thesis
      by (auto simp: UpdateAssistantThreadWithEvent_def Let_def
          simp del: appendAssistantThreadTurnEventsLocked.simps)
  qed
qed

text \<open>What a successful compare-and-swap append does, and that it fails otherwise.\<close>

lemma AppendAssistantThreadEvent_cases:
  assumes op: "AppendAssistantThreadEvent now scope event expected st = (r, st')" and inv: "thread_inv st"
  obtains (refused) e where "r = Err e" "st' = st"
  | (stored) e t log st1 where "r = Ok e" "Scope_validate scope = None"
      "read2 (assistantThreads st) scope (tev_ThreadID e) = Some t"
      "log = slice2 (threadEvents st) scope (tev_ThreadID e)"
      "latestAssistantThreadEventSequence log = expected"
      "tev_ThreadID e = TrimSpace (tev_ThreadID event)" "tev_Sequence e = wrap64 (expected + 1)"
      "st1 = appendAssistantThreadTurnEventsLocked scope (tev_ThreadID e) [e]
        (st\<lparr>threadEvents := put2 scope (tev_ThreadID e) (log @ [e]) (threadEvents st)\<rparr>)"
      "st' = st1\<lparr>threadEventSignals :=
         publish (threadEventKey scope (tev_ThreadID e)) (threadEventSignals st)\<rparr>"
proof (cases "Scope_validate scope = None \<and> (\<exists>pe. prepareAssistantThreadEvent now event = Inr pe)")
  case False
  with op refused show thesis
    by (auto simp: AppendAssistantThreadEvent_def split: option.splits sum.splits)
next
  case True
  then obtain pe where valid: "Scope_validate scope = None"
    and pe: "prepareAssistantThreadEvent now event = Inr pe" by blast
  let ?tid = "tev_ThreadID pe"
  let ?log = "slice2 (threadEvents st) scope ?tid"
  let ?e = "pe\<lparr>tev_Sequence := wrap64 (expected + 1)\<rparr>"
  show thesis
  proof (cases "\<exists>t. read2 (assistantThreads st) scope ?tid = Some t
      \<and> latestAssistantThreadEventSequence ?log = expected")
    case False
    with op valid pe refused show thesis
      by (auto simp: AppendAssistantThreadEvent_def Let_def split: if_splits)
  next
    case True
    then obtain t where t: "read2 (assistantThreads st) scope ?tid = Some t"
      and latest: "latestAssistantThreadEventSequence ?log = expected" by blast
    let ?st1 = "appendAssistantThreadTurnEventsLocked scope ?tid [?e]
      (st\<lparr>threadEvents := put2 scope ?tid (?log @ [?e]) (threadEvents st)\<rparr>)"
    obtain a b c where "?st1 = st\<lparr>threadEvents := put2 scope ?tid (?log @ [?e]) (threadEvents st),
        threadTurnEvents := a, threadTurnEventIndex := b, threadTurnStarts := c\<rparr>"
      using append_turn_events_frame by blast
    then have "threadEventSignals ?st1 = threadEventSignals st" by simp
    with op valid pe t latest thread_events_present [OF inv t]
    have "r = Ok ?e" "st' = ?st1\<lparr>threadEventSignals :=
        publish (threadEventKey scope ?tid) (threadEventSignals st)\<rparr>"
      by (auto simp: AppendAssistantThreadEvent_def Let_def
          simp del: appendAssistantThreadTurnEventsLocked.simps)
    with stored [of ?e t ?log ?st1] valid t latest prepareAssistantThreadEvent_Inr(1) [OF pe]
    show thesis by simp
  qed
qed

lemma AppendAssistantThreadEvent_inv:
  assumes op: "AppendAssistantThreadEvent now scope event expected st = (r, st')" and inv: "thread_inv st"
  shows "thread_inv st' \<and> thread_fields st st' \<and> r \<noteq> Panic"
  using op inv
proof (cases rule: AppendAssistantThreadEvent_cases)
  case (stored e t log st1)
  have "thread_inv st1"
  proof -
    have "thread_inv (appendAssistantThreadTurnEventsLocked scope (tev_ThreadID e) [e]
      (st\<lparr>assistantThreads := assistantThreads st, threadEvents := put2 scope (tev_ThreadID e)
        (slice2 (threadEvents st) scope (tev_ThreadID e) @ [e]) (threadEvents st)\<rparr>))"
      using stored thread_okD(1) [OF inv stored(3)]
      by (intro append_one_inv [OF inv stored(3)]) auto
    then show ?thesis using stored(4,8) by simp
  qed
  moreover have "thread_fields st st1"
    unfolding stored(8) by (rule thread_fields_append) (simp add: thread_fields_def)
  ultimately show ?thesis
    using stored(1,9) thread_inv_cong [of st1 st'] by simp
qed (use inv in simp_all)

lemma WatchAssistantThreadEvents_inv:
  assumes op: "WatchAssistantThreadEvents scope i st = (r, st')" and inv: "thread_inv st"
  shows "thread_inv st' \<and> thread_fields st st' \<and> r \<noteq> Panic"
  using op inv thread_inv_cong [of st st']
  by (auto simp: WatchAssistantThreadEvents_def thread_fields_def split: option.splits if_splits prod.splits)

section \<open>What the readers return\<close>

text \<open>A thread whose log still fits the sequence numbers.\<close>

definition readable :: "MemoryStore \<Rightarrow> Scope \<Rightarrow> string \<Rightarrow> bool" where
  "readable st scope tid \<longleftrightarrow> thread_inv st \<and> Scope_validate scope = None
     \<and> read2 (assistantThreads st) scope tid \<noteq> None
     \<and> int (length (slice2 (threadEvents st) scope tid)) \<le> max_int64"

lemma readable_log:
  assumes "readable st scope tid"
  shows "contiguous tev_Sequence (slice2 (threadEvents st) scope tid)"
    and "projections_ok st scope tid (slice2 (threadEvents st) scope tid)"
    and "sublog (filter P (slice2 (threadEvents st) scope tid))"
    and "Scope_validate scope = None" "read2 (assistantThreads st) scope tid \<noteq> None"
proof -
  have ok: "log_ok st scope tid (slice2 (threadEvents st) scope tid)"
    using assms by (intro thread_log_ok) (simp add: readable_def)
  then show c: "contiguous tev_Sequence (slice2 (threadEvents st) scope tid)"
    using assms by (intro numbered_contiguous) (simp_all add: log_ok_def readable_def)
  from c show "sublog (filter P (slice2 (threadEvents st) scope tid))" by (rule contiguous_sublog)
  from ok show "projections_ok st scope tid (slice2 (threadEvents st) scope tid)" by (simp add: log_ok_def)
qed (use assms in \<open>simp_all add: readable_def\<close>)

lemma ListAssistantThreadEvents_eq:
  assumes "readable st scope (TrimSpace i)"
  shows "ListAssistantThreadEvents scope i a limit st = Ok (take (nat (normalizeLimit limit))
    (filter (\<lambda>e. a < tev_Sequence e) (slice2 (threadEvents st) scope (TrimSpace i))))"
  using readable_log [OF assms] thread_log.log_page_after_eq [OF readable_log(1) [OF assms]]
  by (simp add: ListAssistantThreadEvents_def Let_def)

lemma ListAssistantThreadTurnEventsAfter_eq:
  assumes "readable st scope (TrimSpace i)" "TrimSpace u \<noteq> []" "TrimSpace ty \<noteq> []"
  shows "ListAssistantThreadTurnEventsAfter scope i u ty a limit st = Ok (take (nat (normalizeLimit limit))
    (filter (\<lambda>e. a < tev_Sequence e) (filter (of_turn (TrimSpace u) (TrimSpace ty))
      (slice2 (threadEvents st) scope (TrimSpace i)))))"
  using assms(2,3) readable_log [OF assms(1)] sublog.log_page_after_eq [OF readable_log(3) [OF assms(1)]]
  by (simp add: ListAssistantThreadTurnEventsAfter_def Let_def projections_ok_def)

lemma take_of_type_take:
  "take_of_type ty room es = take room (filter (\<lambda>e. tev_Type e = ty) es)"
  by (induction ty room es rule: take_of_type.induct) (auto simp: take_Cons')

lemma ListAssistantThreadTurnEventsByTypeAfter_eq:
  assumes "readable st scope (TrimSpace i)" "TrimSpace ty \<noteq> []"
  shows "ListAssistantThreadTurnEventsByTypeAfter scope i ty a limit st =
    Ok (take (nat (normalizeLimit limit)) (filter (\<lambda>e. has_turn e \<and> tev_Type e = TrimSpace ty
      \<and> a < tev_Sequence e) (slice2 (threadEvents st) scope (TrimSpace i))))"
proof -
  let ?log = "slice2 (threadEvents st) scope (TrimSpace i)"
  have turns: "slice2 (threadTurnEvents st) scope (TrimSpace i) = filter has_turn ?log"
    using readable_log(2) [OF assms(1)] by (simp add: projections_ok_def)
  have "filter (\<lambda>e. tev_Type e = TrimSpace ty) (filter (\<lambda>e. a < tev_Sequence e) (filter has_turn ?log))
      = filter (\<lambda>e. has_turn e \<and> tev_Type e = TrimSpace ty \<and> a < tev_Sequence e) ?log"
    by (auto intro: filter_cong)
  then show ?thesis
    using assms(2) readable_log(4,5) [OF assms(1)] sublog.search_after [OF readable_log(3) [OF assms(1), of has_turn], of a]
    by (simp add: ListAssistantThreadTurnEventsByTypeAfter_def Let_def turns take_of_type_take)
qed

lemma GetAssistantThreadTurnStartSequence_eq:
  assumes "readable st scope (TrimSpace i)"
  shows "GetAssistantThreadTurnStartSequence scope i u st =
    (case find (starts_turn (TrimSpace u)) (slice2 (threadEvents st) scope (TrimSpace i)) of
       None \<Rightarrow> Err ErrAssistantTurnNotFound | Some e \<Rightarrow> Ok (tev_Sequence e))"
proof -
  let ?log = "slice2 (threadEvents st) scope (TrimSpace i)"
  have pos: "0 < tev_Sequence e" if "find (starts_turn (TrimSpace u)) ?log = Some e" for e
    using that readable_log(1) [OF assms] by (auto simp: find_Some_iff contiguous_def)
  show ?thesis
    using readable_log [OF assms] pos
    by (auto simp: GetAssistantThreadTurnStartSequence_def Let_def projections_ok_def split: option.split)
qed

text \<open>Following a thread page by page, forwards and backwards.\<close>

definition fetch_thread_events ::
  "Scope \<Rightarrow> string \<Rightarrow> int \<Rightarrow> MemoryStore \<Rightarrow> int64 \<Rightarrow> AssistantThreadEvent list" where
  "fetch_thread_events scope i limit st a =
     (case ListAssistantThreadEvents scope i a limit st of Ok es \<Rightarrow> es | _ \<Rightarrow> [])"

definition fetch_thread_events_before ::
  "Scope \<Rightarrow> string \<Rightarrow> int \<Rightarrow> MemoryStore \<Rightarrow> int64 \<Rightarrow> AssistantThreadEvent list" where
  "fetch_thread_events_before scope i limit st b =
     (case ListAssistantThreadEventsBefore scope i b limit st of Ok es \<Rightarrow> es | _ \<Rightarrow> [])"

lemma follow_thread:
  assumes "readable st scope (TrimSpace i)"
    and "length (slice2 (threadEvents st) scope (TrimSpace i)) < fuel"
  shows "follow fuel (fetch_thread_events scope i limit st) tev_Sequence 0
    = slice2 (threadEvents st) scope (TrimSpace i)"
  using assms normalizeLimit_bounds(1) [of limit]
  by (intro thread_log.follow_all [of _ "nat (normalizeLimit limit)"])
    (auto simp: fetch_thread_events_def ListAssistantThreadEvents_eq readable_log(1))

lemma scroll_back_thread:
  assumes "readable st scope (TrimSpace i)"
    and "length (slice2 (threadEvents st) scope (TrimSpace i)) < fuel"
  shows "scroll_back fuel (fetch_thread_events_before scope i limit st) tev_Sequence 0
    = slice2 (threadEvents st) scope (TrimSpace i)"
  using assms normalizeLimit_bounds(1) [of limit] readable_log [OF assms(1)]
  by (intro thread_log.scroll_back_all [of _ "normalizeLimit limit"])
    (auto simp: fetch_thread_events_before_def ListAssistantThreadEventsBefore_def Let_def)

section \<open>The thread listing\<close>

definition threads_keyed :: "(string, AssistantThread) gomap \<Rightarrow> bool" where
  "threads_keyed ts \<longleftrightarrow> (\<forall>k v. gget ts k = Some v \<longrightarrow> thread_ID v = k)"

lemma thread_inv_keyed: "thread_inv st \<Longrightarrow> threads_keyed (gread (assistantThreads st) scope)"
  using thread_okD(1) by (auto simp: threads_keyed_def thread_wf_def read2_def)

lemma thread_key_inj: "inj_on thread_ID A \<Longrightarrow> inj_on thread_key A"
  by (auto simp: inj_on_def thread_key_def)

lemma sortedThreads_distinct:
  assumes "threads_keyed ts"
  shows "distinct (filter P (gvalues ts))" "inj_on thread_key (set (filter P (gvalues ts)))"
proof -
  have k: "\<And>k v. gget ts k = Some v \<Longrightarrow> thread_ID v = k" using assms by (simp add: threads_keyed_def)
  have "distinct (gvalues ts)" by (rule keyed_values(1) [OF k])
  then show "distinct (filter P (gvalues ts))" by simp
  show "inj_on thread_key (set (filter P (gvalues ts)))"
    by (rule thread_key_inj) (rule inj_on_subset [OF keyed_values(2) [OF k]], auto)
qed

lemma sortedThreads_strict:
  assumes "threads_keyed ts" "i < j" "j < length (sortedThreads actor archived ts)"
  shows "thread_key (sortedThreads actor archived ts ! j) < thread_key (sortedThreads actor archived ts ! i)"
  using assms sortedThreads_distinct [OF assms(1)]
  by (auto simp: sortedThreads_def rev_nth intro!: sort_key_strict)

interpretation threads: pager threads_keyed "sortedThreads actor archived" thread_key
  "\<lambda>k t. thread_key t < k" for actor archived
proof
  fix ts :: "(string, AssistantThread) gomap" and i j :: nat
  assume "threads_keyed ts" "i < j" "j < length (sortedThreads actor archived ts)"
  then show "thread_key (sortedThreads actor archived ts ! j) < thread_key (sortedThreads actor archived ts ! i)"
    by (rule sortedThreads_strict)
next
  fix ts :: "(string, AssistantThread) gomap" and i j :: nat
  assume "threads_keyed ts" "j \<le> i" "i < length (sortedThreads actor archived ts)"
  then show "\<not> thread_key (sortedThreads actor archived ts ! j) < thread_key (sortedThreads actor archived ts ! i)"
    using sortedThreads_strict [of ts j i actor archived] by (cases "j = i") auto
qed

definition thread_page_start :: "cursor_codec \<Rightarrow> page_key option \<Rightarrow> string" where
  "thread_page_start codec cursor = (case cursor of None \<Rightarrow> []
     | Some k \<Rightarrow> encodeThreadCursor codec (key_at k) (key_id k))"

definition fetch_threads :: "cursor_codec \<Rightarrow> Scope \<Rightarrow> string \<Rightarrow> bool \<Rightarrow> int \<Rightarrow> MemoryStore \<Rightarrow> string
    \<Rightarrow> (AssistantThread list \<times> string) sres" where
  "fetch_threads codec scope actor archived limit st cursor =
     (case ListAssistantThreads codec scope actor archived limit cursor st of
        Err e \<Rightarrow> Err e | Panic \<Rightarrow> Panic | Ok page \<Rightarrow> Ok (tpage_Items page, tpage_NextCursor page))"

lemma ListAssistantThreads_fetch:
  assumes "Scope_validate scope = None" "codec_ok codec K" "cursor_in K cursor"
  shows "fetch_threads codec scope actor archived limit st (thread_page_start codec cursor) =
    page_result (thread_page_start codec) thread_key
      (page_fetch (\<lambda>k t. thread_key t < k) (normalizeLimit limit)
        (sortedThreads actor archived (gread (assistantThreads st) scope)) cursor)"
proof -
  have [simp]: "time_IsZero 0" by (simp add: time_IsZero_def)
  from assms show ?thesis
    by (cases cursor) (auto simp: fetch_threads_def ListAssistantThreads_def thread_page_start_def
        page_fetch_def Let_def cursor_in_def cursor_key_def decodeThreadCursor_encode(1) [OF assms(2)]
        page_result_def thread_key_def split: prod.split option.split)
qed

definition threads_pageable :: "cursor_codec \<Rightarrow> (string, AssistantThread) gomap \<Rightarrow> bool" where
  "threads_pageable codec ts \<longleftrightarrow> (\<forall>t \<in> set (gvalues ts). cursor_key (thread_key t))
     \<and> codec_ok codec (thread_key ` set (gvalues ts))"

definition collectThreads :: "nat \<Rightarrow> cursor_codec \<Rightarrow> Scope \<Rightarrow> string \<Rightarrow> bool \<Rightarrow> int \<Rightarrow> MemoryStore
    \<Rightarrow> AssistantThread list sres" where
  "collectThreads fuel codec scope actor archived limit st =
     collect_pages fuel (fetch_threads codec scope actor archived limit st) []"

lemma codec_ok_subset: "codec_ok codec K \<Longrightarrow> L \<subseteq> K \<Longrightarrow> codec_ok codec L"
  by (auto simp: codec_ok_def)

lemma collectThreads_all:
  assumes valid: "Scope_validate scope = None" and inv: "thread_inv st"
    and ok: "threads_pageable codec (gread (assistantThreads st) scope)"
    and fuel: "length (sortedThreads actor archived (gread (assistantThreads st) scope)) < fuel"
  shows "collectThreads fuel codec scope actor archived limit st
    = Ok (sortedThreads actor archived (gread (assistantThreads st) scope))"
proof -
  let ?ts = "gread (assistantThreads st) scope"
  let ?L = "sortedThreads actor archived ?ts"
  have sub: "set ?L \<subseteq> set (gvalues ?ts)" by (auto simp: sortedThreads_def)
  have codec: "codec_ok codec (thread_key ` set ?L)"
    using ok sub by (auto simp: threads_pageable_def intro: codec_ok_subset)
  have "collect_pages fuel (fetch_threads codec scope actor archived limit st)
      (thread_page_start codec None) = Ok ?L"
  proof (rule threads.collect_all [OF thread_inv_keyed [OF inv] normalizeLimit_bounds(1) fuel])
    show "\<forall>k \<in> thread_key ` set ?L. cursor_key k \<and> thread_page_start codec (Some k) \<noteq> []"
      using ok sub decodeThreadCursor_encode(2) [OF codec]
      by (auto simp: threads_pageable_def thread_page_start_def cursor_key_def)
  qed (rule ListAssistantThreads_fetch [OF valid codec])
  then show ?thesis by (simp add: collectThreads_def thread_page_start_def)
qed

section \<open>Activity\<close>

lemma fold_activity_eq:
  "fold_activity a turns = \<lparr>TurnCount = TurnCount a + int (length turns),
     LastActivityAt = fold (\<lambda>t m. max m (turn_UpdatedAt t)) turns (LastActivityAt a)\<rparr>"
  by (induction a turns rule: fold_activity.induct) (auto simp: Let_def max_def)

lemma fold_max_bounds:
  "m \<le> fold (\<lambda>t m. max m (f t)) ts (m :: int)"
  "t \<in> set ts \<Longrightarrow> f t \<le> fold (\<lambda>t m. max m (f t)) ts m"
  "fold (\<lambda>t m. max m (f t)) ts m \<in> insert m (f ` set ts)"
proof (induction ts arbitrary: m)
  case (Cons x xs)
  { case 1 show ?case using Cons(1) [of "max m (f x)"] by simp }
  { case 2 then show ?case using Cons(1) [of "max m (f x)"] Cons(2) [of "max m (f x)"] by auto }
  { case 3 show ?case using Cons(3) [of "max m (f x)"] by (auto simp: max_def split: if_splits) }
qed simp_all

end
