(* ===== verification/Store_Turns.thy ===== *)
theory Store_Turns
  imports Store_Threads
begin

text \<open>
  The turns of \<open>MemoryStore\<close> (\<open>thread_memory.go\<close>). Shown: every operation keeps the thread
  invariant, no operation panics on a state that satisfies it, what a successful creation and a
  successful save do, and how a creation depends on the iteration order of the turn map.
\<close>

section \<open>Operations\<close>

text \<open>The zero value that reading an absent thread gives.\<close>

definition zero_thread :: AssistantThread where
  "zero_thread = \<lparr>thread_ID = [], thread_Title = [], thread_Status = AssistantThreadStatusUnknown [],
     thread_ActorID = [], thread_ReasoningEffortByModel = [], thread_CreatedAt = 0, thread_UpdatedAt = 0\<rparr>"

text \<open>
  The loop over the turns of the thread returns at the first turn with the client message ID, or
  at the first one that is not terminal, whichever the iteration meets first.
\<close>

fun scan_turns :: "string \<Rightarrow> AssistantTurn list \<Rightarrow> (store_err + AssistantTurn) option" where
  "scan_turns clientUserMessageID [] = None"
| "scan_turns clientUserMessageID (existing # rest) =
     (if turn_ClientUserMessageID existing = clientUserMessageID then Some (Inr existing)
      else if \<not> assistantTurnStatusTerminal (turn_Status existing) then Some (Inl ErrAssistantTurnConflict)
      else scan_turns clientUserMessageID rest)"

definition set_turn_ids :: "AssistantTurn \<Rightarrow> AssistantThreadEvent list \<Rightarrow> AssistantThreadEvent list" where
  "set_turn_ids turn events = map (\<lambda>event. event\<lparr>tev_ThreadID := turn_ThreadID turn,
     tev_TurnID := turn_ID turn\<rparr>) events"

text \<open>
  The first sequence numbers the code gives to the events are replaced before they are stored,
  so only the second numbering is written here.
\<close>

definition CreateAssistantTurn ::
  "time \<Rightarrow> Scope \<Rightarrow> AssistantTurn \<Rightarrow> AssistantThreadEvent list \<Rightarrow> AssistantTurn op" where
  [op_defs]: "CreateAssistantTurn now scope turn events st =
     (case Scope_validate scope of Some e \<Rightarrow> (Err e, st) | None \<Rightarrow>
      case prepareAssistantTurn now turn of Inl e \<Rightarrow> (Err e, st) | Inr prepared \<Rightarrow>
      case prepareAssistantThreadEvents now (set_turn_ids prepared events) of
        Inl e \<Rightarrow> (Err e, st) | Inr preparedEvents \<Rightarrow>
      let tid = turn_ThreadID prepared
      in (case read2 (assistantThreads st) scope tid of
            None \<Rightarrow> (Err ErrAssistantThreadNotFound, st)
          | Some thread \<Rightarrow>
            if thread_ActorID thread \<noteq> turn_ActorID prepared then (Err ErrAssistantTurnConflict, st)
            else let st = st\<lparr>assistantTurns := ensure scope (assistantTurns st)\<rparr>;
                     st = (if read2 (assistantTurns st) scope tid = None
                       then st\<lparr>assistantTurns := put2 scope tid [] (assistantTurns st)\<rparr> else st)
            in (case scan_turns (turn_ClientUserMessageID prepared)
                  (gvalues (slice2 (assistantTurns st) scope tid)) of
                Some (Inr existing) \<Rightarrow> (Ok existing, st)
              | Some (Inl e) \<Rightarrow> (Err e, st)
              | None \<Rightarrow>
                let st = st\<lparr>assistantTurns := put3 scope tid (turn_ID prepared) prepared (assistantTurns st)\<rparr>;
                    st = st\<lparr>threadEvents := ensure scope (threadEvents st)\<rparr>;
                    baseSequence = latestAssistantThreadEventSequence (slice2 (threadEvents st) scope tid);
                    preparedEvents = number_events baseSequence preparedEvents;
                    st = st\<lparr>threadEvents := put2 scope tid
                      (slice2 (threadEvents st) scope tid @ preparedEvents) (threadEvents st)\<rparr>;
                    st = appendAssistantThreadTurnEventsLocked scope tid preparedEvents st;
                    thread = thread\<lparr>thread_Status := AssistantThreadStatusActive,
                      thread_UpdatedAt := turn_UpdatedAt prepared\<rparr>
                in (Ok prepared, st\<lparr>assistantThreads :=
                      put2 scope (thread_ID thread) thread (assistantThreads st)\<rparr>))))"

definition GetAssistantTurn :: "Scope \<Rightarrow> string \<Rightarrow> string \<Rightarrow> MemoryStore \<Rightarrow> AssistantTurn sres" where
  "GetAssistantTurn scope threadID turnID st =
     (case Scope_validate scope of Some e \<Rightarrow> Err e | None \<Rightarrow>
      (case read3 (assistantTurns st) scope (TrimSpace threadID) (TrimSpace turnID) of
         None \<Rightarrow> Err ErrAssistantTurnNotFound | Some turn \<Rightarrow> Ok turn))"

definition FindAssistantTurnByClientUserMessageID ::
  "Scope \<Rightarrow> string \<Rightarrow> string \<Rightarrow> MemoryStore \<Rightarrow> AssistantTurn sres" where
  "FindAssistantTurnByClientUserMessageID scope threadID clientUserMessageID st =
     (case Scope_validate scope of Some e \<Rightarrow> Err e | None \<Rightarrow>
      (case find (\<lambda>turn. turn_ClientUserMessageID turn = TrimSpace clientUserMessageID)
          (gvalues (slice2 (assistantTurns st) scope (TrimSpace threadID))) of
         None \<Rightarrow> Err ErrAssistantTurnNotFound | Some turn \<Rightarrow> Ok turn))"

definition ActiveAssistantTurn :: "Scope \<Rightarrow> string \<Rightarrow> MemoryStore \<Rightarrow> AssistantTurn sres" where
  "ActiveAssistantTurn scope threadID st =
     (case Scope_validate scope of Some e \<Rightarrow> Err e | None \<Rightarrow>
      (case find (\<lambda>turn. \<not> assistantTurnStatusTerminal (turn_Status turn))
          (gvalues (slice2 (assistantTurns st) scope (TrimSpace threadID))) of
         None \<Rightarrow> Err ErrAssistantTurnNotFound | Some turn \<Rightarrow> Ok turn))"

text \<open>The contract of a turn that a save must not change.\<close>

definition turn_contract_differs :: "AssistantTurn \<Rightarrow> AssistantTurn \<Rightarrow> bool" where
  "turn_contract_differs existing prepared \<longleftrightarrow> turn_ActorID existing \<noteq> turn_ActorID prepared
     \<or> turn_ClientUserMessageID existing \<noteq> turn_ClientUserMessageID prepared
     \<or> turn_Mode existing \<noteq> turn_Mode prepared \<or> turn_ApprovalMode existing \<noteq> turn_ApprovalMode prepared"

text \<open>
  The end both saves share: the thread is read (an absent one is the zero thread), its status
  follows the turn, and it is written back without a nil check.
\<close>

definition project_turn_status ::
  "Scope \<Rightarrow> AssistantTurn \<Rightarrow> MemoryStore \<Rightarrow> (Scope, (string, AssistantThread) gomap) gomap option" where
  "project_turn_status scope prepared st =
     (let thread = (case read2 (assistantThreads st) scope (turn_ThreadID prepared) of
            None \<Rightarrow> zero_thread | Some t \<Rightarrow> t);
          thread = (if assistantTurnStatusTerminal (turn_Status prepared)
            then thread\<lparr>thread_Status := AssistantThreadStatusIdle\<rparr>
            else thread\<lparr>thread_Status := AssistantThreadStatusActive\<rparr>);
          thread = thread\<lparr>thread_UpdatedAt := turn_UpdatedAt prepared\<rparr>
      in assign2 scope (turn_ThreadID prepared) thread (assistantThreads st))"

definition SaveAssistantTurn :: "time \<Rightarrow> Scope \<Rightarrow> AssistantTurn \<Rightarrow> unit op" where
  [op_defs]: "SaveAssistantTurn now scope turn st =
     (case Scope_validate scope of Some e \<Rightarrow> (Err e, st) | None \<Rightarrow>
      case prepareAssistantTurn now turn of Inl e \<Rightarrow> (Err e, st) | Inr prepared \<Rightarrow>
      (case read3 (assistantTurns st) scope (turn_ThreadID prepared) (turn_ID prepared) of
         None \<Rightarrow> (Err ErrAssistantTurnNotFound, st)
       | Some existing \<Rightarrow>
         if turn_contract_differs existing prepared then (Err ErrAssistantTurnConflict, st)
         else let prepared = prepared\<lparr>turn_CreatedAt := turn_CreatedAt existing\<rparr>;
                  st = st\<lparr>assistantTurns := put3 scope (turn_ThreadID prepared) (turn_ID prepared)
                    prepared (assistantTurns st)\<rparr>
              in (case project_turn_status scope prepared st of
                  None \<Rightarrow> (Panic, st)
                | Some threads \<Rightarrow> (Ok (), st\<lparr>assistantThreads := threads\<rparr>))))"

definition SaveAssistantTurnWithEvent ::
  "time \<Rightarrow> Scope \<Rightarrow> AssistantTurn \<Rightarrow> AssistantThreadEvent \<Rightarrow> int64 \<Rightarrow> unit op" where
  [op_defs]: "SaveAssistantTurnWithEvent now scope turn event expectedSequence st =
     (case Scope_validate scope of Some e \<Rightarrow> (Err e, st) | None \<Rightarrow>
      case prepareAssistantTurn now turn of Inl e \<Rightarrow> (Err e, st) | Inr prepared \<Rightarrow>
      case prepareAssistantThreadEvent now (event\<lparr>tev_ThreadID := turn_ThreadID prepared,
          tev_TurnID := turn_ID prepared\<rparr>) of
        Inl e \<Rightarrow> (Err e, st) | Inr preparedEvent \<Rightarrow>
      (case read3 (assistantTurns st) scope (turn_ThreadID prepared) (turn_ID prepared) of
         None \<Rightarrow> (Err ErrAssistantTurnNotFound, st)
       | Some existing \<Rightarrow>
         if turn_contract_differs existing prepared then (Err ErrAssistantTurnConflict, st)
         else let tid = turn_ThreadID prepared;
                  events = slice2 (threadEvents st) scope tid;
                  currentSequence = latestAssistantThreadEventSequence events
         in if currentSequence \<noteq> expectedSequence then (Err ErrAssistantThreadEventConflict, st)
            else let prepared = prepared\<lparr>turn_CreatedAt := turn_CreatedAt existing\<rparr>;
                     st = st\<lparr>assistantTurns := put3 scope tid (turn_ID prepared) prepared (assistantTurns st)\<rparr>;
                     preparedEvent = preparedEvent\<lparr>tev_Sequence := wrap64 (currentSequence + 1)\<rparr>
                 in (case assign2 scope tid (events @ [preparedEvent]) (threadEvents st) of
                     None \<Rightarrow> (Panic, st)
                   | Some all \<Rightarrow>
                     let st = appendAssistantThreadTurnEventsLocked scope tid [preparedEvent]
                           (st\<lparr>threadEvents := all\<rparr>)
                     in (case project_turn_status scope prepared st of
                         None \<Rightarrow> (Panic, st)
                       | Some threads \<Rightarrow> (Ok (), st\<lparr>assistantThreads := threads\<rparr>)))))"

section \<open>Preparing a turn\<close>

lemma prepareAssistantTurn_Inr:
  assumes "prepareAssistantTurn now turn = Inr p"
  shows "turn_ID p = TrimSpace (turn_ID turn)" "turn_ThreadID p = TrimSpace (turn_ThreadID turn)"
    "turn_ActorID p = TrimSpace (turn_ActorID turn)"
    "turn_ClientUserMessageID p = TrimSpace (turn_ClientUserMessageID turn)"
    "turn_ID p \<noteq> []" "turn_ThreadID p \<noteq> []" "turn_ActorID p \<noteq> []" "turn_ClientUserMessageID p \<noteq> []"
    "assistantTurnStatusValid (turn_Status p)" "turn_ApprovalMode p \<in> set approval_modes"
proof -
  have "turn_ID p = TrimSpace (turn_ID turn) \<and> turn_ThreadID p = TrimSpace (turn_ThreadID turn)
    \<and> turn_ActorID p = TrimSpace (turn_ActorID turn)
    \<and> turn_ClientUserMessageID p = TrimSpace (turn_ClientUserMessageID turn)
    \<and> turn_ID p \<noteq> [] \<and> turn_ThreadID p \<noteq> [] \<and> turn_ActorID p \<noteq> [] \<and> turn_ClientUserMessageID p \<noteq> []
    \<and> assistantTurnStatusValid (turn_Status p)
    \<and> NormalizeAssistantApprovalMode (turn_ApprovalMode turn) = Inr (turn_ApprovalMode p)"
    using assms
    by (auto simp: prepareAssistantTurn_def Let_def simp del: assistantTurnStatusValid.simps
        split: if_splits sum.splits)
  moreover have "NormalizeAssistantApprovalMode m = Inr m' \<Longrightarrow> m' \<in> set approval_modes" for m m'
    by (auto simp: NormalizeAssistantApprovalMode_def Let_def approval_modes_def split: if_splits)
  ultimately show "turn_ID p = TrimSpace (turn_ID turn)" "turn_ThreadID p = TrimSpace (turn_ThreadID turn)"
    "turn_ActorID p = TrimSpace (turn_ActorID turn)"
    "turn_ClientUserMessageID p = TrimSpace (turn_ClientUserMessageID turn)"
    "turn_ID p \<noteq> []" "turn_ThreadID p \<noteq> []" "turn_ActorID p \<noteq> []" "turn_ClientUserMessageID p \<noteq> []"
    "assistantTurnStatusValid (turn_Status p)" "turn_ApprovalMode p \<in> set approval_modes"
    by blast+
qed

lemma scan_turns_None:
  "scan_turns c turns = None \<longleftrightarrow> (\<forall>t \<in> set turns. turn_ClientUserMessageID t \<noteq> c
     \<and> assistantTurnStatusTerminal (turn_Status t))"
  by (induction c turns rule: scan_turns.induct) auto

lemma scan_turns_Inr:
  "scan_turns c turns = Some (Inr t) \<Longrightarrow> t \<in> set turns \<and> turn_ClientUserMessageID t = c"
  by (induction c turns rule: scan_turns.induct) (auto split: if_splits)

lemma scan_turns_Inl:
  "scan_turns c turns = Some (Inl e) \<Longrightarrow> e = ErrAssistantTurnConflict
     \<and> (\<exists>t \<in> set turns. \<not> assistantTurnStatusTerminal (turn_Status t))"
  by (induction c turns rule: scan_turns.induct) (auto split: if_splits)

section \<open>The operations keep the thread invariant\<close>

lemma index_turn_event_threads:
  "index_turn_event scope tid e (st\<lparr>assistantThreads := T\<rparr>)
   = (index_turn_event scope tid e st)\<lparr>assistantThreads := T\<rparr>"
  by (simp add: index_turn_event_def Let_def)

lemma append_turn_events_threads:
  "appendAssistantThreadTurnEventsLocked scope tid es (st\<lparr>assistantThreads := T\<rparr>)
   = (appendAssistantThreadTurnEventsLocked scope tid es st)\<lparr>assistantThreads := T\<rparr>"
  by (induction es arbitrary: st) (simp_all add: index_turn_event_threads)

lemma append_turn_events_same [simp]:
  "assistantThreads (appendAssistantThreadTurnEventsLocked scope tid es st) = assistantThreads st"
  "threadEvents (appendAssistantThreadTurnEventsLocked scope tid es st) = threadEvents st"
  "assistantTurns (appendAssistantThreadTurnEventsLocked scope tid es st) = assistantTurns st"
  "threadEventSignals (appendAssistantThreadTurnEventsLocked scope tid es st) = threadEventSignals st"
proof -
  obtain a b c where "appendAssistantThreadTurnEventsLocked scope tid es st
      = st\<lparr>threadTurnEvents := a, threadTurnEventIndex := b, threadTurnStarts := c\<rparr>"
    using append_turn_events_frame by blast
  then show "assistantThreads (appendAssistantThreadTurnEventsLocked scope tid es st) = assistantThreads st"
    "threadEvents (appendAssistantThreadTurnEventsLocked scope tid es st) = threadEvents st"
    "assistantTurns (appendAssistantThreadTurnEventsLocked scope tid es st) = assistantTurns st"
    "threadEventSignals (appendAssistantThreadTurnEventsLocked scope tid es st) = threadEventSignals st"
    by simp_all
qed

text \<open>Storing a turn that belongs to the thread and whose client message ID is its own.\<close>

lemma turns_ok_put:
  assumes ok: "turns_ok t turns" and p: "turn_ThreadID p = thread_ID t" "turn_ActorID p = thread_ActorID t"
      "turn_ID p \<noteq> []" "turn_ClientUserMessageID p \<noteq> []" "assistantTurnStatusValid (turn_Status p)"
    and unique: "\<And>u a. u \<noteq> turn_ID p \<Longrightarrow> turns u = Some a \<Longrightarrow>
      turn_ClientUserMessageID a \<noteq> turn_ClientUserMessageID p"
  shows "turns_ok t (\<lambda>u. if u = turn_ID p then Some p else turns u)"
  using assms unfolding turns_ok_def by (auto split: if_splits) (metis unique)+

lemma turns_ok_thread:
  "turns_ok t turns \<Longrightarrow> thread_ID t' = thread_ID t \<Longrightarrow> thread_ActorID t' = thread_ActorID t \<Longrightarrow> turns_ok t' turns"
  by (simp add: turns_ok_def)

text \<open>A stored turn belongs to a stored thread.\<close>

lemma turn_thread:
  assumes "thread_inv st" "read3 (assistantTurns st) scope tid u = Some a"
  obtains t where "read2 (assistantThreads st) scope tid = Some t"
    "turn_ID a = u" "turn_ThreadID a = tid" "turn_ActorID a = thread_ActorID t"
proof (cases "read2 (assistantThreads st) scope tid")
  case None
  with thread_no_turns [OF assms(1)] assms(2) show thesis by simp
next
  case (Some t)
  with thread_okD(1,2) [OF assms(1) Some] assms(2) that show thesis
    by (auto simp: turns_ok_def thread_wf_def)
qed

text \<open>The state in which the turn maps of a scope and a thread have been made.\<close>

definition with_turn_map :: "Scope \<Rightarrow> string \<Rightarrow> MemoryStore \<Rightarrow> MemoryStore" where
  "with_turn_map scope tid st =
     (let st = st\<lparr>assistantTurns := ensure scope (assistantTurns st)\<rparr>
      in if read2 (assistantTurns st) scope tid = None
         then st\<lparr>assistantTurns := put2 scope tid [] (assistantTurns st)\<rparr> else st)"

lemma with_turn_map_slice: "slice2 (assistantTurns (with_turn_map scope tid st)) sc t = slice2 (assistantTurns st) sc t"
  by (auto simp: with_turn_map_def Let_def gomap_simps slice2_None)

lemma with_turn_map_read3: "read3 (assistantTurns (with_turn_map scope tid st)) sc t u = read3 (assistantTurns st) sc t u"
  by (simp add: read3_def with_turn_map_slice)

lemma with_turn_map_frame: "with_turn_map scope tid st = st\<lparr>assistantTurns := assistantTurns (with_turn_map scope tid st)\<rparr>"
  by (simp add: with_turn_map_def Let_def)

lemma with_turn_map_inv:
  assumes "thread_inv st"
  shows "thread_inv (with_turn_map scope tid st)"
proof -
  obtain m where m: "with_turn_map scope tid st = st\<lparr>assistantTurns := m\<rparr>"
    using with_turn_map_frame by blast
  have "thread_ok (with_turn_map scope tid st) sc t = thread_ok st sc t" for sc t
    using with_turn_map_read3 [of scope tid st, unfolded m]
    by (intro thread_ok_cong) (simp_all add: m projections_ok_def)
  with assms show ?thesis by (simp add: thread_inv_def)
qed

text \<open>What a creation does on every branch.\<close>

lemma CreateAssistantTurn_cases:
  assumes op: "CreateAssistantTurn now scope turn events st = (r, st')" and inv: "thread_inv st"
  obtains (refused) e where "r = Err e" "st' = st"
  | (conflict) t where "r = Err ErrAssistantTurnConflict" "st' = with_turn_map scope (TrimSpace (turn_ThreadID turn)) st"
      "t \<in> set (gvalues (slice2 (assistantTurns st) scope (TrimSpace (turn_ThreadID turn))))"
      "\<not> assistantTurnStatusTerminal (turn_Status t)"
  | (found) t where "r = Ok t" "st' = with_turn_map scope (TrimSpace (turn_ThreadID turn)) st"
      "t \<in> set (gvalues (slice2 (assistantTurns st) scope (TrimSpace (turn_ThreadID turn))))"
      "turn_ClientUserMessageID t = TrimSpace (turn_ClientUserMessageID turn)"
  | (stored) p th es where "r = Ok p" "prepareAssistantTurn now turn = Inr p"
      "prepareAssistantThreadEvents now (set_turn_ids p events) = Inr es"
      "read2 (assistantThreads st) scope (turn_ThreadID p) = Some th"
      "thread_ActorID th = turn_ActorID p"
      "\<forall>t \<in> set (gvalues (slice2 (assistantTurns st) scope (turn_ThreadID p))).
         turn_ClientUserMessageID t \<noteq> turn_ClientUserMessageID p \<and> assistantTurnStatusTerminal (turn_Status t)"
      "st' = appendAssistantThreadTurnEventsLocked scope (turn_ThreadID p)
         (number_events (latestAssistantThreadEventSequence (slice2 (threadEvents st) scope (turn_ThreadID p))) es)
         (st\<lparr>assistantTurns := put3 scope (turn_ThreadID p) (turn_ID p) p
               (assistantTurns (with_turn_map scope (turn_ThreadID p) st)),
             threadEvents := put2 scope (turn_ThreadID p) (slice2 (threadEvents st) scope (turn_ThreadID p)
               @ number_events (latestAssistantThreadEventSequence
                   (slice2 (threadEvents st) scope (turn_ThreadID p))) es) (ensure scope (threadEvents st)),
             assistantThreads := put2 scope (turn_ThreadID p) (th\<lparr>thread_Status := AssistantThreadStatusActive,
               thread_UpdatedAt := turn_UpdatedAt p\<rparr>) (assistantThreads st)\<rparr>)"
proof (cases "Scope_validate scope = None \<and> (\<exists>p es. prepareAssistantTurn now turn = Inr p
    \<and> prepareAssistantThreadEvents now (set_turn_ids p events) = Inr es)")
  case False
  with op refused show thesis
    by (auto simp: CreateAssistantTurn_def split: option.splits sum.splits)
next
  case True
  then obtain p es where valid: "Scope_validate scope = None" and p: "prepareAssistantTurn now turn = Inr p"
    and es: "prepareAssistantThreadEvents now (set_turn_ids p events) = Inr es" by blast
  let ?tid = "turn_ThreadID p"
  let ?turns = "slice2 (assistantTurns st) scope ?tid"
  let ?log = "slice2 (threadEvents st) scope ?tid"
  let ?st0 = "with_turn_map scope ?tid st"
  obtain m where m: "?st0 = st\<lparr>assistantTurns := m\<rparr>" using with_turn_map_frame by blast
  have tid: "?tid = TrimSpace (turn_ThreadID turn)"
    and cid: "turn_ClientUserMessageID p = TrimSpace (turn_ClientUserMessageID turn)"
    using prepareAssistantTurn_Inr [OF p] by simp_all
  show thesis
  proof (cases "\<exists>th. read2 (assistantThreads st) scope ?tid = Some th \<and> thread_ActorID th = turn_ActorID p")
    case False
    with op valid p es refused show thesis
      by (auto simp: CreateAssistantTurn_def Let_def split: option.splits if_splits)
  next
    case True
    then obtain th where th: "read2 (assistantThreads st) scope ?tid = Some th"
      "thread_ActorID th = turn_ActorID p" by blast
    have id: "thread_ID th = ?tid" using thread_okD(1) [OF inv th(1)] by (simp add: thread_wf_def)
    have eq: "(r, st') = (case scan_turns (turn_ClientUserMessageID p) (gvalues ?turns) of
          Some (Inr existing) \<Rightarrow> (Ok existing, ?st0)
        | Some (Inl e) \<Rightarrow> (Err e, ?st0)
        | None \<Rightarrow> (Ok p, (appendAssistantThreadTurnEventsLocked scope ?tid
              (number_events (latestAssistantThreadEventSequence ?log) es)
              (st\<lparr>assistantTurns := put3 scope ?tid (turn_ID p) p (assistantTurns ?st0),
                  threadEvents := put2 scope ?tid (?log @ number_events
                    (latestAssistantThreadEventSequence ?log) es) (ensure scope (threadEvents st))\<rparr>))
              \<lparr>assistantThreads := put2 scope ?tid (th\<lparr>thread_Status := AssistantThreadStatusActive,
                thread_UpdatedAt := turn_UpdatedAt p\<rparr>) (assistantThreads st)\<rparr>))"
      using op valid p es th id
      by (auto simp: CreateAssistantTurn_def Let_def with_turn_map_def gomap_simps slice2_None
          split: option.split sum.split)
    show thesis
    proof (cases "scan_turns (turn_ClientUserMessageID p) (gvalues ?turns)")
      case None
      with eq show thesis
        by (intro stored [OF _ p es th]) (auto simp: scan_turns_None append_turn_events_threads [symmetric])
    next
      case (Some x)
      show thesis
      proof (cases x)
        case (Inl e)
        with Some scan_turns_Inl obtain t where "e = ErrAssistantTurnConflict" "t \<in> set (gvalues ?turns)"
          "\<not> assistantTurnStatusTerminal (turn_Status t)" by blast
        with eq Some Inl show thesis using conflict [of t] by (simp add: tid)
      next
        case (Inr t)
        with Some scan_turns_Inr have "t \<in> set (gvalues ?turns)"
          "turn_ClientUserMessageID t = turn_ClientUserMessageID p" by blast+
        with eq Some Inr show thesis using found [of t] by (simp add: tid cid)
      qed
    qed
  qed
qed

lemma set_turn_ids_own:
  assumes "prepareAssistantTurn now turn = Inr p"
  shows "\<forall>e \<in> set (set_turn_ids p events). TrimSpace (tev_ThreadID e) = turn_ThreadID p"
  using prepareAssistantTurn_Inr(2) [OF assms] by (auto simp: set_turn_ids_def)

lemma CreateAssistantTurn_inv:
  assumes op: "CreateAssistantTurn now scope turn events st = (r, st')" and inv: "thread_inv st"
  shows "thread_inv st' \<and> thread_fields st st' \<and> r \<noteq> Panic"
proof -
  have map_fields: "thread_fields st (with_turn_map scope tid st)" for tid
    by (subst with_turn_map_frame) (simp add: thread_fields_def)
  show ?thesis
    using op inv
  proof (cases rule: CreateAssistantTurn_cases)
    case (stored p th es)
    let ?tid = "turn_ThreadID p"
    let ?log = "slice2 (threadEvents st) scope ?tid"
    let ?es = "number_events (latestAssistantThreadEventSequence ?log) es"
    let ?th = "th\<lparr>thread_Status := AssistantThreadStatusActive, thread_UpdatedAt := turn_UpdatedAt p\<rparr>"
    let ?turns = "put3 scope ?tid (turn_ID p) p (assistantTurns (with_turn_map scope ?tid st))"
    note pp = prepareAssistantTurn_Inr [OF stored(2)]
    note old = thread_okD [OF inv stored(4)]
    have own: "\<forall>e \<in> set ?es. tev_ThreadID e = ?tid"
      by (rule number_events_own) (rule prepareAssistantThreadEvents_own(1)
          [OF stored(3) set_turn_ids_own [OF stored(2)]])
    have unique: "turn_ClientUserMessageID a \<noteq> turn_ClientUserMessageID p"
      if "read3 (assistantTurns st) scope ?tid u = Some a" for u a
    proof -
      have "a \<in> set (gvalues (slice2 (assistantTurns st) scope ?tid))"
        using that by (auto simp: gvalues_iff read3_def)
      with stored(6) show ?thesis by blast
    qed
    have reads: "read3 ?turns scope ?tid = (\<lambda>u. if u = turn_ID p then Some p
        else read3 (assistantTurns st) scope ?tid u)"
      by (auto simp: fun_eq_iff read3_put3 with_turn_map_read3)
    have "turns_ok ?th (\<lambda>u. if u = turn_ID p then Some p else read3 (assistantTurns st) scope ?tid u)"
    proof (rule turns_ok_put)
      show "turns_ok ?th (read3 (assistantTurns st) scope ?tid)"
        by (rule turns_ok_thread [OF old(2)]) simp_all
      show "turn_ThreadID p = thread_ID ?th" "turn_ActorID p = thread_ActorID ?th"
        using old(1) stored(5) by (simp_all add: thread_wf_def)
    qed (use pp unique in auto)
    then have turns: "turns_ok ?th (read3 ?turns scope ?tid)" by (simp only: reads)
    have "thread_inv st'"
      unfolding stored(7)
    proof (rule thread_commit [OF inv, where th = ?th])
      show "numbered (?log @ ?es)"
        using thread_log_ok [OF inv] by (intro numbered_append) (simp add: log_ok_def)
      show "thread_wf ?tid ?th" using old(1) by (simp add: thread_wf_def)
    qed (use own turns in \<open>auto simp: gomap_simps with_turn_map_read3\<close>)
    moreover have "thread_fields st st'"
      unfolding stored(7) by (rule thread_fields_append) (simp add: thread_fields_def)
    ultimately show ?thesis using stored(1) by simp
  qed (use inv with_turn_map_inv map_fields in auto)
qed

text \<open>
  The state both saves reach: the turn is replaced, events may be appended, the thread follows.
\<close>

lemma project_turn_status_Some:
  assumes "read2 (assistantThreads st1) scope (turn_ThreadID p) = Some t"
  shows "project_turn_status scope p st1 = Some (put2 scope (turn_ThreadID p)
    (t\<lparr>thread_Status := if assistantTurnStatusTerminal (turn_Status p) then AssistantThreadStatusIdle
         else AssistantThreadStatusActive, thread_UpdatedAt := turn_UpdatedAt p\<rparr>) (assistantThreads st1))"
  using assms assign2_present [OF assms]
  by (simp add: project_turn_status_def Let_def)

lemma save_turn_commit:
  assumes inv: "thread_inv st" and p: "prepareAssistantTurn now turn = Inr p0"
    and existing: "read3 (assistantTurns st) scope (turn_ThreadID p0) (turn_ID p0) = Some old"
    and same: "\<not> turn_contract_differs old p0"
    and t: "read2 (assistantThreads st) scope (turn_ThreadID p0) = Some t"
    and p_def: "p = p0\<lparr>turn_CreatedAt := turn_CreatedAt old\<rparr>"
    and th_def: "th = t\<lparr>thread_Status := if assistantTurnStatusTerminal (turn_Status p)
      then AssistantThreadStatusIdle else AssistantThreadStatusActive, thread_UpdatedAt := turn_UpdatedAt p\<rparr>"
    and E: "\<And>sc u. read2 E sc u = (if sc = scope \<and> u = turn_ThreadID p0
      then Some (slice2 (threadEvents st) scope (turn_ThreadID p0) @ es) else read2 (threadEvents st) sc u)"
    and num: "numbered (slice2 (threadEvents st) scope (turn_ThreadID p0) @ es)"
    and own: "\<forall>e \<in> set es. tev_ThreadID e = turn_ThreadID p0"
  shows "thread_inv (appendAssistantThreadTurnEventsLocked scope (turn_ThreadID p0) es
    (st\<lparr>assistantTurns := put3 scope (turn_ThreadID p0) (turn_ID p0) p (assistantTurns st),
        threadEvents := E,
        assistantThreads := put2 scope (turn_ThreadID p0) th (assistantThreads st)\<rparr>))"
proof (rule thread_commit [OF inv, where th = th])
  let ?tid = "turn_ThreadID p0"
  note pp = prepareAssistantTurn_Inr [OF p]
  note old_t = thread_okD [OF inv t]
  show "thread_wf ?tid th" using old_t(1) by (simp add: thread_wf_def th_def)
  have base: "turns_ok th (read3 (assistantTurns st) scope ?tid)"
    by (rule turns_ok_thread [OF old_t(2)]) (simp_all add: th_def)
  have "turns_ok th (\<lambda>u. if u = turn_ID p then Some p else read3 (assistantTurns st) scope ?tid u)"
  proof (rule turns_ok_put [OF base])
    fix u a assume "u \<noteq> turn_ID p" "read3 (assistantTurns st) scope ?tid u = Some a"
    with base existing have "turn_ClientUserMessageID a \<noteq> turn_ClientUserMessageID old"
      by (auto simp: turns_ok_def p_def)
    with same show "turn_ClientUserMessageID a \<noteq> turn_ClientUserMessageID p"
      by (simp add: turn_contract_differs_def p_def)
  next
    show "turn_ActorID p = thread_ActorID th"
      using base existing same by (auto simp: turns_ok_def turn_contract_differs_def p_def)
    show "turn_ThreadID p = thread_ID th"
      using old_t(1) by (simp add: thread_wf_def th_def p_def)
  qed (use pp in \<open>simp_all add: p_def\<close>)
  moreover have "read3 (put3 scope ?tid (turn_ID p0) p (assistantTurns st)) scope ?tid
      = (\<lambda>u. if u = turn_ID p then Some p else read3 (assistantTurns st) scope ?tid u)"
    by (auto simp: fun_eq_iff read3_put3 p_def)
  ultimately show "turns_ok th (read3 (assistantTurns (st\<lparr>assistantTurns :=
      put3 scope ?tid (turn_ID p0) p (assistantTurns st), threadEvents := E,
      assistantThreads := put2 scope ?tid th (assistantThreads st)\<rparr>)) scope ?tid)" by simp
qed (use E num own in \<open>auto simp: gomap_simps\<close>)

lemma SaveAssistantTurn_cases:
  assumes op: "SaveAssistantTurn now scope turn st = (r, st')" and inv: "thread_inv st"
  obtains (refused) e where "r = Err e" "st' = st"
  | (stored) p0 p old t th where "r = Ok ()" "prepareAssistantTurn now turn = Inr p0"
      "read3 (assistantTurns st) scope (turn_ThreadID p0) (turn_ID p0) = Some old"
      "\<not> turn_contract_differs old p0"
      "read2 (assistantThreads st) scope (turn_ThreadID p0) = Some t"
      "p = p0\<lparr>turn_CreatedAt := turn_CreatedAt old\<rparr>"
      "th = t\<lparr>thread_Status := if assistantTurnStatusTerminal (turn_Status p)
         then AssistantThreadStatusIdle else AssistantThreadStatusActive, thread_UpdatedAt := turn_UpdatedAt p\<rparr>"
      "st' = st\<lparr>assistantTurns := put3 scope (turn_ThreadID p0) (turn_ID p0) p (assistantTurns st),
         assistantThreads := put2 scope (turn_ThreadID p0) th (assistantThreads st)\<rparr>"
proof (cases "Scope_validate scope = None \<and> (\<exists>p0 old. prepareAssistantTurn now turn = Inr p0
    \<and> read3 (assistantTurns st) scope (turn_ThreadID p0) (turn_ID p0) = Some old
    \<and> \<not> turn_contract_differs old p0)")
  case False
  with op refused show thesis
    by (auto simp: SaveAssistantTurn_def split: option.splits sum.splits if_splits)
next
  case True
  then obtain p0 old where valid: "Scope_validate scope = None" and p0: "prepareAssistantTurn now turn = Inr p0"
    and old: "read3 (assistantTurns st) scope (turn_ThreadID p0) (turn_ID p0) = Some old"
    and same: "\<not> turn_contract_differs old p0" by blast
  obtain t where t: "read2 (assistantThreads st) scope (turn_ThreadID p0) = Some t"
    using turn_thread [OF inv old] by blast
  let ?p = "p0\<lparr>turn_CreatedAt := turn_CreatedAt old\<rparr>"
  let ?st1 = "st\<lparr>assistantTurns := put3 scope (turn_ThreadID p0) (turn_ID p0) ?p (assistantTurns st)\<rparr>"
  note P = project_turn_status_Some [of ?st1 scope ?p t]
  show thesis
    using op valid p0 old same t P
    by (intro stored [OF _ p0 old same t refl refl]) (simp_all add: SaveAssistantTurn_def Let_def)
qed

lemma SaveAssistantTurn_inv:
  assumes op: "SaveAssistantTurn now scope turn st = (r, st')" and inv: "thread_inv st"
  shows "thread_inv st' \<and> thread_fields st st' \<and> r \<noteq> Panic"
  using op inv
proof (cases rule: SaveAssistantTurn_cases)
  case (stored p0 p old t th)
  let ?tid = "turn_ThreadID p0"
  obtain log where log: "read2 (threadEvents st) scope ?tid = Some log"
    using thread_okD(3) [OF inv stored(5)] by blast
  have "thread_inv (appendAssistantThreadTurnEventsLocked scope ?tid []
    (st\<lparr>assistantTurns := put3 scope ?tid (turn_ID p0) p (assistantTurns st),
        threadEvents := threadEvents st,
        assistantThreads := put2 scope ?tid th (assistantThreads st)\<rparr>))"
    using log thread_log_ok [OF inv, of scope ?tid]
    by (intro save_turn_commit [OF inv stored(2-7)]) (auto simp: slice2_def log_ok_def)
  with stored(1,8) show ?thesis by (simp add: thread_fields_def)
qed (use inv in simp_all)

lemma SaveAssistantTurnWithEvent_cases:
  assumes op: "SaveAssistantTurnWithEvent now scope turn event expected st = (r, st')" and inv: "thread_inv st"
  obtains (refused) e where "r = Err e" "st' = st"
  | (stored) p0 p old t th e where "r = Ok ()" "prepareAssistantTurn now turn = Inr p0"
      "read3 (assistantTurns st) scope (turn_ThreadID p0) (turn_ID p0) = Some old"
      "\<not> turn_contract_differs old p0"
      "read2 (assistantThreads st) scope (turn_ThreadID p0) = Some t"
      "p = p0\<lparr>turn_CreatedAt := turn_CreatedAt old\<rparr>"
      "th = t\<lparr>thread_Status := if assistantTurnStatusTerminal (turn_Status p)
         then AssistantThreadStatusIdle else AssistantThreadStatusActive, thread_UpdatedAt := turn_UpdatedAt p\<rparr>"
      "latestAssistantThreadEventSequence (slice2 (threadEvents st) scope (turn_ThreadID p0)) = expected"
      "tev_ThreadID e = turn_ThreadID p0" "tev_TurnID e = turn_ID p0" "tev_Sequence e = wrap64 (expected + 1)"
      "st' = appendAssistantThreadTurnEventsLocked scope (turn_ThreadID p0) [e]
         (st\<lparr>assistantTurns := put3 scope (turn_ThreadID p0) (turn_ID p0) p (assistantTurns st),
             threadEvents := put2 scope (turn_ThreadID p0)
               (slice2 (threadEvents st) scope (turn_ThreadID p0) @ [e]) (threadEvents st),
             assistantThreads := put2 scope (turn_ThreadID p0) th (assistantThreads st)\<rparr>)"
proof (cases "Scope_validate scope = None \<and> (\<exists>p0 pe. prepareAssistantTurn now turn = Inr p0
    \<and> prepareAssistantThreadEvent now (event\<lparr>tev_ThreadID := turn_ThreadID p0, tev_TurnID := turn_ID p0\<rparr>) = Inr pe)")
  case False
  with op refused show thesis
    by (auto simp: SaveAssistantTurnWithEvent_def split: option.splits sum.splits)
next
  case True
  then obtain p0 pe where valid: "Scope_validate scope = None" and p0: "prepareAssistantTurn now turn = Inr p0"
    and pe: "prepareAssistantThreadEvent now (event\<lparr>tev_ThreadID := turn_ThreadID p0,
      tev_TurnID := turn_ID p0\<rparr>) = Inr pe" by blast
  let ?tid = "turn_ThreadID p0"
  let ?log = "slice2 (threadEvents st) scope ?tid"
  have ids: "tev_ThreadID pe = ?tid" "tev_TurnID pe = turn_ID p0"
    using prepareAssistantThreadEvent_Inr(1,2) [OF pe] prepareAssistantTurn_Inr(1,2) [OF p0] by simp_all
  show thesis
  proof (cases "\<exists>old. read3 (assistantTurns st) scope ?tid (turn_ID p0) = Some old
      \<and> \<not> turn_contract_differs old p0 \<and> latestAssistantThreadEventSequence ?log = expected")
    case False
    with op valid p0 pe refused show thesis
      by (auto simp: SaveAssistantTurnWithEvent_def Let_def split: option.splits if_splits)
  next
    case True
    then obtain old where old: "read3 (assistantTurns st) scope ?tid (turn_ID p0) = Some old"
      and same: "\<not> turn_contract_differs old p0"
      and latest: "latestAssistantThreadEventSequence ?log = expected" by blast
    obtain t where t: "read2 (assistantThreads st) scope ?tid = Some t" using turn_thread [OF inv old] by blast
    let ?p = "p0\<lparr>turn_CreatedAt := turn_CreatedAt old\<rparr>"
    let ?e = "pe\<lparr>tev_Sequence := wrap64 (expected + 1)\<rparr>"
    let ?st1 = "appendAssistantThreadTurnEventsLocked scope ?tid [?e]
      (st\<lparr>assistantTurns := put3 scope ?tid (turn_ID p0) ?p (assistantTurns st),
          threadEvents := put2 scope ?tid (?log @ [?e]) (threadEvents st)\<rparr>)"
    have P: "project_turn_status scope ?p ?st1 = Some (put2 scope ?tid
      (t\<lparr>thread_Status := if assistantTurnStatusTerminal (turn_Status ?p) then AssistantThreadStatusIdle
         else AssistantThreadStatusActive, thread_UpdatedAt := turn_UpdatedAt ?p\<rparr>) (assistantThreads st))"
      using project_turn_status_Some [of ?st1 scope ?p t] t
      by (simp del: appendAssistantThreadTurnEventsLocked.simps)
    have "(r, st') = (Ok (), ?st1\<lparr>assistantThreads := put2 scope ?tid
      (t\<lparr>thread_Status := if assistantTurnStatusTerminal (turn_Status ?p) then AssistantThreadStatusIdle
         else AssistantThreadStatusActive, thread_UpdatedAt := turn_UpdatedAt ?p\<rparr>) (assistantThreads st)\<rparr>)"
      using op valid p0 pe old same latest P thread_events_present [OF inv t]
      by (simp add: SaveAssistantTurnWithEvent_def Let_def del: appendAssistantThreadTurnEventsLocked.simps)
    then show thesis
      by (intro stored [OF _ p0 old same t refl refl latest, of ?e])
        (simp_all add: ids append_turn_events_threads [symmetric]
          del: appendAssistantThreadTurnEventsLocked.simps)
  qed
qed

lemma SaveAssistantTurnWithEvent_inv:
  assumes op: "SaveAssistantTurnWithEvent now scope turn event expected st = (r, st')" and inv: "thread_inv st"
  shows "thread_inv st' \<and> thread_fields st st' \<and> r \<noteq> Panic"
  using op inv
proof (cases rule: SaveAssistantTurnWithEvent_cases)
  case (stored p0 p old t th e)
  let ?log = "slice2 (threadEvents st) scope (turn_ThreadID p0)"
  have "numbered (?log @ number_events (latestAssistantThreadEventSequence ?log) [e])"
    using thread_log_ok [OF inv] by (intro numbered_append) (simp add: log_ok_def)
  moreover have "number_events (latestAssistantThreadEventSequence ?log) [e] = [e]"
    using stored(8,11) by simp
  ultimately have num: "numbered (?log @ [e])" by simp
  have "thread_inv st'"
    unfolding stored(12)
    using stored(9) num by (intro save_turn_commit [OF inv stored(2-7)]) (auto simp: read2_put2)
  moreover have "thread_fields st st'"
    unfolding stored(12) by (rule thread_fields_append) (simp add: thread_fields_def)
  ultimately show ?thesis using stored(1) by simp
qed (use inv in simp_all)

end
