(* ===== verification/Store_Attachments.thy ===== *)
theory Store_Attachments
  imports Store_State Store_Notify
begin

text \<open>
  Attachments (\<open>attachment.go\<close> and the attachment operations of \<open>memory.go\<close>): quota parsing,
  admission, binding uploads to a turn and rolling a binding back, expiry. What comes from the
  provider SDK and from \<open>crypto/sha256\<close> is a parameter. Shown: admission respects the workspace
  and draft quotas, a binding is all or nothing, rolling back undoes a binding, an upload is
  idempotent, and quota values that are printed parse to themselves.
\<close>

section \<open>Parameters\<close>

record attachment_sdk =
  ValidateAttachmentID :: "string \<Rightarrow> store_err option"
  NormalizeAttachmentContentType :: "string \<Rightarrow> store_err + string"
  ValidateAttachmentContent :: "string \<Rightarrow> string \<Rightarrow> string \<Rightarrow> store_err option"
  UploadMetadataMatches :: "AttachmentReceipt \<Rightarrow> AttachmentReceipt \<Rightarrow> bool"
  Sum256_hex :: "string \<Rightarrow> string"
  DefaultAttachmentDraftRetention :: duration

section \<open>Text\<close>

definition byte :: "char \<Rightarrow> nat" where
  "byte c = of_char c"

text \<open>\<open>strconv.ParseInt(s, 10, 64)\<close>: an optional sign, digits, and the range of \<open>int64\<close>.\<close>

definition is_digit :: "char \<Rightarrow> bool" where
  "is_digit c \<longleftrightarrow> 48 \<le> byte c \<and> byte c \<le> 57"

definition digits_value :: "string \<Rightarrow> int" where
  "digits_value s = foldl (\<lambda>n c. n * 10 + (int (byte c) - 48)) 0 s"

definition ParseInt :: "string \<Rightarrow> int64 option" where
  "ParseInt s =
     (let (negative, digits) = (case s of
            [] \<Rightarrow> (False, [])
          | c # cs \<Rightarrow> if c = CHR ''-'' then (True, cs) else if c = CHR ''+'' then (False, cs) else (False, s));
          value = (if negative then - digits_value digits else digits_value digits)
      in if digits = [] \<or> \<not> list_all is_digit digits \<or> \<not> is_int64 value then None else Some value)"

text \<open>\<open>utf8.ValidString\<close>, by the ranges of well-formed sequences.\<close>

definition continuation :: "nat \<Rightarrow> bool" where
  "continuation b \<longleftrightarrow> 128 \<le> b \<and> b \<le> 191"

fun utf8_valid :: "nat list \<Rightarrow> bool" where
  "utf8_valid [] = True"
| "utf8_valid (a # s) =
     (if a < 128 then utf8_valid s
      else (case s of
          [] \<Rightarrow> False
        | b # s1 \<Rightarrow>
          if 194 \<le> a \<and> a \<le> 223 then continuation b \<and> utf8_valid s1
          else (case s1 of
              [] \<Rightarrow> False
            | c # s2 \<Rightarrow>
              if 224 \<le> a \<and> a \<le> 239 then
                continuation b \<and> (a = 224 \<longrightarrow> 160 \<le> b) \<and> (a = 237 \<longrightarrow> b \<le> 159) \<and> continuation c
                \<and> utf8_valid s2
              else (case s2 of
                  [] \<Rightarrow> False
                | d # s3 \<Rightarrow> 240 \<le> a \<and> a \<le> 244 \<and> continuation b \<and> (a = 240 \<longrightarrow> 144 \<le> b)
                    \<and> (a = 244 \<longrightarrow> b \<le> 143) \<and> continuation c \<and> continuation d \<and> utf8_valid s3))))"

definition ValidString :: "string \<Rightarrow> bool" where
  "ValidString s = utf8_valid (map byte s)"

text \<open>Whether \<open>hex.DecodeString\<close> succeeds.\<close>

definition hex_valid :: "string \<Rightarrow> bool" where
  "hex_valid s \<longleftrightarrow> length s mod 2 = 0 \<and> list_all (\<lambda>c. is_digit c
     \<or> 97 \<le> byte c \<and> byte c \<le> 102 \<or> 65 \<le> byte c \<and> byte c \<le> 70) s"

section \<open>Quotas\<close>

definition quota_suffixes :: "(string \<times> int) list" where
  "quota_suffixes = [(''Ki'', 2 ^ 10), (''Mi'', 2 ^ 20), (''Gi'', 2 ^ 30), (''Ti'', 2 ^ 40)]"

text \<open>
  The loop over the suffix map stops at the first match; at most one suffix can match, so the
  order of the map does not matter.
\<close>

definition ParseAttachmentQuotaBytes :: "string \<Rightarrow> store_err + int64" where
  "ParseAttachmentQuotaBytes raw =
     (let raw = TrimSpace raw
      in if raw = [] then Inl (ErrInvalid ''attachment quota is empty'')
         else let (valuePart, multiplier) =
                (case find (\<lambda>(suffix, factor). length suffix < length raw
                     \<and> EqualFold (drop (length raw - length suffix) raw) suffix) quota_suffixes of
                   None \<Rightarrow> (raw, 1)
                 | Some (suffix, factor) \<Rightarrow> (TrimSpace (take (length raw - length suffix) raw), factor))
         in (case ParseInt valuePart of
             None \<Rightarrow> Inl (ErrInvalid ''attachment quota must be a non-negative byte count or IEC value'')
           | Some value \<Rightarrow>
               if value < 0
               then Inl (ErrInvalid ''attachment quota must be a non-negative byte count or IEC value'')
               else if value > max_int64 div multiplier
               then Inl (ErrInvalid ''attachment quota is too large'')
               else Inr (wrap64 (value * multiplier))))"

definition validateAttachmentQuota :: "AttachmentQuota \<Rightarrow> store_err option" where
  "validateAttachmentQuota quota = first_error
     [check (WorkspaceMaxBytes quota < 0) (ErrInvalid ''attachment workspace quota cannot be negative''),
      check (DraftProjectMaxBytes quota < 0)
        (ErrInvalid ''attachment draft project byte quota cannot be negative''),
      check (DraftProjectMaxCount quota < 0)
        (ErrInvalid ''attachment draft project count quota cannot be negative'')]"

section \<open>Preparing and comparing attachments\<close>

definition prepareAttachment ::
  "attachment_sdk \<Rightarrow> time \<Rightarrow> Scope \<Rightarrow> Attachment \<Rightarrow> store_err + Attachment" where
  "prepareAttachment sdk now scope attachment =
     (case Scope_validate scope of Some e \<Rightarrow> Inl e | None \<Rightarrow>
      let attachment = attachment\<lparr>att_ID := TrimSpace (att_ID attachment),
            att_ActorID := TrimSpace (att_ActorID attachment),
            att_Filename := TrimSpace (att_Filename attachment),
            att_ContentType := ToLower (TrimSpace (att_ContentType attachment)),
            att_SHA256 := ToLower (TrimSpace (att_SHA256 attachment))\<rparr>
      in case ValidateAttachmentID sdk (att_ID attachment) of Some e \<Rightarrow> Inl e | None \<Rightarrow>
      if att_ActorID attachment = [] then Inl (ErrInvalid ''attachment actor is required'')
      else if \<not> ValidString (att_ActorID attachment)
      then Inl (ErrInvalid ''attachment actor must be valid UTF-8'')
      else case NormalizeAttachmentContentType sdk (att_ContentType attachment) of Inl e \<Rightarrow> Inl e
      | Inr contentType \<Rightarrow>
      let attachment = attachment\<lparr>att_ContentType := contentType,
            att_CreatedAt := truncate_microsecond (time_or (att_CreatedAt attachment) now),
            att_ExpiresAt := map_option truncate_microsecond (att_ExpiresAt attachment)\<rparr>
      in if \<not> att_Draft attachment \<and> att_ExpiresAt attachment \<noteq> None
      then Inl (ErrInvalid ''non-draft attachments cannot expire'')
      else if att_Draft attachment \<and> att_ExpiresAt attachment = None
      then Inl (ErrInvalid ''draft attachments require an expiry'')
      else let attachment = attachment\<lparr>att_ProjectName := ProjectName scope, att_ProjectUID := ProjectUID scope\<rparr>
      in if att_SizeBytes attachment \<le> 0 then Inl (ErrInvalid ''attachment size must be positive'')
      else if length (att_SHA256 attachment) \<noteq> 64
      then Inl (ErrInvalid ''attachment sha256 must be a hexadecimal digest'')
      else if \<not> hex_valid (att_SHA256 attachment)
      then Inl (ErrInvalid ''attachment sha256 must be hexadecimal'')
      else if att_DataEncrypted attachment \<noteq> (\<not> blank (att_DataKeyID attachment))
      then Inl (ErrInvalid ''attachment encryption metadata is inconsistent'')
      else if att_DataEncrypted attachment
      then if att_Data attachment = [] then Inl (ErrInvalid ''encrypted attachment data is required'')
           else Inr attachment
      else if int (length (att_Data attachment)) \<noteq> att_SizeBytes attachment
      then Inl (ErrInvalid ''attachment size does not match data'')
      else case ValidateAttachmentContent sdk (att_Filename attachment) (att_ContentType attachment)
             (att_Data attachment) of Some e \<Rightarrow> Inl e | None \<Rightarrow>
      if \<not> EqualFold (att_SHA256 attachment) (Sum256_hex sdk (att_Data attachment))
      then Inl (ErrInvalid ''attachment sha256 does not match data'')
      else Inr attachment)"

definition attachmentExpired :: "Attachment \<Rightarrow> time \<Rightarrow> bool" where
  "attachmentExpired attachment before \<longleftrightarrow> att_Draft attachment
     \<and> (case att_ExpiresAt attachment of None \<Rightarrow> False | Some t \<Rightarrow> \<not> t > before)"

definition validateAttachmentReceipt ::
  "attachment_sdk \<Rightarrow> Attachment \<Rightarrow> AttachmentReceipt \<Rightarrow> string \<Rightarrow> store_err option" where
  "validateAttachmentReceipt sdk attachment receipt actor =
     (if att_ActorID attachment \<noteq> actor then Some ErrAttachmentForbidden
      else case NormalizeAttachmentContentType sdk (rcpt_ContentType receipt) of
        Inl e \<Rightarrow> Some ErrAttachmentReceiptMismatch
      | Inr contentType \<Rightarrow>
        if time_IsZero (rcpt_CreatedAt receipt) \<or> att_Filename attachment \<noteq> rcpt_Filename receipt
           \<or> att_ContentType attachment \<noteq> contentType \<or> att_SizeBytes attachment \<noteq> rcpt_SizeBytes receipt
           \<or> \<not> EqualFold (att_SHA256 attachment) (TrimSpace (rcpt_SHA256 receipt))
           \<or> (\<not> time_IsZero (rcpt_CreatedAt receipt) \<and> att_CreatedAt attachment \<noteq> rcpt_CreatedAt receipt)
        then Some ErrAttachmentReceiptMismatch else None)"

definition receipt_of :: "Attachment \<Rightarrow> time \<Rightarrow> AttachmentReceipt" where
  "receipt_of a createdAt = \<lparr>rcpt_ID = att_ID a, rcpt_Filename = att_Filename a,
     rcpt_ContentType = att_ContentType a, rcpt_SizeBytes = att_SizeBytes a,
     rcpt_SHA256 = att_SHA256 a, rcpt_CreatedAt = createdAt\<rparr>"

definition attachmentUploadMetadataMatches :: "attachment_sdk \<Rightarrow> Attachment \<Rightarrow> Attachment \<Rightarrow> bool" where
  "attachmentUploadMetadataMatches sdk existing candidate \<longleftrightarrow>
     att_ActorID existing = att_ActorID candidate
     \<and> UploadMetadataMatches sdk (receipt_of existing 0) (receipt_of candidate (att_CreatedAt candidate))
     \<and> att_Data existing = att_Data candidate"

section \<open>Admission\<close>

text \<open>The two nested loops of \<open>CreateAttachment\<close>: expired drafts go, the rest is counted.\<close>

type_synonym attachment_maps = "(Scope, (string, Attachment) gomap) gomap"

fun admit_inner :: "time \<Rightarrow> bool \<Rightarrow> (string \<times> Attachment) list \<Rightarrow>
    (string, Attachment) gomap \<times> int64 \<times> int64 \<times> int \<Rightarrow> (string, Attachment) gomap \<times> int64 \<times> int64 \<times> int" where
  "admit_inner now here [] acc = acc"
| "admit_inner now here ((i, existing) # rest) (m, workspaceBytes, draftBytes, draftCount) =
     (if attachmentExpired existing now
      then admit_inner now here rest (gdel i m, workspaceBytes, draftBytes, draftCount)
      else let workspaceBytes = wrap64 (workspaceBytes + att_SizeBytes existing)
           in if here \<and> att_Draft existing
              then admit_inner now here rest (m, workspaceBytes,
                     wrap64 (draftBytes + att_SizeBytes existing), draftCount + 1)
              else admit_inner now here rest (m, workspaceBytes, draftBytes, draftCount))"

definition same_workspace :: "Scope \<Rightarrow> Scope \<Rightarrow> bool" where
  "same_workspace s t \<longleftrightarrow> OrgUUID s = OrgUUID t \<and> WorkspaceUUID s = WorkspaceUUID t"

fun admit_outer :: "time \<Rightarrow> Scope \<Rightarrow> (Scope \<times> (string, Attachment) gomap) list \<Rightarrow>
    attachment_maps \<times> int64 \<times> int64 \<times> int \<Rightarrow> attachment_maps \<times> int64 \<times> int64 \<times> int" where
  "admit_outer now scope [] acc = acc"
| "admit_outer now scope ((candidateScope, inner) # rest) (m, workspaceBytes, draftBytes, draftCount) =
     (if \<not> same_workspace candidateScope scope
      then admit_outer now scope rest (m, workspaceBytes, draftBytes, draftCount)
      else (case admit_inner now (candidateScope = scope) (gentries inner)
              (inner, workspaceBytes, draftBytes, draftCount) of
          (inner', workspaceBytes, draftBytes, draftCount) \<Rightarrow>
            admit_outer now scope rest
              (gput candidateScope inner' m, workspaceBytes, draftBytes, draftCount)))"

definition CreateAttachment :: "attachment_sdk \<Rightarrow> time \<Rightarrow> Scope \<Rightarrow> Attachment \<Rightarrow> Attachment op" where
  [op_defs]: "CreateAttachment sdk now scope attachment st =
     (case prepareAttachment sdk now scope attachment of Inl e \<Rightarrow> (Err e, st) | Inr prepared \<Rightarrow>
      if gget (attachmentDeleted st) scope \<noteq> None then (Err ErrAttachmentProjectDeleted, st)
      else let st = st\<lparr>attachments := ensure scope (attachments st)\<rparr>
      in if read2 (attachments st) scope (att_ID prepared) \<noteq> None then (Err ErrAttachmentConflict, st)
      else (case admit_outer now scope (gentries (attachments st)) (attachments st, 0, 0, 0) of
          (swept, workspaceBytes, draftBytes, draftCount) \<Rightarrow>
          let st = st\<lparr>attachments := swept\<rparr>; quota = attachmentQuota st
          in if WorkspaceMaxBytes quota > 0
                \<and> wrap64 (workspaceBytes + att_SizeBytes prepared) > WorkspaceMaxBytes quota
             then (Err ErrAttachmentQuotaExceeded, st)
             else if att_Draft prepared
                \<and> (DraftProjectMaxCount quota > 0 \<and> draftCount + 1 > DraftProjectMaxCount quota
                   \<or> DraftProjectMaxBytes quota > 0
                      \<and> wrap64 (draftBytes + att_SizeBytes prepared) > DraftProjectMaxBytes quota)
             then (Err ErrAttachmentQuotaExceeded, st)
             else (Ok prepared, st\<lparr>attachments :=
                    put2 scope (att_ID prepared) prepared (attachments st)\<rparr>)))"

definition ConfigureAttachmentQuota :: "AttachmentQuota \<Rightarrow> unit op" where
  [op_defs]: "ConfigureAttachmentQuota quota st =
     (case validateAttachmentQuota quota of Some e \<Rightarrow> (Err e, st) | None \<Rightarrow>
      (Ok (), st\<lparr>attachmentQuota := quota\<rparr>))"

definition GetAttachment :: "time \<Rightarrow> Scope \<Rightarrow> string \<Rightarrow> Attachment op" where
  [op_defs]: "GetAttachment now scope i st =
     (case Scope_validate scope of Some e \<Rightarrow> (Err e, st) | None \<Rightarrow>
      let i = TrimSpace i
      in (case read2 (attachments st) scope i of
            None \<Rightarrow> (Err ErrAttachmentNotFound, st)
          | Some attachment \<Rightarrow>
              if attachmentExpired attachment now
              then (Err ErrAttachmentNotFound, st\<lparr>attachments := remove2 scope i (attachments st)\<rparr>)
              else (Ok attachment, st)))"

definition attachment_key :: "Attachment \<Rightarrow> page_key" where
  "attachment_key a = PageKey (att_CreatedAt a) (att_ID a)"

text \<open>The loop of \<open>ListAttachments\<close> deletes expired drafts of the map it runs over.\<close>

fun drop_expired :: "time \<Rightarrow> (string \<times> Attachment) list \<Rightarrow> (string, Attachment) gomap
    \<Rightarrow> (string, Attachment) gomap" where
  "drop_expired now [] m = m"
| "drop_expired now ((i, a) # rest) m =
     drop_expired now rest (if attachmentExpired a now then gdel i m else m)"

definition ListAttachments :: "time \<Rightarrow> Scope \<Rightarrow> Attachment list op" where
  [op_defs]: "ListAttachments now scope st =
     (case Scope_validate scope of Some e \<Rightarrow> (Err e, st) | None \<Rightarrow>
      let inner = gread (attachments st) scope
      in if inner = [] then (Ok [], st)
         else let result = filter (\<lambda>a. \<not> attachmentExpired a now) (gvalues inner);
                  st = st\<lparr>attachments := gput scope (drop_expired now (gentries inner) inner) (attachments st)\<rparr>
              in (Ok (rev (sort_key attachment_key result)),
                  st\<lparr>attachments := prune scope (attachments st)\<rparr>))"

section \<open>Binding\<close>

text \<open>
  The first loop of \<open>BindAttachments\<close> checks every receipt and changes nothing, except that a
  draft found expired is deleted; the second one binds the drafts among the results.
\<close>

fun bind_check :: "attachment_sdk \<Rightarrow> time \<Rightarrow> Scope \<Rightarrow> string \<Rightarrow> string \<Rightarrow> string set \<Rightarrow>
    AttachmentReceipt list \<Rightarrow> attachment_maps \<Rightarrow> (store_err \<times> attachment_maps) + Attachment list" where
  "bind_check sdk now scope actor bindingID seen [] m = Inr []"
| "bind_check sdk now scope actor bindingID seen (receipt # rest) m =
     (let i = TrimSpace (rcpt_ID receipt)
      in if i \<in> seen then Inl (ErrAttachmentReceiptMismatch, m)
         else (case read2 m scope i of
             None \<Rightarrow> Inl (ErrAttachmentNotFound, m)
           | Some attachment \<Rightarrow>
             if attachmentExpired attachment now
             then Inl (ErrAttachmentNotFound, remove2 scope (att_ID attachment) m)
             else (case validateAttachmentReceipt sdk attachment receipt actor of
                 Some e \<Rightarrow> Inl (e, m)
               | None \<Rightarrow>
                 if \<not> att_Draft attachment \<and> att_BindingID attachment \<noteq> []
                    \<and> att_BindingID attachment \<noteq> bindingID
                 then Inl (ErrAttachmentConflict, m)
                 else (case bind_check sdk now scope actor bindingID (insert i seen) rest m of
                     Inl x \<Rightarrow> Inl x | Inr result \<Rightarrow> Inr (attachment # result)))))"

definition bind_one :: "string \<Rightarrow> Attachment \<Rightarrow> Attachment" where
  "bind_one bindingID a = a\<lparr>att_Draft := False, att_BindingID := bindingID,
     att_DraftExpiresAt := att_ExpiresAt a, att_ExpiresAt := None\<rparr>"

fun bind_commit :: "Scope \<Rightarrow> string \<Rightarrow> Attachment list \<Rightarrow> attachment_maps \<Rightarrow> attachment_maps \<times> Attachment list" where
  "bind_commit scope bindingID [] m = (m, [])"
| "bind_commit scope bindingID (a # rest) m =
     (if att_Draft a
      then let a' = bind_one bindingID a
           in (case bind_commit scope bindingID rest (put2 scope (att_ID a') a' m) of
               (m, result) \<Rightarrow> (m, a' # result))
      else (case bind_commit scope bindingID rest m of (m, result) \<Rightarrow> (m, a # result)))"

definition BindAttachments :: "attachment_sdk \<Rightarrow> time \<Rightarrow> Scope \<Rightarrow> AttachmentReceipt list \<Rightarrow> string
    \<Rightarrow> string \<Rightarrow> Attachment list op" where
  [op_defs]: "BindAttachments sdk now scope receipts actor bindingID st =
     (case Scope_validate scope of Some e \<Rightarrow> (Err e, st) | None \<Rightarrow>
      let actor = TrimSpace actor; bindingID = TrimSpace bindingID
      in if actor = [] \<or> bindingID = [] \<or> receipts = []
         then (Err (ErrInvalid ''attachment actor, binding ID, and receipts are required''), st)
         else (case bind_check sdk now scope actor bindingID {} receipts (attachments st) of
             Inl (e, m) \<Rightarrow> (Err e, st\<lparr>attachments := m\<rparr>)
           | Inr result \<Rightarrow> (case bind_commit scope bindingID result (attachments st) of
               (m, result) \<Rightarrow> (Ok result, st\<lparr>attachments := m\<rparr>))))"

definition BindAttachment ::
  "attachment_sdk \<Rightarrow> time \<Rightarrow> Scope \<Rightarrow> AttachmentReceipt \<Rightarrow> string \<Rightarrow> Attachment op" where
  [op_defs]: "BindAttachment sdk now scope receipt actor st =
     (case BindAttachments sdk now scope [receipt] actor (''legacy:'' @ TrimSpace (rcpt_ID receipt)) st of
        (Ok (a # _), st) \<Rightarrow> (Ok a, st)
      | (Ok [], st) \<Rightarrow> (Panic, st)
      | (Err e, st) \<Rightarrow> (Err e, st)
      | (Panic, st) \<Rightarrow> (Panic, st))"

definition rollback_one :: "Attachment \<Rightarrow> Attachment" where
  "rollback_one a = a\<lparr>att_Draft := True, att_ExpiresAt := att_DraftExpiresAt a,
     att_DraftExpiresAt := None, att_BindingID := []\<rparr>"

fun rollback_loop :: "Scope \<Rightarrow> string \<Rightarrow> (string \<times> Attachment) list \<Rightarrow> attachment_maps \<Rightarrow> attachment_maps" where
  "rollback_loop scope bindingID [] m = m"
| "rollback_loop scope bindingID ((i, a) # rest) m =
     rollback_loop scope bindingID rest
       (if att_BindingID a \<noteq> bindingID then m else put2 scope i (rollback_one a) m)"

definition RollbackAttachmentBinding :: "Scope \<Rightarrow> string \<Rightarrow> unit op" where
  [op_defs]: "RollbackAttachmentBinding scope bindingID st =
     (case Scope_validate scope of Some e \<Rightarrow> (Err e, st) | None \<Rightarrow>
      let bindingID = TrimSpace bindingID
      in if bindingID = [] then (Err (ErrInvalid ''attachment binding ID is required''), st)
         else (Ok (), st\<lparr>attachments := rollback_loop scope bindingID
                (gentries (gread (attachments st) scope)) (attachments st)\<rparr>))"

section \<open>Deletion and repair\<close>

definition DeleteAttachment :: "Scope \<Rightarrow> string \<Rightarrow> string \<Rightarrow> unit op" where
  [op_defs]: "DeleteAttachment scope i actor st =
     (case Scope_validate scope of Some e \<Rightarrow> (Err e, st) | None \<Rightarrow>
      let i = TrimSpace i; actor = TrimSpace actor
      in (case read2 (attachments st) scope i of
            None \<Rightarrow> (Err ErrAttachmentNotFound, st)
          | Some attachment \<Rightarrow>
              if att_ActorID attachment \<noteq> actor then (Err ErrAttachmentForbidden, st)
              else if \<not> att_Draft attachment then (Err ErrAttachmentImmutable, st)
              else (Ok (), st\<lparr>attachments := prune scope (remove2 scope i (attachments st))\<rparr>)))"

definition DeleteProjectAttachments :: "Scope \<Rightarrow> unit op" where
  [op_defs]: "DeleteProjectAttachments scope st =
     (case Scope_validate scope of Some e \<Rightarrow> (Err e, st) | None \<Rightarrow>
      (Ok (), st\<lparr>attachments := gdel scope (attachments st),
         attachmentDeleted := gput scope () (attachmentDeleted st)\<rparr>))"

fun delete_expired_loop :: "time \<Rightarrow> (Scope \<times> (string, Attachment) gomap) list \<Rightarrow> attachment_maps
    \<Rightarrow> int64 \<Rightarrow> int64 \<times> attachment_maps" where
  "delete_expired_loop before [] m deleted = (deleted, m)"
| "delete_expired_loop before ((scope, inner) # rest) m deleted =
     (let gone = length (filter (\<lambda>a. attachmentExpired a before) (gvalues inner));
          m = gput scope (drop_expired before (gentries inner) inner) m
      in delete_expired_loop before rest (prune scope m) (wrap64 (deleted + int gone)))"

definition DeleteExpiredAttachments :: "time \<Rightarrow> int64 op" where
  [op_defs]: "DeleteExpiredAttachments before st =
     (case delete_expired_loop before (gentries (attachments st)) (attachments st) 0 of
        (deleted, m) \<Rightarrow> (Ok deleted, st\<lparr>attachments := m\<rparr>))"

text \<open>Whether some turn of the scope has the ID an attachment is bound to.\<close>

definition binding_owned :: "(string, (string, AssistantTurn) gomap) gomap \<Rightarrow> string \<Rightarrow> bool" where
  "binding_owned turns bindingID \<longleftrightarrow>
     list_ex (\<lambda>threadTurns. list_ex (\<lambda>turn. turn_ID turn = bindingID) (gvalues threadTurns)) (gvalues turns)"

definition demote :: "attachment_sdk \<Rightarrow> Attachment \<Rightarrow> Attachment" where
  "demote sdk a = a\<lparr>att_Draft := True, att_BindingID := [],
     att_ExpiresAt := Some (case att_DraftExpiresAt a of Some t \<Rightarrow> t
       | None \<Rightarrow> att_CreatedAt a + DefaultAttachmentDraftRetention sdk),
     att_DraftExpiresAt := None\<rparr>"

fun reconcile_inner :: "attachment_sdk \<Rightarrow> time \<Rightarrow> (string, (string, AssistantTurn) gomap) gomap
    \<Rightarrow> (string \<times> Attachment) list \<Rightarrow> (string, Attachment) gomap \<Rightarrow> (string, Attachment) gomap" where
  "reconcile_inner sdk now turns [] m = m"
| "reconcile_inner sdk now turns ((i, a) # rest) m =
     reconcile_inner sdk now turns rest
       (if att_Draft a then m
        else if binding_owned turns (att_BindingID a) then m
        else if \<not> (case att_ExpiresAt (demote sdk a) of None \<Rightarrow> False | Some t \<Rightarrow> t > now) then gdel i m
        else gput i (demote sdk a) m)"

fun reconcile_outer :: "attachment_sdk \<Rightarrow> time \<Rightarrow> MemoryStore \<Rightarrow> (Scope \<times> (string, Attachment) gomap) list
    \<Rightarrow> attachment_maps \<Rightarrow> attachment_maps" where
  "reconcile_outer sdk now st [] m = m"
| "reconcile_outer sdk now st ((scope, inner) # rest) m =
     reconcile_outer sdk now st rest (prune scope (gput scope
       (reconcile_inner sdk now (gread (assistantTurns st) scope) (gentries inner) inner) m))"

definition ReconcileAttachmentBindings :: "attachment_sdk \<Rightarrow> time \<Rightarrow> unit op" where
  [op_defs]: "ReconcileAttachmentBindings sdk now st =
     (Ok (), st\<lparr>attachments := reconcile_outer sdk now st (gentries (attachments st)) (attachments st)\<rparr>)"

section \<open>Idempotent upload and receipt verification\<close>

definition match_existing :: "attachment_sdk \<Rightarrow> Attachment \<Rightarrow> Attachment \<Rightarrow> (Attachment \<times> bool) sres" where
  "match_existing sdk existing prepared =
     (if \<not> attachmentUploadMetadataMatches sdk existing prepared then Err ErrAttachmentConflict
      else Ok (existing, False))"

definition CreateAttachmentIdempotent ::
  "attachment_sdk \<Rightarrow> time \<Rightarrow> Scope \<Rightarrow> Attachment \<Rightarrow> (Attachment \<times> bool) op" where
  [op_defs]: "CreateAttachmentIdempotent sdk now scope candidate st =
     (case prepareAttachment sdk now scope candidate of Inl e \<Rightarrow> (Err e, st) | Inr prepared \<Rightarrow>
      (case GetAttachment now scope (att_ID prepared) st of
         (Ok existing, st) \<Rightarrow> (match_existing sdk existing prepared, st)
       | (Panic, st) \<Rightarrow> (Panic, st)
       | (Err e, st) \<Rightarrow>
         if e \<noteq> ErrAttachmentNotFound then (Err e, st)
         else (case CreateAttachment sdk now scope prepared st of
             (Ok created, st) \<Rightarrow> (Ok (created, True), st)
           | (Panic, st) \<Rightarrow> (Panic, st)
           | (Err e, st) \<Rightarrow>
             if e \<noteq> ErrAttachmentConflict \<and> e \<noteq> ErrAttachmentQuotaExceeded then (Err e, st)
             else (case GetAttachment now scope (att_ID prepared) st of
                 (Ok existing, st) \<Rightarrow> (match_existing sdk existing prepared, st)
               | (Panic, st) \<Rightarrow> (Panic, st)
               | (Err _, st) \<Rightarrow> (Err e, st)))))"

definition VerifyAttachmentReceipt ::
  "attachment_sdk \<Rightarrow> time \<Rightarrow> Scope \<Rightarrow> AttachmentReceipt \<Rightarrow> string \<Rightarrow> Attachment op" where
  [op_defs]: "VerifyAttachmentReceipt sdk now scope receipt actor st =
     (let actor = TrimSpace actor
      in if actor = [] then (Err ErrAttachmentForbidden, st)
         else (case GetAttachment now scope (rcpt_ID receipt) st of
             (Ok attachment, st) \<Rightarrow>
               (case validateAttachmentReceipt sdk attachment receipt actor of
                  Some e \<Rightarrow> (Err e, st) | None \<Rightarrow> (Ok attachment, st))
           | (Err e, st) \<Rightarrow> (Err e, st)
           | (Panic, st) \<Rightarrow> (Panic, st)))"

section \<open>Admission keeps the quotas\<close>

text \<open>
  What a quota limits: the bytes kept in all projects of a workspace, and the bytes and the
  number of the drafts of one project. The counters of the code add with wrap-around; the
  totals here do not.
\<close>

definition map_bytes :: "(string, Attachment) gomap \<Rightarrow> int" where
  "map_bytes m = gsum (\<lambda>i a. att_SizeBytes a) m"

definition workspace_bytes :: "Scope \<Rightarrow> attachment_maps \<Rightarrow> int" where
  "workspace_bytes scope m = gsum (\<lambda>s inner. if same_workspace s scope then map_bytes inner else 0) m"

definition draft_bytes :: "(string, Attachment) gomap \<Rightarrow> int" where
  "draft_bytes m = gsum (\<lambda>i a. if att_Draft a then att_SizeBytes a else 0) m"

definition draft_count :: "(string, Attachment) gomap \<Rightarrow> int" where
  "draft_count m = gsum (\<lambda>i a. if att_Draft a then 1 else 0) m"

definition live_map :: "time \<Rightarrow> (string, Attachment) gomap \<Rightarrow> (string, Attachment) gomap" where
  "live_map now m = drop_expired now (gentries m) m"

lemma gget_drop_expired:
  "distinct (map fst es) \<Longrightarrow> gget (drop_expired now es m) i =
     (if \<exists>a. (i, a) \<in> set es \<and> attachmentExpired a now then None else gget m i)"
  by (induction now es m rule: drop_expired.induct) (auto simp: al.get_del)

lemma gget_live_map: "gget (live_map now m) i =
    (case gget m i of Some a \<Rightarrow> if attachmentExpired a now then None else Some a | None \<Rightarrow> None)"
  unfolding live_map_def
  by (simp add: gget_drop_expired al.entries_distinct al.entries_get split: option.splits)

abbreviation live_entries :: "time \<Rightarrow> (string \<times> Attachment) list \<Rightarrow> (string \<times> Attachment) list" where
  "live_entries now es \<equiv> filter (\<lambda>(i, a). \<not> attachmentExpired a now) es"

abbreviation total :: "(Attachment \<Rightarrow> int) \<Rightarrow> (string \<times> Attachment) list \<Rightarrow> int" where
  "total f es \<equiv> sum_list (map (\<lambda>(i, a). f a) es)"

lemma gsum_live_map:
  "gsum (\<lambda>i a. f a) (live_map now m) = total f (live_entries now (gentries m))"
proof -
  let ?es = "live_entries now (gentries m)"
  have d: "distinct ?es" using al.distinct_entries by (rule distinct_filter)
  have same: "set ?es = set (gentries (live_map now m))"
    by (auto simp: al.entries_get gget_live_map split: option.splits if_splits)
  have "total f ?es = (\<Sum>p \<in> set ?es. f (snd p))"
    by (subst sum_list_distinct_conv_sum_set [OF d]) (simp add: case_prod_beta)
  also have "\<dots> = (\<Sum>p \<in> set (gentries (live_map now m)). f (snd p))" by (simp only: same)
  also have "\<dots> = gsum (\<lambda>i a. f a) (live_map now m)"
    unfolding gsum_def
    by (subst sum_list_distinct_conv_sum_set [OF al.distinct_entries]) (simp add: case_prod_beta)
  finally show ?thesis by simp
qed

lemma admit_inner_eq:
  "admit_inner now here es (m, wrap64 x, wrap64 y, c) =
     (drop_expired now es m,
      wrap64 (x + total att_SizeBytes (live_entries now es)),
      wrap64 (y + (if here then total (\<lambda>a. if att_Draft a then att_SizeBytes a else 0) (live_entries now es) else 0)),
      c + (if here then total (\<lambda>a. if att_Draft a then 1 else 0) (live_entries now es) else 0))"
proof (induction es arbitrary: m x y c)
  case (Cons e es)
  obtain i a where e: "e = (i, a)" by (cases e)
  show ?case
    using Cons [of "if attachmentExpired a now then gdel i m else m"
        "if attachmentExpired a now then x else x + att_SizeBytes a"
        "if here \<and> att_Draft a \<and> \<not> attachmentExpired a now then y + att_SizeBytes a else y"
        "if here \<and> att_Draft a \<and> \<not> attachmentExpired a now then c + 1 else c"]
    by (auto simp: e add.assoc)
qed simp

lemma admit_inner_live:
  "admit_inner now here (gentries inner) (inner, wrap64 x, wrap64 y, c) =
     (live_map now inner, wrap64 (x + map_bytes (live_map now inner)),
      wrap64 (y + (if here then draft_bytes (live_map now inner) else 0)),
      c + (if here then draft_count (live_map now inner) else 0))"
  by (simp add: admit_inner_eq map_bytes_def draft_bytes_def draft_count_def gsum_live_map)
    (simp add: live_map_def)

text \<open>The sweep over the scopes: what the workspace loses, and what the counters hold.\<close>

fun sweep :: "time \<Rightarrow> Scope \<Rightarrow> (Scope \<times> (string, Attachment) gomap) list \<Rightarrow> attachment_maps \<Rightarrow> attachment_maps" where
  "sweep now scope [] m = m"
| "sweep now scope ((s, inner) # rest) m =
     sweep now scope rest (if same_workspace s scope then gput s (live_map now inner) m else m)"

lemma same_workspace_refl [simp]: "same_workspace s s"
  by (simp add: same_workspace_def)

lemma gget_sweep:
  "distinct (map fst es) \<Longrightarrow> gget (sweep now scope es m) s =
     (case map_of es s of Some inner \<Rightarrow> if same_workspace s scope then Some (live_map now inner) else gget m s
      | None \<Rightarrow> gget m s)"
  by (induction now scope es m rule: sweep.induct)
    (auto simp: al.get_put map_of_eq_None_iff image_iff split: option.splits)

abbreviation swept :: "time \<Rightarrow> Scope \<Rightarrow> attachment_maps \<Rightarrow> attachment_maps" where
  "swept now scope m \<equiv> sweep now scope (gentries m) m"

lemma map_of_gentries: "map_of (gentries m) k = gget m k"
  by (simp add: gentries_def gget_def map_of_clearjunk)

lemma gget_swept:
  "gget (swept now scope m) s =
     (if same_workspace s scope then map_option (live_map now) (gget m s) else gget m s)"
  by (simp add: gget_sweep al.entries_distinct map_of_gentries split: option.splits)

lemma read2_swept:
  "read2 (swept now scope m) s i = (case read2 m s i of None \<Rightarrow> None
     | Some a \<Rightarrow> if same_workspace s scope \<and> attachmentExpired a now then None else Some a)"
  by (simp add: read2_def gread_def gget_swept gget_live_map split: option.splits)

abbreviation outer_total :: "(Scope \<Rightarrow> (string, Attachment) gomap \<Rightarrow> int) \<Rightarrow>
    (Scope \<times> (string, Attachment) gomap) list \<Rightarrow> int" where
  "outer_total f es \<equiv> sum_list (map (\<lambda>(s, inner). f s inner) es)"

lemma admit_outer_eq:
  "admit_outer now scope es (m, wrap64 x, wrap64 y, c) =
     (sweep now scope es m,
      wrap64 (x + outer_total (\<lambda>s inner. if same_workspace s scope then map_bytes (live_map now inner) else 0) es),
      wrap64 (y + outer_total (\<lambda>s inner. if s = scope then draft_bytes (live_map now inner) else 0) es),
      c + outer_total (\<lambda>s inner. if s = scope then draft_count (live_map now inner) else 0) es)"
proof (induction es arbitrary: m x y c)
  case (Cons e es)
  obtain s inner where e: "e = (s, inner)" by (cases e)
  show ?case
  proof (cases "same_workspace s scope")
    case True
    then show ?thesis by (simp add: e admit_inner_live Cons add.assoc del: wrap64_add_left)
  next
    case False
    then have "s \<noteq> scope" by auto
    with False show ?thesis by (simp add: e Cons)
  qed
qed simp

lemma outer_total_gsum: "outer_total f (gentries m) = gsum f m"
  by (simp add: gsum_def)

lemma gsum_at:
  "gsum (\<lambda>s inner. if s = scope then f inner else 0) m = (case gget m scope of None \<Rightarrow> 0 | Some i \<Rightarrow> f i)"
proof (cases "gget m scope")
  case None
  then have "gsum (\<lambda>s inner. if s = scope then f inner else (0::int)) m = 0"
    unfolding gsum_dom by (intro sum.neutral) auto
  with None show ?thesis by simp
next
  case (Some i)
  have "gsum (\<lambda>s inner. if s = scope then f inner else (0::int)) (gdel scope m) = 0"
    unfolding gsum_dom by (intro sum.neutral) (auto simp: al.get_del)
  with Some show ?thesis by (simp add: gsum_gdel [OF Some])
qed

lemma workspace_bytes_swept:
  "workspace_bytes scope (swept now scope m) =
     gsum (\<lambda>s inner. if same_workspace s scope then map_bytes (live_map now inner) else 0) m"
proof -
  have d: "gdom (swept now scope m) = gdom m" by (auto simp: gget_swept)
  show ?thesis unfolding workspace_bytes_def gsum_dom d
    by (rule sum.cong) (auto simp: gget_swept)
qed

lemma admit_outer_swept:
  assumes "gget m scope = Some inner"
  shows "admit_outer now scope (gentries m) (m, 0, 0, 0) =
     (swept now scope m, wrap64 (workspace_bytes scope (swept now scope m)),
      wrap64 (draft_bytes (live_map now inner)), draft_count (live_map now inner))"
proof -
  have z: "(0::int) = wrap64 0" by (simp add: wrap64_def)
  have "admit_outer now scope (gentries m) (m, 0, 0, 0)
      = admit_outer now scope (gentries m) (m, wrap64 0, wrap64 0, 0)" using z by simp
  then show ?thesis
    by (simp add: admit_outer_eq outer_total_gsum workspace_bytes_swept gsum_at assms)
qed

lemma workspace_bytes_put2:
  assumes "gget m scope = Some inner" "gget inner i = None"
  shows "workspace_bytes scope (put2 scope i a m) = workspace_bytes scope m + att_SizeBytes a"
proof -
  have "map_bytes (gput i a inner) = att_SizeBytes a + map_bytes inner"
    by (simp add: map_bytes_def gsum_gput_new assms)
  then show ?thesis
    by (simp add: workspace_bytes_def put2_def gread_def assms gsum_replace)
qed

lemma not_Some_unit: "x \<noteq> Some () \<longleftrightarrow> x = None"
  by (cases x) auto

lemma CreateAttachment_cases:
  assumes "CreateAttachment sdk now scope attachment st = (r, st')"
  obtains (rejected) e m where "r = Err e" "st' = st\<lparr>attachments := m\<rparr>"
      "m \<in> {attachments st, ensure scope (attachments st), swept now scope (ensure scope (attachments st))}"
    | (created) p inner where
      "prepareAttachment sdk now scope attachment = Inr p" "r = Ok p"
      "gget (attachmentDeleted st) scope = None"
      "gget (ensure scope (attachments st)) scope = Some inner" "gget inner (att_ID p) = None"
      "st' = st\<lparr>attachments := put2 scope (att_ID p) p (swept now scope (ensure scope (attachments st)))\<rparr>"
      "WorkspaceMaxBytes (attachmentQuota st) > 0 \<Longrightarrow>
         wrap64 (workspace_bytes scope (swept now scope (ensure scope (attachments st))) + att_SizeBytes p)
           \<le> WorkspaceMaxBytes (attachmentQuota st)"
      "att_Draft p \<Longrightarrow> DraftProjectMaxCount (attachmentQuota st) > 0 \<Longrightarrow>
         draft_count (live_map now inner) + 1 \<le> DraftProjectMaxCount (attachmentQuota st)"
      "att_Draft p \<Longrightarrow> DraftProjectMaxBytes (attachmentQuota st) > 0 \<Longrightarrow>
         wrap64 (draft_bytes (live_map now inner) + att_SizeBytes p) \<le> DraftProjectMaxBytes (attachmentQuota st)"
proof (cases "prepareAttachment sdk now scope attachment")
  case (Inl e)
  with assms show ?thesis by (intro rejected [of e "attachments st"]) (auto simp: CreateAttachment_def)
next
  case (Inr p)
  obtain inner where i: "gget (ensure scope (attachments st)) scope = Some inner"
    by (cases "gget (attachments st) scope") (auto simp: ensure_def al.get_put)
  have ae: "admit_outer now scope (gentries (ensure scope (attachments st))) (ensure scope (attachments st), 0, 0, 0)
      = (swept now scope (ensure scope (attachments st)),
         wrap64 (workspace_bytes scope (swept now scope (ensure scope (attachments st)))),
         wrap64 (draft_bytes (live_map now inner)), draft_count (live_map now inner))"
    by (rule admit_outer_swept [OF i])
  note d = assms [unfolded CreateAttachment_def Inr Let_def]
  have old: "read2 (attachments st) scope (att_ID p) = gget inner (att_ID p)"
    using i by (metis gread_ensure gread_def option.simps(5) read2_def)
  show ?thesis
  proof (cases r)
    case (Err e)
    with d show ?thesis
      by (intro rejected [of e "attachments st'"]) (auto simp: ae split: if_splits)
  next
    case Panic
    with d show ?thesis by (auto simp: ae split: if_splits)
  next
    case (Ok q)
    with d have "q = p" by (auto simp: ae split: if_splits)
    with Ok d Inr i old show ?thesis
      by (intro created [of p inner]) (auto simp: ae read2_ensure not_less not_Some_unit split: if_splits)
  qed
qed

section \<open>The invariant\<close>

text \<open>
  A stored attachment is filed under its ID and is not empty; it is a draft exactly when it
  expires, a draft is bound to nothing, and what is bound remembers the expiry of its draft.
\<close>

definition attachment_ok :: "string \<Rightarrow> Attachment \<Rightarrow> bool" where
  "attachment_ok i a \<longleftrightarrow> att_ID a = i \<and> 0 < att_SizeBytes a
     \<and> (att_Draft a \<longleftrightarrow> att_ExpiresAt a \<noteq> None) \<and> (att_Draft a \<longrightarrow> att_BindingID a = [])
     \<and> (att_BindingID a \<noteq> [] \<longleftrightarrow> att_DraftExpiresAt a \<noteq> None)"

definition attachments_ok :: "attachment_maps \<Rightarrow> bool" where
  "attachments_ok m \<longleftrightarrow> (\<forall>s i a. read2 m s i = Some a \<longrightarrow> attachment_ok i a)"

definition attachments_inv :: "MemoryStore \<Rightarrow> bool" where
  "attachments_inv st \<longleftrightarrow> attachments_ok (attachments st)"

text \<open>What an operation that only forgets attachments does.\<close>

definition att_subset :: "attachment_maps \<Rightarrow> attachment_maps \<Rightarrow> bool" where
  "att_subset m' m \<longleftrightarrow> (\<forall>s i. read2 m' s i = None \<or> read2 m' s i = read2 m s i)"

lemma att_subset_ok: "att_subset m' m \<Longrightarrow> attachments_ok m \<Longrightarrow> attachments_ok m'"
  unfolding att_subset_def attachments_ok_def by (metis option.distinct(1))

lemma att_subset_refl [simp]: "att_subset m m"
  by (simp add: att_subset_def)

lemma att_subset_trans: "att_subset a b \<Longrightarrow> att_subset b c \<Longrightarrow> att_subset a c"
  unfolding att_subset_def by metis

lemma att_subset_forget [simp]:
  "att_subset (remove2 s i m) m" "att_subset (prune s m) m" "att_subset (gdel s m) m"
  "att_subset (ensure s m) m" "att_subset (swept now s m) m"
  by (auto simp: att_subset_def gomap_simps read2_swept split: option.splits)

lemma att_subset_ensured: "att_subset (swept now s (ensure s m)) m"
  by (rule att_subset_trans [of _ "ensure s m"]) simp_all

lemma att_subset_live: "att_subset (gput s (live_map now (gread m s)) m) m"
  by (auto simp: att_subset_def gomap_simps gget_live_map split: option.splits)
    (auto simp: read2_def)

lemma att_subset_live_entry:
  "att_subset m m0 \<Longrightarrow> gget m0 s = Some inner \<Longrightarrow> att_subset (gput s (live_map now inner) m) m0"
  by (auto simp: att_subset_def gomap_simps gget_live_map split: option.splits)
    (auto simp: read2_def gread_def)

lemma attachments_ok_put2:
  "attachments_ok m \<Longrightarrow> attachment_ok i a \<Longrightarrow> attachments_ok (put2 s i a m)"
  by (auto simp: attachments_ok_def gomap_simps split: if_splits)

lemma prepareAttachment_Inr:
  "prepareAttachment sdk now scope a = Inr p \<Longrightarrow>
     0 < att_SizeBytes p \<and> (att_Draft p \<longleftrightarrow> att_ExpiresAt p \<noteq> None)
     \<and> att_BindingID p = att_BindingID a \<and> att_DraftExpiresAt p = att_DraftExpiresAt a
     \<and> att_Draft p = att_Draft a \<and> Scope_validate scope = None"
  by (auto simp: prepareAttachment_def Let_def split: option.splits sum.splits if_splits)

lemma CreateAttachment_inv:
  assumes "CreateAttachment sdk now scope a st = (r, st')" "attachments_inv st"
    "att_BindingID a = []" "att_DraftExpiresAt a = None"
  shows "attachments_inv st' \<and> st' = st\<lparr>attachments := attachments st'\<rparr> \<and> r \<noteq> Panic"
  using assms(1)
proof (cases rule: CreateAttachment_cases)
  case (rejected e m)
  moreover have "att_subset m (attachments st)"
    using rejected(3) att_subset_ensured by auto
  ultimately show ?thesis using assms(2) by (auto simp: attachments_inv_def dest: att_subset_ok)
next
  case (created p inner)
  have "attachments_ok (swept now scope (ensure scope (attachments st)))"
    using att_subset_ensured by (rule att_subset_ok) (use assms(2) in \<open>simp add: attachments_inv_def\<close>)
  moreover have "attachment_ok (att_ID p) p"
    using prepareAttachment_Inr [OF created(1)] assms(3,4) by (auto simp: attachment_ok_def)
  ultimately show ?thesis using created by (simp add: attachments_inv_def attachments_ok_put2)
qed

text \<open>The quotas hold after an upload was admitted, unless the totals overflow.\<close>

lemma draft_bytes_le:
  assumes "\<And>i a. gget m i = Some a \<Longrightarrow> 0 < att_SizeBytes a"
  shows "0 \<le> draft_bytes m \<and> draft_bytes m \<le> map_bytes m"
proof
  have pos: "0 \<le> att_SizeBytes (the (gget m i))" if "i \<in> gdom m" for i
    using that assms less_imp_le by fastforce
  show "0 \<le> draft_bytes m"
    unfolding draft_bytes_def gsum_dom by (rule sum_nonneg) (use pos in simp)
  show "draft_bytes m \<le> map_bytes m"
    unfolding draft_bytes_def map_bytes_def gsum_dom by (rule sum_mono) (use pos in simp)
qed

lemma map_bytes_nonneg:
  assumes "attachments_ok m" "gget m s = Some inner"
  shows "0 \<le> map_bytes inner"
  unfolding map_bytes_def
proof (rule gsum_nonneg)
  fix i a
  assume "gget inner i = Some a"
  with assms(2) have "read2 m s i = Some a" by (simp add: read2_def gread_def)
  with assms(1) have "attachment_ok i a" by (auto simp: attachments_ok_def)
  then show "0 \<le> att_SizeBytes a" by (simp add: attachment_ok_def)
qed

lemma map_bytes_le_workspace:
  assumes "attachments_ok m"
  shows "map_bytes (gread m scope) \<le> workspace_bytes scope m"
proof (cases "gget m scope")
  case None
  have "0 \<le> workspace_bytes scope m"
    unfolding workspace_bytes_def using map_bytes_nonneg [OF assms] by (intro gsum_nonneg) simp
  with None show ?thesis by (simp add: gread_def map_bytes_def)
next
  case (Some inner)
  have "0 \<le> gsum (\<lambda>s inner. if same_workspace s scope then map_bytes inner else 0) (gdel scope m)"
    using map_bytes_nonneg [OF assms] by (intro gsum_nonneg) (simp add: al.get_del split: if_splits)
  with Some show ?thesis
    by (simp add: workspace_bytes_def gsum_gdel [OF Some] gread_def)
qed

lemma CreateAttachment_quota:
  assumes "CreateAttachment sdk now scope a st = (Ok p, st')" "attachments_inv st"
    "att_BindingID a = []" "att_DraftExpiresAt a = None"
    "is_int64 (workspace_bytes scope (attachments st'))"
  shows "(WorkspaceMaxBytes (attachmentQuota st) > 0 \<longrightarrow>
      workspace_bytes scope (attachments st') \<le> WorkspaceMaxBytes (attachmentQuota st))
    \<and> (att_Draft p \<longrightarrow> DraftProjectMaxCount (attachmentQuota st) > 0 \<longrightarrow>
      draft_count (gread (attachments st') scope) \<le> DraftProjectMaxCount (attachmentQuota st))
    \<and> (att_Draft p \<longrightarrow> DraftProjectMaxBytes (attachmentQuota st) > 0 \<longrightarrow>
      draft_bytes (gread (attachments st') scope) \<le> DraftProjectMaxBytes (attachmentQuota st))"
  using assms(1)
proof (cases rule: CreateAttachment_cases)
  case (created q inner)
  let ?m = "swept now scope (ensure scope (attachments st))"
  have q: "q = p" using created by simp
  have st': "attachments st' = put2 scope (att_ID p) p ?m" using created q by simp
  have sw: "gget ?m scope = Some (live_map now inner)" using created by (simp add: gget_swept)
  have new: "gget (live_map now inner) (att_ID p) = None" using created q by (simp add: gget_live_map)
  have g: "gread (attachments st') scope = gput (att_ID p) p (live_map now inner)"
    using sw by (simp add: st' put2_def gread_def al.get_put)
  have w: "workspace_bytes scope (attachments st') = workspace_bytes scope ?m + att_SizeBytes p"
    unfolding st' by (rule workspace_bytes_put2 [OF sw new])
  have ok: "attachments_ok (attachments st')"
    using CreateAttachment_inv [OF assms(1-4)] by (simp add: attachments_inv_def)
  have "0 \<le> draft_bytes (gread (attachments st') scope)
      \<and> draft_bytes (gread (attachments st') scope) \<le> map_bytes (gread (attachments st') scope)"
    using ok by (intro draft_bytes_le) (force simp: attachments_ok_def attachment_ok_def read2_def)
  with map_bytes_le_workspace [OF ok, of scope] assms(5)
  have di: "is_int64 (draft_bytes (gread (attachments st') scope))"
    by (auto simp: is_int64_def)
  show ?thesis
    using created(7-9) w di assms(5)
    by (auto simp: g q draft_bytes_def draft_count_def gsum_gput_new [OF new] wrap64_id add.commute)
qed simp

section \<open>Operations that forget\<close>

text \<open>\<open>att_step P st st'\<close>: the operation wrote the attachments only, and kept \<open>P\<close> of them.\<close>

definition forgets :: "MemoryStore \<Rightarrow> MemoryStore \<Rightarrow> bool" where
  "forgets st st' \<longleftrightarrow> st' = st\<lparr>attachments := attachments st', attachmentDeleted := attachmentDeleted st'\<rparr>
     \<and> att_subset (attachments st') (attachments st)"

lemma forgets_inv: "forgets st st' \<Longrightarrow> attachments_inv st \<Longrightarrow> attachments_inv st'"
  unfolding forgets_def attachments_inv_def by (blast intro: att_subset_ok)

lemma forgets_refl [simp]: "forgets st st"
  by (simp add: forgets_def)

lemma GetAttachment_forgets:
  "GetAttachment now scope i st = (r, st') \<Longrightarrow> forgets st st' \<and> r \<noteq> Panic"
  by (auto simp: GetAttachment_def forgets_def Let_def split: option.splits if_splits)

lemma ListAttachments_forgets:
  "ListAttachments now scope st = (r, st') \<Longrightarrow> forgets st st' \<and> r \<noteq> Panic"
  unfolding ListAttachments_def Let_def live_map_def [symmetric]
  by (auto simp: forgets_def split: option.splits if_splits
      intro: att_subset_trans [OF att_subset_forget(2) att_subset_live])

lemma DeleteAttachment_forgets:
  "DeleteAttachment scope i actor st = (r, st') \<Longrightarrow> forgets st st' \<and> r \<noteq> Panic"
  by (auto simp: DeleteAttachment_def forgets_def Let_def split: option.splits if_splits
      intro: att_subset_trans [OF att_subset_forget(2) att_subset_forget(1)])

lemma DeleteProjectAttachments_forgets:
  "DeleteProjectAttachments scope st = (r, st') \<Longrightarrow> forgets st st' \<and> r \<noteq> Panic"
  by (auto simp: DeleteProjectAttachments_def forgets_def split: option.splits)

lemma delete_expired_loop_subset:
  "\<forall>(s, inner) \<in> set es. gget m0 s = Some inner \<Longrightarrow> att_subset m m0
    \<Longrightarrow> att_subset (snd (delete_expired_loop before es m d)) m0"
proof (induction before es m d rule: delete_expired_loop.induct)
  case (2 before s inner rest m d)
  let ?m = "gput s (live_map before inner) m"
  have "att_subset ?m m0" using 2(2,3) by (auto intro: att_subset_live_entry)
  then have "att_subset (prune s ?m) m0" by (rule att_subset_trans [OF att_subset_forget(2)])
  moreover have "\<forall>(s, inner) \<in> set rest. gget m0 s = Some inner" using 2(2) by simp
  ultimately show ?case using 2(1) by (simp add: Let_def live_map_def)
qed simp

lemma DeleteExpiredAttachments_forgets:
  "DeleteExpiredAttachments before st = (r, st') \<Longrightarrow> forgets st st' \<and> r \<noteq> Panic"
  using delete_expired_loop_subset [of "gentries (attachments st)" "attachments st" "attachments st" before 0,
      unfolded al.entry_all]
  by (auto simp: DeleteExpiredAttachments_def forgets_def split: prod.splits)

lemma VerifyAttachmentReceipt_forgets:
  "VerifyAttachmentReceipt sdk now scope receipt actor st = (r, st') \<Longrightarrow> forgets st st' \<and> r \<noteq> Panic"
  using GetAttachment_forgets [of now scope "rcpt_ID receipt" st]
  by (auto simp: VerifyAttachmentReceipt_def Let_def split: if_splits prod.splits res.splits option.splits)

section \<open>Binding is all or nothing\<close>

abbreviation receipt_ids :: "AttachmentReceipt list \<Rightarrow> string list" where
  "receipt_ids receipts \<equiv> map (\<lambda>r. TrimSpace (rcpt_ID r)) receipts"

lemma bind_check_Inr:
  "bind_check sdk now scope actor b seen receipts m = Inr result \<Longrightarrow>
     map (read2 m scope) (receipt_ids receipts) = map Some result
     \<and> distinct (receipt_ids receipts) \<and> set (receipt_ids receipts) \<inter> seen = {}
     \<and> (\<forall>a \<in> set result. att_ActorID a = actor \<and> \<not> attachmentExpired a now
          \<and> (att_Draft a \<or> att_BindingID a \<in> {[], b}))"
proof (induction sdk now scope actor b seen receipts m arbitrary: result rule: bind_check.induct)
  case (2 sdk now scope actor b seen receipt rest m)
  from 2(2) obtain a result' where
    a: "TrimSpace (rcpt_ID receipt) \<notin> seen" "read2 m scope (TrimSpace (rcpt_ID receipt)) = Some a"
      "\<not> attachmentExpired a now" "validateAttachmentReceipt sdk a receipt actor = None"
      "att_Draft a \<or> att_BindingID a \<in> {[], b}" "result = a # result'"
      "bind_check sdk now scope actor b (insert (TrimSpace (rcpt_ID receipt)) seen) rest m = Inr result'"
    by (auto simp: Let_def split: if_splits option.splits sum.splits)
  have "att_ActorID a = actor"
    using a(4) by (auto simp: validateAttachmentReceipt_def split: if_splits)
  with 2(1) [OF refl a(1) a(2) a(3) a(4) _ a(7)] a show ?case by auto
qed simp

lemma bind_check_Inl:
  "bind_check sdk now scope actor b seen receipts m = Inl (e, m') \<Longrightarrow>
     m' = m \<or> (\<exists>i a. read2 m scope i = Some a \<and> attachmentExpired a now
       \<and> m' = remove2 scope (att_ID a) m)"
proof (induction sdk now scope actor b seen receipts m rule: bind_check.induct)
  case (2 sdk now scope actor b seen receipt rest m)
  then show ?case by (auto simp: Let_def split: if_splits option.splits sum.splits)
qed simp

abbreviation bound :: "string \<Rightarrow> Attachment \<Rightarrow> Attachment" where
  "bound b a \<equiv> if att_Draft a then bind_one b a else a"

lemma bind_commit_eq:
  "distinct (map att_ID result) \<Longrightarrow>
   (\<forall>s i. read2 (fst (bind_commit scope b result m)) s i =
      (if s = scope \<and> (\<exists>a \<in> set result. att_ID a = i \<and> att_Draft a)
       then map_option (bind_one b) (find (\<lambda>a. att_ID a = i) result) else read2 m s i))
   \<and> snd (bind_commit scope b result m) = map (bound b) result"
proof (induction scope b result m rule: bind_commit.induct)
  case (2 scope b a rest m)
  have [simp]: "att_ID (bind_one b a) = att_ID a" by (simp add: bind_one_def)
  have "\<forall>x \<in> set rest. att_ID x \<noteq> att_ID a" using 2(3) by (auto simp: image_iff)
  with 2 show ?case
    by (auto simp: Let_def gomap_simps split: prod.splits)
qed simp

lemma find_att_ID:
  "a \<in> set result \<Longrightarrow> distinct (map att_ID result) \<Longrightarrow> find (\<lambda>x. att_ID x = att_ID a) result = Some a"
  by (induction result) auto

text \<open>
  On success every listed attachment is held, none of them is a draft any more, and nothing else
  changed; on an error at most a draft that had expired is gone.
\<close>

lemma BindAttachments_cases:
  assumes "BindAttachments sdk now scope receipts actor b st = (r, st')" "attachments_inv st"
  obtains (rejected) e m where "r = Err e" "st' = st\<lparr>attachments := m\<rparr>"
      "\<And>s i. read2 m s i = read2 (attachments st) s i
        \<or> read2 m s i = None \<and> (\<exists>a. read2 (attachments st) s i = Some a \<and> attachmentExpired a now)"
    | (bound) result m where "r = Ok (map (bound (TrimSpace b)) result)" "st' = st\<lparr>attachments := m\<rparr>"
      "TrimSpace b \<noteq> []" "map (read2 (attachments st) scope) (receipt_ids receipts) = map Some result"
      "distinct (receipt_ids receipts)"
      "\<And>s i. read2 m s i = (if s = scope \<and> i \<in> set (receipt_ids receipts)
         then map_option (bound (TrimSpace b)) (read2 (attachments st) s i) else read2 (attachments st) s i)"
      "\<And>a. a \<in> set result \<Longrightarrow> att_ActorID a = TrimSpace actor \<and> \<not> attachmentExpired a now
          \<and> (att_Draft a \<or> att_BindingID a \<in> {[], TrimSpace b})"
proof (cases "Scope_validate scope = None \<and> TrimSpace actor \<noteq> [] \<and> TrimSpace b \<noteq> [] \<and> receipts \<noteq> []")
  case False
  with assms(1) have "\<exists>e. r = Err e" "st' = st"
    by (auto simp: BindAttachments_def Let_def split: option.splits if_splits)
  then show ?thesis using rejected [of _ "attachments st"] by auto
next
  case ok: True
  have keyed: "att_ID a = i" if "read2 (attachments st) s i = Some a" for s i a
    using that assms(2) by (auto simp: attachments_inv_def attachments_ok_def attachment_ok_def)
  show ?thesis
  proof (cases "bind_check sdk now scope (TrimSpace actor) (TrimSpace b) {} receipts (attachments st)")
    case (Inl em)
    obtain e m where em: "em = (e, m)" by (cases em)
    with assms(1) ok Inl have st': "r = Err e" "st' = st\<lparr>attachments := m\<rparr>"
      by (auto simp: BindAttachments_def)
    have "read2 m s i = read2 (attachments st) s i
        \<or> read2 m s i = None \<and> (\<exists>a. read2 (attachments st) s i = Some a \<and> attachmentExpired a now)" for s i
      using bind_check_Inl [OF Inl [unfolded em]] keyed by (auto simp: gomap_simps split: if_splits)
    with st' show ?thesis by (rule rejected)
  next
    case (Inr result)
    note c = bind_check_Inr [OF Inr]
    have ids: "receipt_ids receipts = map att_ID result"
    proof (rule nth_equalityI)
      show l: "length (receipt_ids receipts) = length (map att_ID result)"
        using c by (metis length_map)
      fix k
      assume k: "k < length (receipt_ids receipts)"
      have "map (read2 (attachments st) scope) (receipt_ids receipts) ! k = map Some result ! k"
        using c by simp
      with k l have "read2 (attachments st) scope (receipt_ids receipts ! k) = Some (result ! k)"
        by simp
      from keyed [OF this] k l show "receipt_ids receipts ! k = map att_ID result ! k" by simp
    qed
    have d: "distinct (map att_ID result)" using c ids by simp
    have held: "read2 (attachments st) scope (att_ID a) = Some a" if "a \<in> set result" for a
    proof -
      have "Some a \<in> set (map (read2 (attachments st) scope) (receipt_ids receipts))"
        using c that by simp
      with keyed show ?thesis by auto
    qed
    let ?c = "bind_commit scope (TrimSpace b) result (attachments st)"
    note bc = bind_commit_eq [OF d, of scope "TrimSpace b" "attachments st"]
    have "read2 (fst ?c) s i = (if s = scope \<and> i \<in> set (receipt_ids receipts)
        then map_option (bound (TrimSpace b)) (read2 (attachments st) s i) else read2 (attachments st) s i)" for s i
    proof (cases "s = scope \<and> (\<exists>a \<in> set result. att_ID a = i)")
      case True
      then obtain a where "s = scope" "a \<in> set result" "i = att_ID a" by blast
      with bc d held ids show ?thesis by (auto simp: find_att_ID) (metis option.sel held)
    next
      case False
      with bc ids show ?thesis by auto
    qed
    moreover have "r = Ok (snd ?c)" "st' = st\<lparr>attachments := fst ?c\<rparr>"
      using assms(1) ok Inr by (auto simp: BindAttachments_def split: prod.splits)
    ultimately show ?thesis using c ok bc by (intro bound [of result "fst ?c"]) auto
  qed
qed

lemma attachment_ok_bind: "attachment_ok i a \<Longrightarrow> b \<noteq> [] \<Longrightarrow> attachment_ok i (bound b a)"
  by (auto simp: attachment_ok_def bind_one_def)

lemma BindAttachments_inv:
  assumes "BindAttachments sdk now scope receipts actor b st = (r, st')" "attachments_inv st"
  shows "attachments_inv st' \<and> st' = st\<lparr>attachments := attachments st'\<rparr> \<and> r \<noteq> Panic"
  using assms
proof (cases rule: BindAttachments_cases)
  case (rejected e m)
  then have "att_subset m (attachments st)" by (auto simp: att_subset_def)
  with rejected assms(2) show ?thesis by (auto simp: attachments_inv_def dest: att_subset_ok)
next
  case (bound result m)
  have "attachments_ok m"
    unfolding attachments_ok_def
  proof (intro allI impI)
    fix s i a
    assume "read2 m s i = Some a"
    then obtain a' where a': "read2 (attachments st) s i = Some a'"
      "a = a' \<or> a = (bound (TrimSpace b)) a'"
      unfolding bound(6) [of s i] by (cases "read2 (attachments st) s i") (auto split: if_splits)
    with assms(2) have "attachment_ok i a'" by (auto simp: attachments_inv_def attachments_ok_def)
    with a'(2) attachment_ok_bind [OF this bound(3)] show "attachment_ok i a" by auto
  qed
  with bound show ?thesis by (simp add: attachments_inv_def)
qed

section \<open>Rolling a binding back\<close>

lemma read2_rollback_loop:
  "distinct (map fst es) \<Longrightarrow> read2 (rollback_loop scope b es m) s i =
     (case map_of es i of
        Some a \<Rightarrow> if s = scope \<and> att_BindingID a = b then Some (rollback_one a) else read2 m s i
      | None \<Rightarrow> read2 m s i)"
  by (induction scope b es m rule: rollback_loop.induct)
    (auto simp: gomap_simps map_of_eq_None_iff image_iff split: option.splits)

lemma RollbackAttachmentBinding_read2:
  assumes "RollbackAttachmentBinding scope b st = (Ok (), st')"
  shows "read2 (attachments st') s i = (case read2 (attachments st) s i of None \<Rightarrow> None
    | Some a \<Rightarrow> if s = scope \<and> att_BindingID a = TrimSpace b then Some (rollback_one a) else Some a)"
  using assms
  by (auto simp: RollbackAttachmentBinding_def Let_def read2_rollback_loop al.entries_distinct
      map_of_gentries read2_def [symmetric] split: option.splits if_splits)

lemma RollbackAttachmentBinding_inv:
  assumes "RollbackAttachmentBinding scope b st = (r, st')" "attachments_inv st"
  shows "attachments_inv st' \<and> st' = st\<lparr>attachments := attachments st'\<rparr> \<and> r \<noteq> Panic"
proof (cases "r = Ok ()")
  case True
  note read = RollbackAttachmentBinding_read2 [OF assms(1) [unfolded True]]
  have b: "TrimSpace b \<noteq> []" "st' = st\<lparr>attachments := attachments st'\<rparr>"
    using assms(1) True by (auto simp: RollbackAttachmentBinding_def Let_def split: option.splits if_splits)
  have "attachment_ok i (rollback_one a)" if "attachment_ok i a" "att_BindingID a = TrimSpace b" for i a
    using that b by (auto simp: attachment_ok_def rollback_one_def)
  then have "attachments_ok (attachments st')"
    using assms(2) by (auto simp: attachments_ok_def attachments_inv_def read split: option.splits if_splits)
  with b True show ?thesis by (simp add: attachments_inv_def)
next
  case False
  with assms show ?thesis
    by (auto simp: RollbackAttachmentBinding_def Let_def split: option.splits if_splits)
qed

text \<open>Rolling back a binding restores every attachment as it was before.\<close>

lemma bind_rollback:
  assumes "BindAttachments sdk now scope receipts actor b st = (Ok result, st1)"
    "RollbackAttachmentBinding scope b st1 = (r, st2)"
    "attachments_inv st" "\<And>i a. read2 (attachments st) scope i = Some a \<Longrightarrow> att_BindingID a \<noteq> TrimSpace b"
  shows "r = Ok () \<and> read2 (attachments st2) s i = read2 (attachments st) s i"
  using assms(1,3)
proof (cases rule: BindAttachments_cases)
  case (bound result' m)
  have "r = Ok ()"
    using assms(1,2) bound(3)
    by (auto simp: RollbackAttachmentBinding_def BindAttachments_def Let_def split: option.splits if_splits)
  with assms(2) have "RollbackAttachmentBinding scope b st1 = (Ok (), st2)" by simp
  note undo = RollbackAttachmentBinding_read2 [OF this, of s i]
  show ?thesis
  proof (cases "read2 (attachments st) s i")
    case None
    with bound(2) bound(6) [of s i] undo \<open>r = Ok ()\<close> show ?thesis by (auto split: if_splits)
  next
    case (Some a)
    with assms(3) have ok: "attachment_ok i a" by (auto simp: attachments_inv_def attachments_ok_def)
    show ?thesis
    proof (cases "s = scope \<and> i \<in> set (receipt_ids receipts) \<and> att_Draft a")
      case True
      with bound(2) bound(6) [of s i] Some have "read2 (attachments st1) s i = Some (bind_one (TrimSpace b) a)" by simp
      moreover have "rollback_one (bind_one (TrimSpace b) a) = a"
        using ok True by (cases a) (auto simp: attachment_ok_def rollback_one_def bind_one_def)
      ultimately show ?thesis using True undo Some \<open>r = Ok ()\<close> by (simp add: bind_one_def)
    next
      case False
      with bound(2) bound(6) [of s i] Some have "read2 (attachments st1) s i = Some a" by auto
      with undo Some assms(4) [of i a] \<open>r = Ok ()\<close> show ?thesis by auto
    qed
  qed
qed simp

section \<open>Repair of bindings\<close>

definition reconciled :: "attachment_sdk \<Rightarrow> time \<Rightarrow> (string, (string, AssistantTurn) gomap) gomap
    \<Rightarrow> Attachment \<Rightarrow> Attachment option" where
  "reconciled sdk now turns a =
     (if att_Draft a \<or> binding_owned turns (att_BindingID a) then Some a
      else if \<not> (case att_ExpiresAt (demote sdk a) of None \<Rightarrow> False | Some t \<Rightarrow> t > now) then None
      else Some (demote sdk a))"

lemma gget_reconcile_inner:
  "distinct (map fst es) \<Longrightarrow> (\<And>i a. (i, a) \<in> set es \<Longrightarrow> gget m i = Some a) \<Longrightarrow>
     gget (reconcile_inner sdk now turns es m) i =
       (case map_of es i of Some a \<Rightarrow> reconciled sdk now turns a | None \<Rightarrow> gget m i)"
proof (induction sdk now turns es m rule: reconcile_inner.induct)
  case (2 sdk now turns j a rest m)
  let ?m = "if att_Draft a then m else if binding_owned turns (att_BindingID a) then m
    else if \<not> (case att_ExpiresAt (demote sdk a) of None \<Rightarrow> False | Some t \<Rightarrow> t > now) then gdel j m
    else gput j (demote sdk a) m"
  have j: "map_of rest j = None" using 2(2) by (simp add: map_of_eq_None_iff)
  have other: "gget ?m i = gget m i" if "i \<noteq> j" for i using that by (simp add: al.get_put al.get_del)
  have "gget ?m i = Some x" if "(i, x) \<in> set rest" for i x
    using that 2(2,3) other [of i] by force
  moreover have "gget ?m j = reconciled sdk now turns a"
    using 2(3) [of j a] by (auto simp: reconciled_def al.get_put al.get_del split: option.splits)
  ultimately show ?case
    using 2(1) 2(2) j other [of i] by (auto split: option.splits)
qed simp

lemma gget_reconcile_outer:
  "distinct (map fst es) \<Longrightarrow> read2 (reconcile_outer sdk now st es m) s i =
     (case map_of es s of
        Some inner \<Rightarrow> gget (reconcile_inner sdk now (gread (assistantTurns st) s) (gentries inner) inner) i
      | None \<Rightarrow> read2 m s i)"
  by (induction sdk now st es m rule: reconcile_outer.induct)
    (auto simp: gomap_simps map_of_eq_None_iff image_iff split: option.splits)

lemma ReconcileAttachmentBindings_read2:
  assumes "ReconcileAttachmentBindings sdk now st = (r, st')"
  shows "read2 (attachments st') s i = (case read2 (attachments st) s i of None \<Rightarrow> None
    | Some a \<Rightarrow> reconciled sdk now (gread (assistantTurns st) s) a)"
proof -
  have "gget (reconcile_inner sdk now turns (gentries inner) inner) i
      = (case gget inner i of Some a \<Rightarrow> reconciled sdk now turns a | None \<Rightarrow> None)" for turns inner
    by (subst gget_reconcile_inner)
      (auto simp: al.entries_distinct al.entries_get map_of_gentries split: option.splits)
  moreover have "attachments st' = reconcile_outer sdk now st (gentries (attachments st)) (attachments st)"
    using assms by (auto simp: ReconcileAttachmentBindings_def)
  ultimately show ?thesis
    by (simp add: gget_reconcile_outer al.entries_distinct map_of_gentries)
      (simp add: read2_def gread_def split: option.splits)
qed

lemma ReconcileAttachmentBindings_inv:
  assumes "ReconcileAttachmentBindings sdk now st = (r, st')" "attachments_inv st"
  shows "attachments_inv st' \<and> st' = st\<lparr>attachments := attachments st'\<rparr> \<and> r \<noteq> Panic"
proof -
  have "attachment_ok i b" if "attachment_ok i a" "reconciled sdk now t a = Some b" for i a b t
    using that by (auto simp: reconciled_def attachment_ok_def demote_def split: if_splits)
  then have "attachments_ok (attachments st')"
    using assms(2) unfolding attachments_ok_def attachments_inv_def
      ReconcileAttachmentBindings_read2 [OF assms(1)] by (fastforce split: option.splits)
  with assms(1) show ?thesis
    by (auto simp: attachments_inv_def ReconcileAttachmentBindings_def)
qed

lemma binding_owned_iff:
  "binding_owned (gread turns s) b \<longleftrightarrow> (\<exists>t i turn. read3 turns s t i = Some turn \<and> turn_ID turn = b)"
proof -
  have "read3 turns s t i = (case gget (gread turns s) t of None \<Rightarrow> None | Some m \<Rightarrow> gget m i)" for t i
    by (simp add: read3_def slice2_def read2_def split: option.splits)
  then have "read3 turns s t i = Some turn \<longleftrightarrow> (\<exists>m. gget (gread turns s) t = Some m \<and> gget m i = Some turn)"
    for t i turn by (simp split: option.splits)
  then show ?thesis unfolding binding_owned_def list_ex_iff Bex_def gvalues_iff by metis
qed

lemma reconcile_owned:
  assumes "ReconcileAttachmentBindings sdk now st = (r, st')"
    "read2 (attachments st') s i = Some a" "\<not> att_Draft a"
  shows "\<exists>t j turn. read3 (assistantTurns st) s t j = Some turn \<and> turn_ID turn = att_BindingID a"
  using assms(2,3) unfolding ReconcileAttachmentBindings_read2 [OF assms(1)] binding_owned_iff [symmetric]
  by (auto simp: reconciled_def demote_def split: option.splits if_splits)

section \<open>Quota values\<close>

definition plain_char :: "char \<Rightarrow> bool" where
  "plain_char c \<longleftrightarrow> 33 \<le> byte c \<and> byte c \<le> 126"

lemma space_heads:
  "take n s \<in> set space1 \<union> set space2 \<union> set space3 \<Longrightarrow> \<exists>c s'. s = c # s' \<and> \<not> plain_char c"
  by (cases s; cases n) (auto simp: space1_def space2_def space3_def plain_char_def byte_def)

lemma space_last:
  "rev (take n (rev s)) \<in> set space1 \<union> set space2 \<union> set space3 \<Longrightarrow> \<exists>c s'. s = s' @ [c] \<and> \<not> plain_char c"
  by (cases s rule: rev_cases; cases n)
    (auto simp: space1_def space2_def space3_def plain_char_def byte_def append_eq_Cons_conv)

lemma plain_no_space:
  assumes "list_all plain_char s"
  shows "take n s \<notin> set space1 \<union> set space2 \<union> set space3"
    and "rev (take n (rev s)) \<notin> set space1 \<union> set space2 \<union> set space3"
  using assms space_heads [of n s] space_last [of n s] by fastforce+

lemma TrimSpace_plain:
  assumes "list_all plain_char s"
  shows "TrimSpace s = s"
proof -
  have "space_prefix s = 0"
    using plain_no_space(1) [OF assms] by (simp add: space_prefix_def space_width_def)
  moreover have "space_suffix s = 0"
    using plain_no_space(2) [OF assms] by (simp add: space_suffix_def space_width_def)
  ultimately show ?thesis
    by (simp add: TrimSpace_def trim_left.simps trim_right.simps)
qed

lemma byte_digit: "n < 10 \<Longrightarrow> byte (digit n) = 48 + n"
  by (simp add: byte_def digit_def of_char_of)

lemma is_digit_digit: "n < 10 \<Longrightarrow> is_digit (digit n)"
  by (simp add: is_digit_def byte_digit)

lemma itoa_digits: "list_all is_digit (itoa n)"
proof (induction n rule: itoa.induct)
  case (1 n)
  then show ?case by (subst itoa.simps) (simp add: is_digit_digit)
qed

lemma digits_value_itoa: "digits_value (itoa n) = int n"
proof (induction n rule: itoa.induct)
  case (1 n)
  have "int (n div 10) * 10 + int (n mod 10) = int n" by presburger
  with 1 show ?case by (subst itoa.simps) (simp add: digits_value_def byte_digit)
qed

lemma digit_char: "is_digit c \<Longrightarrow> plain_char c \<and> lower_byte c = c \<and> c \<notin> {CHR ''-'', CHR ''+''}
    \<and> c \<notin> {CHR 0xC5, CHR 0xE2} \<and> c \<notin> {CHR ''k'', CHR ''m'', CHR ''g'', CHR ''t'', CHR ''i''}"
  by (auto simp: is_digit_def plain_char_def byte_def lower_byte_def)

lemma fold_digits: "list_all is_digit s \<Longrightarrow> fold_ascii s = s"
  by (induction s rule: fold_ascii.induct) (auto dest: digit_char)

lemma ParseInt_itoa: "int n \<le> max_int64 \<Longrightarrow> ParseInt (itoa n) = Some (int n)"
proof -
  assume n: "int n \<le> max_int64"
  obtain c cs where c: "itoa n = c # cs" by (cases "itoa n") auto
  moreover from this have "c \<notin> {CHR ''-'', CHR ''+''}"
    using itoa_digits [of n] digit_char [of c] by simp
  ultimately have "(case itoa n of [] \<Rightarrow> (False, []) | c # cs \<Rightarrow> if c = CHR ''-'' then (True, cs)
      else if c = CHR ''+'' then (False, cs) else (False, itoa n)) = (False, itoa n)" by simp
  moreover have "is_int64 (int n)" using n by (simp add: is_int64_def)
  ultimately show ?thesis by (simp add: ParseInt_def digits_value_itoa itoa_digits)
qed

lemma find_member: "find P xs = Some x \<Longrightarrow> x \<in> set xs"
  by (induction xs) (auto split: if_splits)

lemma ParseAttachmentQuotaBytes_range:
  assumes "ParseAttachmentQuotaBytes raw = Inr n"
  shows "0 \<le> n \<and> n \<le> max_int64"
proof -
  let ?parse = "\<lambda>part f. (case ParseInt part of
      None \<Rightarrow> Inl (ErrInvalid ''attachment quota must be a non-negative byte count or IEC value'')
    | Some v \<Rightarrow> if v < 0 then Inl (ErrInvalid ''attachment quota must be a non-negative byte count or IEC value'')
        else if v > max_int64 div f then Inl (ErrInvalid ''attachment quota is too large'')
        else Inr (wrap64 (v * f)))"
  have bound: "0 \<le> n \<and> n \<le> max_int64"
    if "?parse part f = Inr n" and f: "f \<in> {1, 2 ^ 10, 2 ^ 20, 2 ^ 30, 2 ^ 40}" for part f
  proof -
    from that(1) obtain v where "ParseInt part = Some v" by (cases "ParseInt part") auto
    with that(1) have v: "0 \<le> v" "v \<le> max_int64 div f" "n = wrap64 (v * f)"
      by (auto split: if_splits)
    have "v * f \<le> max_int64 div f * f" using v f by (intro mult_right_mono) auto
    also have "\<dots> \<le> max_int64" using f by (auto simp: max_int64_def)
    finally have "v * f \<le> max_int64" .
    moreover have "0 \<le> v * f" using v f by auto
    ultimately show ?thesis using v by (simp add: wrap64_id is_int64_def)
  qed
  let ?raw = "TrimSpace raw"
  let ?match = "\<lambda>(suffix, factor). length suffix < length ?raw
      \<and> EqualFold (drop (length ?raw - length suffix) ?raw) suffix"
  show ?thesis
  proof (cases "find ?match quota_suffixes")
    case None
    with assms have "?parse ?raw 1 = Inr n"
      by (simp add: ParseAttachmentQuotaBytes_def Let_def split: if_splits)
    then show ?thesis by (rule bound) simp
  next
    case (Some sf)
    obtain suf f where sf: "sf = (suf, f)" by (cases sf)
    then have "(suf, f) \<in> set quota_suffixes" using find_member [OF Some] by simp
    then have f: "f \<in> {1, 2 ^ 10, 2 ^ 20, 2 ^ 30, 2 ^ 40}" by (auto simp: quota_suffixes_def)
    from Some sf assms have "?parse (TrimSpace (take (length ?raw - length suf) ?raw)) f = Inr n"
      by (simp add: ParseAttachmentQuotaBytes_def Let_def split: if_splits)
    then show ?thesis using f by (rule bound)
  qed
qed

lemma ParseAttachmentQuotaBytes_plain:
  assumes "int n \<le> max_int64"
  shows "ParseAttachmentQuotaBytes (itoa n) = Inr (int n)"
proof -
  have p: "list_all plain_char (itoa n)"
    using itoa_digits [of n] digit_char by (auto simp: list_all_iff)
  have fd: "fold_ascii (drop k (itoa n)) = drop k (itoa n)" for k
    by (rule fold_digits) (use itoa_digits [of n] in \<open>auto simp: list_all_iff dest: in_set_dropD\<close>)
  have "CHR ''i'' \<notin> set (drop k (itoa n))" for k
    using itoa_digits [of n] digit_char in_set_dropD [of "CHR ''i''" k "itoa n"]
    by (auto simp: list_all_iff)
  then have "drop k (itoa n) \<noteq> a # ''i''" for a k by (metis list.set_intros)
  with fd have "find (\<lambda>(suffix, factor). length suffix < length (itoa n)
      \<and> EqualFold (drop (length (itoa n) - length suffix) (itoa n)) suffix) quota_suffixes = None"
    by (simp add: quota_suffixes_def EqualFold_def lower_byte_def)
  then show ?thesis
    using assms by (simp add: ParseAttachmentQuotaBytes_def TrimSpace_plain [OF p] ParseInt_itoa
        wrap64_id is_int64_def)
qed

lemma ParseAttachmentQuotaBytes_suffix:
  assumes "(suffix, factor) \<in> set quota_suffixes" "int n * factor \<le> max_int64"
  shows "ParseAttachmentQuotaBytes (itoa n @ suffix) = Inr (int n * factor)"
proof -
  have p: "list_all plain_char (itoa n)"
    using itoa_digits [of n] digit_char by (auto simp: list_all_iff)
  have "list_all plain_char suffix"
    using assms(1) by (auto simp: quota_suffixes_def plain_char_def byte_def)
  with p have t: "TrimSpace (itoa n @ suffix) = itoa n @ suffix"
    by (intro TrimSpace_plain) simp
  have l: "length suffix = 2" using assms(1) by (auto simp: quota_suffixes_def)
  have "find (\<lambda>(suf, f). length suf < length (itoa n @ suffix)
      \<and> EqualFold (drop (length (itoa n @ suffix) - length suf) (itoa n @ suffix)) suf) quota_suffixes
      = Some (suffix, factor)"
    using assms(1) by (auto simp: quota_suffixes_def EqualFold_def lower_byte_def)
  moreover have "int n \<le> max_int64 div factor"
    using assms by (auto simp: quota_suffixes_def max_int64_def)
  moreover have "int n \<le> max_int64"
    using assms by (auto simp: quota_suffixes_def max_int64_def)
  moreover have "0 \<le> int n * factor" using assms(1) by (auto simp: quota_suffixes_def)
  ultimately show ?thesis
    using assms l by (simp add: ParseAttachmentQuotaBytes_def t TrimSpace_plain [OF p] ParseInt_itoa
        wrap64_id is_int64_def)
qed

text \<open>At most one suffix matches, so the order in which Go visits the map does not matter.\<close>

lemma quota_suffix_unique:
  assumes "(s, f) \<in> set quota_suffixes" "(s', f') \<in> set quota_suffixes"
    "EqualFold (drop (length raw - length s) raw) s" "EqualFold (drop (length raw - length s') raw) s'"
  shows "s = s' \<and> f = f'"
  using assms by (auto simp: quota_suffixes_def EqualFold_def lower_byte_def)


section \<open>Idempotent upload\<close>

text \<open>
  What the code relies on in the SDK: normalising a normalised content type changes nothing, and
  metadata that agree match, whatever the creation time of the candidate.
\<close>

definition sdk_ok :: "attachment_sdk \<Rightarrow> bool" where
  "sdk_ok sdk \<longleftrightarrow>
     (\<forall>c c'. NormalizeAttachmentContentType sdk c = Inr c' \<longrightarrow>
        NormalizeAttachmentContentType sdk (ToLower (TrimSpace c')) = Inr c')
     \<and> (\<forall>r t. rcpt_CreatedAt r = 0 \<longrightarrow> UploadMetadataMatches sdk r (r\<lparr>rcpt_CreatedAt := t\<rparr>))
     \<and> (\<forall>r r' t. rcpt_CreatedAt r = 0 \<longrightarrow> UploadMetadataMatches sdk r r' \<longrightarrow>
          UploadMetadataMatches sdk r (r'\<lparr>rcpt_CreatedAt := t\<rparr>))"

lemma ToLower_no_upper: "c \<in> set (ToLower s) \<Longrightarrow> \<not> (65 \<le> byte c \<and> byte c \<le> 90)"
  by (induction s rule: ToLower.induct) (auto simp: byte_def lower_byte_def of_char_of split: if_splits)

lemma ToLower_hex:
  assumes "hex_valid h" "h = ToLower s"
  shows "ToLower (TrimSpace h) = h"
proof -
  have c: "is_digit c \<or> 97 \<le> byte c \<and> byte c \<le> 102" if "c \<in> set h" for c
    using that assms ToLower_no_upper [of c s] by (auto simp: hex_valid_def list_all_iff)
  have "TrimSpace h = h"
    by (rule TrimSpace_plain) (use c in \<open>force simp: list_all_iff plain_char_def is_digit_def\<close>)
  moreover have "lower_byte x = x \<and> x \<noteq> CHR 0xC4 \<and> x \<noteq> CHR 0xE2" if "x \<in> set h" for x
    using c [OF that] by (auto simp: is_digit_def byte_def lower_byte_def)
  then have "ToLower h = h" by (induction h rule: ToLower.induct) auto
  ultimately show ?thesis by simp
qed

text \<open>Preparing again, or at another time, changes at most the creation time.\<close>

abbreviation created_at :: "Attachment \<Rightarrow> time \<Rightarrow> Attachment" where
  "created_at a t \<equiv> a\<lparr>att_CreatedAt := t\<rparr>"

definition prepared :: "string \<Rightarrow> time \<Rightarrow> Scope \<Rightarrow> Attachment \<Rightarrow> Attachment" where
  "prepared ct now scope a = a\<lparr>att_ID := TrimSpace (att_ID a), att_ActorID := TrimSpace (att_ActorID a),
     att_Filename := TrimSpace (att_Filename a), att_SHA256 := ToLower (TrimSpace (att_SHA256 a)),
     att_ContentType := ct, att_CreatedAt := truncate_microsecond (time_or (att_CreatedAt a) now),
     att_ExpiresAt := map_option truncate_microsecond (att_ExpiresAt a),
     att_ProjectName := ProjectName scope, att_ProjectUID := ProjectUID scope\<rparr>"

definition admissible :: "attachment_sdk \<Rightarrow> Attachment \<Rightarrow> bool" where
  "admissible sdk p \<longleftrightarrow> ValidateAttachmentID sdk (att_ID p) = None
     \<and> att_ActorID p \<noteq> [] \<and> ValidString (att_ActorID p)
     \<and> (att_Draft p \<longleftrightarrow> att_ExpiresAt p \<noteq> None) \<and> 0 < att_SizeBytes p
     \<and> length (att_SHA256 p) = 64 \<and> hex_valid (att_SHA256 p)
     \<and> att_DataEncrypted p = (\<not> blank (att_DataKeyID p))
     \<and> (if att_DataEncrypted p then att_Data p \<noteq> []
        else int (length (att_Data p)) = att_SizeBytes p
          \<and> ValidateAttachmentContent sdk (att_Filename p) (att_ContentType p) (att_Data p) = None
          \<and> EqualFold (att_SHA256 p) (Sum256_hex sdk (att_Data p)))"

lemma prepareAttachment_iff:
  "prepareAttachment sdk now scope a = Inr p \<longleftrightarrow>
     Scope_validate scope = None
     \<and> (\<exists>ct. NormalizeAttachmentContentType sdk (ToLower (TrimSpace (att_ContentType a))) = Inr ct
          \<and> p = prepared ct now scope a \<and> admissible sdk p)"
proof (cases "NormalizeAttachmentContentType sdk (ToLower (TrimSpace (att_ContentType a)))")
  case (Inl e)
  then show ?thesis
    by (auto simp: prepareAttachment_def Let_def split: option.splits)
next
  case (Inr ct)
  show ?thesis
  proof
    assume "prepareAttachment sdk now scope a = Inr p"
    with Inr show "Scope_validate scope = None \<and> (\<exists>ct.
        NormalizeAttachmentContentType sdk (ToLower (TrimSpace (att_ContentType a))) = Inr ct
          \<and> p = prepared ct now scope a \<and> admissible sdk p)"
      by (simp add: prepareAttachment_def Let_def admissible_def prepared_def split: option.split_asm if_split_asm) auto
  next
    assume "Scope_validate scope = None \<and> (\<exists>ct.
        NormalizeAttachmentContentType sdk (ToLower (TrimSpace (att_ContentType a))) = Inr ct
          \<and> p = prepared ct now scope a \<and> admissible sdk p)"
    with Inr have "Scope_validate scope = None" "admissible sdk (prepared ct now scope a)"
      and p: "p = prepared ct now scope a" by auto
    with Inr show "prepareAttachment sdk now scope a = Inr p"
      unfolding p by (auto simp: prepareAttachment_def Let_def admissible_def prepared_def split: if_splits)
  qed
qed

lemma prepareAttachment_later:
  assumes "prepareAttachment sdk now scope a = Inr p"
  shows "\<exists>t. prepareAttachment sdk now' scope a = Inr (created_at p t)"
proof -
  from assms obtain ct where
    ct: "NormalizeAttachmentContentType sdk (ToLower (TrimSpace (att_ContentType a))) = Inr ct"
    and p: "p = prepared ct now scope a" "admissible sdk p" "Scope_validate scope = None"
    by (auto simp: prepareAttachment_iff)
  let ?q = "prepared ct now' scope a"
  have q: "?q = created_at p (att_CreatedAt ?q)" by (simp add: p(1) prepared_def)
  have "admissible sdk (created_at p t)" for t using p(2) by (simp add: admissible_def)
  then have "admissible sdk ?q" by (subst q)
  with ct p(3) have "prepareAttachment sdk now' scope a = Inr ?q" by (auto simp: prepareAttachment_iff)
  with q show ?thesis by metis
qed

lemma prepareAttachment_again:
  assumes "prepareAttachment sdk now scope a = Inr p" "sdk_ok sdk"
  shows "\<exists>t. prepareAttachment sdk now' scope p = Inr (created_at p t)"
proof -
  from assms(1) obtain ct where
    ct: "NormalizeAttachmentContentType sdk (ToLower (TrimSpace (att_ContentType a))) = Inr ct"
    and p: "p = prepared ct now scope a" "admissible sdk p" "Scope_validate scope = None"
    by (auto simp: prepareAttachment_iff)
  have n: "NormalizeAttachmentContentType sdk (ToLower (TrimSpace (att_ContentType p))) = Inr ct"
    using ct assms(2) by (auto simp: sdk_ok_def p(1) prepared_def)
  let ?q = "prepared ct now' scope p"
  have "ToLower (TrimSpace (att_SHA256 p)) = att_SHA256 p"
    using p(2) by (intro ToLower_hex [of _ "TrimSpace (att_SHA256 a)"]) (auto simp: admissible_def p(1) prepared_def)
  then have q: "?q = created_at p (att_CreatedAt ?q)"
    unfolding p(1) by (simp add: prepared_def option.map_comp comp_def)
  have "admissible sdk (created_at p t)" for t using p(2) by (simp add: admissible_def)
  then have "admissible sdk ?q" by (subst q)
  with n p(3) have "prepareAttachment sdk now' scope p = Inr ?q" by (auto simp: prepareAttachment_iff)
  with q show ?thesis by metis
qed

lemma match_later:
  assumes "sdk_ok sdk" "attachmentUploadMetadataMatches sdk a p"
  shows "attachmentUploadMetadataMatches sdk a (created_at p t)"
proof -
  have "receipt_of (created_at p t) t = (receipt_of p (att_CreatedAt p))\<lparr>rcpt_CreatedAt := t\<rparr>"
    and "rcpt_CreatedAt (receipt_of a 0) = 0" by (simp_all add: receipt_of_def)
  with assms show ?thesis by (simp add: attachmentUploadMetadataMatches_def sdk_ok_def)
qed

lemma match_created:
  assumes "sdk_ok sdk"
  shows "attachmentUploadMetadataMatches sdk (created_at p t) p"
proof -
  have "receipt_of p (att_CreatedAt p) = (receipt_of (created_at p t) 0)\<lparr>rcpt_CreatedAt := att_CreatedAt p\<rparr>"
    and "rcpt_CreatedAt (receipt_of (created_at p t) 0) = 0" by (simp_all add: receipt_of_def)
  moreover have "UploadMetadataMatches sdk (receipt_of (created_at p t) 0)
      ((receipt_of (created_at p t) 0)\<lparr>rcpt_CreatedAt := att_CreatedAt p\<rparr>)"
    using assms calculation(2) unfolding sdk_ok_def by blast
  ultimately show ?thesis by (simp add: attachmentUploadMetadataMatches_def)
qed

lemma GetAttachment_Ok:
  "GetAttachment now scope i st = (Ok a, st') \<longleftrightarrow> Scope_validate scope = None
     \<and> read2 (attachments st) scope (TrimSpace i) = Some a \<and> \<not> attachmentExpired a now \<and> st' = st"
  by (auto simp: GetAttachment_def Let_def split: option.splits if_splits)

lemma CreateAttachmentIdempotent_stored:
  assumes "CreateAttachmentIdempotent sdk now scope candidate st = (Ok (a, fresh), st')" "sdk_ok sdk"
  obtains p where "prepareAttachment sdk now scope candidate = Inr p" "TrimSpace (att_ID p) = att_ID p"
    "read2 (attachments st') scope (att_ID p) = Some a" "attachmentUploadMetadataMatches sdk a p"
proof -
  from assms(1) obtain p where p: "prepareAttachment sdk now scope candidate = Inr p"
    by (cases "prepareAttachment sdk now scope candidate") (auto simp: CreateAttachmentIdempotent_def)
  then have trim: "TrimSpace (att_ID p) = att_ID p"
    by (auto simp: prepareAttachment_iff prepared_def)
  have stored: "read2 (attachments st') scope (att_ID p) = Some a \<and> attachmentUploadMetadataMatches sdk a p"
    if "GetAttachment now scope (att_ID p) s = (Ok x, s')" "match_existing sdk x p = Ok (a, fresh)" "s' = st'"
    for x s s'
    using that trim by (auto simp: GetAttachment_Ok match_existing_def split: if_splits)
  have created: "read2 (attachments st') scope (att_ID p) = Some a \<and> attachmentUploadMetadataMatches sdk a p"
    if "CreateAttachment sdk now scope p s = (Ok a, st')" for s
    using that
  proof (cases rule: CreateAttachment_cases)
    case (created q inner)
    from prepareAttachment_again [OF p assms(2)] created(1)
    obtain t where "q = created_at p t" by (metis sum.inject(2))
    with created show ?thesis
      by (simp add: gomap_simps match_created assms(2))
  qed simp
  from assms(1) p have "read2 (attachments st') scope (att_ID p) = Some a \<and> attachmentUploadMetadataMatches sdk a p"
    by (auto simp: CreateAttachmentIdempotent_def split: prod.splits res.splits if_splits
        dest: stored created)
  with p trim that show ?thesis by blast
qed

lemma CreateAttachmentIdempotent_retry:
  assumes "CreateAttachmentIdempotent sdk now scope candidate st = (Ok (a, fresh), st')" "sdk_ok sdk"
    "\<not> attachmentExpired a now'"
  shows "CreateAttachmentIdempotent sdk now' scope candidate st' = (Ok (a, False), st')"
  using assms(1,2)
proof (rule CreateAttachmentIdempotent_stored)
  fix p
  assume p: "prepareAttachment sdk now scope candidate = Inr p" "TrimSpace (att_ID p) = att_ID p"
    "read2 (attachments st') scope (att_ID p) = Some a" "attachmentUploadMetadataMatches sdk a p"
  from prepareAttachment_later [OF p(1)] obtain t where
    q: "prepareAttachment sdk now' scope candidate = Inr (created_at p t)" by blast
  have v: "Scope_validate scope = None" using p(1) by (auto simp: prepareAttachment_iff)
  have "GetAttachment now' scope (att_ID p) st' = (Ok a, st')"
    using p v assms(3) by (simp add: GetAttachment_Ok)
  with q match_later [OF assms(2) p(4)] show ?thesis
    by (simp add: CreateAttachmentIdempotent_def match_existing_def)
qed

text \<open>The composite operations keep the invariant.\<close>

lemma CreateAttachmentIdempotent_inv:
  assumes "CreateAttachmentIdempotent sdk now scope a st = (r, st')" "attachments_inv st"
    "att_BindingID a = []" "att_DraftExpiresAt a = None"
  shows "attachments_inv st' \<and> st' = st\<lparr>attachments := attachments st'\<rparr> \<and> r \<noteq> Panic"
proof (cases "prepareAttachment sdk now scope a")
  case (Inr p)
  have p: "att_BindingID p = []" "att_DraftExpiresAt p = None"
    using prepareAttachment_Inr [OF Inr] assms(3,4) by auto
  have get: "attachments_inv s' \<and> s' = s\<lparr>attachments := attachments s'\<rparr> \<and> x \<noteq> Panic"
    if "GetAttachment now scope i s = (x, s')" "attachments_inv s" for i s s' x
  proof -
    have "s' = s\<lparr>attachments := attachments s'\<rparr>"
      using that(1) by (auto simp: GetAttachment_def Let_def split: option.splits if_splits)
    with GetAttachment_forgets [OF that(1)] forgets_inv that(2) show ?thesis by blast
  qed
  obtain r1 s1 where g1: "GetAttachment now scope (att_ID p) st = (r1, s1)" by (metis surj_pair)
  obtain r2 s2 where c: "CreateAttachment sdk now scope p s1 = (r2, s2)" by (metis surj_pair)
  obtain r3 s3 where g3: "GetAttachment now scope (att_ID p) s2 = (r3, s3)" by (metis surj_pair)
  note i1 = get [OF g1 assms(2)]
  note i2 = CreateAttachment_inv [OF c conjunct1 [OF i1] p]
  note i3 = get [OF g3 conjunct1 [OF i2]]
  have "s2 = st\<lparr>attachments := attachments s2\<rparr>" using i1 i2 by (metis MemoryStore.surjective MemoryStore.update_convs(18))
  moreover have "s3 = st\<lparr>attachments := attachments s3\<rparr>" using calculation i3 by (metis MemoryStore.surjective MemoryStore.update_convs(18))
  ultimately show ?thesis
    using assms(1) i1 i2 i3
    by (auto simp: CreateAttachmentIdempotent_def Inr g1 c g3 match_existing_def
        split: res.splits if_splits)
qed (use assms in \<open>auto simp: CreateAttachmentIdempotent_def\<close>)

end
