(* ===== verification/Store_Retention.thy ===== *)
theory Store_Retention
  imports Store_Messages Store_Run_Events Store_Turns Store_Attachments
begin

text \<open>
  Deletion and retention: \<open>DeleteProjectMessages\<close> and \<open>DeleteMessagesOlderThan\<close> of \<open>memory.go\<close>,
  \<open>DeleteAssistantThread\<close> of \<open>thread_memory.go\<close>. Shown: what each of them removes and that it
  removes nothing else, that the transcript of an unfinished run survives retention, and that
  the invariants of all components survive deletion.
\<close>

section \<open>Loops that delete\<close>

text \<open>\<open>for k, v := range m { if p(k, v) { delete(m, k) } }\<close>\<close>

definition gdel_where :: "('k \<Rightarrow> 'v \<Rightarrow> bool) \<Rightarrow> ('k, 'v) gomap \<Rightarrow> ('k, 'v) gomap" where
  "gdel_where P m = fold (\<lambda>(k, v) m. if P k v then gdel k m else m) (gentries m) m"

text \<open>The same loop over the inner map \<open>m[a]\<close>, which may be nil.\<close>

definition del_inner :: "('b \<Rightarrow> 'v \<Rightarrow> bool) \<Rightarrow> 'a \<Rightarrow> ('a, ('b, 'v) gomap) gomap \<Rightarrow> ('a, ('b, 'v) gomap) gomap" where
  "del_inner P a m = (case gget m a of None \<Rightarrow> m | Some i \<Rightarrow> gput a (gdel_where P i) m)"

section \<open>Deleting a project\<close>

definition DeleteProjectMessages :: "Scope \<Rightarrow> unit op" where
  [op_defs]: "DeleteProjectMessages scope st =
     (case Scope_validate scope of Some e \<Rightarrow> (Err e, st) | None \<Rightarrow>
      (Ok (), st\<lparr>messages := gdel scope (messages st),
        assistantRuns := gdel scope (assistantRuns st),
        assistantEvents := gdel scope (assistantEvents st),
        assistantEventLookup := gdel scope (assistantEventLookup st),
        conversationItems := gdel scope (conversationItems st),
        conversationSequences := gdel scope (conversationSequences st),
        assistantThreads := gdel scope (assistantThreads st),
        assistantTurns := gdel scope (assistantTurns st),
        threadEvents := gdel scope (threadEvents st),
        threadTurnEvents := gdel scope (threadTurnEvents st),
        threadTurnEventIndex := gdel scope (threadTurnEventIndex st),
        threadTurnStarts := gdel scope (threadTurnStarts st),
        bootstrapPermits := gdel scope (bootstrapPermits st),
        approvalModes := gdel scope (approvalModes st),
        projectThumbnails := gdel scope (projectThumbnails st),
        attachments := gdel scope (attachments st),
        attachmentDeleted := gput scope () (attachmentDeleted st)\<rparr>))"

section \<open>Deleting a thread\<close>

text \<open>
  The six maps of a thread, and the \<open>if len(...) == 0 { delete(...) }\<close> that follow the deletions
  from them.
\<close>

definition forget_thread :: "Scope \<Rightarrow> string \<Rightarrow> MemoryStore \<Rightarrow> MemoryStore" where
  "forget_thread scope tid st = st\<lparr>
     assistantThreads := remove2 scope tid (assistantThreads st),
     assistantTurns := remove2 scope tid (assistantTurns st),
     threadEvents := remove2 scope tid (threadEvents st),
     threadTurnEvents := remove2 scope tid (threadTurnEvents st),
     threadTurnEventIndex := remove2 scope tid (threadTurnEventIndex st),
     threadTurnStarts := remove2 scope tid (threadTurnStarts st)\<rparr>"

definition prune_threads :: "Scope \<Rightarrow> MemoryStore \<Rightarrow> MemoryStore" where
  "prune_threads scope st = st\<lparr>
     assistantThreads := prune scope (assistantThreads st),
     assistantTurns := prune scope (assistantTurns st),
     threadEvents := prune scope (threadEvents st),
     threadTurnEvents := prune scope (threadTurnEvents st),
     threadTurnEventIndex := prune scope (threadTurnEventIndex st),
     threadTurnStarts := prune scope (threadTurnStarts st)\<rparr>"

text \<open>\<open>if attachments := s.attachments[scope]; len(attachments) > 0 { ... }\<close>\<close>

definition forget_attachments :: "(Attachment \<Rightarrow> bool) \<Rightarrow> Scope \<Rightarrow> MemoryStore \<Rightarrow> MemoryStore" where
  "forget_attachments owned scope st =
     (if gread (attachments st) scope = [] then st
      else st\<lparr>attachments := prune scope (del_inner (\<lambda>i a. owned a) scope (attachments st))\<rparr>)"

text \<open>The loop over the IDs of the turns: runs, their events and the IDs of their messages.\<close>

definition run_message_ids :: "AssistantRun \<Rightarrow> string list" where
  "run_message_ids run = (if run_UserMessageID run \<noteq> [] then [run_UserMessageID run] else [])
     @ (if run_ActiveMessageID run \<noteq> [] then [run_ActiveMessageID run] else [])"

fun forget_turn_runs :: "Scope \<Rightarrow> string list \<Rightarrow> string list \<Rightarrow> MemoryStore \<Rightarrow> string list \<times> MemoryStore" where
  "forget_turn_runs scope [] messageIDs st = (messageIDs, st)"
| "forget_turn_runs scope (turnID # rest) messageIDs st =
     (let (messageIDs, st) = (case read2 (assistantRuns st) scope turnID of
            None \<Rightarrow> (messageIDs, st)
          | Some run \<Rightarrow> (messageIDs @ run_message_ids run,
              st\<lparr>assistantRuns := remove2 scope turnID (assistantRuns st),
                 assistantEvents := remove2 scope turnID (assistantEvents st)\<rparr>))
      in forget_turn_runs scope rest messageIDs
           (st\<lparr>assistantEventLookup := del_inner (\<lambda>key _. fst key = turnID) scope (assistantEventLookup st)\<rparr>))"

definition forget_turn_items :: "Scope \<Rightarrow> (string, AssistantTurn) gomap \<Rightarrow> MemoryStore \<Rightarrow> MemoryStore" where
  "forget_turn_items scope turns st =
     (let items = gread (conversationItems st) scope
      in if items = [] then st
         else let filtered = filter (\<lambda>item. gget turns (item_RunID item) = None) items
              in if filtered = [] then st\<lparr>conversationItems := gdel scope (conversationItems st)\<rparr>
                 else st\<lparr>conversationItems := gput scope filtered (conversationItems st)\<rparr>)"

definition prune_runs :: "Scope \<Rightarrow> MemoryStore \<Rightarrow> MemoryStore" where
  "prune_runs scope st = st\<lparr>
     assistantRuns := prune scope (assistantRuns st),
     assistantEvents := prune scope (assistantEvents st),
     assistantEventLookup := prune scope (assistantEventLookup st)\<rparr>"

definition DeleteAssistantThread :: "Scope \<Rightarrow> string \<Rightarrow> string \<Rightarrow> unit op" where
  [op_defs]: "DeleteAssistantThread scope threadID actorID st =
     (case Scope_validate scope of Some e \<Rightarrow> (Err e, st) | None \<Rightarrow>
      let threadID = TrimSpace threadID; actorID = TrimSpace actorID
      in if threadID = [] \<or> actorID = []
         then (Err (ErrInvalid ''assistant thread id and actor are required''), st)
         else (case read2 (assistantThreads st) scope threadID of
           None \<Rightarrow> (Err ErrAssistantThreadNotFound, st)
         | Some thread \<Rightarrow>
           if thread_ActorID thread \<noteq> actorID then (Err ErrAssistantThreadConflict, st)
           else let turns = slice2 (assistantTurns st) scope threadID;
                    turnIDs = map turn_ID (gvalues turns)
           in if list_ex (\<lambda>turn. \<not> assistantTurnStatusTerminal (turn_Status turn)) (gvalues turns)
              then (Err ErrAssistantThreadActive, st)
              else let st = (if turns = [] then st
                     else (case forget_turn_runs scope (map fst (gentries turns)) [] st of
                       (messageIDs, st) \<Rightarrow> forget_turn_items scope turns
                         (st\<lparr>messages := fold (\<lambda>i m. remove2 scope i m) messageIDs (messages st)\<rparr>)));
                   st = forget_attachments (\<lambda>a. att_BindingID a \<in> set turnIDs) scope st;
                   st = prune_runs scope (prune_threads scope (forget_thread scope threadID st))
              in (Ok (), st\<lparr>messages := prune scope (messages st)\<rparr>)))"

section \<open>Retention\<close>

text \<open>The messages an unfinished run points at.\<close>

definition protected :: "(string, AssistantRun) gomap \<Rightarrow> string \<Rightarrow> bool" where
  "protected runs i \<longleftrightarrow> list_ex (\<lambda>run. \<not> assistantRunStatusTerminal (run_Status run)
     \<and> i \<in> set (run_message_ids run)) (gvalues runs)"

definition message_expired :: "time \<Rightarrow> (string, AssistantRun) gomap \<Rightarrow> string \<Rightarrow> Message \<Rightarrow> bool" where
  "message_expired before runs i message \<longleftrightarrow> msg_CreatedAt message < before \<and> \<not> protected runs i"

fun retain_messages :: "time \<Rightarrow> (Scope, (string, AssistantRun) gomap) gomap
    \<Rightarrow> (Scope \<times> (string, Message) gomap) list \<Rightarrow> (Scope, (string, Message) gomap) gomap \<Rightarrow> int64
    \<Rightarrow> (Scope, (string, Message) gomap) gomap \<times> int64" where
  "retain_messages before runs [] m deleted = (m, deleted)"
| "retain_messages before runs ((scope, inner) # rest) m deleted =
     (let gone = message_expired before (gread runs scope)
      in retain_messages before runs rest (prune scope (gput scope (gdel_where gone inner) m))
           (wrap64 (deleted + int (length (filter (\<lambda>(i, x). gone i x) (gentries inner))))))"

definition forget_run :: "Scope \<Rightarrow> string \<Rightarrow> MemoryStore \<Rightarrow> MemoryStore" where
  "forget_run scope i st = st\<lparr>
     assistantRuns := remove2 scope i (assistantRuns st),
     assistantEvents := remove2 scope i (assistantEvents st),
     assistantEventLookup := del_inner (\<lambda>key _. fst key = i) scope (assistantEventLookup st),
     conversationItems := gput scope
       (filter (\<lambda>item. item_RunID item \<noteq> i) (gread (conversationItems st) scope)) (conversationItems st)\<rparr>"

definition run_expired :: "time \<Rightarrow> AssistantRun \<Rightarrow> bool" where
  "run_expired before run \<longleftrightarrow> assistantRunStatusTerminal (run_Status run) \<and> run_UpdatedAt run < before"

fun retain_scope_runs :: "time \<Rightarrow> Scope \<Rightarrow> (string \<times> AssistantRun) list \<Rightarrow> MemoryStore \<Rightarrow> int64
    \<Rightarrow> MemoryStore \<times> int64" where
  "retain_scope_runs before scope [] st deleted = (st, deleted)"
| "retain_scope_runs before scope ((i, run) # rest) st deleted =
     (if run_expired before run
      then retain_scope_runs before scope rest (forget_run scope i st) (wrap64 (deleted + 1))
      else retain_scope_runs before scope rest st deleted)"

fun retain_runs :: "time \<Rightarrow> (Scope \<times> (string, AssistantRun) gomap) list \<Rightarrow> MemoryStore \<Rightarrow> int64
    \<Rightarrow> MemoryStore \<times> int64" where
  "retain_runs before [] st deleted = (st, deleted)"
| "retain_runs before ((scope, runs) # rest) st deleted =
     (case retain_scope_runs before scope (gentries runs) st deleted of (st, deleted) \<Rightarrow>
        retain_runs before rest
          ((prune_runs scope st)\<lparr>conversationItems := prune scope (conversationItems st)\<rparr>) deleted)"

definition thread_expired :: "time \<Rightarrow> AssistantThread \<Rightarrow> (string, AssistantTurn) gomap \<Rightarrow> bool" where
  "thread_expired before thread turns \<longleftrightarrow> thread_UpdatedAt thread < before
     \<and> thread_Status thread \<noteq> AssistantThreadStatusActive
     \<and> list_all (\<lambda>turn. assistantTurnStatusTerminal (turn_Status turn)) (gvalues turns)"

fun retain_scope_threads :: "time \<Rightarrow> Scope \<Rightarrow> (string \<times> AssistantThread) list \<Rightarrow> MemoryStore \<Rightarrow> MemoryStore" where
  "retain_scope_threads before scope [] st = st"
| "retain_scope_threads before scope ((tid, thread) # rest) st =
     (let turns = slice2 (assistantTurns st) scope tid
      in retain_scope_threads before scope rest
           (if thread_expired before thread turns
            then forget_thread scope tid
                   (forget_attachments (\<lambda>a. gget turns (att_BindingID a) \<noteq> None) scope st)
            else st))"

fun retain_threads :: "time \<Rightarrow> (Scope \<times> (string, AssistantThread) gomap) list \<Rightarrow> MemoryStore \<Rightarrow> MemoryStore" where
  "retain_threads before [] st = st"
| "retain_threads before ((scope, threads) # rest) st =
     retain_threads before rest
       (prune_threads scope (retain_scope_threads before scope (gentries threads) st))"

definition DeleteMessagesOlderThan :: "time \<Rightarrow> int64 op" where
  [op_defs]: "DeleteMessagesOlderThan before st =
     (case retain_messages before (assistantRuns st) (gentries (messages st)) (messages st) 0 of
       (kept, deleted) \<Rightarrow>
        (case retain_runs before (gentries (assistantRuns st)) (st\<lparr>messages := kept\<rparr>) deleted of
          (st, deleted) \<Rightarrow> (Ok deleted, retain_threads before (gentries (assistantThreads st)) st)))"

section \<open>What deletion leaves\<close>

lemma gget_fold_gdel:
  "distinct (map fst es) \<Longrightarrow> gget (fold (\<lambda>(k, v) m. if P k v then gdel k m else m) es m) x =
     (if \<exists>v. (x, v) \<in> set es \<and> P x v then None else gget m x)"
  by (induction es arbitrary: m) (auto simp: al.get_del)

lemma gget_gdel_where:
  "gget (gdel_where P m) k = (case gget m k of None \<Rightarrow> None | Some v \<Rightarrow> if P k v then None else Some v)"
  unfolding gdel_where_def
  by (simp add: gget_fold_gdel al.entries_distinct al.entries_get split: option.splits)

lemma read2_del_inner [gomap_simps]:
  "read2 (del_inner P a m) x y =
     (case read2 m x y of None \<Rightarrow> None | Some v \<Rightarrow> if x = a \<and> P y v then None else Some v)"
  by (simp add: del_inner_def read2_def gread_def gget_gdel_where al.get_put split: option.splits)

lemma slice2_del_inner_key [gomap_simps]:
  "slice2 (del_inner (\<lambda>k _. Q k) a m) x y = (if x = a \<and> Q y then [] else slice2 m x y)"
  by (cases "read2 m x y") (auto simp: slice2_def gomap_simps)

text \<open>\<open>runs_gone G st st'\<close>: the runs in \<open>G\<close> went with their events and items, nothing else.\<close>

definition runs_gone :: "(Scope \<times> string) set \<Rightarrow> MemoryStore \<Rightarrow> MemoryStore \<Rightarrow> bool" where
  "runs_gone G st st' \<longleftrightarrow>
     st' = st\<lparr>assistantRuns := assistantRuns st', assistantEvents := assistantEvents st',
        assistantEventLookup := assistantEventLookup st', conversationItems := conversationItems st'\<rparr>
     \<and> (\<forall>s i. read2 (assistantRuns st') s i = (if (s, i) \<in> G then None else read2 (assistantRuns st) s i))
     \<and> (\<forall>s i. slice2 (assistantEvents st') s i = (if (s, i) \<in> G then [] else slice2 (assistantEvents st) s i))
     \<and> (\<forall>s i t. slice2 (assistantEventLookup st') s (i, t) =
          (if (s, i) \<in> G then [] else slice2 (assistantEventLookup st) s (i, t)))
     \<and> (\<forall>s. gread (conversationItems st') s =
          filter (\<lambda>x. (s, item_RunID x) \<notin> G) (gread (conversationItems st) s))"

lemma runs_gone_refl [simp]: "runs_gone {} st st"
  by (simp add: runs_gone_def)

lemma runs_gone_trans:
  assumes "runs_gone G st st1" "runs_gone H st1 st2"
  shows "runs_gone (G \<union> H) st st2"
proof -
  have "st2 = st\<lparr>assistantRuns := assistantRuns st2, assistantEvents := assistantEvents st2,
      assistantEventLookup := assistantEventLookup st2, conversationItems := conversationItems st2\<rparr>"
    using assms unfolding runs_gone_def by (cases st, cases st1, cases st2) simp
  then show ?thesis
    using conjunct2 [OF assms(1) [unfolded runs_gone_def]] conjunct2 [OF assms(2) [unfolded runs_gone_def]]
    unfolding runs_gone_def by (auto simp: filter_filter intro: filter_cong)
qed

lemma runs_gone_frame:
  assumes "runs_gone G st st'"
  shows "messages st' = messages st" "conversationSequences st' = conversationSequences st"
    "assistantThreads st' = assistantThreads st" "assistantTurns st' = assistantTurns st"
    "threadEvents st' = threadEvents st" "threadTurnEvents st' = threadTurnEvents st"
    "threadTurnEventIndex st' = threadTurnEventIndex st" "threadTurnStarts st' = threadTurnStarts st"
    "attachments st' = attachments st"
proof -
  have f: "st' = st\<lparr>assistantRuns := assistantRuns st', assistantEvents := assistantEvents st',
      assistantEventLookup := assistantEventLookup st', conversationItems := conversationItems st'\<rparr>"
    using assms unfolding runs_gone_def by blast
  show "messages st' = messages st" "conversationSequences st' = conversationSequences st"
    "assistantThreads st' = assistantThreads st" "assistantTurns st' = assistantTurns st"
    "threadEvents st' = threadEvents st" "threadTurnEvents st' = threadTurnEvents st"
    "threadTurnEventIndex st' = threadTurnEventIndex st" "threadTurnStarts st' = threadTurnStarts st"
    "attachments st' = attachments st"
    by (subst f, simp)+
qed

lemma runs_gone_inv:
  assumes "runs_gone G st st'"
  shows "runs_inv (assistantRuns st) \<Longrightarrow> runs_inv (assistantRuns st')"
    "run_events_inv st \<Longrightarrow> run_events_inv st'" "conversation_inv st \<Longrightarrow> conversation_inv st'"
proof -
  note g = conjunct2 [OF assms [unfolded runs_gone_def]]
  show "runs_inv (assistantRuns st')" if "runs_inv (assistantRuns st)"
  proof (rule runs_inv_sub [OF that])
    fix sc i r
    assume "read2 (assistantRuns st') sc i = Some r"
    then show "read2 (assistantRuns st) sc i = Some r" by (simp add: g split: if_splits)
  qed
  show "run_events_inv st'" if "run_events_inv st"
    unfolding run_events_inv_def
  proof (intro allI)
    fix s i
    have "run_log_ok st s i" using that by (simp add: run_events_inv_def)
    then show "run_log_ok st' s i"
      by (cases "(s, i) \<in> G") (simp_all add: g run_log_ok_def contiguous_def max_int64_def)
  qed
  show "conversation_inv st'" if "conversation_inv st"
    unfolding conversation_inv_def
  proof
    fix s
    show "conversation_ok st' s"
      by (rule conversation_ok_subseq [of st s st' "\<lambda>x. (s, item_RunID x) \<notin> G"])
        (use that runs_gone_frame(2) [OF assms] in \<open>simp_all add: g conversation_inv_def item_high_water_def\<close>)
  qed
qed

text \<open>\<open>threads_gone G st st'\<close>: the threads in \<open>G\<close> went with their logs, turns and attachments.\<close>

definition owned_by :: "(Scope \<times> string) set \<Rightarrow> MemoryStore \<Rightarrow> Scope \<Rightarrow> Attachment \<Rightarrow> bool" where
  "owned_by G st s a \<longleftrightarrow> (\<exists>t. (s, t) \<in> G \<and> read3 (assistantTurns st) s t (att_BindingID a) \<noteq> None)"

definition threads_gone :: "(Scope \<times> string) set \<Rightarrow> MemoryStore \<Rightarrow> MemoryStore \<Rightarrow> bool" where
  "threads_gone G st st' \<longleftrightarrow>
     st' = st\<lparr>assistantThreads := assistantThreads st', assistantTurns := assistantTurns st',
       threadEvents := threadEvents st', threadTurnEvents := threadTurnEvents st',
       threadTurnEventIndex := threadTurnEventIndex st', threadTurnStarts := threadTurnStarts st',
       attachments := attachments st'\<rparr>
     \<and> (\<forall>s t. read2 (assistantThreads st') s t = (if (s, t) \<in> G then None else read2 (assistantThreads st) s t))
     \<and> (\<forall>s t. read2 (threadEvents st') s t = (if (s, t) \<in> G then None else read2 (threadEvents st) s t))
     \<and> (\<forall>s t. slice2 (threadTurnEvents st') s t = (if (s, t) \<in> G then [] else slice2 (threadTurnEvents st) s t))
     \<and> (\<forall>s t k. slice3 (threadTurnEventIndex st') s t k =
          (if (s, t) \<in> G then [] else slice3 (threadTurnEventIndex st) s t k))
     \<and> (\<forall>s t u. read3 (threadTurnStarts st') s t u =
          (if (s, t) \<in> G then None else read3 (threadTurnStarts st) s t u))
     \<and> (\<forall>s t u. read3 (assistantTurns st') s t u =
          (if (s, t) \<in> G then None else read3 (assistantTurns st) s t u))
     \<and> (\<forall>s i. read2 (attachments st') s i = (case read2 (attachments st) s i of None \<Rightarrow> None
          | Some a \<Rightarrow> if owned_by G st s a then None else Some a))"

lemma threads_gone_refl [simp]: "threads_gone {} st st"
  by (simp add: threads_gone_def owned_by_def split: option.split)

lemma threads_gone_trans:
  assumes "threads_gone G st st1" "threads_gone H st1 st2"
  shows "threads_gone (G \<union> H) st st2"
proof -
  have frame: "st2 = st\<lparr>assistantThreads := assistantThreads st2, assistantTurns := assistantTurns st2,
       threadEvents := threadEvents st2, threadTurnEvents := threadTurnEvents st2,
       threadTurnEventIndex := threadTurnEventIndex st2, threadTurnStarts := threadTurnStarts st2,
       attachments := attachments st2\<rparr>"
    using assms unfolding threads_gone_def by (cases st, cases st1, cases st2) simp
  have turns: "read3 (assistantTurns st1) s t u = (if (s, t) \<in> G then None else read3 (assistantTurns st) s t u)"
    for s t u using assms(1) unfolding threads_gone_def by blast
  have owned: "owned_by (G \<union> H) st s a \<longleftrightarrow> owned_by G st s a \<or> owned_by H st1 s a" for s a
    by (auto simp: owned_by_def turns)
  note g = conjunct2 [OF assms(1) [unfolded threads_gone_def]] conjunct2 [OF assms(2) [unfolded threads_gone_def]]
  have att: "read2 (attachments st2) s i = (case read2 (attachments st) s i of None \<Rightarrow> None
      | Some a \<Rightarrow> if owned_by (G \<union> H) st s a then None else Some a)" for s i
    by (cases "read2 (attachments st) s i") (simp_all add: g owned)
  show ?thesis
    unfolding threads_gone_def
    by (intro conjI allI, rule frame, rule_tac [7] att) (simp_all add: g)
qed

lemma threads_gone_frame:
  assumes "threads_gone G st st'"
  shows "messages st' = messages st" "conversationSequences st' = conversationSequences st"
    "assistantRuns st' = assistantRuns st" "assistantEvents st' = assistantEvents st"
    "assistantEventLookup st' = assistantEventLookup st" "conversationItems st' = conversationItems st"
proof -
  have f: "st' = st\<lparr>assistantThreads := assistantThreads st', assistantTurns := assistantTurns st',
       threadEvents := threadEvents st', threadTurnEvents := threadTurnEvents st',
       threadTurnEventIndex := threadTurnEventIndex st', threadTurnStarts := threadTurnStarts st',
       attachments := attachments st'\<rparr>"
    using assms unfolding threads_gone_def by blast
  show "messages st' = messages st" "conversationSequences st' = conversationSequences st"
    "assistantRuns st' = assistantRuns st" "assistantEvents st' = assistantEvents st"
    "assistantEventLookup st' = assistantEventLookup st" "conversationItems st' = conversationItems st"
    by (subst f, simp)+
qed

lemma threads_gone_inv:
  assumes "threads_gone G st st'"
  shows "thread_inv st \<Longrightarrow> thread_inv st'" "attachments_inv st \<Longrightarrow> attachments_inv st'"
proof -
  note g = conjunct2 [OF assms [unfolded threads_gone_def]]
  show "thread_inv st'" if "thread_inv st"
    unfolding thread_inv_def
  proof (intro allI)
    fix s t
    have ok: "thread_ok st s t" using that by (simp add: thread_inv_def)
    show "thread_ok st' s t"
    proof (cases "(s, t) \<in> G")
      case True
      then show ?thesis by (simp add: g thread_ok_def projections_ok_Nil)
    next
      case False
      have "projections_ok st' s t log = projections_ok st s t log" for log
        using False by (simp add: g projections_ok_def)
      with False ok show ?thesis by (subst thread_ok_cong [of st' s t st]) (simp_all add: g)
    qed
  qed
  have "att_subset (attachments st') (attachments st)"
    by (simp add: g att_subset_def split: option.split)
  then show "attachments_inv st'" if "attachments_inv st"
    using that att_subset_ok by (auto simp: attachments_inv_def)
qed

section \<open>The loops of retention\<close>

lemma runs_gone_forget_run: "runs_gone {(scope, i)} st (forget_run scope i st)"
  by (simp add: runs_gone_def forget_run_def gomap_simps)

lemma runs_gone_prune:
  "runs_gone {} st ((prune_runs scope st)\<lparr>conversationItems := prune scope (conversationItems st)\<rparr>)"
  by (simp add: runs_gone_def prune_runs_def gomap_simps)

lemma retain_scope_runs_gone:
  "runs_gone {(s, i). s = scope \<and> (\<exists>r. (i, r) \<in> set es \<and> run_expired before r)} st
     (fst (retain_scope_runs before scope es st d))"
proof (induction before scope es st d rule: retain_scope_runs.induct)
  case (2 before scope i run rest st d)
  let ?G = "{(s, j). s = scope \<and> (\<exists>r. (j, r) \<in> set rest \<and> run_expired before r)}"
  show ?case
  proof (cases "run_expired before run")
    case True
    have "{(s, j). s = scope \<and> (\<exists>r. (j, r) \<in> set ((i, run) # rest) \<and> run_expired before r)}
        = {(scope, i)} \<union> ?G" using True by auto
    with runs_gone_trans [OF runs_gone_forget_run 2(1) [OF True]] True show ?thesis by simp
  next
    case False
    then have "{(s, j). s = scope \<and> (\<exists>r. (j, r) \<in> set ((i, run) # rest) \<and> run_expired before r)} = ?G" by auto
    with 2(2) [OF False] False show ?thesis by simp
  qed
qed simp

lemma retain_runs_gone:
  "runs_gone {(s, i). \<exists>runs r. (s, runs) \<in> set es \<and> gget runs i = Some r \<and> run_expired before r} st
     (fst (retain_runs before es st d))"
proof (induction before es st d rule: retain_runs.induct)
  case (2 before scope runs rest st d)
  obtain st1 d1 where r: "retain_scope_runs before scope (gentries runs) st d = (st1, d1)" by fastforce
  let ?st2 = "(prune_runs scope st1)\<lparr>conversationItems := prune scope (conversationItems st1)\<rparr>"
  let ?H = "{(s, i). s = scope \<and> (\<exists>r. (i, r) \<in> set (gentries runs) \<and> run_expired before r)}"
  let ?G = "{(s, i). \<exists>runs r. (s, runs) \<in> set rest \<and> gget runs i = Some r \<and> run_expired before r}"
  have "runs_gone ?H st st1"
    using retain_scope_runs_gone [of scope "gentries runs" before st d] r by simp
  from runs_gone_trans [OF runs_gone_trans [OF this runs_gone_prune] 2 [OF r [symmetric]]]
  have "runs_gone (?H \<union> {} \<union> ?G) st (fst (retain_runs before rest ?st2 d1))" by simp
  moreover have "{(s, i). \<exists>ru r. (s, ru) \<in> set ((scope, runs) # rest) \<and> gget ru i = Some r \<and> run_expired before r}
      = ?H \<union> {} \<union> ?G" by (auto simp: al.entries_get)
  ultimately show ?case by (simp add: r)
qed simp

lemma read2_entries: "(\<exists>inner v. (a, inner) \<in> set (gentries m) \<and> gget inner b = Some v \<and> P v)
    \<longleftrightarrow> (\<exists>v. read2 m a b = Some v \<and> P v)"
  by (auto simp: al.entries_get read2_def gread_def split: option.splits)

text \<open>Threads: one that goes takes the attachments bound to its turns with it.\<close>

definition thread_old :: "time \<Rightarrow> AssistantThread \<Rightarrow> (string \<Rightarrow> AssistantTurn option) \<Rightarrow> bool" where
  "thread_old before thread turns \<longleftrightarrow> thread_UpdatedAt thread < before
     \<and> thread_Status thread \<noteq> AssistantThreadStatusActive
     \<and> (\<forall>u a. turns u = Some a \<longrightarrow> assistantTurnStatusTerminal (turn_Status a))"

lemma thread_expired_old:
  "thread_expired before thread (slice2 turns s t) \<longleftrightarrow> thread_old before thread (read3 turns s t)"
  by (auto simp: thread_expired_def thread_old_def list_all_iff gvalues_iff read3_def)

lemma read3_slice2: "gget (slice2 m a b) c = read3 m a b c"
  by (simp add: read3_def)

lemma threads_gone_forget:
  "threads_gone {(scope, tid)} st (forget_thread scope tid
     (forget_attachments (\<lambda>a. gget (slice2 (assistantTurns st) scope tid) (att_BindingID a) \<noteq> None) scope st))"
  by (auto simp: threads_gone_def forget_thread_def forget_attachments_def owned_by_def gomap_simps
      read3_slice2 split: option.splits)
    (auto simp: read2_def)

lemma threads_gone_prune: "threads_gone {} st (prune_threads scope st)"
  by (simp add: threads_gone_def prune_threads_def owned_by_def gomap_simps split: option.split)

lemma retain_scope_threads_gone:
  "distinct (map fst es) \<Longrightarrow>
   threads_gone {(s, t). s = scope \<and> (\<exists>th. (t, th) \<in> set es \<and> thread_old before th (read3 (assistantTurns st) s t))}
     st (retain_scope_threads before scope es st)"
proof (induction before scope es st rule: retain_scope_threads.induct)
  case (2 before scope tid thread rest st)
  let ?old = "thread_old before thread (read3 (assistantTurns st) scope tid)"
  define st1 where "st1 = (if ?old then forget_thread scope tid (forget_attachments
     (\<lambda>a. gget (slice2 (assistantTurns st) scope tid) (att_BindingID a) \<noteq> None) scope st) else st)"
  let ?H = "if ?old then {(scope, tid)} else {}"
  have one: "threads_gone ?H st st1"
    using threads_gone_forget [of scope tid st] by (simp add: st1_def)
  have turns: "read3 (assistantTurns st1) scope t = read3 (assistantTurns st) scope t" if "t \<noteq> tid" for t
    using one that unfolding threads_gone_def by (auto simp: fun_eq_iff)
  let ?G = "\<lambda>st. {(s, t). s = scope \<and> (\<exists>th. (t, th) \<in> set rest \<and> thread_old before th (read3 (assistantTurns st) s t))}"
  have ne: "t \<noteq> tid" if "(t, th) \<in> set rest" for t th using that 2(2) by force
  have G: "?G st1 = ?G st" using ne turns by (auto simp del: split_paired_All split_paired_Ex)
  have "threads_gone (?G st1) st1 (retain_scope_threads before scope rest st1)"
    using 2(1) [OF refl] 2(2) by (simp add: st1_def thread_expired_old)
  from threads_gone_trans [OF one this [unfolded G]]
  have "threads_gone (?H \<union> ?G st) st (retain_scope_threads before scope rest st1)" .
  moreover have "{(s, t). s = scope \<and> (\<exists>th. (t, th) \<in> set ((tid, thread) # rest)
      \<and> thread_old before th (read3 (assistantTurns st) s t))} = ?H \<union> ?G st" by auto
  ultimately show ?case by (simp add: Let_def thread_expired_old st1_def)
qed simp

lemma retain_threads_gone:
  "distinct (map fst es) \<Longrightarrow>
   threads_gone {(s, t). \<exists>threads th. (s, threads) \<in> set es \<and> gget threads t = Some th
       \<and> thread_old before th (read3 (assistantTurns st) s t)}
     st (retain_threads before es st)"
proof (induction before es st rule: retain_threads.induct)
  case (2 before scope threads rest st)
  define st1 where "st1 = prune_threads scope (retain_scope_threads before scope (gentries threads) st)"
  let ?H = "{(s, t). s = scope \<and> (\<exists>th. (t, th) \<in> set (gentries threads)
      \<and> thread_old before th (read3 (assistantTurns st) s t))}"
  let ?G = "\<lambda>st. {(s, t). \<exists>threads th. (s, threads) \<in> set rest \<and> gget threads t = Some th
       \<and> thread_old before th (read3 (assistantTurns st) s t)}"
  have one: "threads_gone (?H \<union> {}) st st1"
    unfolding st1_def
    by (rule threads_gone_trans [OF retain_scope_threads_gone threads_gone_prune])
      (rule al.entries_distinct)
  have turns: "read3 (assistantTurns st1) s t = read3 (assistantTurns st) s t" if "s \<noteq> scope" for s t
    using one that unfolding threads_gone_def by (auto simp: fun_eq_iff)
  have ne: "s \<noteq> scope" if "(s, ths) \<in> set rest" for s ths using that 2(2) by force
  have G: "?G st1 = ?G st" using ne turns by (auto simp del: split_paired_All split_paired_Ex)
  have "threads_gone (?G st1) st1 (retain_threads before rest st1)"
    using 2(1) 2(2) by (simp add: st1_def)
  from threads_gone_trans [OF one this [unfolded G]]
  have "threads_gone (?H \<union> {} \<union> ?G st) st (retain_threads before rest st1)" .
  moreover have "{(s, t). \<exists>ths th. (s, ths) \<in> set ((scope, threads) # rest) \<and> gget ths t = Some th
      \<and> thread_old before th (read3 (assistantTurns st) s t)} = ?H \<union> {} \<union> ?G st"
    by (auto simp: al.entries_get)
  ultimately show ?case by (simp add: st1_def)
qed simp

lemma read2_retain_messages:
  "distinct (map fst es) \<Longrightarrow> read2 (fst (retain_messages before runs es m d)) s i =
     (case map_of es s of None \<Rightarrow> read2 m s i
      | Some inner \<Rightarrow> gget (gdel_where (message_expired before (gread runs s)) inner) i)"
  by (induction before runs es m d rule: retain_messages.induct)
    (auto simp: gomap_simps map_of_eq_None_iff image_iff Let_def split: option.splits)

text \<open>What \<open>DeleteMessagesOlderThan\<close> does, loop by loop.\<close>

lemma protected_iff:
  "protected (gread runs s) i \<longleftrightarrow> (\<exists>j r. read2 runs s j = Some r
     \<and> \<not> assistantRunStatusTerminal (run_Status r) \<and> i \<in> set (run_message_ids r))"
  unfolding protected_def list_ex_iff Bex_def gvalues_iff read2_def by blast

lemma DeleteMessagesOlderThan_loops:
  assumes "DeleteMessagesOlderThan before st = (r, st')"
  obtains n kept st2 where "r = Ok n"
    "\<And>s i. read2 kept s i = (case read2 (messages st) s i of None \<Rightarrow> None
       | Some x \<Rightarrow> if message_expired before (gread (assistantRuns st) s) i x then None else Some x)"
    "runs_gone {(s, i). \<exists>x. read2 (assistantRuns st) s i = Some x \<and> run_expired before x}
       (st\<lparr>messages := kept\<rparr>) st2"
    "threads_gone {(s, t). \<exists>th. read2 (assistantThreads st) s t = Some th
         \<and> thread_old before th (read3 (assistantTurns st) s t)} st2 st'"
proof -
  obtain kept d where k: "retain_messages before (assistantRuns st) (gentries (messages st)) (messages st) 0
      = (kept, d)" by fastforce
  obtain st2 n where ru: "retain_runs before (gentries (assistantRuns st)) (st\<lparr>messages := kept\<rparr>) d = (st2, n)"
    by fastforce
  have "r = Ok n" and st': "st' = retain_threads before (gentries (assistantThreads st2)) st2"
    using assms by (auto simp: DeleteMessagesOlderThan_def k ru)
  have "read2 kept s i = (case read2 (messages st) s i of None \<Rightarrow> None
      | Some x \<Rightarrow> if message_expired before (gread (assistantRuns st) s) i x then None else Some x)" for s i
    using read2_retain_messages [of "gentries (messages st)" before "assistantRuns st" "messages st" 0 s i]
    unfolding map_of_gentries gget_gdel_where
    by (simp add: k al.entries_distinct) (simp add: read2_def gread_def [of "messages st"] split: option.splits)
  moreover have gone: "runs_gone {(s, i). \<exists>x. read2 (assistantRuns st) s i = Some x \<and> run_expired before x}
       (st\<lparr>messages := kept\<rparr>) st2"
    using retain_runs_gone [of "gentries (assistantRuns st)" before "st\<lparr>messages := kept\<rparr>" d]
    by (simp only: ru fst_conv read2_entries)
  moreover have "threads_gone {(s, t). \<exists>th. read2 (assistantThreads st) s t = Some th
         \<and> thread_old before th (read3 (assistantTurns st) s t)} st2 st'"
    using retain_threads_gone [OF al.entries_distinct, of "assistantThreads st2" before st2]
      runs_gone_frame(3,4) [OF gone]
    by (simp only: st' read2_entries MemoryStore.select_convs MemoryStore.update_convs)
      (simp add: st')
  ultimately show ?thesis using that \<open>r = Ok n\<close> by blast
qed


section \<open>Deleting one thread\<close>

lemma forget_turn_runs_reads:
  assumes "forget_turn_runs scope us ids st = (ids', st')"
  shows "st' = st\<lparr>assistantRuns := assistantRuns st', assistantEvents := assistantEvents st',
        assistantEventLookup := assistantEventLookup st'\<rparr>
     \<and> (\<forall>s i. read2 (assistantRuns st') s i = (if s = scope \<and> i \<in> set us then None else read2 (assistantRuns st) s i))
     \<and> (\<forall>s i. slice2 (assistantEvents st') s i =
          (if s = scope \<and> i \<in> set us \<and> read2 (assistantRuns st) s i \<noteq> None then [] else slice2 (assistantEvents st) s i))
     \<and> (\<forall>s i t. slice2 (assistantEventLookup st') s (i, t) =
          (if s = scope \<and> i \<in> set us then [] else slice2 (assistantEventLookup st) s (i, t)))
     \<and> set ids' = set ids \<union> {m. \<exists>u \<in> set us. \<exists>run. read2 (assistantRuns st) scope u = Some run
          \<and> m \<in> set (run_message_ids run)}"
  using assms
proof (induction scope us ids st rule: forget_turn_runs.induct)
  case (2 scope u rest ids st)
  define ids1 where "ids1 = (case read2 (assistantRuns st) scope u of None \<Rightarrow> ids | Some run \<Rightarrow> ids @ run_message_ids run)"
  define st1 where "st1 = (case read2 (assistantRuns st) scope u of None \<Rightarrow> st
    | Some run \<Rightarrow> st\<lparr>assistantRuns := remove2 scope u (assistantRuns st),
        assistantEvents := remove2 scope u (assistantEvents st)\<rparr>)"
  define st2 where "st2 = st1\<lparr>assistantEventLookup := del_inner (\<lambda>key _. fst key = u) scope (assistantEventLookup st1)\<rparr>"
  have pair: "(case read2 (assistantRuns st) scope u of None \<Rightarrow> (ids, st)
      | Some run \<Rightarrow> (ids @ run_message_ids run,
          st\<lparr>assistantRuns := remove2 scope u (assistantRuns st), assistantEvents := remove2 scope u (assistantEvents st)\<rparr>))
      = (ids1, st1)" by (simp add: ids1_def st1_def split: option.split)
  have rest: "forget_turn_runs scope rest ids1 st2 = (ids', st')"
    using 2(2) by (simp add: pair st2_def)
  have frame: "st2 = st\<lparr>assistantRuns := assistantRuns st2, assistantEvents := assistantEvents st2,
      assistantEventLookup := assistantEventLookup st2\<rparr>"
    by (simp add: st2_def st1_def split: option.split)
  have runs: "read2 (assistantRuns st2) s i = (if s = scope \<and> i = u then None else read2 (assistantRuns st) s i)" for s i
    by (auto simp: st2_def st1_def gomap_simps split: option.split)
  have events: "slice2 (assistantEvents st2) s i = (if s = scope \<and> i = u \<and> read2 (assistantRuns st) s i \<noteq> None
      then [] else slice2 (assistantEvents st) s i)" for s i
    by (auto simp: st2_def st1_def gomap_simps split: option.split)
  have lookup: "slice2 (assistantEventLookup st2) s (i, t) = (if s = scope \<and> i = u then []
      else slice2 (assistantEventLookup st) s (i, t))" for s i t
    by (simp add: st2_def st1_def gomap_simps split: option.split)
  have ids: "set ids1 = set ids \<union> {m. \<exists>run. read2 (assistantRuns st) scope u = Some run \<and> m \<in> set (run_message_ids run)}"
    by (simp add: ids1_def split: option.split)
  note IH = 2(1) [OF pair [symmetric] refl rest [unfolded st2_def], folded st2_def]
  have "st' = st\<lparr>assistantRuns := assistantRuns st', assistantEvents := assistantEvents st',
        assistantEventLookup := assistantEventLookup st'\<rparr>"
    using frame conjunct1 [OF IH] by (cases st, cases st2, cases st') simp
  then show ?case
    using conjunct2 [OF IH] by (auto simp: runs events lookup ids)
qed simp


lemma read2_fold_remove2:
  "read2 (fold (\<lambda>i m. remove2 scope i m) ids m) s j = (if s = scope \<and> j \<in> set ids then None else read2 m s j)"
  by (induction ids arbitrary: m) (auto simp: gomap_simps)

text \<open>The runs of a thread are the runs that have the ID of one of its turns.\<close>

definition runs_of :: "MemoryStore \<Rightarrow> Scope \<Rightarrow> string \<Rightarrow> (Scope \<times> string) set" where
  "runs_of st scope tid = {(s, u). s = scope \<and> read3 (assistantTurns st) scope tid u \<noteq> None}"

definition run_messages :: "MemoryStore \<Rightarrow> (Scope \<times> string) set \<Rightarrow> Scope \<Rightarrow> string \<Rightarrow> bool" where
  "run_messages st G s i \<longleftrightarrow> (\<exists>u run. (s, u) \<in> G \<and> read2 (assistantRuns st) s u = Some run
     \<and> i \<in> set (run_message_ids run))"

lemma gread_forget_turn_items:
  "forget_turn_items scope turns st = st\<lparr>conversationItems := conversationItems (forget_turn_items scope turns st)\<rparr>"
  "gread (conversationItems (forget_turn_items scope turns st)) s =
     (if s = scope then filter (\<lambda>x. gget turns (item_RunID x) = None) (gread (conversationItems st) s)
      else gread (conversationItems st) s)"
  by (simp_all add: forget_turn_items_def Let_def gomap_simps)

text \<open>The first half of the deletion: the messages and the runs of the turns.\<close>

lemma forget_turns:
  assumes inv: "run_events_inv st" and G: "G = runs_of st scope tid"
    and turns: "turns = slice2 (assistantTurns st) scope tid"
    and f: "forget_turn_runs scope (map fst (gentries turns)) [] st = (ids, st1)"
    and st2: "st2 = forget_turn_items scope turns
        (st1\<lparr>messages := fold (\<lambda>i m. remove2 scope i m) ids (messages st1)\<rparr>)"
  shows "(\<forall>s i. read2 (messages st2) s i = (if run_messages st G s i then None else read2 (messages st) s i))
    \<and> runs_gone G (st\<lparr>messages := messages st2\<rparr>) st2"
proof -
  note r = forget_turn_runs_reads [OF f]
  have keys: "i \<in> set (map fst (gentries turns)) \<longleftrightarrow> read3 (assistantTurns st) scope tid i \<noteq> None" for i
    unfolding al.entry_keys by (simp add: turns read3_def)
  have g: "(s, i) \<in> G \<longleftrightarrow> s = scope \<and> i \<in> set (map fst (gentries turns))" for s i
    by (simp only: keys G runs_of_def mem_Collect_eq prod.case)
  have frame: "st1 = st\<lparr>assistantRuns := assistantRuns st1, assistantEvents := assistantEvents st1,
      assistantEventLookup := assistantEventLookup st1\<rparr>" using r by blast
  have same: "messages st1 = messages st" "conversationItems st1 = conversationItems st"
    by (subst frame, simp)+
  have f2: "st2 = st1\<lparr>messages := messages st2, conversationItems := conversationItems st2\<rparr>"
    unfolding st2 by (subst gread_forget_turn_items(1), simp add: forget_turn_items_def Let_def)
  have proj: "assistantRuns st2 = assistantRuns st1" "assistantEvents st2 = assistantEvents st1"
    "assistantEventLookup st2 = assistantEventLookup st1"
    by (subst f2, simp)+
  have "messages st2 = fold (\<lambda>i m. remove2 scope i m) ids (messages st)"
    by (simp add: st2 same forget_turn_items_def Let_def)
  moreover have "i \<in> set ids \<longleftrightarrow> run_messages st G scope i" for i
    using r by (auto simp: run_messages_def g)
  moreover have "\<not> run_messages st G s i" if "s \<noteq> scope" for s i
    using that by (simp add: run_messages_def g)
  ultimately have m: "read2 (messages st2) s i = (if run_messages st G s i then None else read2 (messages st) s i)" for s i
    by (cases "s = scope") (simp_all add: read2_fold_remove2)
  have "st2 = st\<lparr>messages := messages st2, assistantRuns := assistantRuns st2, assistantEvents := assistantEvents st2,
      assistantEventLookup := assistantEventLookup st2, conversationItems := conversationItems st2\<rparr>"
    using frame f2 by (cases st, cases st1, cases st2) simp
  moreover have "slice2 (assistantEvents st2) s i = (if (s, i) \<in> G then [] else slice2 (assistantEvents st) s i)" for s i
  proof -
    have "slice2 (assistantEvents st) s i = []" if "read2 (assistantRuns st) s i = None"
    proof -
      have "run_log_ok st s i" using inv by (simp add: run_events_inv_def)
      with that show ?thesis unfolding run_log_ok_def Let_def by blast
    qed
    then show ?thesis using r by (auto simp: proj g)
  qed
  moreover have "gread (conversationItems st2) s = filter (\<lambda>x. (s, item_RunID x) \<notin> G) (gread (conversationItems st) s)" for s
  proof (cases "s = scope")
    case True
    have "(s, i) \<notin> G \<longleftrightarrow> gget turns i = None" for i
      unfolding g keys by (simp add: True turns read3_def)
    with True show ?thesis by (simp add: st2 gread_forget_turn_items(2) same)
  next
    case False
    then show ?thesis by (simp add: st2 gread_forget_turn_items(2) same g)
  qed
  ultimately have "runs_gone G (st\<lparr>messages := messages st2\<rparr>) st2"
    using r unfolding runs_gone_def by (auto simp: proj g)
  with m show ?thesis by blast
qed


lemma forget_attachments_frame:
  "forget_attachments P scope st = st\<lparr>attachments := attachments (forget_attachments P scope st)\<rparr>"
  by (simp add: forget_attachments_def)

lemma read2_forget_attachments:
  "read2 (attachments (forget_attachments P scope st)) s i = (case read2 (attachments st) s i of None \<Rightarrow> None
     | Some a \<Rightarrow> if s = scope \<and> P a then None else Some a)"
  by (auto simp: forget_attachments_def gomap_simps split: option.splits) (auto simp: read2_def)

text \<open>
  What \<open>DeleteAssistantThread\<close> does. On an error nothing changes; on success the thread, its
  log, its turns, their runs with their events, items and messages, and the attachments bound
  to the turns are gone, and all turns had ended.
\<close>

lemma DeleteAssistantThread_cases:
  assumes "DeleteAssistantThread scope threadID actorID st = (r, st')" "run_events_inv st" "thread_inv st"
  obtains (rejected) e where "r = Err e" "st' = st"
  | (deleted) tid thread st2 st3 where "tid = TrimSpace threadID" "r = Ok ()"
      "read2 (assistantThreads st) scope tid = Some thread" "thread_ActorID thread = TrimSpace actorID"
      "\<And>u a. read3 (assistantTurns st) scope tid u = Some a \<Longrightarrow> assistantTurnStatusTerminal (turn_Status a)"
      "\<And>s i. read2 (messages st2) s i =
         (if run_messages st (runs_of st scope tid) s i then None else read2 (messages st) s i)"
      "runs_gone (runs_of st scope tid) (st\<lparr>messages := messages st2\<rparr>) st2"
      "threads_gone {(scope, tid)} st2 st3"
      "runs_gone {} (st3\<lparr>messages := messages st'\<rparr>) st'"
      "\<And>s i. read2 (messages st') s i = read2 (messages st2) s i"
proof (cases r)
  case Panic
  with assms(1) show ?thesis
    by (auto simp: DeleteAssistantThread_def Let_def split: option.splits if_splits)
next
  case (Err e)
  with assms(1) show ?thesis
    by (intro rejected [of e]) (auto simp: DeleteAssistantThread_def Let_def split: option.splits if_splits)
next
  case (Ok x)
  define tid where "tid = TrimSpace threadID"
  define turns where "turns = slice2 (assistantTurns st) scope tid"
  define st2 where "st2 = (if turns = [] then st
     else (case forget_turn_runs scope (map fst (gentries turns)) [] st of
       (ids, st1) \<Rightarrow> forget_turn_items scope turns
         (st1\<lparr>messages := fold (\<lambda>i m. remove2 scope i m) ids (messages st1)\<rparr>)))"
  let ?owned = "\<lambda>a. att_BindingID a \<in> set (map turn_ID (gvalues turns))"
  define st3 where "st3 = prune_threads scope (forget_thread scope tid (forget_attachments ?owned scope st2))"
  from assms(1) Ok obtain thread where t: "read2 (assistantThreads st) scope tid = Some thread"
    "thread_ActorID thread = TrimSpace actorID"
    and ended: "\<forall>a \<in> set (gvalues turns). assistantTurnStatusTerminal (turn_Status a)"
    by (auto simp: DeleteAssistantThread_def Let_def tid_def turns_def list_ex_iff split: option.splits if_splits)
  have st': "st' = (prune_runs scope st3)\<lparr>messages := prune scope (messages (prune_runs scope st3))\<rparr>"
    using assms(1) Ok t(1)
    by (simp add: DeleteAssistantThread_def Let_def tid_def turns_def st2_def st3_def split: option.splits if_splits)
  have first: "(\<forall>s i. read2 (messages st2) s i =
       (if run_messages st (runs_of st scope tid) s i then None else read2 (messages st) s i))
    \<and> runs_gone (runs_of st scope tid) (st\<lparr>messages := messages st2\<rparr>) st2"
  proof (cases "turns = []")
    case True
    then have "runs_of st scope tid = {}" by (simp add: runs_of_def turns_def read3_def)
    with True show ?thesis by (simp add: st2_def run_messages_def)
  next
    case False
    obtain ids st1 where f: "forget_turn_runs scope (map fst (gentries turns)) [] st = (ids, st1)" by fastforce
    show ?thesis
      by (rule forget_turns [OF assms(2) refl turns_def f]) (simp add: st2_def False f)
  qed
  have turns2: "assistantTurns st2 = assistantTurns st"
    using runs_gone_frame(4) [OF conjunct2 [OF first]] by simp
  have tu: "turns_ok thread (read3 (assistantTurns st) scope tid)" by (rule thread_okD(2) [OF assms(3) t(1)])
  have own: "?owned a \<longleftrightarrow> gget (slice2 (assistantTurns st2) scope tid) (att_BindingID a) \<noteq> None" for a
  proof -
    have "turn_ID v = k" if "gget turns k = Some v" for k v
      using tu that by (simp add: turns_ok_def turns_def read3_def)
    then have "?owned a \<longleftrightarrow> (\<exists>v. gget turns (att_BindingID a) = Some v)"
      by (auto simp: image_iff gvalues_iff Bex_def)
    then show ?thesis by (simp add: turns2 turns_def)
  qed
  have "st3 = prune_threads scope (forget_thread scope tid (forget_attachments
      (\<lambda>a. gget (slice2 (assistantTurns st2) scope tid) (att_BindingID a) \<noteq> None) scope st2))"
    unfolding st3_def own ..
  with threads_gone_trans [OF threads_gone_forget threads_gone_prune]
  have "threads_gone {(scope, tid)} st2 st3" by simp
  moreover have "runs_gone {} (st3\<lparr>messages := messages st'\<rparr>) st'"
    by (simp add: st' prune_runs_def runs_gone_def gomap_simps)
  moreover have "read2 (messages st') s i = read2 (messages st2) s i" for s i
    using threads_gone_frame(1) [OF calculation(1)] by (simp add: st' prune_runs_def gomap_simps)
  moreover have "assistantTurnStatusTerminal (turn_Status a)" if "read3 (assistantTurns st) scope tid u = Some a" for u a
    using that ended by (auto simp: turns_def read3_def gvalues_iff)
  ultimately show ?thesis
    using first t Ok by (intro deleted [of tid thread st2 st3]) (auto simp: tid_def)
qed

end
