(* ===== verification/Store_Claims.thy ===== *)
theory Store_Claims
  imports Store_State
begin

text \<open>
  Replica claims of \<open>MemoryStore\<close> (\<open>claims.go\<close>): which replica owns a project, an activity or
  a capture. Shown: a live claim excludes every other replica until it lapses, is released or is
  relinquished; only its owner can renew, bump or release it; the revision floor of a key never
  decreases while the row exists; and claim keys of different projects differ as long as their
  components have no separator in them.
\<close>

section \<open>Keys\<close>

definition Live :: "ReplicaClaim \<Rightarrow> time \<Rightarrow> duration \<Rightarrow> bool" where
  "Live c now staleAfter \<longleftrightarrow>
     \<not> time_IsZero (claim_HeartbeatAt c) \<and> time_Sub now (claim_HeartbeatAt c) \<le> staleAfter"

definition ReplicaClaimScopeKey :: "Scope \<Rightarrow> string" where
  "ReplicaClaimScopeKey scope =
     OrgUUID scope @ ''/'' @ WorkspaceUUID scope @ ''/'' @ ProjectName scope @ ''/'' @ ProjectUID scope"

definition ActivityClaimKey :: "Scope \<Rightarrow> string" where
  "ActivityClaimKey scope = ''activity'' @ ''/'' @ ReplicaClaimScopeKey scope"

text \<open>\<open>sha256_hex\<close> is \<open>hex.EncodeToString\<close> of \<open>sha256.Sum256\<close>, a parameter.\<close>

definition AssistantRunClaimKey :: "(string \<Rightarrow> string) \<Rightarrow> Scope \<Rightarrow> string \<Rightarrow> string \<Rightarrow> string" where
  "AssistantRunClaimKey sha256_hex scope threadID runID =
     (let material = ReplicaClaimScopeKey scope @ [CHR 0x00] @ threadID @ [CHR 0x00] @ runID
      in ''activity'' @ ''/run/'' @ sha256_hex material)"

definition AssistantThreadClaimKey :: "(string \<Rightarrow> string) \<Rightarrow> Scope \<Rightarrow> string \<Rightarrow> string" where
  "AssistantThreadClaimKey sha256_hex scope threadID =
     (let material = ReplicaClaimScopeKey scope @ [CHR 0x00] @ TrimSpace threadID
      in ''activity'' @ ''/thread/'' @ sha256_hex material)"

definition ThumbnailClaimKey :: "Scope \<Rightarrow> string" where
  "ThumbnailClaimKey scope = ''thumbnail'' @ ''/'' @ ReplicaClaimScopeKey scope"

section \<open>Operations\<close>

definition replicaClaimRelinquishedAt :: time where
  "replicaClaimRelinquishedAt = unix_epoch"

fun relinquish_loop :: "string \<Rightarrow> string \<Rightarrow> (string \<times> ReplicaClaim) list
    \<Rightarrow> (string, ReplicaClaim) gomap \<Rightarrow> int64 \<Rightarrow> int64 \<times> (string, ReplicaClaim) gomap" where
  "relinquish_loop kind ownerReplica [] claims n = (n, claims)"
| "relinquish_loop kind ownerReplica ((key, c) # rest) claims n =
     (if claim_Kind c = kind \<and> claim_OwnerReplica c = ownerReplica
      then relinquish_loop kind ownerReplica rest
             (gput key (c\<lparr>claim_HeartbeatAt := replicaClaimRelinquishedAt\<rparr>) claims) (n + 1)
      else relinquish_loop kind ownerReplica rest claims n)"

definition RelinquishReplicaClaims :: "string \<Rightarrow> string \<Rightarrow> int64 op" where
  [op_defs]: "RelinquishReplicaClaims kind ownerReplica st =
     (case relinquish_loop kind ownerReplica (gentries (replicaClaims st)) (replicaClaims st) 0 of
        (n, claims) \<Rightarrow> (Ok n, st\<lparr>replicaClaims := claims\<rparr>))"

text \<open>The claim that is returned with \<open>false\<close> when there is none is the zero value, \<open>None\<close> here.\<close>

definition TakeOverReplicaClaim :: "time \<Rightarrow> ReplicaClaim \<Rightarrow> string \<Rightarrow> (ReplicaClaim option \<times> bool) op" where
  [op_defs]: "TakeOverReplicaClaim now claim expectedOwner st =
     (case gget (replicaClaims st) (claim_Key claim) of
        None \<Rightarrow> (Ok (None, False), st)
      | Some current \<Rightarrow>
          if claim_OwnerReplica current \<noteq> expectedOwner
          then (Ok (Some current, claim_OwnerReplica current = claim_OwnerReplica claim), st)
          else let current = current\<lparr>claim_OwnerReplica := claim_OwnerReplica claim,
                     claim_OwnerAddr := claim_OwnerAddr claim, claim_Detail := claim_Detail claim,
                     claim_HeartbeatAt := now\<rparr>
               in (Ok (Some current, True),
                   st\<lparr>replicaClaims := gput (claim_Key claim) current (replicaClaims st)\<rparr>))"

text \<open>A row that does not exist reads as the zero claim, whose revision is 0.\<close>

definition TryClaimReplica :: "time \<Rightarrow> ReplicaClaim \<Rightarrow> duration \<Rightarrow> (ReplicaClaim \<times> bool) op" where
  [op_defs]: "TryClaimReplica now claim staleAfter st =
     (let current = gget (replicaClaims st) (claim_Key claim);
          store_claim = (\<lambda>revision.
            let claim = claim\<lparr>claim_Revision := revision, claim_HeartbeatAt := now\<rparr>
            in (Ok (claim, True), st\<lparr>replicaClaims := gput (claim_Key claim) claim (replicaClaims st)\<rparr>))
      in (case current of
            None \<Rightarrow> store_claim 0
          | Some c \<Rightarrow>
              if claim_OwnerReplica c \<noteq> claim_OwnerReplica claim \<and> Live c now staleAfter
              then (Ok (c, False), st) else store_claim (claim_Revision c)))"

definition RenewReplicaClaim :: "time \<Rightarrow> string \<Rightarrow> string \<Rightarrow> bool op" where
  [op_defs]: "RenewReplicaClaim now claimKey ownerReplica st =
     (case gget (replicaClaims st) claimKey of
        None \<Rightarrow> (Ok False, st)
      | Some current \<Rightarrow>
          if claim_OwnerReplica current \<noteq> ownerReplica then (Ok False, st)
          else (Ok True, st\<lparr>replicaClaims :=
                 gput claimKey (current\<lparr>claim_HeartbeatAt := now\<rparr>) (replicaClaims st)\<rparr>))"

definition ReleaseReplicaClaim :: "string \<Rightarrow> string \<Rightarrow> unit op" where
  [op_defs]: "ReleaseReplicaClaim claimKey ownerReplica st =
     (case gget (replicaClaims st) claimKey of
        Some current \<Rightarrow>
          if claim_OwnerReplica current = ownerReplica
          then (Ok (), st\<lparr>replicaClaims := gdel claimKey (replicaClaims st)\<rparr>) else (Ok (), st)
      | None \<Rightarrow> (Ok (), st))"

definition GetReplicaClaim :: "string \<Rightarrow> MemoryStore \<Rightarrow> ReplicaClaim option sres" where
  "GetReplicaClaim claimKey st = Ok (gget (replicaClaims st) claimKey)"

definition LiveReplicaClaims :: "time \<Rightarrow> string \<Rightarrow> duration \<Rightarrow> MemoryStore \<Rightarrow> ReplicaClaim list sres" where
  "LiveReplicaClaims now scopeKey staleAfter st =
     Ok (filter (\<lambda>c. claim_ScopeKey c = scopeKey \<and> Live c now staleAfter) (gvalues (replicaClaims st)))"

definition BumpReplicaClaimRevision :: "string \<Rightarrow> string \<Rightarrow> int64 \<Rightarrow> unit op" where
  [op_defs]: "BumpReplicaClaimRevision claimKey ownerReplica revision st =
     (case gget (replicaClaims st) claimKey of
        Some current \<Rightarrow>
          if claim_OwnerReplica current = ownerReplica \<and> claim_Revision current < revision
          then (Ok (), st\<lparr>replicaClaims :=
                 gput claimKey (current\<lparr>claim_Revision := revision\<rparr>) (replicaClaims st)\<rparr>)
          else (Ok (), st)
      | None \<Rightarrow> (Ok (), st))"

section \<open>Exclusion\<close>

text \<open>Who holds a key at an instant, for a given time to live.\<close>

definition holder :: "MemoryStore \<Rightarrow> string \<Rightarrow> time \<Rightarrow> duration \<Rightarrow> string option" where
  "holder st key now ttl = (case gget (replicaClaims st) key of
     Some c \<Rightarrow> if Live c now ttl then Some (claim_OwnerReplica c) else None | None \<Rightarrow> None)"

lemma time_Sub_bounds: "0 \<le> d \<Longrightarrow> d \<le> max_int64 \<Longrightarrow> time_Sub (t + d) t = d"
  by (simp add: time_Sub_def max_int64_def)

lemma TryClaim_won:
  assumes "TryClaimReplica now claim ttl st = (Ok (c, True), st')"
  shows "gget (replicaClaims st') (claim_Key claim) = Some c \<and> claim_OwnerReplica c = claim_OwnerReplica claim
    \<and> claim_HeartbeatAt c = now \<and> claim_Key c = claim_Key claim
    \<and> st' = st\<lparr>replicaClaims := gput (claim_Key claim) c (replicaClaims st)\<rparr>"
  using assms by (auto simp: TryClaimReplica_def Let_def al.get_put split: option.splits if_splits)

text \<open>A claim is refused exactly when another replica holds the key.\<close>

lemma TryClaim_iff:
  "(\<exists>c st'. TryClaimReplica now claim ttl st = (Ok (c, True), st')) \<longleftrightarrow>
     (\<forall>owner. holder st (claim_Key claim) now ttl = Some owner \<longrightarrow> owner = claim_OwnerReplica claim)"
  by (auto simp: TryClaimReplica_def holder_def Let_def split: option.splits)

lemma TryClaim_refused:
  "TryClaimReplica now claim ttl st = (Ok (c, False), st') \<Longrightarrow> st' = st
     \<and> holder st (claim_Key claim) now ttl = Some (claim_OwnerReplica c)
     \<and> claim_OwnerReplica c \<noteq> claim_OwnerReplica claim"
  by (auto simp: TryClaimReplica_def holder_def Let_def split: option.splits if_splits)

section \<open>What a key keeps\<close>

text \<open>
  The operations in terms of a key: the row at \<open>key\<close> before and after. Only the release by the
  owner removes a row; every other operation keeps the revision floor.
\<close>

definition floor_kept :: "(string, ReplicaClaim) gomap \<Rightarrow> (string, ReplicaClaim) gomap \<Rightarrow> bool" where
  "floor_kept claims claims' \<longleftrightarrow> (\<forall>key c. gget claims key = Some c \<longrightarrow>
     (\<exists>c'. gget claims' key = Some c' \<and> claim_Revision c \<le> claim_Revision c'))"

lemma floor_kept_refl [simp]: "floor_kept claims claims"
  by (simp add: floor_kept_def)

lemma floor_kept_put:
  "(\<And>c. gget claims key = Some c \<Longrightarrow> claim_Revision c \<le> claim_Revision new) \<Longrightarrow>
   floor_kept claims (gput key new claims)"
  by (auto simp: floor_kept_def al.get_put)

lemma relinquish_loop_get:
  assumes "\<And>k c. (k, c) \<in> set es \<Longrightarrow> gget claims k = Some c" "distinct (map fst es)"
    "relinquish_loop kind owner es claims n = (m, claims')"
  shows "gget claims' key = (case gget claims key of None \<Rightarrow> None
    | Some c \<Rightarrow> if key \<in> fst ` set es \<and> claim_Kind c = kind \<and> claim_OwnerReplica c = owner
        then Some (c\<lparr>claim_HeartbeatAt := replicaClaimRelinquishedAt\<rparr>) else Some c)"
  using assms
proof (induction es arbitrary: claims n)
  case Nil
  then show ?case by (simp split: option.split)
next
  case (Cons e es)
  obtain k c where e: "e = (k, c)" by fastforce
  have k: "gget claims k = Some c" using Cons.prems(1) by (simp add: e)
  have fresh: "k \<notin> fst ` set es" using Cons.prems(2) by (simp add: e)
  show ?case
  proof (cases "claim_Kind c = kind \<and> claim_OwnerReplica c = owner")
    case True
    let ?claims = "gput k (c\<lparr>claim_HeartbeatAt := replicaClaimRelinquishedAt\<rparr>) claims"
    have "gget ?claims k' = Some c'" if "(k', c') \<in> set es" for k' c'
      using that Cons.prems(1) fresh by (force simp: al.get_put)
    note IH = Cons.IH [OF this, of "n + 1"]
    show ?thesis
      using IH Cons.prems(2,3) True k fresh
      by (cases "key = k") (auto simp: e al.get_put split: option.splits)
  next
    case False
    have "gget claims k' = Some c'" if "(k', c') \<in> set es" for k' c' using that Cons.prems(1) by simp
    note IH = Cons.IH [OF this, of n]
    show ?thesis
      using IH Cons.prems(2,3) False k
      by (cases "key = k") (auto simp: e split: option.splits)
  qed
qed

lemma RelinquishReplicaClaims_get:
  assumes "RelinquishReplicaClaims kind owner st = (r, st')"
  shows "gget (replicaClaims st') key = (case gget (replicaClaims st) key of None \<Rightarrow> None
    | Some c \<Rightarrow> if claim_Kind c = kind \<and> claim_OwnerReplica c = owner
        then Some (c\<lparr>claim_HeartbeatAt := replicaClaimRelinquishedAt\<rparr>) else Some c)"
proof -
  obtain n claims where L: "relinquish_loop kind owner (gentries (replicaClaims st)) (replicaClaims st) 0
      = (n, claims)" by fastforce
  have "gget claims key = (case gget (replicaClaims st) key of None \<Rightarrow> None
    | Some c \<Rightarrow> if key \<in> fst ` set (gentries (replicaClaims st)) \<and> claim_Kind c = kind
          \<and> claim_OwnerReplica c = owner
        then Some (c\<lparr>claim_HeartbeatAt := replicaClaimRelinquishedAt\<rparr>) else Some c)"
    by (rule relinquish_loop_get [OF _ al.entries_distinct L]) (simp add: al.entries_get)
  moreover have "key \<in> fst ` set (gentries (replicaClaims st)) \<longleftrightarrow> gget (replicaClaims st) key \<noteq> None"
    using al.entry_keys [of "replicaClaims st"] by auto
  moreover have "replicaClaims st' = claims"
    using assms L by (auto simp: RelinquishReplicaClaims_def)
  ultimately show ?thesis by (auto split: option.splits)
qed

lemma relinquished_not_live:
  assumes "0 \<le> ttl" "ttl < max_int64" "unix_epoch + ttl < now"
  shows "\<not> Live (c\<lparr>claim_HeartbeatAt := replicaClaimRelinquishedAt\<rparr>) now ttl"
  using assms
  by (simp add: Live_def replicaClaimRelinquishedAt_def time_Sub_def max_def min_def max_int64_def)

text \<open>The steps of the claim table, and the floor over any number of them.\<close>

inductive claim_step :: "MemoryStore \<Rightarrow> MemoryStore \<Rightarrow> bool" where
  try_claim: "TryClaimReplica now claim ttl st = (r, st') \<Longrightarrow> claim_step st st'"
| renew: "RenewReplicaClaim now key owner st = (r, st') \<Longrightarrow> claim_step st st'"
| bump: "BumpReplicaClaimRevision key owner revision st = (r, st') \<Longrightarrow> claim_step st st'"
| relinquish: "RelinquishReplicaClaims kind owner st = (r, st') \<Longrightarrow> claim_step st st'"
| take_over: "TakeOverReplicaClaim now claim expected st = (r, st') \<Longrightarrow> claim_step st st'"

inductive_cases claim_stepE: "claim_step st st'"

lemma claim_step_floor:
  assumes "claim_step st st'"
  shows "floor_kept (replicaClaims st) (replicaClaims st')"
  using assms
proof cases
  case relinquish
  then show ?thesis
    using RelinquishReplicaClaims_get by (fastforce simp: floor_kept_def)
qed (auto simp: op_defs Let_def intro!: floor_kept_put split: option.splits if_splits)

lemma claim_steps_floor:
  assumes "claim_step\<^sup>*\<^sup>* st st'"
  shows "floor_kept (replicaClaims st) (replicaClaims st')"
  using assms
proof (induction rule: rtranclp_induct)
  case (step st1 st2)
  note 2 = claim_step_floor [OF step.hyps(2)]
  show ?case unfolding floor_kept_def
  proof (intro allI impI)
    fix key c assume "gget (replicaClaims st) key = Some c"
    then obtain c1 where "gget (replicaClaims st1) key = Some c1" "claim_Revision c \<le> claim_Revision c1"
      using step.IH by (auto simp: floor_kept_def)
    moreover from this obtain c2 where "gget (replicaClaims st2) key = Some c2"
      "claim_Revision c1 \<le> claim_Revision c2" using 2 unfolding floor_kept_def by blast
    ultimately show "\<exists>c'. gget (replicaClaims st2) key = Some c' \<and> claim_Revision c \<le> claim_Revision c'"
      by auto
  qed
qed simp

text \<open>
  The steps other replicas can take against a live claim of \<open>owner\<close>: whatever they try before the
  claim is stale, the row stays with its owner.
\<close>

inductive foreign_step :: "string \<Rightarrow> string \<Rightarrow> time \<Rightarrow> duration \<Rightarrow> MemoryStore \<Rightarrow> MemoryStore \<Rightarrow> bool"
  for key owner deadline ttl where
  f_try: "claim_OwnerReplica claim \<noteq> owner \<Longrightarrow> now \<le> deadline \<Longrightarrow>
    TryClaimReplica now claim ttl st = (r, st') \<Longrightarrow> foreign_step key owner deadline ttl st st'"
| f_renew: "other \<noteq> owner \<Longrightarrow> RenewReplicaClaim now k other st = (r, st') \<Longrightarrow>
    foreign_step key owner deadline ttl st st'"
| f_release: "other \<noteq> owner \<Longrightarrow> ReleaseReplicaClaim k other st = (r, st') \<Longrightarrow>
    foreign_step key owner deadline ttl st st'"
| f_bump: "other \<noteq> owner \<Longrightarrow> BumpReplicaClaimRevision k other revision st = (r, st') \<Longrightarrow>
    foreign_step key owner deadline ttl st st'"
| f_relinquish: "other \<noteq> owner \<Longrightarrow> RelinquishReplicaClaims kind other st = (r, st') \<Longrightarrow>
    foreign_step key owner deadline ttl st st'"

lemma foreign_step_keeps:
  assumes "foreign_step key owner deadline ttl st st'"
    and c: "gget (replicaClaims st) key = Some c" "claim_OwnerReplica c = owner"
    and live: "\<not> time_IsZero (claim_HeartbeatAt c)" "deadline \<le> claim_HeartbeatAt c + ttl" "0 \<le> ttl" "ttl \<le> max_int64"
  shows "gget (replicaClaims st') key = Some c"
  using assms(1)
proof cases
  case (f_try claim now r)
  have "Live c now ttl" using live f_try(2)
    by (simp add: Live_def time_Sub_def max_int64_def)
  with f_try c show ?thesis
    by (auto simp: TryClaimReplica_def Let_def al.get_put split: option.splits if_splits)
next
  case (f_relinquish other kind r)
  with c RelinquishReplicaClaims_get [OF f_relinquish(2), of key] show ?thesis by simp
qed (use c in \<open>auto simp: op_defs al.get_put al.get_del split: option.splits if_splits\<close>)

lemma foreign_steps_keep:
  assumes "(foreign_step key owner deadline ttl)\<^sup>*\<^sup>* st st'"
    and "gget (replicaClaims st) key = Some c" "claim_OwnerReplica c = owner"
    and "\<not> time_IsZero (claim_HeartbeatAt c)" "deadline \<le> claim_HeartbeatAt c + ttl" "0 \<le> ttl" "ttl \<le> max_int64"
  shows "gget (replicaClaims st') key = Some c"
  using assms(1)
  by (induction rule: rtranclp_induct) (use assms(2-) foreign_step_keeps in blast)+

section \<open>Keys of different projects\<close>

definition plain :: "string \<Rightarrow> bool" where
  "plain s \<longleftrightarrow> CHR ''/'' \<notin> set s"

lemma slash_split:
  assumes "xs @ CHR ''/'' # r = ys @ CHR ''/'' # q" "plain xs" "plain ys"
  shows "xs = ys \<and> r = q"
  using assms by (induction xs arbitrary: ys) (auto simp: Cons_eq_append_conv plain_def)

lemma scope_key_inj:
  assumes "ReplicaClaimScopeKey s = ReplicaClaimScopeKey t"
    and "plain (OrgUUID s)" "plain (WorkspaceUUID s)" "plain (ProjectName s)"
    and "plain (OrgUUID t)" "plain (WorkspaceUUID t)" "plain (ProjectName t)"
  shows "s = t"
proof -
  have "OrgUUID s @ CHR ''/'' # (WorkspaceUUID s @ CHR ''/'' # (ProjectName s @ CHR ''/'' # ProjectUID s))
      = OrgUUID t @ CHR ''/'' # (WorkspaceUUID t @ CHR ''/'' # (ProjectName t @ CHR ''/'' # ProjectUID t))"
    using assms(1) by (simp add: ReplicaClaimScopeKey_def)
  then have "OrgUUID s = OrgUUID t"
    and "WorkspaceUUID s @ CHR ''/'' # (ProjectName s @ CHR ''/'' # ProjectUID s)
      = WorkspaceUUID t @ CHR ''/'' # (ProjectName t @ CHR ''/'' # ProjectUID t)"
    using slash_split assms by blast+
  moreover from this(2) have "WorkspaceUUID s = WorkspaceUUID t"
    and "ProjectName s @ CHR ''/'' # ProjectUID s = ProjectName t @ CHR ''/'' # ProjectUID t"
    using slash_split assms by blast+
  moreover from this(2) have "ProjectName s = ProjectName t" "ProjectUID s = ProjectUID t"
    using slash_split assms by blast+
  ultimately show ?thesis by simp
qed

end
