(* ===== verification/Store_Spend.thy ===== *)
theory Store_Spend
  imports Store_State
begin

text \<open>
  Organization spend (\<open>spend.go\<close>, \<open>spend_memory.go\<close>): model usage accumulated per organization and
  UTC calendar month. The calendar of \<open>time.Time\<close> is written out in days of the proleptic
  Gregorian calendar. Shown: the period start is the first instant of the month that contains the
  given one, and a total is the sum of the deltas of its bucket.
\<close>

section \<open>The calendar\<close>

definition nanoseconds_per_day :: int where
  "nanoseconds_per_day = 86400000000000"

definition is_leap :: "int \<Rightarrow> bool" where
  "is_leap y \<longleftrightarrow> y mod 4 = 0 \<and> (y mod 100 \<noteq> 0 \<or> y mod 400 = 0)"

text \<open>Days from January 1 of year 1 to January 1 of year \<open>y\<close>.\<close>

definition days_before_year :: "int \<Rightarrow> int" where
  "days_before_year y = 365 * (y - 1) + (y - 1) div 4 - (y - 1) div 100 + (y - 1) div 400"

definition year_of_day :: "int \<Rightarrow> int" where
  "year_of_day d = (let y = 400 * d div 146097 + 1
     in if d < days_before_year y then y - 1
        else if days_before_year (y + 1) \<le> d then y + 1 else y)"

definition month_starts :: "bool \<Rightarrow> int list" where
  "month_starts leap = (if leap then [0, 31, 60, 91, 121, 152, 182, 213, 244, 274, 305, 335]
     else [0, 31, 59, 90, 120, 151, 181, 212, 243, 273, 304, 334])"

text \<open>The first day of the month that the day \<open>doy\<close> of a year lies in.\<close>

definition month_start :: "bool \<Rightarrow> int \<Rightarrow> int" where
  "month_start leap doy = last (filter (\<lambda>s. s \<le> doy) (month_starts leap))"

lemma div_step:
  assumes "0 < (m :: int)"
  shows "y div m - (y - 1) div m = (if y mod m = 0 then 1 else 0)"
proof (cases "y mod m = 0")
  case True
  then have "y - 1 = m * (y div m - 1) + (m - 1)"
    using mult_div_mod_eq [of m y] by (simp add: algebra_simps)
  then have "(y - 1) div m = y div m - 1" by (rule int_div_pos_eq) (use assms in simp_all)
  with True show ?thesis by simp
next
  case False
  have "0 \<le> y mod m" "y mod m < m" using assms by simp_all
  moreover have "y - 1 = m * (y div m) + (y mod m - 1)"
    using mult_div_mod_eq [of m y] by simp
  ultimately have "(y - 1) div m = y div m" using False by (intro int_div_pos_eq [of _ _ _ "y mod m - 1"]) auto
  with False show ?thesis by simp
qed

lemma days_before_year_step:
  "days_before_year (y + 1) - days_before_year y = (if is_leap y then 366 else 365)"
proof -
  have "(100 :: int) dvd 400" "(4 :: int) dvd 100" by simp_all
  note dvd = dvd_trans [OF this(1), of y] dvd_trans [OF this(2), of y]
  have "y mod 400 = 0 \<Longrightarrow> y mod 100 = 0" "y mod 100 = 0 \<Longrightarrow> y mod 4 = 0"
    unfolding mod_eq_0_iff_dvd by (fact dvd(1), fact dvd(2))
  note 400 = this
  define a a' b b' c c' where "a = y div 4" and "a' = (y - 1) div 4" and "b = y div 100"
    and "b' = (y - 1) div 100" and "c = y div 400" and "c' = (y - 1) div 400"
  note defs = this
  have e: "y + 1 - 1 = y" by simp
  have "a - a' = (if y mod 4 = 0 then 1 else 0)" "b - b' = (if y mod 100 = 0 then 1 else 0)"
    "c - c' = (if y mod 400 = 0 then 1 else 0)"
    unfolding defs by (rule div_step, simp)+
  then show ?thesis
    unfolding days_before_year_def is_leap_def e defs [symmetric]
    using 400 by (cases "y mod 4 = 0"; cases "y mod 100 = 0"; cases "y mod 400 = 0") simp_all
qed

text \<open>A year has 146097 / 400 days on average, so the estimate is off by at most one.\<close>

lemma days_before_year_bounds:
  "146097 * (y - 1) - 800 \<le> 400 * days_before_year y"
  "400 * days_before_year y \<le> 146097 * (y - 1) + 400"
proof -
  define n where "n = y - 1"
  have "4 * (n div 4) \<le> n" "n < 4 * (n div 4) + 4" "100 * (n div 100) \<le> n" "n < 100 * (n div 100) + 100"
    "400 * (n div 400) \<le> n" "n < 400 * (n div 400) + 400" by presburger+
  note bounds = this
  define a b c where "a = n div 4" and "b = n div 100" and "c = n div 400"
  note bounds = bounds [folded a_def b_def c_def]
  show "146097 * (y - 1) - 800 \<le> 400 * days_before_year y"
    unfolding days_before_year_def n_def [symmetric] a_def [symmetric] b_def [symmetric] c_def [symmetric]
    unfolding right_diff_distrib distrib_left mult.assoc [symmetric] using bounds by simp
  show "400 * days_before_year y \<le> 146097 * (y - 1) + 400"
    unfolding days_before_year_def n_def [symmetric] a_def [symmetric] b_def [symmetric] c_def [symmetric]
    unfolding right_diff_distrib distrib_left mult.assoc [symmetric] using bounds by simp
qed

lemma year_of_day_correct:
  "days_before_year (year_of_day d) \<le> d \<and> d < days_before_year (year_of_day d + 1)"
proof -
  define q where "q = 400 * d div 146097"
  have q: "146097 * q \<le> 400 * d" "400 * d < 146097 * q + 146097"
    using mult_div_mod_eq [of 146097 "400 * d"] pos_mod_bound [of 146097 "400 * d"]
      pos_mod_sign [of 146097 "400 * d"] unfolding q_def by linarith+
  have "days_before_year q \<le> d"
    using days_before_year_bounds(2) [of q] q(1) unfolding right_diff_distrib by simp
  moreover have "d < days_before_year (q + 3)"
    using days_before_year_bounds(1) [of "q + 3"] q(2) unfolding right_diff_distrib distrib_left by simp
  moreover have "q + 1 + 1 = q + 2" "q + 2 + 1 = q + 3" by simp_all
  ultimately show ?thesis
    unfolding year_of_day_def Let_def q_def [symmetric]
    by (simp add: add.commute)
qed

lemma days_before_year_mono: "x \<le> y \<Longrightarrow> days_before_year x \<le> days_before_year y"
proof (induction y rule: int_ge_induct)
  case (step y)
  then show ?case using days_before_year_step [of y] by (simp split: if_splits)
qed simp

lemma year_of_day_unique:
  assumes "days_before_year y \<le> d" "d < days_before_year (y + 1)"
  shows "year_of_day d = y"
proof (rule antisym)
  show "year_of_day d \<le> y"
    using year_of_day_correct [of d] assms(2) days_before_year_mono [of "y + 1" "year_of_day d"]
    by (meson add1_zle_eq le_less_trans not_le)
  show "y \<le> year_of_day d"
    using year_of_day_correct [of d] assms(1) days_before_year_mono [of "year_of_day d + 1" y]
    by (meson add1_zle_eq le_less_trans not_le)
qed

lemma last_filter_max:
  assumes "sorted_wrt (<) l" "\<exists>s \<in> set l. s \<le> (x :: int)"
  shows "last (filter (\<lambda>s. s \<le> x) l) \<in> set l \<and> last (filter (\<lambda>s. s \<le> x) l) \<le> x
    \<and> (\<forall>s \<in> set l. s \<le> x \<longrightarrow> s \<le> last (filter (\<lambda>s. s \<le> x) l))"
proof -
  let ?f = "filter (\<lambda>s. s \<le> x) l"
  have ne: "?f \<noteq> []" using assms(2) by (simp add: filter_empty_conv)
  then have mem: "last ?f \<in> set ?f" by (rule last_in_set)
  have "sorted_wrt (<) ?f" using assms(1) by (rule sorted_wrt_filter)
  then have "sorted_wrt (<) (butlast ?f @ [last ?f])" using ne by simp
  then have below: "\<forall>s \<in> set (butlast ?f). s < last ?f" by (simp add: sorted_wrt_append)
  have "set ?f = insert (last ?f) (set (butlast ?f))"
    using ne append_butlast_last_id [of ?f]
    by (metis Un_insert_right append_Nil2 list.set(2) set_append sup_bot.right_neutral)
  with below have "\<forall>s \<in> set ?f. s \<le> last ?f" by auto
  with mem show ?thesis by auto
qed

lemma month_start_max:
  assumes "0 \<le> doy"
  shows "month_start leap doy \<in> set (month_starts leap) \<and> month_start leap doy \<le> doy
    \<and> (\<forall>s \<in> set (month_starts leap). s \<le> doy \<longrightarrow> s \<le> month_start leap doy)"
  unfolding month_start_def using assms
  by (intro last_filter_max) (simp_all add: month_starts_def)

lemma month_start_le: "0 \<le> doy \<Longrightarrow> 0 \<le> month_start leap doy \<and> month_start leap doy \<le> doy"
  using month_start_max [of doy leap] by (auto simp: month_starts_def split: if_splits)

lemma month_gaps:
  "\<forall>m \<in> set (month_starts leap). (\<exists>s \<in> set (month_starts leap). m < s \<and> s \<le> m + 31)
     \<or> (if leap then 366 else 365) \<le> m + 31"
  by (cases leap) (simp_all add: month_starts_def)

lemma month_start_near:
  assumes "0 \<le> doy" "doy < (if leap then 366 else 365)"
  shows "doy < month_start leap doy + 31"
proof (rule ccontr)
  assume far: "\<not> ?thesis"
  note m = month_start_max [OF assms(1), of leap]
  have "\<not> (if leap then 366 else 365) \<le> month_start leap doy + 31" using far assms(2) by linarith
  with bspec [OF month_gaps conjunct1 [OF m]] obtain s where
    "s \<in> set (month_starts leap)" "month_start leap doy < s" "s \<le> month_start leap doy + 31" by blast
  with m far show False by force
qed

text \<open>Every day between the start of the month and the given one lies in the same month.\<close>

lemma month_start_between:
  assumes "0 \<le> doy" "month_start leap doy \<le> x" "x \<le> doy"
  shows "month_start leap x = month_start leap doy"
proof -
  have "filter (\<lambda>s. s \<le> x) (month_starts leap) = filter (\<lambda>s. s \<le> doy) (month_starts leap)"
    using month_start_max [OF assms(1), of leap] assms by (intro filter_cong) force+
  then show ?thesis by (simp add: month_start_def)
qed

section \<open>Periods\<close>

text \<open>\<open>time.Date(at.Year(), at.Month(), 1, 0, 0, 0, 0, time.UTC)\<close>.\<close>

definition OrganizationSpendPeriodStart :: "time \<Rightarrow> time" where
  "OrganizationSpendPeriodStart at =
     (let d = at div nanoseconds_per_day; y = year_of_day d
      in (days_before_year y + month_start (is_leap y) (d - days_before_year y)) * nanoseconds_per_day)"

lemma period_start_bounds:
  "OrganizationSpendPeriodStart at \<le> at \<and> at < OrganizationSpendPeriodStart at + 31 * nanoseconds_per_day"
proof -
  define d y where "d = at div nanoseconds_per_day" and "y = year_of_day d"
  have y: "days_before_year y \<le> d" "d < days_before_year (y + 1)"
    using year_of_day_correct [of d] by (simp_all add: y_def)
  define m where "m = month_start (is_leap y) (d - days_before_year y)"
  have m: "m \<le> d - days_before_year y" using month_start_le y(1) by (simp add: m_def)
  have near: "d - days_before_year y < m + 31"
    unfolding m_def using y days_before_year_step [of y] by (intro month_start_near) (auto split: if_splits)
  have at: "d * nanoseconds_per_day \<le> at" "at < (d + 1) * nanoseconds_per_day"
    by (simp_all add: d_def nanoseconds_per_day_def)
  have start: "OrganizationSpendPeriodStart at = (days_before_year y + m) * nanoseconds_per_day"
    by (simp add: OrganizationSpendPeriodStart_def Let_def d_def y_def m_def)
  have "(days_before_year y + m) * nanoseconds_per_day \<le> d * nanoseconds_per_day"
    using m by (intro mult_right_mono) (simp_all add: nanoseconds_per_day_def)
  moreover have "(d + 1) * nanoseconds_per_day \<le> (days_before_year y + m + 31) * nanoseconds_per_day"
    using near by (intro mult_right_mono) (simp_all add: nanoseconds_per_day_def)
  ultimately show ?thesis using at start by (simp add: algebra_simps)
qed

text \<open>Every instant between the start and the given one lies in the same period.\<close>

lemma period_start_between:
  assumes "OrganizationSpendPeriodStart at \<le> t" "t \<le> at"
  shows "OrganizationSpendPeriodStart t = OrganizationSpendPeriodStart at"
proof -
  define d y e where "d = at div nanoseconds_per_day" and "y = year_of_day d" and "e = t div nanoseconds_per_day"
  have y: "days_before_year y \<le> d" "d < days_before_year (y + 1)"
    using year_of_day_correct [of d] by (simp_all add: y_def)
  define m where "m = month_start (is_leap y) (d - days_before_year y)"
  have start: "OrganizationSpendPeriodStart at = (days_before_year y + m) * nanoseconds_per_day"
    by (simp add: OrganizationSpendPeriodStart_def Let_def d_def y_def m_def)
  have ed: "e \<le> d" unfolding e_def d_def using assms(2)
    by (intro zdiv_mono1) (simp_all add: nanoseconds_per_day_def)
  have "(days_before_year y + m) * nanoseconds_per_day div nanoseconds_per_day \<le> e"
    unfolding e_def using assms(1) start by (intro zdiv_mono1) (simp_all add: nanoseconds_per_day_def)
  then have me: "days_before_year y + m \<le> e" by (simp add: nanoseconds_per_day_def)
  have m0: "0 \<le> m" using month_start_le y(1) by (simp add: m_def)
  have "year_of_day e = y" using ed y(2) me m0 by (intro year_of_day_unique) simp_all
  moreover have "month_start (is_leap y) (e - days_before_year y) = m"
    unfolding m_def using y(1) me ed
    by (intro month_start_between) (simp_all add: m_def [symmetric])
  ultimately show ?thesis
    unfolding start by (simp add: OrganizationSpendPeriodStart_def Let_def e_def [symmetric])
qed

lemma period_start_idem:
  "OrganizationSpendPeriodStart (OrganizationSpendPeriodStart at) = OrganizationSpendPeriodStart at"
  using period_start_bounds by (intro period_start_between) simp_all

section \<open>Operations\<close>

definition normalizeOrganizationSpendRequest ::
  "string \<Rightarrow> time \<Rightarrow> OrganizationSpendDelta \<Rightarrow> store_err + string \<times> time" where
  "normalizeOrganizationSpendRequest orgUUID at delta =
     (let orgUUID = TrimSpace orgUUID
      in if orgUUID = [] then Inl (ErrInvalid ''organization spend org uuid is required'')
         else if time_IsZero at then Inl (ErrInvalid ''organization spend period is required'')
         else if delta_InputTokens delta < 0 \<or> delta_OutputTokens delta < 0 \<or> delta_USDMicros delta < 0
         then Inl (ErrInvalid ''organization spend delta must not be negative'')
         else Inr (orgUUID, OrganizationSpendPeriodStart at))"

definition zero_spend :: "string \<Rightarrow> time \<Rightarrow> OrganizationSpend" where
  "zero_spend orgUUID periodStart = \<lparr>spend_OrgUUID = orgUUID, spend_PeriodStart = periodStart,
     spend_InputTokens = 0, spend_OutputTokens = 0, spend_USDMicros = 0, spend_UpdatedAt = 0\<rparr>"

definition AddOrganizationSpend ::
  "time \<Rightarrow> string \<Rightarrow> time \<Rightarrow> OrganizationSpendDelta \<Rightarrow> time \<Rightarrow> OrganizationSpend op" where
  [op_defs]: "AddOrganizationSpend clock orgUUID at delta now st =
     (case normalizeOrganizationSpendRequest orgUUID at delta of
        Inl e \<Rightarrow> (Err e, st)
      | Inr (orgUUID, periodStart) \<Rightarrow>
        let now = time_or now clock; key = (orgUUID, periodStart);
            spend = (case gget (organizationSpend st) key of
              None \<Rightarrow> zero_spend orgUUID periodStart | Some spend \<Rightarrow> spend);
            spend = spend\<lparr>spend_InputTokens := wrap64 (spend_InputTokens spend + delta_InputTokens delta),
              spend_OutputTokens := wrap64 (spend_OutputTokens spend + delta_OutputTokens delta),
              spend_USDMicros := wrap64 (spend_USDMicros spend + delta_USDMicros delta),
              spend_UpdatedAt := now\<rparr>
        in (Ok spend, st\<lparr>organizationSpend := gput key spend (organizationSpend st)\<rparr>))"

definition GetOrganizationSpend :: "string \<Rightarrow> time \<Rightarrow> MemoryStore \<Rightarrow> OrganizationSpend sres" where
  "GetOrganizationSpend orgUUID at st =
     (case normalizeOrganizationSpendRequest orgUUID at
          \<lparr>delta_InputTokens = 0, delta_OutputTokens = 0, delta_USDMicros = 0\<rparr> of
        Inl e \<Rightarrow> Err e
      | Inr (orgUUID, periodStart) \<Rightarrow>
        (case gget (organizationSpend st) (orgUUID, periodStart) of
           Some spend \<Rightarrow> Ok spend | None \<Rightarrow> Ok (zero_spend orgUUID periodStart)))"

section \<open>Totals\<close>

text \<open>One recorded call: the organization as given, the instant, the delta and the time stamp.\<close>

record spend_call =
  sc_org :: string
  sc_at :: time
  sc_delta :: OrganizationSpendDelta
  sc_now :: time

fun record_spend :: "time \<Rightarrow> spend_call list \<Rightarrow> MemoryStore \<Rightarrow> MemoryStore" where
  "record_spend clock [] st = st"
| "record_spend clock (c # cs) st = record_spend clock cs
     (snd (AddOrganizationSpend clock (sc_org c) (sc_at c) (sc_delta c) (sc_now c) st))"

definition call_valid :: "spend_call \<Rightarrow> bool" where
  "call_valid c \<longleftrightarrow> \<not> blank (sc_org c) \<and> \<not> time_IsZero (sc_at c)
     \<and> 0 \<le> delta_InputTokens (sc_delta c) \<and> 0 \<le> delta_OutputTokens (sc_delta c)
     \<and> 0 \<le> delta_USDMicros (sc_delta c)"

text \<open>The calls that count for an organization and a period; refused calls count nowhere.\<close>

definition calls_of :: "string \<Rightarrow> time \<Rightarrow> spend_call list \<Rightarrow> spend_call list" where
  "calls_of org start cs = filter (\<lambda>c. call_valid c \<and> TrimSpace (sc_org c) = org
     \<and> OrganizationSpendPeriodStart (sc_at c) = start) cs"

definition bucket :: "MemoryStore \<Rightarrow> string \<Rightarrow> time \<Rightarrow> OrganizationSpend" where
  "bucket st org start = (case gget (organizationSpend st) (org, start) of
     None \<Rightarrow> zero_spend org start | Some s \<Rightarrow> s)"

lemma normalize_Inr:
  "normalizeOrganizationSpendRequest org at delta = Inr p \<longleftrightarrow>
     p = (TrimSpace org, OrganizationSpendPeriodStart at) \<and> \<not> blank org \<and> \<not> time_IsZero at
     \<and> 0 \<le> delta_InputTokens delta \<and> 0 \<le> delta_OutputTokens delta \<and> 0 \<le> delta_USDMicros delta"
  by (auto simp: normalizeOrganizationSpendRequest_def Let_def blank_def)

lemma AddOrganizationSpend_bucket:
  assumes "AddOrganizationSpend clock org at delta now st = (r, st')"
  shows "bucket st' g s =
    (if call_valid \<lparr>sc_org = org, sc_at = at, sc_delta = delta, sc_now = now\<rparr>
        \<and> TrimSpace org = g \<and> OrganizationSpendPeriodStart at = s
     then (bucket st g s)\<lparr>spend_InputTokens := wrap64 (spend_InputTokens (bucket st g s) + delta_InputTokens delta),
       spend_OutputTokens := wrap64 (spend_OutputTokens (bucket st g s) + delta_OutputTokens delta),
       spend_USDMicros := wrap64 (spend_USDMicros (bucket st g s) + delta_USDMicros delta),
       spend_UpdatedAt := time_or now clock\<rparr>
     else bucket st g s)"
proof (cases "normalizeOrganizationSpendRequest org at delta")
  case (Inl e)
  then have "\<not> call_valid \<lparr>sc_org = org, sc_at = at, sc_delta = delta, sc_now = now\<rparr>"
    using normalize_Inr [of org at delta "(TrimSpace org, OrganizationSpendPeriodStart at)"]
    by (auto simp: call_valid_def)
  with Inl assms show ?thesis by (auto simp: AddOrganizationSpend_def)
next
  case (Inr p)
  then have "call_valid \<lparr>sc_org = org, sc_at = at, sc_delta = delta, sc_now = now\<rparr>"
    "p = (TrimSpace org, OrganizationSpendPeriodStart at)"
    by (auto simp: normalize_Inr call_valid_def)
  with Inr assms show ?thesis
    by (auto simp: AddOrganizationSpend_def Let_def bucket_def al.get_put split: option.splits)
qed

text \<open>Totals in \<open>int64\<close> arithmetic: the wrapped sum of all counted deltas.\<close>

lemma record_spend_total:
  "wrap64 (spend_USDMicros (bucket (record_spend clock cs st) g s)) =
     wrap64 (spend_USDMicros (bucket st g s) + sum_list (map (\<lambda>c. delta_USDMicros (sc_delta c)) (calls_of g s cs)))
   \<and> wrap64 (spend_InputTokens (bucket (record_spend clock cs st) g s)) =
     wrap64 (spend_InputTokens (bucket st g s) + sum_list (map (\<lambda>c. delta_InputTokens (sc_delta c)) (calls_of g s cs)))
   \<and> wrap64 (spend_OutputTokens (bucket (record_spend clock cs st) g s)) =
     wrap64 (spend_OutputTokens (bucket st g s) + sum_list (map (\<lambda>c. delta_OutputTokens (sc_delta c)) (calls_of g s cs)))"
proof (induction cs arbitrary: st)
  case Nil
  show ?case by (simp add: calls_of_def)
next
  case (Cons c cs)
  obtain r st1 where A: "AddOrganizationSpend clock (sc_org c) (sc_at c) (sc_delta c) (sc_now c) st = (r, st1)"
    by fastforce
  note B = AddOrganizationSpend_bucket [OF A, of g s]
  have valid: "call_valid \<lparr>sc_org = sc_org c, sc_at = sc_at c, sc_delta = sc_delta c, sc_now = sc_now c\<rparr>
    = call_valid c" by (simp add: call_valid_def)
  have R: "record_spend clock (c # cs) st = record_spend clock cs st1" by (simp add: A)
  show ?case
    using Cons [of st1] B unfolding R
    by (cases "call_valid c \<and> TrimSpace (sc_org c) = g \<and> OrganizationSpendPeriodStart (sc_at c) = s")
      (auto simp: calls_of_def valid add.assoc)
qed

lemma bucket_is_int64:
  assumes "AddOrganizationSpend clock org at delta now st = (r, st')"
    and "is_int64 (spend_USDMicros (bucket st g s))"
  shows "is_int64 (spend_USDMicros (bucket st' g s))"
  using assms by (simp add: AddOrganizationSpend_bucket)

lemma record_spend_is_int64:
  "is_int64 (spend_USDMicros (bucket st g s)) \<Longrightarrow> is_int64 (spend_USDMicros (bucket (record_spend clock cs st) g s))"
proof (induction cs arbitrary: st)
  case (Cons c cs)
  obtain r st1 where A: "AddOrganizationSpend clock (sc_org c) (sc_at c) (sc_delta c) (sc_now c) st = (r, st1)"
    by fastforce
  with Cons.IH [of st1] bucket_is_int64 [OF A Cons.prems] show ?case by simp
qed simp

end
