(* ===== verification/Store_Misc.thy ===== *)
theory Store_Misc
  imports Store_State
begin

text \<open>
  The small per-project tables of \<open>MemoryStore\<close>: bootstrap permits and approval preferences
  (\<open>memory.go\<close>) and project thumbnails (\<open>project_thumbnail.go\<close>). Shown: a permit is consumed by one
  client request only, a preference that was set is the one that is read, and the thumbnail of a
  project never goes back to an older commit.
\<close>

section \<open>Bootstrap permits\<close>

definition CreateProjectBootstrapPermit :: "Scope \<Rightarrow> string \<Rightarrow> string \<Rightarrow> unit op" where
  [op_defs]: "CreateProjectBootstrapPermit scope actor promptDigest st =
     (case Scope_validate scope of Some e \<Rightarrow> (Err e, st) | None \<Rightarrow>
      let actor = TrimSpace actor; promptDigest = TrimSpace promptDigest
      in if actor = [] \<or> promptDigest = []
         then (Err (ErrInvalid ''bootstrap permit actor and prompt digest are required''), st)
         else (case gget (bootstrapPermits st) scope of
             Some existing \<Rightarrow>
               if permit_actor existing \<noteq> actor \<or> permit_promptDigest existing \<noteq> promptDigest
               then (Err ErrProjectBootstrapPermitConflict, st) else (Ok (), st)
           | None \<Rightarrow> (Ok (), st\<lparr>bootstrapPermits := gput scope
                 \<lparr>permit_actor = actor, permit_promptDigest = promptDigest, permit_clientRequestID = []\<rparr>
                 (bootstrapPermits st)\<rparr>)))"

definition ConsumeProjectBootstrapPermit :: "Scope \<Rightarrow> string \<Rightarrow> string \<Rightarrow> string \<Rightarrow> bool op" where
  [op_defs]: "ConsumeProjectBootstrapPermit scope actor promptDigest clientRequestID st =
     (case Scope_validate scope of Some e \<Rightarrow> (Err e, st) | None \<Rightarrow>
      let actor = TrimSpace actor; promptDigest = TrimSpace promptDigest;
          clientRequestID = TrimSpace clientRequestID
      in if actor = [] \<or> promptDigest = [] \<or> clientRequestID = []
         then (Err (ErrInvalid ''bootstrap permit actor, prompt digest, and client request ID are required''), st)
         else (case gget (bootstrapPermits st) scope of
             None \<Rightarrow> (Ok False, st)
           | Some permit \<Rightarrow>
               if permit_actor permit \<noteq> actor \<or> permit_promptDigest permit \<noteq> promptDigest then (Ok False, st)
               else if permit_clientRequestID permit \<noteq> [] \<and> permit_clientRequestID permit \<noteq> clientRequestID
               then (Err ErrProjectBootstrapPermitConflict, st)
               else (Ok True, st\<lparr>bootstrapPermits := gput scope
                      (permit\<lparr>permit_clientRequestID := clientRequestID\<rparr>) (bootstrapPermits st)\<rparr>)))"

lemma Consume_won:
  assumes "ConsumeProjectBootstrapPermit scope actor digest c st = (Ok True, st')"
  shows "\<exists>p. gget (bootstrapPermits st') scope = Some p \<and> permit_clientRequestID p = TrimSpace c
      \<and> permit_actor p = TrimSpace actor \<and> permit_promptDigest p = TrimSpace digest
      \<and> TrimSpace c \<noteq> [] \<and> TrimSpace actor \<noteq> [] \<and> TrimSpace digest \<noteq> [] \<and> Scope_validate scope = None"
  using assms
  by (auto simp: ConsumeProjectBootstrapPermit_def Let_def al.get_put split: option.splits if_splits)

text \<open>What can happen to the permit of a scope while its project lives.\<close>

inductive permit_step :: "MemoryStore \<Rightarrow> MemoryStore \<Rightarrow> bool" where
  create: "CreateProjectBootstrapPermit scope actor digest st = (r, st') \<Longrightarrow> permit_step st st'"
| consume: "ConsumeProjectBootstrapPermit scope actor digest c st = (r, st') \<Longrightarrow> permit_step st st'"

inductive_cases permit_stepE: "permit_step st st'"

lemma permit_step_keeps:
  assumes "permit_step st st'" "gget (bootstrapPermits st) scope = Some p" "permit_clientRequestID p \<noteq> []"
  shows "gget (bootstrapPermits st') scope = Some p"
  using assms
  by (auto elim!: permit_stepE simp: op_defs Let_def al.get_put split: option.splits if_splits)

lemma permit_steps_keep:
  assumes "permit_step\<^sup>*\<^sup>* st st'" "gget (bootstrapPermits st) scope = Some p" "permit_clientRequestID p \<noteq> []"
  shows "gget (bootstrapPermits st') scope = Some p"
  using assms(1) by (induction rule: rtranclp_induct) (use assms(2,3) permit_step_keeps in blast)+

lemma Consume_taken:
  assumes "gget (bootstrapPermits st) scope = Some p" "permit_clientRequestID p \<noteq> []"
    and "ConsumeProjectBootstrapPermit scope actor digest c st = (Ok True, st')"
  shows "TrimSpace c = permit_clientRequestID p"
  using assms
  by (auto simp: ConsumeProjectBootstrapPermit_def Let_def split: option.splits if_splits)

section \<open>Approval preferences\<close>

definition GetAssistantApprovalPreference ::
  "Scope \<Rightarrow> string \<Rightarrow> MemoryStore \<Rightarrow> AssistantApprovalPreference sres" where
  "GetAssistantApprovalPreference scope actor st =
     (case Scope_validate scope of Some e \<Rightarrow> Err e | None \<Rightarrow>
      let actor = TrimSpace actor
      in if actor = [] then Err (ErrInvalid ''assistant approval preference actor is required'')
         else (case read2 (approvalModes st) scope actor of
             Some preference \<Rightarrow> Ok preference
           | None \<Rightarrow> Ok \<lparr>pref_ActorID = actor, pref_Mode = ''on_request'', pref_UpdatedAt = 0\<rparr>))"

definition SetAssistantApprovalPreference ::
  "time \<Rightarrow> Scope \<Rightarrow> AssistantApprovalPreference \<Rightarrow> AssistantApprovalPreference op" where
  [op_defs]: "SetAssistantApprovalPreference now scope preference st =
     (case Scope_validate scope of Some e \<Rightarrow> (Err e, st) | None \<Rightarrow>
      let preference = preference\<lparr>pref_ActorID := TrimSpace (pref_ActorID preference)\<rparr>
      in if pref_ActorID preference = []
         then (Err (ErrInvalid ''assistant approval preference actor is required''), st)
         else (case NormalizeAssistantApprovalMode (pref_Mode preference) of
             Inl e \<Rightarrow> (Err e, st)
           | Inr mode \<Rightarrow>
             let preference = preference\<lparr>pref_Mode := mode,
                   pref_UpdatedAt := time_or (pref_UpdatedAt preference) now\<rparr>
             in (Ok preference, st\<lparr>approvalModes :=
                   put2 scope (pref_ActorID preference) preference (approvalModes st)\<rparr>)))"

lemma Set_then_Get:
  assumes "SetAssistantApprovalPreference now scope preference st = (Ok p, st')"
    and "TrimSpace actor = TrimSpace (pref_ActorID preference)"
  shows "GetAssistantApprovalPreference scope actor st' = Ok p"
  using assms
  by (auto simp: SetAssistantApprovalPreference_def GetAssistantApprovalPreference_def Let_def
      gomap_simps split: option.splits if_splits sum.splits)

lemma Set_other_Get:
  assumes "SetAssistantApprovalPreference now scope preference st = (r, st')"
    and "sc \<noteq> scope \<or> TrimSpace actor \<noteq> TrimSpace (pref_ActorID preference)"
  shows "GetAssistantApprovalPreference sc actor st' = GetAssistantApprovalPreference sc actor st"
  using assms
  by (auto simp: SetAssistantApprovalPreference_def GetAssistantApprovalPreference_def Let_def
      gomap_simps split: option.splits if_splits sum.splits)

section \<open>Thumbnails\<close>

definition validateProjectThumbnail :: "Scope \<Rightarrow> ProjectThumbnail \<Rightarrow> store_err option" where
  "validateProjectThumbnail scope thumbnail = first_error
     [Scope_validate scope,
      check (blank (thumb_CommitSHA thumbnail) \<or> blank (thumb_CommitOrder thumbnail)
          \<or> blank (thumb_Variant thumbnail) \<or> blank (thumb_SHA256 thumbnail) \<or> thumb_Data thumbnail = [])
        (ErrInvalid ''thumbnail commit, order, variant, digest, and image data are required''),
      check (time_IsZero (thumb_CommitCreatedAt thumbnail))
        (ErrInvalid ''thumbnail commit creation time is required''),
      check (thumb_ContentType thumbnail \<noteq> ''image/png'' \<and> thumb_ContentType thumbnail \<noteq> ''image/jpeg'')
        (ErrInvalid ''unsupported thumbnail content type''),
      check (thumb_DataEncrypted thumbnail \<noteq> (\<not> blank (thumb_DataKeyID thumbnail)))
        (ErrInvalid ''thumbnail encryption metadata is inconsistent''),
      check (time_IsZero (thumb_CapturedAt thumbnail))
        (ErrInvalid ''thumbnail capture time is required'')]"

definition projectThumbnailMetadata :: "ProjectThumbnail \<Rightarrow> ProjectThumbnailMetadata" where
  "projectThumbnailMetadata t = \<lparr>tmeta_CommitSHA = thumb_CommitSHA t,
     tmeta_CommitCreatedAt = thumb_CommitCreatedAt t, tmeta_CommitOrder = thumb_CommitOrder t,
     tmeta_Variant = thumb_Variant t, tmeta_ContentType = thumb_ContentType t,
     tmeta_SHA256 = thumb_SHA256 t, tmeta_CapturedAt = thumb_CapturedAt t\<rparr>"

definition projectThumbnailNewer :: "time \<Rightarrow> string \<Rightarrow> time \<Rightarrow> string \<Rightarrow> bool" where
  "projectThumbnailNewer leftCreatedAt leftOrder rightCreatedAt rightOrder =
     (if leftCreatedAt > rightCreatedAt then True
      else if leftCreatedAt < rightCreatedAt then False
      else TrimSpace leftOrder > TrimSpace rightOrder)"

definition GetProjectThumbnailMetadata :: "Scope \<Rightarrow> MemoryStore \<Rightarrow> ProjectThumbnailMetadata sres" where
  "GetProjectThumbnailMetadata scope st =
     (case Scope_validate scope of Some e \<Rightarrow> Err e | None \<Rightarrow>
      (case gget (projectThumbnails st) scope of None \<Rightarrow> Err ErrProjectThumbnailNotFound
       | Some thumbnail \<Rightarrow> Ok (projectThumbnailMetadata thumbnail)))"

definition GetProjectThumbnail :: "Scope \<Rightarrow> MemoryStore \<Rightarrow> ProjectThumbnail sres" where
  "GetProjectThumbnail scope st =
     (case Scope_validate scope of Some e \<Rightarrow> Err e | None \<Rightarrow>
      (case gget (projectThumbnails st) scope of None \<Rightarrow> Err ErrProjectThumbnailNotFound
       | Some thumbnail \<Rightarrow> Ok thumbnail))"

definition PutProjectThumbnail :: "Scope \<Rightarrow> ProjectThumbnail \<Rightarrow> unit op" where
  [op_defs]: "PutProjectThumbnail scope thumbnail st =
     (case validateProjectThumbnail scope thumbnail of Some e \<Rightarrow> (Err e, st) | None \<Rightarrow>
      let write = (Ok (), st\<lparr>projectThumbnails := gput scope thumbnail (projectThumbnails st)\<rparr>)
      in (case gget (projectThumbnails st) scope of
            None \<Rightarrow> write
          | Some current \<Rightarrow>
              if projectThumbnailNewer (thumb_CommitCreatedAt current) (thumb_CommitOrder current)
                   (thumb_CommitCreatedAt thumbnail) (thumb_CommitOrder thumbnail)
              then (Ok (), st) else write))"

definition DeleteProjectThumbnail :: "Scope \<Rightarrow> unit op" where
  [op_defs]: "DeleteProjectThumbnail scope st =
     (case Scope_validate scope of Some e \<Rightarrow> (Err e, st) | None \<Rightarrow>
      (Ok (), st\<lparr>projectThumbnails := gdel scope (projectThumbnails st)\<rparr>))"

text \<open>A thumbnail stands for a commit, ordered by creation time and then by its order string.\<close>

definition commit_key :: "ProjectThumbnail \<Rightarrow> page_key" where
  "commit_key t = PageKey (thumb_CommitCreatedAt t) (TrimSpace (thumb_CommitOrder t))"

lemma projectThumbnailNewer_key:
  "projectThumbnailNewer (thumb_CommitCreatedAt s) (thumb_CommitOrder s)
     (thumb_CommitCreatedAt t) (thumb_CommitOrder t) \<longleftrightarrow> commit_key t < commit_key s"
  by (auto simp: projectThumbnailNewer_def commit_key_def less_page_key_def)

fun put_thumbnails :: "Scope \<Rightarrow> ProjectThumbnail list \<Rightarrow> MemoryStore \<Rightarrow> MemoryStore" where
  "put_thumbnails scope [] st = st"
| "put_thumbnails scope (t # ts) st = put_thumbnails scope ts (snd (PutProjectThumbnail scope t st))"

definition accepted :: "Scope \<Rightarrow> ProjectThumbnail list \<Rightarrow> ProjectThumbnail list" where
  "accepted scope ts = filter (\<lambda>t. validateProjectThumbnail scope t = None) ts"

lemma PutProjectThumbnail_step:
  "gget (projectThumbnails (snd (PutProjectThumbnail scope t st))) scope =
    (if validateProjectThumbnail scope t = None \<and>
        (\<forall>s. gget (projectThumbnails st) scope = Some s \<longrightarrow> commit_key s \<le> commit_key t)
     then Some t else gget (projectThumbnails st) scope)"
  by (auto simp: PutProjectThumbnail_def Let_def projectThumbnailNewer_key al.get_put not_less
      split: option.splits)

text \<open>After any sequence of captures the newest accepted commit is stored.\<close>

lemma put_thumbnails_newest:
  assumes "gget (projectThumbnails st) scope = Some s"
  shows "\<exists>t \<in> insert s (set (accepted scope ts)).
    gget (projectThumbnails (put_thumbnails scope ts st)) scope = Some t
    \<and> (\<forall>u \<in> insert s (set (accepted scope ts)). commit_key u \<le> commit_key t)"
  using assms
proof (induction ts arbitrary: st s)
  case Nil
  then show ?case by (simp add: accepted_def)
next
  case (Cons x xs)
  let ?st = "snd (PutProjectThumbnail scope x st)"
  let ?s = "if validateProjectThumbnail scope x = None \<and> commit_key s \<le> commit_key x then x else s"
  have now: "gget (projectThumbnails ?st) scope = Some ?s"
    using PutProjectThumbnail_step [of scope x st] Cons.prems by auto
  from Cons.IH [OF now] obtain t where t: "t \<in> insert ?s (set (accepted scope xs))"
    "gget (projectThumbnails (put_thumbnails scope xs ?st)) scope = Some t"
    "\<forall>u \<in> insert ?s (set (accepted scope xs)). commit_key u \<le> commit_key t" by blast
  have "t \<in> insert s (set (accepted scope (x # xs)))"
    using t(1) by (auto simp: accepted_def split: if_splits)
  moreover have "commit_key u \<le> commit_key t" if "u \<in> insert s (set (accepted scope (x # xs)))" for u
    using that t(3) by (auto simp: accepted_def split: if_splits dest: order_trans)
  ultimately show ?case using t(2) by auto
qed

end
