(* ===== verification/Store_Steps.thy ===== *)
theory Store_Steps
  imports Store_Retention Store_Claims Store_Spend Store_Misc
begin

text \<open>
  The store as one machine. A step is one operation of \<open>MemoryStore\<close> that may change the state,
  with any arguments, any clock and any result; the mutex of the code makes it atomic. The
  invariants of the components hold together in every reachable state, and no operation panics
  but the stop request of a run in a project that has no messages.
\<close>

section \<open>The invariant of the store\<close>

definition store_inv :: "MemoryStore \<Rightarrow> bool" where
  "store_inv st \<longleftrightarrow> messages_keyed st \<and> runs_inv (assistantRuns st) \<and> run_events_inv st
     \<and> conversation_inv st \<and> thread_inv st \<and> attachments_inv st"

lemma store_invD:
  assumes "store_inv st"
  shows "messages_keyed st" "runs_inv (assistantRuns st)" "run_events_inv st"
    "conversation_inv st" "thread_inv st" "attachments_inv st"
  using assms by (simp_all add: store_inv_def)

text \<open>Each invariant reads some of the fields only.\<close>

lemma messages_keyed_cong: "messages st' = messages st \<Longrightarrow> messages_keyed st' = messages_keyed st"
  by (simp add: messages_keyed_def)

lemma run_events_inv_cong:
  "assistantEvents st' = assistantEvents st \<Longrightarrow> assistantEventLookup st' = assistantEventLookup st
    \<Longrightarrow> assistantRuns st' = assistantRuns st \<Longrightarrow> run_events_inv st' = run_events_inv st"
  by (simp add: run_events_inv_def run_log_ok_def)

lemma conversation_inv_cong:
  "conversationItems st' = conversationItems st \<Longrightarrow> conversationSequences st' = conversationSequences st
    \<Longrightarrow> conversation_inv st' = conversation_inv st"
  by (simp add: conversation_inv_def conversation_ok_def item_high_water_def)

lemma attachments_inv_cong: "attachments st' = attachments st \<Longrightarrow> attachments_inv st' = attachments_inv st"
  by (simp add: attachments_inv_def)

lemma thread_inv_fields:
  assumes "assistantThreads st' = assistantThreads st" "assistantTurns st' = assistantTurns st"
    "threadEvents st' = threadEvents st" "threadTurnEvents st' = threadTurnEvents st"
    "threadTurnEventIndex st' = threadTurnEventIndex st" "threadTurnStarts st' = threadTurnStarts st"
  shows "thread_inv st' = thread_inv st"
proof -
  have "thread_ok st' s t = thread_ok st s t" for s t
    by (rule thread_ok_cong) (simp_all add: assms projections_ok_cong [OF assms(4-6)])
  then show ?thesis by (simp add: thread_inv_def)
qed

lemmas inv_congs = messages_keyed_cong run_events_inv_cong conversation_inv_cong
  attachments_inv_cong thread_inv_fields

lemma store_inv_new: "store_inv (NewMemoryStore quota)"
  by (simp add: store_inv_def NewMemoryStore_def messages_keyed_def run_events_inv_def run_log_ok_def
      conversation_inv_def conversation_ok_def item_high_water_def item_log_def thread_inv_def
      thread_ok_def projections_ok_Nil attachments_inv_def attachments_ok_def max_int64_def)

section \<open>What the operations of a component write\<close>

lemma store_inv_messages:
  assumes "store_inv st" "st' = st\<lparr>messages := messages st'\<rparr>" "messages_keyed st'"
  shows "store_inv st'"
proof -
  obtain m where st': "st' = st\<lparr>messages := m\<rparr>" using assms(2) by blast
  show ?thesis using assms(1,3) unfolding store_inv_def st'
    by (simp add: inv_congs [of "st\<lparr>messages := m\<rparr>" st])
qed

lemma store_inv_run_op:
  assumes "store_inv st" "run_op scope st st'"
  shows "store_inv st'"
proof -
  from assms(2) have eq: "st' = st\<lparr>messages := messages st', assistantRuns := assistantRuns st'\<rparr>"
    and step: "runs_step scope (assistantRuns st) (assistantRuns st')"
    and grow: "messages_grow scope (messages st) (messages st')" by (auto simp: run_op_def)
  obtain m rs where st': "st' = st\<lparr>messages := m, assistantRuns := rs\<rparr>" using eq by blast
  have "conversation_inv st'" "thread_inv st'" "attachments_inv st'"
    using assms(1) unfolding store_inv_def st'
    by (simp_all add: inv_congs [of "st\<lparr>messages := m, assistantRuns := rs\<rparr>" st])
  moreover have "messages_keyed st'" "runs_inv (assistantRuns st')" "run_events_inv st'"
    using assms grow step messages_grow_keyed runs_step_inv run_op_run_events
    by (auto simp: store_inv_def)
  ultimately show ?thesis by (simp add: store_inv_def)
qed

lemma store_inv_run_events:
  assumes "store_inv st" "run_events_inv st'"
    "st' = st\<lparr>assistantEvents := assistantEvents st', assistantEventLookup := assistantEventLookup st'\<rparr>"
  shows "store_inv st'"
proof -
  obtain a b where st': "st' = st\<lparr>assistantEvents := a, assistantEventLookup := b\<rparr>" using assms(3) by blast
  show ?thesis using assms(1,2) unfolding store_inv_def st'
    by (simp add: inv_congs [of "st\<lparr>assistantEvents := a, assistantEventLookup := b\<rparr>" st])
qed

lemma store_inv_conversation:
  assumes "store_inv st" "conversation_inv st'"
    "st' = st\<lparr>conversationItems := conversationItems st', conversationSequences := conversationSequences st'\<rparr>"
  shows "store_inv st'"
proof -
  obtain a b where st': "st' = st\<lparr>conversationItems := a, conversationSequences := b\<rparr>" using assms(3) by blast
  show ?thesis using assms(1,2) unfolding store_inv_def st'
    by (simp add: inv_congs [of "st\<lparr>conversationItems := a, conversationSequences := b\<rparr>" st])
qed

lemma store_inv_threads:
  assumes "store_inv st" "thread_inv st'" "thread_fields st st'"
  shows "store_inv st'"
proof -
  obtain a b c d e f g where st': "st' = st\<lparr>threadEventSignals := a,
     assistantThreads := b, assistantTurns := c, threadEvents := d, threadTurnEvents := e,
     threadTurnEventIndex := f, threadTurnStarts := g\<rparr>" (is "_ = ?st")
    using assms(3) unfolding thread_fields_def by blast
  show ?thesis using assms(1,2) unfolding store_inv_def st'
    by (simp add: inv_congs [of ?st st])
qed

lemma store_inv_attachments:
  assumes "store_inv st" "attachments_inv st'"
    "st' = st\<lparr>attachments := attachments st', attachmentDeleted := attachmentDeleted st'\<rparr>"
  shows "store_inv st'"
proof -
  obtain a b where st': "st' = st\<lparr>attachments := a, attachmentDeleted := b\<rparr>" using assms(3) by blast
  show ?thesis using assms(1,2) unfolding store_inv_def st'
    by (simp add: inv_congs [of "st\<lparr>attachments := a, attachmentDeleted := b\<rparr>" st])
qed

lemma store_inv_attachments_only:
  assumes "store_inv st" "attachments_inv st'" "st' = st\<lparr>attachments := attachments st'\<rparr>"
  shows "store_inv st'"
proof -
  obtain a where st': "st' = st\<lparr>attachments := a\<rparr>" using assms(3) by blast
  show ?thesis using assms(1,2) unfolding store_inv_def st'
    by (simp add: inv_congs [of "st\<lparr>attachments := a\<rparr>" st])
qed

lemma store_inv_forgets: "store_inv st \<Longrightarrow> forgets st st' \<Longrightarrow> store_inv st'"
  using store_inv_attachments [of st st'] forgets_inv [of st st']
  by (simp add: forgets_def store_inv_def)

text \<open>The tables no invariant reads: claims, spend, permits, preferences, thumbnails, the quota.\<close>

definition side_tables :: "MemoryStore \<Rightarrow> MemoryStore \<Rightarrow> bool" where
  "side_tables st st' \<longleftrightarrow> st' = st\<lparr>replicaClaims := replicaClaims st', approvalModes := approvalModes st',
     bootstrapPermits := bootstrapPermits st', projectThumbnails := projectThumbnails st',
     attachmentQuota := attachmentQuota st', organizationSpend := organizationSpend st'\<rparr>"

lemma side_tables_refl [simp]: "side_tables st st"
  by (simp add: side_tables_def)

lemma store_inv_side:
  assumes "store_inv st" "side_tables st st'"
  shows "store_inv st'"
proof -
  obtain a b c d e f where st': "st' = st\<lparr>replicaClaims := a, approvalModes := b,
     bootstrapPermits := c, projectThumbnails := d, attachmentQuota := e, organizationSpend := f\<rparr>" (is "_ = ?st")
    using assms(2) unfolding side_tables_def by blast
  show ?thesis using assms(1) unfolding store_inv_def st'
    by (simp add: inv_congs [of ?st st])
qed

section \<open>Deletion and retention keep the invariant\<close>

lemma store_inv_runs_gone:
  assumes "store_inv st" "runs_gone G st st'"
  shows "store_inv st'"
proof -
  note f = runs_gone_frame [OF assms(2)]
  have "messages_keyed st'" "thread_inv st'" "attachments_inv st'"
    using store_invD [OF assms(1)] by (simp_all add: inv_congs [of st' st] f)
  with runs_gone_inv [OF assms(2)] store_invD [OF assms(1)] show ?thesis
    by (simp add: store_inv_def)
qed

lemma store_inv_threads_gone:
  assumes "store_inv st" "threads_gone G st st'"
  shows "store_inv st'"
proof -
  note f = threads_gone_frame [OF assms(2)]
  have "messages_keyed st'" "runs_inv (assistantRuns st')" "run_events_inv st'" "conversation_inv st'"
    using store_invD [OF assms(1)] by (simp_all add: inv_congs [of st' st] f)
  with threads_gone_inv [OF assms(2)] store_invD [OF assms(1)] show ?thesis
    by (simp add: store_inv_def)
qed

lemma store_inv_fewer_messages:
  assumes "store_inv st" "\<And>s i. read2 m s i = None \<or> read2 m s i = read2 (messages st) s i"
  shows "store_inv (st\<lparr>messages := m\<rparr>)"
proof (rule store_inv_messages [OF assms(1)])
  show "messages_keyed (st\<lparr>messages := m\<rparr>)"
    unfolding messages_keyed_def
  proof (intro allI impI)
    fix s i x
    assume "read2 (messages (st\<lparr>messages := m\<rparr>)) s i = Some x"
    with assms(2) [of s i] have "read2 (messages st) s i = Some x" by simp
    with store_invD(1) [OF assms(1)]
    show "msg_ID x = i \<and> msg_ProjectName x = ProjectName s \<and> msg_ProjectUID x = ProjectUID s"
      by (simp add: messages_keyed_def)
  qed
qed simp

lemma DeleteMessagesOlderThan_inv:
  assumes "DeleteMessagesOlderThan before st = (r, st')" "store_inv st"
  shows "store_inv st' \<and> r \<noteq> Panic"
  using assms(1)
proof (rule DeleteMessagesOlderThan_loops)
  fix n kept st2
  assume r: "r = Ok n" and kept: "\<And>s i. read2 kept s i = (case read2 (messages st) s i of None \<Rightarrow> None
       | Some x \<Rightarrow> if message_expired before (gread (assistantRuns st) s) i x then None else Some x)"
    and runs: "runs_gone {(s, i). \<exists>x. read2 (assistantRuns st) s i = Some x \<and> run_expired before x}
       (st\<lparr>messages := kept\<rparr>) st2"
    and threads: "threads_gone {(s, t). \<exists>th. read2 (assistantThreads st) s t = Some th
         \<and> thread_old before th (read3 (assistantTurns st) s t)} st2 st'"
  have "store_inv (st\<lparr>messages := kept\<rparr>)"
    by (rule store_inv_fewer_messages [OF assms(2)]) (simp add: kept split: option.split)
  then have "store_inv st2" using runs by (rule store_inv_runs_gone)
  then have "store_inv st'" using threads by (rule store_inv_threads_gone)
  with r show ?thesis by simp
qed

lemma DeleteAssistantThread_inv:
  assumes "DeleteAssistantThread scope threadID actorID st = (r, st')" "store_inv st"
  shows "store_inv st' \<and> r \<noteq> Panic"
  using assms(1) store_invD(3,5) [OF assms(2)]
proof (cases rule: DeleteAssistantThread_cases)
  case (deleted tid thread st2 st3)
  have "store_inv (st\<lparr>messages := messages st2\<rparr>)"
    by (rule store_inv_fewer_messages [OF assms(2)]) (simp add: deleted(6))
  then have "store_inv st2" using deleted(7) by (rule store_inv_runs_gone)
  then have i3: "store_inv st3" using deleted(8) by (rule store_inv_threads_gone)
  have "messages st3 = messages st2" by (rule threads_gone_frame(1) [OF deleted(8)])
  then have "store_inv (st3\<lparr>messages := messages st'\<rparr>)"
    by (intro store_inv_fewer_messages [OF i3]) (simp add: deleted(10))
  then have "store_inv st'" using deleted(9) by (rule store_inv_runs_gone)
  with deleted show ?thesis by simp
qed (use assms in simp)

lemma DeleteProjectMessages_inv:
  assumes "DeleteProjectMessages scope st = (r, st')" "store_inv st"
  shows "store_inv st' \<and> r \<noteq> Panic"
proof (cases "Scope_validate scope")
  case None
  with assms(1) have st': "st' = st\<lparr>messages := gdel scope (messages st),
      assistantRuns := gdel scope (assistantRuns st), assistantEvents := gdel scope (assistantEvents st),
      assistantEventLookup := gdel scope (assistantEventLookup st),
      conversationItems := gdel scope (conversationItems st),
      conversationSequences := gdel scope (conversationSequences st),
      assistantThreads := gdel scope (assistantThreads st), assistantTurns := gdel scope (assistantTurns st),
      threadEvents := gdel scope (threadEvents st), threadTurnEvents := gdel scope (threadTurnEvents st),
      threadTurnEventIndex := gdel scope (threadTurnEventIndex st),
      threadTurnStarts := gdel scope (threadTurnStarts st), bootstrapPermits := gdel scope (bootstrapPermits st),
      approvalModes := gdel scope (approvalModes st), projectThumbnails := gdel scope (projectThumbnails st),
      attachments := gdel scope (attachments st), attachmentDeleted := gput scope () (attachmentDeleted st)\<rparr>"
    by (simp add: DeleteProjectMessages_def)
  note i = store_invD [OF assms(2)]
  have "messages_keyed st'" using i(1) by (simp add: messages_keyed_def st' gomap_simps)
  moreover have "runs_inv (assistantRuns st')"
    by (rule runs_inv_sub [OF i(2)]) (simp add: st' gomap_simps split: if_splits)
  moreover have "run_events_inv st'"
    using i(3) by (simp add: run_events_inv_def run_log_ok_def st' gomap_simps max_int64_def)
  moreover have "conversation_inv st'"
    using i(4) by (simp add: conversation_inv_def conversation_ok_def item_high_water_def st' gomap_simps item_log_def)
  moreover have "thread_ok st' s t" for s t
  proof (cases "s = scope")
    case True
    then show ?thesis by (simp add: thread_ok_def projections_ok_Nil st' gomap_simps)
  next
    case False
    have "projections_ok st' s t log = projections_ok st s t log" for log
      using False by (simp add: projections_ok_def st' gomap_simps)
    then have "thread_ok st' s t = thread_ok st s t"
      using False by (intro thread_ok_cong) (simp_all add: st' gomap_simps)
    then show ?thesis using i(5) by (simp add: thread_inv_def)
  qed
  then have "thread_inv st'" by (simp add: thread_inv_def)
  moreover have "attachments_inv st'"
    using i(6) by (simp add: attachments_inv_def attachments_ok_def st' gomap_simps)
  moreover have "r \<noteq> Panic" using assms(1) None by (auto simp: DeleteProjectMessages_def)
  ultimately show ?thesis by (simp add: store_inv_def)
next
  case (Some e)
  with assms show ?thesis by (auto simp: DeleteProjectMessages_def)
qed

section \<open>Steps\<close>

text \<open>What a caller sees of a result besides its value.\<close>

definition outcome :: "'a sres \<Rightarrow> unit sres" where
  "outcome r = (case r of Ok _ \<Rightarrow> Ok () | Err e \<Rightarrow> Err e | Panic \<Rightarrow> Panic)"

lemma outcome_Panic [simp]: "outcome r = Panic \<longleftrightarrow> r = Panic"
  by (simp add: outcome_def split: res.split)

text \<open>
  \<open>store_step p out st st'\<close>: one operation led from \<open>st\<close> to \<open>st'\<close> with the outcome \<open>out\<close>; \<open>p\<close>
  is the project it was called for, or \<open>None\<close> for one that works on all projects. Two guards keep
  out what no caller does: an upload that names a binding, and a conversation item appended after
  2^63 - 1 others.
\<close>

inductive store_step :: "Scope option \<Rightarrow> unit sres \<Rightarrow> MemoryStore \<Rightarrow> MemoryStore \<Rightarrow> bool" where
  append_message: "AppendMessage now s m st = (r, st') \<Longrightarrow> store_step (Some s) (outcome r) st st'"
| save_run: "SaveAssistantRun now s run st = (r, st') \<Longrightarrow> store_step (Some s) (outcome r) st st'"
| create_run: "CreateAssistantRun now s user assistant run st = (r, st') \<Longrightarrow> store_step (Some s) (outcome r) st st'"
| stop_run: "RequestAssistantRunStopWithAssistantMessage clock s i n assistant now st = (r, st')
    \<Longrightarrow> store_step (Some s) (outcome r) st st'"
| save_snapshot: "SaveAssistantRunSnapshot now s run msgs n st = (r, st') \<Longrightarrow> store_step (Some s) (outcome r) st st'"
| claim_run: "ClaimAssistantRun clock s i q now st = (r, st') \<Longrightarrow> store_step (Some s) (outcome r) st st'"
| append_run_event: "AppendAssistantRunEvent now s e n st = (r, st') \<Longrightarrow> store_step (Some s) (outcome r) st st'"
| append_item: "AppendAssistantConversationItem canon now s item st = (r, st')
    \<Longrightarrow> item_high_water st s < max_int64 \<Longrightarrow> store_step (Some s) (outcome r) st st'"
| create_thread: "CreateAssistantThread now s t es st = (r, st') \<Longrightarrow> store_step (Some s) (outcome r) st st'"
| update_thread: "UpdateAssistantThread now s t st = (r, st') \<Longrightarrow> store_step (Some s) (outcome r) st st'"
| set_title: "SetAssistantThreadTitleIfEmpty tp now s i actor title e st = (r, st')
    \<Longrightarrow> store_step (Some s) (outcome r) st st'"
| update_thread_event: "UpdateAssistantThreadWithEvent now s t e n st = (r, st') \<Longrightarrow> store_step (Some s) (outcome r) st st'"
| append_thread_event: "AppendAssistantThreadEvent now s e n st = (r, st') \<Longrightarrow> store_step (Some s) (outcome r) st st'"
| watch: "WatchAssistantThreadEvents s i st = (r, st') \<Longrightarrow> store_step (Some s) (outcome r) st st'"
| create_turn: "CreateAssistantTurn now s turn es st = (r, st') \<Longrightarrow> store_step (Some s) (outcome r) st st'"
| save_turn: "SaveAssistantTurn now s turn st = (r, st') \<Longrightarrow> store_step (Some s) (outcome r) st st'"
| save_turn_event: "SaveAssistantTurnWithEvent now s turn e n st = (r, st') \<Longrightarrow> store_step (Some s) (outcome r) st st'"
| delete_thread: "DeleteAssistantThread s i actor st = (r, st') \<Longrightarrow> store_step (Some s) (outcome r) st st'"
| delete_project: "DeleteProjectMessages s st = (r, st') \<Longrightarrow> store_step (Some s) (outcome r) st st'"
| retention: "DeleteMessagesOlderThan before st = (r, st') \<Longrightarrow> store_step None (outcome r) st st'"
| create_attachment: "CreateAttachment sdk now s a st = (r, st')
    \<Longrightarrow> att_BindingID a = [] \<Longrightarrow> att_DraftExpiresAt a = None \<Longrightarrow> store_step (Some s) (outcome r) st st'"
| upload: "CreateAttachmentIdempotent sdk now s a st = (r, st')
    \<Longrightarrow> att_BindingID a = [] \<Longrightarrow> att_DraftExpiresAt a = None \<Longrightarrow> store_step (Some s) (outcome r) st st'"
| get_attachment: "GetAttachment now s i st = (r, st') \<Longrightarrow> store_step (Some s) (outcome r) st st'"
| list_attachments: "ListAttachments now s st = (r, st') \<Longrightarrow> store_step (Some s) (outcome r) st st'"
| verify_receipt: "VerifyAttachmentReceipt sdk now s receipt actor st = (r, st') \<Longrightarrow> store_step (Some s) (outcome r) st st'"
| bind_attachments: "BindAttachments sdk now s receipts actor b st = (r, st') \<Longrightarrow> store_step (Some s) (outcome r) st st'"
| bind_attachment: "BindAttachment sdk now s receipt actor st = (r, st') \<Longrightarrow> store_step (Some s) (outcome r) st st'"
| rollback_binding: "RollbackAttachmentBinding s b st = (r, st') \<Longrightarrow> store_step (Some s) (outcome r) st st'"
| delete_attachment: "DeleteAttachment s i actor st = (r, st') \<Longrightarrow> store_step (Some s) (outcome r) st st'"
| delete_attachments: "DeleteProjectAttachments s st = (r, st') \<Longrightarrow> store_step (Some s) (outcome r) st st'"
| expire_attachments: "DeleteExpiredAttachments before st = (r, st') \<Longrightarrow> store_step None (outcome r) st st'"
| reconcile: "ReconcileAttachmentBindings sdk now st = (r, st') \<Longrightarrow> store_step None (outcome r) st st'"
| configure_quota: "ConfigureAttachmentQuota q st = (r, st') \<Longrightarrow> store_step None (outcome r) st st'"
| create_permit: "CreateProjectBootstrapPermit s actor d st = (r, st') \<Longrightarrow> store_step (Some s) (outcome r) st st'"
| consume_permit: "ConsumeProjectBootstrapPermit s actor d c st = (r, st') \<Longrightarrow> store_step (Some s) (outcome r) st st'"
| set_preference: "SetAssistantApprovalPreference now s p st = (r, st') \<Longrightarrow> store_step (Some s) (outcome r) st st'"
| put_thumbnail: "PutProjectThumbnail s t st = (r, st') \<Longrightarrow> store_step (Some s) (outcome r) st st'"
| delete_thumbnail: "DeleteProjectThumbnail s st = (r, st') \<Longrightarrow> store_step (Some s) (outcome r) st st'"
| try_claim: "TryClaimReplica now c ttl st = (r, st') \<Longrightarrow> store_step None (outcome r) st st'"
| renew_claim: "RenewReplicaClaim now k owner st = (r, st') \<Longrightarrow> store_step None (outcome r) st st'"
| release_claim: "ReleaseReplicaClaim k owner st = (r, st') \<Longrightarrow> store_step None (outcome r) st st'"
| take_over_claim: "TakeOverReplicaClaim now c owner st = (r, st') \<Longrightarrow> store_step None (outcome r) st st'"
| relinquish_claims: "RelinquishReplicaClaims kind owner st = (r, st') \<Longrightarrow> store_step None (outcome r) st st'"
| bump_claim: "BumpReplicaClaimRevision k owner n st = (r, st') \<Longrightarrow> store_step None (outcome r) st st'"
| add_spend: "AddOrganizationSpend clock org at d now st = (r, st') \<Longrightarrow> store_step None (outcome r) st st'"

inductive_cases store_stepE: "store_step p out st st'"

text \<open>The invariant is kept and only the stop request can panic, changing nothing.\<close>

definition step_ok :: "Scope option \<Rightarrow> unit sres \<Rightarrow> MemoryStore \<Rightarrow> MemoryStore \<Rightarrow> bool" where
  "step_ok p out st st' \<longleftrightarrow> store_inv st'
     \<and> (out = Panic \<longrightarrow> st' = st \<and> (\<exists>s. p = Some s \<and> gget (messages st) s = None))"

lemma step_okI: "store_inv st' \<Longrightarrow> r \<noteq> Panic \<Longrightarrow> step_ok p (outcome r) st st'"
  by (simp add: step_ok_def)

lemma side_tables_ops:
  "CreateProjectBootstrapPermit s actor d st = (r1, st') \<Longrightarrow> side_tables st st' \<and> r1 \<noteq> Panic"
  "ConsumeProjectBootstrapPermit s actor d c st = (r2, st') \<Longrightarrow> side_tables st st' \<and> r2 \<noteq> Panic"
  "SetAssistantApprovalPreference now s p st = (r3, st') \<Longrightarrow> side_tables st st' \<and> r3 \<noteq> Panic"
  "PutProjectThumbnail s t st = (r1, st') \<Longrightarrow> side_tables st st' \<and> r1 \<noteq> Panic"
  "DeleteProjectThumbnail s st = (r1, st') \<Longrightarrow> side_tables st st' \<and> r1 \<noteq> Panic"
  "ConfigureAttachmentQuota q st = (r1, st') \<Longrightarrow> side_tables st st' \<and> r1 \<noteq> Panic"
  "TryClaimReplica now cl ttl st = (r4, st') \<Longrightarrow> side_tables st st' \<and> r4 \<noteq> Panic"
  "RenewReplicaClaim now k owner st = (r2, st') \<Longrightarrow> side_tables st st' \<and> r2 \<noteq> Panic"
  "ReleaseReplicaClaim k owner st = (r1, st') \<Longrightarrow> side_tables st st' \<and> r1 \<noteq> Panic"
  "TakeOverReplicaClaim now cl owner st = (r5, st') \<Longrightarrow> side_tables st st' \<and> r5 \<noteq> Panic"
  "RelinquishReplicaClaims kind owner st = (r6, st') \<Longrightarrow> side_tables st st' \<and> r6 \<noteq> Panic"
  "BumpReplicaClaimRevision k owner n st = (r1, st') \<Longrightarrow> side_tables st st' \<and> r1 \<noteq> Panic"
  "AddOrganizationSpend clock org at de now st = (r7, st') \<Longrightarrow> side_tables st st' \<and> r7 \<noteq> Panic"
  by (auto simp: op_defs side_tables_def Let_def split: option.splits sum.splits prod.splits if_splits)


lemma BindAttachment_inv:
  assumes "BindAttachment sdk now s receipt actor st = (r, st')" "attachments_inv st"
  shows "attachments_inv st' \<and> st' = st\<lparr>attachments := attachments st'\<rparr> \<and> r \<noteq> Panic"
proof -
  let ?b = "''legacy:'' @ TrimSpace (rcpt_ID receipt)"
  obtain r1 st1 where b: "BindAttachments sdk now s [receipt] actor ?b st = (r1, st1)" by fastforce
  note i = BindAttachments_inv [OF b assms(2)]
  have "r1 \<noteq> Ok []" using b assms(2) by (cases rule: BindAttachments_cases) auto
  moreover from assms(1) have "(case (r1, st1) of (Ok (a # _), st) \<Rightarrow> (Ok a, st) | (Ok [], st) \<Rightarrow> (Panic, st)
      | (Err e, st) \<Rightarrow> (Err e, st) | (Panic, st) \<Rightarrow> (Panic, st)) = (r, st')"
    by (simp only: BindAttachment_def b)
  ultimately show ?thesis using i by (auto split: res.splits list.splits)
qed

lemma AppendAssistantRunEvent_frame:
  assumes "AppendAssistantRunEvent now s e n st = (r, st')"
  shows "st' = st\<lparr>assistantEvents := assistantEvents st', assistantEventLookup := assistantEventLookup st'\<rparr>"
  using assms by (cases rule: AppendAssistantRunEvent_cases) auto

lemma AppendAssistantConversationItem_frame:
  assumes "AppendAssistantConversationItem canon now s item st = (r, st')"
  shows "st' = st\<lparr>conversationItems := conversationItems st', conversationSequences := conversationSequences st'\<rparr>"
  using assms by (cases rule: AppendAssistantConversationItem_cases) auto

text \<open>One rule for each kind of component, then one line for each group of operations.\<close>

lemma run_step: "run_op s st st' \<and> r \<noteq> Panic \<Longrightarrow> store_inv st \<Longrightarrow> step_ok p (outcome r) st st'"
  using store_inv_run_op step_okI by blast

lemma thread_step:
  "thread_inv st' \<and> thread_fields st st' \<and> r \<noteq> Panic \<Longrightarrow> store_inv st \<Longrightarrow> step_ok p (outcome r) st st'"
  using store_inv_threads step_okI by blast

lemma attachment_step:
  "attachments_inv st' \<and> st' = st\<lparr>attachments := attachments st'\<rparr> \<and> r \<noteq> Panic \<Longrightarrow> store_inv st
    \<Longrightarrow> step_ok p (outcome r) st st'"
  using store_inv_attachments_only step_okI by blast

lemma forget_step: "forgets st st' \<and> r \<noteq> Panic \<Longrightarrow> store_inv st \<Longrightarrow> step_ok p (outcome r) st st'"
  using store_inv_forgets step_okI by blast

lemma side_step: "side_tables st st' \<and> r \<noteq> Panic \<Longrightarrow> store_inv st \<Longrightarrow> step_ok p (outcome r) st st'"
  using store_inv_side step_okI by blast

lemma whole_step: "store_inv st' \<and> r \<noteq> Panic \<Longrightarrow> step_ok p (outcome r) st st'"
  using step_okI by blast

lemmas run_ops = SaveAssistantRun_op CreateAssistantRun_op SaveAssistantRunSnapshot_op ClaimAssistantRun_op
lemmas thread_ops = CreateAssistantThread_inv UpdateAssistantThread_inv SetAssistantThreadTitleIfEmpty_inv
  UpdateAssistantThreadWithEvent_inv AppendAssistantThreadEvent_inv WatchAssistantThreadEvents_inv
  CreateAssistantTurn_inv SaveAssistantTurn_inv SaveAssistantTurnWithEvent_inv
lemmas attachment_ops = BindAttachments_inv BindAttachment_inv RollbackAttachmentBinding_inv
  ReconcileAttachmentBindings_inv
lemmas upload_ops = CreateAttachment_inv CreateAttachmentIdempotent_inv
lemmas forget_ops = GetAttachment_forgets ListAttachments_forgets VerifyAttachmentReceipt_forgets
  DeleteAttachment_forgets DeleteProjectAttachments_forgets DeleteExpiredAttachments_forgets
lemmas delete_ops = DeleteMessagesOlderThan_inv DeleteAssistantThread_inv DeleteProjectMessages_inv

lemma store_step_ok:
  assumes "store_step p out st st'" "store_inv st"
  shows "step_ok p out st st'"
  using assms
proof (induction rule: store_step.induct)
  case (append_message now s m st r st')
  then show ?case
    using AppendMessage_frame AppendMessage_keyed AppendMessage_no_panic store_invD(1) store_inv_messages
    by (metis step_okI)
next
  case (stop_run clock s i n assistant now st r st')
  note op = requestAssistantRunStop_op [OF stop_run(1) [unfolded RequestAssistantRunStopWithAssistantMessage_def]
      store_invD(2) [OF stop_run(2)]]
  have "store_inv st'" by (rule store_inv_run_op [OF stop_run(2) op(1)])
  with op(2) show ?case by (auto simp: step_ok_def)
next
  case (append_run_event now s e n st r st')
  note op = AppendAssistantRunEvent_inv [OF append_run_event(1) store_invD(3) [OF append_run_event(2)]]
  have "store_inv st'"
    using op AppendAssistantRunEvent_frame [OF append_run_event(1)]
    by (intro store_inv_run_events [OF append_run_event(2)]) auto
  with op show ?case by (intro whole_step) simp
next
  case (append_item canon now s item st r st')
  note op = AppendAssistantConversationItem_inv [OF append_item(1) store_invD(4) [OF append_item(3)] append_item(2)]
  have "store_inv st'"
    using op AppendAssistantConversationItem_frame [OF append_item(1)]
    by (intro store_inv_conversation [OF append_item(3)]) auto
  with op show ?case by (intro whole_step) simp
qed ((rule run_step, erule run_ops, erule store_invD, assumption)
  | (rule thread_step, erule thread_ops, erule store_invD, assumption)
  | (rule attachment_step, erule attachment_ops, erule store_invD, assumption)
  | (rule attachment_step, erule upload_ops, erule store_invD, assumption, assumption, assumption)
  | (rule forget_step, erule forget_ops, assumption)
  | (rule whole_step, erule delete_ops, assumption)
  | (rule side_step, erule side_tables_ops, assumption))+

end
