(* ===== verification/Store_Isolation.thy ===== *)
theory Store_Isolation
  imports Store_Steps
begin

text \<open>
  Isolation of projects: an operation called for one project changes nothing that an operation
  called for another project can read, except that uploading sweeps expired drafts out of the
  whole workspace.
\<close>

section \<open>What belongs to a project\<close>

definition same_threads :: "Scope \<Rightarrow> MemoryStore \<Rightarrow> MemoryStore \<Rightarrow> bool" where
  "same_threads s st st' \<longleftrightarrow>
     (\<forall>t. read2 (assistantThreads st') s t = read2 (assistantThreads st) s t
        \<and> read2 (threadEvents st') s t = read2 (threadEvents st) s t
        \<and> slice2 (threadTurnEvents st') s t = slice2 (threadTurnEvents st) s t
        \<and> (\<forall>k. slice3 (threadTurnEventIndex st') s t k = slice3 (threadTurnEventIndex st) s t k)
        \<and> (\<forall>u. read3 (threadTurnStarts st') s t u = read3 (threadTurnStarts st) s t u)
        \<and> (\<forall>u. read3 (assistantTurns st') s t u = read3 (assistantTurns st) s t u))"

definition same_transcript :: "Scope \<Rightarrow> MemoryStore \<Rightarrow> MemoryStore \<Rightarrow> bool" where
  "same_transcript s st st' \<longleftrightarrow>
     (\<forall>i. read2 (messages st') s i = read2 (messages st) s i
        \<and> read2 (assistantRuns st') s i = read2 (assistantRuns st) s i
        \<and> slice2 (assistantEvents st') s i = slice2 (assistantEvents st) s i)
     \<and> (\<forall>k. slice2 (assistantEventLookup st') s k = slice2 (assistantEventLookup st) s k)
     \<and> gread (conversationItems st') s = gread (conversationItems st) s
     \<and> item_high_water st' s = item_high_water st s"

definition same_tables :: "Scope \<Rightarrow> MemoryStore \<Rightarrow> MemoryStore \<Rightarrow> bool" where
  "same_tables s st st' \<longleftrightarrow> gget (bootstrapPermits st') s = gget (bootstrapPermits st) s
     \<and> gget (projectThumbnails st') s = gget (projectThumbnails st) s
     \<and> gget (attachmentDeleted st') s = gget (attachmentDeleted st) s
     \<and> (\<forall>a. read2 (approvalModes st') s a = read2 (approvalModes st) s a)"

text \<open>Attachments of other projects may only go when they are expired drafts.\<close>

definition kept_attachments :: "Scope \<Rightarrow> MemoryStore \<Rightarrow> MemoryStore \<Rightarrow> bool" where
  "kept_attachments s st st' \<longleftrightarrow> (\<forall>i. read2 (attachments st') s i = read2 (attachments st) s i
     \<or> read2 (attachments st') s i = None
       \<and> (\<exists>a now. read2 (attachments st) s i = Some a \<and> attachmentExpired a now))"

definition same_project :: "Scope \<Rightarrow> MemoryStore \<Rightarrow> MemoryStore \<Rightarrow> bool" where
  "same_project s st st' \<longleftrightarrow> same_transcript s st st' \<and> same_threads s st st' \<and> same_tables s st st'
     \<and> kept_attachments s st st'"

lemmas same_defs = same_transcript_def same_threads_def same_tables_def kept_attachments_def

section \<open>Threads\<close>

lemma append_turn_events_fields [simp]:
  "assistantThreads (appendAssistantThreadTurnEventsLocked scope tid es st) = assistantThreads st"
  "assistantTurns (appendAssistantThreadTurnEventsLocked scope tid es st) = assistantTurns st"
  "threadEvents (appendAssistantThreadTurnEventsLocked scope tid es st) = threadEvents st"
  using append_turn_events_frame [of scope tid es st] by auto

lemma append_turn_events_apart:
  assumes "s \<noteq> scope"
  shows "slice2 (threadTurnEvents (appendAssistantThreadTurnEventsLocked scope tid es st)) s t
      = slice2 (threadTurnEvents st) s t"
    "slice3 (threadTurnEventIndex (appendAssistantThreadTurnEventsLocked scope tid es st)) s t k
      = slice3 (threadTurnEventIndex st) s t k"
    "read3 (threadTurnStarts (appendAssistantThreadTurnEventsLocked scope tid es st)) s t u
      = read3 (threadTurnStarts st) s t u"
  using assms by (induction es arbitrary: st) (auto simp: index_turn_event_def Let_def gomap_simps)

lemma read3_put2: "read3 (put2 a b i m) x y z = (if x = a \<and> y = b then gget i z else read3 m x y z)"
  by (simp add: read3_def slice2_put2)

lemma same_threads_refl [simp]: "same_threads s st st"
  by (simp add: same_threads_def)

lemmas apart_simps = same_threads_def append_turn_events_apart gomap_simps read3_put2 Let_def

lemma CreateAssistantThread_apart:
  "CreateAssistantThread now p t es st = (r, st') \<Longrightarrow> s \<noteq> p \<Longrightarrow> same_threads s st st'"
  by (auto simp: CreateAssistantThread_def apart_simps simp del: appendAssistantThreadTurnEventsLocked.simps split: option.splits sum.splits if_splits)

lemma UpdateAssistantThread_apart:
  "UpdateAssistantThread now p t st = (r, st') \<Longrightarrow> s \<noteq> p \<Longrightarrow> same_threads s st st'"
  by (auto simp: UpdateAssistantThread_def apart_simps simp del: appendAssistantThreadTurnEventsLocked.simps split: option.splits sum.splits if_splits)

lemma SetAssistantThreadTitleIfEmpty_apart:
  "SetAssistantThreadTitleIfEmpty tp now p i actor title e st = (r, st') \<Longrightarrow> s \<noteq> p \<Longrightarrow> same_threads s st st'"
  by (auto simp: SetAssistantThreadTitleIfEmpty_def apart_simps simp del: appendAssistantThreadTurnEventsLocked.simps split: option.splits sum.splits if_splits)

lemma UpdateAssistantThreadWithEvent_apart:
  "UpdateAssistantThreadWithEvent now p t e n st = (r, st') \<Longrightarrow> s \<noteq> p \<Longrightarrow> same_threads s st st'"
  by (auto simp: UpdateAssistantThreadWithEvent_def apart_simps simp del: appendAssistantThreadTurnEventsLocked.simps split: option.splits sum.splits if_splits)

lemma AppendAssistantThreadEvent_apart:
  "AppendAssistantThreadEvent now p e n st = (r, st') \<Longrightarrow> s \<noteq> p \<Longrightarrow> same_threads s st st'"
  by (auto simp: AppendAssistantThreadEvent_def apart_simps simp del: appendAssistantThreadTurnEventsLocked.simps split: option.splits sum.splits if_splits)

lemma WatchAssistantThreadEvents_apart:
  "WatchAssistantThreadEvents p i st = (r, st') \<Longrightarrow> s \<noteq> p \<Longrightarrow> same_threads s st st'"
  by (auto simp: WatchAssistantThreadEvents_def apart_simps simp del: appendAssistantThreadTurnEventsLocked.simps split: option.splits prod.splits if_splits)

lemma SaveAssistantTurn_apart:
  "SaveAssistantTurn now p turn st = (r, st') \<Longrightarrow> s \<noteq> p \<Longrightarrow> same_threads s st st'"
  by (auto simp: SaveAssistantTurn_def project_turn_status_def apart_simps simp del: appendAssistantThreadTurnEventsLocked.simps split: option.splits sum.splits if_splits)

lemma SaveAssistantTurnWithEvent_apart:
  "SaveAssistantTurnWithEvent now p turn e n st = (r, st') \<Longrightarrow> s \<noteq> p \<Longrightarrow> same_threads s st st'"
  by (auto simp: SaveAssistantTurnWithEvent_def project_turn_status_def apart_simps simp del: appendAssistantThreadTurnEventsLocked.simps split: option.splits sum.splits if_splits)

lemma CreateAssistantTurn_apart:
  "CreateAssistantTurn now p turn es st = (r, st') \<Longrightarrow> s \<noteq> p \<Longrightarrow> same_threads s st st'"
  by (auto simp: CreateAssistantTurn_def apart_simps simp del: appendAssistantThreadTurnEventsLocked.simps split: option.splits sum.splits if_splits)


section \<open>The other components\<close>

lemma thread_fields_transcript:
  assumes "thread_fields st st'"
  shows "same_transcript s st st' \<and> same_tables s st st' \<and> kept_attachments s st st'"
proof -
  obtain a b c d e f g where st': "st' = st\<lparr>threadEventSignals := a,
     assistantThreads := b, assistantTurns := c, threadEvents := d, threadTurnEvents := e,
     threadTurnEventIndex := f, threadTurnStarts := g\<rparr>"
    using assms unfolding thread_fields_def by blast
  show ?thesis by (simp add: same_defs st' item_high_water_def)
qed

lemma same_project_threads:
  "thread_fields st st' \<Longrightarrow> same_threads s st st' \<Longrightarrow> same_project s st st'"
  using thread_fields_transcript by (simp add: same_project_def)

lemma same_project_run_op:
  assumes "run_op p st st'" "s \<noteq> p"
  shows "same_project s st st'"
proof -
  from assms(1) have eq: "st' = st\<lparr>messages := messages st', assistantRuns := assistantRuns st'\<rparr>"
    and step: "runs_step p (assistantRuns st) (assistantRuns st')"
    and grow: "messages_grow p (messages st) (messages st')" by (auto simp: run_op_def)
  obtain m rs where st': "st' = st\<lparr>messages := m, assistantRuns := rs\<rparr>" using eq by blast
  have "read2 m s i = read2 (messages st) s i" for i
    using grow assms(2) by (auto simp: messages_grow_def st')
  moreover have "read2 rs s i = read2 (assistantRuns st) s i" for i
    using runs_step_other [OF step assms(2)] by (simp add: st')
  ultimately show ?thesis by (simp add: same_project_def same_defs st' item_high_water_def)
qed

lemma same_project_messages:
  assumes "AppendMessage now p msg st = (r, st')" "s \<noteq> p"
  shows "same_project s st st'"
proof -
  obtain m where st': "st' = st\<lparr>messages := m\<rparr>" using AppendMessage_frame [OF assms(1)] by blast
  have "read2 m s i = read2 (messages st) s i" for i
    using AppendMessage_read2 [OF assms(1), of s i] assms(2) by (simp add: st')
  then show ?thesis by (simp add: same_project_def same_defs st' item_high_water_def)
qed

lemma same_project_run_events:
  assumes "AppendAssistantRunEvent now p e n st = (r, st')" "s \<noteq> p"
  shows "same_project s st st'"
  using assms
  by (cases rule: AppendAssistantRunEvent_cases)
    (auto simp: same_project_def same_defs item_high_water_def gomap_simps)

lemma same_project_items:
  assumes "AppendAssistantConversationItem canon now p item st = (r, st')" "s \<noteq> p"
  shows "same_project s st st'"
  using assms
  by (cases rule: AppendAssistantConversationItem_cases)
    (auto simp: same_project_def same_defs item_high_water_def gomap_simps)

lemma same_project_attachments:
  assumes "st' = st\<lparr>attachments := attachments st', attachmentDeleted := attachmentDeleted st'\<rparr>"
    "kept_attachments s st st'" "gget (attachmentDeleted st') s = gget (attachmentDeleted st) s"
  shows "same_project s st st'"
proof -
  obtain a b where st': "st' = st\<lparr>attachments := a, attachmentDeleted := b\<rparr>" using assms(1) by blast
  show ?thesis using assms(2,3)
    unfolding st' by (simp add: same_project_def same_defs item_high_water_def)
qed

text \<open>Attachments: every operation but an upload leaves the others alone.\<close>

lemma kept_same: "(\<And>i. read2 (attachments st') s i = read2 (attachments st) s i) \<Longrightarrow> kept_attachments s st st'"
  by (simp add: kept_attachments_def)

lemma kept_trans:
  "kept_attachments s st st1 \<Longrightarrow> kept_attachments s st1 st2 \<Longrightarrow> kept_attachments s st st2"
  unfolding kept_attachments_def by metis

lemma GetAttachment_kept:
  "GetAttachment now p i st = (r, st') \<Longrightarrow> s \<noteq> p \<Longrightarrow> kept_attachments s st st'
     \<and> st' = st\<lparr>attachments := attachments st'\<rparr>"
  by (auto simp: GetAttachment_def Let_def gomap_simps intro!: kept_same split: option.splits if_splits)

lemma VerifyAttachmentReceipt_kept:
  "VerifyAttachmentReceipt sdk now p receipt actor st = (r, st') \<Longrightarrow> s \<noteq> p \<Longrightarrow> kept_attachments s st st'
     \<and> st' = st\<lparr>attachments := attachments st'\<rparr>"
  using GetAttachment_kept [of now p "rcpt_ID receipt" st]
  by (auto simp: VerifyAttachmentReceipt_def Let_def kept_same split: if_splits prod.splits res.splits option.splits)

lemma ListAttachments_kept:
  "ListAttachments now p st = (r, st') \<Longrightarrow> s \<noteq> p \<Longrightarrow> kept_attachments s st st'
     \<and> st' = st\<lparr>attachments := attachments st'\<rparr>"
  by (auto simp: ListAttachments_def Let_def gomap_simps intro!: kept_same split: option.splits if_splits)

lemma DeleteAttachment_kept:
  "DeleteAttachment p i actor st = (r, st') \<Longrightarrow> s \<noteq> p \<Longrightarrow> kept_attachments s st st'
     \<and> st' = st\<lparr>attachments := attachments st'\<rparr>"
  by (auto simp: DeleteAttachment_def Let_def gomap_simps intro!: kept_same split: option.splits if_splits)

lemma CreateAttachment_kept:
  assumes "CreateAttachment sdk now p a st = (r, st')" "s \<noteq> p"
  shows "kept_attachments s st st' \<and> st' = st\<lparr>attachments := attachments st'\<rparr>"
proof -
  have sw: "read2 (swept now p (ensure p (attachments st))) s i = read2 (attachments st) s i
      \<or> read2 (swept now p (ensure p (attachments st))) s i = None
        \<and> (\<exists>a now. read2 (attachments st) s i = Some a \<and> attachmentExpired a now)" for i
    by (auto simp: read2_swept gomap_simps split: option.splits)
  show ?thesis
    using assms(1)
  proof (cases rule: CreateAttachment_cases)
    case (rejected e m)
    then show ?thesis using sw by (auto simp: kept_attachments_def gomap_simps)
  next
    case (created q inner)
    then show ?thesis using sw assms(2) by (simp add: kept_attachments_def gomap_simps)
  qed
qed

lemma CreateAttachmentIdempotent_kept:
  assumes "CreateAttachmentIdempotent sdk now p a st = (r, st')" "s \<noteq> p"
  shows "kept_attachments s st st' \<and> st' = st\<lparr>attachments := attachments st'\<rparr>"
proof (cases "prepareAttachment sdk now p a")
  case (Inr q)
  obtain r1 s1 where g1: "GetAttachment now p (att_ID q) st = (r1, s1)" by fastforce
  obtain r2 s2 where c: "CreateAttachment sdk now p q s1 = (r2, s2)" by fastforce
  obtain r3 s3 where g3: "GetAttachment now p (att_ID q) s2 = (r3, s3)" by fastforce
  note k = GetAttachment_kept [OF g1 assms(2)] CreateAttachment_kept [OF c assms(2)]
    GetAttachment_kept [OF g3 assms(2)]
  have "st' \<in> {s1, s2, s3}"
    using assms(1) by (auto simp: CreateAttachmentIdempotent_def Inr g1 c g3 split: res.splits if_splits)
  moreover have "s2 = st\<lparr>attachments := attachments s2\<rparr>" using k(1,2) by (cases st, cases s1, cases s2) simp
  moreover from this have "s3 = st\<lparr>attachments := attachments s3\<rparr>" using k(3) by (cases st, cases s2, cases s3) simp
  ultimately show ?thesis using k kept_trans by blast
qed (use assms in \<open>auto simp: CreateAttachmentIdempotent_def intro: kept_same\<close>)


lemma BindAttachments_kept:
  assumes "BindAttachments sdk now p receipts actor b st = (r, st')" "attachments_inv st" "s \<noteq> p"
  shows "kept_attachments s st st' \<and> st' = st\<lparr>attachments := attachments st'\<rparr>"
  using assms(1,2)
proof (cases rule: BindAttachments_cases)
  case (rejected e m)
  then show ?thesis unfolding kept_attachments_def by auto blast
next
  case (bound result m)
  then show ?thesis using assms(3) by (auto intro!: kept_same)
qed

lemma BindAttachment_kept:
  assumes "BindAttachment sdk now p receipt actor st = (r, st')" "attachments_inv st" "s \<noteq> p"
  shows "kept_attachments s st st' \<and> st' = st\<lparr>attachments := attachments st'\<rparr>"
proof -
  obtain r1 st1 where b: "BindAttachments sdk now p [receipt] actor (''legacy:'' @ TrimSpace (rcpt_ID receipt)) st
      = (r1, st1)" by fastforce
  have "(case (r1, st1) of (Ok (a # _), st) \<Rightarrow> (Ok a, st) | (Ok [], st) \<Rightarrow> (Panic, st)
      | (Err e, st) \<Rightarrow> (Err e, st) | (Panic, st) \<Rightarrow> (Panic, st)) = (r, st')"
    using assms(1) by (simp only: BindAttachment_def b)
  then have "st' = st1" by (auto split: res.splits list.splits)
  with BindAttachments_kept [OF b assms(2,3)] show ?thesis by simp
qed

lemma RollbackAttachmentBinding_kept:
  assumes "RollbackAttachmentBinding p b st = (r, st')" "attachments_inv st" "s \<noteq> p"
  shows "kept_attachments s st st' \<and> st' = st\<lparr>attachments := attachments st'\<rparr>"
proof (cases "r = Ok ()")
  case True
  have "kept_attachments s st st'"
    using RollbackAttachmentBinding_read2 [OF assms(1) [unfolded True]] assms(3)
    by (auto intro!: kept_same split: option.splits)
  with RollbackAttachmentBinding_inv [OF assms(1,2)] show ?thesis by simp
next
  case False
  with assms(1) show ?thesis
    by (auto simp: RollbackAttachmentBinding_def Let_def intro!: kept_same split: option.splits if_splits)
qed

lemma same_project_kept:
  assumes "kept_attachments s st st' \<and> st' = st\<lparr>attachments := attachments st'\<rparr>"
  shows "same_project s st st'"
proof -
  obtain a where st': "st' = st\<lparr>attachments := a\<rparr>" using assms by blast
  show ?thesis using assms unfolding st' by (simp add: same_project_def same_defs item_high_water_def)
qed

section \<open>Deletion\<close>

lemma same_project_refl [simp]: "same_project s st st"
  by (simp add: same_project_def same_defs)

lemma same_project_trans [trans]:
  assumes "same_project s st st1" "same_project s st1 st2"
  shows "same_project s st st2"
proof -
  have "kept_attachments s st st2" using assms kept_trans unfolding same_project_def by blast
  with assms show ?thesis
    by (simp add: same_project_def same_transcript_def same_threads_def same_tables_def)
qed

lemma same_project_runs_gone:
  assumes "runs_gone G st st'" "\<And>i. (s, i) \<notin> G"
  shows "same_project s st st'"
proof -
  obtain a b c d where st': "st' = st\<lparr>assistantRuns := a, assistantEvents := b, assistantEventLookup := c,
      conversationItems := d\<rparr>" using conjunct1 [OF assms(1) [unfolded runs_gone_def]] by blast
  show ?thesis using conjunct2 [OF assms(1) [unfolded runs_gone_def]] assms(2)
    unfolding st' by (simp add: same_project_def same_defs item_high_water_def)
qed

lemma same_project_threads_gone:
  assumes "threads_gone G st st'" "\<And>i. (s, i) \<notin> G"
  shows "same_project s st st'"
proof -
  have "\<not> owned_by G st s a" for a using assms(2) by (simp add: owned_by_def)
  moreover obtain a b c d e f g where st': "st' = st\<lparr>assistantThreads := a, assistantTurns := b,
      threadEvents := c, threadTurnEvents := d, threadTurnEventIndex := e, threadTurnStarts := f,
      attachments := g\<rparr>" using conjunct1 [OF assms(1) [unfolded threads_gone_def]] by blast
  ultimately show ?thesis using conjunct2 [OF assms(1) [unfolded threads_gone_def]] assms(2)
    unfolding st' by (simp add: same_project_def same_defs item_high_water_def split: option.splits)
qed

lemma same_project_set_messages:
  "(\<And>i. read2 m s i = read2 (messages st) s i) \<Longrightarrow> same_project s st (st\<lparr>messages := m\<rparr>)"
  by (simp add: same_project_def same_defs item_high_water_def)

lemma DeleteAssistantThread_apart:
  assumes "DeleteAssistantThread p i actor st = (r, st')" "store_inv st" "s \<noteq> p"
  shows "same_project s st st'"
  using assms(1) store_invD(3,5) [OF assms(2)]
proof (cases rule: DeleteAssistantThread_cases)
  case (deleted tid thread st2 st3)
  have none: "\<not> run_messages st (runs_of st p tid) s i" for i
    using assms(3) by (simp add: run_messages_def runs_of_def)
  have "same_project s st (st\<lparr>messages := messages st2\<rparr>)"
    by (rule same_project_set_messages) (simp add: deleted(6) none)
  also have "same_project s (st\<lparr>messages := messages st2\<rparr>) st2"
    by (rule same_project_runs_gone [OF deleted(7)]) (use assms(3) in \<open>simp add: runs_of_def\<close>)
  also have "same_project s st2 st3"
    by (rule same_project_threads_gone [OF deleted(8)]) (use assms(3) in simp)
  also have "same_project s st3 (st3\<lparr>messages := messages st'\<rparr>)"
    by (rule same_project_set_messages) (simp add: deleted(10) threads_gone_frame(1) [OF deleted(8)])
  also have "same_project s (st3\<lparr>messages := messages st'\<rparr>) st'"
    by (rule same_project_runs_gone [OF deleted(9)]) simp
  finally show ?thesis .
qed simp

lemma DeleteProjectMessages_apart:
  "DeleteProjectMessages p st = (r, st') \<Longrightarrow> s \<noteq> p \<Longrightarrow> same_project s st st'"
  by (cases "Scope_validate p")
    (auto simp: DeleteProjectMessages_def same_project_def same_defs item_high_water_def gomap_simps)

lemma DeleteProjectAttachments_apart:
  "DeleteProjectAttachments p st = (r, st') \<Longrightarrow> s \<noteq> p \<Longrightarrow> same_project s st st'"
  by (auto simp: DeleteProjectAttachments_def same_project_def same_defs item_high_water_def gomap_simps
      split: option.splits)

section \<open>The remaining tables\<close>

lemma tables_apart:
  "CreateProjectBootstrapPermit p actor d st = (r1, st') \<Longrightarrow> s \<noteq> p \<Longrightarrow> same_project s st st'"
  "ConsumeProjectBootstrapPermit p actor d c st = (r2, st') \<Longrightarrow> s \<noteq> p \<Longrightarrow> same_project s st st'"
  "SetAssistantApprovalPreference now p pref st = (r3, st') \<Longrightarrow> s \<noteq> p \<Longrightarrow> same_project s st st'"
  "PutProjectThumbnail p t st = (r1, st') \<Longrightarrow> s \<noteq> p \<Longrightarrow> same_project s st st'"
  "DeleteProjectThumbnail p st = (r1, st') \<Longrightarrow> s \<noteq> p \<Longrightarrow> same_project s st st'"
proof -
  have *: "same_project s st (st\<lparr>bootstrapPermits := gput p x (bootstrapPermits st)\<rparr>)"
    "same_project s st (st\<lparr>approvalModes := put2 p a y (approvalModes st)\<rparr>)"
    "same_project s st (st\<lparr>projectThumbnails := gput p z (projectThumbnails st)\<rparr>)"
    "same_project s st (st\<lparr>projectThumbnails := gdel p (projectThumbnails st)\<rparr>)"
    if "s \<noteq> p" for x a y z
    using that by (simp_all add: same_project_def same_defs item_high_water_def gomap_simps)
  show "CreateProjectBootstrapPermit p actor d st = (r1, st') \<Longrightarrow> s \<noteq> p \<Longrightarrow> same_project s st st'"
    "ConsumeProjectBootstrapPermit p actor d c st = (r2, st') \<Longrightarrow> s \<noteq> p \<Longrightarrow> same_project s st st'"
    "SetAssistantApprovalPreference now p pref st = (r3, st') \<Longrightarrow> s \<noteq> p \<Longrightarrow> same_project s st st'"
    "PutProjectThumbnail p t st = (r1, st') \<Longrightarrow> s \<noteq> p \<Longrightarrow> same_project s st st'"
    "DeleteProjectThumbnail p st = (r1, st') \<Longrightarrow> s \<noteq> p \<Longrightarrow> same_project s st st'"
    by (auto simp: op_defs Let_def * split: option.splits sum.splits if_splits)
qed

section \<open>Isolation\<close>

lemmas thread_apart = CreateAssistantThread_apart UpdateAssistantThread_apart
  SetAssistantThreadTitleIfEmpty_apart UpdateAssistantThreadWithEvent_apart AppendAssistantThreadEvent_apart
  WatchAssistantThreadEvents_apart CreateAssistantTurn_apart SaveAssistantTurn_apart SaveAssistantTurnWithEvent_apart
lemmas attachments_kept = CreateAttachment_kept CreateAttachmentIdempotent_kept GetAttachment_kept
  ListAttachments_kept VerifyAttachmentReceipt_kept DeleteAttachment_kept
lemmas bindings_kept = BindAttachments_kept BindAttachment_kept RollbackAttachmentBinding_kept
lemmas project_apart = same_project_messages same_project_run_events same_project_items
  DeleteProjectMessages_apart DeleteProjectAttachments_apart tables_apart

lemma thread_op_apart:
  "thread_inv st' \<and> thread_fields st st' \<and> r \<noteq> Panic \<Longrightarrow> same_threads s st st' \<Longrightarrow> same_project s st st'"
  using same_project_threads by blast

lemma run_op_apart: "run_op p st st' \<and> r \<noteq> Panic \<Longrightarrow> s \<noteq> p \<Longrightarrow> same_project s st st'"
  using same_project_run_op by blast

lemma store_step_apart:
  assumes "store_step (Some p) out st st'" "store_inv st" "s \<noteq> p"
  shows "same_project s st st'"
  using assms
proof (induction "Some p" out st st' rule: store_step.induct)
  case (stop_run clock i n assistant now st r st')
  note op = requestAssistantRunStop_op [OF stop_run(1) [unfolded RequestAssistantRunStopWithAssistantMessage_def]
      store_invD(2) [OF stop_run(2)]]
  show ?case by (rule same_project_run_op [OF op(1) stop_run(3)])
qed ((rule run_op_apart, erule run_ops, erule store_invD, assumption)
  | (rule thread_op_apart, erule thread_ops, erule store_invD, erule thread_apart, assumption)
  | (erule project_apart, assumption)
  | (rule same_project_kept, erule attachments_kept, assumption)
  | (rule same_project_kept, erule bindings_kept, erule store_invD, assumption)
  | (erule DeleteAssistantThread_apart, assumption, assumption))+

end
