(* ===== verification/Store_Examples.thy ===== *)
theory Store_Examples
  imports Store_Isolation
begin

text \<open>
  The states a store can reach from \<open>NewMemoryStore\<close> by its operations, and a small project in
  such a state: two messages, a run with its event log, a thread with a turn, two attachments and
  a claim. Every invariant of the development holds in these states because they are reachable,
  and the properties are applied to them.
\<close>

section \<open>Reachable states\<close>

inductive reachable :: "AttachmentQuota \<Rightarrow> MemoryStore \<Rightarrow> bool" for quota where
  new: "reachable quota (NewMemoryStore quota)"
| step: "reachable quota st \<Longrightarrow> store_step p out st st' \<Longrightarrow> reachable quota st'"

lemma reachable_inv: "reachable quota st \<Longrightarrow> store_inv st"
  by (induction rule: reachable.induct) (use store_step_ok step_ok_def store_inv_new in blast)+

text \<open>The state after an operation is reachable: the form the examples are built with.\<close>

lemma reachable_snd:
  assumes "reachable quota st" "\<And>r st'. f st = (r, st') \<Longrightarrow> store_step p (outcome r) st st'"
  shows "reachable quota (snd (f st))"
  using assms by (cases "f st") (auto intro: reachable.step)

lemma reach_ops:
  assumes "reachable quota st"
  shows "reachable quota (snd (AppendMessage now s m st))"
    "reachable quota (snd (CreateAssistantRun now s user assistant run st))"
    "reachable quota (snd (AppendAssistantRunEvent now s re n st))"
    "reachable quota (snd (CreateAssistantThread now s t es st))"
    "reachable quota (snd (AppendAssistantThreadEvent now s te n st))"
    "reachable quota (snd (CreateAssistantTurn now s turn es st))"
    "reachable quota (snd (SaveAssistantTurn now s turn st))"
    "att_BindingID a = [] \<Longrightarrow> att_DraftExpiresAt a = None
      \<Longrightarrow> reachable quota (snd (CreateAttachment sdk now s a st))"
    "reachable quota (snd (BindAttachments sdk now s rs actor b st))"
    "reachable quota (snd (TryClaimReplica now c ttl st))"
  by (rule reachable_snd [OF assms], erule store_step.intros; assumption?)+

section \<open>A project\<close>

definition ex_scope :: Scope where
  "ex_scope = \<lparr>OrgUUID = ''o'', WorkspaceUUID = ''w'', ProjectName = ''p'', ProjectUID = ''u''\<rparr>"

definition ex_other :: Scope where
  "ex_other = \<lparr>OrgUUID = ''o'', WorkspaceUUID = ''w'', ProjectName = ''q'', ProjectUID = ''v''\<rparr>"

definition ex_quota :: AttachmentQuota where
  "ex_quota = \<lparr>WorkspaceMaxBytes = 100, DraftProjectMaxBytes = 50, DraftProjectMaxCount = 2\<rparr>"

definition ex_message :: "string \<Rightarrow> string \<Rightarrow> time \<Rightarrow> Message" where
  "ex_message i role t = \<lparr>msg_ID = i, msg_ProjectName = [], msg_ProjectUID = [], msg_ActorID = ''a'',
     msg_Role = role, msg_Content = ''hi'', msg_ContentEncrypted = False, msg_ContentKeyID = [],
     msg_Metadata = [], msg_CreatedAt = t, msg_UpdatedAt = 0\<rparr>"

definition ex_run :: "string \<Rightarrow> string \<Rightarrow> AssistantRun" where
  "ex_run i request = \<lparr>run_ID = i, run_ThreadID = ''t'', run_ProjectName = [], run_ProjectUID = [],
     run_Mode = ''default'', run_ApprovalMode = [], run_Status = AssistantRunStatusRunning,
     run_ClientRequestID = request, run_UserMessageID = ''m3'', run_ActiveMessageID = ''m4'',
     run_Revision = 1, run_RequestID = [], run_Checkpoint = [], run_Audit = [], run_Error = [],
     run_AbortReason = [], run_CreatedAt = 0, run_UpdatedAt = 0\<rparr>"

definition ex_run_event :: "string \<Rightarrow> string \<Rightarrow> AssistantRunEvent" where
  "ex_run_event i ty = \<lparr>rev_RunID = i, rev_ProjectName = [], rev_ProjectUID = [], rev_Sequence = 0,
     rev_Type = ty, rev_CallID = [], rev_ToolName = [], rev_ArgsDigest = [], rev_Payload = [],
     rev_CreatedAt = 0\<rparr>"

definition ex_thread :: "string \<Rightarrow> AssistantThread" where
  "ex_thread i = \<lparr>thread_ID = i, thread_Title = [], thread_Status = AssistantThreadStatusIdle,
     thread_ActorID = ''a'', thread_ReasoningEffortByModel = [], thread_CreatedAt = 0,
     thread_UpdatedAt = 0\<rparr>"

definition ex_turn :: "string \<Rightarrow> AssistantTurnStatus \<Rightarrow> AssistantTurn" where
  "ex_turn i status = \<lparr>turn_ID = i, turn_ThreadID = ''t'', turn_ActorID = ''a'',
     turn_ClientUserMessageID = ''c'' @ i, turn_Mode = [], turn_ApprovalMode = [],
     turn_Status = status, turn_Checkpoint = [], turn_Error = [], turn_CreatedAt = 0,
     turn_UpdatedAt = 0\<rparr>"

definition ex_event :: "string \<Rightarrow> string \<Rightarrow> AssistantThreadEvent" where
  "ex_event turn ty = \<lparr>tev_ThreadID = ''t'', tev_TurnID = turn, tev_Sequence = 0, tev_Type = ty,
     tev_ItemID = [], tev_RequestID = [], tev_Payload = [], tev_CreatedAt = 0\<rparr>"

text \<open>
  The states are written out, each as a change of the one before, so that they need not be computed
  again wherever they are used; that the operations lead from one to the next is proved once. First,
  two messages.
\<close>

definition ex_stored :: "Message \<Rightarrow> string \<times> Message" where
  "ex_stored m = (msg_ID m, m\<lparr>msg_ProjectName := ''p'', msg_ProjectUID := ''u'', msg_UpdatedAt := msg_CreatedAt m\<rparr>)"

definition ex_store :: MemoryStore where
  "ex_store = (NewMemoryStore ex_quota)\<lparr>messages := [(ex_scope,
     [ex_stored (ex_message ''m2'' ''user'' 2), ex_stored (ex_message ''m1'' ''user'' 3)])]\<rparr>"

lemma ex_store_op:
  "ex_store = snd (AppendMessage 5 ex_scope (ex_message ''m1'' ''user'' 3)
     (snd (AppendMessage 4 ex_scope (ex_message ''m2'' ''user'' 2) (NewMemoryStore ex_quota))))"
  by code_simp

text \<open>A run of a thread with its two messages, then two events of the run.\<close>

definition ex_running :: MemoryStore where
  "ex_running = ex_store\<lparr>
     messages := [(ex_scope, [ex_stored (ex_message ''m2'' ''user'' 2), ex_stored (ex_message ''m1'' ''user'' 3),
       ex_stored (ex_message ''m3'' ''user'' 6), ex_stored (ex_message ''m4'' ''assistant'' 6)])],
     assistantRuns := [(ex_scope, [(''r'', (ex_run ''r'' ''q'')\<lparr>run_ProjectName := ''p'', run_ProjectUID := ''u'',
       run_ApprovalMode := ''on_request'', run_CreatedAt := 6, run_UpdatedAt := 6\<rparr>)])]\<rparr>"

lemma ex_running_op:
  "ex_running = snd (CreateAssistantRun 6 ex_scope (ex_message ''m3'' ''user'' 6)
     (ex_message ''m4'' ''assistant'' 6) (ex_run ''r'' ''q'') ex_store)"
  by code_simp

definition ex_logged_event :: "string \<Rightarrow> int64 \<Rightarrow> time \<Rightarrow> AssistantRunEvent" where
  "ex_logged_event ty n t = (ex_run_event ''r'' ty)\<lparr>rev_ProjectName := ''p'', rev_ProjectUID := ''u'',
     rev_Sequence := n, rev_Payload := ''{}'', rev_CreatedAt := t\<rparr>"

definition ex_logged :: MemoryStore where
  "ex_logged = ex_running\<lparr>
     assistantEvents := [(ex_scope, [(''r'', [ex_logged_event ''text'' 1 7, ex_logged_event ''tool'' 2 8])])],
     assistantEventLookup := [(ex_scope, [((''r'', ''text''), [ex_logged_event ''text'' 1 7]),
       ((''r'', ''tool''), [ex_logged_event ''tool'' 2 8])])]\<rparr>"

lemma ex_logged_op:
  "ex_logged = snd (AppendAssistantRunEvent 8 ex_scope (ex_run_event ''r'' ''tool'') 1
     (snd (AppendAssistantRunEvent 7 ex_scope (ex_run_event ''r'' ''text'') 0 ex_running)))"
  by code_simp

text \<open>A thread with one event, then a turn with two more.\<close>

definition ex_thread_event :: "string \<Rightarrow> string \<Rightarrow> int64 \<Rightarrow> time \<Rightarrow> AssistantThreadEvent" where
  "ex_thread_event turn ty n t = (ex_event turn ty)\<lparr>tev_Sequence := n, tev_Payload := ''{}'', tev_CreatedAt := t\<rparr>"

definition ex_threads :: MemoryStore where
  "ex_threads = ex_logged\<lparr>
     assistantThreads := [(ex_scope, [(''t'', (ex_thread ''t'')\<lparr>thread_CreatedAt := 9, thread_UpdatedAt := 9\<rparr>)])],
     threadEvents := [(ex_scope, [(''t'', [ex_thread_event [] ''created'' 1 9])])]\<rparr>"

lemma ex_threads_op:
  "ex_threads = snd (CreateAssistantThread 9 ex_scope (ex_thread ''t'') [ex_event [] ''created''] ex_logged)"
  by code_simp

definition ex_turns :: MemoryStore where
  "ex_turns = (let started = ex_thread_event ''r'' ''turn.started'' 2 10; text = ex_thread_event ''r'' ''text'' 3 10
     in ex_threads\<lparr>
       assistantThreads := [(ex_scope, [(''t'', (ex_thread ''t'')\<lparr>thread_Status := AssistantThreadStatusActive,
         thread_CreatedAt := 9, thread_UpdatedAt := 10\<rparr>)])],
       assistantTurns := [(ex_scope, [(''t'', [(''r'', (ex_turn ''r'' AssistantTurnStatusInProgress)\<lparr>
         turn_Mode := ''default'', turn_ApprovalMode := ''on_request'', turn_Checkpoint := ''{}'', turn_Error := ''{}'',
         turn_CreatedAt := 10, turn_UpdatedAt := 10\<rparr>)])])],
       threadEvents := [(ex_scope, [(''t'', [ex_thread_event [] ''created'' 1 9, started, text])])],
       threadTurnEvents := [(ex_scope, [(''t'', [started, text])])],
       threadTurnEventIndex := [(ex_scope, [(''t'', [((''r'', ''turn.started''), [started]), ((''r'', ''text''), [text])])])],
       threadTurnStarts := [(ex_scope, [(''t'', [(''r'', 2)])])]\<rparr>)"

lemma ex_turns_op:
  "ex_turns = snd (CreateAssistantTurn 10 ex_scope (ex_turn ''r'' (AssistantTurnStatusUnknown []))
     [ex_event [] ''turn.started'', ex_event [] ''text''] ex_threads)"
  by code_simp

lemma ex_reachable:
  "reachable ex_quota ex_store" "reachable ex_quota ex_running" "reachable ex_quota ex_logged"
  "reachable ex_quota ex_threads" "reachable ex_quota ex_turns"
proof -
  show store: "reachable ex_quota ex_store" unfolding ex_store_op by (intro reach_ops reachable.new)
  show running: "reachable ex_quota ex_running" unfolding ex_running_op by (intro reach_ops store)
  show logged: "reachable ex_quota ex_logged" unfolding ex_logged_op by (intro reach_ops running)
  show threads: "reachable ex_quota ex_threads" unfolding ex_threads_op by (intro reach_ops logged)
  show "reachable ex_quota ex_turns" unfolding ex_turns_op by (intro reach_ops threads)
qed

lemmas ex_inv = ex_reachable [THEN reachable_inv]
lemmas ex_defs = ex_scope_def ex_other_def ex_quota_def ex_message_def ex_run_def ex_run_event_def
  ex_thread_def ex_turn_def ex_event_def

text \<open>A cursor codec that does what the code relies on: the instant in unary, then the ID.\<close>

definition ex_codec :: cursor_codec where
  "ex_codec = \<lparr>
     codec_marshal = (\<lambda>t i. replicate (nat t) CHR ''1'' @ CHR ''0'' # i),
     codec_unmarshal = (\<lambda>s. Some (int (length (takeWhile (\<lambda>c. c = CHR ''1'') s)),
        tl (dropWhile (\<lambda>c. c = CHR ''1'') s))),
     codec_EncodeToString = (\<lambda>s. CHR ''x'' # s @ [CHR ''x'']),
     codec_DecodeString = (\<lambda>s. Some (butlast (tl s)))\<rparr>"

lemma TrimSpace_x: "TrimSpace (CHR ''x'' # s @ [CHR ''x'']) = CHR ''x'' # s @ [CHR ''x'']"
  by (simp add: TrimSpace_def trim_left.simps trim_right.simps space_prefix_def space_suffix_def
      space_width_def space1_def space2_def space3_def take_Cons')

lemma ex_codec_ok: "\<forall>k \<in> K. 0 \<le> key_at k \<Longrightarrow> codec_ok ex_codec K"
  by (auto simp: codec_ok_def ex_codec_def TrimSpace_x takeWhile_append dropWhile_append
      takeWhile_replicate dropWhile_replicate)

lemma ex_values:
  "ex_scope \<noteq> ex_other" "Scope_validate ex_scope = None" "Scope_validate ex_other = None"
  by code_simp+

end
