(* ===== verification/Store_Gaps.thy ===== *)
theory Store_Gaps
  imports Store_Examples
begin

text \<open>
  Concrete runs in which \<open>MemoryStore\<close> does what its callers hardly want: an operation that fails
  has stored half of its messages, a turn that is over becomes active again beside another one or
  is replaced by a new turn of the same ID, creating a run takes over messages of other actors,
  and a counter of spend runs over the largest \<open>int64\<close>.
\<close>

section \<open>A snapshot that fails has stored messages\<close>

text \<open>
  The second message belongs to another actor, so the snapshot fails; the first one is stored.
\<close>

definition ex_snapshot :: "Message list" where
  "ex_snapshot = [ex_message ''m5'' ''assistant'' 7, (ex_message ''m1'' ''user'' 7)\<lparr>msg_ActorID := ''b''\<rparr>]"

lemma failed_snapshot_stores_messages:
  "case SaveAssistantRunSnapshot 9 ex_scope ((ex_run ''r'' ''q'')\<lparr>run_Revision := 2\<rparr>) ex_snapshot 1 ex_running of
     (r, st) \<Rightarrow> \<not> res_ok r \<and> read2 (messages ex_running) ex_scope ''m5'' = None
       \<and> read2 (messages st) ex_scope ''m5'' \<noteq> None"
  by code_simp

section \<open>A new run takes over stored messages\<close>

lemma new_run_overwrites_messages:
  "case CreateAssistantRun 6 ex_scope ((ex_message ''m1'' ''user'' 6)\<lparr>msg_ActorID := ''b''\<rparr>)
     ((ex_message ''m4'' ''assistant'' 6)\<lparr>msg_ActorID := ''b''\<rparr>)
     ((ex_run ''r'' ''q'')\<lparr>run_UserMessageID := ''m1''\<rparr>) ex_store of
     (r, st) \<Rightarrow> res_ok r \<and> map_option msg_ActorID (read2 (messages ex_store) ex_scope ''m1'') = Some ''a''
       \<and> map_option msg_ActorID (read2 (messages st) ex_scope ''m1'') = Some ''b''"
  by code_simp

section \<open>Turns that are over\<close>

text \<open>
  The first turn completes and a second one starts; saving the first as in progress again leaves
  the thread with two unfinished turns.
\<close>

definition ex_turn_over :: MemoryStore where
  "ex_turn_over = (NewMemoryStore ex_quota)\<lparr>
     assistantThreads := [(ex_scope, [(''t'', (ex_thread ''t'')\<lparr>thread_CreatedAt := 9, thread_UpdatedAt := 11\<rparr>)])],
     assistantTurns := [(ex_scope, [(''t'', [(''r'', (ex_turn ''r'' AssistantTurnStatusCompleted)\<lparr>
       turn_Mode := ''default'', turn_ApprovalMode := ''on_request'', turn_Checkpoint := ''{}'', turn_Error := ''{}'',
       turn_CreatedAt := 10, turn_UpdatedAt := 11\<rparr>)])])],
     threadEvents := [(ex_scope, [(''t'', [])])]\<rparr>"

lemma ex_turn_over_op:
  "ex_turn_over = snd (SaveAssistantTurn 11 ex_scope (ex_turn ''r'' AssistantTurnStatusCompleted)
     (snd (CreateAssistantTurn 10 ex_scope (ex_turn ''r'' (AssistantTurnStatusUnknown [])) []
     (snd (CreateAssistantThread 9 ex_scope (ex_thread ''t'') [] (NewMemoryStore ex_quota))))))"
  by code_simp

lemma finished_turn_restarts:
  "case SaveAssistantTurn 13 ex_scope (ex_turn ''r'' AssistantTurnStatusInProgress)
     (snd (CreateAssistantTurn 12 ex_scope (ex_turn ''s'' (AssistantTurnStatusUnknown [])) [] ex_turn_over)) of
     (r, st) \<Rightarrow> res_ok r \<and> length (filter (\<lambda>t. \<not> assistantTurnStatusTerminal (turn_Status t))
       (gvalues (slice2 (assistantTurns st) ex_scope ''t''))) = 2"
  by code_simp

text \<open>A new turn with the ID of the finished one, for another client message, replaces it.\<close>

lemma finished_turn_is_replaced:
  "map turn_ClientUserMessageID (gvalues (slice2 (assistantTurns ex_turn_over) ex_scope ''t'')) = [''cr'']"
  "case CreateAssistantTurn 12 ex_scope
     ((ex_turn ''r'' (AssistantTurnStatusUnknown []))\<lparr>turn_ClientUserMessageID := ''new''\<rparr>) [] ex_turn_over of
     (r, st) \<Rightarrow> res_ok r
       \<and> map turn_ClientUserMessageID (gvalues (slice2 (assistantTurns st) ex_scope ''t'')) = [''new'']"
  by code_simp+

text \<open>
  Whether a retry finds its turn depends on the order in which the turns are visited, once another
  turn of the thread is unfinished.
\<close>

lemma retry_depends_on_map_order:
  assumes "turn_ClientUserMessageID a = c" "turn_ClientUserMessageID b \<noteq> c"
    and "\<not> assistantTurnStatusTerminal (turn_Status b)"
  shows "scan_turns c [a, b] = Some (Inr a)" "scan_turns c [b, a] = Some (Inl ErrAssistantTurnConflict)"
  using assms by auto

section \<open>Spend past the largest counter\<close>

text \<open>
  The cost of a call that cannot be priced is recorded as the largest \<open>int64\<close>, to count fully
  against the cap; on top of any other spend of the month the counter wraps to a negative amount.
\<close>

lemma unpriced_call_wraps_the_spend:
  "case AddOrganizationSpend 1 ''o'' 5 \<lparr>delta_InputTokens = 1, delta_OutputTokens = 0, delta_USDMicros = 3\<rparr> 5
       (NewMemoryStore ex_quota) of (r, st) \<Rightarrow>
     case AddOrganizationSpend 1 ''o'' 6 \<lparr>delta_InputTokens = 1, delta_OutputTokens = 0, delta_USDMicros = max_int64\<rparr> 6 st of
       (Ok spend, st') \<Rightarrow> spend_USDMicros spend < 0 | _ \<Rightarrow> False"
  by code_simp

end
