(* ===== verification/Go_Json_Struct.thy ===== *)
theory Go_Json_Struct
  imports Go_Json
begin

text \<open>
  \<open>json.Unmarshal\<close> and \<open>json.Marshal\<close> for the flat structs of the store: the members of the
  top-level object as name and first token, found again with the field names up to case, and the
  encoder of strings (HTML-safe escapes, invalid UTF-8 replaced). Shown: the string encoder is
  the identity on plain text, and reading what it wrote gives the text back.
\<close>

section \<open>UTF-8\<close>

definition continuation :: "char \<Rightarrow> bool" where
  "continuation c \<longleftrightarrow> 128 \<le> (of_char c :: nat) \<and> (of_char c :: nat) \<le> 191"

text \<open>The width of the rune at the head of a byte string, 0 where \<open>utf8.DecodeRune\<close> fails.\<close>

definition rune_width :: "char \<Rightarrow> string \<Rightarrow> nat" where
  "rune_width a s =
     (let n = (of_char a :: nat);
          more = (\<lambda>k. k \<le> length s \<and> (\<forall>c \<in> set (take k s). continuation c)
            \<and> (if n = 224 then 160 else if n = 240 then 144 else 128) \<le> (of_char (hd s) :: nat)
            \<and> (of_char (hd s) :: nat) \<le> (if n = 237 then 159 else if n = 244 then 143 else 191))
      in if n < 128 then 1
         else if 194 \<le> n \<and> n \<le> 223 \<and> more 1 then 2
         else if 224 \<le> n \<and> n \<le> 239 \<and> more 2 then 3
         else if 240 \<le> n \<and> n \<le> 244 \<and> more 3 then 4 else 0)"

definition replacement :: string where
  "replacement = [CHR 0xEF, CHR 0xBF, CHR 0xBD]"

definition encode_rune :: "nat \<Rightarrow> string" where
  "encode_rune r =
     (if r < 128 then [char_of r]
      else if r < 2048 then [char_of (192 + r div 64), char_of (128 + r mod 64)]
      else if 55296 \<le> r \<and> r < 57344 \<or> 1114111 < r then replacement
      else if r < 65536
      then [char_of (224 + r div 4096), char_of (128 + r div 64 mod 64), char_of (128 + r mod 64)]
      else [char_of (240 + r div 262144), char_of (128 + r div 4096 mod 64),
            char_of (128 + r div 64 mod 64), char_of (128 + r mod 64)])"

section \<open>Reading strings\<close>

abbreviation quote :: char where
  "quote \<equiv> CHR 0x22"

abbreviation backslash :: char where
  "backslash \<equiv> CHR 0x5C"

definition hex_value :: "char \<Rightarrow> nat option" where
  "hex_value c = (let n = (of_char c :: nat)
     in if 48 \<le> n \<and> n \<le> 57 then Some (n - 48) else if 97 \<le> n \<and> n \<le> 102 then Some (n - 87)
        else if 65 \<le> n \<and> n \<le> 70 then Some (n - 55) else None)"

fun hex4 :: "string \<Rightarrow> nat option" where
  "hex4 (a # b # c # d # _) =
     (case (hex_value a, hex_value b, hex_value c, hex_value d) of
        (Some w, Some x, Some y, Some z) \<Rightarrow> Some (((w * 16 + x) * 16 + y) * 16 + z)
      | _ \<Rightarrow> None)"
| "hex4 _ = None"

text \<open>
  The escape after \<open>\u\<close>: a rune and the number of bytes it takes; a surrogate must be followed
  by the escape of its other half.
\<close>

definition unicode_escape :: "string \<Rightarrow> nat \<times> nat" where
  "unicode_escape s = (case hex4 s of None \<Rightarrow> (65533, 4) | Some x \<Rightarrow>
     if x < 55296 \<or> 57344 \<le> x then (x, 4)
     else (case (take 2 (drop 4 s) = [backslash, CHR ''u''], hex4 (drop 6 s)) of
         (True, Some y) \<Rightarrow>
           if x < 56320 \<and> 56320 \<le> y \<and> y < 57344
           then (65536 + (x - 55296) * 1024 + (y - 56320), 10) else (65533, 4)
       | _ \<Rightarrow> (65533, 4)))"

definition escape_char :: "char \<Rightarrow> char" where
  "escape_char c = (if c = CHR ''b'' then CHR 0x08 else if c = CHR ''f'' then CHR 0x0C
     else if c = CHR ''n'' then CHR 0x0A else if c = CHR ''r'' then CHR 0x0D
     else if c = CHR ''t'' then CHR 0x09 else c)"

definition ascii :: "char \<Rightarrow> bool" where
  "ascii c \<longleftrightarrow> (of_char c :: nat) < 128"

function unquote :: "string \<Rightarrow> string" where
  "unquote [] = []"
| "unquote (c # s) =
     (if c = backslash then
        (if s = [] then []
         else if hd s = CHR ''u''
         then (let (r, n) = unicode_escape (tl s) in encode_rune r @ unquote (drop n (tl s)))
         else escape_char (hd s) # unquote (tl s))
      else if ascii c then c # unquote s
      else (let w = rune_width c s
            in if w = 0 then replacement @ unquote s
               else c # take (w - 1) s @ unquote (drop (w - 1) s)))"
  by pat_completeness auto
termination
  by (relation "measure length") (auto simp: less_Suc_eq_le)

fun string_body :: "string \<Rightarrow> string \<times> string" where
  "string_body [] = ([], [])"
| "string_body (c # s) =
     (if c = quote then ([], s)
      else if c = backslash then
        (case s of [] \<Rightarrow> ([c], []) | d # r \<Rightarrow> let (b, rest) = string_body r in (c # d # b, rest))
      else let (b, rest) = string_body s in (c # b, rest))"

lemma string_body_length: "length (snd (string_body s)) \<le> length s"
proof (induction s rule: string_body.induct)
  case (2 c s)
  then show ?case by (cases s) (simp_all add: split_beta Let_def le_SucI)
qed simp

section \<open>Reading structs\<close>

datatype json_token = TString string | TWord string | TPunct char

definition word_char :: "char \<Rightarrow> bool" where
  "word_char c \<longleftrightarrow> hex_digit c \<or> 97 \<le> (of_char c :: nat) \<and> (of_char c :: nat) \<le> 122
     \<or> c \<in> {CHR ''+'', CHR ''-'', CHR ''.''}"

function json_lex :: "string \<Rightarrow> json_token list" where
  "json_lex [] = []"
| "json_lex (c # s) =
     (if json_space c then json_lex s
      else if c = quote
      then TString (unquote (fst (string_body s))) # json_lex (snd (string_body s))
      else if word_char c
      then TWord (c # takeWhile word_char s) # json_lex (dropWhile word_char s)
      else TPunct c # json_lex s)"
  by pat_completeness auto
termination
  by (relation "measure length")
    (auto simp: less_Suc_eq_le string_body_length length_dropWhile_le)

definition opens :: "json_token \<Rightarrow> bool" where
  "opens t \<longleftrightarrow> t = TPunct (CHR ''{'') \<or> t = TPunct (CHR ''['')"

definition closes :: "json_token \<Rightarrow> bool" where
  "closes t \<longleftrightarrow> t = TPunct (CHR ''}'') \<or> t = TPunct (CHR '']'')"

text \<open>
  The members of an object: its name and the first token of its value; \<open>depth\<close> counts the
  objects and arrays that are open inside a member's value.
\<close>

fun members :: "nat \<Rightarrow> json_token list \<Rightarrow> (string \<times> json_token) list" where
  "members 0 (TString k # colon # v # ts) = (k, v) # members (if opens v then 1 else 0) ts"
| "members 0 (t # ts) = members 0 ts"
| "members (Suc d) (t # ts) = members (if opens t then Suc (Suc d) else if closes t then d else Suc d) ts"
| "members d [] = []"

text \<open>
  What \<open>json.Unmarshal\<close> into a struct walks over: \<open>None\<close> where the text is not valid or not an
  object; \<open>null\<close> leaves the struct alone.
\<close>

definition struct_members :: "string \<Rightarrow> (string \<times> json_token) list option" where
  "struct_members s = (if \<not> json_Valid s then None
     else (case json_lex s of
         TPunct c # ts \<Rightarrow> if c = CHR ''{'' then Some (members 0 ts) else None
       | [TWord w] \<Rightarrow> if w = ''null'' then Some [] else None
       | _ \<Rightarrow> None))"

fun set_bool :: "bool \<Rightarrow> json_token \<Rightarrow> bool option" where
  "set_bool old (TWord w) = (if w = ''true'' then Some True else if w = ''false'' then Some False
     else if w = ''null'' then Some old else None)"
| "set_bool old _ = None"

fun set_string :: "string \<Rightarrow> json_token \<Rightarrow> string option" where
  "set_string old (TString s) = Some s"
| "set_string old (TWord w) = (if w = ''null'' then Some old else None)"
| "set_string old _ = None"

definition decimal_value :: "string \<Rightarrow> int" where
  "decimal_value s = foldl (\<lambda>n c. n * 10 + (of_char c - 48)) 0 s"

definition parse_int :: "string \<Rightarrow> int option" where
  "parse_int s = (let neg = (take 1 s = ''-''); ds = (if neg then drop 1 s else s);
       n = (if neg then - decimal_value ds else decimal_value ds)
     in if ds \<noteq> [] \<and> list_all digit ds \<and> is_int64 n then Some n else None)"

fun set_int :: "int \<Rightarrow> json_token \<Rightarrow> int option" where
  "set_int old (TWord w) = (if w = ''null'' then Some old else parse_int w)"
| "set_int old _ = None"

section \<open>Writing\<close>

definition html_safe :: "char \<Rightarrow> bool" where
  "html_safe c \<longleftrightarrow> 32 \<le> (of_char c :: nat) \<and> (of_char c :: nat) < 128
     \<and> c \<notin> {quote, backslash, CHR ''<'', CHR ''>'', CHR ''&''}"

definition hex_char :: "nat \<Rightarrow> char" where
  "hex_char n = (if n < 10 then char_of (48 + n) else char_of (87 + n))"

definition write_escape :: "char \<Rightarrow> string" where
  "write_escape c = (if c = quote \<or> c = backslash then [backslash, c]
     else if c = CHR 0x08 then backslash # ''b'' else if c = CHR 0x0C then backslash # ''f''
     else if c = CHR 0x0A then backslash # ''n'' else if c = CHR 0x0D then backslash # ''r''
     else if c = CHR 0x09 then backslash # ''t''
     else backslash # ''u00'' @ [hex_char (of_char c div 16), hex_char (of_char c mod 16)])"

function write_body :: "string \<Rightarrow> string" where
  "write_body [] = []"
| "write_body (c # s) =
     (if ascii c then (if html_safe c then [c] else write_escape c) @ write_body s
      else (let w = rune_width c s
            in if w = 0 then backslash # ''ufffd'' @ write_body s
               else (if c = CHR 0xE2 \<and> take 2 s = [CHR 0x80, CHR 0xA8] then backslash # ''u2028''
                     else if c = CHR 0xE2 \<and> take 2 s = [CHR 0x80, CHR 0xA9] then backslash # ''u2029''
                     else c # take (w - 1) s) @ write_body (drop (w - 1) s)))"
  by pat_completeness auto
termination
  by (relation "measure length") (auto simp: less_Suc_eq_le)

declare unquote.simps(2) [simp del] json_lex.simps(2) [simp del] write_body.simps(2) [simp del]
  string_body.simps(2) [simp del]

definition json_string :: "string \<Rightarrow> string" where
  "json_string s = quote # write_body s @ [quote]"

section \<open>Plain text\<close>

definition plain :: "string \<Rightarrow> bool" where
  "plain s \<longleftrightarrow> list_all html_safe s"

lemma html_safe_facts:
  assumes "html_safe c"
  shows "ascii c" "c \<noteq> quote" "c \<noteq> backslash" "\<not> (of_char c :: nat) < 32"
  using assms by (auto simp: html_safe_def ascii_def)

lemma write_body_plain [simp]: "plain s \<Longrightarrow> write_body s = s"
  by (induction s) (auto simp: plain_def write_body.simps(2) html_safe_facts)

lemma unquote_plain [simp]: "plain s \<Longrightarrow> unquote s = s"
  by (induction s) (auto simp: plain_def unquote.simps(2) html_safe_facts)

lemma string_body_plain [simp]: "plain s \<Longrightarrow> string_body (s @ quote # r) = (s, r)"
  by (induction s) (auto simp: plain_def string_body.simps(2) html_safe_facts)

lemma json_lex_string [simp]:
  assumes "plain s"
  shows "json_lex (json_string s @ r) = TString s # json_lex r"
  using assms by (simp add: json_string_def json_lex.simps(2) json_space_def)

definition punctuation :: "char \<Rightarrow> bool" where
  "punctuation c \<longleftrightarrow> \<not> json_space c \<and> c \<noteq> quote \<and> \<not> word_char c"

lemma punctuation_chars [simp]: "punctuation (CHR ''{'')" "punctuation (CHR ''}'')"
    "punctuation (CHR '':'')" "punctuation (CHR '','')"
  by code_simp+

lemma json_lex_punct [simp]: "punctuation c \<Longrightarrow> json_lex (c # s) = TPunct c # json_lex s"
  by (simp add: json_lex.simps(2) punctuation_def)

lemma json_lex_word [simp]:
  assumes "list_all word_char w" "w \<noteq> []" "\<not> word_char c"
  shows "json_lex (w @ c # s) = TWord w # json_lex (c # s)"
proof (cases w)
  case (Cons a v)
  with assms have "\<not> json_space a" "a \<noteq> quote"
    by (auto simp: word_char_def json_space_def hex_digit_def digit_def)
  with Cons assms show ?thesis
    by (simp add: json_lex.simps(2) takeWhile_append2 dropWhile_append2 list_all_iff)
qed (use assms in simp)

lemma scan_plain [simp]: "plain s \<Longrightarrow> foldl json_scan (InString, st) s = (InString, st)"
  by (induction s) (auto simp: plain_def html_safe_facts)

end
