(* ===== verification/Store_Crypto.thy ===== *)
theory Store_Crypto
  imports Go_Base64 Go_Json_Struct Store_Notify
begin

text \<open>
  The cryptographic part of \<open>encryption.go\<close>: key rings and their parsing, the associated data
  every ciphertext is bound to, and the encryption and decryption of blobs, messages and message
  metadata. AES-GCM itself is a parameter: a cipher suite gives for a key the \<open>cipher.AEAD\<close> the
  code calls, and \<open>aead_ok\<close>, \<open>aead_binds\<close> state what \<open>cipher.AEAD\<close> documents. The bytes that
  \<open>crypto/rand\<close> will yield are part of the state of the wrapper.
\<close>

section \<open>AEADs\<close>

record aead =
  NonceSize :: nat
  Seal :: "string \<Rightarrow> string \<Rightarrow> string \<Rightarrow> string" \<comment> \<open>nonce, plaintext, additional data\<close>
  Open :: "string \<Rightarrow> string \<Rightarrow> string \<Rightarrow> string option" \<comment> \<open>nonce, ciphertext, additional data\<close>

type_synonym cipher_suite = "string \<Rightarrow> aead"
type_synonym key_ring = "(string, aead) gomap"

definition aead_ok :: "aead \<Rightarrow> bool" where
  "aead_ok a \<longleftrightarrow> (\<forall>n p d. length n = NonceSize a \<longrightarrow> Open a n (Seal a n p d) d = Some p)"

definition aead_binds :: "aead \<Rightarrow> bool" where
  "aead_binds a \<longleftrightarrow> (\<forall>n p d d'. length n = NonceSize a \<longrightarrow> d \<noteq> d' \<longrightarrow> Open a n (Seal a n p d) d' = None)"

section \<open>The wrapper\<close>

record EncryptionKey =
  key_ID :: string
  key_Value :: string

record encryptedStore =
  enc_inner :: MemoryStore
  enc_active :: string
  enc_keys :: key_ring
  enc_rand :: string

type_synonym 'a eop = "encryptedStore \<Rightarrow> 'a sres \<times> encryptedStore"

definition ebind :: "'a eop \<Rightarrow> ('a \<Rightarrow> 'b eop) \<Rightarrow> 'b eop" where
  "ebind f g s = (case f s of
     (Ok a, s') \<Rightarrow> g a s' | (Err e, s') \<Rightarrow> (Err e, s') | (Panic, s') \<Rightarrow> (Panic, s'))"

definition eret :: "'a \<Rightarrow> 'a eop" where
  "eret a s = (Ok a, s)"

fun rbind :: "'a sres \<Rightarrow> ('a \<Rightarrow> 'b sres) \<Rightarrow> 'b sres" where
  "rbind (Ok a) g = g a"
| "rbind (Err e) g = Err e"
| "rbind Panic g = Panic"

section \<open>Keys\<close>

text \<open>\<open>strings.Split\<close> and \<open>strings.Cut\<close> at a one-byte separator.\<close>

fun strings_Split :: "char \<Rightarrow> string \<Rightarrow> string list" where
  "strings_Split sep [] = [[]]"
| "strings_Split sep (c # s) = (if c = sep then [] # strings_Split sep s
     else (case strings_Split sep s of p # ps \<Rightarrow> (c # p) # ps | [] \<Rightarrow> [[c]]))"

definition strings_Cut :: "char \<Rightarrow> string \<Rightarrow> string \<times> string \<times> bool" where
  "strings_Cut sep s = (let before = takeWhile (\<lambda>c. c \<noteq> sep) s
     in if length before < length s then (before, drop (length before + 1) s, True) else (s, [], False))"

text \<open>The first of the four encodings that accepts the text.\<close>

definition decodeBase64Key :: "string \<Rightarrow> string option" where
  "decodeBase64Key encoded =
     (case padded_decode std_alphabet encoded of Some v \<Rightarrow> Some v | None \<Rightarrow>
      case raw_decode std_alphabet encoded of Some v \<Rightarrow> Some v | None \<Rightarrow>
      case padded_decode url_alphabet encoded of Some v \<Rightarrow> Some v | None \<Rightarrow>
      raw_decode url_alphabet encoded)"

text \<open>\<open>aes.NewCipher\<close> accepts keys of three sizes.\<close>

definition aes_key :: "string \<Rightarrow> bool" where
  "aes_key k \<longleftrightarrow> length k \<in> {16, 24, 32}"

fun parse_key_parts ::
  "string set \<Rightarrow> EncryptionKey list \<Rightarrow> string list \<Rightarrow> store_err + EncryptionKey list" where
  "parse_key_parts seen keys [] = Inr keys"
| "parse_key_parts seen keys (part # rest) =
     (let part = TrimSpace part
      in if part = [] then parse_key_parts seen keys rest
         else let (i, encoded, ok) = strings_Cut (CHR '':'') part;
                  i = TrimSpace i; encoded = TrimSpace encoded
         in if \<not> ok \<or> i = [] \<or> encoded = []
            then Inl (ErrInvalid ''encryption keys must be key-id:base64-key'')
            else if i \<in> seen then Inl (ErrInvalid ''duplicate encryption key id'')
            else (case decodeBase64Key encoded of
                None \<Rightarrow> Inl (ErrInvalid ''decode encryption key'')
              | Some key \<Rightarrow>
                if \<not> aes_key key then Inl (ErrInvalid ''invalid encryption key'')
                else parse_key_parts (insert i seen) (keys @ [\<lparr>key_ID = i, key_Value = key\<rparr>]) rest))"

definition ParseEncryptionKeys :: "string \<Rightarrow> store_err + EncryptionKey list" where
  "ParseEncryptionKeys raw =
     (let raw = TrimSpace raw
      in if raw = [] then Inr [] else parse_key_parts {} [] (strings_Split (CHR '','') raw))"

fun ring_keys :: "cipher_suite \<Rightarrow> key_ring \<Rightarrow> EncryptionKey list \<Rightarrow> store_err + key_ring" where
  "ring_keys suite ring [] = Inr ring"
| "ring_keys suite ring (key # rest) =
     (let i = TrimSpace (key_ID key)
      in if i = [] then Inl (ErrInvalid ''encryption key id is required'')
         else if \<not> aes_key (key_Value key) then Inl (ErrInvalid ''invalid encryption key'')
         else if gget ring i \<noteq> None then Inl (ErrInvalid ''duplicate encryption key id'')
         else ring_keys suite (gput i (suite (key_Value key)) ring) rest)"

text \<open>
  \<open>NewEncryptedStore\<close>: \<open>Inr None\<close> stands for the inner store returned as it is.
\<close>

definition NewEncryptedStore :: "cipher_suite \<Rightarrow> string \<Rightarrow> MemoryStore \<Rightarrow> EncryptionKey list
    \<Rightarrow> store_err + encryptedStore option" where
  "NewEncryptedStore suite random inner keys =
     (case keys of [] \<Rightarrow> Inr None
      | first # _ \<Rightarrow>
        let active = TrimSpace (key_ID first)
        in if active = [] then Inl (ErrInvalid ''active encryption key id is required'')
           else (case ring_keys suite [] keys of
               Inl e \<Rightarrow> Inl e
             | Inr ring \<Rightarrow>
               if gget ring active = None then Inl (ErrInvalid ''active encryption key is not configured'')
               else Inr (Some \<lparr>enc_inner = inner, enc_active = active, enc_keys = ring,
                      enc_rand = random\<rparr>)))"

section \<open>Associated data\<close>

text \<open>\<open>strings.Join(parts, "\x00")\<close>.\<close>

fun join_nul :: "string list \<Rightarrow> string" where
  "join_nul [] = []"
| "join_nul [p] = p"
| "join_nul (p # ps) = p @ CHR 0x00 # join_nul ps"

definition messageAAD :: "Scope \<Rightarrow> Message \<Rightarrow> string" where
  "messageAAD scope msg = join_nul [OrgUUID scope, WorkspaceUUID scope, ProjectName scope,
     ProjectUID scope, msg_ID msg, msg_Role msg]"

definition messageMetadataAAD :: "Scope \<Rightarrow> Message \<Rightarrow> string" where
  "messageMetadataAAD scope msg = messageAAD scope msg @ CHR 0x00 # ''metadata''"

text \<open>Only the ID of the run that \<open>assistantRunAAD\<close> is given matters.\<close>

definition assistantRunAAD :: "Scope \<Rightarrow> string \<Rightarrow> string \<Rightarrow> string" where
  "assistantRunAAD scope runID label = join_nul [OrgUUID scope, WorkspaceUUID scope,
     ProjectName scope, ProjectUID scope, runID, label]"

definition attachmentAAD :: "Scope \<Rightarrow> Attachment \<Rightarrow> string" where
  "attachmentAAD scope attachment = join_nul [OrgUUID scope, WorkspaceUUID scope,
     ProjectName scope, ProjectUID scope, att_ID attachment, att_SHA256 attachment]"

definition format_int :: "int \<Rightarrow> string" where
  "format_int n = (if n < 0 then CHR ''-'' # itoa (nat (- n)) else itoa (nat n))"

definition assistantRunEventBlobLabel :: "AssistantRunEvent \<Rightarrow> string" where
  "assistantRunEventBlobLabel event =
     ''event:'' @ format_int (rev_Sequence event) @ CHR '':'' # rev_Type event"

definition thread_event_label :: "AssistantThreadEvent \<Rightarrow> string" where
  "thread_event_label event = ''thread-event:'' @ tev_Type event @ CHR '':'' # tev_ItemID event
     @ CHR '':'' # tev_RequestID event"

section \<open>Sealing and opening\<close>

text \<open>
  The lines every encryption of the file starts with: the active AEAD, a fresh nonce, \<open>Seal\<close>,
  and the nonce in front of the ciphertext. A missing active key is a nil interface.
\<close>

definition seal_active :: "string \<Rightarrow> string \<Rightarrow> string \<Rightarrow> string eop" where
  "seal_active what plaintext aad s =
     (case gget (enc_keys s) (enc_active s) of
        None \<Rightarrow> (Panic, s)
      | Some a \<Rightarrow>
        if length (enc_rand s) < NonceSize a
        then (Err (ErrInvalid (''generate '' @ what @ '' nonce'')), s)
        else let nonce = take (NonceSize a) (enc_rand s)
             in (Ok (nonce @ Seal a nonce plaintext aad),
                 s\<lparr>enc_rand := drop (NonceSize a) (enc_rand s)\<rparr>))"

text \<open>
  And the lines every decryption ends with; \<open>payload\<close> is \<open>None\<close> where its base64 is malformed.
\<close>

definition open_payload ::
  "key_ring \<Rightarrow> string \<Rightarrow> string \<Rightarrow> string option \<Rightarrow> string \<Rightarrow> string sres" where
  "open_payload keys what keyID payload aad =
     (case gget keys keyID of
        None \<Rightarrow> Err (ErrInvalid (what @ '' uses unknown encryption key''))
      | Some a \<Rightarrow>
        (case payload of
           None \<Rightarrow> Err (ErrInvalid (''decode encrypted '' @ what))
         | Some payload \<Rightarrow>
           if length payload < NonceSize a then Err (ErrInvalid (''encrypted '' @ what @ '' is too short''))
           else (case Open a (take (NonceSize a) payload) (drop (NonceSize a) payload) aad of
               None \<Rightarrow> Err (ErrInvalid (''decrypt '' @ what)) | Some plaintext \<Rightarrow> Ok plaintext)))"

section \<open>Blobs\<close>

record encryptedAssistantRunCheckpoint =
  env_Encrypted :: bool
  env_KeyID :: string
  env_Payload :: string

fun read_envelope :: "encryptedAssistantRunCheckpoint \<Rightarrow> (string \<times> json_token) list
    \<Rightarrow> encryptedAssistantRunCheckpoint option" where
  "read_envelope e [] = Some e"
| "read_envelope e ((k, v) # ms) =
     (if EqualFold k ''encrypted''
      then (case set_bool (env_Encrypted e) v of None \<Rightarrow> None
        | Some b \<Rightarrow> read_envelope (e\<lparr>env_Encrypted := b\<rparr>) ms)
      else if EqualFold k ''keyID''
      then (case set_string (env_KeyID e) v of None \<Rightarrow> None
        | Some t \<Rightarrow> read_envelope (e\<lparr>env_KeyID := t\<rparr>) ms)
      else if EqualFold k ''payload''
      then (case set_string (env_Payload e) v of None \<Rightarrow> None
        | Some t \<Rightarrow> read_envelope (e\<lparr>env_Payload := t\<rparr>) ms)
      else read_envelope e ms)"

definition unmarshal_envelope :: "string \<Rightarrow> encryptedAssistantRunCheckpoint option" where
  "unmarshal_envelope s = (case struct_members s of None \<Rightarrow> None
     | Some ms \<Rightarrow> read_envelope \<lparr>env_Encrypted = False, env_KeyID = [], env_Payload = []\<rparr> ms)"

definition marshal_envelope :: "encryptedAssistantRunCheckpoint \<Rightarrow> string" where
  "marshal_envelope e = ''{'' @ json_string ''encrypted'' @ '':''
     @ (if env_Encrypted e then ''true'' else ''false'') @ '','' @ json_string ''keyID'' @ '':''
     @ json_string (env_KeyID e) @ '','' @ json_string ''payload'' @ '':''
     @ json_string (env_Payload e) @ ''}''"

definition is_sealed :: "string \<Rightarrow> bool" where
  "is_sealed blob = (case unmarshal_envelope blob of None \<Rightarrow> False
     | Some e \<Rightarrow> env_Encrypted e \<and> env_KeyID e \<noteq> [] \<and> env_Payload e \<noteq> [])"

definition encryptAssistantRunBlob :: "Scope \<Rightarrow> string \<Rightarrow> string \<Rightarrow> string \<Rightarrow> string eop" where
  "encryptAssistantRunBlob scope runID label plaintext s =
     (if plaintext = [] then (Ok [], s)
      else if is_sealed plaintext then (Ok plaintext, s)
      else ebind (seal_active ''assistant checkpoint'' plaintext (assistantRunAAD scope runID label))
        (\<lambda>payload s. eret (marshal_envelope \<lparr>env_Encrypted = True, env_KeyID = enc_active s,
           env_Payload = raw_encode std_alphabet payload\<rparr>) s) s)"

definition decryptAssistantRunBlob ::
  "key_ring \<Rightarrow> Scope \<Rightarrow> string \<Rightarrow> string \<Rightarrow> string \<Rightarrow> string sres" where
  "decryptAssistantRunBlob keys scope runID label value =
     (if value = [] then Ok []
      else (case unmarshal_envelope value of
          None \<Rightarrow> Ok value
        | Some e \<Rightarrow>
          if \<not> env_Encrypted e then Ok value
          else open_payload keys ''assistant checkpoint'' (env_KeyID e)
                 (raw_decode std_alphabet (env_Payload e)) (assistantRunAAD scope runID label)))"

definition decryptAssistantRunBlobs ::
  "key_ring \<Rightarrow> Scope \<Rightarrow> AssistantRun \<Rightarrow> AssistantRun sres" where
  "decryptAssistantRunBlobs keys scope run =
     rbind (decryptAssistantRunBlob keys scope (run_ID run) ''checkpoint'' (run_Checkpoint run))
       (\<lambda>checkpoint. rbind (decryptAssistantRunBlob keys scope (run_ID run) ''audit'' (run_Audit run))
       (\<lambda>audit. rbind (decryptAssistantRunBlob keys scope (run_ID run) ''error'' (run_Error run))
       (\<lambda>terminalError. Ok (run\<lparr>run_Checkpoint := checkpoint, run_Audit := audit,
          run_Error := terminalError\<rparr>))))"

definition encryptAssistantRunBlobs :: "Scope \<Rightarrow> AssistantRun \<Rightarrow> AssistantRun eop" where
  "encryptAssistantRunBlobs scope run =
     ebind (encryptAssistantRunBlob scope (run_ID run) ''checkpoint'' (run_Checkpoint run))
       (\<lambda>checkpoint. ebind (encryptAssistantRunBlob scope (run_ID run) ''audit'' (run_Audit run))
       (\<lambda>audit. ebind (encryptAssistantRunBlob scope (run_ID run) ''error'' (run_Error run))
       (\<lambda>terminalError. eret (run\<lparr>run_Checkpoint := checkpoint, run_Audit := audit,
          run_Error := terminalError\<rparr>))))"

definition decryptAssistantRunEvent ::
  "key_ring \<Rightarrow> Scope \<Rightarrow> AssistantRunEvent \<Rightarrow> AssistantRunEvent sres" where
  "decryptAssistantRunEvent keys scope event =
     rbind (decryptAssistantRunBlob keys scope (rev_RunID event) (assistantRunEventBlobLabel event)
         (rev_Payload event))
       (\<lambda>payload. Ok (event\<lparr>rev_Payload := payload\<rparr>))"

section \<open>Threads, turns and thread events\<close>

definition encryptAssistantThread :: "Scope \<Rightarrow> AssistantThread \<Rightarrow> AssistantThread eop" where
  "encryptAssistantThread scope thread =
     (if thread_Title thread = [] then eret thread
      else ebind (encryptAssistantRunBlob scope (TrimSpace (thread_ID thread)) ''thread-title''
             (thread_Title thread))
        (\<lambda>payload. eret (thread\<lparr>thread_Title := payload\<rparr>)))"

definition decryptAssistantThread ::
  "key_ring \<Rightarrow> Scope \<Rightarrow> AssistantThread \<Rightarrow> AssistantThread sres" where
  "decryptAssistantThread keys scope thread =
     (if thread_Title thread = [] then Ok thread
      else (case unmarshal_envelope (thread_Title thread) of
          None \<Rightarrow> Ok thread
        | Some e \<Rightarrow>
          if \<not> env_Encrypted e then Ok thread
          else rbind (decryptAssistantRunBlob keys scope (TrimSpace (thread_ID thread)) ''thread-title''
                 (thread_Title thread))
            (\<lambda>payload. Ok (thread\<lparr>thread_Title := payload\<rparr>))))"

definition turn_run_ID :: "string \<Rightarrow> string \<Rightarrow> string" where
  "turn_run_ID threadID turnID = threadID @ CHR ''/'' # turnID"

definition encryptAssistantTurn :: "Scope \<Rightarrow> AssistantTurn \<Rightarrow> AssistantTurn eop" where
  "encryptAssistantTurn scope turn =
     (let run = turn_run_ID (turn_ThreadID turn) (turn_ID turn)
      in ebind (encryptAssistantRunBlob scope run ''turn-checkpoint'' (turn_Checkpoint turn))
           (\<lambda>checkpoint. ebind (encryptAssistantRunBlob scope run ''turn-error'' (turn_Error turn))
           (\<lambda>turnError. eret (turn\<lparr>turn_Checkpoint := checkpoint, turn_Error := turnError\<rparr>))))"

definition decryptAssistantTurn :: "key_ring \<Rightarrow> Scope \<Rightarrow> AssistantTurn \<Rightarrow> AssistantTurn sres" where
  "decryptAssistantTurn keys scope turn =
     (let run = turn_run_ID (turn_ThreadID turn) (turn_ID turn)
      in rbind (decryptAssistantRunBlob keys scope run ''turn-checkpoint'' (turn_Checkpoint turn))
           (\<lambda>checkpoint. rbind (decryptAssistantRunBlob keys scope run ''turn-error'' (turn_Error turn))
           (\<lambda>turnError. Ok (turn\<lparr>turn_Checkpoint := checkpoint, turn_Error := turnError\<rparr>))))"

definition encryptAssistantThreadEvent ::
  "Scope \<Rightarrow> AssistantThreadEvent \<Rightarrow> AssistantThreadEvent eop" where
  "encryptAssistantThreadEvent scope event =
     ebind (encryptAssistantRunBlob scope (turn_run_ID (tev_ThreadID event) (tev_TurnID event))
         (thread_event_label event) (tev_Payload event))
       (\<lambda>payload. eret (event\<lparr>tev_Payload := payload\<rparr>))"

definition decryptAssistantThreadEvent ::
  "key_ring \<Rightarrow> Scope \<Rightarrow> AssistantThreadEvent \<Rightarrow> AssistantThreadEvent sres" where
  "decryptAssistantThreadEvent keys scope event =
     rbind (decryptAssistantRunBlob keys scope (turn_run_ID (tev_ThreadID event) (tev_TurnID event))
         (thread_event_label event) (tev_Payload event))
       (\<lambda>payload. Ok (event\<lparr>tev_Payload := payload\<rparr>))"

section \<open>Messages\<close>

text \<open>
  The text of a metadata map is the work of \<open>encoding/json\<close> on values of any shape: a pair of
  functions that are parameters, with their round trip on the metadata at hand.
\<close>

record metadata_codec =
  marshal_map :: "(string, any_value) gomap \<Rightarrow> string"
  unmarshal_map :: "string \<Rightarrow> (string, any_value) gomap option"

definition metadata_codec_ok :: "metadata_codec \<Rightarrow> (string, any_value) gomap \<Rightarrow> bool" where
  "metadata_codec_ok mc metadata \<longleftrightarrow> unmarshal_map mc (marshal_map mc metadata) = Some metadata"

record encryptedMessageMetadata =
  meta_Version :: int
  meta_KeyID :: string
  meta_Payload :: string

fun read_metadata_envelope :: "encryptedMessageMetadata \<Rightarrow> (string \<times> json_token) list
    \<Rightarrow> encryptedMessageMetadata option" where
  "read_metadata_envelope e [] = Some e"
| "read_metadata_envelope e ((k, v) # ms) =
     (if EqualFold k ''version''
      then (case set_int (meta_Version e) v of None \<Rightarrow> None
        | Some n \<Rightarrow> read_metadata_envelope (e\<lparr>meta_Version := n\<rparr>) ms)
      else if EqualFold k ''keyID''
      then (case set_string (meta_KeyID e) v of None \<Rightarrow> None
        | Some t \<Rightarrow> read_metadata_envelope (e\<lparr>meta_KeyID := t\<rparr>) ms)
      else if EqualFold k ''payload''
      then (case set_string (meta_Payload e) v of None \<Rightarrow> None
        | Some t \<Rightarrow> read_metadata_envelope (e\<lparr>meta_Payload := t\<rparr>) ms)
      else read_metadata_envelope e ms)"

definition encryptedMessageMetadataKey :: string where
  "encryptedMessageMetadataKey = ''__appStudioEncryptedMetadata''"

text \<open>A string value marshals to a JSON string, which is no struct.\<close>

definition parseEncryptedMessageMetadata ::
  "(string, any_value) gomap \<Rightarrow> encryptedMessageMetadata option" where
  "parseEncryptedMessageMetadata metadata =
     (if length (gentries metadata) \<noteq> 1 then None
      else (case gget metadata encryptedMessageMetadataKey of
          Some (AnyOther text) \<Rightarrow>
            (case struct_members text of
               None \<Rightarrow> None
             | Some ms \<Rightarrow>
               (case read_metadata_envelope \<lparr>meta_Version = 0, meta_KeyID = [], meta_Payload = []\<rparr> ms of
                  None \<Rightarrow> None
                | Some e \<Rightarrow> if meta_Version e \<noteq> 1 \<or> meta_KeyID e = [] \<or> meta_Payload e = []
                    then None else Some e))
        | _ \<Rightarrow> None))"

definition marshal_metadata_envelope :: "encryptedMessageMetadata \<Rightarrow> string" where
  "marshal_metadata_envelope e = ''{'' @ json_string ''version'' @ '':'' @ format_int (meta_Version e)
     @ '','' @ json_string ''keyID'' @ '':'' @ json_string (meta_KeyID e)
     @ '','' @ json_string ''payload'' @ '':'' @ json_string (meta_Payload e) @ ''}''"

definition encryptMessageMetadata :: "metadata_codec \<Rightarrow> Scope \<Rightarrow> Message \<Rightarrow> Message eop" where
  "encryptMessageMetadata mc scope msg s =
     (if msg_Metadata msg = [] then (Ok msg, s)
      else if parseEncryptedMessageMetadata (msg_Metadata msg) \<noteq> None then (Ok msg, s)
      else ebind (seal_active ''message metadata'' (marshal_map mc (msg_Metadata msg))
             (messageMetadataAAD scope msg))
        (\<lambda>payload s. eret (msg\<lparr>msg_Metadata := [(encryptedMessageMetadataKey,
           AnyOther (marshal_metadata_envelope \<lparr>meta_Version = 1, meta_KeyID = enc_active s,
             meta_Payload = raw_encode std_alphabet payload\<rparr>))]\<rparr>) s) s)"

definition encryptMessage :: "metadata_codec \<Rightarrow> Scope \<Rightarrow> Message \<Rightarrow> Message eop" where
  "encryptMessage mc scope msg =
     ebind (if msg_Content msg \<noteq> [] \<and> \<not> msg_ContentEncrypted msg
            then ebind (seal_active ''message'' (msg_Content msg) (messageAAD scope msg))
              (\<lambda>payload s. eret (msg\<lparr>msg_Content := raw_encode std_alphabet payload,
                 msg_ContentEncrypted := True, msg_ContentKeyID := enc_active s\<rparr>) s)
            else eret msg)
       (encryptMessageMetadata mc scope)"

definition decryptMessageMetadata ::
  "metadata_codec \<Rightarrow> key_ring \<Rightarrow> Scope \<Rightarrow> Message \<Rightarrow> Message sres" where
  "decryptMessageMetadata mc keys scope msg =
     (if msg_Metadata msg = [] then Ok msg
      else if gget (msg_Metadata msg) encryptedMessageMetadataKey = None then Ok msg
      else if length (gentries (msg_Metadata msg)) \<noteq> 1
      then Err (ErrInvalid ''metadata envelope contains plaintext fields'')
      else (case parseEncryptedMessageMetadata (msg_Metadata msg) of
          None \<Rightarrow> Err (ErrInvalid ''metadata envelope is invalid'')
        | Some e \<Rightarrow>
          rbind (open_payload keys ''message metadata'' (meta_KeyID e)
              (raw_decode std_alphabet (meta_Payload e)) (messageMetadataAAD scope msg))
            (\<lambda>plaintext. case unmarshal_map mc plaintext of
                None \<Rightarrow> Err (ErrInvalid ''decode message metadata'')
              | Some metadata \<Rightarrow> Ok (msg\<lparr>msg_Metadata := metadata\<rparr>))))"

definition decryptMessage ::
  "metadata_codec \<Rightarrow> key_ring \<Rightarrow> Scope \<Rightarrow> Message \<Rightarrow> Message sres" where
  "decryptMessage mc keys scope msg =
     rbind (if msg_ContentEncrypted msg
            then rbind (open_payload keys ''message'' (msg_ContentKeyID msg)
                   (raw_decode std_alphabet (msg_Content msg)) (messageAAD scope msg))
              (\<lambda>plaintext. Ok (msg\<lparr>msg_Content := plaintext, msg_ContentEncrypted := False\<rparr>))
            else Ok msg)
       (decryptMessageMetadata mc keys scope)"

end
