(* ===== verification/Crypto_Roundtrip.thy ===== *)
theory Crypto_Roundtrip
  imports Store_Crypto
begin

text \<open>
  What the encryption functions of \<open>encryption.go\<close> give back: a sealed envelope is valid JSON
  that parses to itself, a blob, a message or a thread that was encrypted decrypts to what it
  was, and a blob that is moved to another place is refused.
\<close>

section \<open>Envelopes\<close>

lemma html_safe_code:
  "32 \<le> (of_char c :: nat) \<Longrightarrow> (of_char c :: nat) < 128 \<Longrightarrow>
    (of_char c :: nat) \<notin> {34, 92, 60, 62, 38} \<Longrightarrow> html_safe c"
  by (auto simp: html_safe_def)

lemma encode_char_safe:
  assumes "n < 64"
  shows "html_safe (encode_char std_alphabet n)"
proof -
  consider "n < 26" | "26 \<le> n" "n < 52" | "52 \<le> n" "n < 62" | "n = 62" | "n = 63"
    using assms by linarith
  then show ?thesis
  proof cases
    case 1 then show ?thesis by (intro html_safe_code) (simp_all add: encode_char_def)
  next
    case 2 then show ?thesis by (intro html_safe_code) (simp_all add: encode_char_def)
  next
    case 3
    then have e: "encode_char std_alphabet n = char_of (n - 4)" by (simp add: encode_char_def)
    have "of_char (char_of (n - 4) :: char) = n - 4" using 3 by simp
    moreover have "48 \<le> n - 4" "n - 4 \<le> 57" using 3 by linarith+
    ultimately show ?thesis unfolding e by (intro html_safe_code) simp_all
  next
    case 4
    show ?thesis unfolding 4 by code_simp
  next
    case 5
    show ?thesis unfolding 5 by code_simp
  qed
qed

lemma raw_encode_plain [simp]: "plain (raw_encode std_alphabet s)"
  using sextets_bound [OF bytes_bound, of s] encode_char_safe
  by (simp add: plain_def raw_encode_def list_all_iff)

lemma field_names [simp]:
  "plain ''encrypted''" "plain ''keyID''" "plain ''payload''" "plain ''version''"
  by code_simp+

lemma json_words [simp]: "word_char (CHR ''t'')" "word_char (CHR ''r'')" "word_char (CHR ''u'')"
    "word_char (CHR ''e'')" "word_char (CHR ''f'')" "word_char (CHR ''a'')" "word_char (CHR ''l'')"
    "word_char (CHR ''s'')" "word_char (CHR ''1'')" "\<not> word_char (CHR '','')"
  by code_simp+

lemma field_folds [simp]:
  "EqualFold ''encrypted'' ''encrypted''" "EqualFold ''keyID'' ''keyID''" "EqualFold ''payload'' ''payload''"
  "EqualFold ''version'' ''version''"
  "\<not> EqualFold ''keyID'' ''encrypted''" "\<not> EqualFold ''payload'' ''encrypted''"
  "\<not> EqualFold ''payload'' ''keyID''" "\<not> EqualFold ''keyID'' ''version''" "\<not> EqualFold ''payload'' ''version''"
  by code_simp+

text \<open>The scanner on the parts of an object that is written without spaces.\<close>

lemma scan_string_value:
  "plain v \<Longrightarrow> foldl json_scan (BeginValue, st) (json_string v) = (EndValue, st)"
  by (simp add: json_string_def scan_begin_value_def json_space_def Go_Json.digit_def)

lemma scan_string_key:
  "plain k \<Longrightarrow> foldl json_scan (BeginString, st) (json_string k) = (EndValue, st)"
  "plain k \<Longrightarrow> foldl json_scan (BeginStringOrEmpty, st) (json_string k) = (EndValue, st)"
  by (simp_all add: json_string_def scan_begin_string_def json_space_def)

lemma scan_colon: "json_scan (EndValue, ParseObjectKey # st) (CHR '':'') = (BeginValue, ParseObjectValue # st)"
  by (simp add: scan_end_value_def json_space_def)

lemma scan_comma: "json_scan (EndValue, ParseObjectValue # st) (CHR '','') = (BeginString, ParseObjectKey # st)"
  by (simp add: scan_end_value_def json_space_def)

lemma scan_open: "json_scan (BeginValue, []) (CHR ''{'') = (BeginStringOrEmpty, [ParseObjectKey])"
  by code_simp

lemma scan_close: "json_scan (EndValue, [ParseObjectValue]) (CHR ''}'') = (EndTop, [])"
  by code_simp

lemma scan_literals:
  "json_scan (BeginValue, st) (CHR ''t'') = (Lit ''rue'', st)"
  "json_scan (BeginValue, st) (CHR ''f'') = (Lit ''alse'', st)"
  "json_scan (BeginValue, st) (CHR ''1'') = (Num1, st)"
  "json_scan (Lit (c # w), st) c = (if w = [] then (EndValue, st) else (Lit w, st))"
  "json_scan (Num1, ParseObjectValue # st) (CHR '','') = (BeginString, ParseObjectKey # st)"
  by (simp_all add: scan_begin_value_def json_space_def Go_Json.digit_def scan_num0_def scan_end_value_def)

declare json_scan.simps [simp del]

lemmas scan_object = scan_string_value scan_string_key scan_colon scan_comma scan_open scan_close scan_literals

lemma marshal_envelope_valid:
  assumes "plain (env_KeyID e)" "plain (env_Payload e)"
  shows "json_Valid (marshal_envelope e)"
  using assms by (simp add: json_Valid_def marshal_envelope_def scan_object Let_def)

lemma unmarshal_marshal_envelope:
  assumes "plain (env_KeyID e)" "plain (env_Payload e)"
  shows "unmarshal_envelope (marshal_envelope e) = Some e"
proof -
  have w: "json_lex ((if b then ''true'' else ''false'') @ CHR '','' # s)
      = TWord (if b then ''true'' else ''false'') # json_lex (CHR '','' # s)" for b s
    by (subst json_lex_word) simp_all
  have "json_lex (marshal_envelope e) = [TPunct (CHR ''{''), TString ''encrypted'', TPunct (CHR '':''),
      TWord (if env_Encrypted e then ''true'' else ''false''), TPunct (CHR '',''), TString ''keyID'',
      TPunct (CHR '':''), TString (env_KeyID e), TPunct (CHR '',''), TString ''payload'',
      TPunct (CHR '':''), TString (env_Payload e), TPunct (CHR ''}'')]"
    using assms by (simp add: marshal_envelope_def w)
  then show ?thesis
    using marshal_envelope_valid [OF assms]
    by (simp add: unmarshal_envelope_def struct_members_def opens_def)
qed

lemma marshal_metadata_valid:
  assumes "plain (meta_KeyID e)" "plain (meta_Payload e)" "meta_Version e = 1"
  shows "json_Valid (marshal_metadata_envelope e)"
proof -
  have "format_int 1 = ''1''" by code_simp
  with assms show ?thesis
    by (simp add: json_Valid_def marshal_metadata_envelope_def scan_object Let_def)
qed

lemma metadata_members:
  assumes "plain (meta_KeyID e)" "plain (meta_Payload e)" "meta_Version e = 1"
  shows "struct_members (marshal_metadata_envelope e) = Some [(''version'', TWord ''1''),
    (''keyID'', TString (meta_KeyID e)), (''payload'', TString (meta_Payload e))]"
proof -
  have one: "format_int 1 = ''1''" by code_simp
  have w: "json_lex (CHR ''1'' # CHR '','' # s) = TWord ''1'' # json_lex (CHR '','' # s)" for s
    using json_lex_word [of "''1''" "CHR '',''" s] by simp
  have "json_lex (marshal_metadata_envelope e) = [TPunct (CHR ''{''), TString ''version'',
      TPunct (CHR '':''), TWord ''1'', TPunct (CHR '',''), TString ''keyID'',
      TPunct (CHR '':''), TString (meta_KeyID e), TPunct (CHR '',''), TString ''payload'',
      TPunct (CHR '':''), TString (meta_Payload e), TPunct (CHR ''}'')]"
    using assms by (simp add: marshal_metadata_envelope_def one w)
  then show ?thesis
    using marshal_metadata_valid [OF assms] by (simp add: struct_members_def opens_def)
qed

section \<open>Sealing and opening\<close>

definition ring_ok :: "encryptedStore \<Rightarrow> bool" where
  "ring_ok s \<longleftrightarrow> gget (enc_keys s) (enc_active s) \<noteq> None \<and> enc_active s \<noteq> [] \<and> plain (enc_active s)
     \<and> (\<forall>k a. gget (enc_keys s) k = Some a \<longrightarrow> aead_ok a \<and> 0 < NonceSize a)"

text \<open>The only part of the wrapper an encryption changes is the randomness it used up.\<close>

definition used_random :: "encryptedStore \<Rightarrow> encryptedStore \<Rightarrow> bool" where
  "used_random s s' \<longleftrightarrow> s' = s\<lparr>enc_rand := enc_rand s'\<rparr>"

lemma used_random_fields [dest?]:
  assumes "used_random s s'"
  shows "enc_inner s' = enc_inner s" "enc_keys s' = enc_keys s" "enc_active s' = enc_active s"
    "ring_ok s' = ring_ok s"
proof -
  from assms have eq: "s' = s\<lparr>enc_rand := enc_rand s'\<rparr>" by (simp add: used_random_def)
  show "enc_inner s' = enc_inner s" "enc_keys s' = enc_keys s" "enc_active s' = enc_active s"
    by (subst eq; simp)+
  then show "ring_ok s' = ring_ok s" by (simp add: ring_ok_def)
qed

lemma used_random_refl [simp]: "used_random s s"
  by (simp add: used_random_def)

lemma used_random_trans: "used_random s t \<Longrightarrow> used_random t u \<Longrightarrow> used_random s u"
  unfolding used_random_def by (metis encryptedStore.update_convs(4) encryptedStore.surjective
      encryptedStore.select_convs(1-3))

lemma seal_active_cases:
  assumes op: "seal_active what p aad s = (r, s')" and ok: "ring_ok s"
  obtains (no_random) e where "r = Err e" "s' = s"
  | (sealed) c where "r = Ok c" "used_random s s'" "c \<noteq> []"
      "\<And>what. open_payload (enc_keys s) what (enc_active s) (Some c) aad = Ok p"
proof -
  from ok obtain a where a: "gget (enc_keys s) (enc_active s) = Some a" "aead_ok a" "0 < NonceSize a"
    unfolding ring_ok_def by fastforce
  show thesis
  proof (cases "length (enc_rand s) < NonceSize a")
    case True
    with op a show thesis by (intro no_random) (auto simp: seal_active_def)
  next
    case False
    let ?n = "take (NonceSize a) (enc_rand s)"
    have len: "length ?n = NonceSize a" using False by simp
    with a(2) have "Open a ?n (Seal a ?n p aad) aad = Some p" by (simp add: aead_ok_def)
    moreover have "r = Ok (?n @ Seal a ?n p aad)" "used_random s s'"
      using op a(1) False by (auto simp: seal_active_def Let_def used_random_def)
    ultimately show thesis
      using a(1,3) len by (intro sealed) (auto simp: open_payload_def)
  qed
qed

section \<open>Blobs\<close>

text \<open>
  An encrypted blob: either it was empty or already sealed and is left alone, or it decrypts,
  at the place it was encrypted for, to what it was.
\<close>

lemma encryptAssistantRunBlob_cases:
  assumes op: "encryptAssistantRunBlob scope i label p s = (r, s')" and ok: "ring_ok s"
  obtains (no_random) e where "r = Err e" "s' = s"
  | (kept) "r = Ok p" "s' = s" "p = [] \<or> is_sealed p"
  | (sealed) c where "r = Ok c" "used_random s s'" "p \<noteq> []" "json_Valid c" "is_sealed c" "c \<noteq> []"
      "decryptAssistantRunBlob (enc_keys s) scope i label c = Ok p"
proof (cases "p = [] \<or> is_sealed p")
  case True
  with op show thesis by (intro kept) (auto simp: encryptAssistantRunBlob_def split: if_splits)
next
  case False
  let ?aad = "assistantRunAAD scope i label"
  obtain q t where sa: "seal_active ''assistant checkpoint'' p ?aad s = (q, t)" by fastforce
  then show thesis using ok
  proof (cases rule: seal_active_cases)
    case no_random
    with False op sa that(1) show thesis by (auto simp: encryptAssistantRunBlob_def ebind_def)
  next
    case (sealed c)
    note active = used_random_fields(3) [OF sealed(2)]
    define e where "e = \<lparr>env_Encrypted = True, env_KeyID = enc_active s,
      env_Payload = raw_encode std_alphabet c\<rparr>"
    from ok have plain: "plain (env_KeyID e)" "plain (env_Payload e)" "enc_active s \<noteq> []"
      by (simp_all add: e_def ring_ok_def)
    have um: "unmarshal_envelope (marshal_envelope e) = Some e"
      by (rule unmarshal_marshal_envelope [OF plain(1,2)])
    have ne: "marshal_envelope e \<noteq> []" by (simp add: marshal_envelope_def)
    show thesis
    proof (rule that(3))
      show "r = Ok (marshal_envelope e)" "used_random s s'"
        using False op sa sealed(1,2) active
        by (auto simp: encryptAssistantRunBlob_def ebind_def eret_def e_def)
      show "decryptAssistantRunBlob (enc_keys s) scope i label (marshal_envelope e) = Ok p"
        using um ne sealed(4) raw_decode_encode [OF alphabets_ok(1), of c]
        by (simp add: decryptAssistantRunBlob_def) (simp add: e_def)
      show "is_sealed (marshal_envelope e)"
        using um plain(3) sealed(3) by (simp add: is_sealed_def e_def)
    qed (use False marshal_envelope_valid [OF plain(1,2)] ne in auto)
  qed
qed

lemma blob_round_trip:
  assumes "encryptAssistantRunBlob scope i label p s = (Ok c, s')" "ring_ok s" "\<not> is_sealed p"
  shows "decryptAssistantRunBlob (enc_keys s') scope i label c = Ok p"
    and "p \<noteq> [] \<longrightarrow> is_sealed c \<and> json_Valid c \<and> c \<noteq> []" "p = [] \<longrightarrow> c = []" "used_random s s'"
  using assms(1,2)
  by (cases rule: encryptAssistantRunBlob_cases;
      use assms(3) in \<open>auto simp: decryptAssistantRunBlob_def used_random_fields\<close>)+

section \<open>Messages\<close>

text \<open>A message as a caller hands it in: nothing of it is encrypted yet.\<close>

definition clear_message :: "metadata_codec \<Rightarrow> Message \<Rightarrow> bool" where
  "clear_message mc m \<longleftrightarrow> \<not> msg_ContentEncrypted m
     \<and> gget (msg_Metadata m) encryptedMessageMetadataKey = None
     \<and> (msg_Metadata m \<noteq> [] \<longrightarrow> metadata_codec_ok mc (msg_Metadata m))"

text \<open>
  What the wrapper does to a message: it may seal content and metadata, and nothing else.
  \<open>ContentKeyID\<close> stays set after decryption.
\<close>

definition sealed_of :: "Message \<Rightarrow> Message \<Rightarrow> bool" where
  "sealed_of m c \<longleftrightarrow> c = m\<lparr>msg_Content := msg_Content c, msg_ContentEncrypted := msg_ContentEncrypted c,
     msg_ContentKeyID := msg_ContentKeyID c, msg_Metadata := msg_Metadata c\<rparr>"

lemma sealed_of_refl [simp]: "sealed_of m m"
  by (simp add: sealed_of_def)

lemma sealed_of_fields:
  assumes "sealed_of m c"
  shows "msg_ID c = msg_ID m" "msg_Role c = msg_Role m" "msg_ActorID c = msg_ActorID m"
    "msg_CreatedAt c = msg_CreatedAt m" "msg_UpdatedAt c = msg_UpdatedAt m"
    "messageAAD scope c = messageAAD scope m" "messageMetadataAAD scope c = messageMetadataAAD scope m"
proof -
  from assms have eq: "c = m\<lparr>msg_Content := msg_Content c, msg_ContentEncrypted := msg_ContentEncrypted c,
     msg_ContentKeyID := msg_ContentKeyID c, msg_Metadata := msg_Metadata c\<rparr>" by (simp add: sealed_of_def)
  show "msg_ID c = msg_ID m" "msg_Role c = msg_Role m" "msg_ActorID c = msg_ActorID m"
    "msg_CreatedAt c = msg_CreatedAt m" "msg_UpdatedAt c = msg_UpdatedAt m"
    "messageAAD scope c = messageAAD scope m" "messageMetadataAAD scope c = messageMetadataAAD scope m"
    by (subst eq; simp add: messageAAD_def messageMetadataAAD_def)+
qed

lemma parse_metadata_envelope:
  assumes "plain (meta_KeyID e)" "plain (meta_Payload e)" "meta_Version e = 1"
    "meta_KeyID e \<noteq> []" "meta_Payload e \<noteq> []"
  shows "parseEncryptedMessageMetadata
    [(encryptedMessageMetadataKey, AnyOther (marshal_metadata_envelope e))] = Some e"
proof -
  have "set_int 0 (TWord ''1'') = Some 1" by code_simp
  with assms show ?thesis
    by (simp add: parseEncryptedMessageMetadata_def gentries_def gget_def metadata_members)
qed

lemma encryptMessageMetadata_cases:
  assumes op: "encryptMessageMetadata mc scope m s = (r, s')" and ok: "ring_ok s"
    and clear: "gget (msg_Metadata m) encryptedMessageMetadataKey = None"
      "msg_Metadata m \<noteq> [] \<longrightarrow> metadata_codec_ok mc (msg_Metadata m)"
  obtains (no_random) e where "r = Err e" "s' = s"
  | (sealed) md where "r = Ok (m\<lparr>msg_Metadata := md\<rparr>)" "used_random s s'"
      "decryptMessageMetadata mc (enc_keys s) scope (m\<lparr>msg_Metadata := md\<rparr>) = Ok m"
proof (cases "msg_Metadata m = []")
  case True
  with op show thesis
    by (intro sealed [of "[]"]) (auto simp: encryptMessageMetadata_def decryptMessageMetadata_def)
next
  case False
  have "parseEncryptedMessageMetadata (msg_Metadata m) = None"
    using clear(1) by (simp add: parseEncryptedMessageMetadata_def)
  note start = False this
  let ?aad = "messageMetadataAAD scope m"
  obtain q t where sa: "seal_active ''message metadata'' (marshal_map mc (msg_Metadata m)) ?aad s = (q, t)"
    by fastforce
  then show thesis using ok
  proof (cases rule: seal_active_cases)
    case no_random
    with start op sa that(1) show thesis by (auto simp: encryptMessageMetadata_def ebind_def)
  next
    case (sealed c)
    note active = used_random_fields(3) [OF sealed(2)]
    define e where "e = \<lparr>meta_Version = 1, meta_KeyID = enc_active s,
      meta_Payload = raw_encode std_alphabet c\<rparr>"
    define md where "md = [(encryptedMessageMetadataKey, AnyOther (marshal_metadata_envelope e))]"
    have parse: "parseEncryptedMessageMetadata md = Some e"
      unfolding md_def by (rule parse_metadata_envelope) (use ok sealed(3) in \<open>simp_all add: e_def ring_ok_def\<close>)
    have md: "md \<noteq> []" "length (gentries md) = 1" "gget md encryptedMessageMetadataKey \<noteq> None"
      by (simp_all add: md_def gentries_def gget_def)
    have aad: "messageMetadataAAD scope (m\<lparr>msg_Metadata := md\<rparr>) = ?aad"
      by (simp add: messageMetadataAAD_def messageAAD_def)
    show thesis
    proof (rule that(2))
      show "r = Ok (m\<lparr>msg_Metadata := md\<rparr>)" "used_random s s'"
        using start op sa sealed(1,2) active
        by (auto simp: encryptMessageMetadata_def ebind_def eret_def e_def md_def)
      show "decryptMessageMetadata mc (enc_keys s) scope (m\<lparr>msg_Metadata := md\<rparr>) = Ok m"
        using parse md False clear(2) sealed(4) raw_decode_encode [OF alphabets_ok(1), of c]
        by (auto simp: decryptMessageMetadata_def aad e_def metadata_codec_ok_def)
    qed
  qed
qed

lemma rbind_assoc: "rbind (rbind r f) g = rbind r (\<lambda>a. rbind (f a) g)"
  by (cases r) simp_all

lemma decryptMessageMetadata_content:
  "decryptMessageMetadata mc keys scope (m\<lparr>msg_Content := x, msg_ContentEncrypted := b\<rparr>)
    = rbind (decryptMessageMetadata mc keys scope m)
        (\<lambda>d. Ok (d\<lparr>msg_Content := x, msg_ContentEncrypted := b\<rparr>))"
proof -
  have [simp]: "messageMetadataAAD scope (m\<lparr>msg_Content := x, msg_ContentEncrypted := b\<rparr>)
    = messageMetadataAAD scope m" by (simp add: messageMetadataAAD_def messageAAD_def)
  have [simp]: "rbind (case q of None \<Rightarrow> Err e | Some a \<Rightarrow> Ok (f a)) g
      = (case q of None \<Rightarrow> Err e | Some a \<Rightarrow> g (f a))" for q :: "'x option" and e f and g :: "'y \<Rightarrow> 'z sres"
    by (cases q) simp_all
  show ?thesis
    by (cases "parseEncryptedMessageMetadata (msg_Metadata m)")
      (auto simp: decryptMessageMetadata_def rbind_assoc intro!: arg_cong2 [of _ _ _ _ rbind] ext
        split: option.splits)
qed

lemma encryptMessage_cases:
  assumes op: "encryptMessage mc scope m s = (r, s')" and ok: "ring_ok s" and clear: "clear_message mc m"
  obtains (no_random) e where "r = Err e" "used_random s s'"
  | (sealed) c where "r = Ok c" "used_random s s'" "sealed_of m c"
      "msg_ContentKeyID c = (if msg_Content m = [] then msg_ContentKeyID m else enc_active s)"
      "decryptMessage mc (enc_keys s) scope c = Ok (m\<lparr>msg_ContentKeyID := msg_ContentKeyID c\<rparr>)"
proof -
  from clear have cl: "\<not> msg_ContentEncrypted m" and key: "gget (msg_Metadata m) encryptedMessageMetadataKey = None"
    and codec: "msg_Metadata m \<noteq> [] \<longrightarrow> metadata_codec_ok mc (msg_Metadata m)"
    by (simp_all add: clear_message_def)
  show thesis
  proof (cases "msg_Content m = []")
    case True
    obtain q t where em: "encryptMessageMetadata mc scope m s = (q, t)" by fastforce
    with op True cl have "r = q" "s' = t" by (auto simp: encryptMessage_def ebind_def eret_def split: res.splits)
    with em have em: "encryptMessageMetadata mc scope m s = (r, s')" by simp
    from em ok key codec show thesis
    proof (cases rule: encryptMessageMetadata_cases)
      case no_random
      with that(1) show thesis by simp
    next
      case (sealed md)
      with True cl show thesis
        by (intro that(2) [of "m\<lparr>msg_Metadata := md\<rparr>"]) (auto simp: sealed_of_def decryptMessage_def)
    qed
  next
    case False
    obtain q t where sa: "seal_active ''message'' (msg_Content m) (messageAAD scope m) s = (q, t)" by fastforce
    then show thesis using ok
    proof (cases rule: seal_active_cases)
      case no_random
      with False cl op sa that(1) show thesis by (auto simp: encryptMessage_def ebind_def)
    next
      case (sealed c)
      define m' where "m' = m\<lparr>msg_Content := raw_encode std_alphabet c, msg_ContentEncrypted := True,
        msg_ContentKeyID := enc_active s\<rparr>"
      note fields = used_random_fields [OF sealed(2)]
      have em: "encryptMessageMetadata mc scope m' t = (r, s')"
        using op False cl sa sealed(1) fields(3)
        by (auto simp: encryptMessage_def ebind_def eret_def m'_def split: res.splits prod.splits)
      have ring: "ring_ok t" using ok fields(4) by simp
      have key': "gget (msg_Metadata m') encryptedMessageMetadataKey = None"
        and codec': "msg_Metadata m' \<noteq> [] \<longrightarrow> metadata_codec_ok mc (msg_Metadata m')"
        using key codec by (simp_all add: m'_def)
      from em ring key' codec' show thesis
      proof (cases rule: encryptMessageMetadata_cases)
        case no_random
        with sealed(2) that(1) show thesis by blast
      next
        case S: (sealed md)
        have "decryptMessageMetadata mc (enc_keys s) scope
            ((m'\<lparr>msg_Metadata := md\<rparr>)\<lparr>msg_Content := msg_Content m, msg_ContentEncrypted := False\<rparr>)
          = Ok (m\<lparr>msg_ContentKeyID := enc_active s\<rparr>)"
          unfolding decryptMessageMetadata_content using S(3) cl fields(2) by (simp add: m'_def)
        then show thesis
          using S(1,2) sealed raw_decode_encode [OF alphabets_ok(1), of c] False
          by (intro that(2) [of "m'\<lparr>msg_Metadata := md\<rparr>"])
            (auto simp: sealed_of_def m'_def decryptMessage_def messageAAD_def intro: used_random_trans)
      qed
    qed
  qed
qed

section \<open>Places\<close>

definition no_nul :: "string \<Rightarrow> bool" where
  "no_nul s \<longleftrightarrow> CHR 0x00 \<notin> set s"

lemma append_nul_inject:
  "no_nul a \<Longrightarrow> no_nul b \<Longrightarrow> a @ CHR 0x00 # x = b @ CHR 0x00 # y \<longleftrightarrow> a = b \<and> x = y"
proof (induction a arbitrary: b)
  case Nil
  then show ?case by (cases b) (auto simp: no_nul_def)
next
  case (Cons c a)
  then show ?case by (cases b) (auto simp: no_nul_def)
qed

lemma join_nul_inject:
  assumes "length ps = length qs" "\<forall>p \<in> set ps. no_nul p" "\<forall>q \<in> set qs. no_nul q"
  shows "join_nul ps = join_nul qs \<longleftrightarrow> ps = qs"
  using assms
proof (induction ps qs rule: list_induct2)
  case (Cons p ps q qs)
  then show ?case
    by (cases ps; cases qs) (auto simp: append_nul_inject)
qed simp

definition scope_no_nul :: "Scope \<Rightarrow> bool" where
  "scope_no_nul s \<longleftrightarrow> no_nul (OrgUUID s) \<and> no_nul (WorkspaceUUID s) \<and> no_nul (ProjectName s)
     \<and> no_nul (ProjectUID s)"

lemma assistantRunAAD_inject:
  assumes "scope_no_nul sc" "scope_no_nul sc'" "no_nul i" "no_nul i'" "no_nul l" "no_nul l'"
  shows "assistantRunAAD sc i l = assistantRunAAD sc' i' l' \<longleftrightarrow> sc = sc' \<and> i = i' \<and> l = l'"
proof -
  have "assistantRunAAD sc i l = assistantRunAAD sc' i' l' \<longleftrightarrow>
    [OrgUUID sc, WorkspaceUUID sc, ProjectName sc, ProjectUID sc, i, l]
      = [OrgUUID sc', WorkspaceUUID sc', ProjectName sc', ProjectUID sc', i', l']"
    unfolding assistantRunAAD_def using assms
    by (intro join_nul_inject) (auto simp: scope_no_nul_def)
  then show ?thesis by (auto intro: Scope.equality)
qed

text \<open>A sealed blob does not open under other associated data.\<close>

lemma encryptAssistantRunBlob_elsewhere:
  assumes op: "encryptAssistantRunBlob scope i label p s = (Ok c, s')" and ok: "ring_ok s"
    and p: "p \<noteq> []" "\<not> is_sealed p"
    and binds: "\<forall>k a. gget (enc_keys s) k = Some a \<longrightarrow> aead_binds a"
    and aad: "assistantRunAAD scope' i' label' \<noteq> assistantRunAAD scope i label"
  shows "\<not> res_ok (decryptAssistantRunBlob (enc_keys s') scope' i' label' c)"
proof -
  let ?aad = "assistantRunAAD scope i label"
  from ok obtain a where a: "gget (enc_keys s) (enc_active s) = Some a"
    unfolding ring_ok_def by fastforce
  let ?n = "take (NonceSize a) (enc_rand s)"
  let ?c = "?n @ Seal a ?n p ?aad"
  have rand: "\<not> length (enc_rand s) < NonceSize a"
    using op p a by (auto simp: encryptAssistantRunBlob_def ebind_def seal_active_def)
  define e where "e = \<lparr>env_Encrypted = True, env_KeyID = enc_active s, env_Payload = raw_encode std_alphabet ?c\<rparr>"
  have c: "c = marshal_envelope e" and keys: "enc_keys s' = enc_keys s"
    using op p a rand by (auto simp: encryptAssistantRunBlob_def ebind_def seal_active_def eret_def e_def Let_def)
  have "plain (env_KeyID e)" "plain (env_Payload e)" using ok by (simp_all add: e_def ring_ok_def)
  then have "unmarshal_envelope c = Some e" unfolding c by (rule unmarshal_marshal_envelope)
  moreover have "c \<noteq> []" by (simp add: c marshal_envelope_def)
  moreover have "Open a ?n (Seal a ?n p ?aad) (assistantRunAAD scope' i' label') = None"
    using binds a aad rand by (auto simp: aead_binds_def)
  ultimately show ?thesis
    using a rand raw_decode_encode [OF alphabets_ok(1), of ?c]
    by (simp add: decryptAssistantRunBlob_def keys) (simp add: e_def open_payload_def)
qed

end
