(* ===== verification/Key_Ring.thy ===== *)
theory Key_Ring
  imports Crypto_Roundtrip
begin

text \<open>
  Keys that \<open>ParseEncryptionKeys\<close> accepts are usable: their IDs are trimmed and distinct, their
  values have a size AES takes, and \<open>NewEncryptedStore\<close> builds a wrapper from them whose active
  key is the first one.
\<close>

definition keys_wf :: "EncryptionKey list \<Rightarrow> bool" where
  "keys_wf keys \<longleftrightarrow> distinct (map key_ID keys)
     \<and> (\<forall>k \<in> set keys. key_ID k \<noteq> [] \<and> TrimSpace (key_ID k) = key_ID k \<and> aes_key (key_Value k))"

lemma parse_key_parts_wf:
  "parse_key_parts seen keys parts = Inr ks \<Longrightarrow> keys_wf keys \<Longrightarrow> seen = set (map key_ID keys) \<Longrightarrow> keys_wf ks"
proof (induction seen keys parts rule: parse_key_parts.induct)
  case (2 seen keys part rest)
  obtain i encoded found where cut: "strings_Cut (CHR '':'') (TrimSpace part) = (i, encoded, found)"
    by (metis prod_cases3)
  show ?case
  proof (cases "TrimSpace part = []")
    case True
    with 2 show ?thesis by simp
  next
    case part: False
    with 2(3) cut obtain key where key: "TrimSpace i \<noteq> []" "TrimSpace i \<notin> seen" "aes_key key"
        "parse_key_parts (insert (TrimSpace i) seen) (keys @ [\<lparr>key_ID = TrimSpace i, key_Value = key\<rparr>]) rest = Inr ks"
      and decoded: "decodeBase64Key (TrimSpace encoded) = Some key" "found" "TrimSpace encoded \<noteq> []"
      by (auto simp: Let_def split: if_splits option.splits)
    have "keys_wf (keys @ [\<lparr>key_ID = TrimSpace i, key_Value = key\<rparr>])"
      using 2(4,5) key by (auto simp: keys_wf_def)
    with 2(2) [OF refl part cut [symmetric] refl refl refl refl _ key(2) decoded(1) _ key(4)] key decoded 2(5)
    show ?thesis by simp
  qed
qed simp

lemma ParseEncryptionKeys_wf: "ParseEncryptionKeys raw = Inr keys \<Longrightarrow> keys_wf keys"
  using parse_key_parts_wf [of "{}" "[]"]
  by (auto simp: ParseEncryptionKeys_def Let_def keys_wf_def split: if_splits)

definition ring_of :: "cipher_suite \<Rightarrow> EncryptionKey list \<Rightarrow> (string \<times> aead) list" where
  "ring_of suite keys = map (\<lambda>k. (key_ID k, suite (key_Value k))) keys"

lemma ring_keys_ok:
  assumes "keys_wf keys" "\<forall>k \<in> set keys. gget ring (key_ID k) = None"
  shows "\<exists>ring'. ring_keys suite ring keys = Inr ring'
    \<and> (\<forall>i. gget ring' i = (case map_of (ring_of suite keys) i of Some a \<Rightarrow> Some a | None \<Rightarrow> gget ring i))"
  using assms
proof (induction keys arbitrary: ring)
  case (Cons k ks)
  let ?ring = "gput (key_ID k) (suite (key_Value k)) ring"
  from Cons.prems have k: "TrimSpace (key_ID k) = key_ID k" "key_ID k \<noteq> []" "aes_key (key_Value k)"
      "gget ring (key_ID k) = None" and ks: "keys_wf ks" "key_ID k \<notin> key_ID ` set ks"
    by (auto simp: keys_wf_def)
  have "\<forall>j \<in> set ks. gget ?ring (key_ID j) = None"
  proof
    fix j assume "j \<in> set ks"
    with ks(2) have "key_ID j \<noteq> key_ID k" by (metis image_eqI)
    with Cons.prems(2) \<open>j \<in> set ks\<close> show "gget ?ring (key_ID j) = None" by (simp add: al.get_put)
  qed
  from Cons.IH [OF ks(1) this] obtain ring' where "ring_keys suite ?ring ks = Inr ring'"
    and get: "\<And>i. gget ring' i = (case map_of (ring_of suite ks) i of Some a \<Rightarrow> Some a | None \<Rightarrow> gget ?ring i)"
    by blast
  moreover have "map_of (ring_of suite ks) (key_ID k) = None"
    using ks(2) by (auto simp: ring_of_def map_of_eq_None_iff)
  ultimately show ?case
    using k by (auto simp: al.get_put ring_of_def Let_def split: option.split)
qed (simp add: ring_of_def)

lemma NewEncryptedStore_ok:
  assumes "keys_wf (k # ks)"
  obtains s where "NewEncryptedStore suite random inner (k # ks) = Inr (Some s)"
    "enc_active s = key_ID k" "enc_inner s = inner" "enc_rand s = random"
    "\<And>i. gget (enc_keys s) i = map_of (ring_of suite (k # ks)) i"
proof -
  obtain ring where ring: "ring_keys suite [] (k # ks) = Inr ring"
      "\<And>i. gget ring i = (case map_of (ring_of suite (k # ks)) i of Some a \<Rightarrow> Some a | None \<Rightarrow> gget [] i)"
    using ring_keys_ok [OF assms, of "[]" suite] by (auto simp: gget_def)
  from assms have "TrimSpace (key_ID k) = key_ID k" "key_ID k \<noteq> []" by (simp_all add: keys_wf_def)
  with ring that show thesis
    by (auto simp: NewEncryptedStore_def gget_def ring_of_def split: option.splits)
qed

text \<open>Such a wrapper is one the encryption lemmas are about, if the suite is one of AEADs.\<close>

lemma ring_ok_new:
  assumes "keys_wf (k # ks)" "plain (key_ID k)"
    and suite: "\<And>v. aes_key v \<Longrightarrow> aead_ok (suite v) \<and> 0 < NonceSize (suite v)"
    and s: "NewEncryptedStore suite random inner (k # ks) = Inr (Some s)"
  shows "ring_ok s"
proof -
  obtain t where t: "NewEncryptedStore suite random inner (k # ks) = Inr (Some t)"
    "enc_active t = key_ID k" "\<And>i. gget (enc_keys t) i = map_of (ring_of suite (k # ks)) i"
    using NewEncryptedStore_ok [OF assms(1)] by metis
  have "aead_ok a \<and> 0 < NonceSize a" if get: "gget (enc_keys t) i = Some a" for i a
  proof -
    from get have "(i, a) \<in> set (ring_of suite (k # ks))" unfolding t(3) by (rule map_of_SomeD)
    then show ?thesis using assms(1) suite by (auto simp: ring_of_def keys_wf_def)
  qed
  with assms(1,2) s t show ?thesis by (auto simp: ring_ok_def ring_of_def keys_wf_def)
qed

end
