(* ===== verification/Store_Encrypted.thy ===== *)
theory Store_Encrypted
  imports Crypto_Roundtrip Store_Isolation
begin

text \<open>
  The methods of \<open>encryptedStore\<close> (\<open>encryption.go\<close>) over \<open>MemoryStore\<close>, in the order of the
  file. A method encrypts what it is given, calls the inner store and decrypts what comes back;
  the reads of the clock inside one method are one value \<open>now\<close>. The methods that only delegate (deletions, preferences, permits,
  quotas, watching) are at the end.
\<close>

section \<open>Calling the inner store\<close>

definition inner_op :: "'a op \<Rightarrow> 'a eop" where
  "inner_op f s = (case f (enc_inner s) of (r, st) \<Rightarrow> (r, s\<lparr>enc_inner := st\<rparr>))"

definition inner_read :: "(MemoryStore \<Rightarrow> 'a sres) \<Rightarrow> 'a eop" where
  "inner_read f s = (f (enc_inner s), s)"

definition opened :: "(key_ring \<Rightarrow> 'a \<Rightarrow> 'b sres) \<Rightarrow> 'a \<Rightarrow> 'b eop" where
  "opened f a s = (f (enc_keys s) a, s)"

definition of_sum :: "store_err + 'a \<Rightarrow> 'a eop" where
  "of_sum x s = (case x of Inl e \<Rightarrow> (Err e, s) | Inr a \<Rightarrow> (Ok a, s))"

definition require_scope :: "Scope \<Rightarrow> unit eop" where
  "require_scope scope s = (case Scope_validate scope of Some e \<Rightarrow> (Err e, s) | None \<Rightarrow> (Ok (), s))"

fun rmap :: "('a \<Rightarrow> 'b sres) \<Rightarrow> 'a list \<Rightarrow> 'b list sres" where
  "rmap f [] = Ok []"
| "rmap f (x # xs) = rbind (f x) (\<lambda>y. rbind (rmap f xs) (\<lambda>ys. Ok (y # ys)))"

fun emap :: "('a \<Rightarrow> 'b eop) \<Rightarrow> 'a list \<Rightarrow> 'b list eop" where
  "emap f [] = eret []"
| "emap f (x # xs) = ebind (f x) (\<lambda>y. ebind (emap f xs) (\<lambda>ys. eret (y # ys)))"

section \<open>Threads\<close>

definition enc_CreateAssistantThread ::
  "time \<Rightarrow> Scope \<Rightarrow> AssistantThread \<Rightarrow> AssistantThreadEvent list \<Rightarrow> AssistantThread eop" where
  "enc_CreateAssistantThread now scope thread events =
     ebind (of_sum (prepareAssistantThread now thread)) (\<lambda>thread.
     ebind (encryptAssistantThread scope thread) (\<lambda>thread.
     ebind (emap (\<lambda>event. encryptAssistantThreadEvent scope (event\<lparr>tev_ThreadID := thread_ID thread\<rparr>)) events)
       (\<lambda>encryptedEvents.
     ebind (inner_op (CreateAssistantThread now scope thread encryptedEvents))
       (opened (\<lambda>keys. decryptAssistantThread keys scope)))))"

definition enc_GetAssistantThread :: "Scope \<Rightarrow> string \<Rightarrow> AssistantThread eop" where
  "enc_GetAssistantThread scope threadID =
     ebind (inner_read (GetAssistantThread scope threadID))
       (opened (\<lambda>keys. decryptAssistantThread keys scope))"

definition enc_ListAssistantThreads :: "cursor_codec \<Rightarrow> Scope \<Rightarrow> string \<Rightarrow> bool \<Rightarrow> int \<Rightarrow> string
    \<Rightarrow> AssistantThreadPage eop" where
  "enc_ListAssistantThreads codec scope actorID includeArchived limit cursor =
     ebind (inner_read (ListAssistantThreads codec scope actorID includeArchived limit cursor)) (\<lambda>page.
     ebind (opened (\<lambda>keys. rmap (decryptAssistantThread keys scope)) (tpage_Items page)) (\<lambda>items.
     eret (page\<lparr>tpage_Items := items\<rparr>)))"

definition enc_UpdateAssistantThread :: "time \<Rightarrow> Scope \<Rightarrow> AssistantThread \<Rightarrow> AssistantThread eop" where
  "enc_UpdateAssistantThread now scope thread =
     ebind (of_sum (prepareAssistantThread now thread)) (\<lambda>prepared.
     ebind (encryptAssistantThread scope prepared) (\<lambda>prepared.
     ebind (inner_op (UpdateAssistantThread now scope prepared))
       (opened (\<lambda>keys. decryptAssistantThread keys scope))))"

text \<open>
  \<open>title_payload\<close> is \<open>json.Marshal\<close> of the title-only event, as in the memory store; here it is
  given the title as it came in.
\<close>

definition enc_SetAssistantThreadTitleIfEmpty :: "(string \<Rightarrow> string \<Rightarrow> string) \<Rightarrow> time \<Rightarrow> Scope \<Rightarrow> string
    \<Rightarrow> string \<Rightarrow> string \<Rightarrow> AssistantThreadEvent \<Rightarrow> (AssistantThread \<times> bool) eop" where
  "enc_SetAssistantThreadTitleIfEmpty title_payload now scope threadID actorID title event =
     ebind (of_sum (prepareAssistantThread now (zero_thread\<lparr>thread_ID := threadID,
         thread_ActorID := actorID, thread_Title := title\<rparr>))) (\<lambda>prepared.
     ebind (encryptAssistantThread scope prepared) (\<lambda>prepared.
     let event = event\<lparr>tev_ThreadID := thread_ID prepared\<rparr>;
         event = (if tev_Payload event = [] \<or> tev_Payload event = ''{}''
           then event\<lparr>tev_Payload := title_payload (thread_ID prepared) title\<rparr> else event)
     in ebind (encryptAssistantThreadEvent scope event) (\<lambda>encryptedEvent.
     ebind (inner_op (SetAssistantThreadTitleIfEmpty title_payload now scope (thread_ID prepared)
         (thread_ActorID prepared) (thread_Title prepared) encryptedEvent)) (\<lambda>(updated, changed).
     ebind (opened (\<lambda>keys. decryptAssistantThread keys scope) updated) (\<lambda>updated.
     eret (updated, changed))))))"

definition enc_UpdateAssistantThreadWithEvent :: "time \<Rightarrow> Scope \<Rightarrow> AssistantThread
    \<Rightarrow> AssistantThreadEvent \<Rightarrow> int64 \<Rightarrow> (AssistantThread \<times> AssistantThreadEvent) eop" where
  "enc_UpdateAssistantThreadWithEvent now scope thread event expectedSequence =
     ebind (of_sum (prepareAssistantThread now thread)) (\<lambda>thread.
     ebind (encryptAssistantThread scope thread) (\<lambda>thread.
     ebind (encryptAssistantThreadEvent scope (event\<lparr>tev_ThreadID := thread_ID thread\<rparr>)) (\<lambda>encrypted.
     ebind (inner_op (UpdateAssistantThreadWithEvent now scope thread encrypted expectedSequence))
       (\<lambda>(updated, created).
     ebind (opened (\<lambda>keys. decryptAssistantThread keys scope) updated) (\<lambda>updated.
     ebind (opened (\<lambda>keys. decryptAssistantThreadEvent keys scope) created) (\<lambda>created.
     eret (updated, created)))))))"

section \<open>Turns\<close>

definition enc_CreateAssistantTurn ::
  "time \<Rightarrow> Scope \<Rightarrow> AssistantTurn \<Rightarrow> AssistantThreadEvent list \<Rightarrow> AssistantTurn eop" where
  "enc_CreateAssistantTurn now scope turn events =
     ebind (encryptAssistantTurn scope turn) (\<lambda>turn.
     ebind (emap (encryptAssistantThreadEvent scope) (set_turn_ids turn events)) (\<lambda>encryptedEvents.
     ebind (inner_op (CreateAssistantTurn now scope turn encryptedEvents))
       (opened (\<lambda>keys. decryptAssistantTurn keys scope))))"

definition enc_GetAssistantTurn :: "Scope \<Rightarrow> string \<Rightarrow> string \<Rightarrow> AssistantTurn eop" where
  "enc_GetAssistantTurn scope threadID turnID =
     ebind (inner_read (GetAssistantTurn scope threadID turnID))
       (opened (\<lambda>keys. decryptAssistantTurn keys scope))"

definition enc_FindAssistantTurnByClientUserMessageID ::
  "Scope \<Rightarrow> string \<Rightarrow> string \<Rightarrow> AssistantTurn eop" where
  "enc_FindAssistantTurnByClientUserMessageID scope threadID clientUserMessageID =
     ebind (inner_read (FindAssistantTurnByClientUserMessageID scope threadID clientUserMessageID))
       (opened (\<lambda>keys. decryptAssistantTurn keys scope))"

definition enc_ActiveAssistantTurn :: "Scope \<Rightarrow> string \<Rightarrow> AssistantTurn eop" where
  "enc_ActiveAssistantTurn scope threadID =
     ebind (inner_read (ActiveAssistantTurn scope threadID))
       (opened (\<lambda>keys. decryptAssistantTurn keys scope))"

definition enc_SaveAssistantTurn :: "time \<Rightarrow> Scope \<Rightarrow> AssistantTurn \<Rightarrow> unit eop" where
  "enc_SaveAssistantTurn now scope turn =
     ebind (encryptAssistantTurn scope turn) (\<lambda>encrypted.
     inner_op (SaveAssistantTurn now scope encrypted))"

definition enc_SaveAssistantTurnWithEvent ::
  "time \<Rightarrow> Scope \<Rightarrow> AssistantTurn \<Rightarrow> AssistantThreadEvent \<Rightarrow> int64 \<Rightarrow> unit eop" where
  "enc_SaveAssistantTurnWithEvent now scope turn event expectedSequence =
     ebind (encryptAssistantTurn scope turn) (\<lambda>turn.
     ebind (encryptAssistantThreadEvent scope
         (event\<lparr>tev_ThreadID := turn_ThreadID turn, tev_TurnID := turn_ID turn\<rparr>)) (\<lambda>event.
     inner_op (SaveAssistantTurnWithEvent now scope turn event expectedSequence)))"

section \<open>Thread events\<close>

definition enc_AppendAssistantThreadEvent ::
  "time \<Rightarrow> Scope \<Rightarrow> AssistantThreadEvent \<Rightarrow> int64 \<Rightarrow> AssistantThreadEvent eop" where
  "enc_AppendAssistantThreadEvent now scope event expectedSequence =
     ebind (encryptAssistantThreadEvent scope event) (\<lambda>encrypted.
     ebind (inner_op (AppendAssistantThreadEvent now scope encrypted expectedSequence))
       (opened (\<lambda>keys. decryptAssistantThreadEvent keys scope)))"

text \<open>The loop that decrypts a listing of thread events.\<close>

definition decrypt_thread_events ::
  "Scope \<Rightarrow> AssistantThreadEvent list \<Rightarrow> AssistantThreadEvent list eop" where
  "decrypt_thread_events scope = opened (\<lambda>keys. rmap (decryptAssistantThreadEvent keys scope))"

definition enc_ListAssistantThreadEvents ::
  "Scope \<Rightarrow> string \<Rightarrow> int64 \<Rightarrow> int \<Rightarrow> AssistantThreadEvent list eop" where
  "enc_ListAssistantThreadEvents scope threadID afterSequence limit =
     ebind (inner_read (ListAssistantThreadEvents scope threadID afterSequence limit))
       (decrypt_thread_events scope)"

definition enc_ListAssistantThreadEventsBefore ::
  "Scope \<Rightarrow> string \<Rightarrow> int64 \<Rightarrow> int \<Rightarrow> AssistantThreadEvent list eop" where
  "enc_ListAssistantThreadEventsBefore scope threadID beforeSequence limit =
     ebind (inner_read (ListAssistantThreadEventsBefore scope threadID beforeSequence limit))
       (decrypt_thread_events scope)"

definition enc_ListAssistantThreadTurnEventsBefore ::
  "Scope \<Rightarrow> string \<Rightarrow> int64 \<Rightarrow> int \<Rightarrow> AssistantThreadEvent list eop" where
  "enc_ListAssistantThreadTurnEventsBefore scope threadID beforeSequence limit =
     ebind (inner_read (ListAssistantThreadTurnEventsBefore scope threadID beforeSequence limit))
       (decrypt_thread_events scope)"

definition enc_ListAssistantThreadTurnEventsAfter ::
  "Scope \<Rightarrow> string \<Rightarrow> string \<Rightarrow> string \<Rightarrow> int64 \<Rightarrow> int \<Rightarrow> AssistantThreadEvent list eop" where
  "enc_ListAssistantThreadTurnEventsAfter scope threadID turnID eventType afterSequence limit =
     ebind (inner_read
         (ListAssistantThreadTurnEventsAfter scope threadID turnID eventType afterSequence limit))
       (decrypt_thread_events scope)"

definition enc_ListAssistantThreadTurnEventsByTypeAfter ::
  "Scope \<Rightarrow> string \<Rightarrow> string \<Rightarrow> int64 \<Rightarrow> int \<Rightarrow> AssistantThreadEvent list eop" where
  "enc_ListAssistantThreadTurnEventsByTypeAfter scope threadID eventType afterSequence limit =
     ebind (inner_read
         (ListAssistantThreadTurnEventsByTypeAfter scope threadID eventType afterSequence limit))
       (decrypt_thread_events scope)"

section \<open>Messages\<close>

definition enc_AppendMessage :: "metadata_codec \<Rightarrow> time \<Rightarrow> Scope \<Rightarrow> Message \<Rightarrow> unit eop" where
  "enc_AppendMessage mc now scope msg =
     ebind (require_scope scope) (\<lambda>_.
     ebind (encryptMessage mc scope msg) (\<lambda>msg.
     inner_op (AppendMessage now scope msg)))"

definition decrypt_messages :: "metadata_codec \<Rightarrow> Scope \<Rightarrow> Message list \<Rightarrow> Message list eop" where
  "decrypt_messages mc scope = opened (\<lambda>keys. rmap (decryptMessage mc keys scope))"

definition enc_ListMessages ::
  "metadata_codec \<Rightarrow> cursor_codec \<Rightarrow> Scope \<Rightarrow> int \<Rightarrow> string \<Rightarrow> Page eop" where
  "enc_ListMessages mc codec scope limit cursor =
     ebind (inner_read (ListMessages codec scope limit cursor)) (\<lambda>page.
     ebind (decrypt_messages mc scope (page_Items page)) (\<lambda>items.
     eret (page\<lparr>page_Items := items\<rparr>)))"

definition enc_LoadRecentMessages :: "metadata_codec \<Rightarrow> Scope \<Rightarrow> int \<Rightarrow> Message list eop" where
  "enc_LoadRecentMessages mc scope limit =
     ebind (inner_read (LoadRecentMessages scope limit)) (decrypt_messages mc scope)"

definition enc_GetMessagesByIDs :: "metadata_codec \<Rightarrow> Scope \<Rightarrow> string list \<Rightarrow> Message list eop" where
  "enc_GetMessagesByIDs mc scope messageIDs =
     ebind (inner_read (GetMessagesByIDs scope messageIDs)) (decrypt_messages mc scope)"

section \<open>Runs\<close>

definition decrypt_run :: "Scope \<Rightarrow> AssistantRun \<Rightarrow> AssistantRun eop" where
  "decrypt_run scope = opened (\<lambda>keys. decryptAssistantRunBlobs keys scope)"

definition enc_SaveAssistantRun :: "time \<Rightarrow> Scope \<Rightarrow> AssistantRun \<Rightarrow> unit eop" where
  "enc_SaveAssistantRun now scope run =
     ebind (require_scope scope) (\<lambda>_.
     ebind (encryptAssistantRunBlobs scope run) (\<lambda>run.
     inner_op (SaveAssistantRun now scope run)))"

definition enc_CreateAssistantRun ::
  "metadata_codec \<Rightarrow> time \<Rightarrow> Scope \<Rightarrow> Message \<Rightarrow> Message \<Rightarrow> AssistantRun \<Rightarrow> AssistantRun eop" where
  "enc_CreateAssistantRun mc now scope user assistant run =
     ebind (require_scope scope) (\<lambda>_.
     ebind (encryptMessage mc scope user) (\<lambda>user.
     ebind (encryptMessage mc scope assistant) (\<lambda>assistant.
     ebind (encryptAssistantRunBlobs scope run) (\<lambda>run.
     ebind (inner_op (CreateAssistantRun now scope user assistant run)) (decrypt_run scope)))))"

definition enc_RequestAssistantRunStopWithAssistantMessage :: "metadata_codec \<Rightarrow> time \<Rightarrow> Scope
    \<Rightarrow> string \<Rightarrow> int64 \<Rightarrow> Message \<Rightarrow> time \<Rightarrow> AssistantRun eop" where
  "enc_RequestAssistantRunStopWithAssistantMessage mc clock scope runID expectedRunRevision assistant now =
     ebind (require_scope scope) (\<lambda>_.
     ebind (encryptMessage mc scope assistant) (\<lambda>assistant.
     ebind (inner_op (RequestAssistantRunStopWithAssistantMessage clock scope runID
         expectedRunRevision assistant now)) (decrypt_run scope)))"

definition enc_SaveAssistantRunSnapshot ::
  "metadata_codec \<Rightarrow> time \<Rightarrow> Scope \<Rightarrow> AssistantRun \<Rightarrow> Message list \<Rightarrow> int64 \<Rightarrow> unit eop" where
  "enc_SaveAssistantRunSnapshot mc now scope run msgs expectedRevision =
     ebind (require_scope scope) (\<lambda>_.
     ebind (encryptAssistantRunBlobs scope run) (\<lambda>run.
     ebind (emap (encryptMessage mc scope) msgs) (\<lambda>encryptedMessages.
     inner_op (SaveAssistantRunSnapshot now scope run encryptedMessages expectedRevision))))"

definition enc_ClaimAssistantRun ::
  "time \<Rightarrow> Scope \<Rightarrow> string \<Rightarrow> string \<Rightarrow> time \<Rightarrow> AssistantRun eop" where
  "enc_ClaimAssistantRun clock scope i requestID now =
     ebind (inner_op (ClaimAssistantRun clock scope i requestID now)) (decrypt_run scope)"

definition enc_GetAssistantRun :: "Scope \<Rightarrow> string \<Rightarrow> AssistantRun eop" where
  "enc_GetAssistantRun scope i = ebind (inner_read (GetAssistantRun scope i)) (decrypt_run scope)"

definition enc_FindAssistantRunByClientRequestID :: "Scope \<Rightarrow> string \<Rightarrow> AssistantRun eop" where
  "enc_FindAssistantRunByClientRequestID scope clientRequestID =
     ebind (inner_read (FindAssistantRunByClientRequestID scope clientRequestID)) (decrypt_run scope)"

definition enc_FindAssistantRunByThreadClientRequestID ::
  "Scope \<Rightarrow> string \<Rightarrow> string \<Rightarrow> AssistantRun eop" where
  "enc_FindAssistantRunByThreadClientRequestID scope threadID clientRequestID =
     ebind (inner_read (FindAssistantRunByThreadClientRequestID scope threadID clientRequestID))
       (decrypt_run scope)"

definition enc_LatestAssistantRun :: "Scope \<Rightarrow> AssistantRun eop" where
  "enc_LatestAssistantRun scope = ebind (inner_read (LatestAssistantRun scope)) (decrypt_run scope)"

definition enc_LatestAssistantRunForThread :: "Scope \<Rightarrow> string \<Rightarrow> AssistantRun eop" where
  "enc_LatestAssistantRunForThread scope threadID =
     ebind (inner_read (LatestAssistantRunForThread scope threadID)) (decrypt_run scope)"

definition enc_ListActiveAssistantRuns :: "Scope \<Rightarrow> AssistantRun list eop" where
  "enc_ListActiveAssistantRuns scope =
     ebind (inner_read (ListActiveAssistantRuns scope))
       (opened (\<lambda>keys. rmap (decryptAssistantRunBlobs keys scope)))"

section \<open>Run events\<close>

definition enc_AppendAssistantRunEvent ::
  "time \<Rightarrow> Scope \<Rightarrow> AssistantRunEvent \<Rightarrow> int64 \<Rightarrow> AssistantRunEvent eop" where
  "enc_AppendAssistantRunEvent now scope event expectedSequence =
     ebind (of_sum (prepareAssistantRunEvent now scope event expectedSequence)) (\<lambda>event.
     ebind (encryptAssistantRunBlob scope (rev_RunID event) (assistantRunEventBlobLabel event)
         (rev_Payload event)) (\<lambda>payload.
     ebind (inner_op (AppendAssistantRunEvent now scope (event\<lparr>rev_Payload := payload\<rparr>) expectedSequence))
       (opened (\<lambda>keys. decryptAssistantRunEvent keys scope))))"

definition enc_ListAssistantRunEvents ::
  "Scope \<Rightarrow> string \<Rightarrow> int64 \<Rightarrow> int \<Rightarrow> AssistantRunEvent list eop" where
  "enc_ListAssistantRunEvents scope runID afterSequence limit =
     ebind (inner_read (ListAssistantRunEvents scope runID afterSequence limit))
       (opened (\<lambda>keys. rmap (decryptAssistantRunEvent keys scope)))"

definition enc_ListAssistantRunEventsByRuns ::
  "Scope \<Rightarrow> string list \<Rightarrow> string \<Rightarrow> int \<Rightarrow> AssistantRunEvent list eop" where
  "enc_ListAssistantRunEventsByRuns scope runIDs eventType perRunLimit =
     ebind (inner_read (ListAssistantRunEventsByRuns scope runIDs eventType perRunLimit))
       (opened (\<lambda>keys. rmap (decryptAssistantRunEvent keys scope)))"

section \<open>Conversation items\<close>

definition decrypt_item ::
  "key_ring \<Rightarrow> Scope \<Rightarrow> AssistantConversationItem \<Rightarrow> AssistantConversationItem sres" where
  "decrypt_item keys scope item =
     rbind (decryptAssistantRunBlob keys scope (item_RunID item) (''conversation:'' @ item_ID item)
         (item_Payload item))
       (\<lambda>payload. Ok (item\<lparr>item_Payload := payload\<rparr>))"

text \<open>
  The loop of \<open>findAssistantConversationItem\<close>, page after page of 500. It ends because the page
  after a sequence number only has larger ones.
\<close>

lemma conversation_page_after:
  assumes "ListAssistantConversationItems scope a limit st = Ok items"
  shows "set items \<subseteq> {x \<in> set (gread (conversationItems st) scope). a < item_Sequence x}"
proof -
  have 1: "1 \<le> nat (normalizeLimit limit)" using normalizeLimit_bounds(1) [of limit] by simp
  from assms have "items = scan_after item_Sequence a (nat (normalizeLimit limit))
      (gread (conversationItems st) scope)"
    by (auto simp: ListAssistantConversationItems_def listAssistantConversationItems_def Let_def
        split: option.splits)
  then show ?thesis by (auto simp: scan_after_take [OF 1] dest: in_set_takeD)
qed

function find_item_from :: "key_ring \<Rightarrow> Scope \<Rightarrow> string \<Rightarrow> string \<Rightarrow> MemoryStore \<Rightarrow> int64
    \<Rightarrow> AssistantConversationItem option sres" where
  "find_item_from keys scope runID itemID st a =
     (case ListAssistantConversationItems scope a 500 st of
        Err e \<Rightarrow> Err e | Panic \<Rightarrow> Panic
      | Ok items \<Rightarrow>
        (case find (\<lambda>item. item_RunID item = runID \<and> item_ID item = itemID) items of
           Some item \<Rightarrow> rbind (decrypt_item keys scope item) (\<lambda>item. Ok (Some item))
         | None \<Rightarrow>
           if length items < 500 then Ok None
           else find_item_from keys scope runID itemID st (item_Sequence (last items))))"
  by pat_completeness auto
termination
proof (relation "measure (\<lambda>(keys, scope, runID, itemID, st, a).
    length (filter (\<lambda>x. a < item_Sequence x) (gread (conversationItems st) scope)))")
  fix keys :: key_ring and scope runID itemID st a items
  assume page: "ListAssistantConversationItems scope a 500 st = Ok items" and len: "\<not> length items < 500"
  let ?all = "gread (conversationItems st) scope"
  from len have "items \<noteq> []" by auto
  then have last: "last items \<in> set ?all" "a < item_Sequence (last items)"
    using conversation_page_after [OF page] last_in_set by blast+
  have "filter (\<lambda>x. item_Sequence (last items) < item_Sequence x) ?all
      = filter (\<lambda>x. item_Sequence (last items) < item_Sequence x) (filter (\<lambda>x. a < item_Sequence x) ?all)"
    using last(2) by (auto intro: filter_cong)
  moreover have "length (filter (\<lambda>x. item_Sequence (last items) < item_Sequence x)
      (filter (\<lambda>x. a < item_Sequence x) ?all)) < length (filter (\<lambda>x. a < item_Sequence x) ?all)"
    by (rule length_filter_less) (use last in auto)
  ultimately show "((keys, scope, runID, itemID, st, item_Sequence (last items)),
      keys, scope, runID, itemID, st, a) \<in> measure (\<lambda>(keys, scope, runID, itemID, st, a).
        length (filter (\<lambda>x. a < item_Sequence x) (gread (conversationItems st) scope)))"
    by simp
qed simp

declare find_item_from.simps [simp del]

definition findAssistantConversationItem ::
  "Scope \<Rightarrow> string \<Rightarrow> string \<Rightarrow> AssistantConversationItem option eop" where
  "findAssistantConversationItem scope runID itemID s =
     (find_item_from (enc_keys s) scope runID itemID (enc_inner s) 0, s)"

definition enc_AppendAssistantConversationItem :: "(string \<Rightarrow> string option) \<Rightarrow> time \<Rightarrow> Scope
    \<Rightarrow> AssistantConversationItem \<Rightarrow> AssistantConversationItem eop" where
  "enc_AppendAssistantConversationItem canon now scope item =
     ebind (of_sum (prepareAssistantConversationItem now scope item)) (\<lambda>prepared.
     ebind (findAssistantConversationItem scope (item_RunID prepared) (item_ID prepared)) (\<lambda>found.
     case found of
       Some existing \<Rightarrow>
         if \<not> assistantConversationItemsMatch canon existing prepared
         then of_sum (Inl ErrAssistantConversationItemConflict) else eret existing
     | None \<Rightarrow>
       ebind (encryptAssistantRunBlob scope (item_RunID prepared) (''conversation:'' @ item_ID prepared)
           (item_Payload prepared)) (\<lambda>payload.
       (\<lambda>s. case inner_op (AppendAssistantConversationItem canon now scope
                (prepared\<lparr>item_Payload := payload\<rparr>)) s of
              (Ok created, s) \<Rightarrow> opened (\<lambda>keys. decrypt_item keys scope) created s
            | (Panic, s) \<Rightarrow> (Panic, s)
            | (Err e, s) \<Rightarrow>
              if e = ErrAssistantConversationItemConflict
              then ebind (findAssistantConversationItem scope (item_RunID item) (item_ID item))
                (\<lambda>found. case found of
                    Some existing \<Rightarrow>
                      if assistantConversationItemsMatch canon existing item then eret existing
                      else of_sum (Inl e)
                  | None \<Rightarrow> of_sum (Inl e)) s
              else (Err e, s)))))"

definition enc_ListAssistantConversationItems ::
  "Scope \<Rightarrow> int64 \<Rightarrow> int \<Rightarrow> AssistantConversationItem list eop" where
  "enc_ListAssistantConversationItems scope afterSequence limit =
     ebind (inner_read (ListAssistantConversationItems scope afterSequence limit))
       (opened (\<lambda>keys. rmap (decrypt_item keys scope)))"

definition enc_ListAssistantThreadConversationItems ::
  "Scope \<Rightarrow> string \<Rightarrow> int64 \<Rightarrow> int \<Rightarrow> AssistantConversationItem list eop" where
  "enc_ListAssistantThreadConversationItems scope threadID afterSequence limit =
     ebind (inner_read (ListAssistantThreadConversationItems scope threadID afterSequence limit))
       (opened (\<lambda>keys. rmap (decrypt_item keys scope)))"

section \<open>Attachments\<close>

definition enc_CreateAttachment ::
  "attachment_sdk \<Rightarrow> time \<Rightarrow> Scope \<Rightarrow> Attachment \<Rightarrow> Attachment eop" where
  "enc_CreateAttachment sdk now scope attachment =
     ebind (of_sum (prepareAttachment sdk now scope attachment)) (\<lambda>prepared.
     ebind (seal_active ''attachment'' (att_Data prepared) (attachmentAAD scope prepared)) (\<lambda>sealed s.
     inner_op (CreateAttachment sdk now scope (prepared\<lparr>att_Data := sealed, att_DataEncrypted := True,
       att_DataKeyID := enc_active s\<rparr>)) s))"

definition open_attachment :: "attachment_sdk \<Rightarrow> key_ring \<Rightarrow> Scope \<Rightarrow> Attachment \<Rightarrow> Attachment sres" where
  "open_attachment sdk keys scope attachment =
     (if \<not> att_DataEncrypted attachment then Ok attachment
      else rbind (open_payload keys ''attachment'' (att_DataKeyID attachment)
          (Some (att_Data attachment)) (attachmentAAD scope attachment)) (\<lambda>plaintext.
        if int (length plaintext) \<noteq> att_SizeBytes attachment
        then Err (ErrInvalid ''decrypted attachment size does not match receipt'')
        else if \<not> EqualFold (att_SHA256 attachment) (Sum256_hex sdk plaintext)
        then Err (ErrInvalid ''decrypted attachment sha256 does not match receipt'')
        else Ok (attachment\<lparr>att_Data := plaintext, att_DataEncrypted := False, att_DataKeyID := []\<rparr>)))"

definition enc_GetAttachment :: "attachment_sdk \<Rightarrow> time \<Rightarrow> Scope \<Rightarrow> string \<Rightarrow> Attachment eop" where
  "enc_GetAttachment sdk now scope i =
     ebind (inner_op (GetAttachment now scope i)) (opened (\<lambda>keys. open_attachment sdk keys scope))"

text \<open>\<open>VerifyAttachmentReceipt\<close> (\<open>attachment.go\<close>) with the wrapper as its store.\<close>

definition enc_VerifyAttachmentReceipt ::
  "attachment_sdk \<Rightarrow> time \<Rightarrow> Scope \<Rightarrow> AttachmentReceipt \<Rightarrow> string \<Rightarrow> Attachment eop" where
  "enc_VerifyAttachmentReceipt sdk now scope receipt actor =
     (let actor = TrimSpace actor
      in if actor = [] then of_sum (Inl ErrAttachmentForbidden)
         else ebind (enc_GetAttachment sdk now scope (rcpt_ID receipt)) (\<lambda>attachment.
           case validateAttachmentReceipt sdk attachment receipt actor of
             Some e \<Rightarrow> of_sum (Inl e) | None \<Rightarrow> eret attachment))"

definition bound_copy :: "string \<Rightarrow> Attachment \<Rightarrow> Attachment" where
  "bound_copy bindingID a = a\<lparr>att_Draft := False, att_BindingID := bindingID,
     att_DraftExpiresAt := att_ExpiresAt a, att_ExpiresAt := None\<rparr>"

definition enc_BindAttachments :: "attachment_sdk \<Rightarrow> time \<Rightarrow> Scope \<Rightarrow> AttachmentReceipt list \<Rightarrow> string
    \<Rightarrow> string \<Rightarrow> Attachment list eop" where
  "enc_BindAttachments sdk now scope receipts actor bindingID =
     ebind (emap (\<lambda>receipt. enc_VerifyAttachmentReceipt sdk now scope receipt actor) receipts) (\<lambda>verified.
     ebind (inner_op (BindAttachments sdk now scope receipts actor bindingID)) (\<lambda>_.
     eret (map (bound_copy bindingID) verified)))"

definition enc_BindAttachment ::
  "attachment_sdk \<Rightarrow> time \<Rightarrow> Scope \<Rightarrow> AttachmentReceipt \<Rightarrow> string \<Rightarrow> Attachment eop" where
  "enc_BindAttachment sdk now scope receipt actor =
     ebind (enc_BindAttachments sdk now scope [receipt] actor (''legacy:'' @ TrimSpace (rcpt_ID receipt)))
       (\<lambda>bound s. case bound of a # _ \<Rightarrow> (Ok a, s) | [] \<Rightarrow> (Panic, s))"

section \<open>Methods that only delegate\<close>

definition enc_LatestAssistantThreadEventSequence :: "Scope \<Rightarrow> string \<Rightarrow> int64 eop" where
  "enc_LatestAssistantThreadEventSequence scope threadID =
     inner_read (LatestAssistantThreadEventSequence scope threadID)"

definition enc_DeleteAssistantThread :: "Scope \<Rightarrow> string \<Rightarrow> string \<Rightarrow> unit eop" where
  "enc_DeleteAssistantThread scope threadID actorID = inner_op (DeleteAssistantThread scope threadID actorID)"

definition enc_GetAssistantThreadTurnStartSequence :: "Scope \<Rightarrow> string \<Rightarrow> string \<Rightarrow> int64 eop" where
  "enc_GetAssistantThreadTurnStartSequence scope threadID turnID =
     inner_read (GetAssistantThreadTurnStartSequence scope threadID turnID)"

definition enc_GetAssistantApprovalPreference ::
  "Scope \<Rightarrow> string \<Rightarrow> AssistantApprovalPreference eop" where
  "enc_GetAssistantApprovalPreference scope actor = inner_read (GetAssistantApprovalPreference scope actor)"

definition enc_SetAssistantApprovalPreference ::
  "time \<Rightarrow> Scope \<Rightarrow> AssistantApprovalPreference \<Rightarrow> AssistantApprovalPreference eop" where
  "enc_SetAssistantApprovalPreference now scope preference =
     inner_op (SetAssistantApprovalPreference now scope preference)"

definition enc_CreateProjectBootstrapPermit :: "Scope \<Rightarrow> string \<Rightarrow> string \<Rightarrow> unit eop" where
  "enc_CreateProjectBootstrapPermit scope actor promptDigest =
     inner_op (CreateProjectBootstrapPermit scope actor promptDigest)"

definition enc_ConsumeProjectBootstrapPermit :: "Scope \<Rightarrow> string \<Rightarrow> string \<Rightarrow> string \<Rightarrow> bool eop" where
  "enc_ConsumeProjectBootstrapPermit scope actor promptDigest clientRequestID =
     inner_op (ConsumeProjectBootstrapPermit scope actor promptDigest clientRequestID)"

definition enc_DeleteProjectMessages :: "Scope \<Rightarrow> unit eop" where
  "enc_DeleteProjectMessages scope = inner_op (DeleteProjectMessages scope)"

definition enc_DeleteMessagesOlderThan :: "time \<Rightarrow> int64 eop" where
  "enc_DeleteMessagesOlderThan before = inner_op (DeleteMessagesOlderThan before)"

definition enc_ListAttachments :: "time \<Rightarrow> Scope \<Rightarrow> Attachment list eop" where
  "enc_ListAttachments now scope = inner_op (ListAttachments now scope)"

definition enc_RollbackAttachmentBinding :: "Scope \<Rightarrow> string \<Rightarrow> unit eop" where
  "enc_RollbackAttachmentBinding scope bindingID = inner_op (RollbackAttachmentBinding scope bindingID)"

definition enc_DeleteAttachment :: "Scope \<Rightarrow> string \<Rightarrow> string \<Rightarrow> unit eop" where
  "enc_DeleteAttachment scope i actor = inner_op (DeleteAttachment scope i actor)"

definition enc_DeleteProjectAttachments :: "Scope \<Rightarrow> unit eop" where
  "enc_DeleteProjectAttachments scope = inner_op (DeleteProjectAttachments scope)"

definition enc_DeleteExpiredAttachments :: "time \<Rightarrow> int64 eop" where
  "enc_DeleteExpiredAttachments before = inner_op (DeleteExpiredAttachments before)"

definition enc_ConfigureAttachmentQuota :: "AttachmentQuota \<Rightarrow> unit eop" where
  "enc_ConfigureAttachmentQuota quota = inner_op (ConfigureAttachmentQuota quota)"

definition enc_ReconcileAttachmentBindings :: "attachment_sdk \<Rightarrow> time \<Rightarrow> unit eop" where
  "enc_ReconcileAttachmentBindings sdk now = inner_op (ReconcileAttachmentBindings sdk now)"

definition enc_WatchAssistantThreadEvents :: "Scope \<Rightarrow> string \<Rightarrow> nat eop" where
  "enc_WatchAssistantThreadEvents scope threadID = inner_op (WatchAssistantThreadEvents scope threadID)"

definition enc_AssistantThreadActivity :: "Scope \<Rightarrow> string \<Rightarrow> AssistantThreadActivity eop" where
  "enc_AssistantThreadActivity scope threadID = inner_read (AssistantThreadActivity_of scope threadID)"

end
