(* ===== verification/Encrypted_View.thy ===== *)
theory Encrypted_View
  imports Store_Encrypted
begin

text \<open>
  The plain store a wrapper stands for: \<open>clear\<close> decrypts every value of the inner store of an
  \<open>encryptedStore\<close> where it is stored (attachments excepted, whose bytes are checked against
  their digest when they are read). Mapping the values of nested Go maps commutes with the reads
  and writes of the store; this is what lets an operation of the wrapper be the same operation
  on the plain store, in the two theories that follow.
\<close>

section \<open>Mapping the values of Go maps\<close>

definition gmapk :: "('k \<Rightarrow> 'v \<Rightarrow> 'w) \<Rightarrow> ('k, 'v) gomap \<Rightarrow> ('k, 'w) gomap" where
  "gmapk f m = map (\<lambda>(k, v). (k, f k v)) m"

abbreviation gmap :: "('v \<Rightarrow> 'w) \<Rightarrow> ('k, 'v) gomap \<Rightarrow> ('k, 'w) gomap" where
  "gmap f \<equiv> gmapk (\<lambda>_. f)"

abbreviation gmap2 :: "('a \<Rightarrow> 'v \<Rightarrow> 'w) \<Rightarrow> ('a, ('b, 'v) gomap) gomap \<Rightarrow> ('a, ('b, 'w) gomap) gomap" where
  "gmap2 f \<equiv> gmapk (\<lambda>a. gmap (f a))"

lemma gmapk_Nil [simp]: "gmapk f [] = []"
  by (simp add: gmapk_def)

lemma gget_gmapk [simp]: "gget (gmapk f m) k = map_option (f k) (gget m k)"
  by (induction m) (auto simp: gmapk_def gget_def)

lemma gput_gmapk [simp]: "gmapk f (gput k v m) = gput k (f k v) (gmapk f m)"
  unfolding gmapk_def gput_def by (induction m) auto

lemma gmapk_delete: "AList.delete k (map (\<lambda>(k, v). (k, f k v)) m)
    = map (\<lambda>(k, v). (k, f k v)) (AList.delete k m)"
  by (induction m) auto

lemma gentries_gmapk [simp]: "gentries (gmapk f m) = gmapk f (gentries m)"
  unfolding gentries_def gmapk_def
  by (induction m rule: AList.clearjunk.induct) (auto simp: gmapk_delete)

lemma gvalues_gmap [simp]: "gvalues (gmap f m) = map f (gvalues m)"
  by (simp add: gvalues_def) (simp add: gmapk_def split_def)

lemma gread_gmap2 [simp]: "gread (gmap2 f m) a = gmap (f a) (gread m a)"
  by (simp add: gread_def split: option.split)

lemma gread_gmapk_list [simp]: "gread (gmapk (\<lambda>a. map (f a)) m) a = map (f a) (gread m a)"
  by (simp add: gread_def split: option.split)

lemma read2_gmap2 [simp]: "read2 (gmap2 f m) a b = map_option (f a) (read2 m a b)"
  by (simp add: read2_def)

lemma ensure_gmapk [simp]: "f a [] = [] \<Longrightarrow> gmapk f (ensure a m) = ensure a (gmapk f m)"
  by (simp add: ensure_def)

lemma put2_gmap2 [simp]: "gmap2 f (put2 a b v m) = put2 a b (f a v) (gmap2 f m)"
  by (simp add: put2_def)

lemma assign2_gmap2 [simp]: "assign2 a b (f a v) (gmap2 f m) = map_option (gmap2 f) (assign2 a b v m)"
  by (simp add: assign2_def split: option.split)

lemma slice2_gmap2 [simp]: "f a [] = [] \<Longrightarrow> slice2 (gmap2 f m) a b = f a (slice2 m a b)"
  by (simp add: slice2_def split: option.split)

lemma put3_gmap2 [simp]:
  "gmap2 (\<lambda>a. gmap (f a)) (put3 a b c v m) = put3 a b c (f a v) (gmap2 (\<lambda>a. gmap (f a)) m)"
  by (simp add: put3_def)

lemma read3_gmap2 [simp]: "read3 (gmap2 (\<lambda>a. gmap (f a)) m) a b c = map_option (f a) (read3 m a b c)"
  by (simp add: read3_def)

lemma slice3_gmap2 [simp]:
  "f a [] = [] \<Longrightarrow> slice3 (gmap2 (\<lambda>a. gmap (f a)) m) a b c = f a (slice3 m a b c)"
  by (simp add: slice3_def split: option.split)

lemma find_map_same: "(\<And>x. P (f x) = P x) \<Longrightarrow> find P (map f xs) = map_option f (find P xs)"
  by (induction xs) auto

lemma filter_map_same: "(\<And>x. P (f x) = P x) \<Longrightarrow> filter P (map f xs) = map f (filter P xs)"
  by (induction xs) auto

lemma insort_key_map: "(\<And>x. k (f x) = k x) \<Longrightarrow> map f (insort_key k x xs) = insort_key k (f x) (map f xs)"
  by (induction xs) auto

lemma sort_key_map_same: "(\<And>x. k (f x) = k x) \<Longrightarrow> sort_key k (map f xs) = map f (sort_key k xs)"
  by (induction xs) (auto simp: insort_key_map)

lemma rmap_Ok: "(\<And>x. x \<in> set xs \<Longrightarrow> f x = Ok (g x)) \<Longrightarrow> rmap f xs = Ok (map g xs)"
  by (induction xs) auto

fun rmap_res :: "('a \<Rightarrow> 'b) \<Rightarrow> 'a sres \<Rightarrow> 'b sres" where
  "rmap_res f (Ok x) = Ok (f x)"
| "rmap_res f (Err e) = Err e"
| "rmap_res f Panic = Panic"

section \<open>Views of the values\<close>

definition view_message :: "metadata_codec \<Rightarrow> key_ring \<Rightarrow> Scope \<Rightarrow> Message \<Rightarrow> Message" where
  "view_message mc keys scope m = (case decryptMessage mc keys scope m of Ok d \<Rightarrow> d | _ \<Rightarrow> m)"

definition view_blob :: "key_ring \<Rightarrow> Scope \<Rightarrow> string \<Rightarrow> string \<Rightarrow> string \<Rightarrow> string" where
  "view_blob keys scope i label v = (case decryptAssistantRunBlob keys scope i label v of Ok p \<Rightarrow> p | _ \<Rightarrow> v)"

definition view_run :: "key_ring \<Rightarrow> Scope \<Rightarrow> AssistantRun \<Rightarrow> AssistantRun" where
  "view_run keys scope r = r\<lparr>
     run_Checkpoint := view_blob keys scope (run_ID r) ''checkpoint'' (run_Checkpoint r),
     run_Audit := view_blob keys scope (run_ID r) ''audit'' (run_Audit r),
     run_Error := view_blob keys scope (run_ID r) ''error'' (run_Error r)\<rparr>"

definition view_run_event :: "key_ring \<Rightarrow> Scope \<Rightarrow> AssistantRunEvent \<Rightarrow> AssistantRunEvent" where
  "view_run_event keys scope e = e\<lparr>
     rev_Payload := view_blob keys scope (rev_RunID e) (assistantRunEventBlobLabel e) (rev_Payload e)\<rparr>"

definition view_item :: "key_ring \<Rightarrow> Scope \<Rightarrow> AssistantConversationItem \<Rightarrow> AssistantConversationItem" where
  "view_item keys scope x = x\<lparr>
     item_Payload := view_blob keys scope (item_RunID x) (''conversation:'' @ item_ID x) (item_Payload x)\<rparr>"

definition view_thread :: "key_ring \<Rightarrow> Scope \<Rightarrow> AssistantThread \<Rightarrow> AssistantThread" where
  "view_thread keys scope t = t\<lparr>
     thread_Title := view_blob keys scope (TrimSpace (thread_ID t)) ''thread-title'' (thread_Title t)\<rparr>"

definition view_turn :: "key_ring \<Rightarrow> Scope \<Rightarrow> AssistantTurn \<Rightarrow> AssistantTurn" where
  "view_turn keys scope t = (let i = turn_run_ID (turn_ThreadID t) (turn_ID t) in t\<lparr>
     turn_Checkpoint := view_blob keys scope i ''turn-checkpoint'' (turn_Checkpoint t),
     turn_Error := view_blob keys scope i ''turn-error'' (turn_Error t)\<rparr>)"

definition view_thread_event :: "key_ring \<Rightarrow> Scope \<Rightarrow> AssistantThreadEvent \<Rightarrow> AssistantThreadEvent" where
  "view_thread_event keys scope e = e\<lparr>
     tev_Payload := view_blob keys scope (turn_run_ID (tev_ThreadID e) (tev_TurnID e))
       (thread_event_label e) (tev_Payload e)\<rparr>"

section \<open>The plain store\<close>

definition clear :: "metadata_codec \<Rightarrow> key_ring \<Rightarrow> MemoryStore \<Rightarrow> MemoryStore" where
  "clear mc keys st = st\<lparr>
     messages := gmap2 (view_message mc keys) (messages st),
     assistantRuns := gmap2 (view_run keys) (assistantRuns st),
     assistantEvents := gmap2 (\<lambda>sc. map (view_run_event keys sc)) (assistantEvents st),
     assistantEventLookup := gmap2 (\<lambda>sc. map (view_run_event keys sc)) (assistantEventLookup st),
     conversationItems := gmapk (\<lambda>sc. map (view_item keys sc)) (conversationItems st),
     assistantThreads := gmap2 (view_thread keys) (assistantThreads st),
     assistantTurns := gmap2 (\<lambda>sc. gmap (view_turn keys sc)) (assistantTurns st),
     threadEvents := gmap2 (\<lambda>sc. map (view_thread_event keys sc)) (threadEvents st),
     threadTurnEvents := gmap2 (\<lambda>sc. map (view_thread_event keys sc)) (threadTurnEvents st),
     threadTurnEventIndex := gmap2 (\<lambda>sc. gmap (map (view_thread_event keys sc))) (threadTurnEventIndex st)\<rparr>"

text \<open>The plain store behind a wrapper, and that everything in the wrapper can be decrypted.\<close>

definition plain_store :: "metadata_codec \<Rightarrow> encryptedStore \<Rightarrow> MemoryStore" where
  "plain_store mc s = clear mc (enc_keys s) (enc_inner s)"

definition messages_open :: "metadata_codec \<Rightarrow> key_ring \<Rightarrow> MemoryStore \<Rightarrow> bool" where
  "messages_open mc keys st \<longleftrightarrow> (\<forall>scope i m. read2 (messages st) scope i = Some m \<longrightarrow>
     decryptMessage mc keys scope m = Ok (view_message mc keys scope m))"

definition runs_open :: "key_ring \<Rightarrow> MemoryStore \<Rightarrow> bool" where
  "runs_open keys st \<longleftrightarrow> (\<forall>scope i r. read2 (assistantRuns st) scope i = Some r \<longrightarrow>
     decryptAssistantRunBlobs keys scope r = Ok (view_run keys scope r))"

definition run_events_open :: "key_ring \<Rightarrow> MemoryStore \<Rightarrow> bool" where
  "run_events_open keys st \<longleftrightarrow> (\<forall>scope i. \<forall>e \<in> set (slice2 (assistantEvents st) scope i).
       decryptAssistantRunEvent keys scope e = Ok (view_run_event keys scope e))
     \<and> (\<forall>scope k. \<forall>e \<in> set (slice2 (assistantEventLookup st) scope k).
       decryptAssistantRunEvent keys scope e = Ok (view_run_event keys scope e))"

definition thread_events_open :: "key_ring \<Rightarrow> MemoryStore \<Rightarrow> bool" where
  "thread_events_open keys st \<longleftrightarrow> (\<forall>scope i. \<forall>e \<in> set (slice2 (threadEvents st) scope i).
       decryptAssistantThreadEvent keys scope e = Ok (view_thread_event keys scope e))"

definition all_open :: "metadata_codec \<Rightarrow> key_ring \<Rightarrow> MemoryStore \<Rightarrow> bool" where
  "all_open mc keys st \<longleftrightarrow> messages_open mc keys st \<and> runs_open keys st \<and> run_events_open keys st
     \<and> thread_events_open keys st"

text \<open>What a successful operation keeps of the wrapper.\<close>

definition stays_open :: "metadata_codec \<Rightarrow> encryptedStore \<Rightarrow> encryptedStore \<Rightarrow> bool" where
  "stays_open mc s s' \<longleftrightarrow> enc_keys s' = enc_keys s \<and> enc_active s' = enc_active s \<and> ring_ok s'
     \<and> all_open mc (enc_keys s) (enc_inner s')"

lemma all_openD:
  assumes "all_open mc keys st"
  shows "messages_open mc keys st" "runs_open keys st" "run_events_open keys st" "thread_events_open keys st"
  using assms by (simp_all add: all_open_def)

lemma view_run_fields [simp]:
  "run_ID (view_run keys scope r) = run_ID r" "run_ThreadID (view_run keys scope r) = run_ThreadID r"
  "run_ClientRequestID (view_run keys scope r) = run_ClientRequestID r"
  "run_Status (view_run keys scope r) = run_Status r" "run_Mode (view_run keys scope r) = run_Mode r"
  "run_ApprovalMode (view_run keys scope r) = run_ApprovalMode r"
  "run_Revision (view_run keys scope r) = run_Revision r"
  "run_RequestID (view_run keys scope r) = run_RequestID r"
  "run_ActiveMessageID (view_run keys scope r) = run_ActiveMessageID r"
  "run_UserMessageID (view_run keys scope r) = run_UserMessageID r"
  "run_CreatedAt (view_run keys scope r) = run_CreatedAt r" "run_UpdatedAt (view_run keys scope r) = run_UpdatedAt r"
  "run_AbortReason (view_run keys scope r) = run_AbortReason r"
  by (simp_all add: view_run_def)

lemma view_run_event_fields [simp]:
  "rev_RunID (view_run_event keys scope e) = rev_RunID e" "rev_Type (view_run_event keys scope e) = rev_Type e"
  "rev_Sequence (view_run_event keys scope e) = rev_Sequence e"
  by (simp_all add: view_run_event_def)

lemma view_thread_event_fields [simp]:
  "tev_ThreadID (view_thread_event keys scope e) = tev_ThreadID e"
  "tev_TurnID (view_thread_event keys scope e) = tev_TurnID e"
  "tev_Sequence (view_thread_event keys scope e) = tev_Sequence e"
  "tev_Type (view_thread_event keys scope e) = tev_Type e"
  by (simp_all add: view_thread_event_def)

end
