(* ===== verification/Refine_Messages.thy ===== *)
theory Refine_Messages
  imports Encrypted_View
begin

text \<open>
  The transcript through the wrapper: appending a message to the wrapper is appending it to the
  plain store, and the three readers return what they return on the plain store.
\<close>

section \<open>Decryption and the fields the store sets\<close>

definition stamp :: "time \<Rightarrow> time \<Rightarrow> string \<Rightarrow> string \<Rightarrow> Message \<Rightarrow> Message" where
  "stamp created updated name uid m = m\<lparr>msg_ProjectName := name, msg_ProjectUID := uid,
     msg_CreatedAt := created, msg_UpdatedAt := updated\<rparr>"

lemma stamp_fields [simp]:
  "msg_Content (stamp a b p q m) = msg_Content m" "msg_Metadata (stamp a b p q m) = msg_Metadata m"
  "msg_ContentEncrypted (stamp a b p q m) = msg_ContentEncrypted m"
  "msg_ContentKeyID (stamp a b p q m) = msg_ContentKeyID m"
  "messageAAD scope (stamp a b p q m) = messageAAD scope m"
  "messageMetadataAAD scope (stamp a b p q m) = messageMetadataAAD scope m"
  "(stamp a b p q m)\<lparr>msg_Metadata := md\<rparr> = stamp a b p q (m\<lparr>msg_Metadata := md\<rparr>)"
  "(stamp a b p q m)\<lparr>msg_Content := t, msg_ContentEncrypted := e\<rparr>
     = stamp a b p q (m\<lparr>msg_Content := t, msg_ContentEncrypted := e\<rparr>)"
  by (simp_all add: stamp_def messageAAD_def messageMetadataAAD_def)

lemma prepareMessage_stamp: "prepareMessage now scope m =
    stamp (time_or (msg_CreatedAt m) now) (time_or (msg_UpdatedAt m) (time_or (msg_CreatedAt m) now))
      (ProjectName scope) (ProjectUID scope) m"
  by (simp add: prepareMessage_def stamp_def Let_def)

lemma rbind_Ok_stamp:
  "rbind (rbind r f) (\<lambda>d. Ok (stamp a b p q d)) = rbind r (\<lambda>x. rbind (f x) (\<lambda>d. Ok (stamp a b p q d)))"
  by (rule rbind_assoc)

lemma decryptMessageMetadata_stamp:
  "decryptMessageMetadata mc keys scope (stamp a b p q m)
    = rbind (decryptMessageMetadata mc keys scope m) (\<lambda>d. Ok (stamp a b p q d))"
  by (cases "parseEncryptedMessageMetadata (msg_Metadata m)")
    (auto simp: decryptMessageMetadata_def rbind_assoc intro!: arg_cong2 [of _ _ _ _ rbind] ext
      split: option.splits)

lemma decryptMessage_stamp:
  "decryptMessage mc keys scope (stamp a b p q m)
    = rbind (decryptMessage mc keys scope m) (\<lambda>d. Ok (stamp a b p q d))"
  by (auto simp: decryptMessage_def rbind_assoc decryptMessageMetadata_stamp
      intro!: arg_cong2 [of _ _ _ _ rbind] ext)

text \<open>Decryption keeps everything but the content and the metadata.\<close>

lemma decryptMessageMetadata_keeps:
  "decryptMessageMetadata mc keys scope m = Ok d \<Longrightarrow> d = m\<lparr>msg_Metadata := msg_Metadata d\<rparr>"
  by (auto simp: decryptMessageMetadata_def split: if_splits option.splits elim!: rbind.elims)

lemma decryptMessage_keeps:
  assumes "decryptMessage mc keys scope m = Ok d"
  shows "sealed_of m d"
proof -
  have "\<exists>n. decryptMessageMetadata mc keys scope n = Ok d
      \<and> (n = m \<or> (\<exists>t. n = m\<lparr>msg_Content := t, msg_ContentEncrypted := False\<rparr>))"
    using assms by (force simp: decryptMessage_def split: if_splits elim!: rbind.elims)
  then obtain n where n: "decryptMessageMetadata mc keys scope n = Ok d"
    "n = m \<or> (\<exists>t. n = m\<lparr>msg_Content := t, msg_ContentEncrypted := False\<rparr>)" by blast
  from decryptMessageMetadata_keeps [OF n(1)]
  obtain md where "d = n\<lparr>msg_Metadata := md\<rparr>" by blast
  with n(2) show ?thesis by (auto simp: sealed_of_def)
qed

lemma view_message_keeps: "sealed_of m (view_message mc keys scope m)"
  using decryptMessage_keeps by (auto simp: view_message_def split: res.split)

lemmas view_message_fields [simp] = sealed_of_fields(1-5) [OF view_message_keeps]

lemma view_message_key [simp]: "message_key (view_message mc keys scope m) = message_key m"
  by (simp add: message_key_def)

lemma view_prepareMessage:
  "view_message mc keys scope (prepareMessage now scope m) = prepareMessage now scope (view_message mc keys scope m)"
proof -
  have "view_message mc keys scope (stamp a b p q m) = stamp a b p q (view_message mc keys scope m)" for a b p q
    by (auto simp: view_message_def decryptMessage_stamp split: res.split)
  then show ?thesis by (simp add: prepareMessage_stamp)
qed

lemma decrypt_prepareMessage:
  "decryptMessage mc keys scope m = Ok d \<Longrightarrow>
    decryptMessage mc keys scope (prepareMessage now scope m) = Ok (prepareMessage now scope d)"
  using decryptMessage_keeps [of mc keys scope m d]
  by (simp add: prepareMessage_stamp decryptMessage_stamp sealed_of_fields)

section \<open>Refinement\<close>

lemma AppendMessage_clear:
  assumes "AppendMessage now scope msg st = (r, st')"
  shows "AppendMessage now scope (view_message mc keys scope msg) (clear mc keys st)
    = (r, clear mc keys st')"
  using assms by (auto simp: AppendMessage_def clear_def view_prepareMessage [symmetric] Let_def read2_ensure
      split: option.splits if_splits)

lemma sort_sortedMessages: "sortedMessages (gmap (view_message mc keys scope) ms)
    = map (view_message mc keys scope) (sortedMessages ms)"
  by (simp add: sortedMessages_def sort_key_map_same)

text \<open>What the wrapper does to a caller's message: after decryption the key ID stays.\<close>

definition stored_as :: "encryptedStore \<Rightarrow> Message \<Rightarrow> Message" where
  "stored_as s m = (if msg_Content m = [] then m else m\<lparr>msg_ContentKeyID := enc_active s\<rparr>)"

lemma encryptMessage_view:
  assumes "encryptMessage mc scope m s = (Ok c, s')" "ring_ok s" "clear_message mc m"
  shows "decryptMessage mc (enc_keys s) scope c = Ok (stored_as s m)" "sealed_of m c" "used_random s s'"
    "view_message mc (enc_keys s) scope c = stored_as s m"
  using assms
  by (cases rule: encryptMessage_cases;
      auto simp: view_message_def stored_as_def Message.equality split: if_splits)+

text \<open>\<open>AppendMessage\<close> of the wrapper is \<open>AppendMessage\<close> of the plain store.\<close>

lemma enc_AppendMessage_refines:
  assumes op: "enc_AppendMessage mc now scope m s = (r, s')" and ok: "ring_ok s"
    and clear: "clear_message mc m" and msgs: "all_open mc (enc_keys s) (enc_inner s)"
  shows "(\<exists>e. r = Err e) \<and> used_random s s'
    \<or> AppendMessage now scope (stored_as s m) (plain_store mc s) = (r, plain_store mc s')
      \<and> stays_open mc s s'"
proof (cases "Scope_validate scope")
  case (Some e)
  with op show ?thesis by (auto simp: enc_AppendMessage_def ebind_def require_scope_def)
next
  case None
  obtain q t where em: "encryptMessage mc scope m s = (q, t)" by fastforce
  then show ?thesis using ok clear
  proof (cases rule: encryptMessage_cases)
    case (no_random e)
    with None op em show ?thesis by (auto simp: enc_AppendMessage_def ebind_def require_scope_def)
  next
    case (sealed c)
    note v = encryptMessage_view [OF em [unfolded sealed(1)] ok clear]
    note fields = used_random_fields [OF v(3)]
    obtain st where ap: "AppendMessage now scope c (enc_inner s) = (r, st)" and s': "s' = t\<lparr>enc_inner := st\<rparr>"
      using op None em sealed(1) fields(1)
      by (auto simp: enc_AppendMessage_def ebind_def require_scope_def inner_op_def split: prod.splits)
    have "messages_open mc (enc_keys s) st"
      using all_openD(1) [OF msgs] decrypt_prepareMessage [OF v(1), of now]
      by (auto simp: messages_open_def AppendMessage_read2 [OF ap] view_message_def split: if_splits)
    moreover have "assistantRuns st = assistantRuns (enc_inner s)"
      "assistantEvents st = assistantEvents (enc_inner s)"
      "assistantEventLookup st = assistantEventLookup (enc_inner s)"
      "threadEvents st = threadEvents (enc_inner s)"
      by (subst AppendMessage_frame [OF ap]; simp)+
    ultimately have "all_open mc (enc_keys s) st"
      using msgs by (simp add: all_open_def runs_open_def run_events_open_def thread_events_open_def)
    with AppendMessage_clear [OF ap, of mc "enc_keys s"] show ?thesis
      using fields ok by (auto simp: s' v(4) ring_ok_def plain_store_def stays_open_def)
  qed
qed

text \<open>A listing of the wrapper is the listing of the plain store.\<close>

lemma page_window_map: "1 \<le> limit \<Longrightarrow> page_window after limit (map f all)
    = (case page_window (map_option (\<lambda>P x. P (f x)) after) limit all of
        (items, next_item) \<Rightarrow> (map f items, map_option f next_item))"
  by (cases after) (auto simp: page_window_def Let_def takeWhile_map comp_def take_map drop_map last_map)

lemma page_window_set: "page_window after limit all = (items, nx) \<Longrightarrow> set items \<subseteq> set all"
  by (auto simp: page_window_def Let_def split: if_splits dest!: in_set_takeD in_set_dropD)

fun rmap_page :: "(Message \<Rightarrow> Message) \<Rightarrow> Page sres \<Rightarrow> Page sres" where
  "rmap_page f (Ok page) = Ok (page\<lparr>page_Items := map f (page_Items page)\<rparr>)"
| "rmap_page f r = r"

lemma ListMessages_clear: "ListMessages codec scope limit cursor (clear mc keys st)
    = rmap_page (view_message mc keys scope) (ListMessages codec scope limit cursor st)"
  by (auto simp: ListMessages_def clear_def Let_def sort_sortedMessages
      page_window_map [OF normalizeLimit_bounds(1)]
      split: option.splits sum.splits prod.splits)

lemma LoadRecentMessages_clear: "LoadRecentMessages scope limit (clear mc keys st)
    = rmap_res (map (view_message mc keys scope)) (LoadRecentMessages scope limit st)"
  by (auto simp: LoadRecentMessages_def clear_def Let_def sort_sortedMessages drop_map
      split: option.splits)

lemma collect_messages_map:
  "collect_messages_by_id (gmap f ms) seen ids = map f (collect_messages_by_id ms seen ids)"
  by (induction ms seen ids rule: collect_messages_by_id.induct) (auto simp: Let_def split: option.splits)

lemma collect_messages_set:
  "m \<in> set (collect_messages_by_id ms seen ids) \<Longrightarrow> \<exists>k. gget ms k = Some m"
  by (induction ms seen ids rule: collect_messages_by_id.induct)
    (auto simp: Let_def split: option.splits if_splits)

lemma GetMessagesByIDs_clear: "GetMessagesByIDs scope ids (clear mc keys st)
    = rmap_res (map (view_message mc keys scope)) (GetMessagesByIDs scope ids st)"
  by (auto simp: GetMessagesByIDs_def clear_def collect_messages_map split: option.splits)

lemma stored_open:
  "messages_open mc keys st \<Longrightarrow> gget (gread (messages st) scope) k = Some m \<Longrightarrow>
    decryptMessage mc keys scope m = Ok (view_message mc keys scope m)"
  by (auto simp: messages_open_def read2_def)

lemma enc_listings_refine:
  assumes all: "all_open mc (enc_keys s) (enc_inner s)"
  shows "enc_ListMessages mc codec scope limit cursor s = (ListMessages codec scope limit cursor (plain_store mc s), s)"
    and "enc_LoadRecentMessages mc scope limit s = (LoadRecentMessages scope limit (plain_store mc s), s)"
    and "enc_GetMessagesByIDs mc scope ids s = (GetMessagesByIDs scope ids (plain_store mc s), s)"
proof -
  let ?st = "enc_inner s" and ?v = "view_message mc (enc_keys s) scope"
  have dec: "rmap (decryptMessage mc (enc_keys s) scope) xs = Ok (map ?v xs)"
    if "set xs \<subseteq> {m. \<exists>k. gget (gread (messages ?st) scope) k = Some m}" for xs
    by (rule rmap_Ok) (use that stored_open [OF all_openD(1) [OF all]] in blast)
  have "set (page_Items page) \<subseteq> {m. \<exists>k. gget (gread (messages ?st) scope) k = Some m}"
    if "ListMessages codec scope limit cursor ?st = Ok page" for page
    using that page_window_set set_sortedMessages
    by (fastforce simp: ListMessages_def Let_def split: option.splits sum.splits prod.splits)
  then show "enc_ListMessages mc codec scope limit cursor s = (ListMessages codec scope limit cursor (plain_store mc s), s)"
    unfolding plain_store_def ListMessages_clear
    by (cases "ListMessages codec scope limit cursor ?st")
      (simp_all add: enc_ListMessages_def ebind_def inner_read_def decrypt_messages_def opened_def dec eret_def)
  have "set xs \<subseteq> {m. \<exists>k. gget (gread (messages ?st) scope) k = Some m}"
    if "LoadRecentMessages scope limit ?st = Ok xs" for xs
    using that set_sortedMessages
    by (auto simp: LoadRecentMessages_def Let_def split: option.splits if_splits dest!: in_set_dropD)
  then show "enc_LoadRecentMessages mc scope limit s = (LoadRecentMessages scope limit (plain_store mc s), s)"
    unfolding plain_store_def LoadRecentMessages_clear
    by (cases "LoadRecentMessages scope limit ?st")
      (simp_all add: enc_LoadRecentMessages_def ebind_def inner_read_def decrypt_messages_def opened_def dec)
  have "set xs \<subseteq> {m. \<exists>k. gget (gread (messages ?st) scope) k = Some m}"
    if "GetMessagesByIDs scope ids ?st = Ok xs" for xs
    using that collect_messages_set by (fastforce simp: GetMessagesByIDs_def split: option.splits)
  then show "enc_GetMessagesByIDs mc scope ids s = (GetMessagesByIDs scope ids (plain_store mc s), s)"
    unfolding plain_store_def GetMessagesByIDs_clear
    by (cases "GetMessagesByIDs scope ids ?st")
      (simp_all add: enc_GetMessagesByIDs_def ebind_def inner_read_def decrypt_messages_def opened_def dec)
qed

end
