(* ===== verification/Refine_Runs.thy ===== *)
theory Refine_Runs
  imports Refine_Messages
begin

text \<open>
  Runs and run events through the wrapper: creating, saving and claiming a run, and appending
  and listing its events, are the same operations on the plain store, up to the errors of an
  exhausted random source.
\<close>

section \<open>Encrypting runs\<close>

lemma blob_view: "decryptAssistantRunBlob keys scope i label c = Ok p \<Longrightarrow> view_blob keys scope i label c = p"
  by (simp add: view_blob_def)

text \<open>A run as a caller hands it in: no blob is sealed, and its error is JSON if there is one.\<close>

definition clear_run :: "AssistantRun \<Rightarrow> bool" where
  "clear_run r \<longleftrightarrow> \<not> is_sealed (run_Checkpoint r) \<and> \<not> is_sealed (run_Audit r) \<and> \<not> is_sealed (run_Error r)
     \<and> (run_Error r \<noteq> [] \<longrightarrow> json_Valid (run_Error r))"

text \<open>How an encrypted run relates to the run.\<close>

definition sealed_run :: "key_ring \<Rightarrow> Scope \<Rightarrow> AssistantRun \<Rightarrow> AssistantRun \<Rightarrow> bool" where
  "sealed_run keys scope r c \<longleftrightarrow> c = r\<lparr>run_Checkpoint := run_Checkpoint c, run_Audit := run_Audit c,
       run_Error := run_Error c\<rparr>
     \<and> decryptAssistantRunBlobs keys scope c = Ok r \<and> view_run keys scope c = r
     \<and> (run_Error c \<noteq> [] \<longrightarrow> json_Valid (run_Error c))"

lemma blob_or_random:
  assumes "encryptAssistantRunBlob scope i label p s = (r, s')" "ring_ok s" "\<not> is_sealed p"
  shows "(\<exists>e. r = Err e) \<and> used_random s s'
    \<or> (\<exists>c. r = Ok c \<and> used_random s s' \<and> decryptAssistantRunBlob (enc_keys s) scope i label c = Ok p
        \<and> (c \<noteq> [] \<longrightarrow> json_Valid c) \<and> (p \<noteq> [] \<longrightarrow> c \<noteq> []))"
  using assms(1,2)
  by (cases rule: encryptAssistantRunBlob_cases) (use assms(3) in \<open>auto simp: decryptAssistantRunBlob_def\<close>)

lemma encryptAssistantRunBlobs_cases:
  assumes op: "encryptAssistantRunBlobs scope r s = (q, s')" and ok: "ring_ok s" and clear: "clear_run r"
  obtains (no_random) e where "q = Err e" "used_random s s'"
  | (sealed) c where "q = Ok c" "used_random s s'" "sealed_run (enc_keys s) scope r c"
proof -
  from clear have ns: "\<not> is_sealed (run_Checkpoint r)" "\<not> is_sealed (run_Audit r)" "\<not> is_sealed (run_Error r)"
    by (simp_all add: clear_run_def)
  obtain q1 s1 where e1: "encryptAssistantRunBlob scope (run_ID r) ''checkpoint'' (run_Checkpoint r) s = (q1, s1)"
    by fastforce
  note b1 = blob_or_random [OF e1 ok ns(1)]
  show thesis
  proof (cases "\<exists>c. q1 = Ok c")
    case False
    with b1 op e1 no_random show thesis by (auto simp: encryptAssistantRunBlobs_def ebind_def)
  next
    case True
    then obtain c1 where c1: "q1 = Ok c1" by blast
    with b1 have u1: "used_random s s1" by simp
    note f1 = used_random_fields [OF u1]
    obtain q2 s2 where e2: "encryptAssistantRunBlob scope (run_ID r) ''audit'' (run_Audit r) s1 = (q2, s2)"
      by fastforce
    note b2 = blob_or_random [OF e2 _ ns(2)]
    show thesis
    proof (cases "\<exists>c. q2 = Ok c")
      case False
      with b2 op e1 e2 c1 ok f1 no_random used_random_trans [OF u1] show thesis
        by (auto simp: encryptAssistantRunBlobs_def ebind_def)
    next
      case True
      then obtain c2 where c2: "q2 = Ok c2" by blast
      with b2 ok f1 have u2: "used_random s s2" using used_random_trans [OF u1] by simp
      note f2 = used_random_fields [OF u2]
      obtain q3 s3 where e3: "encryptAssistantRunBlob scope (run_ID r) ''error'' (run_Error r) s2 = (q3, s3)"
        by fastforce
      note b3 = blob_or_random [OF e3 _ ns(3)]
      show thesis
      proof (cases "\<exists>c. q3 = Ok c")
        case False
        with b3 op e1 e2 e3 c1 c2 ok f2 no_random used_random_trans [OF u2] show thesis
          by (auto simp: encryptAssistantRunBlobs_def ebind_def)
      next
        case True
        then obtain c3 where c3: "q3 = Ok c3" by blast
        show thesis
        proof (rule sealed)
          show "q = Ok (r\<lparr>run_Checkpoint := c1, run_Audit := c2, run_Error := c3\<rparr>)" "used_random s s'"
            using op e1 e2 e3 c1 c2 c3 b3 ok f2 used_random_trans [OF u2]
            by (auto simp: encryptAssistantRunBlobs_def ebind_def eret_def)
          show "sealed_run (enc_keys s) scope r (r\<lparr>run_Checkpoint := c1, run_Audit := c2, run_Error := c3\<rparr>)"
            using b1 b2 b3 c1 c2 c3 ok f1 f2
            by (auto simp: sealed_run_def view_run_def blob_view decryptAssistantRunBlobs_def)
        qed
      qed
    qed
  qed
qed

lemma sealed_run_fields:
  assumes "sealed_run keys scope r c"
  shows "view_run keys scope c = r" "decryptAssistantRunBlobs keys scope c = Ok r"
    "run_Error c \<noteq> [] \<longrightarrow> json_Valid (run_Error c)"
  using assms by (simp_all add: sealed_run_def)

section \<open>Runs on the plain store\<close>

lemma view_prepareAssistantRun:
  "view_run keys scope (prepareAssistantRun now scope r) = prepareAssistantRun now scope (view_run keys scope r)"
  by (simp add: prepareAssistantRun_def view_run_def Let_def split: sum.split)

text \<open>An error of the run that is JSON both sealed and clear.\<close>

definition errors_valid :: "key_ring \<Rightarrow> Scope \<Rightarrow> AssistantRun \<Rightarrow> bool" where
  "errors_valid keys scope c \<longleftrightarrow> (run_Error c \<noteq> [] \<longrightarrow> json_Valid (run_Error c))
     \<and> (run_Error (view_run keys scope c) \<noteq> [] \<longrightarrow> json_Valid (run_Error (view_run keys scope c)))"

lemma sealed_run_errors: "sealed_run keys scope r c \<Longrightarrow> clear_run r \<Longrightarrow> errors_valid keys scope c"
  by (auto simp: errors_valid_def sealed_run_def clear_run_def)

lemma validateAssistantRun_view:
  "errors_valid keys scope c \<Longrightarrow> validateAssistantRun (view_run keys scope c) = validateAssistantRun c"
  by (auto simp: validateAssistantRun_def check_def errors_valid_def validateAssistantRunMode_def)

lemma validateNewAssistantRun_view:
  "errors_valid keys scope c \<Longrightarrow>
    validateNewAssistantRun (view_message mc keys scope u) (view_message mc keys scope a) (view_run keys scope c)
      = validateNewAssistantRun u a c"
  by (simp add: validateNewAssistantRun_def validateAssistantRun_view)

lemma validateUniqueAssistantRun_view:
  "validateUniqueAssistantRun (gmap (view_run keys scope) runs) (view_run keys scope' r)
    = validateUniqueAssistantRun runs r"
  by (simp add: validateUniqueAssistantRun_def) (simp add: gmapk_def comp_def split_def)

lemma CreateAssistantRun_clear:
  assumes op: "CreateAssistantRun now scope u a c st = (r, st')" and errs: "errors_valid keys scope c"
  shows "CreateAssistantRun now scope (view_message mc keys scope u) (view_message mc keys scope a)
      (view_run keys scope c) (clear mc keys st) = (rmap_res (view_run keys scope) r, clear mc keys st')"
proof -
  have f: "find (\<lambda>existing. run_ThreadID existing = t \<and> run_ClientRequestID existing = q)
      (map (view_run keys scope) rs) = map_option (view_run keys scope)
        (find (\<lambda>existing. run_ThreadID existing = t \<and> run_ClientRequestID existing = q) rs)" for t q rs
    by (rule find_map_same) simp
  show ?thesis
    using op
    by (auto simp: CreateAssistantRun_def validateNewAssistantRun_view [OF errs] Let_def clear_def f
        view_prepareMessage [symmetric] view_prepareAssistantRun [symmetric] validateUniqueAssistantRun_view
        split: option.splits if_splits)
qed

lemma view_run_saved:
  "view_run keys scope (c\<lparr>run_CreatedAt := t, run_ClientRequestID := q, run_UserMessageID := m, run_Revision := n\<rparr>)
    = (view_run keys scope c)\<lparr>run_CreatedAt := t, run_ClientRequestID := q, run_UserMessageID := m, run_Revision := n\<rparr>"
  "view_run keys scope (c\<lparr>run_Status := w, run_UpdatedAt := t\<rparr>)
    = (view_run keys scope c)\<lparr>run_Status := w, run_UpdatedAt := t\<rparr>"
  by (simp_all add: view_run_def)

lemma SaveAssistantRun_clear:
  assumes op: "SaveAssistantRun now scope c st = (r, st')" and errs: "errors_valid keys scope c"
  shows "SaveAssistantRun now scope (view_run keys scope c) (clear mc keys st) = (r, clear mc keys st')"
proof (cases "Scope_validate scope = None \<and> validateAssistantRun c = None")
  case False
  with op show ?thesis
    by (auto simp: SaveAssistantRun_def validateAssistantRun_view [OF errs] split: option.splits)
next
  case True
  note valid = conjunct1 [OF True] conjunct2 [OF True] validateAssistantRun_view [OF errs]
  let ?p = "prepareAssistantRun now scope c"
  note simps = valid Let_def clear_def view_prepareAssistantRun [symmetric] view_run_saved [symmetric]
    validateUniqueAssistantRun_view read2_ensure
  show ?thesis
  proof (cases "read2 (assistantRuns st) scope (run_ID ?p)")
    case None
    with op show ?thesis
      by (cases "validateUniqueAssistantRun (gread (ensure scope (assistantRuns st)) scope) ?p")
        (auto simp: SaveAssistantRun_def simps gread_ensure)
  next
    case (Some old)
    let ?n = "?p\<lparr>run_CreatedAt := run_CreatedAt old, run_ClientRequestID := run_ClientRequestID old,
      run_UserMessageID := run_UserMessageID old, run_Revision := run_Revision old\<rparr>"
    from Some op show ?thesis
      by (cases "validateUniqueAssistantRun (gread (ensure scope (assistantRuns st)) scope) ?n")
        (auto simp: SaveAssistantRun_def simps gread_ensure split: if_splits)
  qed
qed

lemma ClaimAssistantRun_clear:
  assumes op: "ClaimAssistantRun clock scope i q now st = (r, st')"
  shows "ClaimAssistantRun clock scope i q now (clear mc keys st)
    = (rmap_res (view_run keys scope) r, clear mc keys st')"
  using op
  by (auto simp: ClaimAssistantRun_def Let_def clear_def view_run_saved [symmetric]
      split: option.splits if_splits)

section \<open>Runs through the wrapper\<close>

text \<open>Whether a run can be decrypted depends on its ID and its blobs alone.\<close>

lemma run_open_iff:
  "decryptAssistantRunBlobs keys scope r = Ok (view_run keys scope r) \<longleftrightarrow>
     res_ok (decryptAssistantRunBlob keys scope (run_ID r) ''checkpoint'' (run_Checkpoint r))
     \<and> res_ok (decryptAssistantRunBlob keys scope (run_ID r) ''audit'' (run_Audit r))
     \<and> res_ok (decryptAssistantRunBlob keys scope (run_ID r) ''error'' (run_Error r))"
  by (cases "decryptAssistantRunBlob keys scope (run_ID r) ''checkpoint'' (run_Checkpoint r)";
      cases "decryptAssistantRunBlob keys scope (run_ID r) ''audit'' (run_Audit r)";
      cases "decryptAssistantRunBlob keys scope (run_ID r) ''error'' (run_Error r)")
    (simp_all add: decryptAssistantRunBlobs_def view_run_def view_blob_def)

definition same_blobs :: "AssistantRun \<Rightarrow> AssistantRun \<Rightarrow> bool" where
  "same_blobs r r' \<longleftrightarrow> run_ID r' = run_ID r \<and> run_Checkpoint r' = run_Checkpoint r
     \<and> run_Audit r' = run_Audit r \<and> run_Error r' = run_Error r"

lemma same_blobs_open:
  "same_blobs r r' \<Longrightarrow> decryptAssistantRunBlobs keys scope r = Ok (view_run keys scope r) \<Longrightarrow>
    decryptAssistantRunBlobs keys scope r' = Ok (view_run keys scope r')"
  by (simp add: run_open_iff same_blobs_def)

lemma same_blobs_prepare [simp]: "same_blobs r (prepareAssistantRun now scope r)"
  by (simp add: same_blobs_def prepareAssistantRun_def Let_def)

lemma runs_open_put2:
  assumes "runs_open keys st" "assistantRuns st' = put2 scope i r (assistantRuns st)"
    "decryptAssistantRunBlobs keys scope r = Ok (view_run keys scope r)"
  shows "runs_open keys st'"
  using assms by (auto simp: runs_open_def gomap_simps)

lemma all_open_same_logs:
  assumes "all_open mc keys st" "messages_open mc keys st'" "runs_open keys st'"
    "assistantEvents st' = assistantEvents st" "assistantEventLookup st' = assistantEventLookup st"
    "threadEvents st' = threadEvents st"
  shows "all_open mc keys st'"
  using assms by (simp add: all_open_def run_events_open_def thread_events_open_def)

lemma runs_open_D: "runs_open keys st \<Longrightarrow> gget (gread (assistantRuns st) scope) i = Some r \<Longrightarrow>
    decryptAssistantRunBlobs keys scope r = Ok (view_run keys scope r)"
  by (simp add: runs_open_def read2_def)

lemma runs_open_value: "runs_open keys st \<Longrightarrow> r \<in> set (gvalues (gread (assistantRuns st) scope)) \<Longrightarrow>
    decryptAssistantRunBlobs keys scope r = Ok (view_run keys scope r)"
  using runs_open_D by (metis gvalues_iff)

lemma find_value: "find P (gvalues m) = Some x \<Longrightarrow> \<exists>k. gget m k = Some x"
  by (metis find_Some_iff gvalues_iff nth_mem)

lemma CreateAssistantRun_open:
  assumes op: "CreateAssistantRun now scope u a c st = (r, st')" and opens: "all_open mc keys st"
    and u: "decryptMessage mc keys scope u = Ok (view_message mc keys scope u)"
    and a: "decryptMessage mc keys scope a = Ok (view_message mc keys scope a)"
    and c: "decryptAssistantRunBlobs keys scope c = Ok (view_run keys scope c)"
  shows "all_open mc keys st' \<and> (\<forall>x. r = Ok x \<longrightarrow> decryptAssistantRunBlobs keys scope x = Ok (view_run keys scope x))"
proof -
  let ?p = "prepareAssistantRun now scope c"
  let ?new = "st\<lparr>messages := put2 scope (msg_ID a) (prepareMessage now scope a)
      (put2 scope (msg_ID u) (prepareMessage now scope u) (messages st)),
    assistantRuns := put2 scope (run_ID ?p) ?p (assistantRuns st)\<rparr>"
  note runs = all_openD(2) [OF opens]
  have p: "decryptAssistantRunBlobs keys scope ?p = Ok (view_run keys scope ?p)"
    by (rule same_blobs_open [OF _ c]) simp
  have "(\<exists>e. r = Err e) \<and> st' = st
      \<or> (\<exists>x k. gget (gread (assistantRuns st) scope) k = Some x \<and> r = Ok x) \<and> st' = st
      \<or> r = Ok ?p \<and> st' = ?new"
    using op by (auto simp: CreateAssistantRun_def Let_def split: option.splits if_splits
        dest!: find_value)
  then show ?thesis
  proof (elim disjE conjE)
    assume eq: "r = Ok ?p" "st' = ?new"
    have "messages_open mc keys st'"
      using all_openD(1) [OF opens] decrypt_prepareMessage [OF u, of now] decrypt_prepareMessage [OF a, of now]
      by (auto simp: eq messages_open_def gomap_simps view_prepareMessage)
    moreover have "runs_open keys st'"
      by (rule runs_open_put2 [OF runs _ p, where i = "run_ID ?p"]) (simp add: eq)
    ultimately have "all_open mc keys st'" by (rule all_open_same_logs [OF opens]) (simp_all add: eq)
    then show ?thesis using eq p by simp
  qed (use opens runs_open_D [OF runs] in auto)
qed

text \<open>One run operation that encrypts its arguments: errors of the random source aside, the plain one.\<close>

lemma opened_result:
  assumes "\<forall>x. r = Ok x \<longrightarrow> decryptAssistantRunBlobs keys scope x = Ok (view_run keys scope x)"
  shows "rbind r (decryptAssistantRunBlobs keys scope) = rmap_res (view_run keys scope) r"
  using assms by (cases r) auto

lemma ebind_inner_decrypt:
  "ebind (inner_op f) (decrypt_run scope) s
    = (rbind (fst (f (enc_inner s))) (decryptAssistantRunBlobs (enc_keys s) scope),
       s\<lparr>enc_inner := snd (f (enc_inner s))\<rparr>)"
  by (cases "f (enc_inner s)"; cases "fst (f (enc_inner s))")
    (auto simp: ebind_def inner_op_def decrypt_run_def opened_def)

lemma enc_CreateAssistantRun_refines:
  assumes op: "enc_CreateAssistantRun mc now scope u a run s = (r, s')" and ok: "ring_ok s"
    and clear: "clear_message mc u" "clear_message mc a" "clear_run run"
    and opens: "all_open mc (enc_keys s) (enc_inner s)"
  shows "(\<exists>e. r = Err e) \<and> used_random s s'
    \<or> CreateAssistantRun now scope (stored_as s u) (stored_as s a) run (plain_store mc s) = (r, plain_store mc s')
      \<and> stays_open mc s s'"
proof (cases "Scope_validate scope")
  case (Some e)
  with op show ?thesis by (auto simp: enc_CreateAssistantRun_def ebind_def require_scope_def)
next
  case None
  obtain q1 s1 where e1: "encryptMessage mc scope u s = (q1, s1)" by fastforce
  from e1 ok clear(1) show ?thesis
  proof (cases rule: encryptMessage_cases)
    case (no_random e)
    with None op e1 show ?thesis by (auto simp: enc_CreateAssistantRun_def ebind_def require_scope_def)
  next
    case (sealed c1)
    note u1 = sealed(2)
    note f1 = used_random_fields [OF u1]
    note v1 = encryptMessage_view [OF e1 [unfolded sealed(1)] ok clear(1)]
    have ok1: "ring_ok s1" using ok f1 by simp
    obtain q2 s2 where e2: "encryptMessage mc scope a s1 = (q2, s2)" by fastforce
    from e2 ok1 clear(2) show ?thesis
    proof (cases rule: encryptMessage_cases)
      case (no_random e)
      with None op e1 e2 sealed(1) used_random_trans [OF u1] show ?thesis
        by (auto simp: enc_CreateAssistantRun_def ebind_def require_scope_def)
    next
      case S2: (sealed c2)
      note u2 = used_random_trans [OF u1 S2(2)]
      note f2 = used_random_fields [OF u2]
      note v2 = encryptMessage_view [OF e2 [unfolded S2(1)] ok1 clear(2)]
      have ok2: "ring_ok s2" using ok f2 by simp
      obtain q3 s3 where e3: "encryptAssistantRunBlobs scope run s2 = (q3, s3)" by fastforce
      from e3 ok2 clear(3) show ?thesis
      proof (cases rule: encryptAssistantRunBlobs_cases)
        case (no_random e)
        with None op e1 e2 e3 sealed(1) S2(1) used_random_trans [OF u2] show ?thesis
          by (auto simp: enc_CreateAssistantRun_def ebind_def require_scope_def)
      next
        case S3: (sealed c3)
        note f3 = used_random_fields [OF used_random_trans [OF u2 S3(2)]]
        have sr: "sealed_run (enc_keys s) scope run c3" using S3(3) f2 by simp
        obtain q st where ap: "CreateAssistantRun now scope c1 c2 c3 (enc_inner s) = (q, st)" by fastforce
        have r: "r = rbind q (decryptAssistantRunBlobs (enc_keys s) scope)" "s' = s3\<lparr>enc_inner := st\<rparr>"
          using op None e1 e2 e3 sealed(1) S2(1) S3(1) ap f3
          by (auto simp: enc_CreateAssistantRun_def ebind_inner_decrypt require_scope_def ebind_def [of "require_scope scope"]
              ebind_def [of "encryptMessage mc scope u"] ebind_def [of "encryptMessage mc scope a"]
              ebind_def [of "encryptAssistantRunBlobs scope run"])
        have v2': "view_message mc (enc_keys s) scope c2 = stored_as s a"
          "decryptMessage mc (enc_keys s) scope c2 = Ok (stored_as s a)"
          using v2 f1 by (simp_all add: stored_as_def)
        have "all_open mc (enc_keys s) st
          \<and> (\<forall>x. q = Ok x \<longrightarrow> decryptAssistantRunBlobs (enc_keys s) scope x = Ok (view_run (enc_keys s) scope x))"
          by (rule CreateAssistantRun_open [OF ap opens])
            (use v1 v2' sealed_run_fields [OF sr] in simp_all)
        moreover from this have "r = rmap_res (view_run (enc_keys s) scope) q"
          unfolding r(1) by (intro opened_result) blast
        ultimately show ?thesis
          using CreateAssistantRun_clear [OF ap sealed_run_errors [OF sr clear(3)], of mc] f3 ok v1(4) v2'(1)
            sealed_run_fields(1) [OF sr]
          by (simp add: r(2) plain_store_def stays_open_def ring_ok_def)
      qed
    qed
  qed
qed

lemma enc_ClaimAssistantRun_refines:
  assumes op: "enc_ClaimAssistantRun clock scope i q now s = (r, s')" and ok: "ring_ok s"
    and opens: "all_open mc (enc_keys s) (enc_inner s)"
  shows "ClaimAssistantRun clock scope i q now (plain_store mc s) = (r, plain_store mc s') \<and> stays_open mc s s'"
proof -
  obtain x st where ap: "ClaimAssistantRun clock scope i q now (enc_inner s) = (x, st)" by fastforce
  have r: "r = rbind x (decryptAssistantRunBlobs (enc_keys s) scope)" "s' = s\<lparr>enc_inner := st\<rparr>"
    using op ap by (auto simp: enc_ClaimAssistantRun_def ebind_inner_decrypt)
  note runs = all_openD(2) [OF opens]
  have "(\<exists>e. x = Err e) \<and> st = enc_inner s \<or> (\<exists>old t. read2 (assistantRuns (enc_inner s)) scope i = Some old
      \<and> x = Ok (old\<lparr>run_Status := AssistantRunStatusRunning, run_UpdatedAt := t\<rparr>)
      \<and> st = (enc_inner s)\<lparr>assistantRuns := put2 scope i
          (old\<lparr>run_Status := AssistantRunStatusRunning, run_UpdatedAt := t\<rparr>) (assistantRuns (enc_inner s))\<rparr>)"
    using ap by (auto simp: ClaimAssistantRun_def Let_def split: option.splits if_splits)
  then have both: "all_open mc (enc_keys s) st
    \<and> (\<forall>y. x = Ok y \<longrightarrow> decryptAssistantRunBlobs (enc_keys s) scope y = Ok (view_run (enc_keys s) scope y))"
  proof (elim disjE exE conjE)
    fix old :: AssistantRun and t
    let ?new = "old\<lparr>run_Status := AssistantRunStatusRunning, run_UpdatedAt := t\<rparr>"
    assume old: "read2 (assistantRuns (enc_inner s)) scope i = Some old" and x: "x = Ok ?new"
      and st: "st = (enc_inner s)\<lparr>assistantRuns := put2 scope i ?new (assistantRuns (enc_inner s))\<rparr>"
    have n: "decryptAssistantRunBlobs (enc_keys s) scope ?new = Ok (view_run (enc_keys s) scope ?new)"
      by (rule same_blobs_open [where r = old]) (use runs old in \<open>auto simp: same_blobs_def runs_open_def\<close>)
    have "runs_open (enc_keys s) st" by (rule runs_open_put2 [OF runs _ n, where i = i]) (simp add: st)
    moreover have "messages_open mc (enc_keys s) st"
      using all_openD(1) [OF opens] by (simp add: st messages_open_def)
    ultimately have "all_open mc (enc_keys s) st"
      by (intro all_open_same_logs [OF opens]) (simp_all add: st)
    with n x show ?thesis by simp
  qed (use opens in simp)
  then have "r = rmap_res (view_run (enc_keys s) scope) x" unfolding r(1) by (intro opened_result) blast
  then show ?thesis
    using both ClaimAssistantRun_clear [OF ap, of mc "enc_keys s"] ok
    by (simp add: r(2) plain_store_def stays_open_def ring_ok_def)
qed

end
