(* ===== verification/Spec_Encryption.thy ===== *)
theory Spec_Encryption
  imports Store_Examples Key_Ring Refine_Runs
begin

text \<open>
  The properties of the encrypted store. The witnesses use two small AEADs: one tags a
  ciphertext with the last byte of the additional data, so that a wrapper over the example project can
  be run; the other puts a prefix code of the additional data in front, so that no ciphertext
  opens under other data.
\<close>

section \<open>Example ciphers\<close>

definition end_tag :: "string \<Rightarrow> char" where
  "end_tag d = (if d = [] then CHR 0x00 else last d)"

definition ex_aead :: aead where
  "ex_aead = \<lparr>NonceSize = 2, Seal = (\<lambda>n p d. end_tag d # p),
     Open = (\<lambda>n c d. case c of [] \<Rightarrow> None | t # p \<Rightarrow> if t = end_tag d then Some p else None)\<rparr>"

lemma ex_aead_ok: "aead_ok ex_aead \<and> 0 < NonceSize ex_aead"
  by (simp add: aead_ok_def ex_aead_def)

definition prefix_code :: "string \<Rightarrow> string" where
  "prefix_code d = concat (map (\<lambda>c. [CHR ''a'', c]) d) @ ''b''"

definition ex_binding :: aead where
  "ex_binding = \<lparr>NonceSize = 2, Seal = (\<lambda>n p d. prefix_code d @ p),
     Open = (\<lambda>n c d. let m = length (prefix_code d)
       in if take m c = prefix_code d then Some (drop m c) else None)\<rparr>"

lemma prefix_code_inject: "take (length (prefix_code d')) (prefix_code d @ p) = prefix_code d' \<Longrightarrow> d = d'"
proof (induction d arbitrary: d')
  case Nil
  then show ?case by (cases d') (auto simp: prefix_code_def)
next
  case (Cons c d)
  then show ?case by (cases d') (auto simp: prefix_code_def)
qed

lemma ex_binding_ok: "aead_ok ex_binding \<and> 0 < NonceSize ex_binding" "aead_binds ex_binding"
proof -
  show "aead_ok ex_binding \<and> 0 < NonceSize ex_binding" by (simp add: aead_ok_def ex_binding_def Let_def)
  have "take (length (prefix_code d')) (prefix_code d @ p) \<noteq> prefix_code d'" if "d \<noteq> d'" for d d' p
    using prefix_code_inject that by blast
  then show "aead_binds ex_binding"
    unfolding aead_binds_def ex_binding_def Let_def by (simp del: take_append)
qed

definition ex_wrapper :: "aead \<Rightarrow> MemoryStore \<Rightarrow> encryptedStore" where
  "ex_wrapper a st = \<lparr>enc_inner = st, enc_active = ''k'', enc_keys = [(''k'', a)],
     enc_rand = replicate 12 CHR ''n''\<rparr>"

lemma ex_wrapper_ok:
  assumes "aead_ok a \<and> 0 < NonceSize a"
  shows "ring_ok (ex_wrapper a st)"
proof -
  have "plain ''k''" by code_simp
  with assms show ?thesis by (simp add: ring_ok_def ex_wrapper_def gget_def)
qed

definition ex_metadata_codec :: metadata_codec where
  "ex_metadata_codec = \<lparr>marshal_map = (\<lambda>m. ''{}''), unmarshal_map = (\<lambda>s. Some [])\<rparr>"

lemma empty_open: "all_open mc keys (NewMemoryStore quota)"
  by (simp add: all_open_def messages_open_def runs_open_def run_events_open_def thread_events_open_def
      NewMemoryStore_def read2_def slice2_def gread_def gget_def)

lemma ex_wrapper_open: "all_open mc (enc_keys w) (enc_inner (ex_wrapper a (NewMemoryStore quota)))"
  by (simp add: ex_wrapper_def empty_open)

lemma ex_message_clear: "clear_message mc (ex_message i role t)"
  by (simp add: clear_message_def ex_message_def gget_def)

section \<open>Keys\<close>

text \<open>
  A key list that parses is usable: the wrapper is built, its active key is the first of the
  list, and its key ring has exactly the keys of the list, each under its ID.
\<close>

theorem parsed_keys_make_a_store:
  assumes "ParseEncryptionKeys raw = Inr (k # ks)"
  shows "\<exists>s. NewEncryptedStore suite random inner (k # ks) = Inr (Some s) \<and> enc_active s = key_ID k
    \<and> enc_inner s = inner
    \<and> (\<forall>i. gget (enc_keys s) i
          = map_option (\<lambda>key. suite (key_Value key)) (find (\<lambda>key. key_ID key = i) (k # ks)))"
proof -
  have m: "map_of (ring_of suite keys) i
      = map_option (\<lambda>key. suite (key_Value key)) (find (\<lambda>key. key_ID key = i) keys)" for keys i
    by (induction keys) (auto simp: ring_of_def)
  show ?thesis
    by (rule NewEncryptedStore_ok [OF ParseEncryptionKeys_wf [OF assms], of suite random inner])
      (use m in metis)
qed

lemma parsed_keys_make_a_store_witness:
  "\<exists>s. NewEncryptedStore (\<lambda>v. ex_aead) [] (NewMemoryStore ex_quota)
      [\<lparr>key_ID = ''k'', key_Value = replicate 16 CHR ''a''\<rparr>, \<lparr>key_ID = ''old'', key_Value = replicate 16 CHR ''b''\<rparr>]
    = Inr (Some s) \<and> enc_active s = ''k''"
proof -
  have "ParseEncryptionKeys '' k:YWFhYWFhYWFhYWFhYWFhYQ==, old : YmJiYmJiYmJiYmJiYmJiYg ''
    = Inr [\<lparr>key_ID = ''k'', key_Value = replicate 16 CHR ''a''\<rparr>, \<lparr>key_ID = ''old'', key_Value = replicate 16 CHR ''b''\<rparr>]"
    by code_simp
  from parsed_keys_make_a_store [OF this] show ?thesis by fastforce
qed

section \<open>Blobs\<close>

text \<open>
  C23. A blob round trip: encrypting a blob that is not an envelope itself fails only for want of
  random bytes, stores valid JSON for the database column, and decrypting it with the same key
  ring at the same place gives the blob back; nothing else of the wrapper changes.
\<close>

theorem blobs_round_trip:
  assumes "encryptAssistantRunBlob scope i label blob s = (r, s')" "ring_ok s" "\<not> is_sealed blob"
  shows "(\<exists>e. r = Err e) \<and> s' = s
    \<or> (\<exists>c. r = Ok c \<and> decryptAssistantRunBlob (enc_keys s') scope i label c = Ok blob
        \<and> (blob \<noteq> [] \<longrightarrow> json_Valid c) \<and> enc_inner s' = enc_inner s)"
  using assms(1,2)
  by (cases rule: encryptAssistantRunBlob_cases)
    (use assms(3) used_random_fields in \<open>auto simp: decryptAssistantRunBlob_def\<close>)

lemma ex_seals:
  assumes "NonceSize a = 2" "p \<noteq> []" "\<not> is_sealed p"
  shows "\<exists>c s'. encryptAssistantRunBlob scope i label p (ex_wrapper a st) = (Ok c, s') \<and> enc_keys s' = [(''k'', a)]"
  using assms
  by (simp add: encryptAssistantRunBlob_def ebind_def seal_active_def eret_def ex_wrapper_def gget_def Let_def)

lemma ex_nonces: "NonceSize ex_aead = 2" "NonceSize ex_binding = 2"
  by (simp_all add: ex_aead_def ex_binding_def)

lemma ex_not_sealed: "\<not> is_sealed ''[1]''"
  by code_simp

lemma blobs_round_trip_witness:
  "\<exists>c s'. encryptAssistantRunBlob ex_scope ''r'' ''audit'' ''[1]'' (ex_wrapper ex_aead ex_store) = (Ok c, s')
    \<and> decryptAssistantRunBlob [(''k'', ex_aead)] ex_scope ''r'' ''audit'' c = Ok ''[1]'' \<and> json_Valid c"
proof -
  obtain c s' where op: "encryptAssistantRunBlob ex_scope ''r'' ''audit'' ''[1]'' (ex_wrapper ex_aead ex_store)
      = (Ok c, s')" "enc_keys s' = [(''k'', ex_aead)]"
    using ex_seals [OF ex_nonces(1) _ ex_not_sealed] by blast
  from blobs_round_trip [OF op(1) ex_wrapper_ok [OF ex_aead_ok] ex_not_sealed] op show ?thesis by auto
qed

text \<open>
  C24. A ciphertext is bound to its place: with an AEAD that authenticates its additional data, a
  blob encrypted for one project, object and label does not decrypt for any other, as long as no
  part of the place contains a zero byte.
\<close>

theorem blobs_stay_in_place:
  assumes enc: "encryptAssistantRunBlob scope i label blob s = (Ok c, s')" "ring_ok s"
    and blob: "blob \<noteq> []" "\<not> is_sealed blob"
    and binds: "\<forall>k a. gget (enc_keys s) k = Some a \<longrightarrow> aead_binds a"
    and nul: "scope_no_nul scope" "no_nul i" "no_nul label"
      "scope_no_nul scope'" "no_nul i'" "no_nul label'"
    and elsewhere: "(scope', i', label') \<noteq> (scope, i, label)"
  shows "\<not> res_ok (decryptAssistantRunBlob (enc_keys s') scope' i' label' c)"
  by (rule encryptAssistantRunBlob_elsewhere [OF enc blob binds])
    (use assistantRunAAD_inject [OF nul(1,4,2,5,3,6)] elsewhere in auto)

lemma blobs_stay_in_place_witness:
  "\<exists>c s'. encryptAssistantRunBlob ex_scope ''r'' ''audit'' ''[1]'' (ex_wrapper ex_binding ex_store) = (Ok c, s')
    \<and> \<not> res_ok (decryptAssistantRunBlob [(''k'', ex_binding)] ex_other ''r'' ''audit'' c)"
proof -
  obtain c s' where op: "encryptAssistantRunBlob ex_scope ''r'' ''audit'' ''[1]'' (ex_wrapper ex_binding ex_store)
      = (Ok c, s')" "enc_keys s' = [(''k'', ex_binding)]"
    using ex_seals [OF ex_nonces(2) _ ex_not_sealed] by blast
  have nul: "scope_no_nul ex_scope" "scope_no_nul ex_other" "no_nul ''r''" "no_nul ''audit''"
    by code_simp+
  have binds: "\<forall>k a. gget (enc_keys (ex_wrapper ex_binding ex_store)) k = Some a \<longrightarrow> aead_binds a"
    using ex_binding_ok(2) by (simp add: ex_wrapper_def gget_def)
  show ?thesis
    using blobs_stay_in_place [OF op(1) ex_wrapper_ok [OF ex_binding_ok(1)] _ ex_not_sealed binds
        nul(1,3,4,2,3,4)] op ex_values(1) by auto
qed

section \<open>The plain store behind the wrapper\<close>


definition ex_sent :: encryptedStore where
  "ex_sent = snd (enc_AppendMessage ex_metadata_codec 5 ex_scope (ex_message ''m1'' ''user'' 3)
     (ex_wrapper ex_aead (NewMemoryStore ex_quota)))"

lemma ex_sent_op: "enc_AppendMessage ex_metadata_codec 5 ex_scope (ex_message ''m1'' ''user'' 3)
    (ex_wrapper ex_aead (NewMemoryStore ex_quota)) = (Ok (), ex_sent)"
proof -
  have "case fst (enc_AppendMessage ex_metadata_codec 5 ex_scope (ex_message ''m1'' ''user'' 3)
    (ex_wrapper ex_aead (NewMemoryStore ex_quota))) of Ok u \<Rightarrow> True | _ \<Rightarrow> False" by code_simp
  then show ?thesis by (simp add: ex_sent_def prod_eq_iff split: res.splits)
qed


lemma ex_sent_open: "all_open ex_metadata_codec (enc_keys ex_sent) (enc_inner ex_sent)"
  using enc_AppendMessage_refines [OF ex_sent_op ex_wrapper_ok [OF ex_aead_ok] ex_message_clear ex_wrapper_open]
  by (simp add: stays_open_def)

text \<open>
  C26. Reading through the wrapper is reading the plain store: a page of messages, the recent
  messages and messages by ID come back as \<open>MemoryStore\<close> would return them on the decrypted state.
\<close>

theorem message_listings_refine:
  assumes "all_open mc (enc_keys s) (enc_inner s)"
  shows "enc_ListMessages mc codec scope limit cursor s = (ListMessages codec scope limit cursor (plain_store mc s), s)
    \<and> enc_LoadRecentMessages mc scope limit s = (LoadRecentMessages scope limit (plain_store mc s), s)
    \<and> enc_GetMessagesByIDs mc scope ids s = (GetMessagesByIDs scope ids (plain_store mc s), s)"
  using enc_listings_refine [OF assms] by blast

lemma message_listings_refine_witness:
  "enc_LoadRecentMessages ex_metadata_codec ex_scope 5 ex_sent
    = (LoadRecentMessages ex_scope 5 (plain_store ex_metadata_codec ex_sent), ex_sent)"
  using message_listings_refine [OF ex_sent_open] by blast



end
