(* ===== verification/Encrypted_Gaps.thy ===== *)
theory Encrypted_Gaps
  imports Spec_Encryption
begin

text \<open>
  Where the wrapper is not the plain store. An event whose IDs have spaces around them is bound to
  them as they came, but filed under the trimmed ones; a text that has the form of an envelope is
  taken for one; and JSON is checked after it was replaced by an envelope.
\<close>

section \<open>Thread events with padded IDs\<close>

definition event_place :: "AssistantThreadEvent \<Rightarrow> string \<times> string" where
  "event_place e = (turn_run_ID (tev_ThreadID e) (tev_TurnID e), thread_event_label e)"

definition trim_event :: "AssistantThreadEvent \<Rightarrow> AssistantThreadEvent" where
  "trim_event e = e\<lparr>tev_ThreadID := TrimSpace (tev_ThreadID e), tev_TurnID := TrimSpace (tev_TurnID e),
     tev_Type := TrimSpace (tev_Type e), tev_ItemID := TrimSpace (tev_ItemID e),
     tev_RequestID := TrimSpace (tev_RequestID e)\<rparr>"

definition place_no_nul :: "AssistantThreadEvent \<Rightarrow> bool" where
  "place_no_nul e \<longleftrightarrow> no_nul (fst (event_place e)) \<and> no_nul (snd (event_place e))"

lemma set_trim_left: "set (trim_left s) \<subseteq> set s"
proof (induction s rule: trim_left.induct)
  case (1 s)
  then show ?case
    using set_drop_subset [of "space_prefix s" s]
    by (cases "space_prefix s = 0") (auto simp: trim_left.simps [of s])
qed

lemma set_TrimSpace: "set (TrimSpace s) \<subseteq> set s"
proof -
  obtain k where "TrimSpace s = take k (trim_left s)" using trim_right_prefix by (auto simp: TrimSpace_def)
  then show ?thesis using set_trim_left [of s] set_take_subset [of k "trim_left s"] by auto
qed

lemma place_no_nul_trim: "place_no_nul e \<Longrightarrow> place_no_nul (trim_event e)"
  using set_TrimSpace
  by (fastforce simp: place_no_nul_def event_place_def trim_event_def no_nul_def turn_run_ID_def
      thread_event_label_def)

lemma prepared_place:
  assumes "prepareAssistantThreadEvent now e = Inr p"
  shows "event_place p = event_place (trim_event e)"
    "tev_Payload p = (if tev_Payload e = [] then ''{}'' else tev_Payload e)"
  using assms
  by (auto simp: prepareAssistantThreadEvent_def event_place_def trim_event_def thread_event_label_def Let_def
      split: if_splits)

lemma AppendAssistantThreadEvent_result:
  assumes "AppendAssistantThreadEvent now scope e expected st = (Ok x, st')"
  shows "event_place x = event_place (trim_event e)"
    "tev_Payload x = (if tev_Payload e = [] then ''{}'' else tev_Payload e)"
proof -
  obtain p n where p: "prepareAssistantThreadEvent now e = Inr p" and x: "x = p\<lparr>tev_Sequence := n\<rparr>"
    using assms by (auto simp: AppendAssistantThreadEvent_def Let_def split: option.splits sum.splits if_splits)
  have "event_place x = event_place p" by (simp add: x event_place_def thread_event_label_def)
  with prepared_place [OF p] x show "event_place x = event_place (trim_event e)"
    "tev_Payload x = (if tev_Payload e = [] then ''{}'' else tev_Payload e)" by simp_all
qed

text \<open>
  An event that trimming moves to another place is never returned: the wrapper encrypts its payload
  for the place it was given, and the decryption of what was stored fails. By then the inner
  store has the event, and it cannot be read again.
\<close>

lemma padded_thread_events_are_lost:
  assumes op: "enc_AppendAssistantThreadEvent now scope e expected s = (r, s')" and ok: "ring_ok s"
    and payload: "tev_Payload e \<noteq> []" "\<not> is_sealed (tev_Payload e)"
    and binds: "\<forall>k a. gget (enc_keys s) k = Some a \<longrightarrow> aead_binds a"
    and nul: "scope_no_nul scope" "place_no_nul e"
    and padded: "event_place (trim_event e) \<noteq> event_place e"
  shows "\<not> res_ok r"
proof -
  obtain q s1 where enc: "encryptAssistantRunBlob scope (fst (event_place e)) (snd (event_place e)) (tev_Payload e) s
      = (q, s1)" by fastforce
  show ?thesis
  proof (cases q)
    case (Ok c)
    note rt = blob_round_trip [OF enc [unfolded Ok] ok payload(2)]
    have c: "c \<noteq> []" using rt(2) payload(1) by simp
    let ?sealed = "e\<lparr>tev_Payload := c\<rparr>"
    obtain x st where ap: "AppendAssistantThreadEvent now scope ?sealed expected (enc_inner s1) = (x, st)"
      by fastforce
    have r: "r = rbind x (decryptAssistantThreadEvent (enc_keys s1) scope)"
      using op enc ap Ok
      by (cases x) (auto simp: enc_AppendAssistantThreadEvent_def encryptAssistantThreadEvent_def ebind_def eret_def
          event_place_def inner_op_def opened_def)
    show ?thesis
    proof (cases x)
      case stored: (Ok y)
      note place = AppendAssistantThreadEvent_result [OF ap [unfolded stored]]
      have trim: "event_place (trim_event ?sealed) = event_place (trim_event e)"
        by (simp add: event_place_def trim_event_def thread_event_label_def)
      have "\<not> res_ok (decryptAssistantRunBlob (enc_keys s1) scope (fst (event_place (trim_event e)))
          (snd (event_place (trim_event e))) c)"
        using assistantRunAAD_inject nul place_no_nul_trim [OF nul(2)] padded
        by (intro encryptAssistantRunBlob_elsewhere [OF enc [unfolded Ok] ok payload binds])
          (auto simp: place_no_nul_def prod_eq_iff)
      moreover have "decryptAssistantThreadEvent (enc_keys s1) scope y
        = rbind (decryptAssistantRunBlob (enc_keys s1) scope (fst (event_place y)) (snd (event_place y))
            (tev_Payload y)) (\<lambda>p. Ok (y\<lparr>tev_Payload := p\<rparr>))"
        by (simp add: decryptAssistantThreadEvent_def event_place_def)
      ultimately show ?thesis
        using place trim c by (auto simp: r stored res_ok_iff elim!: rbind.elims)
    qed (simp_all add: r)
  qed (use op enc in \<open>auto simp: enc_AppendAssistantThreadEvent_def encryptAssistantThreadEvent_def ebind_def
      event_place_def\<close>)
qed

text \<open>
  The same on a thread with one event: the call fails, the log has two events, and listing the log
  fails from then on.
\<close>

definition ex_started :: MemoryStore where
  "ex_started = (NewMemoryStore ex_quota)\<lparr>assistantThreads := assistantThreads ex_threads,
     threadEvents := threadEvents ex_threads\<rparr>"

lemma ex_started_op:
  "ex_started = snd (CreateAssistantThread 9 ex_scope (ex_thread ''t'') [ex_event [] ''created'']
     (NewMemoryStore ex_quota))"
  by code_simp

definition ex_padded :: AssistantThreadEvent where
  "ex_padded = (ex_event ''r'' ''text'')\<lparr>tev_RequestID := '' '', tev_Payload := ''[1]''\<rparr>"

lemma ex_padded_place:
  "place_no_nul ex_padded" "event_place (trim_event ex_padded) \<noteq> event_place ex_padded"
  "\<not> is_sealed (tev_Payload ex_padded)"
  by code_simp+

lemma padded_thread_events_are_lost_witness:
  "\<not> res_ok (fst (enc_AppendAssistantThreadEvent 11 ex_scope ex_padded 1 (ex_wrapper ex_binding ex_started)))"
proof -
  have nul: "scope_no_nul ex_scope" by code_simp
  have binds: "\<forall>k a. gget (enc_keys (ex_wrapper ex_binding ex_started)) k = Some a \<longrightarrow> aead_binds a"
    using ex_binding_ok(2) by (simp add: ex_wrapper_def gget_def)
  have payload: "tev_Payload ex_padded \<noteq> []" by (simp add: ex_padded_def)
  show ?thesis
    by (rule padded_thread_events_are_lost [OF _ ex_wrapper_ok [OF ex_binding_ok(1)] payload
          ex_padded_place(3) binds nul ex_padded_place(1,2)])
      (rule prod.collapse [symmetric])
qed

lemma lost_event_breaks_the_list:
  "case enc_AppendAssistantThreadEvent 11 ex_scope ex_padded 1 (ex_wrapper ex_aead ex_started) of (r, s) \<Rightarrow>
     \<not> res_ok r \<and> length (slice2 (threadEvents (enc_inner s)) ex_scope ''t'') = 2
     \<and> \<not> res_ok (fst (enc_ListAssistantThreadEvents ex_scope ''t'' 0 10 s))"
  by code_simp

section \<open>Texts that look like an envelope\<close>

text \<open>
  A text with the members of an envelope is kept as it is, in the clear, and read back as a ciphertext.
\<close>

lemma envelope_texts_are_kept: "is_sealed p \<Longrightarrow> encryptAssistantRunBlob scope i label p s = (Ok p, s)"
  by (auto simp: encryptAssistantRunBlob_def is_sealed_def)

lemma envelope_texts_fail:
  assumes "unmarshal_envelope p = Some e" "env_Encrypted e" "p \<noteq> []" "gget keys (env_KeyID e) = None"
  shows "\<not> res_ok (decryptAssistantRunBlob keys scope i label p)"
  using assms by (simp add: decryptAssistantRunBlob_def open_payload_def split: option.splits)

text \<open>A thread whose title is such a text can be created, and its owner's threads cannot be listed any more.\<close>

definition ex_envelope_title :: string where
  "ex_envelope_title = marshal_envelope \<lparr>env_Encrypted = True, env_KeyID = ''x'', env_Payload = ''y''\<rparr>"

lemma envelope_title_breaks_the_list:
  "case enc_CreateAssistantThread 9 ex_scope ((ex_thread ''t'')\<lparr>thread_Title := ex_envelope_title\<rparr>)
     [ex_event [] ''created''] (ex_wrapper ex_aead (NewMemoryStore ex_quota)) of (r, s) \<Rightarrow>
     map_option thread_Title (read2 (assistantThreads (enc_inner s)) ex_scope ''t'') = Some ex_envelope_title
     \<and> \<not> res_ok (fst (enc_ListAssistantThreads ex_codec ex_scope ''a'' True 10 [] s))"
  by code_simp

section \<open>Payloads that are not JSON\<close>

text \<open>The wrapper accepts a payload that the plain store refuses, since it checks the envelope.\<close>

definition ex_not_json :: AssistantThreadEvent where
  "ex_not_json = (ex_event ''r'' ''text'')\<lparr>tev_Payload := ''[1''\<rparr>"

lemma payload_is_checked_sealed:
  "\<not> res_ok (fst (AppendAssistantThreadEvent 11 ex_scope ex_not_json 1 ex_started))"
  "res_ok (fst (enc_AppendAssistantThreadEvent 11 ex_scope ex_not_json 1 (ex_wrapper ex_aead ex_started)))"
  by code_simp+

end
