(* ===== verification/Spec_Transcript.thy ===== *)
theory Spec_Transcript
  imports Store_Examples
begin

text \<open>
  The properties of the transcript, of runs, of the run event log and of conversation items, each
  with an instance on the example project.
\<close>

section \<open>The transcript\<close>

text \<open>
  C5. A client of \<open>ListMessages\<close> that follows the next cursors gets the whole transcript of the
  project, every message once, in the order of creation time and ID, whatever the page size.
\<close>

theorem transcript_paging_complete:
  assumes "Scope_validate scope = None"
    and "messages_pageable codec (gread (messages st) scope)"
    and "length (sortedMessages (gread (messages st) scope)) < fuel"
  shows "collectMessages fuel codec scope limit st = Ok (sortedMessages (gread (messages st) scope))"
  by (rule collectMessages_all [OF assms])

lemma transcript_paging_complete_witness:
  "collectMessages 3 ex_codec ex_scope 1 ex_store =
     Ok (sortedMessages (gread (messages ex_store) ex_scope))
   \<and> length (sortedMessages (gread (messages ex_store) ex_scope)) = 2"
proof -
  let ?m = "gread (messages ex_store) ex_scope"
  have len: "length (sortedMessages ?m) = 2"
    and keys: "\<forall>m \<in> set (gvalues ?m). cursor_key (message_key m)"
    and pos: "\<forall>k \<in> message_key ` set (gvalues ?m). 0 \<le> key_at k" by code_simp+
  have "messages_pageable ex_codec ?m"
    unfolding messages_pageable_def
    using keys ex_codec_ok [OF pos] messages_keyed_scope [OF store_invD(1) [OF ex_inv(1)]] by simp
  from transcript_paging_complete [OF ex_values(2) this, of 3 1] len show ?thesis by simp
qed

text \<open>
  Listings do not depend on the iteration order of Go's maps: two stores whose message maps
  hold the same entries answer \<open>ListMessages\<close> and \<open>LoadRecentMessages\<close> alike.
\<close>

theorem listing_ignores_map_order:
  assumes "messages_keyed st" "same_map (gread (messages st) scope) (gread (messages st') scope)"
  shows "ListMessages codec scope limit cursor st = ListMessages codec scope limit cursor st'
    \<and> LoadRecentMessages scope limit st = LoadRecentMessages scope limit st'"
proof -
  note eq = sortedMessages_order_independent [OF assms(2) messages_keyed_scope [OF assms(1)]]
  show ?thesis unfolding ListMessages_def LoadRecentMessages_def eq by simp
qed

text \<open>The same two messages, stored in the other order.\<close>

definition ex_reordered :: MemoryStore where
  "ex_reordered = ex_store\<lparr>messages := [(ex_scope, rev (gread (messages ex_store) ex_scope))]\<rparr>"

lemma listing_ignores_map_order_witness:
  "ListMessages ex_codec ex_scope 1 [] ex_store = ListMessages ex_codec ex_scope 1 [] ex_reordered
    \<and> gread (messages ex_store) ex_scope \<noteq> gread (messages ex_reordered) ex_scope"
proof -
  have r: "gread (messages ex_reordered) ex_scope = rev (gread (messages ex_store) ex_scope)"
    by (simp add: ex_reordered_def gread_def gget_def)
  have "distinct (map fst (gread (messages ex_store) ex_scope))"
    and ne: "rev (gread (messages ex_store) ex_scope) \<noteq> gread (messages ex_store) ex_scope" by code_simp+
  then have "same_map (gread (messages ex_store) ex_scope) (gread (messages ex_reordered) ex_scope)"
    unfolding r same_map_def gget_def
    using map_of_inject_set [of "gread (messages ex_store) ex_scope" "rev (gread (messages ex_store) ex_scope)"]
    by (simp add: rev_map [symmetric])
  from listing_ignores_map_order [OF store_invD(1) [OF ex_inv(1)] this, of ex_codec 1 "[]"] ne r
  show ?thesis by simp
qed

section \<open>Runs\<close>

text \<open>
  C6. A thread has at most one unfinished run: any two unfinished runs that
  \<open>ListActiveAssistantRuns\<close> returns for a reachable store belong to different threads.
\<close>

theorem at_most_one_unfinished_run:
  assumes "reachable quota st" "ListActiveAssistantRuns scope st = Ok rs"
    and "r \<in> set rs" "q \<in> set rs" "r \<noteq> q"
  shows "run_ThreadID r \<noteq> run_ThreadID q"
  using one_unfinished_run [OF store_invD(2) [OF reachable_inv [OF assms(1)]] assms(2-4)] assms(5) by blast

lemma at_most_one_unfinished_run_witness:
  "\<exists>st r q. ListActiveAssistantRuns ex_scope st = Ok [r, q] \<and> run_ThreadID r \<noteq> run_ThreadID q"
proof -
  let ?st = "snd (SaveAssistantRun 7 ex_scope ((ex_run ''r2'' ''q2'')\<lparr>run_ThreadID := ''t2''\<rparr>) ex_running)"
  have "reachable ex_quota ?st"
    by (rule reachable_snd [OF ex_reachable(2)]) (erule store_step.save_run)
  note one = at_most_one_unfinished_run [OF this, of ex_scope]
  have "case ListActiveAssistantRuns ex_scope ?st of Ok [r, q] \<Rightarrow> r \<noteq> q | _ \<Rightarrow> False" by code_simp
  then obtain r q where "ListActiveAssistantRuns ex_scope ?st = Ok [r, q]" "r \<noteq> q"
    by (auto split: res.splits list.splits)
  with one [OF this(1), of r q] show ?thesis by auto
qed

text \<open>
  Starting a run is idempotent: after \<open>CreateAssistantRun\<close> has returned a run, the same
  request at any later time, with the same run ID or one that is not in use, returns the same run
  and leaves the store as it is.
\<close>

theorem create_run_is_idempotent:
  assumes "reachable quota st"
    and "CreateAssistantRun now scope user assistant run st = (Ok stored, st')"
    and "run_ID run' = run_ID stored \<or> read2 (assistantRuns st') scope (run_ID run') = None"
    and "run_ThreadID run' = run_ThreadID run" "run_ClientRequestID run' = run_ClientRequestID run"
    and "validateNewAssistantRun user' assistant' run' = None"
  shows "CreateAssistantRun now' scope user' assistant' run' st' = (Ok stored, st')"
proof -
  note ok = CreateAssistantRun_Ok [OF assms(2) store_invD(2) [OF reachable_inv [OF assms(1)]]]
  have "store_step (Some scope) (outcome (Ok stored)) st st'"
    by (rule store_step.create_run [OF assms(2)])
  then have "runs_inv (assistantRuns st')"
    using reachable.step [OF assms(1)] reachable_inv store_invD(2) by blast
  from CreateAssistantRun_again [OF this ok(1) _ _ ok(5) assms(6)] ok(2,3) assms(3-5)
  show ?thesis by metis
qed

lemma create_run_is_idempotent_witness:
  "\<exists>stored. CreateAssistantRun 99 ex_scope (ex_message ''m3'' ''user'' 6) (ex_message ''m4'' ''assistant'' 6)
     (ex_run ''r9'' ''q'') ex_running = (Ok stored, ex_running) \<and> run_ID stored = ''r''"
proof -
  let ?user = "ex_message ''m3'' ''user'' 6" and ?assistant = "ex_message ''m4'' ''assistant'' 6"
  let ?res = "CreateAssistantRun 6 ex_scope ?user ?assistant (ex_run ''r'' ''q'') ex_store"
  have "case fst ?res of Ok stored \<Rightarrow> run_ID stored = ''r'' | _ \<Rightarrow> False" by code_simp
  then obtain stored where res: "?res = (Ok stored, ex_running)" and i: "run_ID stored = ''r''"
    by (auto simp: ex_running_op prod_eq_iff split: res.splits)
  have "read2 (assistantRuns ex_running) ex_scope (run_ID (ex_run ''r9'' ''q'')) = None"
    "run_ThreadID (ex_run ''r9'' ''q'') = run_ThreadID (ex_run ''r'' ''q'')"
    "run_ClientRequestID (ex_run ''r9'' ''q'') = run_ClientRequestID (ex_run ''r'' ''q'')"
    "validateNewAssistantRun ?user ?assistant (ex_run ''r9'' ''q'') = None" by code_simp+
  with create_run_is_idempotent [OF ex_reachable(1) res] i show ?thesis by blast
qed

section \<open>The event log of a run\<close>

text \<open>
  C7. Two writers cannot both append at the same position: after an event has been appended to a
  run at the sequence its writer expected, every other append to that run with that expectation
  fails.
\<close>

theorem run_events_are_compare_and_append:
  assumes "reachable quota st"
    and "AppendAssistantRunEvent now scope event expected st = (Ok e, st')"
    and "TrimSpace (rev_RunID other) = TrimSpace (rev_RunID event)"
    and "AppendAssistantRunEvent now' scope other expected st' = (r, st'')"
  shows "\<not> res_ok r"
  by (rule AppendAssistantRunEvent_cas [OF assms(2) store_invD(3) [OF reachable_inv [OF assms(1)]] assms(3,4)])

lemma run_events_are_compare_and_append_witness:
  "\<not> res_ok (fst (AppendAssistantRunEvent 9 ex_scope (ex_run_event ''r'' ''late'') 0
     (snd (AppendAssistantRunEvent 7 ex_scope (ex_run_event ''r'' ''text'') 0 ex_running))))"
proof -
  let ?res = "AppendAssistantRunEvent 7 ex_scope (ex_run_event ''r'' ''text'') 0 ex_running"
  have "res_ok (fst ?res)" by code_simp
  then obtain e where "?res = (Ok e, snd ?res)" by (auto simp: res_ok_iff prod_eq_iff)
  from run_events_are_compare_and_append [OF ex_reachable(2) this _ prod.collapse [symmetric]]
  show ?thesis by (simp add: ex_run_event_def)
qed

text \<open>A page of the log of a run, empty when the read fails.\<close>

definition fetch_run_events :: "Scope \<Rightarrow> string \<Rightarrow> int \<Rightarrow> MemoryStore \<Rightarrow> int64 \<Rightarrow> AssistantRunEvent list" where
  "fetch_run_events scope i limit st a =
     (case ListAssistantRunEvents scope i a limit st of Ok es \<Rightarrow> es | _ \<Rightarrow> [])"

text \<open>
  C8. The event log of a run is read completely: following \<open>ListAssistantRunEvents\<close> from the
  sequence of the last event seen, with any page size, yields every event of the run once, and
  their sequences are 1, 2, 3 and so on.
\<close>

theorem run_log_is_read_completely:
  assumes "reachable quota st" "Scope_validate scope = None" "TrimSpace i \<noteq> []"
    and "read2 (assistantRuns st) scope (TrimSpace i) \<noteq> None"
    and "length (slice2 (assistantEvents st) scope (TrimSpace i)) < fuel"
  shows "follow fuel (fetch_run_events scope i limit st) rev_Sequence 0
      = slice2 (assistantEvents st) scope (TrimSpace i)
    \<and> map rev_Sequence (slice2 (assistantEvents st) scope (TrimSpace i))
      = map int [1..<Suc (length (slice2 (assistantEvents st) scope (TrimSpace i)))]"
proof -
  let ?log = "slice2 (assistantEvents st) scope (TrimSpace i)"
  have c: "contiguous rev_Sequence ?log"
    by (rule run_log_okD(1) [OF store_invD(3) [OF reachable_inv [OF assms(1)]]])
  have page: "fetch_run_events scope i limit st a = take (nat (normalizeLimit limit)) (filter (\<lambda>e. a < rev_Sequence e) ?log)"
    if "0 \<le> a" for a
    using ListAssistantRunEvents_eq [OF assms(2,3) that assms(4)] by (simp add: fetch_run_events_def)
  show ?thesis
  proof
    show "follow fuel (fetch_run_events scope i limit st) rev_Sequence 0 = ?log"
      using normalizeLimit_bounds(1) [of limit]
      by (intro run_log.follow_all [OF c _ page assms(5)]) simp_all
    show "map rev_Sequence ?log = map int [1..<Suc (length ?log)]"
      using c by (intro nth_equalityI) (auto simp: contiguous_def simp del: upt_Suc)
  qed
qed

lemma run_log_is_read_completely_witness:
  "follow 3 (fetch_run_events ex_scope ''r'' 1 ex_logged) rev_Sequence 0
      = slice2 (assistantEvents ex_logged) ex_scope ''r''
    \<and> length (slice2 (assistantEvents ex_logged) ex_scope ''r'') = 2"
proof -
  have len: "length (slice2 (assistantEvents ex_logged) ex_scope ''r'') = 2"
    and run: "read2 (assistantRuns ex_logged) ex_scope ''r'' \<noteq> None" by code_simp+
  have r: "TrimSpace ''r'' = ''r''" by code_simp
  from run_log_is_read_completely [OF ex_reachable(3) ex_values(2), of "''r''" 3 1] len run r show ?thesis
    by simp
qed

text \<open>
  C9. The type index of run events answers for the log: asked for one run, it returns the last
  \<open>n\<close> events of that type, in log order.
\<close>

theorem run_event_index_agrees_with_log:
  assumes "reachable quota st" "Scope_validate scope = None"
    and "TrimSpace i \<noteq> []" "TrimSpace t \<noteq> []" "0 < n"
  shows "ListAssistantRunEventsByRuns scope [i] t n st = (let found = filter (\<lambda>e. rev_Type e = TrimSpace t)
        (slice2 (assistantEvents st) scope (TrimSpace i)) in Ok (drop (nat (int (length found) - n)) found))"
  by (rule ListAssistantRunEventsByRuns_one [OF store_invD(3) [OF reachable_inv [OF assms(1)]] assms(2-5)])

lemma run_event_index_agrees_with_log_witness:
  "ListAssistantRunEventsByRuns ex_scope [''r''] ''text'' 5 ex_logged
    = Ok (filter (\<lambda>e. rev_Type e = ''text'') (slice2 (assistantEvents ex_logged) ex_scope ''r''))"
proof -
  have t: "TrimSpace ''r'' = ''r''" "TrimSpace ''text'' = ''text''" by code_simp+
  have "length (filter (\<lambda>e. rev_Type e = ''text'') (slice2 (assistantEvents ex_logged) ex_scope ''r'')) = 1"
    by code_simp
  with run_event_index_agrees_with_log [OF ex_reachable(3) ex_values(2), of "''r''" "''text''" 5]
  show ?thesis by (simp add: t Let_def)
qed




end
