(* ===== verification/Store_History.thy ===== *)
theory Store_History
  imports Store_Isolation "HOL-Library.Sublist"
begin

text \<open>
  What no operation of the store can rewrite, short of deleting it: the identity of a run and its
  revision discipline, the identity and owner of a thread, and the event logs of runs and threads,
  which only grow at their end. \<open>history st st'\<close> is that relation; every step of the store is in it.
\<close>

section \<open>The relation\<close>

definition log_kept :: "'e list \<Rightarrow> 'e list \<Rightarrow> bool" where
  "log_kept old new \<longleftrightarrow> new = [] \<or> prefix old new"

definition thread_same :: "AssistantThread \<Rightarrow> AssistantThread \<Rightarrow> bool" where
  "thread_same old new \<longleftrightarrow> thread_ID new = thread_ID old \<and> thread_ActorID new = thread_ActorID old
     \<and> thread_CreatedAt new = thread_CreatedAt old"

definition runs_history :: "MemoryStore \<Rightarrow> MemoryStore \<Rightarrow> bool" where
  "runs_history st st' \<longleftrightarrow>
     (\<forall>s i old new. read2 (assistantRuns st) s i = Some old \<longrightarrow> read2 (assistantRuns st') s i = Some new
        \<longrightarrow> run_evolves old new)
     \<and> (\<forall>s i. log_kept (slice2 (assistantEvents st) s i) (slice2 (assistantEvents st') s i))"

definition threads_history :: "MemoryStore \<Rightarrow> MemoryStore \<Rightarrow> bool" where
  "threads_history st st' \<longleftrightarrow>
     (\<forall>s t old new. read2 (assistantThreads st) s t = Some old \<longrightarrow> read2 (assistantThreads st') s t = Some new
        \<longrightarrow> thread_same old new)
     \<and> (\<forall>s t. log_kept (slice2 (threadEvents st) s t) (slice2 (threadEvents st') s t))"

definition history :: "MemoryStore \<Rightarrow> MemoryStore \<Rightarrow> bool" where
  "history st st' \<longleftrightarrow> runs_history st st' \<and> threads_history st st'"

lemma log_kept_simps [simp]: "log_kept l l" "log_kept l (l @ es)" "log_kept l []" "log_kept [] es"
  by (simp_all add: log_kept_def)

lemma run_evolves_refl [simp]: "run_evolves r r"
  by (simp add: run_evolves_def)

lemma thread_same_refl [simp]: "thread_same t t"
  by (simp add: thread_same_def)

lemma runs_history_same:
  "assistantRuns st' = assistantRuns st \<Longrightarrow> assistantEvents st' = assistantEvents st \<Longrightarrow> runs_history st st'"
  by (auto simp: runs_history_def)

lemma threads_history_same:
  "assistantThreads st' = assistantThreads st \<Longrightarrow> threadEvents st' = threadEvents st \<Longrightarrow> threads_history st st'"
  by (auto simp: threads_history_def)

section \<open>The operations\<close>

lemma run_op_history:
  assumes "run_op p st st'"
  shows "history st st'"
proof -
  from assms have eq: "st' = st\<lparr>messages := messages st', assistantRuns := assistantRuns st'\<rparr>"
    and step: "runs_step p (assistantRuns st) (assistantRuns st')" by (auto simp: run_op_def)
  obtain m rs where st': "st' = st\<lparr>messages := m, assistantRuns := rs\<rparr>" using eq by blast
  have "run_evolves old new" if "read2 (assistantRuns st) s i = Some old" "read2 rs s i = Some new"
    for s i old new
    using runs_step_evolves [OF step that(1)] that(2) by (auto simp: st')
  then show ?thesis by (auto simp: history_def runs_history_def threads_history_same st')
qed

lemma thread_fields_runs_history:
  assumes "thread_fields st st'"
  shows "runs_history st st'"
proof -
  obtain a b c d e f g where "st' = st\<lparr>threadEventSignals := a,
     assistantThreads := b, assistantTurns := c, threadEvents := d, threadTurnEvents := e,
     threadTurnEventIndex := f, threadTurnStarts := g\<rparr>"
    using assms unfolding thread_fields_def by blast
  then show ?thesis by (simp add: runs_history_same)
qed

lemma thread_op_history:
  "thread_inv st' \<and> thread_fields st st' \<and> r \<noteq> Panic \<Longrightarrow> threads_history st st' \<Longrightarrow> history st st'"
  using thread_fields_runs_history by (simp add: history_def)

lemma thread_absent_log:
  assumes "thread_inv st" "read2 (assistantThreads st) s t = None"
  shows "slice2 (threadEvents st) s t = []"
proof -
  have "thread_ok st s t" using assms(1) by (simp add: thread_inv_def)
  with assms(2) have "read2 (threadEvents st) s t = None" by (simp add: thread_ok_def)
  then show ?thesis by (rule slice2_None)
qed

lemmas history_simps = threads_history_def thread_same_def gomap_simps Let_def assign2_put2

lemma CreateAssistantThread_history:
  assumes "CreateAssistantThread now p t es st = (r, st')" "thread_inv st"
  shows "threads_history st st'"
  using assms(1) thread_absent_log [OF assms(2)]
  by (auto simp: CreateAssistantThread_def history_simps simp del: appendAssistantThreadTurnEventsLocked.simps
      split: option.splits sum.splits if_splits)

lemma UpdateAssistantThread_history:
  assumes "UpdateAssistantThread now p t st = (r, st')" "thread_inv st"
  shows "threads_history st st'"
  using assms(1) thread_okD(1) [OF assms(2)]
  by (auto simp: UpdateAssistantThread_def history_simps thread_wf_def split: option.splits sum.splits if_splits)

lemma SetAssistantThreadTitleIfEmpty_history:
  "SetAssistantThreadTitleIfEmpty tp now p i actor title e st = (r, st') \<Longrightarrow> thread_inv st \<Longrightarrow> threads_history st st'"
  by (auto simp: SetAssistantThreadTitleIfEmpty_def history_simps simp del: appendAssistantThreadTurnEventsLocked.simps
      split: option.splits sum.splits if_splits)

lemma UpdateAssistantThreadWithEvent_history:
  assumes "UpdateAssistantThreadWithEvent now p t e n st = (r, st')" "thread_inv st"
  shows "threads_history st st'"
  using assms(1) thread_okD(1) [OF assms(2)]
  by (auto simp: UpdateAssistantThreadWithEvent_def history_simps thread_wf_def
      simp del: appendAssistantThreadTurnEventsLocked.simps split: option.splits sum.splits if_splits)

lemma AppendAssistantThreadEvent_history:
  assumes "AppendAssistantThreadEvent now p e n st = (r, st')" "thread_inv st"
  shows "threads_history st st'"
  using assms
  by (cases rule: AppendAssistantThreadEvent_cases)
    (auto simp: history_simps simp del: appendAssistantThreadTurnEventsLocked.simps)

lemma WatchAssistantThreadEvents_history:
  "WatchAssistantThreadEvents p i st = (r, st') \<Longrightarrow> thread_inv st \<Longrightarrow> threads_history st st'"
  by (auto simp: WatchAssistantThreadEvents_def threads_history_same Let_def split: option.splits prod.splits if_splits)

lemma with_turn_map_fields [simp]:
  "assistantThreads (with_turn_map p t st) = assistantThreads st"
  "threadEvents (with_turn_map p t st) = threadEvents st"
  by (simp_all add: with_turn_map_def Let_def)

lemma CreateAssistantTurn_history:
  assumes "CreateAssistantTurn now p turn es st = (r, st')" "thread_inv st"
  shows "threads_history st st'"
  using assms
  by (cases rule: CreateAssistantTurn_cases)
    (auto simp: history_simps simp del: appendAssistantThreadTurnEventsLocked.simps)

lemma SaveAssistantTurn_history:
  assumes "SaveAssistantTurn now p turn st = (r, st')" "thread_inv st"
  shows "threads_history st st'"
  using assms by (cases rule: SaveAssistantTurn_cases) (auto simp: history_simps)

lemma SaveAssistantTurnWithEvent_history:
  assumes "SaveAssistantTurnWithEvent now p turn e n st = (r, st')" "thread_inv st"
  shows "threads_history st st'"
  using assms
  by (cases rule: SaveAssistantTurnWithEvent_cases)
    (auto simp: history_simps simp del: appendAssistantThreadTurnEventsLocked.simps)

lemma AppendAssistantRunEvent_history:
  assumes "AppendAssistantRunEvent now p e n st = (r, st')"
  shows "history st st'"
  using assms
  by (cases rule: AppendAssistantRunEvent_cases)
    (auto simp: history_def runs_history_def threads_history_same gomap_simps)

lemma AppendMessage_history: "AppendMessage now p m st = (r, st') \<Longrightarrow> history st st'"
proof -
  assume "AppendMessage now p m st = (r, st')"
  then obtain ms where "st' = st\<lparr>messages := ms\<rparr>" using AppendMessage_frame by blast
  then show ?thesis by (simp add: history_def runs_history_same threads_history_same)
qed

section \<open>Deletion\<close>

definition shrinks :: "MemoryStore \<Rightarrow> MemoryStore \<Rightarrow> bool" where
  "shrinks st st' \<longleftrightarrow>
     (\<forall>s i. read2 (assistantRuns st') s i \<in> {None, read2 (assistantRuns st) s i}
        \<and> slice2 (assistantEvents st') s i \<in> {[], slice2 (assistantEvents st) s i})
     \<and> (\<forall>s t. read2 (assistantThreads st') s t \<in> {None, read2 (assistantThreads st) s t}
        \<and> slice2 (threadEvents st') s t \<in> {[], slice2 (threadEvents st) s t})"

lemma shrinks_history: "shrinks st st' \<Longrightarrow> history st st'"
  unfolding shrinks_def history_def runs_history_def threads_history_def log_kept_def
  by (metis empty_iff insert_iff option.distinct(1) option.inject prefix_order.order_refl
      run_evolves_refl thread_same_refl)

lemma shrinks_refl [simp]: "shrinks st st"
  by (simp add: shrinks_def)

lemma shrinks_trans [trans]: "shrinks st st1 \<Longrightarrow> shrinks st1 st2 \<Longrightarrow> shrinks st st2"
  unfolding shrinks_def by (metis empty_iff insert_iff)

lemma shrinks_messages: "shrinks (st\<lparr>messages := m\<rparr>) st' = shrinks st st'"
  "shrinks st (st'\<lparr>messages := m\<rparr>) = shrinks st st'"
  by (simp_all add: shrinks_def)

lemma shrinks_runs_gone:
  assumes "runs_gone G st st'"
  shows "shrinks st st'"
  using conjunct2 [OF assms [unfolded runs_gone_def]] runs_gone_frame [OF assms]
  by (simp add: shrinks_def)

lemma shrinks_threads_gone:
  assumes "threads_gone G st st'"
  shows "shrinks st st'"
proof -
  have "slice2 (threadEvents st') s t \<in> {[], slice2 (threadEvents st) s t}" for s t
    using conjunct2 [OF assms [unfolded threads_gone_def]] by (simp add: slice2_def)
  then show ?thesis
    using conjunct2 [OF assms [unfolded threads_gone_def]] threads_gone_frame [OF assms]
    by (simp add: shrinks_def threads_gone_def)
qed

lemma DeleteMessagesOlderThan_history:
  assumes "DeleteMessagesOlderThan before st = (r, st')"
  shows "history st st'"
  using assms
proof (rule DeleteMessagesOlderThan_loops)
  fix n kept st2 G H
  assume "runs_gone G (st\<lparr>messages := kept\<rparr>) st2" "threads_gone H st2 st'"
  then have "shrinks st st2" "shrinks st2 st'"
    using shrinks_runs_gone shrinks_threads_gone shrinks_messages(1) by blast+
  then show "history st st'" by (rule shrinks_history [OF shrinks_trans])
qed

lemma DeleteAssistantThread_history:
  assumes "DeleteAssistantThread p i actor st = (r, st')" "run_events_inv st" "thread_inv st"
  shows "history st st'"
  using assms
proof (cases rule: DeleteAssistantThread_cases)
  case (deleted tid thread st2 st3)
  have "shrinks st st2" using shrinks_runs_gone [OF deleted(7)] by (simp add: shrinks_messages)
  also have "shrinks st2 st3" by (rule shrinks_threads_gone [OF deleted(8)])
  also have "shrinks st3 st'" using shrinks_runs_gone [OF deleted(9)] by (simp add: shrinks_messages)
  finally show ?thesis by (rule shrinks_history)
qed (simp add: shrinks_history)

lemma DeleteProjectMessages_history: "DeleteProjectMessages p st = (r, st') \<Longrightarrow> history st st'"
  by (rule shrinks_history)
    (auto simp: DeleteProjectMessages_def shrinks_def gomap_simps split: option.splits)

section \<open>Every step\<close>

lemma history_frame:
  "assistantRuns st' = assistantRuns st \<Longrightarrow> assistantEvents st' = assistantEvents st
    \<Longrightarrow> assistantThreads st' = assistantThreads st \<Longrightarrow> threadEvents st' = threadEvents st \<Longrightarrow> history st st'"
  by (simp add: history_def runs_history_same threads_history_same)

lemma attachments_history:
  assumes "attachments_inv st' \<and> st' = st\<lparr>attachments := attachments st'\<rparr> \<and> r \<noteq> Panic"
  shows "history st st'"
proof -
  obtain a where "st' = st\<lparr>attachments := a\<rparr>" using assms by blast
  then show ?thesis by (simp add: history_frame)
qed

lemma forgets_history:
  assumes "forgets st st' \<and> r \<noteq> Panic"
  shows "history st st'"
proof -
  obtain a b where "st' = st\<lparr>attachments := a, attachmentDeleted := b\<rparr>"
    using assms unfolding forgets_def by blast
  then show ?thesis by (simp add: history_frame)
qed

lemma side_tables_history:
  assumes "side_tables st st' \<and> r \<noteq> Panic"
  shows "history st st'"
proof -
  obtain a b c d e f where "st' = st\<lparr>replicaClaims := a, approvalModes := b,
     bootstrapPermits := c, projectThumbnails := d, attachmentQuota := e, organizationSpend := f\<rparr>"
    using assms unfolding side_tables_def by blast
  then show ?thesis by (simp add: history_frame)
qed

lemma items_history: "AppendAssistantConversationItem canon now p item st = (r, st') \<Longrightarrow> history st st'"
  by (erule AppendAssistantConversationItem_cases) (simp_all add: history_frame)

lemmas thread_histories = CreateAssistantThread_history UpdateAssistantThread_history
  SetAssistantThreadTitleIfEmpty_history UpdateAssistantThreadWithEvent_history
  AppendAssistantThreadEvent_history WatchAssistantThreadEvents_history CreateAssistantTurn_history
  SaveAssistantTurn_history SaveAssistantTurnWithEvent_history
lemmas delete_histories = DeleteMessagesOlderThan_history DeleteProjectMessages_history
lemmas plain_histories = AppendMessage_history AppendAssistantRunEvent_history items_history

lemma store_step_history:
  assumes "store_step p out st st'" "store_inv st"
  shows "history st st'"
  using assms
proof (induction rule: store_step.induct)
  case (stop_run clock s i n assistant now st r st')
  note op = requestAssistantRunStop_op [OF stop_run(1) [unfolded RequestAssistantRunStopWithAssistantMessage_def]
      store_invD(2) [OF stop_run(2)]]
  show ?case by (rule run_op_history [OF op(1)])
qed ((erule plain_histories)
  | (rule run_op_history, rule conjunct1, erule run_ops, erule store_invD)
  | (rule thread_op_history, erule thread_ops, erule store_invD, erule thread_histories, erule store_invD)
  | (rule attachments_history, erule attachment_ops, erule store_invD)
  | (rule attachments_history, erule upload_ops, erule store_invD, assumption, assumption)
  | (rule forgets_history, erule forget_ops)
  | (erule DeleteAssistantThread_history, erule store_invD, erule store_invD)
  | (erule delete_histories)
  | (rule side_tables_history, erule side_tables_ops))+

end
