(* ===== verification/Thread_Stream.thy ===== *)
theory Thread_Stream
  imports Store_History
begin

text \<open>
  The event stream of a thread (\<open>streamProjectAssistantThreadEvents\<close> and
  \<open>assistantThreadTerminalEventEndsStream\<close> of \<open>api/assistant_threads.go\<close>) on top of the store:
  the handler subscribes, reads the log from its cursor until a read is empty, and then sleeps
  until it is signalled or its keepalive ticks. The store's other users run between its steps.
  Shown: what the client has been sent and what is still to come are always the log after the
  client's starting point, with no gap and no repetition; and a stream that sleeps with no signal
  waiting has sent everything, as long as events are added by \<open>AppendAssistantThreadEvent\<close>.

  The three reads of the end-of-stream test are taken in one state. Writing to the client always
  succeeds here, or else the handler returns, which is the step \<open>cancel\<close>.
\<close>

section \<open>When a terminal event ends the stream\<close>

definition terminal_event_types :: "string list" where
  "terminal_event_types = [''turn.completed'', ''turn.failed'', ''turn.interrupted'']"

text \<open>
  \<open>settled\<close> is \<open>json.Unmarshal\<close> of the payload into the envelope with the one flag: None when it
  fails.
\<close>

definition assistantThreadReceiptSettlementEvent :: "(string \<Rightarrow> bool option) \<Rightarrow> AssistantThreadEvent \<Rightarrow> bool" where
  "assistantThreadReceiptSettlementEvent settled event =
     (if tev_Type event \<noteq> ''item.completed'' \<or> tev_ItemID event = [] then False
      else settled (tev_Payload event) = Some True)"

definition assistantThreadTerminalEventEndsStream ::
  "(string \<Rightarrow> bool option) \<Rightarrow> Scope \<Rightarrow> string \<Rightarrow> AssistantThreadEvent \<Rightarrow> MemoryStore \<Rightarrow> bool" where
  "assistantThreadTerminalEventEndsStream settled scope threadID event st =
     (if \<not> (tev_Type event \<in> set terminal_event_types
          \<or> tev_Type event = ''item.completed'' \<and> assistantThreadReceiptSettlementEvent settled event
            \<and> (case GetAssistantTurn scope threadID (tev_TurnID event) st of
                 Ok turn \<Rightarrow> turn_Status turn \<noteq> AssistantTurnStatusInProgress | _ \<Rightarrow> False)) then False
      else if tev_Sequence event \<le> 0 then False
      else (case ListAssistantThreadTurnEventsBefore scope threadID 0 1 st of
          Ok [latest] \<Rightarrow>
            if tev_Sequence latest \<noteq> tev_Sequence event \<or> tev_TurnID latest \<noteq> tev_TurnID event
               \<or> tev_Type latest \<noteq> tev_Type event then False
            else (case ActiveAssistantTurn scope threadID st of
                Ok active \<Rightarrow> turn_ID active = tev_TurnID event
              | Err e \<Rightarrow> e = ErrAssistantTurnNotFound | Panic \<Rightarrow> False)
        | _ \<Rightarrow> False))"

section \<open>The handler\<close>

datatype stream_phase =
    Reading | Sending "AssistantThreadEvent list" | Waiting | Closed

record stream =
  str_ch :: nat
  str_after :: int64
  str_sent :: "AssistantThreadEvent list"
  str_phase :: stream_phase

definition open_stream :: "nat \<Rightarrow> int64 \<Rightarrow> stream" where
  "open_stream ch after = \<lparr>str_ch = ch, str_after = after, str_sent = [], str_phase = Reading\<rparr>"

definition stream_read :: "Scope \<Rightarrow> string \<Rightarrow> MemoryStore \<Rightarrow> stream \<Rightarrow> stream" where
  "stream_read scope i st s = (case ListAssistantThreadEvents scope i (str_after s) 500 st of
     Ok [] \<Rightarrow> s\<lparr>str_phase := Waiting\<rparr>
   | Ok events \<Rightarrow> s\<lparr>str_phase := Sending events\<rparr>
   | _ \<Rightarrow> s\<lparr>str_phase := Closed\<rparr>)"

definition stream_send :: "(string \<Rightarrow> bool option) \<Rightarrow> Scope \<Rightarrow> string \<Rightarrow> MemoryStore
    \<Rightarrow> AssistantThreadEvent \<Rightarrow> AssistantThreadEvent list \<Rightarrow> stream \<Rightarrow> stream" where
  "stream_send settled scope i st event rest s =
     (let s = s\<lparr>str_sent := str_sent s @ [event], str_after := tev_Sequence event\<rparr>
      in if assistantThreadTerminalEventEndsStream settled scope i event st then s\<lparr>str_phase := Closed\<rparr>
         else if rest = [] then s\<lparr>str_phase := Reading\<rparr> else s\<lparr>str_phase := Sending rest\<rparr>)"

text \<open>One step of the handler or, by \<open>env\<close>, of the other users of the store.\<close>

inductive stream_step :: "(MemoryStore \<Rightarrow> MemoryStore \<Rightarrow> bool) \<Rightarrow> (string \<Rightarrow> bool option) \<Rightarrow> Scope \<Rightarrow> string
    \<Rightarrow> MemoryStore \<times> stream \<Rightarrow> MemoryStore \<times> stream \<Rightarrow> bool" for env settled scope i where
  others: "env st st' \<Longrightarrow> stream_step env settled scope i (st, s) (st', s)"
| read: "str_phase s = Reading \<Longrightarrow> stream_step env settled scope i (st, s) (st, stream_read scope i st s)"
| send: "str_phase s = Sending (event # rest)
    \<Longrightarrow> stream_step env settled scope i (st, s) (st, stream_send settled scope i st event rest s)"
| arrival: "str_phase s = Waiting \<Longrightarrow> pending (threadEventSignals st) (str_ch s)
    \<Longrightarrow> stream_step env settled scope i (st, s)
         (st\<lparr>threadEventSignals := receive (str_ch s) (threadEventSignals st)\<rparr>, s\<lparr>str_phase := Reading\<rparr>)"
| keepalive: "str_phase s = Waiting \<Longrightarrow> stream_step env settled scope i (st, s) (st, s\<lparr>str_phase := Reading\<rparr>)"
| cancel: "stream_step env settled scope i (st, s) (st, s\<lparr>str_phase := Closed\<rparr>)"

text \<open>The stream that \<open>WatchAssistantThreadEvents\<close> has just subscribed.\<close>

definition starts_stream :: "Scope \<Rightarrow> string \<Rightarrow> int64 \<Rightarrow> MemoryStore \<times> stream \<Rightarrow> bool" where
  "starts_stream scope i start c \<longleftrightarrow> (\<exists>st0 ch st. c = (st, open_stream ch start)
     \<and> WatchAssistantThreadEvents scope i st0 = (Ok ch, st) \<and> readable st scope (TrimSpace i))"

definition thread_log_of :: "Scope \<Rightarrow> string \<Rightarrow> MemoryStore \<Rightarrow> AssistantThreadEvent list" where
  "thread_log_of scope i st = slice2 (threadEvents st) scope (TrimSpace i)"

definition later :: "int64 \<Rightarrow> AssistantThreadEvent list \<Rightarrow> AssistantThreadEvent list" where
  "later a log = filter (\<lambda>e. a < tev_Sequence e) log"

section \<open>The environments\<close>

text \<open>Any step of the store that does not delete the thread, and leaves room to number events.\<close>

definition keeps_thread :: "Scope \<Rightarrow> string \<Rightarrow> MemoryStore \<Rightarrow> MemoryStore \<Rightarrow> bool" where
  "keeps_thread scope i st st' \<longleftrightarrow> (\<exists>p out. store_step p out st st') \<and> store_inv st
     \<and> readable st' scope (TrimSpace i) \<and> (thread_log_of scope i st \<noteq> [] \<longrightarrow> thread_log_of scope i st' \<noteq> [])"

text \<open>Events appended to any thread by \<open>AppendAssistantThreadEvent\<close>, and other subscriptions.\<close>

definition appends :: "Scope \<Rightarrow> string \<Rightarrow> MemoryStore \<Rightarrow> MemoryStore \<Rightarrow> bool" where
  "appends scope i st st' \<longleftrightarrow> readable st' scope (TrimSpace i)
     \<and> ((\<exists>now s e n r. AppendAssistantThreadEvent now s e n st = (r, st'))
        \<or> (\<exists>s j r. WatchAssistantThreadEvents s j st = (r, st')))"

section \<open>What is sent and what is to come\<close>

lemma later_after:
  assumes "sublog log" "later a log = e # rest"
  shows "later (tev_Sequence e) log = rest" "a < tev_Sequence e" "e \<in> set log"
proof -
  from assms(2) have e: "e \<in> set (later a log)" by simp
  then show a: "a < tev_Sequence e" and "e \<in> set log" by (simp_all add: later_def)
  have s: "sorted_wrt (\<lambda>a b. tev_Sequence a < tev_Sequence b) (e # rest)"
    using assms unfolding later_def sublog_def by (metis sorted_wrt_filter)
  have "later (tev_Sequence e) log = filter (\<lambda>x. tev_Sequence e < tev_Sequence x) (later a log)"
    using a by (auto simp: later_def intro: filter_cong)
  also have "\<dots> = filter (\<lambda>x. tev_Sequence e < tev_Sequence x) (e # rest)" by (simp only: assms(2))
  also have "\<dots> = rest" using s by (auto simp: filter_id_conv)
  finally show "later (tev_Sequence e) log = rest" .
qed

lemma later_append:
  assumes "contiguous tev_Sequence (log @ es)" "a \<le> int (length log)"
  shows "later a (log @ es) = later a log @ es"
proof -
  have "a < tev_Sequence e" if e: "e \<in> set es" for e
  proof -
    obtain k where k: "k < length es" "es ! k = e" using e by (meson in_set_conv_nth)
    then have "tev_Sequence e = int (length log + k) + 1"
      using assms(1) by (auto simp: contiguous_def nth_append dest: spec [of _ "length log + k"])
    with assms(2) show ?thesis by simp
  qed
  then show ?thesis by (simp add: later_def filter_id_conv)
qed

lemma contiguous_bounds: "contiguous tev_Sequence log \<Longrightarrow> e \<in> set log \<Longrightarrow> tev_Sequence e \<le> int (length log)"
  by (auto simp: contiguous_def in_set_conv_nth)

definition stream_ok :: "Scope \<Rightarrow> string \<Rightarrow> int64 \<Rightarrow> MemoryStore \<times> stream \<Rightarrow> bool" where
  "stream_ok scope i start c \<longleftrightarrow> (case c of (st, s) \<Rightarrow>
     readable st scope (TrimSpace i)
     \<and> str_sent s @ later (str_after s) (thread_log_of scope i st) = later start (thread_log_of scope i st)
     \<and> (str_after s = start
        \<or> start < str_after s \<and> str_after s \<le> int (length (thread_log_of scope i st)))
     \<and> (\<forall>es. str_phase s = Sending es \<longrightarrow> es \<noteq> [] \<and> prefix es (later (str_after s) (thread_log_of scope i st))))"

lemma stream_ok_read:
  assumes "stream_ok scope i start (st, s)"
  shows "stream_ok scope i start (st, stream_read scope i st s)"
proof -
  have r: "readable st scope (TrimSpace i)" using assms by (simp add: stream_ok_def)
  have "ListAssistantThreadEvents scope i (str_after s) 500 st
      = Ok (take 500 (later (str_after s) (thread_log_of scope i st)))"
    by (simp add: ListAssistantThreadEvents_eq [OF r] later_def thread_log_of_def normalizeLimit_def)
  then have read: "stream_read scope i st s = (case take 500 (later (str_after s) (thread_log_of scope i st)) of
      [] \<Rightarrow> s\<lparr>str_phase := Waiting\<rparr> | events \<Rightarrow> s\<lparr>str_phase := Sending events\<rparr>)"
    by (simp add: stream_read_def split: list.split)
  have "prefix (take 500 (later (str_after s) (thread_log_of scope i st)))
      (later (str_after s) (thread_log_of scope i st))" by (rule take_is_prefix)
  with assms show ?thesis
    unfolding read stream_ok_def
    by (cases "take 500 (later (str_after s) (thread_log_of scope i st))") simp_all
qed

lemma stream_ok_send:
  assumes "stream_ok scope i start (st, s)" "str_phase s = Sending (event # rest)"
  shows "stream_ok scope i start (st, stream_send settled scope i st event rest s)"
proof -
  let ?log = "thread_log_of scope i st"
  have r: "readable st scope (TrimSpace i)"
    and pre: "prefix (event # rest) (later (str_after s) ?log)"
    and sent: "str_sent s @ later (str_after s) ?log = later start ?log"
    and near: "start \<le> str_after s"
    using assms by (auto simp: stream_ok_def)
  from pre obtain more where l: "later (str_after s) ?log = event # (rest @ more)" by (auto simp: prefix_def)
  have c: "contiguous tev_Sequence ?log" using readable_log(1) [OF r] by (simp add: thread_log_of_def)
  have "sublog ?log" using contiguous_sublog [OF c, of "\<lambda>_. True"] by simp
  note tail = later_after [OF this l]
  have "tev_Sequence event \<le> int (length ?log)" by (rule contiguous_bounds [OF c tail(3)])
  moreover have "start < tev_Sequence event" using near tail(2) by simp
  ultimately show ?thesis using r sent l tail by (auto simp: stream_ok_def stream_send_def Let_def prefix_def)
qed

lemma stream_ok_env:
  assumes "stream_ok scope i start (st, s)" "readable st' scope (TrimSpace i)"
    and "prefix (thread_log_of scope i st) (thread_log_of scope i st')"
  shows "stream_ok scope i start (st', s)"
proof -
  let ?log = "thread_log_of scope i st" and ?log' = "thread_log_of scope i st'"
  obtain es where es: "?log' = ?log @ es" using assms(3) by (auto simp: prefix_def)
  have c: "contiguous tev_Sequence (?log @ es)"
    using readable_log(1) [OF assms(2)] by (simp add: thread_log_of_def [symmetric] es)
  have new: "str_sent s @ later (str_after s) ?log' = later start ?log'"
  proof (cases "str_after s = start")
    case True
    with assms(1) show ?thesis by (simp add: stream_ok_def es later_def)
  next
    case False
    with assms(1) have "str_after s \<le> int (length ?log)" "start \<le> int (length ?log)"
      by (auto simp: stream_ok_def)
    then show ?thesis using assms(1) by (simp add: stream_ok_def es later_append [OF c])
  qed
  have "prefix es' (later (str_after s) ?log')" if "prefix es' (later (str_after s) ?log)" for es'
    using that by (auto simp: es later_def)
  with new assms(1,2) es show ?thesis by (auto simp: stream_ok_def)
qed

lemma history_prefix:
  "history st st' \<Longrightarrow> thread_log_of scope i st \<noteq> [] \<longrightarrow> thread_log_of scope i st' \<noteq> []
    \<Longrightarrow> prefix (thread_log_of scope i st) (thread_log_of scope i st')"
  by (auto simp: history_def threads_history_def log_kept_def thread_log_of_def)

lemma keeps_thread_prefix:
  "keeps_thread scope i st st' \<Longrightarrow> prefix (thread_log_of scope i st) (thread_log_of scope i st')"
  using store_step_history history_prefix unfolding keeps_thread_def by blast

lemma appends_prefix:
  assumes "appends scope i st st'" "thread_inv st"
  shows "prefix (thread_log_of scope i st) (thread_log_of scope i st')"
proof -
  from assms(1) consider (event) now s e n r where "AppendAssistantThreadEvent now s e n st = (r, st')"
    | (watch) s j r where "WatchAssistantThreadEvents s j st = (r, st')"
    by (auto simp: appends_def)
  then show ?thesis
  proof cases
    case event
    show ?thesis
      using event assms(2)
      by (cases rule: AppendAssistantThreadEvent_cases)
        (auto simp: thread_log_of_def gomap_simps simp del: appendAssistantThreadTurnEventsLocked.simps)
  next
    case watch
    then have "threadEvents st' = threadEvents st"
      by (auto simp: WatchAssistantThreadEvents_def Let_def split: option.splits if_splits prod.splits)
    then show ?thesis by (simp add: thread_log_of_def)
  qed
qed

lemma receive_readable: "readable (st\<lparr>threadEventSignals := b\<rparr>) scope t = readable st scope t"
proof -
  have "thread_inv (st\<lparr>threadEventSignals := b\<rparr>) = thread_inv st" by (rule thread_inv_fields) simp_all
  then show ?thesis by (simp add: readable_def)
qed

lemma stream_step_ok:
  assumes "stream_step env settled scope i c c'" "stream_ok scope i start c"
    and env: "\<And>st st'. thread_inv st \<Longrightarrow> env st st' \<Longrightarrow> readable st' scope (TrimSpace i)
       \<and> prefix (thread_log_of scope i st) (thread_log_of scope i st')"
  shows "stream_ok scope i start c'"
  using assms(1,2)
proof (induction rule: stream_step.induct)
  case (others st st' s)
  moreover from this have "thread_inv st" by (simp add: stream_ok_def readable_def)
  ultimately show ?case using env stream_ok_env by blast
next
  case (arrival s st)
  then show ?case by (simp add: stream_ok_def receive_readable thread_log_of_def)
next
  case (read s st)
  then show ?case by (simp add: stream_ok_read)
next
  case (send s event rest st)
  then show ?case by (simp add: stream_ok_send)
qed (simp_all add: stream_ok_def)

lemma starts_stream_ok: "starts_stream scope i start c \<Longrightarrow> stream_ok scope i start c"
  by (auto simp: starts_stream_def stream_ok_def open_stream_def)

lemma stream_run_ok:
  assumes "(stream_step env settled scope i)\<^sup>*\<^sup>* c c'" "starts_stream scope i start c"
    and "\<And>st st'. thread_inv st \<Longrightarrow> env st st' \<Longrightarrow> readable st' scope (TrimSpace i)
       \<and> prefix (thread_log_of scope i st) (thread_log_of scope i st')"
  shows "stream_ok scope i start c'"
  using assms(1)
proof (induction rule: rtranclp_induct)
  case base
  show ?case by (rule starts_stream_ok [OF assms(2)])
next
  case (step c1 c2)
  show ?case by (rule stream_step_ok [OF step(2,3) assms(3)])
qed

section \<open>No arrival is missed\<close>

definition awake :: "Scope \<Rightarrow> string \<Rightarrow> MemoryStore \<times> stream \<Rightarrow> bool" where
  "awake scope i c \<longleftrightarrow> (case c of (st, s) \<Rightarrow>
     subscribed (threadEventSignals st) (threadEventKey scope i) (str_ch s)
     \<and> str_ch s < bc_next (threadEventSignals st)
     \<and> (str_phase s = Waiting \<longrightarrow> pending (threadEventSignals st) (str_ch s)
        \<or> later (str_after s) (thread_log_of scope i st) = []))"

lemma subscribe_pending:
  "subscribe key b = (ch, b') \<Longrightarrow> c < bc_next b \<Longrightarrow> pending b' c = pending b c \<and> c < bc_next b'"
  by (auto simp: subscribe_def Let_def pending_def gomap_simps)

lemma appends_awake:
  assumes "appends scope i st st'" "awake scope i (st, s)" "thread_inv st"
  shows "awake scope i (st', s)"
proof -
  from assms(1) consider (event) now sc e n r where "AppendAssistantThreadEvent now sc e n st = (r, st')"
    | (watch) sc j r where "WatchAssistantThreadEvents sc j st = (r, st')"
    by (auto simp: appends_def)
  then show ?thesis
  proof cases
    case event
    then show ?thesis
      using assms(3)
    proof (cases rule: AppendAssistantThreadEvent_cases)
      case (stored a t log st1)
      have key: "threadEventKey sc (tev_ThreadID a) = threadEventKey scope i
          \<longleftrightarrow> sc = scope \<and> tev_ThreadID a = TrimSpace i"
        using stored(6) by (simp add: threadEventKey_eq)
      show ?thesis
        using assms(2) key
        by (auto simp: awake_def stored(8,9) thread_log_of_def gomap_simps
            simp del: appendAssistantThreadTurnEventsLocked.simps)
    qed (use assms(2) in simp)
  next
    case watch
    then have "threadEvents st' = threadEvents st"
      "threadEventSignals st' = threadEventSignals st
       \<or> (\<exists>ch. subscribe (threadEventKey sc j) (threadEventSignals st) = (ch, threadEventSignals st'))"
      by (auto simp: WatchAssistantThreadEvents_def Let_def split: option.splits if_splits prod.splits)
    then show ?thesis using assms(2)
      by (auto simp: awake_def thread_log_of_def subscribe_subscribed dest: subscribe_pending)
  qed
qed

lemma stream_read_phase:
  assumes "readable st scope (TrimSpace i)" "str_phase (stream_read scope i st s) = Waiting"
    "str_phase s = Reading"
  shows "later (str_after s) (thread_log_of scope i st) = []"
proof -
  have "ListAssistantThreadEvents scope i (str_after s) 500 st
      = Ok (take 500 (later (str_after s) (thread_log_of scope i st)))"
    by (simp add: ListAssistantThreadEvents_eq [OF assms(1)] later_def thread_log_of_def normalizeLimit_def)
  with assms(2) show ?thesis
    by (cases "take 500 (later (str_after s) (thread_log_of scope i st))") (simp_all add: stream_read_def)
qed

lemma stream_read_simps [simp]:
  "str_ch (stream_read scope i st s) = str_ch s" "str_after (stream_read scope i st s) = str_after s"
  by (simp_all add: stream_read_def split: res.split list.split)

lemma stream_send_simps [simp]:
  "str_ch (stream_send settled scope i st event rest s) = str_ch s"
  "str_phase (stream_send settled scope i st event rest s) \<noteq> Waiting"
  by (simp_all add: stream_send_def Let_def)

lemma receive_next [simp]: "bc_next (receive ch b) = bc_next b"
  by (simp add: receive_def)

lemma stream_step_awake:
  assumes "stream_step (appends scope i) settled scope i c c'" "awake scope i c"
    "stream_ok scope i start c"
  shows "awake scope i c'"
  using assms
proof (induction rule: stream_step.induct)
  case (others st st' s)
  then show ?case using appends_awake by (simp add: stream_ok_def readable_def)
next
  case (read s st)
  moreover from this have "readable st scope (TrimSpace i)" by (simp add: stream_ok_def)
  ultimately show ?case using stream_read_phase by (simp add: awake_def)
qed (simp_all add: awake_def)

lemma starts_stream_awake: "starts_stream scope i start c \<Longrightarrow> awake scope i c"
  by (auto simp: starts_stream_def awake_def open_stream_def WatchAssistantThreadEvents_def subscribe_subscribed
      subscribe_def Let_def split: option.splits if_splits prod.splits)

lemma appends_env:
  "thread_inv st \<Longrightarrow> appends scope i st st' \<Longrightarrow> readable st' scope (TrimSpace i)
     \<and> prefix (thread_log_of scope i st) (thread_log_of scope i st')"
  using appends_prefix by (simp add: appends_def)

lemma stream_run_awake:
  assumes "(stream_step (appends scope i) settled scope i)\<^sup>*\<^sup>* c c'" "starts_stream scope i start c"
  shows "awake scope i c' \<and> stream_ok scope i start c'"
  using assms(1)
proof (induction rule: rtranclp_induct)
  case base
  show ?case using starts_stream_awake starts_stream_ok assms(2) by blast
next
  case (step c1 c2)
  then show ?case using stream_step_awake stream_step_ok [OF step(2) _ appends_env] by blast
qed

end
