(* ===== verification/Spec_Threads.thy ===== *)
theory Spec_Threads
  imports Store_Examples Thread_Stream
begin

text \<open>
  The properties of threads, turns and thread event streams, each with an instance on the example
  project.
\<close>

section \<open>Threads\<close>

text \<open>
  C11. A thread's event log is read completely in both directions: following
  \<open>ListAssistantThreadEvents\<close> forwards and scrolling back with
  \<open>ListAssistantThreadEventsBefore\<close> both yield every event once, in order, with any page size.
\<close>

theorem thread_log_is_read_completely:
  assumes "readable st scope (TrimSpace i)"
    and "length (slice2 (threadEvents st) scope (TrimSpace i)) < fuel"
  shows "follow fuel (fetch_thread_events scope i limit st) tev_Sequence 0
      = slice2 (threadEvents st) scope (TrimSpace i)
    \<and> scroll_back fuel (fetch_thread_events_before scope i limit st) tev_Sequence 0
      = slice2 (threadEvents st) scope (TrimSpace i)"
  by (intro conjI follow_thread scroll_back_thread assms)

lemma ex_readable: "readable ex_turns ex_scope ''t''"
proof -
  have "length (slice2 (threadEvents ex_turns) ex_scope ''t'') = 3"
    and "read2 (assistantThreads ex_turns) ex_scope ''t'' \<noteq> None" by code_simp+
  then show ?thesis
    using store_invD(5) [OF ex_inv(5)] by (simp add: readable_def ex_values max_int64_def)
qed

lemma trim_t: "TrimSpace ''t'' = ''t''"
  by code_simp

lemma thread_log_is_read_completely_witness:
  "follow 4 (fetch_thread_events ex_scope ''t'' 2 ex_turns) tev_Sequence 0
      = slice2 (threadEvents ex_turns) ex_scope ''t''
    \<and> length (slice2 (threadEvents ex_turns) ex_scope ''t'') = 3"
proof -
  have "length (slice2 (threadEvents ex_turns) ex_scope ''t'') = 3" by code_simp
  with thread_log_is_read_completely [of ex_turns ex_scope "''t''" 4 2] ex_readable show ?thesis
    by (simp add: trim_t)
qed

text \<open>
  C12. The three projections of a thread's log answer what a scan of the log would: the events of
  one turn and type, the events of one type in any turn, and the sequence at which a turn started.
\<close>

theorem turn_projections_agree_with_log:
  assumes "readable st scope (TrimSpace i)" "TrimSpace u \<noteq> []" "TrimSpace ty \<noteq> []"
  shows "ListAssistantThreadTurnEventsAfter scope i u ty a limit st
      = Ok (take (nat (normalizeLimit limit)) (filter (\<lambda>e. a < tev_Sequence e) 
          (filter (of_turn (TrimSpace u) (TrimSpace ty)) (slice2 (threadEvents st) scope (TrimSpace i)))))
    \<and> ListAssistantThreadTurnEventsByTypeAfter scope i ty a limit st
      = Ok (take (nat (normalizeLimit limit)) (filter (\<lambda>e. has_turn e \<and> tev_Type e = TrimSpace ty
          \<and> a < tev_Sequence e) (slice2 (threadEvents st) scope (TrimSpace i))))
    \<and> GetAssistantThreadTurnStartSequence scope i u st
      = (case find (starts_turn (TrimSpace u)) (slice2 (threadEvents st) scope (TrimSpace i)) of
          None \<Rightarrow> Err ErrAssistantTurnNotFound | Some e \<Rightarrow> Ok (tev_Sequence e))"
  using ListAssistantThreadTurnEventsAfter_eq [OF assms(1-3)]
    ListAssistantThreadTurnEventsByTypeAfter_eq [OF assms(1,3)] GetAssistantThreadTurnStartSequence_eq [OF assms(1)]
  by blast

lemma turn_projections_agree_with_log_witness:
  "GetAssistantThreadTurnStartSequence ex_scope ''t'' ''r'' ex_turns = Ok 2"
proof -
  have t: "TrimSpace ''r'' = ''r''" "TrimSpace ''text'' = ''text''" by code_simp+
  have "map_option tev_Sequence (find (starts_turn ''r'') (slice2 (threadEvents ex_turns) ex_scope ''t'')) = Some 2"
    by code_simp
  with turn_projections_agree_with_log [of ex_turns ex_scope "''t''" "''r''" "''text''" 0 50] ex_readable
  show ?thesis by (auto simp: t trim_t)
qed

text \<open>
  C13. \<open>CreateAssistantTurn\<close> either returns the turn the same client message already started, with
  no event added, or every turn of the thread was over: then the new turn is stored beside them and
  its events are appended to the thread's log with the next numbers.
\<close>

theorem a_turn_starts_when_all_are_over:
  assumes "reachable quota st" "CreateAssistantTurn now scope turn events st = (Ok p, st')"
  defines "tid \<equiv> TrimSpace (turn_ThreadID turn)"
  shows "(\<exists>u. read3 (assistantTurns st) scope tid u = Some p
        \<and> turn_ClientUserMessageID p = TrimSpace (turn_ClientUserMessageID turn) \<and> threadEvents st' = threadEvents st)
    \<or> ((\<forall>u t. read3 (assistantTurns st) scope tid u = Some t \<longrightarrow> assistantTurnStatusTerminal (turn_Status t))
       \<and> (\<forall>u. read3 (assistantTurns st') scope tid u
            = (if u = turn_ID p then Some p else read3 (assistantTurns st) scope tid u))
       \<and> (\<exists>es. slice2 (threadEvents st') scope tid = slice2 (threadEvents st) scope tid
            @ number_events (latestAssistantThreadEventSequence (slice2 (threadEvents st) scope tid)) es
            \<and> length es = length events))"
  using assms(2) store_invD(5) [OF reachable_inv [OF assms(1)]]
proof (cases rule: CreateAssistantTurn_cases)
  case (found t)
  then show ?thesis by (auto simp: tid_def gvalues_iff read3_def)
next
  case (stored q th es)
  have tid: "turn_ThreadID q = tid" using prepareAssistantTurn_Inr(2) [OF stored(2)] by (simp add: tid_def)
  have "length es = length events"
    using prepareAssistantThreadEvents_own(2) [OF stored(3) set_turn_ids_own [OF stored(2)]]
    by (simp add: set_turn_ids_def)
  moreover have "assistantTurnStatusTerminal (turn_Status t)" if "read3 (assistantTurns st) scope tid u = Some t" for u t
    using that stored(6) by (auto simp: tid gvalues_iff read3_def)
  moreover have "read3 (assistantTurns st') scope tid u
      = (if u = turn_ID p then Some p else read3 (assistantTurns st) scope tid u)" for u
    using stored(1) by (simp add: stored(7) tid read3_put3 with_turn_map_read3
        del: appendAssistantThreadTurnEventsLocked.simps)
  moreover have "slice2 (threadEvents st') scope tid = slice2 (threadEvents st) scope tid
      @ number_events (latestAssistantThreadEventSequence (slice2 (threadEvents st) scope tid)) es"
    by (simp add: stored(7) tid gomap_simps del: appendAssistantThreadTurnEventsLocked.simps)
  ultimately show ?thesis by blast
qed auto

text \<open>The first turn over, a second one starts.\<close>

definition ex_over :: MemoryStore where
  "ex_over = snd (SaveAssistantTurn 11 ex_scope (ex_turn ''r'' AssistantTurnStatusCompleted) ex_turns)"

lemma a_turn_starts_when_all_are_over_witness:
  "\<exists>p st' es. CreateAssistantTurn 12 ex_scope (ex_turn ''r2'' AssistantTurnStatusInProgress) [ex_event [] ''go''] ex_over
      = (Ok p, st') \<and> turn_ID p = ''r2'' \<and> length es \<le> 1
    \<and> slice2 (threadEvents st') ex_scope ''t'' = slice2 (threadEvents ex_over) ex_scope ''t''
        @ number_events (latestAssistantThreadEventSequence (slice2 (threadEvents ex_over) ex_scope ''t'')) es"
proof -
  let ?res = "CreateAssistantTurn 12 ex_scope (ex_turn ''r2'' AssistantTurnStatusInProgress) [ex_event [] ''go''] ex_over"
  have r: "reachable ex_quota ex_over" unfolding ex_over_def by (rule reach_ops [OF ex_reachable(5)])
  have "case fst ?res of Ok p \<Rightarrow> turn_ID p = ''r2'' | _ \<Rightarrow> False" by code_simp
  then obtain p where res: "?res = (Ok p, snd ?res)" and i: "turn_ID p = ''r2''"
    by (auto simp: prod_eq_iff split: res.splits)
  have t: "TrimSpace (turn_ThreadID (ex_turn ''r2'' AssistantTurnStatusInProgress)) = ''t''"
    by (simp add: ex_turn_def trim_t)
  note a_turn_starts_when_all_are_over [OF r res, unfolded t]
  then have "\<exists>es. length es \<le> 1 \<and> slice2 (threadEvents (snd ?res)) ex_scope ''t'' = slice2 (threadEvents ex_over) ex_scope ''t''
      @ number_events (latestAssistantThreadEventSequence (slice2 (threadEvents ex_over) ex_scope ''t'')) es"
  proof (elim disjE exE conjE)
    assume "threadEvents (snd ?res) = threadEvents ex_over"
    then show ?thesis by (intro exI [of _ "[]"]) simp
  next
    fix es assume "slice2 (threadEvents (snd ?res)) ex_scope ''t'' = slice2 (threadEvents ex_over) ex_scope ''t''
        @ number_events (latestAssistantThreadEventSequence (slice2 (threadEvents ex_over) ex_scope ''t'')) es"
      and "length es = length [ex_event [] ''go'']"
    then show ?thesis by (intro exI [of _ es]) simp
  qed
  with res i show ?thesis by blast
qed

section \<open>The event stream of a thread\<close>

text \<open>
  C14. A thread stream neither skips nor repeats an event: whatever the other users of the store
  do, short of deleting the thread, the events sent followed by the events still to come are the
  thread's log after the client's starting point.
\<close>

theorem stream_sends_the_log:
  assumes "starts_stream scope i start c"
    and "(stream_step (keeps_thread scope i) settled scope i)\<^sup>*\<^sup>* c (st, s)"
  shows "str_sent s @ later (str_after s) (thread_log_of scope i st) = later start (thread_log_of scope i st)"
proof -
  have "stream_ok scope i start (st, s)"
    by (rule stream_run_ok [OF assms(2,1)]) (use keeps_thread_prefix keeps_thread_def in blast)
  then show ?thesis by (simp add: stream_ok_def)
qed

text \<open>A stream of the example thread, after its second event.\<close>

definition ex_watched :: MemoryStore where
  "ex_watched = snd (WatchAssistantThreadEvents ex_scope ''t'' ex_turns)"

lemma ex_watched: "starts_stream ex_scope ''t'' start (ex_watched, open_stream 0 start)"
  "thread_log_of ex_scope ''t'' ex_watched = slice2 (threadEvents ex_turns) ex_scope ''t''"
proof -
  have w: "WatchAssistantThreadEvents ex_scope ''t'' ex_turns
      = (Ok (bc_next (threadEventSignals ex_turns)), ex_watched)"
    by (simp add: ex_watched_def WatchAssistantThreadEvents_def ex_values blank_def trim_t subscribe_def Let_def)
  then have fields: "threadEvents ex_watched = threadEvents ex_turns" "assistantThreads ex_watched = assistantThreads ex_turns"
    by (simp_all add: ex_watched_def WatchAssistantThreadEvents_def Let_def ex_values blank_def trim_t split: prod.split)
  have "thread_inv ex_watched" using WatchAssistantThreadEvents_inv [OF w] store_invD(5) [OF ex_inv(5)] by blast
  with ex_readable have "readable ex_watched ex_scope ''t''" by (simp add: readable_def fields)
  moreover have "bc_next (threadEventSignals ex_turns) = 0" by code_simp
  ultimately show "starts_stream ex_scope ''t'' start (ex_watched, open_stream 0 start)"
    using w by (auto simp: starts_stream_def trim_t)
  show "thread_log_of ex_scope ''t'' ex_watched = slice2 (threadEvents ex_turns) ex_scope ''t''"
    by (simp add: thread_log_of_def trim_t fields)
qed

text \<open>Reading and sending the one event after the second.\<close>

lemma ex_stream_run:
  "\<exists>e. (stream_step env settled ex_scope ''t'')\<^sup>*\<^sup>* (ex_watched, open_stream 0 2)
     (ex_watched, \<lparr>str_ch = 0, str_after = 3, str_sent = [e], str_phase = Waiting\<rparr>)"
proof -
  let ?s1 = "stream_read ex_scope ''t'' ex_watched (open_stream 0 2)"
  have "case str_phase ?s1 of Sending [e] \<Rightarrow> tev_Type e = ''text'' \<and> tev_Sequence e = 3 | _ \<Rightarrow> False"
    by code_simp
  then obtain e where e: "str_phase ?s1 = Sending [e]" "tev_Type e = ''text''" "tev_Sequence e = 3"
    by (auto split: stream_phase.splits list.splits)
  then have s1: "?s1 = (open_stream 0 2)\<lparr>str_phase := Sending [e]\<rparr>"
    by (auto simp: stream_read_def split: res.splits list.splits)
  let ?s2 = "(open_stream 0 3)\<lparr>str_sent := [e]\<rparr>"
  have s2: "stream_send settled ex_scope ''t'' ex_watched e [] ?s1 = ?s2"
    unfolding s1
    using e by (simp add: stream_send_def open_stream_def Let_def assistantThreadTerminalEventEndsStream_def
        terminal_event_types_def)
  have "case ListAssistantThreadEvents ex_scope ''t'' 3 500 ex_watched of Ok [] \<Rightarrow> True | _ \<Rightarrow> False" by code_simp
  then have s3: "stream_read ex_scope ''t'' ex_watched ?s2 = ?s2\<lparr>str_phase := Waiting\<rparr>"
    by (auto simp: stream_read_def open_stream_def split: res.splits list.splits)
  have "stream_step env settled ex_scope ''t'' (ex_watched, open_stream 0 2) (ex_watched, ?s1)"
    by (rule stream_step.read) (simp add: open_stream_def)
  moreover have "stream_step env settled ex_scope ''t'' (ex_watched, ?s1) (ex_watched, ?s2)"
    using stream_step.send [OF e(1), of env settled ex_scope "''t''" ex_watched] by (simp only: s2)
  moreover have "stream_step env settled ex_scope ''t'' (ex_watched, ?s2) (ex_watched, ?s2\<lparr>str_phase := Waiting\<rparr>)"
    using stream_step.read [of ?s2 env settled ex_scope "''t''" ex_watched] by (simp only: s3) (simp add: open_stream_def)
  ultimately have "(stream_step env settled ex_scope ''t'')\<^sup>*\<^sup>* (ex_watched, open_stream 0 2)
      (ex_watched, ?s2\<lparr>str_phase := Waiting\<rparr>)"
    by (intro converse_rtranclp_into_rtranclp [OF _ converse_rtranclp_into_rtranclp [OF _ r_into_rtranclp]])
  then show ?thesis by (auto simp: open_stream_def)
qed

lemma stream_sends_the_log_witness:
  "\<exists>e. [e] @ later 3 (slice2 (threadEvents ex_turns) ex_scope ''t'')
     = later 2 (slice2 (threadEvents ex_turns) ex_scope ''t'')"
proof -
  obtain e where "(stream_step (keeps_thread ex_scope ''t'') (\<lambda>_. None) ex_scope ''t'')\<^sup>*\<^sup>* (ex_watched, open_stream 0 2)
      (ex_watched, \<lparr>str_ch = 0, str_after = 3, str_sent = [e], str_phase = Waiting\<rparr>)" using ex_stream_run by blast
  from stream_sends_the_log [OF ex_watched(1) this] show ?thesis by (auto simp: ex_watched(2))
qed



end
