(* ===== verification/Spec_Tables.thy ===== *)
theory Spec_Tables
  imports Store_Examples
begin

text \<open>
  The properties of replica claims, spend counters, bootstrap permits and thumbnails, each with an
  instance on concrete data.
\<close>

section \<open>Replica claims\<close>

definition ex_claim :: "string \<Rightarrow> ReplicaClaim" where
  "ex_claim owner = \<lparr>claim_Key = ''k'', claim_Kind = ''activity'', claim_ScopeKey = ''s'',
     claim_OwnerReplica = owner, claim_OwnerAddr = [], claim_Detail = [], claim_Revision = 0,
     claim_HeartbeatAt = 0\<rparr>"

text \<open>Replica A holds the claim since instant 100.\<close>

definition ex_claimed :: MemoryStore where
  "ex_claimed = snd (TryClaimReplica 100 (ex_claim ''A'') 10 (NewMemoryStore ex_quota))"

lemma ex_claimed_holder:
  "gget (replicaClaims ex_claimed) ''k'' = Some ((ex_claim ''A'')\<lparr>claim_HeartbeatAt := 100\<rparr>)"
  by (simp add: ex_claimed_def TryClaimReplica_def NewMemoryStore_def ex_claim_def al.get_put Let_def)

text \<open>
  C16. A claim is mutually exclusive: \<open>TryClaimReplica\<close> wins exactly when the claim is free, its
  holder's heartbeat is stale, or the caller holds it already; when it loses, nothing changes and
  it is told the live holder.
\<close>

theorem claims_are_exclusive:
  assumes "TryClaimReplica now claim ttl st = (r, st')"
  shows "(\<exists>c. r = Ok (c, True) \<and> claim_OwnerReplica c = claim_OwnerReplica claim
        \<and> holder st (claim_Key claim) now ttl \<in> {None, Some (claim_OwnerReplica claim)}
        \<and> gget (replicaClaims st') (claim_Key claim) = Some c \<and> claim_HeartbeatAt c = now)
    \<or> (\<exists>c. r = Ok (c, False) \<and> st' = st \<and> holder st (claim_Key claim) now ttl = Some (claim_OwnerReplica c)
        \<and> claim_OwnerReplica c \<noteq> claim_OwnerReplica claim)"
proof -
  obtain c won where r: "r = Ok (c, won)"
    using assms by (auto simp: TryClaimReplica_def Let_def split: option.splits if_splits)
  show ?thesis
  proof (cases won)
    case True
    with assms r have won_try: "TryClaimReplica now claim ttl st = (Ok (c, True), st')" by simp
    then have "holder st (claim_Key claim) now ttl = Some owner \<Longrightarrow> owner = claim_OwnerReplica claim" for owner
      using TryClaim_iff [of now claim ttl st] by blast
    then have "holder st (claim_Key claim) now ttl \<in> {None, Some (claim_OwnerReplica claim)}"
      by (cases "holder st (claim_Key claim) now ttl") simp_all
    with TryClaim_won [OF won_try] r True show ?thesis by blast
  next
    case False
    with assms r have "TryClaimReplica now claim ttl st = (Ok (c, False), st')" by simp
    from TryClaim_refused [OF this] r False show ?thesis by simp
  qed
qed

lemma claims_are_exclusive_witness:
  "fst (TryClaimReplica 110 (ex_claim ''B'') 10 ex_claimed) = Ok ((ex_claim ''A'')\<lparr>claim_HeartbeatAt := 100\<rparr>, False)
    \<and> holder ex_claimed ''k'' 110 10 = Some ''A''"
proof -
  have lost: "TryClaimReplica 110 (ex_claim ''B'') 10 ex_claimed
      = (Ok ((ex_claim ''A'')\<lparr>claim_HeartbeatAt := 100\<rparr>, False), ex_claimed)"
    using ex_claimed_holder
    by (simp add: TryClaimReplica_def ex_claim_def Live_def time_IsZero_def time_Sub_def max_int64_def Let_def)
  from claims_are_exclusive [OF this] lost show ?thesis by (simp add: ex_claim_def)
qed



text \<open>
  Fencing: the revision of a claim never moves back, whoever claims, renews, takes over or
  gives up in between, as long as nobody releases it.
\<close>

theorem claim_revisions_do_not_move_back:
  assumes "claim_step\<^sup>*\<^sup>* st st'" "gget (replicaClaims st) key = Some c"
  shows "\<exists>c'. gget (replicaClaims st') key = Some c' \<and> claim_Revision c \<le> claim_Revision c'"
  using claim_steps_floor [OF assms(1)] assms(2) by (simp add: floor_kept_def)

lemma claim_revisions_do_not_move_back_witness:
  "\<exists>c'. gget (replicaClaims (snd (BumpReplicaClaimRevision ''k'' ''A'' 7 ex_claimed))) ''k'' = Some c'
     \<and> 0 \<le> claim_Revision c'"
proof -
  have "claim_step\<^sup>*\<^sup>* ex_claimed (snd (BumpReplicaClaimRevision ''k'' ''A'' 7 ex_claimed))"
    by (rule r_into_rtranclp) (rule claim_step.bump [OF prod.collapse [symmetric]])
  from claim_revisions_do_not_move_back [OF this ex_claimed_holder] show ?thesis by (simp add: ex_claim_def)
qed

text \<open>
  Handing over at shutdown: once a replica has relinquished its claims of a kind, any other
  replica wins any of them at once, without waiting for the staleness bound.
\<close>

theorem relinquished_claims_are_free:
  assumes "RelinquishReplicaClaims kind owner st = (r, st1)"
    and "gget (replicaClaims st) (claim_Key claim) = Some c" "claim_Kind c = kind" "claim_OwnerReplica c = owner"
    and "0 \<le> ttl" "ttl < max_int64" "unix_epoch + ttl < now"
  shows "\<exists>c' st2. TryClaimReplica now claim ttl st1 = (Ok (c', True), st2)
    \<and> claim_OwnerReplica c' = claim_OwnerReplica claim \<and> claim_Revision c' = claim_Revision c"
proof -
  have "gget (replicaClaims st1) (claim_Key claim) = Some (c\<lparr>claim_HeartbeatAt := replicaClaimRelinquishedAt\<rparr>)"
    using RelinquishReplicaClaims_get [OF assms(1), of "claim_Key claim"] assms(2-4) by simp
  with relinquished_not_live [OF assms(5-7), of c] show ?thesis
    by (simp add: TryClaimReplica_def Let_def)
qed

lemma relinquished_claims_are_free_witness:
  "\<exists>c' st2. TryClaimReplica (unix_epoch + 11) (ex_claim ''B'') 10
      (snd (RelinquishReplicaClaims ''activity'' ''A'' ex_claimed)) = (Ok (c', True), st2)
    \<and> claim_OwnerReplica c' = ''B'' \<and> claim_Revision c' = 0"
  using relinquished_claims_are_free [OF prod.collapse [symmetric], of ex_claimed "ex_claim ''B''" _
      "''activity''" "''A''" 10 "unix_epoch + 11"] ex_claimed_holder
  by (simp add: ex_claim_def max_int64_def)

section \<open>Organization spend\<close>

text \<open>
  C18. No spend is lost or counted twice: after any sequence of recordings on an empty store, the
  spend of an organization in a month is the sum of its valid calls in that month, whatever else
  was recorded in between, as long as the sum fits the counter.
\<close>

theorem spend_is_conserved:
  assumes "is_int64 (sum_list (map (\<lambda>c. delta_USDMicros (sc_delta c)) (calls_of org start cs)))"
  shows "spend_USDMicros (bucket (record_spend clock cs (NewMemoryStore quota)) org start)
      = sum_list (map (\<lambda>c. delta_USDMicros (sc_delta c)) (calls_of org start cs))"
proof -
  have "spend_USDMicros (bucket (NewMemoryStore quota) org start) = 0"
    by (simp add: bucket_def NewMemoryStore_def zero_spend_def)
  moreover from this have "is_int64 (spend_USDMicros (bucket (record_spend clock cs (NewMemoryStore quota)) org start))"
    by (intro record_spend_is_int64) (simp add: is_int64_def max_int64_def)
  ultimately show ?thesis
    using record_spend_total [of clock cs "NewMemoryStore quota" org start] assms by (simp add: wrap64_id)
qed

definition ex_call :: "time \<Rightarrow> int64 \<Rightarrow> spend_call" where
  "ex_call at usd = \<lparr>sc_org = ''o'', sc_at = at,
     sc_delta = \<lparr>delta_InputTokens = 1, delta_OutputTokens = 2, delta_USDMicros = usd\<rparr>, sc_now = at\<rparr>"

lemma spend_is_conserved_witness:
  "spend_USDMicros (bucket (record_spend 1 [ex_call 5 30, ex_call 6 12] (NewMemoryStore ex_quota)) ''o'' 0) = 42"
proof -
  have "map (\<lambda>c. delta_USDMicros (sc_delta c)) (calls_of ''o'' 0 [ex_call 5 30, ex_call 6 12]) = [30, 12]"
    by code_simp
  with spend_is_conserved [of "''o''" 0 "[ex_call 5 30, ex_call 6 12]" 1 ex_quota] show ?thesis
    by (simp add: is_int64_def max_int64_def)
qed

text \<open>
  The spend period is a calendar month: its start is at most 31 days before the instant, is
  the start of its own period, and is the period start of every instant in between; two instants in
  order have the same period exactly when the first is not before the period of the second.
\<close>

theorem spend_period_is_a_month:
  "OrganizationSpendPeriodStart at \<le> at \<and> at < OrganizationSpendPeriodStart at + 31 * nanoseconds_per_day
    \<and> OrganizationSpendPeriodStart (OrganizationSpendPeriodStart at) = OrganizationSpendPeriodStart at
    \<and> (OrganizationSpendPeriodStart (min at u) = OrganizationSpendPeriodStart (max at u)
        \<longleftrightarrow> OrganizationSpendPeriodStart (max at u) \<le> min at u)"
proof -
  have "OrganizationSpendPeriodStart t = OrganizationSpendPeriodStart v \<longleftrightarrow> OrganizationSpendPeriodStart v \<le> t"
    if "t \<le> v" for t v
    using period_start_between [of v t] period_start_bounds [of t] that by force
  then show ?thesis using period_start_bounds [of at] period_start_idem by simp
qed

section \<open>Bootstrap permits and thumbnails\<close>

text \<open>
  A bootstrap permit is consumed by one client request: once a consumption succeeded, a later
  one succeeds only for the same client request ID, whatever permit operations ran in between.
\<close>

theorem permits_are_consumed_once:
  assumes "ConsumeProjectBootstrapPermit scope actor digest c st = (Ok True, st1)"
    and "permit_step\<^sup>*\<^sup>* st1 st2"
    and "ConsumeProjectBootstrapPermit scope actor' digest' c' st2 = (Ok True, st3)"
  shows "TrimSpace c' = TrimSpace c"
proof -
  from Consume_won [OF assms(1)] obtain p where p: "gget (bootstrapPermits st1) scope = Some p"
    "permit_clientRequestID p = TrimSpace c" "TrimSpace c \<noteq> []" by blast
  from p(2,3) have taken: "permit_clientRequestID p \<noteq> []" by simp
  with permit_steps_keep [OF assms(2) p(1)] have "gget (bootstrapPermits st2) scope = Some p" by blast
  from Consume_taken [OF this taken assms(3)] p(2) show ?thesis by simp
qed

definition ex_permitted :: MemoryStore where
  "ex_permitted = snd (CreateProjectBootstrapPermit ex_scope ''a'' ''d'' (NewMemoryStore ex_quota))"

lemma permits_are_consumed_once_witness:
  "\<exists>st1 st3. ConsumeProjectBootstrapPermit ex_scope ''a'' ''d'' ''c'' ex_permitted = (Ok True, st1)
     \<and> ConsumeProjectBootstrapPermit ex_scope ''a'' ''d'' '' c'' st1 = (Ok True, st3) \<and> TrimSpace '' c'' = ''c''"
proof -
  let ?r1 = "ConsumeProjectBootstrapPermit ex_scope ''a'' ''d'' ''c'' ex_permitted"
  let ?r3 = "ConsumeProjectBootstrapPermit ex_scope ''a'' ''d'' '' c'' (snd ?r1)"
  have "fst ?r1 = Ok True \<and> fst ?r3 = Ok True \<and> TrimSpace ''c'' = ''c''" by code_simp
  then have r: "?r1 = (Ok True, snd ?r1)" "?r3 = (Ok True, snd ?r3)" and t: "TrimSpace ''c'' = ''c''"
    by (simp_all add: prod_eq_iff)
  from permits_are_consumed_once [OF r(1) rtranclp.rtrancl_refl r(2)] r t show ?thesis by metis
qed

text \<open>
  The newest thumbnail wins: after any sequence of captures, arriving in any order, the stored
  thumbnail is an accepted one whose commit no other accepted one is newer than.
\<close>

theorem newest_thumbnail_is_stored:
  assumes "gget (projectThumbnails st) scope = Some s"
  shows "\<exists>t \<in> insert s (set (accepted scope ts)).
    gget (projectThumbnails (put_thumbnails scope ts st)) scope = Some t
    \<and> (\<forall>u \<in> insert s (set (accepted scope ts)). commit_key u \<le> commit_key t)"
  by (rule put_thumbnails_newest [OF assms])

definition ex_thumbnail :: "time \<Rightarrow> ProjectThumbnail" where
  "ex_thumbnail at = \<lparr>thumb_CommitSHA = ''s'', thumb_CommitCreatedAt = at, thumb_CommitOrder = ''1'',
     thumb_Variant = ''v'', thumb_ContentType = ''image/png'', thumb_SHA256 = ''d'', thumb_Data = ''x'',
     thumb_DataEncrypted = False, thumb_DataKeyID = [], thumb_CapturedAt = 1\<rparr>"

lemma newest_thumbnail_is_stored_witness:
  "\<exists>t. gget (projectThumbnails (put_thumbnails ex_scope [ex_thumbnail 9, ex_thumbnail 7]
       ((NewMemoryStore ex_quota)\<lparr>projectThumbnails := [(ex_scope, ex_thumbnail 5)]\<rparr>))) ex_scope = Some t
     \<and> commit_key (ex_thumbnail 9) \<le> commit_key t"
proof -
  have "accepted ex_scope [ex_thumbnail 9, ex_thumbnail 7] = [ex_thumbnail 9, ex_thumbnail 7]" by code_simp
  with newest_thumbnail_is_stored [of "(NewMemoryStore ex_quota)\<lparr>projectThumbnails := [(ex_scope, ex_thumbnail 5)]\<rparr>"
      ex_scope "ex_thumbnail 5" "[ex_thumbnail 9, ex_thumbnail 7]"]
  show ?thesis by (auto simp: gget_Cons)
qed

end
