(* ===== verification/Spec_Files.thy ===== *)
theory Spec_Files
  imports Store_Examples
begin

text \<open>
  The properties of attachments and of retention, each with an instance on the example project.
  The attachment SDK is a parameter; \<open>ex_sdk\<close> is one that does what the code relies on.
\<close>

section \<open>Attachments\<close>

definition ex_sdk :: attachment_sdk where
  "ex_sdk = \<lparr>ValidateAttachmentID = (\<lambda>i. if i = [] then Some (ErrInvalid ''id'') else None),
     NormalizeAttachmentContentType = (\<lambda>c. Inr ''c''),
     ValidateAttachmentContent = (\<lambda>f c d. None),
     UploadMetadataMatches = (\<lambda>a b. rcpt_ID a = rcpt_ID b \<and> rcpt_Filename a = rcpt_Filename b
        \<and> rcpt_SHA256 a = rcpt_SHA256 b),
     Sum256_hex = (\<lambda>d. replicate 64 CHR ''0''), DefaultAttachmentDraftRetention = 1000\<rparr>"

definition ex_file :: "string \<Rightarrow> Attachment" where
  "ex_file i = \<lparr>att_ID = i, att_ProjectName = [], att_ProjectUID = [], att_ActorID = ''a'',
     att_Filename = ''f'', att_ContentType = ''c'', att_SizeBytes = 3, att_SHA256 = replicate 64 CHR ''0'',
     att_Draft = True, att_CreatedAt = 1000, att_ExpiresAt = Some 900000, att_Data = ''xyz'',
     att_DataEncrypted = False, att_DataKeyID = [], att_BindingID = [], att_DraftExpiresAt = None\<rparr>"

definition ex_uploaded :: MemoryStore where
  "ex_uploaded = snd (CreateAttachment ex_sdk 2000 ex_scope (ex_file ''f1'') (NewMemoryStore ex_quota))"

lemma ex_uploaded_reachable: "reachable ex_quota ex_uploaded"
  unfolding ex_uploaded_def by (rule reach_ops(8) [OF reachable.new]) (simp_all add: ex_file_def)

lemma ex_uploaded: "\<exists>p. CreateAttachment ex_sdk 2000 ex_scope (ex_file ''f1'') (NewMemoryStore ex_quota) = (Ok p, ex_uploaded)
    \<and> att_Draft p \<and> att_ID p = ''f1''"
proof -
  have "case fst (CreateAttachment ex_sdk 2000 ex_scope (ex_file ''f1'') (NewMemoryStore ex_quota)) of
    Ok p \<Rightarrow> att_Draft p \<and> att_ID p = ''f1'' | _ \<Rightarrow> False" by code_simp
  then show ?thesis by (auto simp: ex_uploaded_def prod_eq_iff split: res.splits)
qed

text \<open>
  C19. Admission respects the quotas: right after an upload is accepted, the workspace is within
  its byte quota, and for a draft the project is within its draft byte and draft count quotas,
  where a quota of zero is none; expired drafts of the workspace no longer count.
\<close>

theorem uploads_respect_quotas:
  assumes "reachable quota st" "CreateAttachment sdk now scope a st = (Ok p, st')"
    and "att_BindingID a = []" "att_DraftExpiresAt a = None"
    and "is_int64 (workspace_bytes scope (attachments st'))"
  defines "q \<equiv> attachmentQuota st"
  shows "(WorkspaceMaxBytes q > 0 \<longrightarrow> workspace_bytes scope (attachments st') \<le> WorkspaceMaxBytes q)
    \<and> (att_Draft p \<longrightarrow> DraftProjectMaxCount q > 0
        \<longrightarrow> draft_count (gread (attachments st') scope) \<le> DraftProjectMaxCount q)
    \<and> (att_Draft p \<longrightarrow> DraftProjectMaxBytes q > 0
        \<longrightarrow> draft_bytes (gread (attachments st') scope) \<le> DraftProjectMaxBytes q)"
  unfolding q_def
  by (rule CreateAttachment_quota [OF assms(2) store_invD(6) [OF reachable_inv [OF assms(1)]] assms(3-5)])

lemma uploads_respect_quotas_witness:
  "workspace_bytes ex_scope (attachments ex_uploaded) \<le> 100
    \<and> draft_count (gread (attachments ex_uploaded) ex_scope) \<le> 2
    \<and> draft_bytes (gread (attachments ex_uploaded) ex_scope) \<le> 50"
proof -
  obtain p where p: "CreateAttachment ex_sdk 2000 ex_scope (ex_file ''f1'') (NewMemoryStore ex_quota) = (Ok p, ex_uploaded)"
    "att_Draft p" using ex_uploaded by blast
  have "workspace_bytes ex_scope (attachments ex_uploaded) = 3" by code_simp
  with uploads_respect_quotas [OF reachable.new p(1)] p(2) show ?thesis
    by (simp add: ex_file_def NewMemoryStore_def ex_quota_def is_int64_def max_int64_def)
qed

text \<open>
  Uploading is idempotent: the same upload again, at any time before the stored draft expires,
  returns the stored attachment, says it was there already, and changes nothing.
\<close>

theorem upload_retries_are_idempotent:
  assumes "CreateAttachmentIdempotent sdk now scope candidate st = (Ok (a, fresh), st')"
    and "sdk_ok sdk" "\<not> attachmentExpired a now'"
  shows "CreateAttachmentIdempotent sdk now' scope candidate st' = (Ok (a, False), st')"
  by (rule CreateAttachmentIdempotent_retry [OF assms])

lemma ex_sdk_ok: "sdk_ok ex_sdk"
  by (auto simp: sdk_ok_def ex_sdk_def)

lemma upload_retries_are_idempotent_witness:
  "\<exists>a st'. CreateAttachmentIdempotent ex_sdk 2000 ex_scope (ex_file ''f2'') ex_uploaded = (Ok (a, True), st')
    \<and> CreateAttachmentIdempotent ex_sdk 3000 ex_scope (ex_file ''f2'') st' = (Ok (a, False), st')"
proof -
  let ?r = "CreateAttachmentIdempotent ex_sdk 2000 ex_scope (ex_file ''f2'') ex_uploaded"
  have "case fst ?r of Ok (a, fresh) \<Rightarrow> fresh \<and> \<not> attachmentExpired a 3000 | _ \<Rightarrow> False" by code_simp
  then obtain a where "?r = (Ok (a, True), snd ?r)" "\<not> attachmentExpired a 3000"
    by (auto simp: prod_eq_iff split: res.splits)
  from upload_retries_are_idempotent [OF this(1) ex_sdk_ok this(2)] this(1) show ?thesis by blast
qed

text \<open>
  C20. Binding is all or nothing and can be undone: when \<open>BindAttachments\<close> succeeds and the binding
  ID was not in use, \<open>RollbackAttachmentBinding\<close> of that ID succeeds and restores every attachment of
  the store exactly.
\<close>

theorem binding_rolls_back_exactly:
  assumes "reachable quota st" "BindAttachments sdk now scope receipts actor b st = (Ok result, st1)"
    and "RollbackAttachmentBinding scope b st1 = (r, st2)"
    and "\<And>i a. read2 (attachments st) scope i = Some a \<Longrightarrow> att_BindingID a \<noteq> TrimSpace b"
  shows "r = Ok () \<and> read2 (attachments st2) s i = read2 (attachments st) s i"
  by (rule bind_rollback [OF assms(2,3) store_invD(6) [OF reachable_inv [OF assms(1)]] assms(4)])

definition ex_receipt :: AttachmentReceipt where
  "ex_receipt = \<lparr>rcpt_ID = ''f1'', rcpt_Filename = ''f'', rcpt_ContentType = ''c'', rcpt_SizeBytes = 3,
     rcpt_SHA256 = replicate 64 CHR ''0'', rcpt_CreatedAt = 1000\<rparr>"

definition ex_bound :: MemoryStore where
  "ex_bound = snd (BindAttachments ex_sdk 3000 ex_scope [ex_receipt] ''a'' ''turn'' ex_uploaded)"

lemma ex_uploaded_files:
  assumes "read2 (attachments ex_uploaded) ex_scope i = Some a"
  shows "att_BindingID a = []"
proof -
  have "list_all (\<lambda>a. att_BindingID a = []) (gvalues (gread (attachments ex_uploaded) ex_scope))" by code_simp
  with assms show ?thesis by (auto simp: list_all_iff gvalues_iff read2_def)
qed

lemma binding_rolls_back_exactly_witness:
  "read2 (attachments (snd (RollbackAttachmentBinding ex_scope ''turn'' ex_bound))) ex_scope ''f1''
     = read2 (attachments ex_uploaded) ex_scope ''f1''
   \<and> map_option att_Draft (read2 (attachments ex_bound) ex_scope ''f1'') = Some False"
proof -
  let ?r = "BindAttachments ex_sdk 3000 ex_scope [ex_receipt] ''a'' ''turn'' ex_uploaded"
  have "res_ok (fst ?r)" and bound: "map_option att_Draft (read2 (attachments ex_bound) ex_scope ''f1'') = Some False"
    and t: "TrimSpace ''turn'' = ''turn''" by code_simp+
  then obtain result where "?r = (Ok result, ex_bound)" by (auto simp: res_ok_iff ex_bound_def prod_eq_iff)
  from binding_rolls_back_exactly [OF ex_uploaded_reachable this prod.collapse [symmetric], of ex_scope "''f1''"]
    ex_uploaded_files bound show ?thesis by (auto simp: t)
qed

text \<open>
  After a reconciliation no attachment is bound to a turn that does not exist: every attachment
  that is not a draft is owned by a stored turn of its project.
\<close>

theorem reconciled_bindings_are_owned:
  assumes "ReconcileAttachmentBindings sdk now st = (r, st')"
    and "read2 (attachments st') s i = Some a" "\<not> att_Draft a"
  shows "\<exists>t j turn. read3 (assistantTurns st) s t j = Some turn \<and> turn_ID turn = att_BindingID a"
  by (rule reconcile_owned [OF assms])

text \<open>A file bound to the turn of the example thread stays bound.\<close>

definition ex_owned :: MemoryStore where
  "ex_owned = snd (BindAttachments ex_sdk 3000 ex_scope [ex_receipt] ''a'' ''r''
     (ex_turns\<lparr>attachments := attachments ex_uploaded\<rparr>))"

lemma reconciled_bindings_are_owned_witness:
  "\<exists>t j turn. read3 (assistantTurns ex_owned) ex_scope t j = Some turn \<and> turn_ID turn = ''r''"
proof -
  let ?r = "ReconcileAttachmentBindings ex_sdk 4000 ex_owned"
  have "case read2 (attachments (snd ?r)) ex_scope ''f1'' of Some a \<Rightarrow> \<not> att_Draft a \<and> att_BindingID a = ''r'' | None \<Rightarrow> False"
    by code_simp
  then obtain a where "read2 (attachments (snd ?r)) ex_scope ''f1'' = Some a" "\<not> att_Draft a" "att_BindingID a = ''r''"
    by (auto split: option.splits)
  from reconciled_bindings_are_owned [OF prod.collapse [symmetric] this(1,2)] this(3) show ?thesis by simp
qed

text \<open>
  Quotas read back: a byte count printed in decimal, alone or with one of the four binary
  suffixes, is parsed to that number of bytes as long as it fits 63 bits.
\<close>

theorem quota_round_trip:
  assumes "(suffix, factor) \<in> set (([], 1) # quota_suffixes)" "int n * factor \<le> max_int64"
  shows "ParseAttachmentQuotaBytes (itoa n @ suffix) = Inr (int n * factor)"
  using assms ParseAttachmentQuotaBytes_suffix [of suffix factor n] ParseAttachmentQuotaBytes_plain [of n]
  by (auto simp del: itoa.simps)

lemma quota_round_trip_witness: "ParseAttachmentQuotaBytes (itoa 25 @ ''Mi'') = Inr 26214400"
  using quota_round_trip [of "''Mi''" "2 ^ 20" 25] by (simp add: quota_suffixes_def max_int64_def)

section \<open>Retention\<close>

text \<open>
  C21. Retention spares unfinished work: \<open>DeleteMessagesOlderThan\<close> keeps every run that is not over
  and every message such a run uses, however old they are, and everything newer than the cutoff.
\<close>

theorem retention_spares_unfinished_runs:
  assumes "DeleteMessagesOlderThan before st = (r, st')"
    and "read2 (assistantRuns st) s i = Some run" "\<not> assistantRunStatusTerminal (run_Status run)"
  shows "read2 (assistantRuns st') s i = Some run
    \<and> slice2 (assistantEvents st') s i = slice2 (assistantEvents st) s i
    \<and> (m \<in> set (run_message_ids run) \<longrightarrow> read2 (messages st') s m = read2 (messages st) s m)"
  using assms(1)
proof (rule DeleteMessagesOlderThan_loops)
  fix n kept st2
  assume kept: "\<And>s i. read2 kept s i = (case read2 (messages st) s i of None \<Rightarrow> None
       | Some x \<Rightarrow> if message_expired before (gread (assistantRuns st) s) i x then None else Some x)"
    and runs: "runs_gone {(s, i). \<exists>x. read2 (assistantRuns st) s i = Some x \<and> run_expired before x}
       (st\<lparr>messages := kept\<rparr>) st2"
    and threads: "threads_gone {(s, t). \<exists>th. read2 (assistantThreads st) s t = Some th
         \<and> thread_old before th (read3 (assistantTurns st) s t)} st2 st'"
  have "\<not> (\<exists>x. read2 (assistantRuns st) s i = Some x \<and> run_expired before x)"
    using assms(2,3) by (simp add: run_expired_def)
  then have "read2 (assistantRuns st2) s i = Some run"
    "slice2 (assistantEvents st2) s i = slice2 (assistantEvents st) s i"
    using conjunct2 [OF runs [unfolded runs_gone_def]] assms(2) by simp_all
  moreover have "m \<in> set (run_message_ids run) \<Longrightarrow> protected (gread (assistantRuns st) s) m"
    using assms(2,3) by (auto simp: protected_iff)
  then have "m \<in> set (run_message_ids run) \<Longrightarrow> read2 kept s m = read2 (messages st) s m"
    by (simp add: kept message_expired_def split: option.split)
  ultimately show ?thesis
    using threads_gone_frame [OF threads] runs_gone_frame(1) [OF runs] by simp
qed

lemma retention_spares_unfinished_runs_witness:
  "read2 (messages (snd (DeleteMessagesOlderThan 100 ex_running))) ex_scope ''m4''
      = read2 (messages ex_running) ex_scope ''m4''
    \<and> read2 (messages ex_running) ex_scope ''m4'' \<noteq> None
    \<and> read2 (messages (snd (DeleteMessagesOlderThan 100 ex_running))) ex_scope ''m1'' = None"
proof -
  have "case read2 (assistantRuns ex_running) ex_scope ''r'' of
      Some run \<Rightarrow> \<not> assistantRunStatusTerminal (run_Status run) \<and> ''m4'' \<in> set (run_message_ids run) | None \<Rightarrow> False"
    and here: "read2 (messages ex_running) ex_scope ''m4'' \<noteq> None"
    and gone: "read2 (messages (snd (DeleteMessagesOlderThan 100 ex_running))) ex_scope ''m1'' = None" by code_simp+
  then obtain run where "read2 (assistantRuns ex_running) ex_scope ''r'' = Some run"
    "\<not> assistantRunStatusTerminal (run_Status run)" "''m4'' \<in> set (run_message_ids run)"
    by (auto split: option.splits)
  from retention_spares_unfinished_runs [OF prod.collapse [symmetric] this(1,2)] this(3) here gone
  show ?thesis by blast
qed




end
