(* ===== verification/Go_Float.thy ===== *)
theory Go_Float
  imports Go_Prelude "HOL-Library.Log_Nat"
begin

text \<open>
  \<open>float64\<close> of Go: IEEE 754 binary64 with rounding to nearest even, as the finite values (rationals),
  the two infinities and NaN. The sign of zero is not kept, since nothing here divides or prints a
  float. An expression is rounded after each operation; fusing a product and a sum, which the
  language allows, gives the same result wherever the two are exact.
\<close>

datatype float64 = Fin rat | Inf bool | NaN

section \<open>Rounding\<close>

text \<open>The exponent of the leading binary digit of a positive rational.\<close>

definition leading_exponent :: "rat \<Rightarrow> int" where
  "leading_exponent a = (let (n, d) = quotient_of a; k = bitlen n - bitlen d
     in if 2 powi k \<le> a then k else k - 1)"

definition round_even :: "rat \<Rightarrow> int" where
  "round_even y = (let q = \<lfloor>y\<rfloor>; r = y - of_int q
     in if r < 1 / 2 \<or> r = 1 / 2 \<and> even q then q else q + 1)"

definition unit_last_place :: "rat \<Rightarrow> rat" where
  "unit_last_place a = 2 powi (max (leading_exponent a) (- 1022) - 52)"

definition round64 :: "rat \<Rightarrow> float64" where
  "round64 x = (if x = 0 then Fin 0
     else let u = unit_last_place \<bar>x\<bar>; v = of_int (round_even (\<bar>x\<bar> / u)) * u
       in if 2 ^ 1024 \<le> v then Inf (x < 0) else Fin (sgn x * v))"

section \<open>Arithmetic and comparison\<close>

fun fadd :: "float64 \<Rightarrow> float64 \<Rightarrow> float64" where
  "fadd (Fin x) (Fin y) = round64 (x + y)"
| "fadd (Inf s) (Inf t) = (if s = t then Inf s else NaN)"
| "fadd (Inf s) (Fin y) = Inf s"
| "fadd (Fin x) (Inf t) = Inf t"
| "fadd NaN y = NaN"
| "fadd x NaN = NaN"

fun fneg :: "float64 \<Rightarrow> float64" where
  "fneg (Fin x) = Fin (- x)"
| "fneg (Inf s) = Inf (\<not> s)"
| "fneg NaN = NaN"

definition fsub :: "float64 \<Rightarrow> float64 \<Rightarrow> float64" where
  "fsub x y = fadd x (fneg y)"

fun fmul :: "float64 \<Rightarrow> float64 \<Rightarrow> float64" where
  "fmul (Fin x) (Fin y) = round64 (x * y)"
| "fmul (Inf s) (Inf t) = Inf (s \<noteq> t)"
| "fmul (Inf s) (Fin y) = (if y = 0 then NaN else Inf (s \<noteq> (y < 0)))"
| "fmul (Fin x) (Inf t) = (if x = 0 then NaN else Inf (t \<noteq> (x < 0)))"
| "fmul NaN y = NaN"
| "fmul x NaN = NaN"

text \<open>\<open><=\<close> of Go, false if an operand is NaN.\<close>

fun fle :: "float64 \<Rightarrow> float64 \<Rightarrow> bool" where
  "fle (Fin x) (Fin y) = (x \<le> y)"
| "fle (Inf s) (Inf t) = (s \<or> \<not> t)"
| "fle (Inf s) (Fin y) = s"
| "fle (Fin x) (Inf t) = (\<not> t)"
| "fle NaN y = False"
| "fle x NaN = False"

definition float64_of_int :: "int \<Rightarrow> float64" where
  "float64_of_int n = round64 (of_int n)"

definition math_Max :: "float64 \<Rightarrow> float64 \<Rightarrow> float64" where
  "math_Max x y = (if x = Inf False \<or> y = Inf False then Inf False
     else if x = NaN \<or> y = NaN then NaN else if fle x y then y else x)"

fun math_Floor :: "float64 \<Rightarrow> float64" where
  "math_Floor (Fin x) = Fin (of_int \<lfloor>x\<rfloor>)"
| "math_Floor x = x"

text \<open>\<open>math.Round\<close> rounds halves away from zero.\<close>

fun math_Round :: "float64 \<Rightarrow> float64" where
  "math_Round (Fin x) = Fin (sgn x * of_int \<lfloor>\<bar>x\<bar> + 1 / 2\<rfloor>)"
| "math_Round x = x"

text \<open>
  \<open>int64(x)\<close> drops the fraction; a value that does not fit is implementation-defined in Go, and on
  amd64 it is the least \<open>int64\<close>.
\<close>

fun int64_of_float :: "float64 \<Rightarrow> int64" where
  "int64_of_float (Fin x) = (let n = (if x < 0 then \<lceil>x\<rceil> else \<lfloor>x\<rfloor>)
     in if is_int64 n then n else - 9223372036854775808)"
| "int64_of_float _ = - 9223372036854775808"

section \<open>Exact values\<close>

lemma leading_exponent_bounds:
  assumes a: "0 < a"
  shows "2 powi leading_exponent a \<le> a" "a < 2 powi (leading_exponent a + 1)"
proof -
  obtain n d where nd: "quotient_of a = (n, d)" by fastforce
  have eq: "a = of_int n / of_int d" and d: "0 < d"
    using quotient_of_div [OF nd] quotient_of_denom_pos [OF nd] by simp_all
  then have n: "0 < n" using a by (simp add: zero_less_divide_iff)
  have bits: "2 powi (bitlen m - 1) \<le> (of_int m :: rat) \<and> of_int m < (2 powi bitlen m :: rat)" if m: "0 < m" for m
  proof -
    have "1 \<le> bitlen m" using m by (simp add: bitlen_alt_def)
    moreover have "of_int (2 ^ nat (bitlen m - 1)) \<le> (of_int m :: rat)" "of_int m < (of_int (2 ^ nat (bitlen m)) :: rat)"
      using bitlen_bounds [OF m] by (simp_all only: of_int_le_iff of_int_less_iff)
    ultimately show ?thesis by (simp add: power_int_nonneg_exp)
  qed
  let ?k = "bitlen n - bitlen d"
  have D: "2 powi (bitlen d - 1) \<le> (of_int d :: rat)" "of_int d < (2 powi bitlen d :: rat)" using bits [OF d] by simp_all
  have N: "2 powi (bitlen n - 1) \<le> (of_int n :: rat)" "of_int n < (2 powi bitlen n :: rat)" using bits [OF n] by simp_all
  have "a < 2 powi bitlen n / 2 powi (bitlen d - 1)"
    unfolding eq using N(2) D(1) n by (intro frac_less) simp_all
  moreover have "2 powi bitlen n / 2 powi (bitlen d - 1) = (2 powi (?k + 1) :: rat)"
    by (simp add: power_int_diff [symmetric] algebra_simps)
  moreover have "2 powi (bitlen n - 1) / 2 powi bitlen d \<le> a"
    unfolding eq using N(1) D(2) d n by (intro frac_le) simp_all
  moreover have "2 powi (bitlen n - 1) / 2 powi bitlen d = (2 powi (?k - 1) :: rat)"
    by (simp add: power_int_diff [symmetric] algebra_simps)
  ultimately show "2 powi leading_exponent a \<le> a" "a < 2 powi (leading_exponent a + 1)"
    by (auto simp: leading_exponent_def nd Let_def)
qed

lemma round_even_int [simp]: "round_even (of_int n) = n"
  by (simp add: round_even_def)

text \<open>A value with a short mantissa is not rounded.\<close>

lemma round64_exact:
  assumes x: "x = of_int m * 2 powi k" and m: "\<bar>m\<bar> < 2 ^ 53" and k: "- 1074 \<le> k" "k \<le> 971"
  shows "round64 x = Fin x"
proof (cases "x = 0")
  case False
  define e where "e = leading_exponent \<bar>x\<bar>"
  define j where "j = max e (- 1022) - 52"
  have a: "\<bar>x\<bar> = of_int \<bar>m\<bar> * 2 powi k" by (simp add: x abs_mult power_int_abs)
  have "of_int \<bar>m\<bar> < (of_int (2 ^ 53) :: rat)" using m by (simp only: of_int_less_iff)
  then have "\<bar>x\<bar> < 2 ^ 53 * 2 powi k" unfolding a by (intro mult_strict_right_mono) simp_all
  also have "\<dots> = 2 powi (53 + k)" by (simp add: power_int_add)
  finally have below: "\<bar>x\<bar> < 2 powi (53 + k)" .
  with leading_exponent_bounds(1) [of "\<bar>x\<bar>"] False have "2 powi e < (2 powi (53 + k) :: rat)"
    by (simp add: e_def)
  then have "e < 53 + k" using power_int_increasing [of "53 + k" e "2 :: rat"] by (meson not_le one_le_numeral)
  then have j: "j \<le> k" using k by (simp add: j_def)
  have u: "unit_last_place \<bar>x\<bar> = 2 powi j" by (simp add: unit_last_place_def j_def e_def)
  have "\<bar>x\<bar> / 2 powi j = of_int \<bar>m\<bar> * 2 powi (k - j)" by (simp add: a power_int_diff)
  also have "\<dots> = of_int (\<bar>m\<bar> * 2 ^ nat (k - j))" using j by (simp add: power_int_nonneg_exp)
  finally have q: "\<bar>x\<bar> / 2 powi j = of_int (\<bar>m\<bar> * 2 ^ nat (k - j))" .
  have "of_int (round_even (\<bar>x\<bar> / 2 powi j)) * 2 powi j = \<bar>x\<bar> / 2 powi j * 2 powi j"
    unfolding q by (simp only: round_even_int)
  then have v: "of_int (round_even (\<bar>x\<bar> / 2 powi j)) * 2 powi j = \<bar>x\<bar>" by simp
  have "2 powi (53 + k) \<le> (2 powi 1024 :: rat)" using k(2) by (intro power_int_increasing) simp_all
  with below have "\<bar>x\<bar> < 2 ^ 1024" by simp
  with False show ?thesis
    by (simp add: round64_def u v Let_def) (simp add: mult_sgn_abs)
qed (simp add: round64_def)

lemma float64_of_int_exact [simp]: "\<bar>n\<bar> < 2 ^ 53 \<Longrightarrow> float64_of_int n = Fin (of_int n)"
  unfolding float64_of_int_def by (rule round64_exact [where k = 0]) simp_all

text \<open>Quarters, as the weights of the token budget produce them.\<close>

lemma round64_quarters: "\<bar>n\<bar> < 2 ^ 53 \<Longrightarrow> round64 (of_int n / 4) = Fin (of_int n / 4)"
  by (rule round64_exact [where m = n and k = "-2"]) (simp_all add: power_int_minus)

section \<open>Large values are integers\<close>

lemma round_even_le: "y < of_int n \<Longrightarrow> round_even y \<le> n"
proof -
  assume "y < of_int n"
  then have "\<lfloor>y\<rfloor> < n" by (simp add: floor_less_iff)
  then show ?thesis by (simp add: round_even_def Let_def)
qed

lemma round64_integral:
  assumes y: "round64 x = Fin y" and large: "2 ^ 53 \<le> \<bar>y\<bar>"
  shows "\<exists>n. y = of_int n"
proof -
  have x: "x \<noteq> 0" using y large by (auto simp: round64_def)
  define e where "e = leading_exponent \<bar>x\<bar>"
  define j where "j = max e (- 1022) - 52"
  define n where "n = round_even (\<bar>x\<bar> / 2 powi j)"
  have u: "unit_last_place \<bar>x\<bar> = 2 powi j" by (simp add: unit_last_place_def j_def e_def)
  have yn: "y = sgn x * (of_int n * 2 powi j)"
    using y x by (simp add: round64_def u n_def Let_def split: if_splits)
  have "\<bar>x\<bar> < 2 powi (e + 1)" unfolding e_def using leading_exponent_bounds(2) x by simp
  also have "\<dots> \<le> (2 powi (53 + j) :: rat)" by (rule power_int_increasing) (simp_all add: j_def)
  also have "\<dots> = 2 ^ 53 * 2 powi j" by (simp add: power_int_add)
  finally have "\<bar>x\<bar> / 2 powi j < of_int (2 ^ 53)" by (simp add: divide_less_eq)
  then have n: "n \<le> 2 ^ 53" unfolding n_def by (rule round_even_le)
  have "0 \<le> \<bar>x\<bar> / 2 powi j" by simp
  then have "0 \<le> n" by (auto simp: n_def round_even_def Let_def)
  with x have "\<bar>y\<bar> = of_int n * 2 powi j" by (simp add: yn abs_mult power_int_abs)
  with large have "2 ^ 53 \<le> (of_int n :: rat) * 2 powi j" by simp
  also have "\<dots> \<le> of_int (2 ^ 53) * 2 powi j" using n by (intro mult_right_mono) (simp_all only: of_int_le_iff, simp)
  finally have one: "2 powi 0 \<le> (2 powi j :: rat)" by simp
  have "0 \<le> j"
  proof (rule ccontr)
    assume "\<not> 0 \<le> j"
    then have "2 powi j < (2 powi 0 :: rat)" by (intro power_int_strict_increasing) simp_all
    with one show False by simp
  qed
  then have "y = of_int (sgn n * n * 2 ^ nat j) \<or> y = of_int (- (sgn n * n) * 2 ^ nat j)"
    using x \<open>0 \<le> n\<close> by (cases "0 < x"; cases "n = 0") (auto simp: yn power_int_nonneg_exp)
  then show ?thesis by blast
qed

definition float_integral :: "float64 \<Rightarrow> bool" where
  "float_integral f \<longleftrightarrow> (\<forall>y. f = Fin y \<longrightarrow> 2 ^ 53 \<le> \<bar>y\<bar> \<longrightarrow> (\<exists>n. y = of_int n))"

lemma round64_float_integral [simp]: "float_integral (round64 x)"
  using round64_integral by (auto simp: float_integral_def)

lemma fadd_float_integral: "float_integral (fadd x y)"
  by (cases "(x, y)" rule: fadd.cases) (auto simp: float_integral_def dest: round64_integral)

lemma fmul_float_integral: "float_integral (fmul x y)"
  by (cases "(x, y)" rule: fmul.cases) (auto simp: float_integral_def dest: round64_integral)

end
