(* ===== verification/Run_Limits.thy ===== *)
theory Run_Limits
  imports Go_Float Store_Attachments
begin

text \<open>
  The limits of an assistant run as they are configured and printed: the ceiling of model calls
  and the token budget (\<open>src/api/llm.go\<close>), the monthly cap of an organization in micro-USD with
  the pricing of a model response (\<open>src/api/assistant_spend.go\<close>). \<open>strconv.ParseFloat\<close> and the
  model catalog are parameters; the log lines for a limit that is switched off are left out, but
  not the message they print.
\<close>

section \<open>Values of the environment\<close>

definition projectAssistantLimitValueUnlimited :: "string \<Rightarrow> bool" where
  "projectAssistantLimitValueUnlimited value =
     (let value = TrimSpace value in value = ''0'' \<or> EqualFold value ''unlimited'')"

definition projectAssistantUnlimitedIterations :: int64 where
  "projectAssistantUnlimitedIterations = max_int64"

definition projectAssistantDeepIterationsForValue :: "string \<Rightarrow> int64" where
  "projectAssistantDeepIterationsForValue value =
     (let value = TrimSpace value
      in if value = [] then 200
         else if projectAssistantLimitValueUnlimited value then projectAssistantUnlimitedIterations
         else (case ParseInt value of
             None \<Rightarrow> 200
           | Some iterations \<Rightarrow> if iterations \<le> 0 then 200 else iterations))"

definition projectAssistantRolloutBudgetTokensForValue :: "string \<Rightarrow> int64" where
  "projectAssistantRolloutBudgetTokensForValue value =
     (let value = TrimSpace value
      in if value = [] then 2000000
         else if projectAssistantLimitValueUnlimited value then 0
         else (case ParseInt value of
             None \<Rightarrow> 2000000
           | Some tokens \<Rightarrow> if tokens \<le> 0 then 2000000 else tokens))"

section \<open>Micro-USD\<close>

definition projectAssistantUSDMicros :: int64 where
  "projectAssistantUSDMicros = 1000000"

definition projectAssistantDefaultOrgMonthlyUSDCapMicros :: int64 where
  "projectAssistantDefaultOrgMonthlyUSDCapMicros = 100 * projectAssistantUSDMicros"

text \<open>The comparison with the constant \<open>math.MaxInt64\<close> is one with \<open>2^63\<close>, the nearest float.\<close>

definition projectAssistantClampUSDMicros :: "float64 \<Rightarrow> int64" where
  "projectAssistantClampUSDMicros micros =
     (if micros = NaN \<or> micros = Inf False \<or> fle (Fin (2 ^ 63)) micros then max_int64
      else if fle micros (Fin 0) then 0
      else int64_of_float (math_Round micros))"

record projectAssistantModelPrice =
  InputPer1M :: float64
  OutputPer1M :: float64

definition projectAssistantUnknownModelPrice :: projectAssistantModelPrice where
  "projectAssistantUnknownModelPrice = \<lparr>InputPer1M = Fin 5, OutputPer1M = Fin 25\<rparr>"

type_synonym model_catalog = "string \<Rightarrow> projectAssistantModelPrice option"

definition projectAssistantModelPriceFor ::
  "model_catalog \<Rightarrow> string \<Rightarrow> projectAssistantModelPrice \<times> bool" where
  "projectAssistantModelPriceFor LookupModel model = (case LookupModel model of
       Some entry \<Rightarrow> (entry, True)
     | None \<Rightarrow> (projectAssistantUnknownModelPrice, False))"

definition projectAssistantModelCostMicros :: "model_catalog \<Rightarrow> string \<Rightarrow> int64 \<Rightarrow> int64 \<Rightarrow> int64" where
  "projectAssistantModelCostMicros LookupModel model inputTokens outputTokens =
     (let price = fst (projectAssistantModelPriceFor LookupModel model);
          cost = fadd (fmul (float64_of_int (max inputTokens 0)) (InputPer1M price))
                      (fmul (float64_of_int (max outputTokens 0)) (OutputPer1M price))
      in projectAssistantClampUSDMicros cost)"

text \<open>\<open>strings.TrimPrefix\<close> and \<open>strings.TrimRight\<close> with a one-byte cutset.\<close>

definition TrimPrefix :: "string \<Rightarrow> string \<Rightarrow> string" where
  "TrimPrefix s p = (if take (length p) s = p then drop (length p) s else s)"

definition TrimRight_char :: "string \<Rightarrow> char \<Rightarrow> string" where
  "TrimRight_char s c = rev (dropWhile (\<lambda>x. x = c) (rev s))"

definition projectAssistantOrgMonthlyUSDCapMicrosForValue :: "(string \<Rightarrow> float64 option) \<Rightarrow> string \<Rightarrow> int64" where
  "projectAssistantOrgMonthlyUSDCapMicrosForValue ParseFloat value =
     (let value = TrimSpace value
      in if value = [] then projectAssistantDefaultOrgMonthlyUSDCapMicros
         else if projectAssistantLimitValueUnlimited value then 0
         else (case ParseFloat (TrimPrefix value ''$'') of
             None \<Rightarrow> projectAssistantDefaultOrgMonthlyUSDCapMicros
           | Some usd \<Rightarrow>
             if usd = NaN \<or> usd = Inf False \<or> usd = Inf True \<or> fle usd (Fin 0)
             then projectAssistantDefaultOrgMonthlyUSDCapMicros
             else let micros = projectAssistantClampUSDMicros
                    (fmul usd (float64_of_int projectAssistantUSDMicros))
                  in if micros = 0 then 1 else micros))"

text \<open>
  \<open>-micros\<close> wraps for the least \<open>int64\<close>; \<open>/\<close> and \<open>%\<close> of Go truncate, which matters for that value
  only. A negative remainder makes the fraction \<open>FormatInt\<close> of a number below \<open>10^6\<close>.
\<close>

definition go_div :: "int \<Rightarrow> int \<Rightarrow> int" where
  "go_div a b = sgn a * sgn b * (\<bar>a\<bar> div \<bar>b\<bar>)"

definition go_mod :: "int \<Rightarrow> int \<Rightarrow> int" where
  "go_mod a b = a - b * go_div a b"

definition FormatInt :: "int64 \<Rightarrow> string" where
  "FormatInt n = (if n < 0 then CHR ''-'' # itoa (nat (- n)) else itoa (nat n))"

definition projectAssistantFormatUSDMicros :: "int64 \<Rightarrow> string" where
  "projectAssistantFormatUSDMicros micros =
     (let (sign, micros) = (if micros < 0 then (''-'', wrap64 (- micros)) else ([], micros));
          fraction = drop 1 (FormatInt (projectAssistantUSDMicros + go_mod micros projectAssistantUSDMicros));
          trimmed = TrimRight_char fraction CHR ''0'';
          fraction = (if 2 < length trimmed then trimmed else take 2 fraction)
      in CHR ''$'' # sign @ FormatInt (go_div micros projectAssistantUSDMicros) @ CHR ''.'' # fraction)"

section \<open>The message for a limit that is switched off\<close>

datatype run_limit = IterationLimit | TokenLimit | SpendCap

fun limit_env :: "run_limit \<Rightarrow> string" where
  "limit_env IterationLimit = ''APP_STUDIO_ASSISTANT_MAX_ITERATIONS''"
| "limit_env TokenLimit = ''APP_STUDIO_ASSISTANT_ROLLOUT_BUDGET_TOKENS''"
| "limit_env SpendCap = ''APP_STUDIO_ORG_MONTHLY_USD_CAP''"

text \<open>The names of the limits that are still in force, without the one of \<open>disabledEnv\<close>.\<close>

definition active_limits :: "(string \<Rightarrow> float64 option) \<Rightarrow> string \<Rightarrow> (string \<Rightarrow> string) \<Rightarrow> string list" where
  "active_limits ParseFloat disabledEnv getenv =
     (if disabledEnv \<noteq> limit_env IterationLimit
         \<and> projectAssistantDeepIterationsForValue (getenv (limit_env IterationLimit))
             \<noteq> projectAssistantUnlimitedIterations
      then [''model-call ceiling''] else [])
     @ (if disabledEnv \<noteq> limit_env TokenLimit
         \<and> projectAssistantRolloutBudgetTokensForValue (getenv (limit_env TokenLimit)) \<noteq> 0
      then [''per-run token budget''] else [])
     @ (if disabledEnv \<noteq> limit_env SpendCap
         \<and> projectAssistantOrgMonthlyUSDCapMicrosForValue ParseFloat (getenv (limit_env SpendCap)) \<noteq> 0
      then [''organization spend cap''] else [])"

fun join_with :: "string \<Rightarrow> string list \<Rightarrow> string" where
  "join_with sep [] = []"
| "join_with sep [s] = s"
| "join_with sep (s # t # ss) = s @ sep @ join_with sep (t # ss)"

definition projectAssistantUnlimitedLimitMessage ::
  "(string \<Rightarrow> float64 option) \<Rightarrow> string \<Rightarrow> string \<Rightarrow> (string \<Rightarrow> string) \<Rightarrow> string" where
  "projectAssistantUnlimitedLimitMessage ParseFloat disabledEnv disabledWhat getenv =
     (let active = active_limits ParseFloat disabledEnv getenv;
          disables = disabledEnv @ '' disables the '' @ disabledWhat
      in case active of
           [] \<Rightarrow> disables @ ''; every other assistant run limit is disabled too, so runs are unbounded''
         | [a] \<Rightarrow> disables @ ''; runs are bounded only by the '' @ a
         | _ \<Rightarrow> disables @ ''; runs are bounded only by the '' @ join_with '', the '' (butlast active)
             @ '' and the '' @ last active)"

section \<open>Limits fail closed\<close>

lemma clamp_range:
  assumes "float_integral x"
  shows "0 \<le> projectAssistantClampUSDMicros x" "projectAssistantClampUSDMicros x \<le> max_int64"
proof -
  have "is_int64 \<lfloor>y + 1 / 2\<rfloor> \<and> 0 \<le> \<lfloor>y + 1 / 2\<rfloor>" if x: "x = Fin y" and y: "0 < y" "y < 2 ^ 63" for y
  proof (cases "2 ^ 53 \<le> y")
    case True
    then obtain n where n: "y = of_int n" using assms x y by (auto simp: float_integral_def)
    with y have "0 < n" "n < 2 ^ 63" by (simp_all add: of_int_less_numeral_power_cancel_iff)
    moreover have "\<lfloor>of_int n + 1 / 2 :: rat\<rfloor> = n" by (simp add: floor_unique)
    ultimately show ?thesis by (simp add: n is_int64_def max_int64_def)
  next
    case False
    then have "\<lfloor>y + 1 / 2\<rfloor> \<le> 2 ^ 53" by (simp add: floor_le_iff)
    with y show ?thesis by (simp add: is_int64_def max_int64_def)
  qed
  then show "0 \<le> projectAssistantClampUSDMicros x" "projectAssistantClampUSDMicros x \<le> max_int64"
    by (cases x; auto simp: projectAssistantClampUSDMicros_def max_int64_def is_int64_def Let_def not_le)+
qed

lemma cost_range:
  "0 \<le> projectAssistantModelCostMicros catalog model i n"
  "projectAssistantModelCostMicros catalog model i n \<le> max_int64"
  unfolding projectAssistantModelCostMicros_def Let_def by (rule clamp_range [OF fadd_float_integral])+

lemma unlimited_not_blank: "projectAssistantLimitValueUnlimited value \<Longrightarrow> TrimSpace value \<noteq> []"
  by (auto simp: projectAssistantLimitValueUnlimited_def EqualFold_def Let_def)

lemma unlimited_trim [simp]:
  "projectAssistantLimitValueUnlimited (TrimSpace value) = projectAssistantLimitValueUnlimited value"
  by (simp add: projectAssistantLimitValueUnlimited_def)

lemma tokens_zero_iff:
  "projectAssistantRolloutBudgetTokensForValue value = 0 \<longleftrightarrow> projectAssistantLimitValueUnlimited value"
  using unlimited_not_blank
  by (auto simp: projectAssistantRolloutBudgetTokensForValue_def Let_def split: option.splits)

lemma tokens_range: "0 \<le> projectAssistantRolloutBudgetTokensForValue value"
  by (auto simp: projectAssistantRolloutBudgetTokensForValue_def Let_def split: option.splits)

lemmas cap_defs = projectAssistantOrgMonthlyUSDCapMicrosForValue_def
  projectAssistantDefaultOrgMonthlyUSDCapMicros_def projectAssistantUSDMicros_def

lemma cap_zero_iff:
  "projectAssistantOrgMonthlyUSDCapMicrosForValue pf value = 0 \<longleftrightarrow> projectAssistantLimitValueUnlimited value"
  using unlimited_not_blank by (auto simp: cap_defs Let_def split: option.splits)

lemma cap_range: "0 \<le> projectAssistantOrgMonthlyUSDCapMicrosForValue pf value"
  using clamp_range(1) [OF fmul_float_integral] by (auto simp: cap_defs Let_def split: option.splits)

lemma iterations_range: "0 < projectAssistantDeepIterationsForValue value"
  by (auto simp: projectAssistantDeepIterationsForValue_def projectAssistantUnlimitedIterations_def max_int64_def
      Let_def split: option.splits)

lemma iterations_unlimited:
  "projectAssistantDeepIterationsForValue value = projectAssistantUnlimitedIterations
    \<longleftrightarrow> projectAssistantLimitValueUnlimited value \<or> ParseInt (TrimSpace value) = Some max_int64"
  using unlimited_not_blank
  by (auto simp: projectAssistantDeepIterationsForValue_def projectAssistantUnlimitedIterations_def max_int64_def
      Let_def ParseInt_def split: option.splits if_splits)

end
