(* ===== verification/Rollout_Budget.thy ===== *)
theory Rollout_Budget
  imports Run_Limits
begin

text \<open>
  The token budget of one run (\<open>src/api/assistant_eino_rollout_budget.go\<close>): its state, the reminders
  of what is left, and the wrapper that refuses model calls once it is used up. A budget that is
  nil is \<open>None\<close>. The three sinks a budget writes to (the audit recorder, the conversation and the
  reminder) are functions that may fail; each operation holds the lock while it changes the state, so
  it is one step. The base model is outside \<open>src/\<close>: what a call returned is an argument.

  Shown: from a fresh budget the float in which tokens are counted is exact, and calls are let
  through exactly while the weighted tokens of the answered calls are below the limit; reminders
  come in increasing order, each at most once in a window.
\<close>

section \<open>State\<close>

record RolloutBudgetState =
  rb_LimitTokens :: int64
  rb_ReminderAtRemaining :: "int64 list"
  rb_SamplingTokenWeight :: float64
  rb_PrefillTokenWeight :: float64
  rb_WeightedTokensUsed :: float64
  rb_WindowID :: nat
  rb_DeliveredWindowID :: nat
  rb_DeliveredReminderIndex :: int64
  rb_ReminderDelivered :: bool
  rb_Exhausted :: bool
  rb_MissingUsageResponseCount :: int64

record RolloutBudgetReminder =
  rem_RemainingTokens :: int64
  rem_ReminderIndex :: int64
  rem_WindowID :: nat

record TokenUsage =
  PromptTokens :: int64
  CachedTokens :: int64
  CompletionTokens :: int64

datatype budget_error = SessionBudgetExceeded int64 float64 | SinkErrors "string list"

text \<open>The sinks: \<open>None\<close> is a sink that is not set; a sink returns its error, if any.\<close>

record budget_sinks =
  sink_recorder :: "(RolloutBudgetState \<Rightarrow> string option) option"
  sink_state :: "(RolloutBudgetState \<Rightarrow> string option) option"
  sink_reminder :: "(RolloutBudgetReminder \<Rightarrow> string option) option"

type_synonym budget = "RolloutBudgetState option"

section \<open>Operations\<close>

text \<open>The loop over the three thresholds.\<close>

fun keep_thresholds :: "int64 \<Rightarrow> int64 list \<Rightarrow> int64 list \<Rightarrow> int64 list" where
  "keep_thresholds limit out [] = out"
| "keep_thresholds limit out (threshold # rest) =
     (if threshold \<le> 0 \<or> limit \<le> threshold then keep_thresholds limit out rest
      else if out \<noteq> [] \<and> last out = threshold then keep_thresholds limit out rest
      else keep_thresholds limit (out @ [threshold]) rest)"

definition projectAssistantRolloutBudgetThresholds :: "int64 \<Rightarrow> int64 list" where
  "projectAssistantRolloutBudgetThresholds limit =
     (if limit \<le> 1 then []
      else keep_thresholds limit [] [go_div (wrap64 (limit * 3)) 4, go_div limit 2, go_div limit 4])"

definition newProjectEinoAssistantRolloutBudget :: "int64 \<Rightarrow> RolloutBudgetState option \<Rightarrow> budget" where
  "newProjectEinoAssistantRolloutBudget limitTokens restored =
     (if limitTokens \<le> 0 then None
      else let state = \<lparr>rb_LimitTokens = limitTokens,
            rb_ReminderAtRemaining = projectAssistantRolloutBudgetThresholds limitTokens,
            rb_SamplingTokenWeight = Fin 1, rb_PrefillTokenWeight = Fin (1 / 4),
            rb_WeightedTokensUsed = Fin 0, rb_WindowID = 1, rb_DeliveredWindowID = 0,
            rb_DeliveredReminderIndex = 0, rb_ReminderDelivered = False, rb_Exhausted = False,
            rb_MissingUsageResponseCount = 0\<rparr>
        in case restored of
             None \<Rightarrow> Some state
           | Some kept \<Rightarrow> if 0 < rb_LimitTokens kept then Some kept else Some state)"

definition exceeded :: "RolloutBudgetState \<Rightarrow> budget_error" where
  "exceeded state = SessionBudgetExceeded (rb_LimitTokens state) (rb_WeightedTokensUsed state)"

definition ExhaustionError :: "budget \<Rightarrow> budget_error option" where
  "ExhaustionError b = (case b of None \<Rightarrow> None
     | Some state \<Rightarrow> if rb_Exhausted state then Some (exceeded state) else None)"

definition remaining_tokens :: "RolloutBudgetState \<Rightarrow> int64" where
  "remaining_tokens state = int64_of_float (math_Floor (math_Max (Fin 0)
     (fsub (float64_of_int (rb_LimitTokens state)) (rb_WeightedTokensUsed state))))"

definition reminder_index :: "RolloutBudgetState \<Rightarrow> int64" where
  "reminder_index state =
     int (length (filter (\<lambda>threshold. remaining_tokens state \<le> threshold) (rb_ReminderAtRemaining state)))"

definition PendingReminder :: "budget \<Rightarrow> RolloutBudgetReminder option" where
  "PendingReminder b = (case b of None \<Rightarrow> None
     | Some state \<Rightarrow>
       if rb_Exhausted state \<or> rb_LimitTokens state \<le> 0 then None
       else let index = reminder_index state
         in if rb_ReminderDelivered state \<and> rb_DeliveredWindowID state = rb_WindowID state
               \<and> index \<le> rb_DeliveredReminderIndex state
            then None
            else Some \<lparr>rem_RemainingTokens = remaining_tokens state, rem_ReminderIndex = index,
                   rem_WindowID = rb_WindowID state\<rparr>)"

text \<open>\<open>persist\<close> calls both sinks whatever the first one returned, and joins their errors.\<close>

definition persist :: "budget_sinks \<Rightarrow> RolloutBudgetState \<Rightarrow> budget_error option" where
  "persist sinks state =
     (let errs = List.map_filter (\<lambda>sink. Option.bind sink (\<lambda>f. f state)) [sink_recorder sinks, sink_state sinks]
      in if errs = [] then None else Some (SinkErrors errs))"

definition DeliverReminder ::
  "budget_sinks \<Rightarrow> RolloutBudgetReminder option \<Rightarrow> budget \<Rightarrow> budget_error option \<times> budget" where
  "DeliverReminder sinks reminder b = (case (b, reminder) of
       (Some state, Some reminder) \<Rightarrow>
         (case Option.bind (sink_reminder sinks) (\<lambda>f. f reminder) of
            Some err \<Rightarrow> (Some (SinkErrors [err]), b)
          | None \<Rightarrow>
            if rem_WindowID reminder \<noteq> rb_WindowID state then (None, b)
            else let state = state\<lparr>rb_ReminderDelivered := True,
                       rb_DeliveredWindowID := rem_WindowID reminder,
                       rb_DeliveredReminderIndex := rem_ReminderIndex reminder\<rparr>
              in (persist sinks state, Some state))
     | _ \<Rightarrow> (None, b))"

definition RearmAfterCompaction :: "budget_sinks \<Rightarrow> budget \<Rightarrow> budget_error option \<times> budget" where
  "RearmAfterCompaction sinks b = (case b of None \<Rightarrow> (None, None)
     | Some state \<Rightarrow>
       let state = state\<lparr>rb_WindowID := (rb_WindowID state + 1) mod 2 ^ 64, rb_ReminderDelivered := False,
             rb_DeliveredWindowID := 0, rb_DeliveredReminderIndex := 0\<rparr>
       in (persist sinks state, Some state))"

definition RecordUsage :: "budget_sinks \<Rightarrow> TokenUsage option \<Rightarrow> budget \<Rightarrow> budget_error option \<times> budget" where
  "RecordUsage sinks usage b = (case b of None \<Rightarrow> (None, None)
     | Some state \<Rightarrow>
       let state = (case usage of
           None \<Rightarrow> state\<lparr>rb_MissingUsageResponseCount := wrap64 (rb_MissingUsageResponseCount state + 1)\<rparr>
         | Some u \<Rightarrow>
           let nonCachedInput = max (wrap64 (PromptTokens u - CachedTokens u)) 0;
               used = fadd (rb_WeightedTokensUsed state)
                 (fadd (fmul (float64_of_int (max (CompletionTokens u) 0)) (rb_SamplingTokenWeight state))
                       (fmul (float64_of_int nonCachedInput) (rb_PrefillTokenWeight state)))
           in state\<lparr>rb_WeightedTokensUsed := used,
                rb_Exhausted := fle (float64_of_int (rb_LimitTokens state)) used\<rparr>)
       in (case persist sinks state of
             Some err \<Rightarrow> (Some err, Some state)
           | None \<Rightarrow> (if rb_Exhausted state then Some (exceeded state) else None, Some state)))"

section \<open>The budgeted model\<close>

text \<open>
  A message of the model with its usage, where the response reports one. \<open>Generate\<close> of the base
  model returns a message and an error, either of which may be nil.
\<close>

record model_message =
  mm_Content :: string
  mm_Usage :: "TokenUsage option"

definition projectEinoAssistantMessageUsage :: "model_message option \<Rightarrow> TokenUsage option" where
  "projectEinoAssistantMessageUsage message = Option.bind message mm_Usage"

datatype call_error = BudgetError budget_error | BaseError string

fun projectEinoAssistantRolloutBudgetExceeded :: "budget_error \<Rightarrow> bool" where
  "projectEinoAssistantRolloutBudgetExceeded (SessionBudgetExceeded l u) = True"
| "projectEinoAssistantRolloutBudgetExceeded (SinkErrors es) = False"

definition budget_Generate ::
  "budget_sinks \<Rightarrow> model_message option \<times> string option \<Rightarrow> budget
    \<Rightarrow> (model_message option \<times> call_error option) \<times> budget" where
  "budget_Generate sinks answer b = (case ExhaustionError b of
       Some err \<Rightarrow> ((None, Some (BudgetError err)), b)
     | None \<Rightarrow>
       (case answer of
          (message, Some err) \<Rightarrow> ((message, Some (BaseError err)), b)
        | (message, None) \<Rightarrow>
          (case RecordUsage sinks (projectEinoAssistantMessageUsage message) b of
             (Some err, b) \<Rightarrow>
               if projectEinoAssistantRolloutBudgetExceeded err then ((message, None), b)
               else ((None, Some (BudgetError err)), b)
           | (None, b) \<Rightarrow> ((message, None), b))))"

text \<open>
  The goroutine of \<open>Stream\<close>: what it receives until the stream ends, what it sends, and the usage
  it has seen last. A list without an end is a stream that has not ended yet.
\<close>

datatype received = Received "model_message option" | ReceivedEOF | ReceivedErr string

fun budget_pump :: "budget_sinks \<Rightarrow> TokenUsage option \<Rightarrow> received list \<Rightarrow> budget
    \<Rightarrow> (model_message option \<times> call_error option) list \<times> budget" where
  "budget_pump sinks usage [] b = ([], b)"
| "budget_pump sinks usage (ReceivedEOF # rest) b =
     (case RecordUsage sinks usage b of
        (Some err, b) \<Rightarrow> (if projectEinoAssistantRolloutBudgetExceeded err then []
                          else [(None, Some (BudgetError err))], b)
      | (None, b) \<Rightarrow> ([], b))"
| "budget_pump sinks usage (ReceivedErr err # rest) b = ([(None, Some (BaseError err))], b)"
| "budget_pump sinks usage (Received message # rest) b =
     (let usage = (case projectEinoAssistantMessageUsage message of None \<Rightarrow> usage | Some u \<Rightarrow> Some u)
      in case budget_pump sinks usage rest b of (sent, b) \<Rightarrow> ((message, None) # sent, b))"

definition budget_Stream :: "budget_sinks \<Rightarrow> string option \<Rightarrow> received list \<Rightarrow> budget
    \<Rightarrow> (call_error option \<times> (model_message option \<times> call_error option) list) \<times> budget" where
  "budget_Stream sinks start_error source b = (case ExhaustionError b of
       Some err \<Rightarrow> ((Some (BudgetError err), []), b)
     | None \<Rightarrow>
       (case start_error of
          Some err \<Rightarrow> ((Some (BaseError err), []), b)
        | None \<Rightarrow> (case budget_pump sinks None source b of (sent, b) \<Rightarrow> ((None, sent), b))))"

section \<open>Counting is exact\<close>

text \<open>Weighted tokens in quarters, and what the calls of a run add up to until the limit is reached.\<close>

definition usage_quarters :: "TokenUsage \<Rightarrow> int" where
  "usage_quarters u = 4 * max (CompletionTokens u) 0 + max (wrap64 (PromptTokens u - CachedTokens u)) 0"

definition call_quarters :: "model_message option \<times> string option \<Rightarrow> int" where
  "call_quarters answer = (case answer of
       (message, None) \<Rightarrow> (case projectEinoAssistantMessageUsage message of None \<Rightarrow> 0 | Some u \<Rightarrow> usage_quarters u)
     | (message, Some err) \<Rightarrow> 0)"

fun quarters_until :: "int \<Rightarrow> (model_message option \<times> string option) list \<Rightarrow> int \<Rightarrow> int" where
  "quarters_until limit [] q = q"
| "quarters_until limit (answer # rest) q =
     (if 4 * limit \<le> q then q else quarters_until limit rest (q + call_quarters answer))"

fun run_calls :: "budget_sinks \<Rightarrow> (model_message option \<times> string option) list \<Rightarrow> budget \<Rightarrow> budget" where
  "run_calls sinks [] b = b"
| "run_calls sinks (answer # rest) b = run_calls sinks rest (snd (budget_Generate sinks answer b))"

text \<open>The state of a budget that has counted \<open>q\<close> quarters.\<close>

definition counted :: "int64 \<Rightarrow> int \<Rightarrow> RolloutBudgetState \<Rightarrow> bool" where
  "counted limit q st \<longleftrightarrow> rb_LimitTokens st = limit \<and> rb_SamplingTokenWeight st = Fin 1
     \<and> rb_PrefillTokenWeight st = Fin (1 / 4) \<and> rb_WeightedTokensUsed st = Fin (of_int q / 4)
     \<and> (rb_Exhausted st \<longleftrightarrow> 4 * limit \<le> q)"

lemma call_quarters_nonneg: "0 \<le> call_quarters answer"
  by (auto simp: call_quarters_def usage_quarters_def split: option.splits prod.splits)

lemma counted_new:
  "0 < limit \<Longrightarrow> \<exists>st. newProjectEinoAssistantRolloutBudget limit None = Some st \<and> counted limit 0 st"
  by (simp add: newProjectEinoAssistantRolloutBudget_def counted_def)

lemma RecordUsage_state:
  "snd (RecordUsage sinks usage (Some st)) = Some (case usage of
      None \<Rightarrow> st\<lparr>rb_MissingUsageResponseCount := wrap64 (rb_MissingUsageResponseCount st + 1)\<rparr>
    | Some u \<Rightarrow>
      let used = fadd (rb_WeightedTokensUsed st)
           (fadd (fmul (float64_of_int (max (CompletionTokens u) 0)) (rb_SamplingTokenWeight st))
                 (fmul (float64_of_int (max (wrap64 (PromptTokens u - CachedTokens u)) 0)) (rb_PrefillTokenWeight st)))
      in st\<lparr>rb_WeightedTokensUsed := used, rb_Exhausted := fle (float64_of_int (rb_LimitTokens st)) used\<rparr>)"
  by (simp add: RecordUsage_def Let_def split: option.split)

lemma counted_usage:
  assumes c: "counted limit q st" and q: "0 \<le> q" "q + usage_quarters u < 2 ^ 53" and limit: "0 < limit" "limit < 2 ^ 53"
  shows "\<exists>st'. snd (RecordUsage sinks (Some u) (Some st)) = Some st' \<and> counted limit (q + usage_quarters u) st'"
proof -
  define a where "a = max (CompletionTokens u) 0"
  define n where "n = max (wrap64 (PromptTokens u - CachedTokens u)) 0"
  have u: "usage_quarters u = 4 * a + n" by (simp add: usage_quarters_def a_def n_def)
  have pos: "0 \<le> a" "0 \<le> n" by (simp_all add: a_def n_def)
  have small: "a < 2 ^ 53" "n < 2 ^ 53" "4 * a + n < 2 ^ 53" "q + (4 * a + n) < 2 ^ 53"
    using q pos by (simp_all add: u)
  have "fmul (float64_of_int a) (Fin 1) = Fin (of_int a)"
    using small(1) pos by (simp add: float64_of_int_def [symmetric])
  moreover have "fmul (float64_of_int n) (Fin (1 / 4)) = Fin (of_int n / 4)"
    using small(2) pos round64_quarters [of n] by simp
  moreover have "fadd (Fin (of_int a)) (Fin (of_int n / 4)) = Fin (of_int (4 * a + n) / 4)"
    using small(3) pos round64_quarters [of "4 * a + n"] by (simp add: add_divide_distrib)
  moreover have "fadd (Fin (of_int q / 4)) (Fin (of_int (4 * a + n) / 4)) = Fin (of_int (q + (4 * a + n)) / 4)"
    using small(4) pos q(1) round64_quarters [of "q + (4 * a + n)"] by (simp add: add_divide_distrib)
  moreover have "fle (float64_of_int limit) (Fin (of_int k / 4)) \<longleftrightarrow> 4 * limit \<le> k" for k
  proof -
    have "of_int limit \<le> (of_int k / 4 :: rat) \<longleftrightarrow> (of_int (4 * limit) :: rat) \<le> of_int k"
      by (simp add: le_divide_eq mult.commute)
    then show ?thesis using limit by (simp only: of_int_le_iff) simp
  qed
  ultimately show ?thesis
    using c by (simp add: RecordUsage_state counted_def Let_def u a_def [symmetric] n_def [symmetric]
        del: of_int_add of_int_mult fadd.simps fmul.simps)
qed

lemma counted_call:
  assumes c: "counted limit q st" and q: "0 \<le> q" "q + call_quarters answer < 2 ^ 53"
    and limit: "0 < limit" "limit < 2 ^ 53" "q < 4 * limit"
  shows "\<exists>st'. snd (budget_Generate sinks answer (Some st)) = Some st' \<and> counted limit (q + call_quarters answer) st'"
proof -
  obtain message err where answer: "answer = (message, err)" by fastforce
  have open_: "ExhaustionError (Some st) = None" using c limit(3) by (simp add: ExhaustionError_def counted_def)
  show ?thesis
  proof (cases err)
    case None
    have same: "snd (budget_Generate sinks (message, None) (Some st))
        = snd (RecordUsage sinks (projectEinoAssistantMessageUsage message) (Some st))"
      by (simp add: budget_Generate_def open_ split: prod.splits option.splits)
    show ?thesis
    proof (cases "projectEinoAssistantMessageUsage message")
      case missing: None
      then show ?thesis
        using c by (simp add: answer None same RecordUsage_state call_quarters_def counted_def)
    next
      case (Some u)
      then have "call_quarters answer = usage_quarters u" by (simp add: call_quarters_def answer None)
      then show ?thesis using counted_usage [OF c q(1) _ limit(1,2), of u sinks] q(2) by (simp add: answer None same Some)
    qed
  qed (use c in \<open>simp add: budget_Generate_def open_ answer call_quarters_def\<close>)
qed

lemma counted_refused:
  assumes "counted limit q st" "4 * limit \<le> q"
  shows "snd (budget_Generate sinks answer (Some st)) = Some st"
  using assms by (simp add: budget_Generate_def ExhaustionError_def counted_def)

lemma run_calls_counted:
  assumes "counted limit q st" "0 \<le> q" "q < 4 * limit + 2 ^ 52" "0 < limit" "limit \<le> 2 ^ 50"
    and "\<forall>answer \<in> set answers. call_quarters answer < 2 ^ 52"
  shows "\<exists>st'. run_calls sinks answers (Some st) = Some st' \<and> counted limit (quarters_until limit answers q) st'"
  using assms
proof (induction answers arbitrary: q st)
  case (Cons answer rest)
  show ?case
  proof (cases "4 * limit \<le> q")
    case True
    have "run_calls sinks answers (Some st) = Some st" for answers
      by (induction answers) (simp_all add: counted_refused [OF Cons.prems(1) True])
    from this [of "answer # rest"] show ?thesis using True Cons.prems(1) by (simp del: run_calls.simps)
  next
    case False
    with Cons.prems obtain st1 where st1: "snd (budget_Generate sinks answer (Some st)) = Some st1"
      "counted limit (q + call_quarters answer) st1"
      using counted_call [OF Cons.prems(1,2), of answer sinks] by auto
    show ?thesis
      using Cons.IH [OF st1(2)] Cons.prems False st1(1) call_quarters_nonneg [of answer] by auto
  qed
qed auto

section \<open>Reminders\<close>

datatype budget_op = UseTokens "TokenUsage option" | Remind | Rearm

fun budget_step :: "budget_sinks \<Rightarrow> budget_op \<Rightarrow> budget \<Rightarrow> budget" where
  "budget_step sinks (UseTokens usage) b = snd (RecordUsage sinks usage b)"
| "budget_step sinks Remind b = snd (DeliverReminder sinks (PendingReminder b) b)"
| "budget_step sinks Rearm b = snd (RearmAfterCompaction sinks b)"

text \<open>The reminders a run shows to the model: every pending one, also one whose delivery fails.\<close>

fun reminders_shown :: "budget_sinks \<Rightarrow> budget_op list \<Rightarrow> budget \<Rightarrow> RolloutBudgetReminder list" where
  "reminders_shown sinks [] b = []"
| "reminders_shown sinks (Remind # ops) b =
     (case PendingReminder b of None \<Rightarrow> [] | Some r \<Rightarrow> [r])
     @ reminders_shown sinks ops (budget_step sinks Remind b)"
| "reminders_shown sinks (opr # ops) b = reminders_shown sinks ops (budget_step sinks opr b)"

definition reminder_less :: "RolloutBudgetReminder \<Rightarrow> RolloutBudgetReminder \<Rightarrow> bool" where
  "reminder_less r r' \<longleftrightarrow> rem_WindowID r < rem_WindowID r'
     \<or> rem_WindowID r = rem_WindowID r' \<and> rem_ReminderIndex r < rem_ReminderIndex r'"

text \<open>A reminder that may still come: of a later window, or above the one delivered in this window.\<close>

definition may_come :: "RolloutBudgetState \<Rightarrow> RolloutBudgetReminder \<Rightarrow> bool" where
  "may_come st r \<longleftrightarrow> rb_WindowID st < rem_WindowID r
     \<or> rem_WindowID r = rb_WindowID st
       \<and> (rb_ReminderDelivered st \<and> rb_DeliveredWindowID st = rb_WindowID st
          \<longrightarrow> rb_DeliveredReminderIndex st < rem_ReminderIndex r)"

lemma PendingReminder_may_come: "PendingReminder (Some st) = Some r \<Longrightarrow> may_come st r"
  by (auto simp: PendingReminder_def may_come_def Let_def split: if_splits)

text \<open>A budget whose reminder sink does not fail.\<close>

definition reminder_sink_ok :: "budget_sinks \<Rightarrow> bool" where
  "reminder_sink_ok sinks \<longleftrightarrow> (\<forall>f r. sink_reminder sinks = Some f \<longrightarrow> f r = None)"

lemma reminder_sink: "reminder_sink_ok sinks \<Longrightarrow> Option.bind (sink_reminder sinks) (\<lambda>f. f r) = None"
  by (cases "sink_reminder sinks") (auto simp: reminder_sink_ok_def)

lemma Remind_state:
  assumes "reminder_sink_ok sinks"
  shows "budget_step sinks Remind (Some st) = (case PendingReminder (Some st) of
      None \<Rightarrow> Some st
    | Some r \<Rightarrow> Some (st\<lparr>rb_ReminderDelivered := True, rb_DeliveredWindowID := rb_WindowID st,
        rb_DeliveredReminderIndex := rem_ReminderIndex r\<rparr>))"
  by (auto simp: DeliverReminder_def PendingReminder_def reminder_sink [OF assms] Let_def
      split: option.splits if_splits)

lemma UseTokens_state:
  "\<exists>st'. budget_step sinks (UseTokens usage) (Some st) = Some st' \<and> rb_WindowID st' = rb_WindowID st
     \<and> (\<forall>r. may_come st' r \<longrightarrow> may_come st r)"
  by (cases usage) (simp_all add: RecordUsage_state may_come_def Let_def)

lemma reminders_shown_increase:
  assumes "reminder_sink_ok sinks" "rb_WindowID st + length ops < 2 ^ 64"
  shows "sorted_wrt reminder_less (reminders_shown sinks ops (Some st))
    \<and> (\<forall>r \<in> set (reminders_shown sinks ops (Some st)). may_come st r)"
  using assms(2)
proof (induction ops arbitrary: st)
  case (Cons opr ops)
  show ?case
  proof (cases opr)
    case (UseTokens usage)
    obtain st' where "budget_step sinks (UseTokens usage) (Some st) = Some st'" "rb_WindowID st' = rb_WindowID st"
      "\<forall>r. may_come st' r \<longrightarrow> may_come st r"
      using UseTokens_state by blast
    then show ?thesis using Cons.IH [of st'] Cons.prems by (auto simp: UseTokens simp del: budget_step.simps)
  next
    case Rearm
    have "rb_WindowID st + 1 < 2 ^ 64" using Cons.prems by simp
    then show ?thesis
      using Cons.IH [of "st\<lparr>rb_WindowID := rb_WindowID st + 1, rb_ReminderDelivered := False,
          rb_DeliveredWindowID := 0, rb_DeliveredReminderIndex := 0\<rparr>"] Cons.prems
      by (auto simp: Rearm RearmAfterCompaction_def may_come_def Let_def)
  next
    case Remind
    show ?thesis
    proof (cases "PendingReminder (Some st)")
      case None
      then show ?thesis
        using Cons by (simp add: Remind Remind_state [OF assms(1)] del: budget_step.simps)
    next
      case (Some r)
      let ?st = "st\<lparr>rb_ReminderDelivered := True, rb_DeliveredWindowID := rb_WindowID st,
          rb_DeliveredReminderIndex := rem_ReminderIndex r\<rparr>"
      have step: "budget_step sinks Remind (Some st) = Some ?st"
        by (simp add: Remind_state [OF assms(1)] Some del: budget_step.simps)
      have "may_come st r" by (rule PendingReminder_may_come [OF Some])
      moreover have "rem_WindowID r = rb_WindowID st"
        using Some by (auto simp: PendingReminder_def Let_def split: if_splits)
      ultimately have "may_come st r'" "reminder_less r r'" if "may_come ?st r'" for r'
        using that by (auto simp: may_come_def reminder_less_def)
      then show ?thesis
        using Cons.IH [of ?st] Cons.prems \<open>may_come st r\<close>
        by (simp add: Remind Some step del: budget_step.simps)
    qed
  qed
qed simp

end
