(* ===== verification/Encrypted_Tables.thy ===== *)
theory Encrypted_Tables
  imports Key_Ring Store_Encrypted
begin

text \<open>
  The methods of \<open>encryptedStore\<close> that live beside the tables they are about: thumbnails, which are
  encrypted (\<open>project_thumbnail.go\<close>), and the counters and claims that pass through (\<open>spend.go\<close>,
  \<open>claims.go\<close>). Shown: a thumbnail that was stored is read back as it was.
\<close>

section \<open>Thumbnails\<close>

definition projectThumbnailAAD :: "Scope \<Rightarrow> ProjectThumbnail \<Rightarrow> string" where
  "projectThumbnailAAD scope thumbnail = join_nul [OrgUUID scope, WorkspaceUUID scope,
     ProjectName scope, ProjectUID scope, thumb_CommitSHA thumbnail, thumb_SHA256 thumbnail]"

definition enc_GetProjectThumbnail :: "Scope \<Rightarrow> ProjectThumbnail eop" where
  "enc_GetProjectThumbnail scope =
     ebind (inner_read (GetProjectThumbnail scope)) (opened (\<lambda>keys thumbnail.
       if \<not> thumb_DataEncrypted thumbnail then Ok thumbnail
       else rbind (open_payload keys ''project thumbnail'' (thumb_DataKeyID thumbnail) (Some (thumb_Data thumbnail))
              (projectThumbnailAAD scope thumbnail))
         (\<lambda>plaintext. Ok (thumbnail\<lparr>thumb_Data := plaintext, thumb_DataEncrypted := False, thumb_DataKeyID := []\<rparr>))))"

definition enc_GetProjectThumbnailMetadata :: "Scope \<Rightarrow> ProjectThumbnailMetadata eop" where
  "enc_GetProjectThumbnailMetadata scope = inner_read (GetProjectThumbnailMetadata scope)"

definition enc_PutProjectThumbnail :: "Scope \<Rightarrow> ProjectThumbnail \<Rightarrow> unit eop" where
  "enc_PutProjectThumbnail scope thumbnail s = (case validateProjectThumbnail scope thumbnail of
       Some e \<Rightarrow> (Err e, s)
     | None \<Rightarrow> ebind (seal_active ''project thumbnail'' (thumb_Data thumbnail) (projectThumbnailAAD scope thumbnail))
         (\<lambda>payload s. inner_op (PutProjectThumbnail scope (thumbnail\<lparr>thumb_Data := payload,
            thumb_DataEncrypted := True, thumb_DataKeyID := enc_active s\<rparr>)) s) s)"

definition enc_DeleteProjectThumbnail :: "Scope \<Rightarrow> unit eop" where
  "enc_DeleteProjectThumbnail scope = inner_op (DeleteProjectThumbnail scope)"

section \<open>Spend and claims\<close>

definition enc_AddOrganizationSpend ::
  "time \<Rightarrow> string \<Rightarrow> time \<Rightarrow> OrganizationSpendDelta \<Rightarrow> time \<Rightarrow> OrganizationSpend eop" where
  "enc_AddOrganizationSpend clock orgUUID at delta now = inner_op (AddOrganizationSpend clock orgUUID at delta now)"

definition enc_GetOrganizationSpend :: "string \<Rightarrow> time \<Rightarrow> OrganizationSpend eop" where
  "enc_GetOrganizationSpend orgUUID at = inner_read (GetOrganizationSpend orgUUID at)"

definition enc_TryClaimReplica :: "time \<Rightarrow> ReplicaClaim \<Rightarrow> duration \<Rightarrow> (ReplicaClaim \<times> bool) eop" where
  "enc_TryClaimReplica now claim staleAfter = inner_op (TryClaimReplica now claim staleAfter)"

definition enc_RenewReplicaClaim :: "time \<Rightarrow> string \<Rightarrow> string \<Rightarrow> bool eop" where
  "enc_RenewReplicaClaim now claimKey ownerReplica = inner_op (RenewReplicaClaim now claimKey ownerReplica)"

definition enc_ReleaseReplicaClaim :: "string \<Rightarrow> string \<Rightarrow> unit eop" where
  "enc_ReleaseReplicaClaim claimKey ownerReplica = inner_op (ReleaseReplicaClaim claimKey ownerReplica)"

definition enc_GetReplicaClaim :: "string \<Rightarrow> ReplicaClaim option eop" where
  "enc_GetReplicaClaim claimKey = inner_read (GetReplicaClaim claimKey)"

definition enc_LiveReplicaClaims :: "time \<Rightarrow> string \<Rightarrow> duration \<Rightarrow> ReplicaClaim list eop" where
  "enc_LiveReplicaClaims now scopeKey staleAfter = inner_read (LiveReplicaClaims now scopeKey staleAfter)"

definition enc_RelinquishReplicaClaims :: "string \<Rightarrow> string \<Rightarrow> int64 eop" where
  "enc_RelinquishReplicaClaims kind ownerReplica = inner_op (RelinquishReplicaClaims kind ownerReplica)"

definition enc_TakeOverReplicaClaim :: "time \<Rightarrow> ReplicaClaim \<Rightarrow> string \<Rightarrow> (ReplicaClaim option \<times> bool) eop" where
  "enc_TakeOverReplicaClaim now claim expectedOwner = inner_op (TakeOverReplicaClaim now claim expectedOwner)"

definition enc_BumpReplicaClaimRevision :: "string \<Rightarrow> string \<Rightarrow> int64 \<Rightarrow> unit eop" where
  "enc_BumpReplicaClaimRevision claimKey ownerReplica revision =
     inner_op (BumpReplicaClaimRevision claimKey ownerReplica revision)"

section \<open>Thumbnails are read back\<close>

text \<open>No newer thumbnail is stored, so that the new one is.\<close>

definition thumbnail_accepted :: "MemoryStore \<Rightarrow> Scope \<Rightarrow> ProjectThumbnail \<Rightarrow> bool" where
  "thumbnail_accepted st scope t = (case gget (projectThumbnails st) scope of
       None \<Rightarrow> True
     | Some current \<Rightarrow> \<not> projectThumbnailNewer (thumb_CommitCreatedAt current) (thumb_CommitOrder current)
         (thumb_CommitCreatedAt t) (thumb_CommitOrder t))"

lemma thumbnail_round_trip:
  assumes put: "enc_PutProjectThumbnail scope t s = (Ok (), s')" and ok: "ring_ok s"
    and accepted: "thumbnail_accepted (enc_inner s) scope t"
  shows "fst (enc_GetProjectThumbnail scope s') = Ok (t\<lparr>thumb_DataEncrypted := False, thumb_DataKeyID := []\<rparr>)"
proof -
  have v: "validateProjectThumbnail scope t = None"
    using put by (auto simp: enc_PutProjectThumbnail_def split: option.splits)
  then have scope: "Scope_validate scope = None" by (auto simp: validateProjectThumbnail_def split: option.splits)
  obtain r s1 where seal: "seal_active ''project thumbnail'' (thumb_Data t) (projectThumbnailAAD scope t) s = (r, s1)"
    by fastforce
  from seal ok show ?thesis
  proof (cases rule: seal_active_cases)
    case (no_random e)
    with put v seal show ?thesis by (simp add: enc_PutProjectThumbnail_def ebind_def)
  next
    case (sealed c)
    let ?t = "t\<lparr>thumb_Data := c, thumb_DataEncrypted := True, thumb_DataKeyID := enc_active s\<rparr>"
    note f = used_random_fields [OF sealed(2)]
    have aad: "projectThumbnailAAD scope ?t = projectThumbnailAAD scope t" by (simp add: projectThumbnailAAD_def)
    obtain x st where inner: "PutProjectThumbnail scope ?t (enc_inner s) = (x, st)" by fastforce
    have s': "x = Ok ()" "s' = s1\<lparr>enc_inner := st\<rparr>"
      using put v seal sealed(1) inner f by (auto simp: enc_PutProjectThumbnail_def ebind_def inner_op_def)
    have "gget (projectThumbnails st) scope = Some ?t"
      using inner accepted s'(1)
      by (auto simp: PutProjectThumbnail_def thumbnail_accepted_def Let_def gomap_simps split: option.splits if_splits)
    then show ?thesis
      using sealed(4) [of "''project thumbnail''"] f
      by (simp add: s'(2) enc_GetProjectThumbnail_def ebind_def inner_read_def opened_def GetProjectThumbnail_def scope aad)
  qed
qed

end
