(* ===== verification/Spend_Guard.thy ===== *)
theory Spend_Guard
  imports Rollout_Budget Encrypted_Tables
begin

text \<open>
  The monthly spend cap around model calls (\<open>src/api/assistant_spend.go\<close>). A guard reads the ledger
  of its organization before a call and adds the priced usage after it. The ledger is an interface
  of two operations, which \<open>MemoryStore\<close> and the encrypted store provide. The model catalog, the
  token estimate of a prompt and the answers of the base model are arguments. The callback of a guard
  is the list of notices it is called with.

  Shown, for any ledger that keeps its counters: a notice is sent once per run, a call that ended
  is never recorded as free, calls are refused from the moment the cap is reached, and the month
  overshoots the cap by no more than the calls in flight cost.
\<close>

section \<open>Ledgers\<close>

record 's spend_store =
  ledger_add :: "time \<Rightarrow> string \<Rightarrow> time \<Rightarrow> OrganizationSpendDelta \<Rightarrow> time \<Rightarrow> 's \<Rightarrow> OrganizationSpend sres \<times> 's"
  ledger_get :: "string \<Rightarrow> time \<Rightarrow> 's \<Rightarrow> OrganizationSpend sres"

definition memory_ledger :: "MemoryStore spend_store" where
  "memory_ledger = \<lparr>ledger_add = AddOrganizationSpend, ledger_get = GetOrganizationSpend\<rparr>"

definition encrypted_ledger :: "encryptedStore spend_store" where
  "encrypted_ledger = \<lparr>ledger_add = enc_AddOrganizationSpend,
     ledger_get = (\<lambda>org t s. fst (enc_GetOrganizationSpend org t s))\<rparr>"

section \<open>The guard\<close>

record projectEinoAssistantOrgSpendGuard =
  g_orgUUID :: string
  g_model :: string
  g_capMicros :: int64
  g_capReported :: bool

datatype spend_error =
    ReadSpend store_err
  | RecordSpend store_err
  | SpendCapExceeded int64 int64
  | SpendPanic

text \<open>\<open>configured\<close> is whether there is a store at all.\<close>

definition newProjectEinoAssistantOrgSpendGuard ::
  "bool \<Rightarrow> string \<Rightarrow> string \<Rightarrow> int64 \<Rightarrow> projectEinoAssistantOrgSpendGuard option" where
  "newProjectEinoAssistantOrgSpendGuard configured orgUUID model capMicros =
     (let orgUUID = TrimSpace orgUUID
      in if \<not> configured \<or> orgUUID = [] \<or> capMicros \<le> 0 then None
         else Some \<lparr>g_orgUUID = orgUUID, g_model = TrimSpace model, g_capMicros = capMicros,
            g_capReported = False\<rparr>)"

definition reportCapReached :: "OrganizationSpend \<Rightarrow> projectEinoAssistantOrgSpendGuard
    \<Rightarrow> OrganizationSpend list \<times> projectEinoAssistantOrgSpendGuard" where
  "reportCapReached spend g = (if g_capReported g then [] else [spend], g\<lparr>g_capReported := True\<rparr>)"

definition CheckSpend :: "'s spend_store \<Rightarrow> time \<Rightarrow> 's \<Rightarrow> projectEinoAssistantOrgSpendGuard
    \<Rightarrow> spend_error option \<times> OrganizationSpend list \<times> projectEinoAssistantOrgSpendGuard" where
  "CheckSpend ledger now st g = (case ledger_get ledger (g_orgUUID g) now st of
       Err e \<Rightarrow> (Some (ReadSpend e), [], g)
     | Panic \<Rightarrow> (Some SpendPanic, [], g)
     | Ok spend \<Rightarrow>
       if g_capMicros g \<le> spend_USDMicros spend
       then (case reportCapReached spend g of (notices, g) \<Rightarrow>
         (Some (SpendCapExceeded (g_capMicros g) (spend_USDMicros spend)), notices, g))
       else (None, [], g))"

definition record_delta :: "'s spend_store \<Rightarrow> time \<Rightarrow> time \<Rightarrow> OrganizationSpendDelta \<Rightarrow> 's
    \<Rightarrow> projectEinoAssistantOrgSpendGuard
    \<Rightarrow> (spend_error option \<times> OrganizationSpend list \<times> projectEinoAssistantOrgSpendGuard) \<times> 's" where
  "record_delta ledger clock now delta st g = (case ledger_add ledger clock (g_orgUUID g) now delta now st of
       (Err e, st) \<Rightarrow> ((Some (RecordSpend e), [], g), st)
     | (Panic, st) \<Rightarrow> ((Some SpendPanic, [], g), st)
     | (Ok spend, st) \<Rightarrow>
       if g_capMicros g \<le> spend_USDMicros spend
       then (case reportCapReached spend g of (notices, g) \<Rightarrow> ((None, notices, g), st))
       else ((None, [], g), st))"

text \<open>What \<open>Record\<close> and \<open>RecordAtLeastPrompt\<close> add for a call with or without a usage report.\<close>

definition usage_delta :: "model_catalog \<Rightarrow> string \<Rightarrow> TokenUsage \<Rightarrow> OrganizationSpendDelta" where
  "usage_delta catalog model usage =
     (let inputTokens = max (PromptTokens usage) 0; outputTokens = max (CompletionTokens usage) 0
      in \<lparr>delta_InputTokens = inputTokens, delta_OutputTokens = outputTokens,
          delta_USDMicros = projectAssistantModelCostMicros catalog model inputTokens outputTokens\<rparr>)"

definition projectAssistantSpendFloorInputTokens :: int64 where
  "projectAssistantSpendFloorInputTokens = 1"

definition projectAssistantSpendFloorUSDMicros :: int64 where
  "projectAssistantSpendFloorUSDMicros = 1"

definition prompt_delta :: "model_catalog \<Rightarrow> string \<Rightarrow> int64 \<Rightarrow> OrganizationSpendDelta" where
  "prompt_delta catalog model estimate =
     (let inputTokens = max estimate projectAssistantSpendFloorInputTokens
      in \<lparr>delta_InputTokens = inputTokens, delta_OutputTokens = 0,
          delta_USDMicros = max (projectAssistantModelCostMicros catalog model inputTokens 0)
            projectAssistantSpendFloorUSDMicros\<rparr>)"

definition RecordSpendUsage :: "model_catalog \<Rightarrow> 's spend_store \<Rightarrow> time \<Rightarrow> time \<Rightarrow> TokenUsage option \<Rightarrow> 's
    \<Rightarrow> projectEinoAssistantOrgSpendGuard
    \<Rightarrow> (spend_error option \<times> OrganizationSpend list \<times> projectEinoAssistantOrgSpendGuard) \<times> 's" where
  "RecordSpendUsage catalog ledger clock now usage st g = (case usage of
       None \<Rightarrow> ((None, [], g), st)
     | Some u \<Rightarrow> record_delta ledger clock now (usage_delta catalog (g_model g) u) st g)"

definition RecordAtLeastPrompt :: "model_catalog \<Rightarrow> 's spend_store \<Rightarrow> time \<Rightarrow> time \<Rightarrow> int64 \<Rightarrow> TokenUsage option
    \<Rightarrow> 's \<Rightarrow> projectEinoAssistantOrgSpendGuard
    \<Rightarrow> (spend_error option \<times> OrganizationSpend list \<times> projectEinoAssistantOrgSpendGuard) \<times> 's" where
  "RecordAtLeastPrompt catalog ledger clock now estimate usage st g = (case usage of
       Some u \<Rightarrow> RecordSpendUsage catalog ledger clock now (Some u) st g
     | None \<Rightarrow> record_delta ledger clock now (prompt_delta catalog (g_model g) estimate) st g)"

section \<open>The guarded model\<close>

text \<open>
  \<open>Generate\<close> in its two parts around the call of the base model: in between other runs use the
  ledger. \<open>Stream\<close> has the same parts: the goroutine that forwards the messages records the last usage
  it has seen when the stream ends, and decides what it sends.
\<close>

definition guarded_answer :: "model_catalog \<Rightarrow> 's spend_store \<Rightarrow> time \<Rightarrow> time \<Rightarrow> int64
    \<Rightarrow> model_message option \<times> string option \<Rightarrow> 's \<Rightarrow> projectEinoAssistantOrgSpendGuard
    \<Rightarrow> ((model_message option \<times> (spend_error + string) option) \<times> OrganizationSpend list
        \<times> projectEinoAssistantOrgSpendGuard) \<times> 's" where
  "guarded_answer catalog ledger clock now estimate answer st g = (case answer of
       (message, Some err) \<Rightarrow> (((message, Some (Inr err)), [], g), st)
     | (message, None) \<Rightarrow>
       (case RecordAtLeastPrompt catalog ledger clock now estimate
             (projectEinoAssistantMessageUsage message) st g of
          ((Some err, notices, g), st) \<Rightarrow> (((None, Some (Inl err)), notices, g), st)
        | ((None, notices, g), st) \<Rightarrow> (((message, None), notices, g), st)))"

text \<open>The last usage seen on a stream, what is forwarded, and how the stream ended.\<close>

fun stream_usage :: "TokenUsage option \<Rightarrow> received list \<Rightarrow> TokenUsage option" where
  "stream_usage usage (Received message # rest) =
     stream_usage (case projectEinoAssistantMessageUsage message of None \<Rightarrow> usage | Some u \<Rightarrow> Some u) rest"
| "stream_usage usage _ = usage"

fun stream_messages :: "received list \<Rightarrow> model_message option list" where
  "stream_messages (Received message # rest) = message # stream_messages rest"
| "stream_messages _ = []"

fun stream_end :: "received list \<Rightarrow> string option option" where
  "stream_end (Received message # rest) = stream_end rest"
| "stream_end (ReceivedEOF # rest) = Some None"
| "stream_end (ReceivedErr err # rest) = Some (Some err)"
| "stream_end [] = None"

definition guarded_pump :: "model_catalog \<Rightarrow> 's spend_store \<Rightarrow> time \<Rightarrow> time \<Rightarrow> int64 \<Rightarrow> received list
    \<Rightarrow> 's \<Rightarrow> projectEinoAssistantOrgSpendGuard
    \<Rightarrow> ((model_message option \<times> (spend_error + string) option) list \<times> OrganizationSpend list
        \<times> projectEinoAssistantOrgSpendGuard) \<times> 's" where
  "guarded_pump catalog ledger clock now estimate source st g =
     (let forwarded = map (\<lambda>m. (m, None)) (stream_messages source)
      in case stream_end source of
           None \<Rightarrow> ((forwarded, [], g), st)
         | Some ending \<Rightarrow>
           (case RecordAtLeastPrompt catalog ledger clock now estimate (stream_usage None source) st g of
              ((recordErr, notices, g), st) \<Rightarrow>
                ((forwarded @ (case (ending, recordErr) of
                      (Some err, _) \<Rightarrow> [(None, Some (Inr err))]
                    | (None, Some err) \<Rightarrow> [(None, Some (Inl err))]
                    | (None, None) \<Rightarrow> []), notices, g), st)))"

section \<open>What a guard records\<close>

lemma usage_delta_valid:
  "0 \<le> delta_InputTokens (usage_delta catalog model u)" "0 \<le> delta_OutputTokens (usage_delta catalog model u)"
  "0 \<le> delta_USDMicros (usage_delta catalog model u)"
  using cost_range by (simp_all add: usage_delta_def Let_def)

lemma prompt_delta_valid:
  "1 \<le> delta_InputTokens (prompt_delta catalog model n)" "0 \<le> delta_OutputTokens (prompt_delta catalog model n)"
  "1 \<le> delta_USDMicros (prompt_delta catalog model n)"
  by (simp_all add: prompt_delta_def projectAssistantSpendFloorInputTokens_def
      projectAssistantSpendFloorUSDMicros_def Let_def)

text \<open>What one ended call adds, with or without a usage report.\<close>

definition call_delta :: "model_catalog \<Rightarrow> string \<Rightarrow> int64 \<Rightarrow> TokenUsage option \<Rightarrow> OrganizationSpendDelta" where
  "call_delta catalog model estimate usage =
     (case usage of Some u \<Rightarrow> usage_delta catalog model u | None \<Rightarrow> prompt_delta catalog model estimate)"

lemma RecordAtLeastPrompt_delta:
  "RecordAtLeastPrompt catalog ledger clock now estimate usage st g
    = record_delta ledger clock now (call_delta catalog (g_model g) estimate usage) st g"
  by (simp add: RecordAtLeastPrompt_def RecordSpendUsage_def call_delta_def split: option.split)

lemma call_delta_valid:
  "0 \<le> delta_InputTokens (call_delta catalog model n usage)" "0 \<le> delta_OutputTokens (call_delta catalog model n usage)"
  "0 \<le> delta_USDMicros (call_delta catalog model n usage)"
  using usage_delta_valid prompt_delta_valid
  by (cases usage; simp add: call_delta_def order_trans [OF zero_le_one])+

section \<open>Many runs of one organization\<close>

text \<open>
  The runs of one organization share the ledger \<open>st\<close>; every run has a guard, and \<open>flying\<close> are the runs
  with a model call in flight. At most \<open>K\<close> calls are in flight at a time and none costs more than
  \<open>C\<close>; all instants are in the period \<open>p\<close>. A call in flight ends with an answer, which is recorded, or
  with an error of the base model before any answer, which is not.
\<close>

record 's fleet =
  fl_ledger :: 's
  fl_guards :: "nat \<Rightarrow> projectEinoAssistantOrgSpendGuard"
  fl_flying :: "nat set"

inductive fleet_step :: "model_catalog \<Rightarrow> 's spend_store \<Rightarrow> time \<Rightarrow> nat \<Rightarrow> int \<Rightarrow> 's fleet \<Rightarrow> 's fleet \<Rightarrow> bool"
  for catalog :: model_catalog and ledger :: "'s spend_store" and p :: time and K :: nat and C :: int where
  check: "CheckSpend ledger now (fl_ledger f) (fl_guards f i) = (err, notices, g) \<Longrightarrow>
    OrganizationSpendPeriodStart now = p \<Longrightarrow> i \<notin> fl_flying f \<Longrightarrow>
    flying = (if err = None then insert i (fl_flying f) else fl_flying f) \<Longrightarrow> card flying \<le> K \<Longrightarrow>
    fleet_step catalog ledger p K C f (f\<lparr>fl_guards := (fl_guards f)(i := g), fl_flying := flying\<rparr>)"
| ended: "RecordAtLeastPrompt catalog ledger clock now estimate usage (fl_ledger f) (fl_guards f i)
      = ((err, notices, g), st) \<Longrightarrow>
    OrganizationSpendPeriodStart now = p \<Longrightarrow> i \<in> fl_flying f \<Longrightarrow>
    delta_USDMicros (call_delta catalog (g_model (fl_guards f i)) estimate usage) \<le> C \<Longrightarrow>
    fleet_step catalog ledger p K C f (f\<lparr>fl_ledger := st, fl_guards := (fl_guards f)(i := g),
      fl_flying := fl_flying f - {i}\<rparr>)"
| failed: "i \<in> fl_flying f \<Longrightarrow> fleet_step catalog ledger p K C f (f\<lparr>fl_flying := fl_flying f - {i}\<rparr>)"

inductive fleet_reaches :: "model_catalog \<Rightarrow> 's spend_store \<Rightarrow> time \<Rightarrow> nat \<Rightarrow> int \<Rightarrow> 's fleet \<Rightarrow> 's fleet \<Rightarrow> bool"
  for catalog ledger p K C f where
  here: "fleet_reaches catalog ledger p K C f f"
| next_step: "fleet_reaches catalog ledger p K C f f' \<Longrightarrow> fleet_step catalog ledger p K C f' f'' \<Longrightarrow>
    fleet_reaches catalog ledger p K C f f''"

text \<open>What a guard relies on: a ledger with a counter per organization and period.\<close>

locale spend_counters =
  fixes ledger :: "'s spend_store" and total :: "'s \<Rightarrow> string \<Rightarrow> time \<Rightarrow> int"
  assumes get_total: "ledger_get ledger org t st = Ok s \<Longrightarrow>
      spend_USDMicros s = total st (TrimSpace org) (OrganizationSpendPeriodStart t)"
    and add_total: "ledger_add ledger clock org t delta now st = (r, st') \<Longrightarrow>
      total st' g p = total st g p
      \<or> g = TrimSpace org \<and> p = OrganizationSpendPeriodStart t \<and> 0 \<le> delta_USDMicros delta
        \<and> total st' g p = wrap64 (total st g p + delta_USDMicros delta)"
begin

lemma check_passes:
  assumes "CheckSpend ledger now st g = (None, notices, g')"
  shows "g' = g" "total st (TrimSpace (g_orgUUID g)) (OrganizationSpendPeriodStart now) < g_capMicros g"
  using assms get_total by (auto simp: CheckSpend_def reportCapReached_def split: res.splits if_splits)

lemma check_keeps: "CheckSpend ledger now st g = (err, notices, g') \<Longrightarrow>
    g_orgUUID g' = g_orgUUID g \<and> g_capMicros g' = g_capMicros g \<and> g_model g' = g_model g"
  by (auto simp: CheckSpend_def reportCapReached_def split: res.splits if_splits)

lemma record_keeps: "record_delta ledger clock now delta st g = ((err, notices, g'), st') \<Longrightarrow>
    g_orgUUID g' = g_orgUUID g \<and> g_capMicros g' = g_capMicros g \<and> g_model g' = g_model g"
  by (auto simp: record_delta_def reportCapReached_def split: res.splits if_splits prod.splits)

lemma record_total:
  assumes "record_delta ledger clock now delta st g = ((err, notices, g'), st')"
  shows "total st' o' p = total st o' p
    \<or> 0 \<le> delta_USDMicros delta \<and> total st' o' p = wrap64 (total st o' p + delta_USDMicros delta)"
proof -
  obtain r st1 where add: "ledger_add ledger clock (g_orgUUID g) now delta now st = (r, st1)" by fastforce
  with assms have "st' = st1" by (auto simp: record_delta_def reportCapReached_def split: res.splits if_splits)
  then show ?thesis using add_total [OF add, of o' p] by blast
qed

text \<open>The fleet: all guards are of one organization with one cap, and the calls in flight fit under it.\<close>

definition fleet_inv :: "string \<Rightarrow> int64 \<Rightarrow> time \<Rightarrow> nat \<Rightarrow> int \<Rightarrow> 's fleet \<Rightarrow> bool" where
  "fleet_inv org cap p K C f \<longleftrightarrow>
     (\<forall>i. TrimSpace (g_orgUUID (fl_guards f i)) = org \<and> g_capMicros (fl_guards f i) = cap)
     \<and> finite (fl_flying f) \<and> card (fl_flying f) \<le> K \<and> 0 \<le> total (fl_ledger f) org p
     \<and> total (fl_ledger f) org p + int (card (fl_flying f)) * C \<le> cap - 1 + int K * C"

lemma fleet_inv_step:
  assumes "fleet_step catalog ledger p K C f f'" "fleet_inv org cap p K C f"
    and C: "0 \<le> C" "cap - 1 + int K * C \<le> max_int64"
  shows "fleet_inv org cap p K C f'"
  using assms(1,2)
proof cases
  case (check now i err notices g flying)
  have g: "TrimSpace (g_orgUUID g) = org" "g_capMicros g = cap"
    using check_keeps [OF check(2)] assms(2) by (simp_all add: fleet_inv_def)
  show ?thesis
  proof (cases err)
    case None
    have "total (fl_ledger f) org p < cap"
      using check_passes(2) [OF check(2) [unfolded None]] check(3) assms(2) by (simp add: fleet_inv_def)
    moreover have "int (card flying) * C \<le> int K * C" using check(6) C by (intro mult_right_mono) simp_all
    ultimately show ?thesis
      using assms(2) check(1,5,6) g None by (simp add: fleet_inv_def)
  qed (use assms(2) check(1,5) g in \<open>simp add: fleet_inv_def\<close>)
next
  case (ended clock now estimate usage i err notices g st)
  let ?n = "card (fl_flying f)"
  let ?delta = "call_delta catalog (g_model (fl_guards f i)) estimate usage"
  note added = ended(2) [unfolded RecordAtLeastPrompt_delta]
  have g: "TrimSpace (g_orgUUID g) = org" "g_capMicros g = cap"
    using record_keeps [OF added] assms(2) by (simp_all add: fleet_inv_def)
  have fin: "finite (fl_flying f)" and K: "?n \<le> K" using assms(2) by (simp_all add: fleet_inv_def)
  have n: "int (card (fl_flying f - {i})) = int ?n - 1" using fin ended(4)
    by (simp add: card_Diff_singleton) (metis One_nat_def card_gt_0_iff empty_iff of_nat_diff Suc_leI of_nat_1)
  have "int ?n * C \<le> int K * C" using K C by (intro mult_right_mono) simp_all
  with assms(2) have top: "total (fl_ledger f) org p + int ?n * C \<le> cap - 1 + int K * C" "0 \<le> total (fl_ledger f) org p"
    by (simp_all add: fleet_inv_def)
  have one: "C \<le> int ?n * C" using n C(1) ended(4) fin
    by (metis card_gt_0_iff empty_iff mult_le_cancel_right1 not_less of_nat_0_less_iff zless_imp_add1_zle add_0 linorder_not_le)
  have "total st org p = total (fl_ledger f) org p
    \<or> 0 \<le> delta_USDMicros ?delta \<and> total st org p = total (fl_ledger f) org p + delta_USDMicros ?delta"
    using record_total [OF added, of org p]
  proof (elim disjE conjE)
    assume d: "0 \<le> delta_USDMicros ?delta" "total st org p = wrap64 (total (fl_ledger f) org p + delta_USDMicros ?delta)"
    have "is_int64 (total (fl_ledger f) org p + delta_USDMicros ?delta)"
      using d(1) top one ended(5) C(2) by (simp add: is_int64_def)
    then show ?thesis using d by (simp add: wrap64_id)
  qed simp
  then have "0 \<le> total st org p" "total st org p + (int ?n - 1) * C \<le> cap - 1 + int K * C"
    using top ended(5) C(1) by (auto simp: algebra_simps)
  then show ?thesis
    using assms(2) ended(1) g fin K n by (simp add: fleet_inv_def card_Diff1_le order_trans [OF card_Diff1_le K])
next
  case (failed i)
  have "int (card (fl_flying f - {i})) * C \<le> int (card (fl_flying f)) * C"
    using C(1) card_Diff1_le [of "fl_flying f" i] by (intro mult_right_mono) simp_all
  then show ?thesis
    using assms(2) failed order_trans [OF card_Diff1_le] by (auto simp: fleet_inv_def)
qed

lemma fleet_inv_reaches:
  assumes "fleet_reaches catalog ledger p K C f f'" "fleet_inv org cap p K C f"
    and "0 \<le> C" "cap - 1 + int K * C \<le> max_int64"
  shows "fleet_inv org cap p K C f'"
  using assms by induction (blast intro: fleet_inv_step)+

text \<open>The month overshoots by less than the calls that may be in flight cost.\<close>

lemma overshoot:
  assumes "fleet_inv org cap p K C f" "0 \<le> C"
  shows "total (fl_ledger f) org p \<le> cap - 1 + int K * C"
  using assms by (simp add: fleet_inv_def) (meson add_increasing2 dual_order.trans le_add_same_cancel1 mult_nonneg_nonneg of_nat_0_le_iff)

end

section \<open>The two ledgers\<close>

lemma GetOrganizationSpend_bucket:
  "GetOrganizationSpend org t st = Ok s \<Longrightarrow> s = bucket st (TrimSpace org) (OrganizationSpendPeriodStart t)"
  by (auto simp: GetOrganizationSpend_def normalize_Inr bucket_def split: sum.splits option.splits)

lemma AddOrganizationSpend_total:
  assumes "AddOrganizationSpend clock org t delta now st = (r, st')"
  shows "spend_USDMicros (bucket st' g p) = spend_USDMicros (bucket st g p)
    \<or> g = TrimSpace org \<and> p = OrganizationSpendPeriodStart t \<and> 0 \<le> delta_USDMicros delta
      \<and> spend_USDMicros (bucket st' g p) = wrap64 (spend_USDMicros (bucket st g p) + delta_USDMicros delta)"
  by (simp add: AddOrganizationSpend_bucket [OF assms] call_valid_def)

interpretation memory_spend: spend_counters memory_ledger "\<lambda>st g p. spend_USDMicros (bucket st g p)"
  by unfold_locales
    (auto simp: memory_ledger_def dest: GetOrganizationSpend_bucket AddOrganizationSpend_total)

interpretation encrypted_spend: spend_counters encrypted_ledger "\<lambda>s g p. spend_USDMicros (bucket (enc_inner s) g p)"
proof unfold_locales
  show "ledger_get encrypted_ledger org t st = Ok s \<Longrightarrow>
      spend_USDMicros s = spend_USDMicros (bucket (enc_inner st) (TrimSpace org) (OrganizationSpendPeriodStart t))"
    for org t st s
    by (auto simp: encrypted_ledger_def enc_GetOrganizationSpend_def inner_read_def dest: GetOrganizationSpend_bucket)
  show "ledger_add encrypted_ledger clock org t delta now st = (r, st') \<Longrightarrow>
      spend_USDMicros (bucket (enc_inner st') g p) = spend_USDMicros (bucket (enc_inner st) g p)
      \<or> g = TrimSpace org \<and> p = OrganizationSpendPeriodStart t \<and> 0 \<le> delta_USDMicros delta
        \<and> spend_USDMicros (bucket (enc_inner st') g p)
            = wrap64 (spend_USDMicros (bucket (enc_inner st) g p) + delta_USDMicros delta)"
    for clock org t delta now st r st' g p
    using AddOrganizationSpend_total [of clock org t delta now "enc_inner st" r "enc_inner st'" g p]
    by (auto simp: encrypted_ledger_def enc_AddOrganizationSpend_def inner_op_def split: prod.splits)
qed

text \<open>
  A call of \<open>Generate\<close> that ends in an error records nothing, whatever the provider has billed; a
  stream that ends in an error records its usage or its prompt.
\<close>

lemma failed_generate_is_free:
  "snd (guarded_answer catalog ledger clock now estimate (message, Some err) st g) = st"
  by (simp add: guarded_answer_def)

lemma failed_stream_is_recorded:
  "snd (guarded_pump catalog ledger clock now estimate [ReceivedErr err] st g)
    = snd (record_delta ledger clock now (prompt_delta catalog (g_model g) estimate) st g)"
  by (simp add: guarded_pump_def RecordAtLeastPrompt_def split: prod.splits)

text \<open>A guard reports the cap once.\<close>

lemma notices_once:
  assumes "CheckSpend ledger now st g = (err, notices, g')
      \<or> record_delta ledger clock now delta st g = ((err, notices, g'), st')"
  shows "notices \<noteq> [] \<longrightarrow> \<not> g_capReported g \<and> g_capReported g'" "g_capReported g \<longrightarrow> g_capReported g'"
  using assms by (auto simp: CheckSpend_def record_delta_def reportCapReached_def split: res.splits if_splits prod.splits)

end
