(* ===== verification/Run_Manager.thy ===== *)
theory Run_Manager
  imports Store_Types
begin

text \<open>
  Which turn of a conversation runs on this replica (\<open>src/api/assistant_run_manager.go\<close>). A call of
  \<open>Begin\<close> is a turn; it installs itself under its key, or cancels the turn that is there and waits
  until it is done, its own context is done, or the hand-off time is over. One step is what \<open>Begin\<close> or
  the finish function does under the lock, or one channel operation; the time of the timer is left
  open, so a waiting turn may give up at any moment. A manager that is nil, which runs everything,
  is not modelled.

  Shown: the turns that run have different keys and are exactly the entries of the manager, a turn
  is told to stop before another one waits for it, a turn that was refused has its context
  cancelled, and \<open>busy\<close> answers for the turns that run.
\<close>

section \<open>Turns and their keys\<close>

record 'a projectAssistantTurnItem =
  ti_Kind :: string
  ti_OrgUUID :: string
  ti_WorkspaceUUID :: string
  ti_ProjectName :: string
  ti_ProjectUID :: string
  ti_ThreadID :: string
  ti_User :: string
  ti_RunID :: string
  ti_RequestID :: string
  ti_AssistantMessageID :: string
  ti_Decision :: string
  ti_Answer :: string
  ti_Answers :: "(string, 'a) gomap"
  ti_EditedArguments :: "(string, any_value) gomap"
  ti_CreatedAt :: time

record turn_identity =
  id_orgUUID :: string
  id_workspaceUUID :: string
  id_user :: string

definition newProjectAssistantTurnItem ::
  "time \<Rightarrow> string \<Rightarrow> turn_identity \<Rightarrow> string \<Rightarrow> string list \<Rightarrow> 'a projectAssistantTurnItem" where
  "newProjectAssistantTurnItem now kind i projectName threadIDs =
     \<lparr>ti_Kind = kind, ti_OrgUUID = TrimSpace (id_orgUUID i), ti_WorkspaceUUID = TrimSpace (id_workspaceUUID i),
      ti_ProjectName = TrimSpace projectName, ti_ProjectUID = [],
      ti_ThreadID = (case threadIDs of [] \<Rightarrow> [] | t # _ \<Rightarrow> TrimSpace t), ti_User = TrimSpace (id_user i),
      ti_RunID = [], ti_RequestID = [], ti_AssistantMessageID = [], ti_Decision = [], ti_Answer = [],
      ti_Answers = [], ti_EditedArguments = [], ti_CreatedAt = now\<rparr>"

record projectAssistantRunKey =
  rk_OrgUUID :: string
  rk_WorkspaceUUID :: string
  rk_ProjectName :: string
  rk_ProjectUID :: string
  rk_ThreadID :: string

definition turn_key :: "'a projectAssistantTurnItem \<Rightarrow> projectAssistantRunKey" where
  "turn_key i = \<lparr>rk_OrgUUID = TrimSpace (ti_OrgUUID i), rk_WorkspaceUUID = TrimSpace (ti_WorkspaceUUID i),
     rk_ProjectName = TrimSpace (ti_ProjectName i), rk_ProjectUID = TrimSpace (ti_ProjectUID i),
     rk_ThreadID = TrimSpace (ti_ThreadID i)\<rparr>"

definition run_key_valid :: "projectAssistantRunKey \<Rightarrow> bool" where
  "run_key_valid k \<longleftrightarrow> \<not> blank (rk_OrgUUID k) \<and> \<not> blank (rk_WorkspaceUUID k) \<and> \<not> blank (rk_ProjectName k)
     \<and> \<not> blank (rk_ProjectUID k)"

section \<open>The manager\<close>

datatype cancel_cause = Preempted | HandoffTimeout | Cancelled | ParentDone

text \<open>
  Where a call of \<open>Begin\<close> is: before the lock, in its select on the turn it waits for, running after
  \<open>Begin\<close> returned, between the two halves of its finish function, and over. \<open>Closing True\<close> and
  \<open>Refused\<close> are those that finish inside \<open>Begin\<close>.
\<close>

datatype turn_phase = Locking | Waiting nat | Running | Closing bool | Finished | Refused

record active_turn =
  at_key :: projectAssistantRunKey
  at_phase :: turn_phase
  at_cancel :: "cancel_cause option"
  at_done :: bool

record run_manager =
  rm_active :: "(projectAssistantRunKey, nat) gomap"
  rm_turns :: "nat \<Rightarrow> active_turn option"

definition newProjectAssistantRunManager :: run_manager where
  "newProjectAssistantRunManager = \<lparr>rm_active = [], rm_turns = (\<lambda>_. None)\<rparr>"

text \<open>A context keeps the first cause it is cancelled with.\<close>

definition cancel_turn :: "cancel_cause \<Rightarrow> active_turn \<Rightarrow> active_turn" where
  "cancel_turn cause t = t\<lparr>at_cancel := (case at_cancel t of None \<Rightarrow> Some cause | Some c \<Rightarrow> Some c)\<rparr>"

definition set_turn :: "nat \<Rightarrow> active_turn \<Rightarrow> run_manager \<Rightarrow> run_manager" where
  "set_turn h t m = m\<lparr>rm_turns := (rm_turns m)(h \<mapsto> t)\<rparr>"

definition begin_turn :: "projectAssistantRunKey \<Rightarrow> active_turn" where
  "begin_turn key = \<lparr>at_key = key, at_phase = Locking, at_cancel = None, at_done = False\<rparr>"

text \<open>One round of the loop of \<open>Begin\<close> under the lock.\<close>

definition begin_round :: "nat \<Rightarrow> active_turn \<Rightarrow> run_manager \<Rightarrow> run_manager" where
  "begin_round h t m = (case gget (rm_active m) (at_key t) of
       None \<Rightarrow> set_turn h (t\<lparr>at_phase := Running\<rparr>) (m\<lparr>rm_active := gput (at_key t) h (rm_active m)\<rparr>)
     | Some previous \<Rightarrow> (case rm_turns m previous of
         None \<Rightarrow> m
       | Some p \<Rightarrow> set_turn h (t\<lparr>at_phase := Waiting previous\<rparr>) (set_turn previous (cancel_turn Preempted p) m)))"

text \<open>The finish function: the entry under the lock, then the context and the channel.\<close>

definition finish_entry :: "bool \<Rightarrow> nat \<Rightarrow> active_turn \<Rightarrow> run_manager \<Rightarrow> run_manager" where
  "finish_entry refused h t m = set_turn h (t\<lparr>at_phase := Closing refused\<rparr>)
     (if gget (rm_active m) (at_key t) = Some h then m\<lparr>rm_active := gdel (at_key t) (rm_active m)\<rparr> else m)"

definition finish_close :: "bool \<Rightarrow> nat \<Rightarrow> active_turn \<Rightarrow> run_manager \<Rightarrow> run_manager" where
  "finish_close refused h t m = set_turn h ((cancel_turn Cancelled t)\<lparr>at_done := True,
     at_phase := (if refused then Refused else Finished)\<rparr>) m"

inductive manager_step :: "run_manager \<Rightarrow> run_manager \<Rightarrow> bool" where
  begins: "run_key_valid key \<Longrightarrow> rm_turns m h = None \<Longrightarrow> manager_step m (set_turn h (begin_turn key) m)"
| round: "rm_turns m h = Some t \<Longrightarrow> at_phase t = Locking \<Longrightarrow> manager_step m (begin_round h t m)"
| handed_off: "rm_turns m h = Some t \<Longrightarrow> at_phase t = Waiting p \<Longrightarrow> rm_turns m p = Some previous \<Longrightarrow>
    at_done previous \<Longrightarrow> manager_step m (set_turn h (t\<lparr>at_phase := Locking\<rparr>) m)"
| context_done: "rm_turns m h = Some t \<Longrightarrow> at_phase t = Waiting p \<Longrightarrow> at_cancel t = Some ParentDone \<Longrightarrow>
    manager_step m (finish_entry True h t m)"
| times_out: "rm_turns m h = Some t \<Longrightarrow> at_phase t = Waiting p \<Longrightarrow>
    manager_step m (finish_entry True h (cancel_turn HandoffTimeout t) m)"
| finishes: "rm_turns m h = Some t \<Longrightarrow> at_phase t = Running \<Longrightarrow> manager_step m (finish_entry False h t m)"
| closes: "rm_turns m h = Some t \<Longrightarrow> at_phase t = Closing refused \<Longrightarrow> manager_step m (finish_close refused h t m)"
| parent_done: "rm_turns m h = Some t \<Longrightarrow> manager_step m (set_turn h (cancel_turn ParentDone t) m)"

inductive manager_reachable :: "run_manager \<Rightarrow> bool" where
  new: "manager_reachable newProjectAssistantRunManager"
| step: "manager_reachable m \<Longrightarrow> manager_step m m' \<Longrightarrow> manager_reachable m'"

section \<open>Queries\<close>

definition same_project_key :: "projectAssistantRunKey \<Rightarrow> projectAssistantRunKey \<Rightarrow> bool" where
  "same_project_key a k \<longleftrightarrow> rk_OrgUUID a = rk_OrgUUID k \<and> rk_WorkspaceUUID a = rk_WorkspaceUUID k
     \<and> rk_ProjectName a = rk_ProjectName k \<and> rk_ProjectUID a = rk_ProjectUID k"

definition busy :: "run_manager \<Rightarrow> projectAssistantRunKey \<Rightarrow> bool" where
  "busy m key \<longleftrightarrow> (if rk_ThreadID key \<noteq> [] then gget (rm_active m) key \<noteq> None
     else list_ex (\<lambda>(activeKey, _). same_project_key activeKey key) (gentries (rm_active m)))"

definition activeCount :: "run_manager \<Rightarrow> nat" where
  "activeCount m = length (gentries (rm_active m))"

section \<open>Invariant\<close>

definition turn_ok :: "run_manager \<Rightarrow> nat \<Rightarrow> active_turn \<Rightarrow> bool" where
  "turn_ok m h t \<longleftrightarrow> (at_phase t = Running \<longleftrightarrow> gget (rm_active m) (at_key t) = Some h)
     \<and> (at_done t \<longleftrightarrow> at_phase t = Finished \<or> at_phase t = Refused)
     \<and> (at_done t \<longrightarrow> at_cancel t \<noteq> None)
     \<and> (\<forall>p. at_phase t = Waiting p \<longrightarrow> (\<exists>previous. rm_turns m p = Some previous \<and> p \<noteq> h
          \<and> at_key previous = at_key t \<and> at_cancel previous \<noteq> None \<and> at_phase previous \<noteq> Locking
          \<and> (\<forall>q. at_phase previous \<noteq> Waiting q)))"

definition manager_inv :: "run_manager \<Rightarrow> bool" where
  "manager_inv m \<longleftrightarrow> (\<forall>h t. rm_turns m h = Some t \<longrightarrow> turn_ok m h t)
     \<and> (\<forall>k h. gget (rm_active m) k = Some h \<longrightarrow> (\<exists>t. rm_turns m h = Some t \<and> at_key t = k))"

lemma set_turn_simps [simp]:
  "rm_active (set_turn h t m) = rm_active m"
  "rm_turns (set_turn h t m) h' = (if h' = h then Some t else rm_turns m h')"
  by (simp_all add: set_turn_def)

lemma cancel_turn_simps [simp]:
  "at_key (cancel_turn c t) = at_key t" "at_phase (cancel_turn c t) = at_phase t"
  "at_done (cancel_turn c t) = at_done t" "at_cancel (cancel_turn c t) \<noteq> None"
  "\<exists>y. at_cancel (cancel_turn c t) = Some y"
  by (simp_all add: cancel_turn_def split: option.split)

text \<open>A turn whose phase stays, or that leaves \<open>Locking\<close> or \<open>Waiting\<close>, does not disturb who waits for it.\<close>

definition stays_waitable :: "active_turn \<Rightarrow> active_turn \<Rightarrow> bool" where
  "stays_waitable t t' \<longleftrightarrow> at_key t' = at_key t \<and> (at_cancel t \<noteq> None \<longrightarrow> at_cancel t' \<noteq> None)
     \<and> (at_phase t \<noteq> Locking \<and> (\<forall>q. at_phase t \<noteq> Waiting q)
        \<longrightarrow> at_phase t' \<noteq> Locking \<and> (\<forall>q. at_phase t' \<noteq> Waiting q))"

lemma manager_invI:
  assumes inv: "manager_inv m" and h: "rm_turns m h = Some t" and wait: "stays_waitable t t'"
    and turns: "rm_turns m' = (rm_turns m)(h \<mapsto> t')"
    and active: "\<And>k. gget (rm_active m') k = (if k = at_key t then a else gget (rm_active m) k)"
    and a: "a = gget (rm_active m) (at_key t) \<or> a = Some h \<and> gget (rm_active m) (at_key t) = None
      \<or> a = None \<and> gget (rm_active m) (at_key t) = Some h"
    and ok: "turn_ok m' h t'"
  shows "manager_inv m'"
proof -
  have key: "at_key t' = at_key t" using wait by (simp add: stays_waitable_def)
  have "turn_ok m' g u" if g: "rm_turns m' g = Some u" for g u
  proof (cases "g = h")
    case False
    then have u: "rm_turns m g = Some u" using g turns by simp
    then have old: "turn_ok m g u" using inv by (simp add: manager_inv_def)
    have "gget (rm_active m') (at_key u) = Some g \<longleftrightarrow> gget (rm_active m) (at_key u) = Some g"
      using active a False by auto
    moreover have "\<exists>previous. rm_turns m' p = Some previous \<and> p \<noteq> g
        \<and> at_key previous = at_key u \<and> at_cancel previous \<noteq> None \<and> at_phase previous \<noteq> Locking
        \<and> (\<forall>q. at_phase previous \<noteq> Waiting q)" if w: "at_phase u = Waiting p" for p
    proof -
      obtain previous where p: "rm_turns m p = Some previous" "p \<noteq> g" "at_key previous = at_key u"
        "at_cancel previous \<noteq> None" "at_phase previous \<noteq> Locking" "\<forall>q. at_phase previous \<noteq> Waiting q"
        using old w unfolding turn_ok_def by blast
      show ?thesis
      proof (cases "p = h")
        case True
        then show ?thesis using p h wait by (simp add: turns stays_waitable_def)
      qed (use p in \<open>simp add: turns\<close>)
    qed
    ultimately show ?thesis using old by (simp add: turn_ok_def)
  qed (use g turns ok in simp)
  moreover have "\<exists>u. rm_turns m' g = Some u \<and> at_key u = k" if "gget (rm_active m') k = Some g" for k g
    using that active [of k] a inv h key by (fastforce simp: manager_inv_def turns split: if_splits)
  ultimately show ?thesis by (simp add: manager_inv_def)
qed

lemma manager_inv_step:
  assumes "manager_step m m'" "manager_inv m"
  shows "manager_inv m'"
proof -
  have ok: "turn_ok m h t" if "rm_turns m h = Some t" for h t
    using assms(2) that by (simp add: manager_inv_def)
  have entry: "\<exists>t. rm_turns m h = Some t \<and> at_key t = k" if "gget (rm_active m) k = Some h" for k h
    using assms(2) that by (simp add: manager_inv_def)
  show ?thesis
    using assms(1)
  proof cases
    case (begins key h)
    have fresh: "gget (rm_active m) k \<noteq> Some h" for k using entry begins(3) by fastforce
    have waits: "p \<noteq> h" if "rm_turns m g = Some u" "at_phase u = Waiting p" for g u p
      using ok [OF that(1)] that(2) begins(3) by (auto simp: turn_ok_def)
    have "turn_ok m' g u" if g: "rm_turns m' g = Some u" for g u
    proof (cases "g = h")
      case True
      then show ?thesis using g fresh by (auto simp: begins(1) turn_ok_def begin_turn_def)
    next
      case False
      then have u: "rm_turns m g = Some u" using g by (simp add: begins(1))
      show ?thesis using ok [OF u] waits [OF u] by (simp add: begins(1) turn_ok_def)
    qed
    moreover have "\<exists>u. rm_turns m' g = Some u \<and> at_key u = k" if "gget (rm_active m') k = Some g" for k g
      using that entry [of k g] fresh [of k] by (auto simp: begins(1))
    ultimately show ?thesis by (simp add: manager_inv_def)
  next
    case (round h t)
    note t = ok [OF round(2)]
    show ?thesis
    proof (cases "gget (rm_active m) (at_key t)")
      case None
      then have m': "m' = set_turn h (t\<lparr>at_phase := Running\<rparr>) (m\<lparr>rm_active := gput (at_key t) h (rm_active m)\<rparr>)"
        by (simp add: round(1) begin_round_def)
      show ?thesis
        by (rule manager_invI [OF assms(2) round(2), of "t\<lparr>at_phase := Running\<rparr>" _ "Some h"])
          (use t round(3) None in \<open>auto simp: m' set_turn_def stays_waitable_def al.get_put turn_ok_def\<close>)
    next
      case (Some p)
      then obtain previous where p: "rm_turns m p = Some previous" "at_key previous = at_key t" using entry by blast
      have running: "at_phase previous = Running" using ok [OF p(1)] Some p(2) by (simp add: turn_ok_def)
      then have ph: "p \<noteq> h" using p(1) round(2,3) by auto
      let ?m = "set_turn p (cancel_turn Preempted previous) m"
      let ?t = "t\<lparr>at_phase := Waiting p\<rparr>"
      have m': "m' = set_turn h ?t ?m" by (simp add: round(1) begin_round_def Some p(1))
      have "manager_inv ?m"
        by (rule manager_invI [OF assms(2) p(1), of "cancel_turn Preempted previous" _ "gget (rm_active m) (at_key previous)"])
          (use ok [OF p(1)] running in \<open>auto simp: set_turn_def stays_waitable_def turn_ok_def\<close>)
      then show ?thesis
        by (rule manager_invI [of _ h t ?t _ "gget (rm_active m) (at_key t)"])
          (use t round(2,3) p ph running Some in \<open>auto simp: m' set_turn_def stays_waitable_def turn_ok_def\<close>)
    qed
  next
    case (handed_off h t p previous)
    show ?thesis
      by (rule manager_invI [OF assms(2) handed_off(2), of "t\<lparr>at_phase := Locking\<rparr>" _ "gget (rm_active m) (at_key t)"])
        (use ok [OF handed_off(2)] handed_off in \<open>auto simp: set_turn_def stays_waitable_def turn_ok_def\<close>)
  next
    case (context_done h t p)
    show ?thesis
      by (rule manager_invI [OF assms(2) context_done(2), of "t\<lparr>at_phase := Closing True\<rparr>" _ "gget (rm_active m) (at_key t)"])
        (use ok [OF context_done(2)] context_done in
          \<open>auto simp: set_turn_def finish_entry_def stays_waitable_def turn_ok_def\<close>)
  next
    case (times_out h t p)
    show ?thesis
      by (rule manager_invI [OF assms(2) times_out(2), of "(cancel_turn HandoffTimeout t)\<lparr>at_phase := Closing True\<rparr>"
            _ "gget (rm_active m) (at_key t)"])
        (use ok [OF times_out(2)] times_out in
          \<open>auto simp: set_turn_def finish_entry_def stays_waitable_def turn_ok_def\<close>)
  next
    case (finishes h t)
    show ?thesis
      by (rule manager_invI [OF assms(2) finishes(2), of "t\<lparr>at_phase := Closing False\<rparr>" _ None])
        (use ok [OF finishes(2)] finishes in
          \<open>auto simp: set_turn_def finish_entry_def stays_waitable_def turn_ok_def al.get_del\<close>)
  next
    case (closes h t refused)
    show ?thesis
      by (rule manager_invI [OF assms(2) closes(2), of "(cancel_turn Cancelled t)\<lparr>at_done := True,
              at_phase := (if refused then Refused else Finished)\<rparr>" _ "gget (rm_active m) (at_key t)"])
        (use ok [OF closes(2)] closes in
          \<open>auto simp: set_turn_def finish_close_def stays_waitable_def turn_ok_def\<close>)
  next
    case (parent_done h t)
    show ?thesis
      by (rule manager_invI [OF assms(2) parent_done(2), of "cancel_turn ParentDone t" _ "gget (rm_active m) (at_key t)"])
        (use ok [OF parent_done(2)] parent_done in \<open>auto simp: set_turn_def stays_waitable_def turn_ok_def\<close>)
  qed
qed

lemma manager_reachable_inv: "manager_reachable m \<Longrightarrow> manager_inv m"
  by (induction rule: manager_reachable.induct)
    (simp add: manager_inv_def newProjectAssistantRunManager_def, rule manager_inv_step)

section \<open>What holds of a manager\<close>

definition runs :: "run_manager \<Rightarrow> nat \<Rightarrow> projectAssistantRunKey \<Rightarrow> bool" where
  "runs m h k \<longleftrightarrow> (\<exists>t. rm_turns m h = Some t \<and> at_phase t = Running \<and> at_key t = k)"

lemma runs_active:
  assumes "manager_inv m"
  shows "runs m h k \<longleftrightarrow> gget (rm_active m) k = Some h"
proof
  assume "gget (rm_active m) k = Some h"
  then obtain t where t: "rm_turns m h = Some t" "at_key t = k" using assms unfolding manager_inv_def by blast
  then have "turn_ok m h t" using assms by (simp add: manager_inv_def)
  then have "at_phase t = Running" using t \<open>gget (rm_active m) k = Some h\<close> by (simp add: turn_ok_def)
  with t show "runs m h k" by (simp add: runs_def)
qed (use assms in \<open>auto simp: runs_def manager_inv_def turn_ok_def\<close>)

lemma busy_runs:
  assumes "manager_inv m"
  shows "busy m key \<longleftrightarrow> (\<exists>h k. runs m h k \<and> (if rk_ThreadID key \<noteq> [] then k = key else same_project_key k key))"
  unfolding busy_def list_ex_iff al.entry_ex runs_active [OF assms] by (cases "rk_ThreadID key = []") auto

text \<open>A turn whose predecessor is done can install itself, unless another one was faster.\<close>

lemma handed_off_installs:
  assumes "rm_turns m h = Some t" "at_phase t = Waiting p" "rm_turns m p = Some previous" "at_done previous"
    and "gget (rm_active m) (at_key t) = None"
  shows "\<exists>m' m''. manager_step m m' \<and> manager_step m' m'' \<and> runs m'' h (at_key t)"
proof -
  let ?t = "t\<lparr>at_phase := Locking\<rparr>"
  let ?m = "set_turn h ?t m"
  have "manager_step m ?m" by (rule manager_step.handed_off [OF assms(1-4)])
  moreover have "manager_step ?m (begin_round h ?t ?m)" by (rule manager_step.round) simp_all
  moreover have "runs (begin_round h ?t ?m) h (at_key t)" using assms(5) by (simp add: begin_round_def runs_def)
  ultimately show ?thesis by blast
qed

end
