(* ===== verification/Reconcile_Bus.thy ===== *)
theory Reconcile_Bus
  imports Go_Prelude
begin

text \<open>
  The bus between the API server and the controllers (\<open>src/internal/reconcilesignal/bus.go\<close>). Every
  subscriber has a set of pending keys under its own lock and a wake channel of capacity one; a
  publisher holds the lock of the bus while it adds its key to all subscribers, one after the
  other and in any order, and each addition is two steps, the set and the channel. The goroutine of
  a subscriber waits for the channel, takes all pending keys, and adds them to its work queue.
  A context that is done stops the goroutine between two rounds.

  Shown: a key that was published to a subscriber is added to its queue afterwards; no interleaving
  leaves a subscriber asleep with keys to take.
\<close>

record Key =
  Cluster :: string
  Name :: string

definition Key_valid :: "Key \<Rightarrow> bool" where
  "Key_valid k \<longleftrightarrow> Cluster k \<noteq> [] \<and> Name k \<noteq> []"

text \<open>Where the goroutine of a subscriber is: in its select, before \<open>drain\<close>, adding keys, or gone.\<close>

datatype drainer = Selecting | Woken | Adding "Key list" | Leaving

record subscriber =
  sub_pending :: "Key set"
  sub_wake :: bool
  sub_drainer :: drainer
  sub_queue :: "Key list"

definition new_subscriber :: subscriber where
  "new_subscriber = \<lparr>sub_pending = {}, sub_wake = False, sub_drainer = Selecting, sub_queue = []\<rparr>"

text \<open>\<open>add\<close>: the set under the lock, then the channel, whose send is dropped when it is full.\<close>

definition add_pending :: "Key \<Rightarrow> subscriber \<Rightarrow> subscriber" where
  "add_pending k s = s\<lparr>sub_pending := insert k (sub_pending s)\<rparr>"

definition add_wake :: "subscriber \<Rightarrow> subscriber" where
  "add_wake s = s\<lparr>sub_wake := True\<rparr>"

text \<open>\<open>drain\<close> takes all pending keys, in any order.\<close>

definition drain :: "Key list \<Rightarrow> subscriber \<Rightarrow> subscriber" where
  "drain keys s = s\<lparr>sub_pending := {}, sub_drainer := Adding keys\<rparr>"

definition queue_add :: "Key \<Rightarrow> Key list \<Rightarrow> subscriber \<Rightarrow> subscriber" where
  "queue_add k rest s = s\<lparr>sub_queue := sub_queue s @ [k], sub_drainer := Adding rest\<rparr>"

text \<open>
  The holder of the lock of the bus, if a publisher has it: its key, the subscriber whose channel is
  still to be signalled, and the subscribers still to come.
\<close>

record publisher =
  pub_key :: Key
  pub_signal :: "nat option"
  pub_rest :: "nat list"

record Bus =
  bus_subs :: "nat \<Rightarrow> subscriber option"
  bus_lock :: "publisher option"

definition NewBus :: Bus where
  "NewBus = \<lparr>bus_subs = (\<lambda>_. None), bus_lock = None\<rparr>"

inductive bus_step :: "Bus \<Rightarrow> Bus \<Rightarrow> bool" where
  subscribe: "bus_lock b = None \<Longrightarrow> bus_subs b i = None \<Longrightarrow>
    bus_step b (b\<lparr>bus_subs := (bus_subs b)(i \<mapsto> new_subscriber)\<rparr>)"
| publish: "Key_valid k \<Longrightarrow> bus_lock b = None \<Longrightarrow> set order = dom (bus_subs b) \<Longrightarrow> distinct order \<Longrightarrow>
    bus_step b (b\<lparr>bus_lock := Some \<lparr>pub_key = k, pub_signal = None, pub_rest = order\<rparr>\<rparr>)"
| publish_add: "bus_lock b = Some \<lparr>pub_key = k, pub_signal = None, pub_rest = i # rest\<rparr> \<Longrightarrow>
    bus_subs b i = Some s \<Longrightarrow>
    bus_step b (b\<lparr>bus_subs := (bus_subs b)(i \<mapsto> add_pending k s),
      bus_lock := Some \<lparr>pub_key = k, pub_signal = Some i, pub_rest = rest\<rparr>\<rparr>)"
| publish_wake: "bus_lock b = Some \<lparr>pub_key = k, pub_signal = Some i, pub_rest = rest\<rparr> \<Longrightarrow>
    bus_subs b i = Some s \<Longrightarrow>
    bus_step b (b\<lparr>bus_subs := (bus_subs b)(i \<mapsto> add_wake s),
      bus_lock := Some \<lparr>pub_key = k, pub_signal = None, pub_rest = rest\<rparr>\<rparr>)"
| publish_end: "bus_lock b = Some \<lparr>pub_key = k, pub_signal = None, pub_rest = []\<rparr> \<Longrightarrow>
    bus_step b (b\<lparr>bus_lock := None\<rparr>)"
| wake: "bus_subs b i = Some s \<Longrightarrow> sub_drainer s = Selecting \<Longrightarrow> sub_wake s \<Longrightarrow>
    bus_step b (b\<lparr>bus_subs := (bus_subs b)(i \<mapsto> s\<lparr>sub_wake := False, sub_drainer := Woken\<rparr>)\<rparr>)"
| take_all: "bus_subs b i = Some s \<Longrightarrow> sub_drainer s = Woken \<Longrightarrow> set keys = sub_pending s \<Longrightarrow> distinct keys \<Longrightarrow>
    bus_step b (b\<lparr>bus_subs := (bus_subs b)(i \<mapsto> drain keys s)\<rparr>)"
| enqueue: "bus_subs b i = Some s \<Longrightarrow> sub_drainer s = Adding (k # rest) \<Longrightarrow>
    bus_step b (b\<lparr>bus_subs := (bus_subs b)(i \<mapsto> queue_add k rest s)\<rparr>)"
| again: "bus_subs b i = Some s \<Longrightarrow> sub_drainer s = Adding [] \<Longrightarrow>
    bus_step b (b\<lparr>bus_subs := (bus_subs b)(i \<mapsto> s\<lparr>sub_drainer := Selecting\<rparr>)\<rparr>)"
| stop: "bus_subs b i = Some s \<Longrightarrow> sub_drainer s = Selecting \<Longrightarrow>
    bus_step b (b\<lparr>bus_subs := (bus_subs b)(i \<mapsto> s\<lparr>sub_drainer := Leaving\<rparr>)\<rparr>)"
| unsubscribe: "bus_subs b i = Some s \<Longrightarrow> sub_drainer s = Leaving \<Longrightarrow> bus_lock b = None \<Longrightarrow>
    bus_step b (b\<lparr>bus_subs := (bus_subs b)(i := None)\<rparr>)"

inductive bus_reachable :: "Bus \<Rightarrow> bool" where
  new: "bus_reachable NewBus"
| step: "bus_reachable b \<Longrightarrow> bus_step b b' \<Longrightarrow> bus_reachable b'"

section \<open>No key is lost\<close>

fun to_add :: "drainer \<Rightarrow> Key set" where
  "to_add (Adding keys) = set keys"
| "to_add _ = {}"

text \<open>The publisher is between the set and the channel of subscriber \<open>i\<close>.\<close>

definition signalling :: "Bus \<Rightarrow> nat \<Rightarrow> bool" where
  "signalling b i \<longleftrightarrow> (\<exists>p. bus_lock b = Some p \<and> pub_signal p = Some i)"

definition will_drain :: "bool \<Rightarrow> subscriber \<Rightarrow> bool" where
  "will_drain signal s \<longleftrightarrow> (sub_pending s \<noteq> {} \<longrightarrow> sub_wake s \<or> sub_drainer s = Woken \<or> sub_drainer s = Leaving \<or> signal)"

definition bus_inv :: "Bus \<Rightarrow> bool" where
  "bus_inv b \<longleftrightarrow> (\<forall>i s. bus_subs b i = Some s \<longrightarrow> will_drain (signalling b i) s)"

lemma bus_inv_step:
  assumes "bus_step b b'" "bus_inv b"
  shows "bus_inv b'"
  unfolding bus_inv_def
proof (intro allI impI)
  fix i t
  assume t: "bus_subs b' i = Some t"
  have old: "will_drain (signalling b i) s" if "bus_subs b i = Some s" for s
    using assms(2) that by (simp add: bus_inv_def)
  show "will_drain (signalling b' i) t"
    using assms(1)
    by cases (use t old in \<open>force simp: will_drain_def signalling_def new_subscriber_def add_pending_def add_wake_def
        drain_def queue_add_def split: if_splits\<close>)+
qed

lemma bus_reachable_inv: "bus_reachable b \<Longrightarrow> bus_inv b"
  by (induction rule: bus_reachable.induct) (simp add: bus_inv_def NewBus_def, rule bus_inv_step)

text \<open>Runs in which a subscriber stays subscribed.\<close>

inductive bus_run :: "nat \<Rightarrow> Bus \<Rightarrow> Bus \<Rightarrow> bool" for i b where
  here: "bus_run i b b"
| next_step: "bus_run i b b' \<Longrightarrow> bus_step b' b'' \<Longrightarrow> bus_subs b'' i \<noteq> None \<Longrightarrow> bus_run i b b''"

definition accounted :: "Key \<Rightarrow> Key list \<Rightarrow> subscriber \<Rightarrow> bool" where
  "accounted k old s \<longleftrightarrow> (\<exists>new. sub_queue s = old @ new
     \<and> (k \<in> set new \<or> k \<in> sub_pending s \<or> k \<in> to_add (sub_drainer s)))"

lemma accounted_step:
  assumes "bus_step b b'" "bus_subs b i = Some s" "accounted k old s" "bus_subs b' i = Some s'"
  shows "accounted k old s'"
  using assms(1)
proof cases
  case (enqueue j t k' rest)
  show ?thesis
  proof (cases "j = i")
    case True
    obtain new where new: "sub_queue s = old @ new" "k \<in> set new \<or> k \<in> sub_pending s \<or> k \<in> to_add (sub_drainer s)"
      using assms(3) by (auto simp: accounted_def)
    have "s' = queue_add k' rest s" using enqueue True assms by simp
    then have "sub_queue s' = old @ (new @ [k'])"
      "k \<in> set (new @ [k']) \<or> k \<in> sub_pending s' \<or> k \<in> to_add (sub_drainer s')"
      using new enqueue True assms(2) by (auto simp: queue_add_def)
    then show ?thesis unfolding accounted_def by blast
  qed (use assms enqueue in simp)
qed (use assms in \<open>auto simp: accounted_def add_pending_def add_wake_def drain_def split: if_splits\<close>)

text \<open>Nothing is left to do for a subscriber that waits, while nobody publishes.\<close>

definition bus_quiet :: "Bus \<Rightarrow> subscriber \<Rightarrow> bool" where
  "bus_quiet b s \<longleftrightarrow> bus_lock b = None \<and> sub_drainer s = Selecting \<and> \<not> sub_wake s"

text \<open>The publisher of \<open>k\<close> has still to come to subscriber \<open>i\<close>.\<close>

definition coming :: "Key \<Rightarrow> nat \<Rightarrow> Bus \<Rightarrow> bool" where
  "coming k i b \<longleftrightarrow> (\<exists>p. bus_lock b = Some p \<and> pub_key p = k \<and> i \<in> set (pub_rest p))"

definition on_its_way :: "Key \<Rightarrow> Key list \<Rightarrow> nat \<Rightarrow> Bus \<Rightarrow> bool" where
  "on_its_way k old i b \<longleftrightarrow> (\<exists>s. bus_subs b i = Some s
     \<and> (accounted k old s \<or> coming k i b \<and> (\<exists>new. sub_queue s = old @ new)))"

lemma queue_grows:
  assumes "bus_step b b'" "bus_subs b i = Some s" "bus_subs b' i = Some s'"
  shows "\<exists>new. sub_queue s' = sub_queue s @ new"
  using assms(1)
  by cases (use assms(2,3) in \<open>auto simp: add_pending_def add_wake_def drain_def queue_add_def split: if_splits\<close>)

lemma coming_step:
  assumes "bus_step b b'" "coming k i b" "bus_subs b' i = Some s'" "\<exists>new. sub_queue s' = old @ new"
  shows "coming k i b' \<or> accounted k old s'"
  using assms(1)
  by cases (use assms(2-4) in \<open>auto simp: coming_def accounted_def add_pending_def split: if_splits\<close>)

lemma on_its_way_step:
  assumes "bus_step b b'" "on_its_way k old i b" "bus_subs b' i \<noteq> None"
  shows "on_its_way k old i b'"
proof -
  obtain s s' where s: "bus_subs b i = Some s" "bus_subs b' i = Some s'"
    "accounted k old s \<or> coming k i b \<and> (\<exists>new. sub_queue s = old @ new)"
    using assms(2,3) by (auto simp: on_its_way_def)
  show ?thesis
  proof (cases "accounted k old s")
    case True
    then show ?thesis using accounted_step [OF assms(1) s(1) _ s(2)] s(2) by (auto simp: on_its_way_def)
  next
    case False
    then have "coming k i b" "\<exists>new. sub_queue s' = old @ new"
      using s(3) queue_grows [OF assms(1) s(1,2)] by (metis append_assoc)+
    then show ?thesis using coming_step [OF assms(1) _ s(2)] s(2) by (auto simp: on_its_way_def)
  qed
qed

lemma published_key_is_queued:
  assumes "bus_reachable b" "bus_subs b i = Some s" "k \<in> sub_pending s \<or> coming k i b"
    and run: "bus_run i b b'" and s': "bus_subs b' i = Some s'" "bus_quiet b' s'"
  shows "\<exists>new. sub_queue s' = sub_queue s @ new \<and> k \<in> set new"
proof -
  have "bus_reachable b' \<and> on_its_way k (sub_queue s) i b'"
    using run
  proof induction
    case (next_step b' b'')
    then show ?case using on_its_way_step bus_reachable.step by blast
  qed (use assms in \<open>auto simp: on_its_way_def accounted_def\<close>)
  then have way: "accounted k (sub_queue s) s'" "bus_inv b'"
    using s' by (auto simp: bus_reachable_inv on_its_way_def coming_def bus_quiet_def)
  then have "will_drain (signalling b' i) s'" using s'(1) by (simp add: bus_inv_def)
  then have "sub_pending s' = {}" using s'(2) by (simp add: will_drain_def signalling_def bus_quiet_def)
  then show ?thesis using way(1) s'(2) by (auto simp: accounted_def bus_quiet_def)
qed

end
