(* ===== verification/Spec_Engine.thy ===== *)
theory Spec_Engine
  imports Spend_Guard Run_Manager Reconcile_Bus Store_Examples
begin

text \<open>
  The properties of the limits of a run, of the run manager and of the reconcile bus, each with an
  instance on concrete data.
\<close>

section \<open>The token budget of a run\<close>

text \<open>
  C28. Counting is exact: starting from a fresh budget, calls of the model are let through exactly
  while the tokens of the answered calls, weighted 1 for output and 1/4 for uncached input, are
  below the limit. The float the code counts in loses nothing, for limits up to \<open>2^50\<close> and calls
  below \<open>2^50\<close> tokens; a failing sink changes none of this.
\<close>

theorem budget_counts_exactly:
  assumes "0 < limit" "limit \<le> 2 ^ 50" "\<forall>answer \<in> set answers. call_quarters answer < 2 ^ 52"
  shows "\<exists>st. run_calls sinks answers (newProjectEinoAssistantRolloutBudget limit None) = Some st
    \<and> rb_WeightedTokensUsed st = Fin (of_int (quarters_until limit answers 0) / 4)
    \<and> (ExhaustionError (Some st) = None \<longleftrightarrow> quarters_until limit answers 0 < 4 * limit)"
proof -
  obtain st where st: "newProjectEinoAssistantRolloutBudget limit None = Some st" "counted limit 0 st"
    using counted_new [OF assms(1)] by blast
  obtain st' where "run_calls sinks answers (Some st) = Some st'" "counted limit (quarters_until limit answers 0) st'"
    using run_calls_counted [OF st(2) _ _ assms] assms(1) by auto
  then show ?thesis using st(1) by (auto simp: counted_def ExhaustionError_def)
qed

definition ex_answer :: "int64 \<Rightarrow> int64 \<Rightarrow> model_message option \<times> string option" where
  "ex_answer input output = (Some \<lparr>mm_Content = ''ok'',
     mm_Usage = Some \<lparr>PromptTokens = input, CachedTokens = 0, CompletionTokens = output\<rparr>\<rparr>, None)"

definition ex_sinks :: budget_sinks where
  "ex_sinks = \<lparr>sink_recorder = None, sink_state = Some (\<lambda>_. Some ''down''), sink_reminder = None\<rparr>"

lemma budget_counts_exactly_witness:
  "\<exists>st. run_calls ex_sinks [ex_answer 5 6, ex_answer 2 3, ex_answer 1 1]
      (newProjectEinoAssistantRolloutBudget 10 None) = Some st
    \<and> rb_WeightedTokensUsed st = Fin (43 / 4) \<and> ExhaustionError (Some st) \<noteq> None"
proof -
  have "quarters_until 10 [ex_answer 5 6, ex_answer 2 3, ex_answer 1 1] 0 = 43" by code_simp
  moreover have "\<forall>answer \<in> set [ex_answer 5 6, ex_answer 2 3, ex_answer 1 1]. call_quarters answer < 2 ^ 52"
    by code_simp
  ultimately show ?thesis
    using budget_counts_exactly [of 10 "[ex_answer 5 6, ex_answer 2 3, ex_answer 1 1]" ex_sinks] by auto
qed

text \<open>
  C29. The reminders of what is left come in increasing order and at most once each: within a
  window their index increases, and compaction moves on to a later window, whatever usage is
  recorded in between and also for a budget that was restored.
\<close>

theorem reminders_increase:
  assumes "newProjectEinoAssistantRolloutBudget limit restored = Some st" "reminder_sink_ok sinks"
    and "rb_WindowID st + length ops < 2 ^ 64"
  shows "sorted_wrt reminder_less (reminders_shown sinks ops (newProjectEinoAssistantRolloutBudget limit restored))"
  using reminders_shown_increase [OF assms(2,3)] assms(1) by simp

lemma reminders_increase_witness:
  "sorted_wrt reminder_less (reminders_shown ex_sinks
      [Remind, UseTokens (Some \<lparr>PromptTokens = 0, CachedTokens = 0, CompletionTokens = 60\<rparr>), Remind, Remind, Rearm, Remind]
      (newProjectEinoAssistantRolloutBudget 100 None))"
proof (rule reminders_increase)
  show "newProjectEinoAssistantRolloutBudget 100 None
    = Some (the (newProjectEinoAssistantRolloutBudget 100 None))"
    by (simp add: newProjectEinoAssistantRolloutBudget_def)
qed (simp_all add: reminder_sink_ok_def ex_sinks_def newProjectEinoAssistantRolloutBudget_def)

section \<open>The monthly cap of an organization\<close>

text \<open>
  C30. The cap holds up to the calls in flight: if at most \<open>K\<close> calls of an organization are in flight
  at a time and none costs more than \<open>C\<close>, the spend of a month that was below the cap never gets
  above \<open>cap - 1 + K * C\<close>, and once the cap is reached no run gets past the check.
\<close>

theorem month_overshoot_is_bounded:
  assumes "fleet_reaches catalog memory_ledger p K C f f'"
    and "\<And>i. newProjectEinoAssistantOrgSpendGuard True org (model i) cap = Some (fl_guards f i)"
    and "fl_flying f = {}" "0 \<le> spend_USDMicros (bucket (fl_ledger f) (TrimSpace org) p)"
    and "spend_USDMicros (bucket (fl_ledger f) (TrimSpace org) p) < cap"
    and "0 \<le> C" "cap - 1 + int K * C \<le> max_int64"
  shows "spend_USDMicros (bucket (fl_ledger f') (TrimSpace org) p) \<le> cap - 1 + int K * C
    \<and> (cap \<le> spend_USDMicros (bucket (fl_ledger f') (TrimSpace org) p) \<longrightarrow>
        (\<forall>i now. OrganizationSpendPeriodStart now = p \<longrightarrow>
          fst (CheckSpend memory_ledger now (fl_ledger f') (fl_guards f' i)) \<noteq> None))"
proof -
  have g: "g_orgUUID (fl_guards f i) = TrimSpace org" "g_capMicros (fl_guards f i) = cap" for i
    using assms(2) [of i, symmetric]
    by (auto simp: newProjectEinoAssistantOrgSpendGuard_def Let_def split: if_splits)
  have "0 \<le> int K * C" using assms(6) by simp
  then have "memory_spend.fleet_inv (TrimSpace org) cap p K C f"
    using assms(3-5) g by (simp add: memory_spend.fleet_inv_def)
  then have inv: "memory_spend.fleet_inv (TrimSpace org) cap p K C f'"
    by (rule memory_spend.fleet_inv_reaches [OF assms(1) _ assms(6,7)])
  then have "TrimSpace (g_orgUUID (fl_guards f' i)) = TrimSpace org \<and> g_capMicros (fl_guards f' i) = cap" for i
    by (simp add: memory_spend.fleet_inv_def)
  then have "fst (CheckSpend memory_ledger now (fl_ledger f') (fl_guards f' i)) \<noteq> None"
    if "cap \<le> spend_USDMicros (bucket (fl_ledger f') (TrimSpace org) p)" "OrganizationSpendPeriodStart now = p" for i now
    using memory_spend.check_passes(2) [of now "fl_ledger f'" "fl_guards f' i"] that
    by (metis linorder_not_less prod.collapse)
  with memory_spend.overshoot [OF inv assms(6)] show ?thesis by blast
qed

definition ex_fleet :: "MemoryStore fleet" where
  "ex_fleet = \<lparr>fl_ledger = NewMemoryStore ex_quota,
     fl_guards = (\<lambda>_. \<lparr>g_orgUUID = ''o'', g_model = ''m'', g_capMicros = 10, g_capReported = False\<rparr>), fl_flying = {}\<rparr>"

text \<open>Two calls pass the check and end, each for 7 micro-USD; the month is at 14 of 10, and closed.\<close>

definition ex_catalog :: model_catalog where
  "ex_catalog = (\<lambda>_. Some \<lparr>InputPer1M = Fin 0, OutputPer1M = Fin 7\<rparr>)"

definition ex_check :: "nat \<Rightarrow> MemoryStore fleet \<Rightarrow> MemoryStore fleet" where
  "ex_check i f = (case CheckSpend memory_ledger 5 (fl_ledger f) (fl_guards f i) of (err, _, g) \<Rightarrow>
     f\<lparr>fl_guards := (fl_guards f)(i := g), fl_flying := (if err = None then insert i (fl_flying f) else fl_flying f)\<rparr>)"

definition ex_usage :: TokenUsage where
  "ex_usage = \<lparr>PromptTokens = 0, CachedTokens = 0, CompletionTokens = 1\<rparr>"

definition ex_delta :: OrganizationSpendDelta where
  "ex_delta = \<lparr>delta_InputTokens = 0, delta_OutputTokens = 1, delta_USDMicros = 7\<rparr>"

definition ex_end :: "nat \<Rightarrow> MemoryStore fleet \<Rightarrow> MemoryStore fleet" where
  "ex_end i f = (case record_delta memory_ledger 5 5 ex_delta (fl_ledger f) (fl_guards f i) of
     ((_, _, g), st) \<Rightarrow> f\<lparr>fl_ledger := st, fl_guards := (fl_guards f)(i := g), fl_flying := fl_flying f - {i}\<rparr>)"

lemma ex_delta: "call_delta ex_catalog m 0 (Some ex_usage) = ex_delta"
proof -
  have "round64 7 = Fin 7" "round64 0 = Fin 0" using round64_exact [of 7 7 0] by (simp_all add: round64_def)
  moreover have "\<lfloor>15 / 2 :: rat\<rfloor> = 7" by (simp add: floor_eq_iff)
  ultimately show ?thesis
    by (simp add: call_delta_def usage_delta_def ex_usage_def ex_delta_def projectAssistantModelCostMicros_def
        projectAssistantModelPriceFor_def ex_catalog_def projectAssistantClampUSDMicros_def is_int64_def max_int64_def)
qed

lemma ex_check_step:
  assumes "card (fl_flying (ex_check i f)) \<le> K" "i \<notin> fl_flying f"
  shows "fleet_step ex_catalog memory_ledger 0 K 7 f (ex_check i f)"
proof -
  obtain err notices g where check: "CheckSpend memory_ledger 5 (fl_ledger f) (fl_guards f i) = (err, notices, g)"
    using prod_cases3 by blast
  have "OrganizationSpendPeriodStart 5 = 0" by code_simp
  from fleet_step.check [OF check this assms(2) refl] assms(1) show ?thesis by (simp add: ex_check_def check)
qed

lemma ex_end_step:
  assumes "i \<in> fl_flying f"
  shows "fleet_step ex_catalog memory_ledger 0 K 7 f (ex_end i f)"
proof -
  obtain err notices g st where ended: "record_delta memory_ledger 5 5 ex_delta (fl_ledger f) (fl_guards f i)
      = ((err, notices, g), st)"
    by (metis prod.exhaust)
  then have "RecordAtLeastPrompt ex_catalog memory_ledger 5 5 0 (Some ex_usage) (fl_ledger f) (fl_guards f i)
      = ((err, notices, g), st)"
    by (simp add: RecordAtLeastPrompt_delta ex_delta)
  moreover have "OrganizationSpendPeriodStart 5 = 0" by code_simp
  ultimately show ?thesis
    using fleet_step.ended [of ex_catalog memory_ledger 5 5 0 "Some ex_usage" f i err notices g st 0 7 K] assms
    by (simp add: ex_end_def ended ex_delta) (simp add: ex_delta_def)
qed

definition ex_fleet_over :: "MemoryStore fleet" where
  "ex_fleet_over = ex_end 1 (ex_end 0 (ex_check 1 (ex_check 0 ex_fleet)))"

lemma ex_fleet_values:
  "fl_flying (ex_check 0 ex_fleet) = {0}" "fl_flying (ex_check 1 (ex_check 0 ex_fleet)) = {0, 1}"
  "fl_flying (ex_end 0 (ex_check 1 (ex_check 0 ex_fleet))) = {1}"
  "spend_USDMicros (bucket (fl_ledger ex_fleet_over) ''o'' 0) = 14"
  "newProjectEinoAssistantOrgSpendGuard True ''o'' ''m'' 10 = Some (fl_guards ex_fleet 0)"
  "spend_USDMicros (bucket (fl_ledger ex_fleet) ''o'' 0) = 0" "TrimSpace ''o'' = ''o''"
  by code_simp+

lemma month_overshoot_is_bounded_witness:
  "spend_USDMicros (bucket (fl_ledger ex_fleet_over) ''o'' 0) = 14
    \<and> fst (CheckSpend memory_ledger 5 (fl_ledger ex_fleet_over) (fl_guards ex_fleet_over 0)) \<noteq> None"
proof -
  have "fleet_reaches ex_catalog memory_ledger 0 2 7 ex_fleet ex_fleet_over"
    unfolding ex_fleet_over_def
    by (intro fleet_reaches.next_step [OF _ ex_end_step] fleet_reaches.next_step [OF _ ex_check_step]
        fleet_reaches.here) (simp_all only: ex_fleet_values, simp_all add: ex_fleet_def)
  moreover have "newProjectEinoAssistantOrgSpendGuard True ''o'' ''m'' 10 = Some (fl_guards ex_fleet i)"
    "fl_flying ex_fleet = {}" for i
    using ex_fleet_values(5) by (simp_all add: ex_fleet_def)
  moreover have "OrganizationSpendPeriodStart 5 = 0" by code_simp
  ultimately show ?thesis
    using month_overshoot_is_bounded [of ex_catalog 0 2 7 ex_fleet ex_fleet_over "''o''" "\<lambda>_. ''m''" 10]
    by (simp add: ex_fleet_values max_int64_def)
qed

section \<open>Runs of a conversation\<close>

text \<open>
  C31. One turn per conversation: in every state of the run manager, however calls of \<open>Begin\<close>,
  time-outs, cancellations and finish functions interleave, at most one turn of a key runs; \<open>busy\<close>
  tells whether a turn of the conversation, or of the project, runs; and the turn another one waits
  for has been told to stop.
\<close>

theorem one_turn_per_conversation:
  assumes "manager_reachable m"
  shows "(\<forall>h h' k. runs m h k \<longrightarrow> runs m h' k \<longrightarrow> h = h')
    \<and> (\<forall>key. busy m key \<longleftrightarrow> (\<exists>h k. runs m h k \<and> (if rk_ThreadID key \<noteq> [] then k = key else same_project_key k key)))
    \<and> (\<forall>h t p. rm_turns m h = Some t \<longrightarrow> at_phase t = Waiting p
        \<longrightarrow> (\<exists>previous. rm_turns m p = Some previous \<and> at_cancel previous \<noteq> None))"
proof -
  have inv: "manager_inv m" by (rule manager_reachable_inv [OF assms])
  have "\<exists>previous. rm_turns m p = Some previous \<and> at_cancel previous \<noteq> None"
    if "rm_turns m h = Some t" "at_phase t = Waiting p" for h t p
    using inv that unfolding manager_inv_def turn_ok_def by blast
  then show ?thesis using runs_active [OF inv] busy_runs [OF inv] by auto
qed

definition ex_key :: projectAssistantRunKey where
  "ex_key = \<lparr>rk_OrgUUID = ''o'', rk_WorkspaceUUID = ''w'', rk_ProjectName = ''p'', rk_ProjectUID = ''u'',
     rk_ThreadID = ''t''\<rparr>"

text \<open>Turn 0 runs and is told to stop; turn 1 waits for it.\<close>

definition ex_waiting :: run_manager where
  "ex_waiting = (let first = begin_turn ex_key; second = begin_turn ex_key;
       m0 = set_turn 0 first newProjectAssistantRunManager; m1 = begin_round 0 first m0; m2 = set_turn 1 second m1
     in begin_round 1 second m2)"

lemma ex_waiting_reachable: "manager_reachable ex_waiting"
proof -
  have valid: "run_key_valid ex_key" by code_simp
  let ?t = "begin_turn ex_key"
  let ?m0 = "set_turn 0 ?t newProjectAssistantRunManager"
  let ?m1 = "begin_round 0 ?t ?m0"
  have phase: "at_phase ?t = Locking" by (simp add: begin_turn_def)
  have "manager_reachable ?m0"
    by (rule manager_reachable.step [OF manager_reachable.new manager_step.begins [OF valid]])
      (simp add: newProjectAssistantRunManager_def)
  then have "manager_reachable ?m1"
    by (rule manager_reachable.step) (rule manager_step.round, simp_all add: phase)
  moreover have "rm_turns ?m1 1 = None" by code_simp
  ultimately have "manager_reachable (set_turn 1 ?t ?m1)"
    by (blast intro: manager_reachable.step manager_step.begins [OF valid])
  then have "manager_reachable (begin_round 1 ?t (set_turn 1 ?t ?m1))"
    by (rule manager_reachable.step) (rule manager_step.round, simp_all add: phase)
  then show ?thesis by (simp add: ex_waiting_def Let_def)
qed

lemma one_turn_per_conversation_witness:
  "runs ex_waiting 0 ex_key \<and> \<not> runs ex_waiting 1 ex_key \<and> busy ex_waiting ex_key"
proof -
  have "map_option at_phase (rm_turns ex_waiting 0) = Some Running
      \<and> map_option at_key (rm_turns ex_waiting 0) = Some ex_key" by code_simp
  then have "runs ex_waiting 0 ex_key" by (auto simp: runs_def)
  moreover from this have "\<not> runs ex_waiting 1 ex_key" "busy ex_waiting ex_key"
    using conjunct1 [OF one_turn_per_conversation [OF ex_waiting_reachable]]
      conjunct1 [OF conjunct2 [OF one_turn_per_conversation [OF ex_waiting_reachable]]]
    by (auto simp: ex_key_def)
  ultimately show ?thesis by blast
qed

section \<open>The reconcile bus\<close>

text \<open>
  C32. No signal is lost: a key whose publication is under way to a subscriber, or that is pending
  there, is added to the queue of that subscriber before it comes to rest, however publishers,
  subscriptions and the goroutines of the subscribers interleave.
\<close>

theorem no_signal_is_lost:
  assumes "bus_reachable b" "bus_subs b i = Some s" "k \<in> sub_pending s \<or> coming k i b"
    and "bus_run i b b'" "bus_subs b' i = Some s'" "bus_quiet b' s'"
  shows "\<exists>new. sub_queue s' = sub_queue s @ new \<and> k \<in> set new"
  by (rule published_key_is_queued [OF assms])

text \<open>One subscriber, and one key that is published to it.\<close>

definition ex_signal :: Key where
  "ex_signal = \<lparr>Cluster = ''c'', Name = ''n''\<rparr>"

definition ex_bus :: "publisher option \<Rightarrow> subscriber \<Rightarrow> Bus" where
  "ex_bus lock s = \<lparr>bus_subs = [0 \<mapsto> s], bus_lock = lock\<rparr>"

abbreviation ex_publisher :: "nat option \<Rightarrow> nat list \<Rightarrow> publisher option" where
  "ex_publisher sg rest \<equiv> Some \<lparr>pub_key = ex_signal, pub_signal = sg, pub_rest = rest\<rparr>"

abbreviation ex_sub :: "Key set \<Rightarrow> bool \<Rightarrow> drainer \<Rightarrow> Key list \<Rightarrow> subscriber" where
  "ex_sub keys sg state queue \<equiv>
     \<lparr>sub_pending = keys, sub_wake = sg, sub_drainer = state, sub_queue = queue\<rparr>"

lemma ex_bus_published: "bus_reachable (ex_bus (ex_publisher None [0]) (ex_sub {} False Selecting []))"
proof -
  have "bus_reachable (ex_bus None (ex_sub {} False Selecting []))"
    using bus_reachable.step [OF bus_reachable.new bus_step.subscribe [of NewBus 0]]
    by (simp add: NewBus_def ex_bus_def new_subscriber_def)
  from bus_reachable.step [OF this bus_step.publish [of ex_signal _ "[0]"]] show ?thesis
    by (simp add: ex_bus_def Key_valid_def ex_signal_def)
qed

lemma ex_bus_steps:
  "bus_step (ex_bus (ex_publisher None [0]) (ex_sub {} False Selecting []))
     (ex_bus (ex_publisher (Some 0) []) (ex_sub {ex_signal} False Selecting []))"
  "bus_step (ex_bus (ex_publisher (Some 0) []) (ex_sub {ex_signal} False Selecting []))
     (ex_bus (ex_publisher None []) (ex_sub {ex_signal} True Selecting []))"
  "bus_step (ex_bus (ex_publisher None []) (ex_sub {ex_signal} True Selecting []))
     (ex_bus None (ex_sub {ex_signal} True Selecting []))"
  "bus_step (ex_bus None (ex_sub {ex_signal} True Selecting [])) (ex_bus None (ex_sub {ex_signal} False Woken []))"
  "bus_step (ex_bus None (ex_sub {ex_signal} False Woken [])) (ex_bus None (ex_sub {} False (Adding [ex_signal]) []))"
  "bus_step (ex_bus None (ex_sub {} False (Adding [ex_signal]) [])) (ex_bus None (ex_sub {} False (Adding []) [ex_signal]))"
  "bus_step (ex_bus None (ex_sub {} False (Adding []) [ex_signal])) (ex_bus None (ex_sub {} False Selecting [ex_signal]))"
  using bus_step.publish_add [of "ex_bus (ex_publisher None [0]) (ex_sub {} False Selecting [])"
      ex_signal 0 "[]" "ex_sub {} False Selecting []"]
    bus_step.publish_wake [of "ex_bus (ex_publisher (Some 0) []) (ex_sub {ex_signal} False Selecting [])"
      ex_signal 0 "[]" "ex_sub {ex_signal} False Selecting []"]
    bus_step.publish_end [of "ex_bus (ex_publisher None []) (ex_sub {ex_signal} True Selecting [])" ex_signal]
    bus_step.wake [of "ex_bus None (ex_sub {ex_signal} True Selecting [])" 0 "ex_sub {ex_signal} True Selecting []"]
    bus_step.take_all [of "ex_bus None (ex_sub {ex_signal} False Woken [])" 0 "ex_sub {ex_signal} False Woken []"
      "[ex_signal]"]
    bus_step.enqueue [of "ex_bus None (ex_sub {} False (Adding [ex_signal]) [])" 0
      "ex_sub {} False (Adding [ex_signal]) []" ex_signal "[]"]
    bus_step.again [of "ex_bus None (ex_sub {} False (Adding []) [ex_signal])" 0
      "ex_sub {} False (Adding []) [ex_signal]"]
  by (simp_all add: ex_bus_def add_pending_def add_wake_def drain_def queue_add_def)

lemma no_signal_is_lost_witness:
  "\<exists>new. sub_queue (ex_sub {} False Selecting [ex_signal]) = [] @ new \<and> ex_signal \<in> set new"
proof -
  have "bus_run 0 (ex_bus (ex_publisher None [0]) (ex_sub {} False Selecting []))
      (ex_bus None (ex_sub {} False Selecting [ex_signal]))"
    by (rule bus_run.next_step [OF bus_run.next_step [OF bus_run.next_step [OF bus_run.next_step [OF bus_run.next_step
          [OF bus_run.next_step [OF bus_run.next_step [OF bus_run.here ex_bus_steps(1)] ex_bus_steps(2)]
            ex_bus_steps(3)] ex_bus_steps(4)] ex_bus_steps(5)] ex_bus_steps(6)] ex_bus_steps(7)])
      (simp_all add: ex_bus_def)
  from no_signal_is_lost [OF ex_bus_published _ _ this] show ?thesis
    by (simp add: ex_bus_def coming_def bus_quiet_def)
qed

end
