(* ===== verification/Workspace_Paths.thy ===== *)
theory Workspace_Paths
  imports Run_Limits Store_Crypto
begin

text \<open>
  Paths and contents of a project workspace (\<open>src/workspace/store.go\<close>): the canonical form of a
  path, the directory of a scope, and the bounds of files. \<open>path.Clean\<close>, \<open>filepath.Rel\<close> and the string
  functions are those of the Go library for slash-separated paths.

  Shown: an accepted path consists of plain components that are not reserved, so the file it
  names lies inside the workspace; cleaning it again changes nothing unless a space at its ends
  was hidden behind a dot or a slash.
\<close>

section \<open>Components\<close>

abbreviation slash :: char where
  "slash \<equiv> CHR ''/''"

definition path_parts :: "string \<Rightarrow> string list" where
  "path_parts p = strings_Split slash p"

fun join_slash :: "string list \<Rightarrow> string" where
  "join_slash [] = []"
| "join_slash [p] = p"
| "join_slash (p # q # ps) = p @ slash # join_slash (q # ps)"

text \<open>\<open>path.Clean\<close>: the elements that are left when \<open>.\<close>, empty elements and \<open>..\<close> are processed.\<close>

fun clean_parts :: "bool \<Rightarrow> string list \<Rightarrow> string list \<Rightarrow> string list" where
  "clean_parts rooted out [] = out"
| "clean_parts rooted out (part # rest) =
     (if part = [] \<or> part = ''.'' then clean_parts rooted out rest
      else if part = ''..'' then
        clean_parts rooted (if out \<noteq> [] \<and> last out \<noteq> ''..'' then butlast out
          else if rooted then out else out @ [''..'']) rest
      else clean_parts rooted (out @ [part]) rest)"

definition path_Clean :: "string \<Rightarrow> string" where
  "path_Clean p = (if p = [] then ''.''
     else let rooted = (hd p = slash); out = join_slash (clean_parts rooted [] (path_parts p))
       in if rooted then slash # out else if out = [] then ''.'' else out)"

section \<open>Accepted paths\<close>

datatype workspace_error =
    PathEmpty
  | PathTooLong
  | PathNotRelative
  | PathDotDot
  | PathReserved string
  | PathNUL
  | ScopeIncomplete
  | ScopeInvalid
  | FileTooLarge string int int bool
  | TooManyFiles
  | DuplicatePath string
  | TreeTooLarge
  | FileAndChild string string

definition workspaceTempFilePrefix :: string where
  "workspaceTempFilePrefix = ''.workspace-write-''"

definition workspaceSnapshotDirectory :: string where
  "workspaceSnapshotDirectory = ''.assistant-snapshots''"

definition MaxProjectPathBytes :: nat where
  "MaxProjectPathBytes = 1024"

definition HasPrefix :: "string \<Rightarrow> string \<Rightarrow> bool" where
  "HasPrefix s p \<longleftrightarrow> take (length p) s = p"

definition isReservedPathSegment :: "string \<Rightarrow> bool" where
  "isReservedPathSegment part = (let part = ToLower (TrimSpace part)
     in HasPrefix part workspaceTempFilePrefix
        \<or> part = ''.git'' \<or> part = ''node_modules'' \<or> part = workspaceSnapshotDirectory)"

fun check_parts :: "string list \<Rightarrow> workspace_error option" where
  "check_parts [] = None"
| "check_parts (part # rest) =
     (if part = ''..'' then Some PathDotDot
      else if isReservedPathSegment part then Some (PathReserved part)
      else if CHR 0x00 \<in> set part then Some PathNUL
      else check_parts rest)"

definition cleanProjectPath :: "string \<Rightarrow> workspace_error + string" where
  "cleanProjectPath raw =
     (let raw = TrimSpace (map (\<lambda>c. if c = CHR 0x5C then slash else c) raw)
      in if raw = [] then Inl PathEmpty
         else if MaxProjectPathBytes < length raw then Inl PathTooLong
         else if HasPrefix raw [slash] then Inl PathNotRelative
         else (case check_parts (path_parts raw) of
             Some e \<Rightarrow> Inl e
           | None \<Rightarrow> let clean = path_Clean raw
               in if clean = ''.'' \<or> clean = [] then Inl PathEmpty else Inr clean))"

section \<open>Directories\<close>

definition validateScopeSegment :: "string \<Rightarrow> workspace_error option" where
  "validateScopeSegment value = (let value = TrimSpace value
     in if value = [] then Some ScopeIncomplete
        else if list_ex (\<lambda>c. c = slash \<or> c = CHR 0x5C \<or> c = CHR 0x00) value \<or> value = ''.'' \<or> value = ''..''
        then Some ScopeInvalid else None)"

text \<open>
  The directory of a scope below the root, as components of clean absolute paths; the migration of
  the layout before \<open>ProjectUID\<close>, which runs first, is not modelled. \<open>filepath.Rel\<close> of such paths drops
  the common prefix.
\<close>

definition scopeDir :: "string list \<Rightarrow> Scope \<Rightarrow> workspace_error + string list" where
  "scopeDir base scope = (case List.map_filter validateScopeSegment
       [OrgUUID scope, WorkspaceUUID scope, ProjectName scope, ProjectUID scope] of
     e # _ \<Rightarrow> Inl e
   | [] \<Rightarrow> Inr (base @ filter (\<lambda>p. p \<noteq> []) [OrgUUID scope, WorkspaceUUID scope, ProjectName scope, ProjectUID scope]))"

fun filepath_Rel :: "string list \<Rightarrow> string list \<Rightarrow> string list" where
  "filepath_Rel (r # rs) (t # ts) = (if r = t then filepath_Rel rs ts
     else replicate (length (r # rs)) ''..'' @ t # ts)"
| "filepath_Rel rs ts = replicate (length rs) ''..'' @ ts"

definition ensureWithin :: "string list \<Rightarrow> string list \<Rightarrow> bool" where
  "ensureWithin base target = (case filepath_Rel base target of [] \<Rightarrow> False | r # _ \<Rightarrow> r \<noteq> ''..'')"

section \<open>Contents\<close>

definition MaxWriteBytes :: nat where
  "MaxWriteBytes = 262144"

definition MaxBinaryWriteBytes :: nat where
  "MaxBinaryWriteBytes = 26214400"

definition isBinary :: "string \<Rightarrow> bool" where
  "isBinary buf \<longleftrightarrow> CHR 0x00 \<in> set buf \<or> \<not> ValidString buf"

definition validTextContent :: "string \<Rightarrow> bool" where
  "validTextContent content \<longleftrightarrow> ValidString content \<and> CHR 0x00 \<notin> set content"

definition validateFileBytes :: "string \<Rightarrow> string \<Rightarrow> workspace_error option" where
  "validateFileBytes p content = (case cleanProjectPath p of
       Inl e \<Rightarrow> Some e
     | Inr _ \<Rightarrow>
       if isBinary content then
         (if MaxBinaryWriteBytes < length content
          then Some (FileTooLarge p (int (length content)) (int MaxBinaryWriteBytes) True) else None)
       else if MaxWriteBytes < length content
       then Some (FileTooLarge p (int (length content)) (int MaxWriteBytes) False)
       else None)"

definition validateMutationContent :: "string \<Rightarrow> string \<Rightarrow> workspace_error option" where
  "validateMutationContent p content = (case cleanProjectPath p of
       Inl e \<Rightarrow> Some e
     | Inr _ \<Rightarrow>
       if MaxWriteBytes < length content
       then Some (FileTooLarge p (int (length content)) (int MaxWriteBytes) False)
       else if \<not> validTextContent content then Some PathNUL else None)"

definition boundedPositive :: "int \<Rightarrow> int \<Rightarrow> int \<Rightarrow> int" where
  "boundedPositive value fallback maximum =
     (if maximum < value then maximum else if 0 < value then value else fallback)"

function trimValidUTF8 :: "string \<Rightarrow> string" where
  "trimValidUTF8 buf = (if buf \<noteq> [] \<and> \<not> ValidString buf then trimValidUTF8 (butlast buf) else buf)"
  by pat_completeness auto
termination by (relation "measure length") auto

declare trimValidUTF8.simps [simp del]

section \<open>What an accepted path is\<close>

text \<open>A component that is a name in a directory, and not a reserved one.\<close>

definition plain_part :: "string \<Rightarrow> bool" where
  "plain_part p \<longleftrightarrow> p \<noteq> [] \<and> p \<noteq> ''.'' \<and> p \<noteq> ''..'' \<and> slash \<notin> set p \<and> CHR 0x00 \<notin> set p
     \<and> \<not> isReservedPathSegment p"

lemma Split_not_Nil [simp]: "strings_Split sep s \<noteq> []"
  by (induction s) (auto split: list.split)

lemma Split_parts: "p \<in> set (strings_Split sep s) \<Longrightarrow> sep \<notin> set p"
proof (induction s arbitrary: p)
  case (Cons c s)
  obtain h t where ht: "strings_Split sep s = h # t" by (cases "strings_Split sep s") auto
  with Cons.prems have "p = [] \<or> p \<in> set (h # t) \<or> c \<noteq> sep \<and> p = c # h" by (auto split: if_splits)
  with Cons.IH ht show ?case by auto
qed simp

lemma Split_prefix: "sep \<notin> set a \<Longrightarrow> strings_Split sep (a @ sep # s) = a # strings_Split sep s"
  by (induction a) auto

lemma Split_whole: "sep \<notin> set a \<Longrightarrow> strings_Split sep a = [a]"
  by (induction a) auto

lemma parts_join: "ps \<noteq> [] \<Longrightarrow> \<forall>p \<in> set ps. slash \<notin> set p \<Longrightarrow> path_parts (join_slash ps) = ps"
  unfolding path_parts_def by (induction ps rule: join_slash.induct) (auto simp: Split_prefix Split_whole)

lemma clean_parts_plain:
  assumes "\<forall>p \<in> set ps. p \<noteq> ''..''"
  shows "clean_parts rooted out ps = out @ filter (\<lambda>p. p \<noteq> [] \<and> p \<noteq> ''.'') ps"
  using assms by (induction ps arbitrary: out) auto

lemma check_parts_None:
  "check_parts ps = None \<longleftrightarrow>
    (\<forall>p \<in> set ps. p \<noteq> ''..'' \<and> \<not> isReservedPathSegment p \<and> CHR 0x00 \<notin> set p)"
  by (induction ps) auto

lemma join_slash_Nil [simp]: "join_slash ps = [] \<longleftrightarrow> ps = [] \<or> ps = [[]]"
  by (cases ps rule: join_slash.cases) auto

lemma hd_join_slash: "hd ps \<noteq> [] \<Longrightarrow> ps \<noteq> [] \<Longrightarrow> hd (join_slash ps) = hd (hd ps)"
  by (cases ps rule: join_slash.cases) auto

lemma length_join_slash: "length (join_slash (filter P ps)) \<le> length (join_slash ps)"
proof (induction ps rule: join_slash.induct)
  case (3 p q ps)
  then show ?case by (cases "filter P (q # ps)") auto
qed auto

lemma join_Split: "join_slash (strings_Split slash s) = s"
proof (induction s)
  case (Cons c s)
  then show ?case
    by (cases "strings_Split slash s" rule: join_slash.cases) auto
qed simp

lemma path_Clean_parts:
  assumes "s \<noteq> []" "hd s \<noteq> slash" "\<forall>p \<in> set (path_parts s). p \<noteq> ''..''"
  shows "path_Clean s = (let ps = filter (\<lambda>p. p \<noteq> [] \<and> p \<noteq> ''.'') (path_parts s)
    in if ps = [] then ''.'' else join_slash ps)"
proof -
  let ?ps = "filter (\<lambda>p. p \<noteq> [] \<and> p \<noteq> ''.'') (path_parts s)"
  have "clean_parts False [] (path_parts s) = ?ps" using clean_parts_plain [OF assms(3), of False "[]"] by simp
  moreover have "\<forall>p \<in> set ?ps. p \<noteq> []" by simp
  then have "?ps \<noteq> [[]]" by (metis list.set_intros(1))
  ultimately show ?thesis using assms(1,2) by (simp add: path_Clean_def Let_def)
qed

lemma cleanProjectPath_parts:
  assumes "cleanProjectPath raw = Inr clean"
  obtains ps where "ps \<noteq> []" "\<forall>p \<in> set ps. plain_part p" "clean = join_slash ps" "path_parts clean = ps"
    "length clean \<le> MaxProjectPathBytes"
proof -
  define s where "s = TrimSpace (map (\<lambda>c. if c = CHR 0x5C then slash else c) raw)"
  have s: "s \<noteq> []" "length s \<le> MaxProjectPathBytes" "hd s \<noteq> slash" "check_parts (path_parts s) = None"
    "path_Clean s = clean" "clean \<noteq> ''.''"
    using assms by (auto simp: cleanProjectPath_def s_def [symmetric] HasPrefix_def Let_def hd_conv_nth take_Suc_conv_app_nth
        split: if_splits option.splits)
  let ?ps = "filter (\<lambda>p. p \<noteq> [] \<and> p \<noteq> ''.'') (path_parts s)"
  have ok: "\<forall>p \<in> set (path_parts s). p \<noteq> ''..'' \<and> \<not> isReservedPathSegment p \<and> CHR 0x00 \<notin> set p"
    using s(4) by (simp add: check_parts_None)
  then have c: "clean = (if ?ps = [] then ''.'' else join_slash ?ps)"
    using path_Clean_parts [OF s(1,3)] s(5) by (simp add: Let_def)
  with s(6) have ne: "?ps \<noteq> []" by auto
  have plain: "\<forall>p \<in> set ?ps. plain_part p"
    using ok Split_parts [of _ slash s] by (auto simp: plain_part_def path_parts_def)
  have "length (join_slash ?ps) \<le> length s"
    using length_join_slash [of _ "path_parts s"] by (simp add: path_parts_def join_Split)
  then show thesis
    using that [of ?ps] ne plain c s(2) parts_join [OF ne] by (simp add: plain_part_def)
qed

text \<open>The file of an accepted path is below the directory of its workspace.\<close>

lemma Rel_below: "filepath_Rel base (base @ ps) = ps"
  by (induction base) simp_all

lemma clean_path_within:
  assumes "cleanProjectPath raw = Inr clean"
  shows "ensureWithin base (base @ path_parts clean)"
proof -
  obtain ps where "ps \<noteq> []" "\<forall>p \<in> set ps. plain_part p" "path_parts clean = ps"
    using cleanProjectPath_parts [OF assms] by metis
  then show ?thesis by (cases ps) (simp_all add: ensureWithin_def Rel_below plain_part_def)
qed

text \<open>Cleaning again: only spaces at the two ends of the clean path can be lost.\<close>

lemma cleanProjectPath_again:
  assumes "cleanProjectPath raw = Inr clean" "TrimSpace clean = clean" "CHR 0x5C \<notin> set clean"
  shows "cleanProjectPath clean = Inr clean"
proof -
  obtain ps where ps: "ps \<noteq> []" "\<forall>p \<in> set ps. plain_part p" "clean = join_slash ps" "path_parts clean = ps"
    "length clean \<le> MaxProjectPathBytes"
    using cleanProjectPath_parts [OF assms(1)] .
  have first: "hd ps \<noteq> []" "slash \<notin> set (hd ps)" using ps(1,2) by (auto simp: plain_part_def)
  then have ne: "clean \<noteq> []" using ps(1,3) by (cases ps) auto
  have hd: "hd clean \<noteq> slash" using first ps(1) by (simp add: ps(3) hd_join_slash) (metis list.set_sel(1))
  have same: "map (\<lambda>c. if c = CHR 0x5C then slash else c) clean = clean"
    using assms(3) by (intro map_idI) auto
  have plain: "\<forall>p \<in> set ps. p \<noteq> ''..''" "check_parts ps = None" "filter (\<lambda>p. p \<noteq> [] \<and> p \<noteq> ''.'') ps = ps"
    using ps(2) by (auto simp: plain_part_def check_parts_None filter_id_conv)
  have "path_Clean clean = clean"
    using path_Clean_parts [OF ne hd] plain(1,3) ps(1,3,4) by simp
  moreover have "clean \<noteq> ''.''"
  proof
    assume "clean = ''.''"
    then have "path_parts clean = [''.'']" by (simp add: path_parts_def)
    with ps show False by (simp add: plain_part_def)
  qed
  moreover have "\<not> HasPrefix clean [slash]" using hd ne by (cases clean) (auto simp: HasPrefix_def)
  ultimately show ?thesis
    using ne ps(4,5) plain(2) by (simp add: cleanProjectPath_def same assms(2) Let_def)
qed

text \<open>And such a space is lost: the clean path of \<open>a /\<close> ends in a space, and cleaning it again drops it.\<close>

lemma clean_is_not_idempotent:
  "cleanProjectPath ''a /'' = Inr ''a ''" "cleanProjectPath ''a '' = Inr ''a''"
  by code_simp+

end
