(* ===== verification/Workspace_Text.thy ===== *)
theory Workspace_Text
  imports Workspace_Paths
begin

text \<open>
  Text or binary, decided while a file is streamed: \<open>textDetector\<close> of \<open>src/workspace/store.go\<close>, which
  keeps at most one incomplete rune between two writes, and \<open>textPrefix\<close> for a file that was cut
  off. \<open>utf8.RuneStart\<close> and \<open>utf8.FullRune\<close> are those of the Go library.

  Shown: whatever chunks a file is read in, the detector decides as \<open>isBinary\<close> does on all its bytes.
\<close>

section \<open>Runes\<close>

abbreviation tail_byte :: "nat \<Rightarrow> bool" where
  "tail_byte \<equiv> Store_Attachments.continuation"

definition RuneStart :: "nat \<Rightarrow> bool" where
  "RuneStart b \<longleftrightarrow> \<not> tail_byte b"

text \<open>The number of bytes a first byte announces; an invalid one counts as complete.\<close>

definition rune_size :: "nat \<Rightarrow> nat" where
  "rune_size a = (if 194 \<le> a \<and> a \<le> 223 then 2 else if 224 \<le> a \<and> a \<le> 239 then 3
     else if 240 \<le> a \<and> a \<le> 244 then 4 else 1)"

definition second_ok :: "nat \<Rightarrow> nat \<Rightarrow> bool" where
  "second_ok a b \<longleftrightarrow> tail_byte b \<and> (a = 224 \<longrightarrow> 160 \<le> b) \<and> (a = 237 \<longrightarrow> b \<le> 159)
     \<and> (a = 240 \<longrightarrow> 144 \<le> b) \<and> (a = 244 \<longrightarrow> b \<le> 143)"

fun FullRune :: "nat list \<Rightarrow> bool" where
  "FullRune [] = False"
| "FullRune (a # s) =
     (if rune_size a \<le> length (a # s) then True
      else (case s of
          [] \<Rightarrow> False
        | b # s1 \<Rightarrow> if \<not> second_ok a b then True
            else (case s1 of [] \<Rightarrow> False | c # _ \<Rightarrow> \<not> tail_byte c)))"

section \<open>The detector\<close>

record textDetector =
  td_carry :: "nat list"
  td_binary :: bool

definition new_detector :: textDetector where
  "new_detector = \<lparr>td_carry = [], td_binary = False\<rparr>"

text \<open>
  The loop over the last four bytes, from the end: at the first byte that starts a rune, the buffer
  is cut if the rune is not complete. \<open>n\<close> counts the bytes that may still be looked at.
\<close>

fun find_cut :: "nat list \<Rightarrow> nat \<Rightarrow> nat \<Rightarrow> nat" where
  "find_cut buf 0 i = length buf"
| "find_cut buf (Suc n) 0 = length buf"
| "find_cut buf (Suc n) (Suc i) =
     (if RuneStart (buf ! i) then if FullRune (drop i buf) then length buf else i
      else find_cut buf n i)"

definition td_Write :: "nat list \<Rightarrow> textDetector \<Rightarrow> textDetector" where
  "td_Write p d =
     (if td_binary d then d
      else if 0 \<in> set p then d\<lparr>td_binary := True\<rparr>
      else let buf = td_carry d @ p; cut = find_cut buf 4 (length buf)
        in if \<not> utf8_valid (take cut buf) then d\<lparr>td_binary := True\<rparr>
           else d\<lparr>td_carry := drop cut buf\<rparr>)"

definition td_Text :: "textDetector \<Rightarrow> bool" where
  "td_Text d \<longleftrightarrow> \<not> td_binary d \<and> td_carry d = []"

definition detect_chunks :: "nat list list \<Rightarrow> textDetector" where
  "detect_chunks chunks = fold td_Write chunks new_detector"

text \<open>\<open>textPrefix\<close>, with the loop of the same shape.\<close>

fun prefix_scan :: "nat list \<Rightarrow> nat \<Rightarrow> nat \<Rightarrow> bool" where
  "prefix_scan buf 0 i = False"
| "prefix_scan buf (Suc n) 0 = False"
| "prefix_scan buf (Suc n) (Suc i) =
     (if RuneStart (buf ! i) then \<not> FullRune (drop i buf) \<and> utf8_valid (take i buf)
      else prefix_scan buf n i)"

definition textPrefix :: "string \<Rightarrow> bool" where
  "textPrefix s = (let buf = map byte s
     in if 0 \<in> set buf then False
        else if utf8_valid buf then True
        else prefix_scan buf 4 (length buf))"

section \<open>Valid text as a sequence of runes\<close>

fun is_rune :: "nat list \<Rightarrow> bool" where
  "is_rune [a] = (a < 128)"
| "is_rune [a, b] = (194 \<le> a \<and> a \<le> 223 \<and> second_ok a b)"
| "is_rune [a, b, c] = (224 \<le> a \<and> a \<le> 239 \<and> second_ok a b \<and> tail_byte c)"
| "is_rune [a, b, c, d] = (240 \<le> a \<and> a \<le> 244 \<and> second_ok a b \<and> tail_byte c \<and> tail_byte d)"
| "is_rune _ = False"

lemma is_rune_cases:
  assumes "is_rune r"
  obtains (one) a where "r = [a]" "a < 128"
  | (two) a b where "r = [a, b]" "194 \<le> a" "a \<le> 223" "second_ok a b"
  | (three) a b c where "r = [a, b, c]" "224 \<le> a" "a \<le> 239" "second_ok a b" "tail_byte c"
  | (four) a b c d where "r = [a, b, c, d]" "240 \<le> a" "a \<le> 244" "second_ok a b" "tail_byte c" "tail_byte d"
  using assms by (cases r rule: is_rune.cases) auto

lemma utf8_valid_rune: "is_rune r \<Longrightarrow> utf8_valid (r @ s) = utf8_valid s"
  by (cases rule: is_rune_cases, assumption) (auto simp: second_ok_def)

lemma utf8_valid_split:
  assumes "utf8_valid s" "s \<noteq> []"
  obtains r t where "s = r @ t" "is_rune r" "utf8_valid t" "r \<noteq> []"
proof -
  obtain a u where s: "s = a # u" using assms(2) by (cases s) auto
  show thesis
  proof (cases "a < 128")
    case True
    then show thesis using that [of "[a]" u] assms(1) s by simp
  next
    case a: False
    then obtain b v where u: "u = b # v" using assms(1) s by (cases u) auto
    show thesis
    proof (cases "194 \<le> a \<and> a \<le> 223")
      case True
      then show thesis using that [of "[a, b]" v] assms(1) s u a by (auto simp: second_ok_def)
    next
      case not2: False
      then obtain c w where v: "v = c # w" using assms(1) s u a by (cases v) auto
      show thesis
      proof (cases "224 \<le> a \<and> a \<le> 239")
        case True
        then show thesis using that [of "[a, b, c]" w] assms(1) s u v a not2 by (auto simp: second_ok_def)
      next
        case False
        then obtain d x where w: "w = d # x" using assms(1) s u v a not2 by (cases w) auto
        show thesis using that [of "[a, b, c, d]" x] assms(1) s u v w a not2 False by (auto simp: second_ok_def)
      qed
    qed
  qed
qed

lemma valid_induct [consumes 1, case_names Nil rune]:
  assumes "utf8_valid s" "P []" "\<And>r t. is_rune r \<Longrightarrow> utf8_valid t \<Longrightarrow> P t \<Longrightarrow> P (r @ t)"
  shows "P s"
  using assms(1)
proof (induction "length s" arbitrary: s rule: less_induct)
  case less
  show ?case
  proof (cases "s = []")
    case False
    with less.prems obtain r t where "s = r @ t" "is_rune r" "utf8_valid t" "r \<noteq> []"
      by (rule utf8_valid_split)
    then show ?thesis using assms(3) less.hyps by auto
  qed (use assms(2) in simp)
qed

lemma utf8_valid_append: "utf8_valid x \<Longrightarrow> utf8_valid (x @ y) = utf8_valid y"
  by (induction rule: valid_induct) (simp_all add: utf8_valid_rune)

lemma rune_tail: "is_rune (x # y) \<Longrightarrow> c \<in> set y \<Longrightarrow> tail_byte c"
  by (cases rule: is_rune_cases, assumption) (auto simp: second_ok_def)

text \<open>A valid text splits where a rune starts.\<close>

lemma valid_before_start:
  assumes "utf8_valid (x @ c # y)" "RuneStart c"
  shows "utf8_valid x"
  using assms(1)
proof (induction "x @ c # y" arbitrary: x rule: valid_induct)
  case (rune r t)
  show ?case
  proof (cases "length r \<le> length x")
    case True
    then have "x = r @ drop (length r) x" using rune(4) by (metis append_eq_append_conv_if append_take_drop_id)
    then obtain x' where "x = r @ x'" by blast
    with rune show ?thesis by (simp add: utf8_valid_rune)
  next
    case False
    have "r = take (length r) (x @ c # y)" using rune(4) by (metis append_eq_conv_conj)
    with False have "r = x @ c # take (length r - length x - 1) y" by (simp add: take_Cons')
    then obtain z where r: "r = x @ c # z" by blast
    show ?thesis
    proof (cases x)
      case (Cons a u)
      then have "tail_byte c" using rune_tail [of a "u @ c # z"] rune(1) r by simp
      with assms(2) show ?thesis by (simp add: RuneStart_def)
    qed simp
  qed
qed simp

text \<open>A valid text whose beginning is not valid cuts a rune in two.\<close>

lemma straddling_rune:
  assumes "utf8_valid (x @ y)" "\<not> utf8_valid x"
  shows "\<exists>v r z. x = v @ r \<and> utf8_valid v \<and> r \<noteq> [] \<and> z \<noteq> [] \<and> is_rune (r @ z)"
  using assms
proof (induction "x @ y" arbitrary: x rule: valid_induct)
  case (rune r t)
  show ?case
  proof (cases "length r \<le> length x")
    case True
    then have x: "x = r @ drop (length r) x" using rune(4) by (metis append_eq_append_conv_if append_take_drop_id)
    then have "drop (length r) x @ y = t" using rune(4) by (metis append_assoc append_eq_append_conv)
    moreover have "\<not> utf8_valid (drop (length r) x)" using x rune(1,5) utf8_valid_rune by metis
    ultimately obtain v q z where "drop (length r) x = v @ q" "utf8_valid v" "q \<noteq> []" "z \<noteq> []" "is_rune (q @ z)"
      using rune(3) by blast
    then show ?thesis using x rune(1) utf8_valid_rune [of r v] by (metis append_assoc)
  next
    case False
    then have "take (length r) (x @ y) = x @ take (length r - length x) y" "0 < length r - length x" by simp_all
    moreover have "r = take (length r) (x @ y)" using rune(4) by (metis append_eq_conv_conj)
    ultimately have r: "r = x @ take (length r - length x) y" by metis
    then have "take (length r - length x) y \<noteq> []" using False by (metis append_Nil2 order_refl)
    moreover have "x \<noteq> []" using rune(5) by auto
    ultimately show ?thesis using r rune(1) by (metis append_Nil utf8_valid.simps(1))
  qed
qed simp

lemma rune_prefix:
  assumes "is_rune (r @ z)" "r \<noteq> []" "z \<noteq> []"
  shows "\<not> FullRune r" "RuneStart (hd r)" "\<forall>c \<in> set (tl r). tail_byte c" "length r \<le> 3"
proof -
  obtain e y where z: "z = e # y" using assms(3) by (cases z) auto
  have "\<not> FullRune r \<and> RuneStart (hd r) \<and> (\<forall>c \<in> set (tl r). tail_byte c) \<and> length r \<le> 3"
  proof (cases r rule: is_rune.cases)
    case (1 a)
    with assms(1) show ?thesis
      by (cases "r @ z" rule: is_rune.cases)
        (auto simp: z rune_size_def RuneStart_def Store_Attachments.continuation_def)
  next
    case (2 a b)
    with assms(1) show ?thesis
      by (cases "r @ z" rule: is_rune.cases)
        (auto simp: z rune_size_def RuneStart_def second_ok_def Store_Attachments.continuation_def)
  next
    case (3 a b c)
    with assms(1) show ?thesis
      by (cases "r @ z" rule: is_rune.cases)
        (auto simp: z rune_size_def RuneStart_def second_ok_def Store_Attachments.continuation_def)
  qed (use assms(1,2) z in simp_all)
  then show "\<not> FullRune r" "RuneStart (hd r)" "\<forall>c \<in> set (tl r). tail_byte c" "length r \<le> 3" by simp_all
qed

lemma rune_is_full: "is_rune r \<Longrightarrow> FullRune (r @ t)"
  by (cases rule: is_rune_cases, assumption) (simp_all add: rune_size_def)

lemma not_FullRune_invalid: "\<not> FullRune r \<Longrightarrow> r \<noteq> [] \<Longrightarrow> \<not> utf8_valid r"
  using rune_is_full by (metis utf8_valid_split)

text \<open>An incomplete rune can be completed.\<close>

lemma not_FullRune_completes:
  assumes "\<not> FullRune r" "r \<noteq> []"
  shows "\<exists>z. is_rune (r @ z)"
proof -
  obtain a s where r: "r = a # s" using assms(2) by (cases r) auto
  define b where "b = (if a = 224 \<or> a = 240 then 160 else 128 :: nat)"
  have b: "second_ok a b" by (auto simp: b_def second_ok_def Store_Attachments.continuation_def)
  have c: "tail_byte 128" by (simp add: Store_Attachments.continuation_def)
  show ?thesis
  proof (cases s)
    case Nil
    then have "is_rune (r @ [b]) \<or> is_rune (r @ [b, 128]) \<or> is_rune (r @ [b, 128, 128])"
      using assms(1) r b c by (auto simp: rune_size_def split: if_splits)
    then show ?thesis by blast
  next
    case (Cons b' s1)
    then have "is_rune (r @ [128]) \<or> is_rune (r @ [128, 128])"
      using assms(1) r c by (auto simp: rune_size_def Suc_le_eq split: if_splits list.splits)
    then show ?thesis by blast
  qed
qed

section \<open>Cutting a buffer\<close>

lemma find_cut_result:
  assumes "i \<le> length buf"
  shows "find_cut buf n i = length buf
    \<or> (find_cut buf n i < i \<and> RuneStart (buf ! find_cut buf n i) \<and> \<not> FullRune (drop (find_cut buf n i) buf))"
  using assms by (induction buf n i rule: find_cut.induct) auto

text \<open>At most three bytes of an incomplete rune are found and cut off.\<close>

lemma find_cut_straddle:
  assumes "\<not> FullRune r" "RuneStart (hd r)" "\<forall>c \<in> set (tl r). tail_byte c" "r \<noteq> []" "length r \<le> 3"
  shows "find_cut (v @ r) 4 (length (v @ r)) = length v"
    and "prefix_scan (v @ r) 4 (length (v @ r)) = utf8_valid v"
proof -
  have four: "(4 :: nat) = Suc (Suc (Suc (Suc 0)))" by simp
  consider (one) a where "r = [a]" | (two) a b where "r = [a, b]" | (three) a b c where "r = [a, b, c]"
    using assms(4,5) by (cases r rule: is_rune.cases) auto
  then have "find_cut (v @ r) 4 (length (v @ r)) = length v
      \<and> prefix_scan (v @ r) 4 (length (v @ r)) = utf8_valid v"
  proof cases
    case one
    then show ?thesis using assms(1,2) by (simp add: four nth_append del: FullRune.simps)
  next
    case two
    then show ?thesis using assms(1,2,3) by (simp add: four nth_append RuneStart_def del: FullRune.simps)
  next
    case three
    then show ?thesis using assms(1,2,3) by (simp add: four nth_append RuneStart_def del: FullRune.simps)
  qed
  then show "find_cut (v @ r) 4 (length (v @ r)) = length v"
    "prefix_scan (v @ r) 4 (length (v @ r)) = utf8_valid v" by simp_all
qed

text \<open>If the part before the cut is not valid, nothing that follows can make the buffer valid.\<close>

lemma cut_rejects:
  assumes "\<not> utf8_valid (take (find_cut buf 4 (length buf)) buf)"
  shows "\<not> utf8_valid (buf @ e)"
proof
  assume valid: "utf8_valid (buf @ e)"
  show False
  proof (cases "find_cut buf 4 (length buf) = length buf")
    case True
    then have "\<not> utf8_valid buf" using assms by simp
    then obtain v r z where r: "buf = v @ r" "r \<noteq> []" "z \<noteq> []" "is_rune (r @ z)"
      using straddling_rune [OF valid] by blast
    then have "find_cut buf 4 (length buf) = length v"
      using find_cut_straddle(1) rune_prefix [OF r(4,2,3)] by blast
    with True r show False by simp
  next
    case False
    let ?i = "find_cut buf 4 (length buf)"
    from False find_cut_result [of "length buf" buf 4] have i: "?i < length buf" "RuneStart (buf ! ?i)" by auto
    then have "buf @ e = take ?i buf @ buf ! ?i # (drop (Suc ?i) buf @ e)"
      by (simp add: Cons_nth_drop_Suc)
    with valid valid_before_start i(2) assms show False by metis
  qed
qed

section \<open>Chunks do not matter\<close>

text \<open>What a detector knows of the bytes it has seen.\<close>

definition detects :: "nat list \<Rightarrow> textDetector \<Rightarrow> bool" where
  "detects all d \<longleftrightarrow> (if td_binary d then 0 \<in> set all \<or> (\<forall>e. \<not> utf8_valid (all @ e))
     else 0 \<notin> set all \<and> (\<exists>v. all = v @ td_carry d \<and> utf8_valid v)
       \<and> (td_carry d = [] \<or> \<not> FullRune (td_carry d)))"

lemma detects_Write:
  assumes "detects all d"
  shows "detects (all @ p) (td_Write p d)"
proof (cases "td_binary d \<or> 0 \<in> set p")
  case True
  then show ?thesis using assms by (auto simp: detects_def td_Write_def)
next
  case False
  define buf where "buf = td_carry d @ p"
  define cut where "cut = find_cut buf 4 (length buf)"
  obtain v where v: "all = v @ td_carry d" "utf8_valid v" and nul: "0 \<notin> set all"
    using assms False by (auto simp: detects_def)
  have all: "all @ p = v @ buf" by (simp add: v(1) buf_def)
  show ?thesis
  proof (cases "utf8_valid (take cut buf)")
    case True
    have "drop cut buf = [] \<or> \<not> FullRune (drop cut buf)"
      using find_cut_result [of "length buf" buf 4] by (auto simp: cut_def)
    moreover have "all @ p = (v @ take cut buf) @ drop cut buf" by (simp add: all)
    moreover have "utf8_valid (v @ take cut buf)" by (simp add: utf8_valid_append v(2) True)
    moreover have "td_Write p d = d\<lparr>td_carry := drop cut buf\<rparr>"
      using False True by (simp add: td_Write_def Let_def buf_def cut_def)
    moreover have "0 \<notin> set (all @ p)" using nul False by simp
    ultimately show ?thesis using False unfolding detects_def by (metis textDetector.select_convs textDetector.surjective
          textDetector.update_convs(1))
  next
    case invalid: False
    have "\<not> utf8_valid ((all @ p) @ e)" for e
      using cut_rejects [of buf e] invalid v(2) unfolding all by (simp add: cut_def utf8_valid_append)
    moreover have "td_Write p d = d\<lparr>td_binary := True\<rparr>"
      using False invalid by (simp add: td_Write_def Let_def buf_def cut_def)
    ultimately show ?thesis by (simp add: detects_def)
  qed
qed

lemma detects_chunks: "detects all d \<Longrightarrow> detects (all @ concat chunks) (fold td_Write chunks d)"
proof (induction chunks arbitrary: all d)
  case (Cons p chunks)
  from Cons.IH [OF detects_Write [OF Cons.prems, of p]] show ?case by simp
qed simp

lemma detects_Text:
  assumes "detects all d"
  shows "td_Text d \<longleftrightarrow> 0 \<notin> set all \<and> utf8_valid all"
proof (cases "td_binary d")
  case True
  then show ?thesis using assms by (auto simp: detects_def td_Text_def dest: spec [where x = "[]"])
next
  case False
  then obtain v where v: "all = v @ td_carry d" "utf8_valid v" "0 \<notin> set all"
    "td_carry d = [] \<or> \<not> FullRune (td_carry d)"
    using assms by (auto simp: detects_def)
  then have "utf8_valid all \<longleftrightarrow> td_carry d = []"
    using not_FullRune_invalid [of "td_carry d"] by (auto simp: utf8_valid_append)
  then show ?thesis using v(3) False by (auto simp: td_Text_def)
qed

lemma byte_zero: "0 \<in> set (map byte s) \<longleftrightarrow> CHR 0x00 \<in> set s"
proof -
  have "byte c = 0 \<longleftrightarrow> c = CHR 0x00" for c
    using of_char_eq_iff [of c "CHR 0x00", where 'a = nat] by (simp add: byte_def)
  then show ?thesis by force
qed

lemma detects_new: "detects [] new_detector"
  by (simp add: detects_def new_detector_def)

lemma chunks_detect:
  "td_Text (detect_chunks (map (map byte) chunks)) \<longleftrightarrow> \<not> isBinary (concat chunks)"
proof -
  have "detects (map byte (concat chunks)) (detect_chunks (map (map byte) chunks))"
    using detects_chunks [OF detects_new, of "map (map byte) chunks"]
    by (simp add: detect_chunks_def map_concat)
  from detects_Text [OF this] show ?thesis
    unfolding byte_zero by (simp add: isBinary_def ValidString_def)
qed

section \<open>Prefixes of text\<close>

lemma prefix_scan_result:
  "prefix_scan buf n i \<Longrightarrow> i \<le> length buf \<Longrightarrow>
    \<exists>j < i. RuneStart (buf ! j) \<and> \<not> FullRune (drop j buf) \<and> utf8_valid (take j buf)"
proof (induction buf n i rule: prefix_scan.induct)
  case (3 buf n i)
  then show ?case by (auto split: if_splits) (metis less_SucI less_Suc_eq)+
qed auto

text \<open>The bounded beginning of a file is taken for text exactly if it has no NUL and some text starts like that.\<close>

lemma textPrefix_iff:
  "textPrefix s \<longleftrightarrow> CHR 0x00 \<notin> set s \<and> (\<exists>e. utf8_valid (map byte s @ e))"
proof (cases "CHR 0x00 \<in> set s \<or> utf8_valid (map byte s)")
  case True
  then show ?thesis using byte_zero [of s] by (auto simp: textPrefix_def Let_def intro: exI [of _ "[]"])
next
  case False
  let ?buf = "map byte s"
  have scan: "textPrefix s = prefix_scan ?buf 4 (length ?buf)"
    using False byte_zero [of s] by (simp add: textPrefix_def Let_def)
  show ?thesis
  proof
    assume "textPrefix s"
    then obtain j where j: "j < length ?buf" "\<not> FullRune (drop j ?buf)" "utf8_valid (take j ?buf)"
      using prefix_scan_result [of ?buf 4 "length ?buf"] scan by auto
    then obtain z where "is_rune (drop j ?buf @ z)" using not_FullRune_completes [OF j(2)] by auto
    then have "utf8_valid (take j ?buf @ (drop j ?buf @ z))"
      using j(3) utf8_valid_rune [of _ "[]"] by (simp add: utf8_valid_append)
    then have "utf8_valid (?buf @ z)" by (metis append_assoc append_take_drop_id)
    with False show "CHR 0x00 \<notin> set s \<and> (\<exists>e. utf8_valid (?buf @ e))" by blast
  next
    assume "CHR 0x00 \<notin> set s \<and> (\<exists>e. utf8_valid (?buf @ e))"
    then obtain e where "utf8_valid (?buf @ e)" by blast
    then obtain v r z where r: "?buf = v @ r" "utf8_valid v" "r \<noteq> []" "z \<noteq> []" "is_rune (r @ z)"
      using straddling_rune False by blast
    then show "textPrefix s"
      using find_cut_straddle(2) [OF rune_prefix(1-3) [OF r(5,3,4)] r(3) rune_prefix(4) [OF r(5,3,4)], of v] scan
      by simp
  qed
qed

end
