(* ===== verification/Workspace_Disk.thy ===== *)
theory Workspace_Disk
  imports Workspace_Paths "HOL-Library.Sublist"
begin

text \<open>
  The directory tree of one workspace as the code changes it: a map from paths, as lists of
  components, to files and directories, with the calls of the operating system the code makes. Each
  call may fail; a list of faults says which of the next ones do. Symbolic links are not modelled.

  Shown: every call keeps a tree a tree, and what it does to files and to directories.
\<close>

datatype node = FileNode string nat | DirNode

type_synonym disk = "(string list, node) gomap"

datatype fs_error = ENOENT | ENOTDIR | EEXIST | ENOTEMPTY | EIO | Escapes | IsDirectory

section \<open>Calls\<close>

text \<open>The file at a path, with its mode.\<close>

definition file_at :: "disk \<Rightarrow> string list \<Rightarrow> (string \<times> nat) option" where
  "file_at d p = (case gget d p of Some (FileNode c m) \<Rightarrow> Some (c, m) | _ \<Rightarrow> None)"

text \<open>A call that goes through a file fails with another error than one that finds nothing.\<close>

definition blocked :: "disk \<Rightarrow> string list \<Rightarrow> bool" where
  "blocked d p \<longleftrightarrow> list_ex (\<lambda>n. file_at d (take n p) \<noteq> None) [0..<length p]"

definition os_Lstat :: "disk \<Rightarrow> string list \<Rightarrow> fs_error + node" where
  "os_Lstat d p = (if blocked d p then Inl ENOTDIR else case gget d p of None \<Rightarrow> Inl ENOENT | Some n \<Rightarrow> Inr n)"

definition has_children :: "disk \<Rightarrow> string list \<Rightarrow> bool" where
  "has_children d p \<longleftrightarrow> list_ex (\<lambda>(q, n). strict_prefix p q) (gentries d)"

definition os_Remove :: "string list \<Rightarrow> disk \<Rightarrow> fs_error option \<times> disk" where
  "os_Remove p d = (case os_Lstat d p of
       Inl e \<Rightarrow> (Some e, d)
     | Inr (FileNode c m) \<Rightarrow> (None, gdel p d)
     | Inr DirNode \<Rightarrow> if has_children d p then (Some ENOTEMPTY, d) else (None, gdel p d))"

text \<open>What is at a path, with everything below; the tree without it; and with something else there.\<close>

definition subtree :: "string list \<Rightarrow> disk \<Rightarrow> disk" where
  "subtree p d = map (\<lambda>(q, n). (drop (length p) q, n)) (filter (\<lambda>(q, n). prefix p q) (gentries d))"

definition prune :: "string list \<Rightarrow> disk \<Rightarrow> disk" where
  "prune p d = filter (\<lambda>(q, n). \<not> prefix p q) (gentries d)"

definition graft :: "string list \<Rightarrow> disk \<Rightarrow> disk \<Rightarrow> disk" where
  "graft p sub d = map (\<lambda>(q, n). (p @ q, n)) (gentries sub) @ prune p d"

text \<open>\<open>os.Rename\<close> out of the tree, and into it from a place outside of it.\<close>

definition rename_out :: "string list \<Rightarrow> disk \<Rightarrow> fs_error + disk \<times> disk" where
  "rename_out p d = (case os_Lstat d p of Inl e \<Rightarrow> Inl e | Inr n \<Rightarrow> Inr (subtree p d, prune p d))"

definition rename_in :: "disk \<Rightarrow> string list \<Rightarrow> disk \<Rightarrow> fs_error option \<times> disk" where
  "rename_in sub p d = (case os_Lstat d (butlast p) of
       Inl e \<Rightarrow> (Some e, d)
     | Inr (FileNode c m) \<Rightarrow> (Some ENOTDIR, d)
     | Inr DirNode \<Rightarrow>
       (case (gget sub [], gget d p) of
          (None, _) \<Rightarrow> (Some ENOENT, d)
        | (Some (FileNode c m), Some DirNode) \<Rightarrow> (Some EEXIST, d)
        | (Some DirNode, Some (FileNode c m)) \<Rightarrow> (Some ENOTDIR, d)
        | (Some DirNode, Some DirNode) \<Rightarrow> if has_children d p then (Some ENOTEMPTY, d) else (None, graft p sub d)
        | _ \<Rightarrow> (None, graft p sub d)))"

text \<open>
  \<open>os.MkdirAll\<close> and \<open>mkdirAllForFile\<close>: one directory after the other, each of which may fail.
\<close>

fun make_dirs :: "bool list \<Rightarrow> string list \<Rightarrow> string list \<Rightarrow> disk \<Rightarrow> (fs_error option \<times> disk) \<times> bool list" where
  "make_dirs faults seen [] d = ((None, d), faults)"
| "make_dirs faults seen (x # rest) d =
     (case os_Lstat d (seen @ [x]) of
        Inr DirNode \<Rightarrow> make_dirs faults (seen @ [x]) rest d
      | Inr (FileNode c m) \<Rightarrow> ((Some ENOTDIR, d), faults)
      | Inl ENOENT \<Rightarrow>
        (case faults of
           True # faults \<Rightarrow> ((Some EIO, d), faults)
         | False # faults \<Rightarrow> make_dirs faults (seen @ [x]) rest (gput (seen @ [x]) DirNode d)
         | [] \<Rightarrow> make_dirs [] (seen @ [x]) rest (gput (seen @ [x]) DirNode d))
      | Inl e \<Rightarrow> ((Some e, d), faults))"

section \<open>Trees\<close>

definition is_tree :: "disk \<Rightarrow> bool" where
  "is_tree d \<longleftrightarrow> gget d [] = Some DirNode \<and> (\<forall>p q. strict_prefix p q \<longrightarrow> gget d q \<noteq> None \<longrightarrow> gget d p = Some DirNode)"

definition is_file_tree :: "disk \<Rightarrow> string \<times> nat \<Rightarrow> bool" where
  "is_file_tree sub f \<longleftrightarrow> (\<forall>q. gget sub q = (if q = [] then Some (FileNode (fst f) (snd f)) else None))"

definition is_dir :: "disk \<Rightarrow> string list \<Rightarrow> bool" where
  "is_dir d p \<longleftrightarrow> gget d p = Some DirNode"

lemma node_there: "gget d p \<noteq> None \<longleftrightarrow> file_at d p \<noteq> None \<or> is_dir d p"
  by (auto simp: file_at_def is_dir_def split: option.split node.split)

lemma file_at_iff: "file_at d p = Some (c, m) \<longleftrightarrow> gget d p = Some (FileNode c m)"
  by (auto simp: file_at_def split: option.splits node.splits)

lemma tree_root: "is_tree d \<Longrightarrow> is_dir d []"
  by (simp add: is_tree_def is_dir_def)

lemma tree_below_dir: "is_tree d \<Longrightarrow> gget d q \<noteq> None \<Longrightarrow> strict_prefix p q \<Longrightarrow> is_dir d p"
  by (auto simp: is_tree_def is_dir_def)

lemma tree_above_file: "is_tree d \<Longrightarrow> file_at d p = Some f \<Longrightarrow> strict_prefix p q \<Longrightarrow> gget d q = None"
  by (cases f) (force simp: is_tree_def file_at_iff)

lemma blocked_iff: "blocked d p \<longleftrightarrow> (\<exists>q. strict_prefix q p \<and> file_at d q \<noteq> None)"
proof -
  have "(\<exists>n < length p. file_at d (take n p) \<noteq> None) \<longleftrightarrow> (\<exists>q. strict_prefix q p \<and> file_at d q \<noteq> None)"
  proof
    assume "\<exists>n < length p. file_at d (take n p) \<noteq> None"
    then obtain n where n: "n < length p" "file_at d (take n p) \<noteq> None" by blast
    have "take n p \<noteq> p" using n(1) by (metis length_take less_imp_le min.absorb2 nat_neq_iff)
    then have "strict_prefix (take n p) p" by (simp add: strict_prefix_def take_is_prefix)
    with n(2) show "\<exists>q. strict_prefix q p \<and> file_at d q \<noteq> None" by blast
  next
    assume "\<exists>q. strict_prefix q p \<and> file_at d q \<noteq> None"
    then obtain q where q: "strict_prefix q p" "file_at d q \<noteq> None" by blast
    then have "q = take (length q) p" "length q < length p"
      by (auto simp: strict_prefix_def prefix_def) 
    with q(2) show "\<exists>n < length p. file_at d (take n p) \<noteq> None" by metis
  qed
  then show ?thesis by (simp add: blocked_def list_ex_iff Bex_def)
qed

lemma blocked_tree: "is_tree d \<Longrightarrow> gget d p \<noteq> None \<Longrightarrow> \<not> blocked d p"
  using tree_below_dir [of d p] by (force simp: blocked_iff file_at_def is_dir_def)

lemma Lstat_Inr: "os_Lstat d p = Inr n \<Longrightarrow> gget d p = Some n"
  by (auto simp: os_Lstat_def split: if_splits option.splits)

lemma Lstat_tree: "is_tree d \<Longrightarrow> gget d p = Some n \<Longrightarrow> os_Lstat d p = Inr n"
  using blocked_tree [of d p] by (simp add: os_Lstat_def)

lemma has_children_iff: "has_children d p \<longleftrightarrow> (\<exists>q. strict_prefix p q \<and> gget d q \<noteq> None)"
  unfolding has_children_def list_ex_iff al.entry_ex by auto

lemma gget_prune: "gget (prune p d) q = (if prefix p q then None else gget d q)"
proof -
  have "map_of (filter (\<lambda>(q, n). \<not> prefix p q) es) q = (if prefix p q then None else map_of es q)" for es :: disk
    by (induction es) auto
  then show ?thesis by (simp add: prune_def gget_def gentries_def map_of_clearjunk)
qed

lemma gget_subtree: "gget (subtree p d) q = gget d (p @ q)"
proof -
  have "map_of (map (\<lambda>(q, n). (drop (length p) q, n)) (filter (\<lambda>(q, n). prefix p q) es)) q = map_of es (p @ q)"
    for es :: disk
    by (induction es) (auto simp: prefix_def, metis)
  then show ?thesis by (simp add: subtree_def gget_def gentries_def map_of_clearjunk)
qed

lemma gget_graft: "gget (graft p sub d) q = (if prefix p q then gget sub (drop (length p) q) else gget d q)"
proof -
  have "map_of (map (\<lambda>(q, n). (p @ q, n)) es) q = (if prefix p q then map_of es (drop (length p) q) else None)"
    for es :: disk
    by (induction es) (auto simp: prefix_def)
  moreover have "map_of (prune p d) q = (if prefix p q then None else gget d q)"
    using gget_prune [of p d q] by (simp add: gget_def)
  ultimately show ?thesis
    by (auto simp: graft_def gget_def gentries_def map_of_clearjunk map_add_def split: option.split)
qed

section \<open>What the calls do\<close>

lemma file_at_gput: "file_at (gput p n d) q = (if q = p then (case n of FileNode c m \<Rightarrow> Some (c, m) | DirNode \<Rightarrow> None)
    else file_at d q)"
  by (simp add: file_at_def al.get_put)

lemma is_dir_gput: "is_dir (gput p n d) q \<longleftrightarrow> (if q = p then n = DirNode else is_dir d q)"
  by (simp add: is_dir_def al.get_put)

lemma file_at_gdel: "file_at (gdel p d) q = (if q = p then None else file_at d q)"
  by (simp add: file_at_def al.get_del)

lemma is_dir_gdel: "is_dir (gdel p d) q \<longleftrightarrow> q \<noteq> p \<and> is_dir d q"
  by (simp add: is_dir_def al.get_del)

lemmas node_simps = file_at_gput is_dir_gput file_at_gdel is_dir_gdel

lemma is_tree_iff: "is_tree d \<longleftrightarrow> is_dir d [] \<and> (\<forall>p q. strict_prefix p q \<longrightarrow> file_at d q \<noteq> None \<or> is_dir d q \<longrightarrow> is_dir d p)"
  unfolding is_tree_def node_there by (simp add: is_dir_def)

lemma file_not_dir: "file_at d p \<noteq> None \<Longrightarrow> \<not> is_dir d p"
  by (auto simp: file_at_def is_dir_def)

lemma tree_dirs:
  assumes "is_tree d" "strict_prefix p q" "file_at d q \<noteq> None \<or> is_dir d q"
  shows "is_dir d p"
  using assms by (auto simp: is_tree_iff)

lemma tree_gput:
  assumes "is_tree d" "is_dir d (butlast p)" "p \<noteq> []" "\<not> is_dir d p"
  shows "is_tree (gput p n d)"
proof -
  have "is_dir d q" if q: "strict_prefix q p" for q
  proof -
    have "prefix q (butlast p)" using q assms(3) by (auto simp: strict_prefix_def prefix_def butlast_append)
    then show ?thesis using tree_dirs [OF assms(1), of q "butlast p"] assms(2) by (auto simp: strict_prefix_def)
  qed
  moreover have "\<not> strict_prefix p q" if "file_at d q \<noteq> None \<or> is_dir d q" for q
    using tree_dirs [OF assms(1) _ that] assms(4) by blast
  ultimately show ?thesis
    using assms(1,3) unfolding is_tree_iff node_simps by (metis (no_types, lifting) strict_prefix_def)
qed

lemma tree_gdel:
  assumes "is_tree d" "p \<noteq> []" "\<And>q. strict_prefix p q \<Longrightarrow> gget d q = None"
  shows "is_tree (gdel p d)"
  using assms(1,2) assms(3)
  by (auto simp: is_tree_iff node_simps) (metis file_at_def is_dir_def option.case(1) option.distinct(1))+

lemma Remove_file:
  assumes "is_tree d" "file_at d p = Some f"
  shows "os_Remove p d = (None, gdel p d)" "is_tree (gdel p d)"
proof -
  obtain c m where f: "f = (c, m)" by fastforce
  then have "gget d p = Some (FileNode c m)" using assms(2) by (simp add: file_at_iff)
  with Lstat_tree [OF assms(1)] show "os_Remove p d = (None, gdel p d)" by (simp add: os_Remove_def)
  have "p \<noteq> []" using tree_root [OF assms(1)] assms(2) file_not_dir by auto
  then show "is_tree (gdel p d)" by (rule tree_gdel [OF assms(1)]) (rule tree_above_file [OF assms])
qed

lemma Remove_dir:
  assumes "is_tree d" "is_dir d p" "p \<noteq> []" "os_Remove p d = (r, d')"
  shows "is_tree d'" "file_at d' = file_at d" "is_dir d' q \<longrightarrow> is_dir d q" "r = None \<Longrightarrow> \<not> is_dir d' p"
    "q \<noteq> p \<Longrightarrow> is_dir d q \<Longrightarrow> is_dir d' q"
    "(\<And>q. strict_prefix p q \<Longrightarrow> gget d q = None) \<Longrightarrow> r = None"
proof -
  have l: "os_Lstat d p = Inr DirNode" using Lstat_tree [OF assms(1)] assms(2) by (simp add: is_dir_def)
  have f: "file_at d p = None" using assms(2) by (auto simp: is_dir_def file_at_def)
  show "is_tree d'" "file_at d' = file_at d" "is_dir d' q \<longrightarrow> is_dir d q" "r = None \<Longrightarrow> \<not> is_dir d' p"
    "q \<noteq> p \<Longrightarrow> is_dir d q \<Longrightarrow> is_dir d' q"
    "(\<And>q. strict_prefix p q \<Longrightarrow> gget d q = None) \<Longrightarrow> r = None"
    using assms(1,4) l f tree_gdel [OF assms(1,3)]
    by (auto simp: os_Remove_def has_children_iff node_simps fun_eq_iff split: if_splits)
qed

lemma rename_out_file:
  assumes "is_tree d" "file_at d p = Some f" "rename_out p d = Inr (sub, d')"
  shows "is_file_tree sub f" "is_tree d'" "file_at d' q = (if q = p then None else file_at d q)"
    "is_dir d' q = is_dir d q"
proof -
  have above: "gget d q = None" if "strict_prefix p q" for q by (rule tree_above_file [OF assms(1,2) that])
  have root: "p \<noteq> []" using tree_root [OF assms(1)] assms(2) file_not_dir by fastforce
  have d: "sub = subtree p d" "d' = prune p d" using assms(3) by (auto simp: rename_out_def split: sum.splits)
  have "gget d' q = gget (gdel p d) q" for q
    using above [of q] by (auto simp: d gget_prune al.get_del strict_prefix_def)
  then have same: "file_at d' = file_at (gdel p d)" "is_dir d' = is_dir (gdel p d)"
    by (simp_all add: file_at_def is_dir_def fun_eq_iff)
  show "is_file_tree sub f"
    using assms(2) above by (cases f) (auto simp: is_file_tree_def d gget_subtree file_at_iff strict_prefix_def)
  show "is_tree d'" using tree_gdel [OF assms(1) root above] by (simp add: is_tree_iff same)
  show "file_at d' q = (if q = p then None else file_at d q)" by (simp add: same node_simps)
  show "is_dir d' q = is_dir d q" using assms(2) file_not_dir [of d p] by (auto simp: same node_simps)
qed

text \<open>A file that is moved to where no directory is, below a directory.\<close>

lemma rename_in_file:
  assumes "is_tree d" "is_file_tree sub f" "p \<noteq> []" "rename_in sub p d = (None, d')"
  shows "is_tree d'" "file_at d' q = (if q = p then Some f else file_at d q)" "is_dir d' q = is_dir d q"
    "is_dir d (butlast p)"
proof -
  obtain c m where f: "f = (c, m)" by fastforce
  have sub: "gget sub q = (if q = [] then Some (FileNode c m) else None)" for q
    using assms(2) by (simp add: is_file_tree_def f)
  have dir: "is_dir d (butlast p)" and p: "\<not> is_dir d p" and d: "d' = graft p sub d"
    using assms(4) sub [of "[]"]
    by (auto simp: rename_in_def is_dir_def dest: Lstat_Inr split: sum.splits node.splits option.splits)
  have above: "gget d q = None" if "strict_prefix p q" for q
    using tree_below_dir [OF assms(1) _ that] p by blast
  have "gget d' q = gget (gput p (FileNode c m) d) q" for q
    using above [of q] by (auto simp: d gget_graft al.get_put sub strict_prefix_def prefix_def)
  then have same: "file_at d' = file_at (gput p (FileNode c m) d)" "is_dir d' = is_dir (gput p (FileNode c m) d)"
    by (simp_all add: file_at_def is_dir_def fun_eq_iff)
  show "is_tree d'" using tree_gput [OF assms(1) dir assms(3) p] by (simp add: is_tree_iff same)
  show "file_at d' q = (if q = p then Some f else file_at d q)" "is_dir d' q = is_dir d q" "is_dir d (butlast p)"
    using p dir by (auto simp: same node_simps f)
qed

lemma rename_in_works:
  assumes "is_tree d" "is_file_tree sub f" "is_dir d (butlast p)" "\<not> is_dir d p"
  shows "fst (rename_in sub p d) = None"
  using assms Lstat_tree [OF assms(1), of "butlast p" DirNode]
  by (auto simp: rename_in_def is_dir_def is_file_tree_def split: option.split node.split)

lemma make_dirs_effect:
  assumes "make_dirs faults seen xs d = ((r, d'), faults')" "is_tree d" "is_dir d seen"
  shows "is_tree d' \<and> file_at d' = file_at d \<and> (\<forall>q. is_dir d' q \<longrightarrow> is_dir d q \<or> prefix q (seen @ xs))
    \<and> (\<forall>q. is_dir d q \<longrightarrow> is_dir d' q) \<and> (r = None \<longrightarrow> is_dir d' (seen @ xs))"
  using assms
proof (induction faults seen xs d rule: make_dirs.induct)
  case (2 faults seen x rest d)
  let ?p = "seen @ [x]"
  have new: "is_tree (gput ?p DirNode d)" "is_dir (gput ?p DirNode d) ?p" "file_at (gput ?p DirNode d) = file_at d"
    "\<And>q. is_dir (gput ?p DirNode d) q \<longleftrightarrow> q = ?p \<or> is_dir d q" if "os_Lstat d ?p = Inl ENOENT"
    using tree_gput [OF 2(5), of ?p DirNode] 2(6) that
    by (auto simp: os_Lstat_def node_simps is_dir_def file_at_def fun_eq_iff al.get_put split: if_splits option.splits)
  show ?case
  proof (cases "os_Lstat d ?p")
    case (Inl e)
    show ?thesis
    proof (cases "e = ENOENT")
      case True
      note l = Inl [unfolded True]
      consider (none) "faults = []" | (bad) fs where "faults = True # fs" | (good) fs where "faults = False # fs"
        by (metis (full_types) list.exhaust)
      then show ?thesis
      proof cases
        case none
        then show ?thesis using 2(1) [OF l refl none] 2(4) new [OF l] l by (auto simp: prefix_def)
      next
        case bad
        then show ?thesis using 2(4-6) l by auto
      next
        case good
        then show ?thesis using 2(2) [OF l refl good refl] 2(4) new [OF l] l by (auto simp: prefix_def)
      qed
    next
      case False
      then show ?thesis using 2(4-6) Inl by (cases e) auto
    qed
  next
    case (Inr n)
    show ?thesis
    proof (cases n)
      case DirNode
      then show ?thesis using 2(3) 2(4-6) Inr Lstat_Inr [OF Inr] by (simp add: is_dir_def)
    qed (use 2(4-6) Inr in auto)
  qed
qed auto

lemma make_dirs_works:
  assumes "is_tree d" "is_dir d seen" "\<And>q. prefix q (seen @ xs) \<Longrightarrow> file_at d q = None"
  shows "fst (fst (make_dirs [] seen xs d)) = None"
  using assms
proof (induction xs arbitrary: seen d)
  case (Cons x xs)
  let ?p = "seen @ [x]"
  have p: "prefix ?p (seen @ x # xs)" by (simp add: prefix_def)
  then have "file_at d q = None" if "prefix q ?p" for q using Cons.prems(3) that prefix_order.order_trans by blast
  then have "\<not> blocked d ?p" "file_at d ?p = None" by (auto simp: blocked_iff strict_prefix_def)
  then consider "os_Lstat d ?p = Inl ENOENT" "gget d ?p = None" | "os_Lstat d ?p = Inr DirNode" "is_dir d ?p"
    using node_there [of d ?p] by (cases "gget d ?p") (auto simp: os_Lstat_def is_dir_def)
  then show ?case
  proof cases
    case 1
    have "is_tree (gput ?p DirNode d)"
      by (rule tree_gput [OF Cons.prems(1)]) (use Cons.prems(2) 1(2) in \<open>simp_all add: is_dir_def\<close>)
    then show ?thesis
      using Cons.IH [of "gput ?p DirNode d" ?p] Cons.prems(3) 1(1) by (simp add: node_simps)
  next
    case 2
    then show ?thesis using Cons.IH [of d ?p] Cons.prems(1,3) by simp
  qed
qed simp

lemma make_dirs_no_faults: "snd (make_dirs [] seen xs d) = []"
  by (induction xs arbitrary: seen d) (auto split: sum.split node.split fs_error.split)

end
