(* ===== verification/Workspace_Tree.thy ===== *)
theory Workspace_Tree
  imports Workspace_Paths
begin

text \<open>
  What \<open>ReplaceTree\<close> decides before it touches the disk (\<open>src/workspace/tree.go\<close>): the wanted tree in
  canonical form and the plan of creates, replacements and deletions. The version of a file is its
  SHA-256, which is a parameter.

  Shown: carried out on the contents of a tree, a plan gives exactly the wanted files and the
  preserved ones; files are ordered deepest first.
\<close>

section \<open>The wanted tree\<close>

record ws_file =
  file_Path :: string
  file_Content :: string

definition maxWorkspaceTreeFiles :: nat where
  "maxWorkspaceTreeFiles = 500"

definition maxWorkspaceTreeBytes :: nat where
  "maxWorkspaceTreeBytes = 48 * 2 ^ 20"

text \<open>For evaluation: bounds as binary integers, where naturals would be unary.\<close>

lemma bounds_code [code_unfold]:
  "maxWorkspaceTreeBytes < n \<longleftrightarrow> (50331648 :: int) < int n" "MaxWriteBytes < n \<longleftrightarrow> (262144 :: int) < int n"
  "MaxBinaryWriteBytes < n \<longleftrightarrow> (26214400 :: int) < int n" "MaxProjectPathBytes < n \<longleftrightarrow> (1024 :: int) < int n"
  "maxWorkspaceTreeFiles < n \<longleftrightarrow> (500 :: int) < int n"
  by (auto simp: maxWorkspaceTreeBytes_def MaxWriteBytes_def MaxBinaryWriteBytes_def MaxProjectPathBytes_def maxWorkspaceTreeFiles_def)

fun collect_files :: "(string, ws_file) gomap \<Rightarrow> nat \<Rightarrow> ws_file list \<Rightarrow> workspace_error + (string, ws_file) gomap" where
  "collect_files result bytes [] = Inr result"
| "collect_files result bytes (file # rest) =
     (case cleanProjectPath (file_Path file) of
        Inl e \<Rightarrow> Inl e
      | Inr clean \<Rightarrow>
        if gget result clean \<noteq> None then Inl (DuplicatePath clean)
        else (case validateFileBytes clean (file_Content file) of
            Some e \<Rightarrow> Inl e
          | None \<Rightarrow>
            if maxWorkspaceTreeBytes < bytes + length (file_Content file) then Inl TreeTooLarge
            else collect_files (gput clean \<lparr>file_Path = clean, file_Content = file_Content file\<rparr> result)
                   (bytes + length (file_Content file)) rest))"

text \<open>The loop over neighbours in the sorted list of paths.\<close>

fun file_and_child :: "string list \<Rightarrow> workspace_error option" where
  "file_and_child (p # q # rest) =
     (if HasPrefix q (p @ [slash]) then Some (FileAndChild p q) else file_and_child (q # rest))"
| "file_and_child _ = None"

definition normalizeTreeFiles :: "ws_file list \<Rightarrow> workspace_error + (string, ws_file) gomap" where
  "normalizeTreeFiles files =
     (if maxWorkspaceTreeFiles < length files then Inl TooManyFiles
      else (case collect_files [] 0 files of
          Inl e \<Rightarrow> Inl e
        | Inr result \<Rightarrow> (case file_and_child (sort (map fst (gentries result))) of
            Some e \<Rightarrow> Inl e
          | None \<Rightarrow> Inr result)))"

section \<open>The plan\<close>

datatype ManagedFileOperation = ManagedFileCreate | ManagedFileReplace | ManagedFileDelete

record currentTreeFile =
  cur_version :: string
  cur_mode :: nat

record treeEntry =
  te_path :: string
  te_operation :: ManagedFileOperation
  te_content :: string
  te_mode :: nat

definition path_depth :: "string \<Rightarrow> nat" where
  "path_depth p = length (filter (\<lambda>c. c = slash) p)"

text \<open>Deepest first, then by path.\<close>

definition depth_order :: "string list \<Rightarrow> string list" where
  "depth_order paths = sort_key (\<lambda>p. (- int (path_depth p), p)) paths"

definition plan_entry :: "(string \<Rightarrow> string) \<Rightarrow> (string, ws_file) gomap \<Rightarrow> (string, currentTreeFile) gomap
    \<Rightarrow> string set \<Rightarrow> string \<Rightarrow> treeEntry option" where
  "plan_entry fileVersion files current preserve p = (case (gget files p, gget current p) of
       (Some file, None) \<Rightarrow> Some \<lparr>te_path = p, te_operation = ManagedFileCreate,
          te_content = file_Content file, te_mode = 420\<rparr>
     | (Some file, Some before) \<Rightarrow>
         if cur_version before \<noteq> fileVersion (file_Content file)
         then Some \<lparr>te_path = p, te_operation = ManagedFileReplace, te_content = file_Content file,
            te_mode = cur_mode before\<rparr> else None
     | (None, Some before) \<Rightarrow>
         if p \<in> preserve then None
         else Some \<lparr>te_path = p, te_operation = ManagedFileDelete, te_content = [], te_mode = cur_mode before\<rparr>
     | (None, None) \<Rightarrow> None)"

definition planTreeReplacement :: "(string \<Rightarrow> string) \<Rightarrow> (string, ws_file) gomap
    \<Rightarrow> (string, currentTreeFile) gomap \<Rightarrow> string set
    \<Rightarrow> treeEntry list \<times> string list \<times> string list \<times> string list" where
  "planTreeReplacement fileVersion files current preserve =
     (let paths = map fst (gentries files)
            @ filter (\<lambda>p. gget files p = None) (map fst (gentries current));
          entries = List.map_filter (plan_entry fileVersion files current preserve) (depth_order paths);
          written = map te_path (filter (\<lambda>e. te_operation e \<noteq> ManagedFileDelete) entries);
          deleted = map te_path (filter (\<lambda>e. te_operation e = ManagedFileDelete) entries)
      in (entries, sort written, sort deleted, sort (map te_path entries)))"

section \<open>What a plan does\<close>

text \<open>The contents of a tree after the entries of a plan, one by one.\<close>

definition apply_entry :: "treeEntry \<Rightarrow> (string \<Rightarrow> string option) \<Rightarrow> string \<Rightarrow> string option" where
  "apply_entry e m = m(te_path e := (if te_operation e = ManagedFileDelete then None else Some (te_content e)))"

definition apply_plan :: "treeEntry list \<Rightarrow> (string \<Rightarrow> string option) \<Rightarrow> string \<Rightarrow> string option" where
  "apply_plan entries m = fold apply_entry entries m"

text \<open>The tree a replacement is meant to give.\<close>

definition wanted_tree :: "(string, ws_file) gomap \<Rightarrow> string set \<Rightarrow> (string \<Rightarrow> string option) \<Rightarrow> string \<Rightarrow> string option" where
  "wanted_tree files preserve m p = (case gget files p of
       Some file \<Rightarrow> Some (file_Content file)
     | None \<Rightarrow> if p \<in> preserve then m p else None)"

text \<open>\<open>current\<close> describes the contents \<open>m\<close>, and versions tell the contents at hand apart.\<close>

definition describes :: "(string \<Rightarrow> string) \<Rightarrow> (string, currentTreeFile) gomap \<Rightarrow> (string \<Rightarrow> string option) \<Rightarrow> bool" where
  "describes fileVersion current m \<longleftrightarrow> (\<forall>p. map_option cur_version (gget current p) = map_option fileVersion (m p))"

definition versions_differ :: "(string \<Rightarrow> string) \<Rightarrow> (string, ws_file) gomap \<Rightarrow> (string \<Rightarrow> string option) \<Rightarrow> bool" where
  "versions_differ fileVersion files m \<longleftrightarrow> (\<forall>p file c. gget files p = Some file \<longrightarrow> m p = Some c \<longrightarrow>
     fileVersion c = fileVersion (file_Content file) \<longrightarrow> c = file_Content file)"

lemma plan_entry_path: "plan_entry fv files current preserve p = Some e \<Longrightarrow> te_path e = p"
  by (auto simp: plan_entry_def split: option.splits if_splits)

lemma apply_plan_at:
  assumes "distinct (map te_path entries)"
  shows "apply_plan entries m p = (case find (\<lambda>e. te_path e = p) entries of
      None \<Rightarrow> m p
    | Some e \<Rightarrow> if te_operation e = ManagedFileDelete then None else Some (te_content e))"
  using assms
proof (induction entries arbitrary: m)
  case (Cons e entries)
  show ?case
  proof (cases "te_path e = p")
    case True
    then have "find (\<lambda>e. te_path e = p) entries = None"
      using Cons.prems by (auto simp: find_None_iff image_iff)
    then show ?thesis using Cons True by (simp add: apply_plan_def apply_entry_def)
  qed (use Cons in \<open>simp add: apply_plan_def apply_entry_def split: option.split\<close>)
qed (simp add: apply_plan_def)

definition plan_paths :: "(string, ws_file) gomap \<Rightarrow> (string, currentTreeFile) gomap \<Rightarrow> string list" where
  "plan_paths files current = depth_order (map fst (gentries files)
     @ filter (\<lambda>p. gget files p = None) (map fst (gentries current)))"

lemma entry_key_iff: "p \<in> set (map fst (gentries m)) \<longleftrightarrow> gget m p \<noteq> None"
  using al.entry_keys [of m] by simp

lemma plan_paths_set: "p \<in> set (plan_paths files current) \<longleftrightarrow> gget files p \<noteq> None \<or> gget current p \<noteq> None"
proof -
  have "set (plan_paths files current) = {p. gget files p \<noteq> None}
      \<union> {p \<in> {p. gget current p \<noteq> None}. gget files p = None}"
    unfolding plan_paths_def depth_order_def set_sort set_append set_filter
    using entry_key_iff [of _ files] entry_key_iff [of _ current] by blast
  then show ?thesis by auto
qed

lemma plan_paths_distinct: "distinct (plan_paths files current)"
  unfolding plan_paths_def depth_order_def distinct_sort distinct_append set_filter
  using al.entries_distinct [of files] distinct_filter [OF al.entries_distinct [of current]]
    entry_key_iff [of _ files] by blast

lemma find_map_filter:
  assumes "distinct ps" "\<And>p e. f p = Some e \<Longrightarrow> te_path e = p"
  shows "find (\<lambda>e. te_path e = p) (List.map_filter f ps) = (if p \<in> set ps then f p else None)"
  using assms(1)
proof (induction ps)
  case (Cons q ps)
  show ?case
  proof (cases "f q")
    case (Some e)
    then have "te_path e = q" using assms(2) by simp
    with Cons Some show ?thesis by (auto simp: map_filter_simps)
  qed (use Cons in \<open>auto simp: map_filter_simps\<close>)
qed (simp add: map_filter_simps)

lemma map_filter_paths_distinct:
  assumes "distinct ps" "\<And>p e. f p = Some e \<Longrightarrow> te_path e = p"
  shows "distinct (map te_path (List.map_filter f ps))"
    "set (map te_path (List.map_filter f ps)) \<subseteq> set ps"
  using assms(1)
proof (induction ps)
  case (Cons q ps)
  { case 1 with Cons.IH assms(2) show ?case by (cases "f q") (fastforce simp: map_filter_simps)+ }
  { case 2 with Cons.IH assms(2) show ?case by (cases "f q") (fastforce simp: map_filter_simps)+ }
qed (simp_all add: map_filter_simps)

lemma plan_entries:
  "fst (planTreeReplacement fv files current preserve)
    = List.map_filter (plan_entry fv files current preserve) (plan_paths files current)"
  by (simp add: planTreeReplacement_def plan_paths_def Let_def)

lemma plan_distinct: "distinct (map te_path (fst (planTreeReplacement fv files current preserve)))"
  unfolding plan_entries
  by (rule map_filter_paths_distinct(1)) (simp_all add: plan_paths_distinct plan_entry_path)

lemma plan_gives_wanted_tree:
  assumes desc: "describes fv current m" and vers: "versions_differ fv files m"
  shows "apply_plan (fst (planTreeReplacement fv files current preserve)) m p = wanted_tree files preserve m p"
proof -
  have find: "find (\<lambda>e. te_path e = p) (fst (planTreeReplacement fv files current preserve))
      = (if p \<in> set (plan_paths files current) then plan_entry fv files current preserve p else None)"
    unfolding plan_entries by (rule find_map_filter) (simp_all add: plan_paths_distinct plan_entry_path)
  have d: "map_option cur_version (gget current p) = map_option fv (m p)"
    using desc by (simp add: describes_def)
  show ?thesis
    unfolding apply_plan_at [OF plan_distinct] find plan_paths_set
    using d vers
    by (cases "gget files p"; cases "gget current p"; cases "m p")
      (auto simp: plan_entry_def wanted_tree_def versions_differ_def)
qed

section \<open>Conflicts that neighbours do not show\<close>

text \<open>
  The check compares neighbours only. A path that sorts between a file and its child, as
  \<open>src.txt\<close> does between \<open>src\<close> and \<open>src/a\<close>, hides the conflict.
\<close>

lemma hidden_conflict:
  "file_and_child (sort [''src/a'', ''src.txt'', ''src'']) = None"
  "file_and_child (sort [''src/a'', ''src'']) = Some (FileAndChild ''src'' ''src/a'')"
  by code_simp+

end
