(* ===== verification/Workspace_Commit.thy ===== *)
theory Workspace_Commit
  imports Workspace_Disk Workspace_Tree
begin

text \<open>
  How \<open>ReplaceTree\<close> changes the disk (\<open>src/workspace/tree.go\<close>): old files are moved to a backup, and
  new ones are moved in from where they were staged. Stage and backup are directories of their own;
  a slot of them holds what a rename moves there. Every call that can fail takes the next fault of a
  list. The test hook of a transaction counts as such a call.

  Shown: whatever fails on the way, the disk is described by which entries were backed up and which
  committed, and a commit that succeeds has committed the whole plan.
\<close>

section \<open>State and calls\<close>

record tree_state =
  ts_disk :: disk
  ts_stage :: "(nat, disk) gomap"
  ts_backup :: "(nat, disk) gomap"
  ts_backed :: "nat list"
  ts_committed :: "nat list"
  ts_faults :: "bool list"

type_synonym tree_op = "tree_state \<Rightarrow> fs_error option \<times> tree_state"

definition may_fail :: tree_op where
  "may_fail s = (case ts_faults s of
       [] \<Rightarrow> (None, s)
     | bad # faults \<Rightarrow> (if bad then Some EIO else None, s\<lparr>ts_faults := faults\<rparr>))"

definition and_then :: "tree_op \<Rightarrow> tree_op \<Rightarrow> tree_op" where
  "and_then f g s = (case f s of (None, s) \<Rightarrow> g s | (Some e, s) \<Rightarrow> (Some e, s))"

fun each_entry :: "(nat \<Rightarrow> treeEntry \<Rightarrow> tree_op) \<Rightarrow> (treeEntry \<Rightarrow> bool) \<Rightarrow> (nat \<times> treeEntry) list \<Rightarrow> tree_op" where
  "each_entry f P [] s = (None, s)"
| "each_entry f P ((i, e) # rest) s =
     (if P e then and_then (f i e) (each_entry f P rest) s else each_entry f P rest s)"

definition target :: "treeEntry \<Rightarrow> string list" where
  "target e = path_parts (te_path e)"

definition removes :: "treeEntry \<Rightarrow> bool" where
  "removes e \<longleftrightarrow> te_operation e = ManagedFileDelete \<or> te_operation e = ManagedFileReplace"

definition writes :: "treeEntry \<Rightarrow> bool" where
  "writes e \<longleftrightarrow> te_operation e = ManagedFileCreate \<or> te_operation e = ManagedFileReplace"

section \<open>The commit\<close>

text \<open>Context, hook, directory of the backup, and the rename to it.\<close>

definition move_to_backup :: "nat \<Rightarrow> treeEntry \<Rightarrow> tree_op" where
  "move_to_backup i e s = (case rename_out (target e) (ts_disk s) of
       Inl err \<Rightarrow> (Some err, s)
     | Inr (sub, d) \<Rightarrow> (None, s\<lparr>ts_disk := d, ts_backup := gput i sub (ts_backup s), ts_backed := i # ts_backed s,
         ts_committed := (if te_operation e = ManagedFileDelete then i # ts_committed s else ts_committed s)\<rparr>))"

definition backup_entry :: "nat \<Rightarrow> treeEntry \<Rightarrow> tree_op" where
  "backup_entry i e = and_then may_fail (and_then may_fail (and_then may_fail (and_then may_fail (move_to_backup i e))))"

definition parent_dirs :: "string list \<Rightarrow> tree_op" where
  "parent_dirs p s = (case make_dirs (ts_faults s) [] (butlast p) (ts_disk s) of
     ((r, d), faults) \<Rightarrow> (r, s\<lparr>ts_disk := d, ts_faults := faults\<rparr>))"

text \<open>A directory at the target is removed, which works if it is empty.\<close>

definition remove_dir :: "string list \<Rightarrow> tree_op" where
  "remove_dir p s = (case os_Remove p (ts_disk s) of (r, d) \<Rightarrow> (r, s\<lparr>ts_disk := d\<rparr>))"

definition clear_target :: "string list \<Rightarrow> tree_op" where
  "clear_target p = and_then may_fail (\<lambda>s. case os_Lstat (ts_disk s) p of
       Inr DirNode \<Rightarrow> and_then may_fail (remove_dir p) s
     | Inr (FileNode c m) \<Rightarrow> (None, s)
     | Inl ENOENT \<Rightarrow> (None, s)
     | Inl err \<Rightarrow> (Some err, s))"

definition move_from_stage :: "nat \<Rightarrow> treeEntry \<Rightarrow> tree_op" where
  "move_from_stage i e s = (case gget (ts_stage s) i of
       None \<Rightarrow> (Some ENOENT, s)
     | Some sub \<Rightarrow> (case rename_in sub (target e) (ts_disk s) of
         (Some err, d) \<Rightarrow> (Some err, s)
       | (None, d) \<Rightarrow> (None, s\<lparr>ts_disk := d, ts_stage := gdel i (ts_stage s), ts_committed := i # ts_committed s\<rparr>)))"

definition check_within :: "string list \<Rightarrow> tree_op" where
  "check_within p s = (if ensureWithin [] p then (None, s) else (Some Escapes, s))"

definition commit_entry :: "nat \<Rightarrow> treeEntry \<Rightarrow> tree_op" where
  "commit_entry i e = and_then may_fail
     (and_then (if te_operation e = ManagedFileCreate then may_fail else (\<lambda>s. (None, s)))
     (and_then (check_within (target e))
     (and_then (parent_dirs (target e))
     (and_then may_fail
     (and_then (clear_target (target e))
     (and_then may_fail (move_from_stage i e)))))))"

definition commit_tree :: "treeEntry list \<Rightarrow> tree_op" where
  "commit_tree entries = and_then (each_entry backup_entry removes (enumerate 0 entries))
     (each_entry commit_entry writes (enumerate 0 entries))"

section \<open>What the disk is like on the way\<close>

text \<open>
  \<open>B\<close> are the entries that were backed up and \<open>C\<close> those whose new content is in place; \<open>d0\<close> is the disk
  before the commit.
\<close>

definition entry_file :: "treeEntry \<Rightarrow> string \<times> nat" where
  "entry_file e = (te_content e, te_mode e)"

definition tree_inv :: "treeEntry list \<Rightarrow> disk \<Rightarrow> nat set \<Rightarrow> nat set \<Rightarrow> disk \<Rightarrow> bool" where
  "tree_inv es d0 B C d \<longleftrightarrow> is_tree d
     \<and> (\<forall>i \<in> C. file_at d (target (es ! i)) = Some (entry_file (es ! i)))
     \<and> (\<forall>i \<in> B - C. file_at d (target (es ! i)) = None)
     \<and> (\<forall>q. q \<notin> (\<lambda>i. target (es ! i)) ` (B \<union> C) \<longrightarrow> file_at d q = file_at d0 q)
     \<and> (\<forall>q. is_dir d q \<longrightarrow> is_dir d0 q
          \<or> (\<exists>j < length es. writes (es ! j) \<and> strict_prefix q (target (es ! j))))"

text \<open>The plan fits the disk: its targets differ, what it removes is there, what it creates is not.\<close>

definition plan_fits :: "treeEntry list \<Rightarrow> disk \<Rightarrow> bool" where
  "plan_fits es d0 \<longleftrightarrow> is_tree d0 \<and> distinct (map target es)
     \<and> (\<forall>i < length es. target (es ! i) \<noteq> [] \<and> ensureWithin [] (target (es ! i))
          \<and> (removes (es ! i) \<longleftrightarrow> file_at d0 (target (es ! i)) \<noteq> None))"

definition commit_inv :: "treeEntry list \<Rightarrow> disk \<Rightarrow> nat set \<Rightarrow> nat set \<Rightarrow> tree_state \<Rightarrow> bool" where
  "commit_inv es d0 B C s \<longleftrightarrow> tree_inv es d0 B C (ts_disk s)
     \<and> B \<subseteq> {i. i < length es \<and> removes (es ! i)} \<and> C \<subseteq> {i. i < length es \<and> writes (es ! i)}
     \<and> set (ts_backed s) = B \<and> set (ts_committed s) = C \<union> {i \<in> B. te_operation (es ! i) = ManagedFileDelete}
     \<and> (\<forall>i \<in> B. \<exists>f sub. file_at d0 (target (es ! i)) = Some f \<and> gget (ts_backup s) i = Some sub \<and> is_file_tree sub f)
     \<and> (\<forall>i < length es. writes (es ! i) \<and> i \<notin> C \<longrightarrow>
          (\<exists>sub. gget (ts_stage s) i = Some sub \<and> is_file_tree sub (entry_file (es ! i))))"

text \<open>Where a failure has no effect on what the invariant speaks of.\<close>

lemma may_fail_inv: "commit_inv es d0 B C s \<Longrightarrow> may_fail s = (r, s') \<Longrightarrow> commit_inv es d0 B C s'"
  by (auto simp: may_fail_def commit_inv_def split: list.splits)

lemma and_then_cases:
  assumes "and_then f g s = (r, s')"
  obtains (failed) e where "r = Some e" "f s = (Some e, s')" | (went_on) s1 where "f s = (None, s1)" "g s1 = (r, s')"
  using assms by (auto simp: and_then_def split: prod.splits option.splits)

lemma target_distinct:
  "plan_fits es d0 \<Longrightarrow> i < length es \<Longrightarrow> j < length es \<Longrightarrow> target (es ! i) = target (es ! j) \<longleftrightarrow> i = j"
  by (auto simp: plan_fits_def distinct_conv_nth)

text \<open>A change of the directories alone.\<close>

lemma tree_inv_dirs:
  assumes "tree_inv es d0 B C d" "is_tree d'" "file_at d' = file_at d"
    and "\<And>q. is_dir d' q \<Longrightarrow> is_dir d q \<or> (\<exists>j < length es. writes (es ! j) \<and> strict_prefix q (target (es ! j)))"
  shows "tree_inv es d0 B C d'"
  using assms unfolding tree_inv_def by metis

lemma move_to_backup_inv:
  assumes inv: "commit_inv es d0 B {} s" and fits: "plan_fits es d0"
    and i: "i < length es" "removes (es ! i)" "i \<notin> B" and op: "move_to_backup i (es ! i) s = (r, s')"
  shows "if r = None then commit_inv es d0 (insert i B) {} s' else commit_inv es d0 B {} s'"
proof (cases "rename_out (target (es ! i)) (ts_disk s)")
  case (Inl err)
  then show ?thesis using op inv by (auto simp: move_to_backup_def)
next
  case (Inr p)
  obtain sub d where p: "p = (sub, d)" by fastforce
  have tree: "tree_inv es d0 B {} (ts_disk s)" and B: "B \<subseteq> {i. i < length es}" using inv by (auto simp: commit_inv_def)
  have fresh: "target (es ! i) \<notin> (\<lambda>i. target (es ! i)) ` B"
    using target_distinct [OF fits i(1)] B i(3) by auto
  obtain f where f: "file_at d0 (target (es ! i)) = Some f"
    using fits i(1,2) by (auto simp: plan_fits_def)
  then have here: "file_at (ts_disk s) (target (es ! i)) = Some f" using tree fresh by (simp add: tree_inv_def)
  have t: "is_tree (ts_disk s)" using tree by (simp add: tree_inv_def)
  note out = rename_out_file [OF t here Inr [unfolded p]]
  have "tree_inv es d0 (insert i B) {} d"
    using tree out(2) unfolding tree_inv_def out(3,4) by auto
  moreover have "r = None" "s' = s\<lparr>ts_disk := d, ts_backup := gput i sub (ts_backup s), ts_backed := i # ts_backed s,
      ts_committed := (if te_operation (es ! i) = ManagedFileDelete then i # ts_committed s else ts_committed s)\<rparr>"
    using op Inr p by (auto simp: move_to_backup_def)
  ultimately show ?thesis
    using inv i f out(1) by (cases f) (auto simp: commit_inv_def al.get_put)
qed

text \<open>A call that keeps \<open>I\<close> when it fails and gives \<open>Q\<close> when it succeeds.\<close>

definition gives :: "(tree_state \<Rightarrow> bool) \<Rightarrow> tree_op \<Rightarrow> (tree_state \<Rightarrow> bool) \<Rightarrow> bool" where
  "gives I f Q \<longleftrightarrow> (\<forall>s r s'. I s \<longrightarrow> f s = (r, s') \<longrightarrow> (if r = None then Q s' else I s'))"

lemma givesI: "(\<And>s r s'. I s \<Longrightarrow> f s = (r, s') \<Longrightarrow> if r = None then Q s' else I s') \<Longrightarrow> gives I f Q"
  by (simp add: gives_def)

lemma givesD: "gives I f Q \<Longrightarrow> I s \<Longrightarrow> f s = (r, s') \<Longrightarrow> if r = None then Q s' else I s'"
  by (simp add: gives_def)

lemma gives_then: "gives I f I \<Longrightarrow> gives I g Q \<Longrightarrow> gives I (and_then f g) Q"
  unfolding gives_def by (metis and_then_cases option.distinct(1))

lemma gives_may_fail: "gives (commit_inv es d0 B C) may_fail (commit_inv es d0 B C)"
  using may_fail_inv by (auto intro: givesI)

lemma gives_backup_entry:
  assumes "plan_fits es d0" "i < length es" "removes (es ! i)" "i \<notin> B"
  shows "gives (commit_inv es d0 B {}) (backup_entry i (es ! i)) (commit_inv es d0 (insert i B) {})"
  unfolding backup_entry_def
  by (intro gives_then gives_may_fail givesI) (rule move_to_backup_inv [OF _ assms])

lemma each_entry_inv:
  assumes "each_entry f P l s = (r, s')" "I A s"
    and "\<forall>(i, e) \<in> set l. i < length es \<and> e = es ! i \<and> i \<notin> A" "distinct (map fst l)"
    and step: "\<And>A i. i < length es \<Longrightarrow> P (es ! i) \<Longrightarrow> i \<notin> A \<Longrightarrow> gives (I A) (f i (es ! i)) (I (insert i A))"
  shows "\<exists>A'. I A' s' \<and> (r = None \<longrightarrow> A' = A \<union> {i. \<exists>e. (i, e) \<in> set l \<and> P e})"
  using assms(1-4)
proof (induction l arbitrary: A s)
  case (Cons p l)
  obtain i e where p: "p = (i, e)" by fastforce
  show ?case
  proof (cases "P e")
    case True
    have ie: "i < length es" "e = es ! i" "i \<notin> A" using Cons.prems(3) p by auto
    then have gives: "gives (I A) (f i e) (I (insert i A))" using step True by simp
    from Cons.prems(1) True have "and_then (f i e) (each_entry f P l) s = (r, s')" by (simp add: p)
    then show ?thesis
    proof (cases rule: and_then_cases)
      case (failed err)
      then show ?thesis using givesD [OF gives Cons.prems(2) failed(2)] by auto
    next
      case (went_on s1)
      have "I (insert i A) s1" using givesD [OF gives Cons.prems(2) went_on(1)] by simp
      moreover have "\<forall>(j, e) \<in> set l. j < length es \<and> e = es ! j \<and> j \<notin> insert i A"
        using Cons.prems(3,4) by (force simp: p)
      ultimately obtain A' where "I A' s'" "r = None \<longrightarrow> A' = insert i A \<union> {i. \<exists>e. (i, e) \<in> set l \<and> P e}"
        using Cons.IH [OF went_on(2), of "insert i A"] Cons.prems(4) by auto
      then show ?thesis using True p by (intro exI [of _ A']) auto
    qed
  next
    case False
    then obtain A' where "I A' s'" "r = None \<longrightarrow> A' = A \<union> {i. \<exists>e. (i, e) \<in> set l \<and> P e}"
      using Cons.IH [of s A] Cons.prems by (auto simp: p)
    then show ?thesis using False p by (intro exI [of _ A']) auto
  qed
qed auto

lemma gives_parent_dirs:
  assumes "i < length es" "writes (es ! i)" "target (es ! i) \<noteq> []"
  shows "gives (commit_inv es d0 B C) (parent_dirs (target (es ! i))) (commit_inv es d0 B C)"
proof (rule givesI)
  fix s r s'
  assume inv: "commit_inv es d0 B C s" and op: "parent_dirs (target (es ! i)) s = (r, s')"
  obtain d faults where m: "make_dirs (ts_faults s) [] (butlast (target (es ! i))) (ts_disk s) = ((r, d), faults)"
    and s': "s' = s\<lparr>ts_disk := d, ts_faults := faults\<rparr>"
    using op by (auto simp: parent_dirs_def split: prod.splits)
  have tree: "tree_inv es d0 B C (ts_disk s)" using inv by (simp add: commit_inv_def)
  then have t: "is_tree (ts_disk s)" by (simp add: tree_inv_def)
  note eff = make_dirs_effect [OF m t tree_root [OF t]]
  have "strict_prefix q (target (es ! i))" if "prefix q (butlast (target (es ! i)))" for q
    using that assms(3) by (metis append_butlast_last_id prefix_order.le_less_trans strict_prefix_def
        prefix_def append_self_conv not_Cons_self2)
  then have "tree_inv es d0 B C d"
    using eff assms(1,2) by (intro tree_inv_dirs [OF tree]) auto
  with inv show "if r = None then commit_inv es d0 B C s' else commit_inv es d0 B C s'"
    by (simp add: s' commit_inv_def)
qed

lemma gives_remove_dir:
  assumes "p \<noteq> []"
  shows "gives (\<lambda>s. commit_inv es d0 B C s \<and> is_dir (ts_disk s) p) (remove_dir p) (commit_inv es d0 B C)"
proof (rule givesI)
  fix s r s'
  assume inv: "commit_inv es d0 B C s \<and> is_dir (ts_disk s) p" and op: "remove_dir p s = (r, s')"
  obtain d where d: "os_Remove p (ts_disk s) = (r, d)" "s' = s\<lparr>ts_disk := d\<rparr>"
    using op by (auto simp: remove_dir_def split: prod.splits)
  have tree: "tree_inv es d0 B C (ts_disk s)" using inv by (simp add: commit_inv_def)
  then have t: "is_tree (ts_disk s)" by (simp add: tree_inv_def)
  note rm = Remove_dir [OF t conjunct2 [OF inv] assms d(1)]
  have "tree_inv es d0 B C d" using rm(1-3) by (intro tree_inv_dirs [OF tree]) auto
  moreover have "is_dir d p" if "r \<noteq> None"
    using d(1) inv that by (auto simp: os_Remove_def split: sum.splits node.splits if_splits)
  ultimately show "if r = None then commit_inv es d0 B C s' else commit_inv es d0 B C s' \<and> is_dir (ts_disk s') p"
    using inv by (simp add: d(2) commit_inv_def)
qed

lemma gives_clear_target:
  assumes "p \<noteq> []"
  shows "gives (commit_inv es d0 B C) (clear_target p) (commit_inv es d0 B C)"
  unfolding clear_target_def
proof (intro gives_then gives_may_fail givesI)
  fix s r s'
  assume inv: "commit_inv es d0 B C s" and op: "(case os_Lstat (ts_disk s) p of
       Inr DirNode \<Rightarrow> and_then may_fail (remove_dir p) s
     | Inr (FileNode c m) \<Rightarrow> (None, s)
     | Inl ENOENT \<Rightarrow> (None, s)
     | Inl err \<Rightarrow> (Some err, s)) = (r, s')"
  show "if r = None then commit_inv es d0 B C s' else commit_inv es d0 B C s'"
  proof (cases "os_Lstat (ts_disk s) p = Inr DirNode")
    case True
    then have dir: "is_dir (ts_disk s) p" using Lstat_Inr by (auto simp: is_dir_def)
    from op True have "and_then may_fail (remove_dir p) s = (r, s')" by simp
    then show ?thesis
    proof (cases rule: and_then_cases)
      case (failed e)
      then show ?thesis using may_fail_inv [OF inv] by simp
    next
      case (went_on s1)
      have "ts_disk s1 = ts_disk s" using went_on(1) by (auto simp: may_fail_def split: list.splits)
      with may_fail_inv [OF inv went_on(1)] dir have "commit_inv es d0 B C s1 \<and> is_dir (ts_disk s1) p" by simp
      from givesD [OF gives_remove_dir [OF assms] this went_on(2)] show ?thesis by (simp split: if_splits)
    qed
  qed (use inv op in \<open>auto split: sum.splits node.splits fs_error.splits\<close>)
qed

lemma gives_move_from_stage:
  assumes fits: "plan_fits es d0" and i: "i < length es" "writes (es ! i)" "i \<notin> C" and B: "removes (es ! i) \<longrightarrow> i \<in> B"
  shows "gives (commit_inv es d0 B C) (move_from_stage i (es ! i)) (commit_inv es d0 B (insert i C))"
proof (rule givesI)
  fix s r s'
  assume inv: "commit_inv es d0 B C s" and op: "move_from_stage i (es ! i) s = (r, s')"
  obtain sub where sub: "gget (ts_stage s) i = Some sub" "is_file_tree sub (entry_file (es ! i))"
    using inv i by (auto simp: commit_inv_def)
  obtain r' d where d: "rename_in sub (target (es ! i)) (ts_disk s) = (r', d)" by fastforce
  show "if r = None then commit_inv es d0 B (insert i C) s' else commit_inv es d0 B C s'"
  proof (cases r')
    case (Some err)
    then show ?thesis using op inv sub(1) d by (auto simp: move_from_stage_def)
  next
    case None
    have s': "r = None" "s' = s\<lparr>ts_disk := d, ts_stage := gdel i (ts_stage s), ts_committed := i # ts_committed s\<rparr>"
      using op sub(1) d None by (auto simp: move_from_stage_def)
    have tree: "tree_inv es d0 B C (ts_disk s)" and sets: "B \<subseteq> {i. i < length es}" "C \<subseteq> {i. i < length es}"
      using inv by (auto simp: commit_inv_def)
    then have t: "is_tree (ts_disk s)" by (simp add: tree_inv_def)
    have ne: "target (es ! i) \<noteq> []" using fits i(1) by (simp add: plan_fits_def)
    note moved = rename_in_file [OF t sub(2) ne d [unfolded None]]
    have other: "target (es ! j) = target (es ! i) \<longleftrightarrow> j = i" if "j \<in> B \<union> C" for j
      using target_distinct [OF fits _ i(1)] that sets by blast
    have "tree_inv es d0 B (insert i C) d"
      using tree moved(1) other unfolding tree_inv_def moved(2,3) by (auto simp: image_iff)
    with inv i show ?thesis by (auto simp: s' commit_inv_def al.get_del)
  qed
qed

lemma gives_commit_entry:
  assumes "plan_fits es d0" "i < length es" "writes (es ! i)" "i \<notin> C" "removes (es ! i) \<longrightarrow> i \<in> B"
  shows "gives (commit_inv es d0 B C) (commit_entry i (es ! i)) (commit_inv es d0 B (insert i C))"
proof -
  have ne: "target (es ! i) \<noteq> []" using assms(1,2) by (simp add: plan_fits_def)
  have "gives (commit_inv es d0 B C) (\<lambda>s. (None, s)) (commit_inv es d0 B C)"
    "gives (commit_inv es d0 B C) (check_within (target (es ! i))) (commit_inv es d0 B C)"
    by (auto intro!: givesI simp: check_within_def split: if_splits)
  then show ?thesis
    unfolding commit_entry_def
    by (intro gives_then gives_may_fail gives_parent_dirs [OF assms(2,3) ne] gives_clear_target [OF ne]
        gives_move_from_stage [OF assms]) (simp_all add: gives_may_fail)
qed

section \<open>The whole commit\<close>

definition all_removed :: "treeEntry list \<Rightarrow> nat set" where
  "all_removed es = {i. i < length es \<and> removes (es ! i)}"

definition all_written :: "treeEntry list \<Rightarrow> nat set" where
  "all_written es = {i. i < length es \<and> writes (es ! i)}"

lemma enumerate_entries:
  "\<forall>(i, e) \<in> set (enumerate 0 es). i < length es \<and> e = es ! i" "distinct (map fst (enumerate 0 es))"
  "{i. \<exists>e. (i, e) \<in> set (enumerate 0 es) \<and> P e} = {i. i < length es \<and> P (es ! i)}"
  by (auto simp: in_set_enumerate_eq)

text \<open>What was committed over an old file was backed up before.\<close>

lemma commit_tree_inv:
  assumes fits: "plan_fits es d0" and inv: "commit_inv es d0 {} {} s" and op: "commit_tree es s = (r, s')"
  shows "\<exists>B C. commit_inv es d0 B C s' \<and> C \<inter> all_removed es \<subseteq> B
    \<and> (r = None \<longrightarrow> B = all_removed es \<and> C = all_written es)"
proof -
  have backup: "\<exists>B. commit_inv es d0 B {} s' \<and> (r = None \<longrightarrow> B = all_removed es)"
    if "each_entry backup_entry removes (enumerate 0 es) s = (r, s')" for r s'
    using each_entry_inv [OF that, of "\<lambda>B. commit_inv es d0 B {}" "{}" es] inv enumerate_entries [of es]
      gives_backup_entry [OF fits]
    by (force simp: all_removed_def)
  have commit: "\<exists>C. commit_inv es d0 (all_removed es) C s' \<and> (r = None \<longrightarrow> C = all_written es)"
    if "each_entry commit_entry writes (enumerate 0 es) s = (r, s')" "commit_inv es d0 (all_removed es) {} s" for s r s'
    using each_entry_inv [OF that(1), of "\<lambda>C. commit_inv es d0 (all_removed es) C" "{}" es] that(2)
      enumerate_entries [of es] gives_commit_entry [OF fits, of _ _ "all_removed es"]
    by (force simp: all_removed_def all_written_def)
  show ?thesis
    using op [unfolded commit_tree_def]
  proof (cases rule: and_then_cases)
    case (failed e)
    then show ?thesis using backup [OF failed(2)] by blast
  next
    case (went_on s1)
    then show ?thesis using backup [OF went_on(1)] commit [OF went_on(2)] by blast
  qed
qed

text \<open>The files after a commit that went through.\<close>

lemma committed_files:
  assumes fits: "plan_fits es d0" and inv: "commit_inv es d0 (all_removed es) (all_written es) s"
  shows "file_at (ts_disk s) q = (case find (\<lambda>e. target e = q) es of
      None \<Rightarrow> file_at d0 q
    | Some e \<Rightarrow> if te_operation e = ManagedFileDelete then None else Some (entry_file e))"
proof -
  have tree: "tree_inv es d0 (all_removed es) (all_written es) (ts_disk s)" using inv by (simp add: commit_inv_def)
  have kind: "removes e \<or> writes e" "writes e \<longleftrightarrow> te_operation e \<noteq> ManagedFileDelete" for e
    by (cases "te_operation e"; simp add: removes_def writes_def)+
  show ?thesis
  proof (cases "find (\<lambda>e. target e = q) es")
    case None
    then have "q \<notin> (\<lambda>i. target (es ! i)) ` (all_removed es \<union> all_written es)"
      by (auto simp: find_None_iff all_removed_def all_written_def dest: nth_mem)
    then show ?thesis using tree None by (simp add: tree_inv_def)
  next
    case (Some e)
    then obtain i where i: "i < length es" "e = es ! i" "target e = q" by (auto simp: find_Some_iff)
    then show ?thesis
      using tree Some kind [of e] by (auto simp: tree_inv_def all_removed_def all_written_def)
  qed
qed

end
