(* ===== verification/Workspace_Rollback.thy ===== *)
theory Workspace_Rollback
  imports Workspace_Commit
begin

text \<open>
  How a failed \<open>ReplaceTree\<close> undoes what it did (\<open>rollbackTreeWithStatus\<close> in \<open>src/workspace/tree.go\<close>):
  the new files are removed, then the old ones are moved back.

  Shown: when no call of the rollback fails by itself, it puts back every file and says so, unless a
  new path lies two levels or more below a file that was backed up. In that case it fails, and the
  old file is lost with the backup.
\<close>

section \<open>The rollback\<close>

fun gather :: "(nat \<Rightarrow> treeEntry \<Rightarrow> tree_state \<Rightarrow> fs_error list \<times> tree_state) \<Rightarrow> (nat \<times> treeEntry) list
    \<Rightarrow> tree_state \<Rightarrow> fs_error list \<times> tree_state" where
  "gather f [] s = ([], s)"
| "gather f ((i, e) # rest) s =
     (case f i e s of (errs, s) \<Rightarrow> (case gather f rest s of (later, s) \<Rightarrow> (errs @ later, s)))"

definition uncommit_entry :: "nat \<Rightarrow> treeEntry \<Rightarrow> tree_state \<Rightarrow> fs_error list \<times> tree_state" where
  "uncommit_entry i e s =
     (if i \<in> set (ts_committed s) \<and> te_operation e \<noteq> ManagedFileDelete
      then (case and_then may_fail (remove_dir (target e)) s of
          (Some ENOENT, s) \<Rightarrow> ([], s)
        | (Some err, s) \<Rightarrow> ([err], s)
        | (None, s) \<Rightarrow> ([], s))
      else ([], s))"

definition move_from_backup :: "nat \<Rightarrow> treeEntry \<Rightarrow> tree_op" where
  "move_from_backup i e s = (case gget (ts_backup s) i of
       None \<Rightarrow> (Some ENOENT, s)
     | Some sub \<Rightarrow> (case rename_in sub (target e) (ts_disk s) of
         (Some err, d) \<Rightarrow> (Some err, s)
       | (None, d) \<Rightarrow> (None, s\<lparr>ts_disk := d, ts_backup := gdel i (ts_backup s)\<rparr>)))"

definition restore_entry :: "nat \<Rightarrow> treeEntry \<Rightarrow> tree_state \<Rightarrow> fs_error list \<times> tree_state" where
  "restore_entry i e s =
     (if i \<in> set (ts_backed s)
      then (case and_then (parent_dirs (target e)) (and_then (clear_target (target e))
              (and_then may_fail (move_from_backup i e))) s of
          (Some err, s) \<Rightarrow> ([err], s)
        | (None, s) \<Rightarrow> ([], s))
      else ([], s))"

definition rollbackTreeWithStatus :: "treeEntry list \<Rightarrow> tree_state \<Rightarrow> bool \<times> tree_state" where
  "rollbackTreeWithStatus entries s = (case gather uncommit_entry (rev (enumerate 0 entries)) s of
     (errs, s) \<Rightarrow> (case gather restore_entry (rev (enumerate 0 entries)) s of
       (later, s) \<Rightarrow> (errs @ later = [], s)))"

section \<open>What a rollback restores\<close>

text \<open>A loop without failures does its work for one entry after the other.\<close>

lemma gather_all:
  assumes "I D s" "\<forall>(i, e) \<in> set l. i < length es \<and> e = es ! i \<and> i \<notin> D" "distinct (map fst l)"
    and step: "\<And>D i s. I D s \<Longrightarrow> i < length es \<Longrightarrow> i \<notin> D \<Longrightarrow> \<exists>s'. f i (es ! i) s = ([], s') \<and> I (insert i D) s'"
  shows "\<exists>s'. gather f l s = ([], s') \<and> I (D \<union> fst ` set l) s'"
  using assms(1-3)
proof (induction l arbitrary: D s)
  case (Cons p l)
  obtain i where p: "p = (i, es ! i)" "i < length es" "i \<notin> D" using Cons.prems(2) by (cases p) auto
  obtain s1 where s1: "f i (es ! i) s = ([], s1)" "I (insert i D) s1" using step [OF Cons.prems(1) p(2,3)] by blast
  have "\<forall>(j, e) \<in> set l. j < length es \<and> e = es ! j \<and> j \<notin> insert i D"
    using Cons.prems(2,3) by (force simp: p)
  then obtain s2 where "gather f l s1 = ([], s2)" "I (insert i D \<union> fst ` set l) s2"
    using Cons.IH [OF s1(2)] Cons.prems(3) by (auto simp: p)
  then show ?case using s1(1) by (auto simp: p(1))
qed simp

lemma rev_enumerate:
  "\<forall>(i, e) \<in> set (rev (enumerate 0 es)). i < length es \<and> e = es ! i \<and> i \<notin> {}"
  "distinct (map fst (rev (enumerate 0 es)))" "fst ` set (enumerate 0 es) = {i. i < length es}"
  by (auto simp: in_set_enumerate_eq rev_map [symmetric] simp flip: set_map)

lemma gather_entries:
  assumes "I {} s"
    and step: "\<And>D i s. I D s \<Longrightarrow> i < length es \<Longrightarrow> i \<notin> D \<Longrightarrow> \<exists>s'. f i (es ! i) s = ([], s') \<and> I (insert i D) s'"
  shows "\<exists>s'. gather f (rev (enumerate 0 es)) s = ([], s') \<and> I {i. i < length es} s'"
  using gather_all [of I "{}" s "rev (enumerate 0 es)" es f, OF assms(1) rev_enumerate(1,2) step]
  using rev_enumerate(3) [of es] by simp

text \<open>The entries \<open>D\<close> are done; no fault is left.\<close>

definition undo_inv :: "treeEntry list \<Rightarrow> disk \<Rightarrow> nat set \<Rightarrow> nat set \<Rightarrow> nat set \<Rightarrow> tree_state \<Rightarrow> bool" where
  "undo_inv es d0 B C D s \<longleftrightarrow> ts_faults s = [] \<and> tree_inv es d0 B (C - D) (ts_disk s)
     \<and> C \<subseteq> all_written es \<and> B \<subseteq> all_removed es \<and> C \<inter> all_removed es \<subseteq> B
     \<and> set (ts_backed s) = B \<and> set (ts_committed s) = C \<union> {i \<in> B. te_operation (es ! i) = ManagedFileDelete}
     \<and> (\<forall>i \<in> B. \<exists>f sub. file_at d0 (target (es ! i)) = Some f \<and> gget (ts_backup s) i = Some sub \<and> is_file_tree sub f)"

lemma no_fault [simp]: "ts_faults s = [] \<Longrightarrow> may_fail s = (None, s)"
  by (simp add: may_fail_def)

lemma uncommit_step:
  assumes fits: "plan_fits es d0" and inv: "undo_inv es d0 B C D s" and i: "i < length es" "i \<notin> D"
  shows "\<exists>s'. uncommit_entry i (es ! i) s = ([], s') \<and> undo_inv es d0 B C (insert i D) s'"
proof (cases "i \<in> set (ts_committed s) \<and> te_operation (es ! i) \<noteq> ManagedFileDelete")
  case True
  have tree: "tree_inv es d0 B (C - D) (ts_disk s)" and sets: "C \<subseteq> all_written es" "B \<subseteq> all_removed es"
    and C: "C \<inter> all_removed es \<subseteq> B" and iC: "i \<in> C" and faults: "ts_faults s = []"
    using inv True by (auto simp: undo_inv_def)
  then have t: "is_tree (ts_disk s)" and here: "file_at (ts_disk s) (target (es ! i)) = Some (entry_file (es ! i))"
    using i by (auto simp: tree_inv_def)
  note rm = Remove_file [OF t here]
  have other: "target (es ! j) = target (es ! i) \<longleftrightarrow> j = i" if "j \<in> B \<union> C" for j
    using target_distinct [OF fits _ i(1)] that sets by (auto simp: all_removed_def all_written_def)
  have new: "file_at d0 (target (es ! i)) = None" if "i \<notin> B"
    using fits i(1) C iC that by (auto simp: plan_fits_def all_removed_def)
  have "tree_inv es d0 B (C - insert i D) (gdel (target (es ! i)) (ts_disk s))"
    unfolding tree_inv_def node_simps
  proof (intro conjI ballI allI impI)
    fix j assume "j \<in> C - insert i D"
    then show "(if target (es ! j) = target (es ! i) then None else file_at (ts_disk s) (target (es ! j)))
        = Some (entry_file (es ! j))"
      using tree other [of j] by (auto simp: tree_inv_def)
  next
    fix j assume "j \<in> B - (C - insert i D)"
    then show "(if target (es ! j) = target (es ! i) then None else file_at (ts_disk s) (target (es ! j))) = None"
      using tree other [of j] by (cases "j = i") (simp_all add: tree_inv_def)
  next
    fix q assume q: "q \<notin> (\<lambda>i. target (es ! i)) ` (B \<union> (C - insert i D))"
    show "(if q = target (es ! i) then None else file_at (ts_disk s) q) = file_at d0 q"
    proof (cases "q = target (es ! i)")
      case True
      then show ?thesis using q new by auto
    next
      case False
      then have "q \<notin> (\<lambda>i. target (es ! i)) ` (B \<union> (C - D))" using q by auto
      then show ?thesis using tree False by (simp add: tree_inv_def)
    qed
  qed (use tree rm(2) in \<open>auto simp: tree_inv_def\<close>)
  then have "undo_inv es d0 B C (insert i D) (s\<lparr>ts_disk := gdel (target (es ! i)) (ts_disk s)\<rparr>)"
    using inv by (simp add: undo_inv_def)
  moreover have "uncommit_entry i (es ! i) s = ([], s\<lparr>ts_disk := gdel (target (es ! i)) (ts_disk s)\<rparr>)"
    using True faults rm(1) by (simp add: uncommit_entry_def and_then_def remove_dir_def)
  ultimately show ?thesis by blast
next
  case False
  have "i \<notin> C"
  proof
    assume "i \<in> C"
    then have "i \<in> set (ts_committed s)" "writes (es ! i)" using inv by (auto simp: undo_inv_def all_written_def)
    with False show False by (simp add: writes_def)
  qed
  then have "C - insert i D = C - D" by auto
  then show ?thesis using False inv by (auto simp: uncommit_entry_def undo_inv_def)
qed

text \<open>No new path lies two levels or more below a file that goes away.\<close>

definition no_deep :: "treeEntry list \<Rightarrow> bool" where
  "no_deep es \<longleftrightarrow> (\<forall>e \<in> set es. \<forall>f \<in> set es. removes e \<and> writes f \<and> strict_prefix (target e) (target f)
     \<longrightarrow> length (target f) = Suc (length (target e)))"

lemma nothing_below:
  assumes fits: "plan_fits es d0" and deep: "no_deep es" and tree: "tree_inv es d0 B {} d" and B: "B \<subseteq> all_removed es"
    and i: "i < length es" "file_at d0 (target (es ! i)) = Some f" and q: "strict_prefix (target (es ! i)) q"
  shows "gget d q = None"
proof -
  have t0: "is_tree d0" using fits by (simp add: plan_fits_def)
  have d0: "gget d0 q = None" by (rule tree_above_file [OF t0 i(2) q])
  then have none: "file_at d0 q = None" "\<not> is_dir d0 q" using node_there [of d0 q] by metis+
  have "file_at d q = None" using tree none(1) by (cases "q \<in> (\<lambda>i. target (es ! i)) ` B") (auto simp: tree_inv_def)
  moreover have "\<not> is_dir d q"
  proof
    assume "is_dir d q"
    then obtain j where j: "j < length es" "writes (es ! j)" "strict_prefix q (target (es ! j))"
      using tree none(2) by (auto simp: tree_inv_def)
    have "removes (es ! i)" using fits i by (auto simp: plan_fits_def)
    moreover have "strict_prefix (target (es ! i)) (target (es ! j))" using q j(3) prefix_order.less_trans by blast
    ultimately have "length (target (es ! j)) = Suc (length (target (es ! i)))"
      using deep i(1) j(1,2) by (auto simp: no_deep_def)
    then show False using prefix_length_less [OF q] prefix_length_less [OF j(3)] by simp
  qed
  ultimately show ?thesis using node_there [of d q] by blast
qed

lemma parent_dirs_works:
  assumes fits: "plan_fits es d0" and tree: "tree_inv es d0 B {} (ts_disk s)" and faults: "ts_faults s = []"
    and i: "i < length es" "file_at d0 (target (es ! i)) = Some f"
  shows "\<exists>d. parent_dirs (target (es ! i)) s = (None, s\<lparr>ts_disk := d\<rparr>) \<and> is_tree d \<and> file_at d = file_at (ts_disk s)
    \<and> is_dir d (butlast (target (es ! i))) \<and> (\<forall>q. is_dir d q \<longrightarrow> is_dir (ts_disk s) q \<or> is_dir d0 q)"
proof -
  let ?p = "target (es ! i)"
  have t: "is_tree (ts_disk s)" using tree by (simp add: tree_inv_def)
  have t0: "is_tree d0" and ne: "?p \<noteq> []" using fits i(1) by (auto simp: plan_fits_def)
  have up: "strict_prefix q ?p" if "prefix q (butlast ?p)" for q
    using that ne by (metis append_butlast_last_id prefix_order.le_less_trans strict_prefix_def
        prefix_def append_self_conv not_Cons_self2)
  have dirs: "is_dir d0 q" if "strict_prefix q ?p" for q using tree_dirs [OF t0 that] i(2) by auto
  have free: "file_at (ts_disk s) q = None" if "prefix q ([] @ butlast ?p)" for q
  proof -
    have "file_at d0 q = None" using dirs [OF up] that file_not_dir [of d0 q] by (metis append_Nil)
    then show ?thesis using tree by (cases "q \<in> (\<lambda>i. target (es ! i)) ` B") (auto simp: tree_inv_def)
  qed
  obtain r d faults where m: "make_dirs [] [] (butlast ?p) (ts_disk s) = ((r, d), faults)"
    by (metis surj_pair)
  have "r = None" using make_dirs_works [OF t tree_root [OF t], of "butlast ?p"] free m by simp
  moreover have "faults = []" using make_dirs_no_faults [of "[]" "butlast ?p" "ts_disk s"] m by simp
  ultimately show ?thesis
    using make_dirs_effect [OF m t tree_root [OF t]] m faults up dirs
    by (intro exI [of _ d]) (auto simp: parent_dirs_def)
qed

text \<open>What is at the target of a backup is nothing or an empty directory.\<close>

lemma clear_target_works:
  assumes t: "is_tree (ts_disk s)" and faults: "ts_faults s = []" and p: "p \<noteq> []" "is_dir (ts_disk s) (butlast p)"
    and free: "file_at (ts_disk s) p = None" "\<And>q. strict_prefix p q \<Longrightarrow> gget (ts_disk s) q = None"
  shows "\<exists>d. clear_target p s = (None, s\<lparr>ts_disk := d\<rparr>) \<and> is_tree d \<and> file_at d = file_at (ts_disk s)
    \<and> \<not> is_dir d p \<and> is_dir d (butlast p) \<and> (\<forall>q. is_dir d q \<longrightarrow> is_dir (ts_disk s) q)"
proof (cases "is_dir (ts_disk s) p")
  case True
  obtain r d where d: "os_Remove p (ts_disk s) = (r, d)" by fastforce
  note rm = Remove_dir [OF t True p(1) d]
  have ne: "butlast p \<noteq> p" using p(1) by (metis append_butlast_last_id append_self_conv not_Cons_self2)
  have "r = None" using rm(6) free(2) by blast
  moreover have "os_Lstat (ts_disk s) p = Inr DirNode" using Lstat_tree [OF t] True by (simp add: is_dir_def)
  ultimately show ?thesis
    using rm(1-5) d faults p(2) ne
    by (intro exI [of _ d]) (auto simp: clear_target_def and_then_def remove_dir_def)
next
  case False
  have "\<not> blocked (ts_disk s) p"
  proof
    assume "blocked (ts_disk s) p"
    then obtain q where q: "strict_prefix q p" "file_at (ts_disk s) q \<noteq> None" by (auto simp: blocked_iff)
    have "prefix q (butlast p)" using q(1) p(1) by (auto simp: strict_prefix_def prefix_def butlast_append)
    then have "is_dir (ts_disk s) q" using tree_dirs [OF t, of q "butlast p"] p(2) by (auto simp: strict_prefix_def)
    then show False using q(2) file_not_dir by blast
  qed
  moreover have "gget (ts_disk s) p = None" using node_there [of "ts_disk s" p] False free(1) by simp
  ultimately have "os_Lstat (ts_disk s) p = Inl ENOENT" by (simp add: os_Lstat_def)
  then show ?thesis
    using False t p(2) faults by (intro exI [of _ "ts_disk s"]) (simp add: clear_target_def and_then_def)
qed

lemma restore_step:
  assumes fits: "plan_fits es d0" and deep: "no_deep es" and i: "i < length es" "i \<notin> D"
    and inv: "ts_faults s = []" "tree_inv es d0 (B - D) {} (ts_disk s)" "B \<subseteq> all_removed es" "set (ts_backed s) = B"
    and kept: "\<forall>i \<in> B - D. \<exists>f sub. file_at d0 (target (es ! i)) = Some f \<and> gget (ts_backup s) i = Some sub \<and> is_file_tree sub f"
  shows "\<exists>s'. restore_entry i (es ! i) s = ([], s') \<and> ts_faults s' = [] \<and> tree_inv es d0 (B - insert i D) {} (ts_disk s')
    \<and> set (ts_backed s') = B
    \<and> (\<forall>i \<in> B - insert i D. \<exists>f sub. file_at d0 (target (es ! i)) = Some f \<and> gget (ts_backup s') i = Some sub \<and> is_file_tree sub f)"
proof (cases "i \<in> B")
  case False
  then have "B - insert i D = B - D" by auto
  then show ?thesis using False inv kept by (auto simp: restore_entry_def)
next
  case True
  let ?p = "target (es ! i)"
  obtain f sub where f: "file_at d0 ?p = Some f" and sub: "gget (ts_backup s) i = Some sub" "is_file_tree sub f"
    using kept True i(2) by blast
  have ne: "?p \<noteq> []" using fits i(1) by (simp add: plan_fits_def)
  have here: "file_at (ts_disk s) ?p = None" using inv(2) True i(2) by (auto simp: tree_inv_def)
  have sub_B: "B - D \<subseteq> all_removed es" using inv(3) by auto
  obtain d1 where d1: "parent_dirs ?p s = (None, s\<lparr>ts_disk := d1\<rparr>)" "is_tree d1" "file_at d1 = file_at (ts_disk s)"
      "is_dir d1 (butlast ?p)" "\<forall>q. is_dir d1 q \<longrightarrow> is_dir (ts_disk s) q \<or> is_dir d0 q"
    using parent_dirs_works [OF fits inv(2,1) i(1) f] by blast
  have tree1: "tree_inv es d0 (B - D) {} d1" using inv(2) d1(2,3,5) unfolding tree_inv_def by metis
  have "\<exists>d2. clear_target ?p (s\<lparr>ts_disk := d1\<rparr>) = (None, s\<lparr>ts_disk := d1\<rparr>\<lparr>ts_disk := d2\<rparr>) \<and> is_tree d2
      \<and> file_at d2 = file_at d1 \<and> \<not> is_dir d2 ?p \<and> is_dir d2 (butlast ?p) \<and> (\<forall>q. is_dir d2 q \<longrightarrow> is_dir d1 q)"
    using clear_target_works [of "s\<lparr>ts_disk := d1\<rparr>" ?p] nothing_below [OF fits deep tree1 sub_B i(1) f]
      d1(2,4) d1(3) here inv(1) ne by simp
  then obtain d2 where d2: "clear_target ?p (s\<lparr>ts_disk := d1\<rparr>) = (None, s\<lparr>ts_disk := d2\<rparr>)" "is_tree d2"
      "file_at d2 = file_at d1" "\<not> is_dir d2 ?p" "is_dir d2 (butlast ?p)" "\<forall>q. is_dir d2 q \<longrightarrow> is_dir d1 q"
    by auto
  obtain d3 where d3: "rename_in sub ?p d2 = (None, d3)"
    using rename_in_works [OF d2(2) sub(2) d2(5,4)] by (metis prod.collapse)
  note moved = rename_in_file [OF d2(2) sub(2) ne d3]
  let ?s = "s\<lparr>ts_disk := d3, ts_backup := gdel i (ts_backup s)\<rparr>"
  have "restore_entry i (es ! i) s = ([], ?s)"
    using True inv(1,4) d1(1) d2(1) d3 sub(1)
    by (simp add: restore_entry_def and_then_def move_from_backup_def)
  moreover have "tree_inv es d0 (B - insert i D) {} d3"
    unfolding tree_inv_def moved(2,3) d2(3) d1(3)
  proof (intro conjI ballI allI impI)
    fix j assume j: "j \<in> B - insert i D - {}"
    then have "?p \<noteq> target (es ! j)"
      using target_distinct [OF fits i(1), of j] inv(3) by (auto simp: all_removed_def)
    then show "(if target (es ! j) = ?p then Some f else file_at (ts_disk s) (target (es ! j))) = None"
      using inv(2) j by (auto simp: tree_inv_def)
  next
    fix q assume q: "q \<notin> (\<lambda>i. target (es ! i)) ` (B - insert i D \<union> {})"
    show "(if q = ?p then Some f else file_at (ts_disk s) q) = file_at d0 q"
    proof (cases "q = ?p")
      case False
      then have "q \<notin> (\<lambda>i. target (es ! i)) ` (B - D)" using q by auto
      then show ?thesis using inv(2) False by (simp add: tree_inv_def)
    qed (use f in simp)
  next
    fix q assume "is_dir d2 q"
    then show "is_dir d0 q \<or> (\<exists>j < length es. writes (es ! j) \<and> strict_prefix q (target (es ! j)))"
      using tree1 d2(6) by (auto simp: tree_inv_def)
  qed (use moved(1) in auto)
  ultimately show ?thesis using inv(1,4) kept by (intro exI [of _ ?s]) (auto simp: al.get_del)
qed

text \<open>A rollback without faults restores every file.\<close>

theorem rollback_restores:
  assumes fits: "plan_fits es d0" and deep: "no_deep es" and inv: "commit_inv es d0 B C s"
    and C: "C \<inter> all_removed es \<subseteq> B" and faults: "ts_faults s = []"
  shows "\<exists>s'. rollbackTreeWithStatus es s = (True, s') \<and> file_at (ts_disk s') = file_at d0 \<and> is_tree (ts_disk s')"
proof -
  have "undo_inv es d0 B C {} s"
    using inv C faults by (auto simp: undo_inv_def commit_inv_def all_removed_def all_written_def)
  from gather_entries [of "undo_inv es d0 B C" s es uncommit_entry, OF this uncommit_step [OF fits]]
  obtain s1 where s1: "gather uncommit_entry (rev (enumerate 0 es)) s = ([], s1)"
      "undo_inv es d0 B C {i. i < length es} s1"
    by blast
  let ?I = "\<lambda>D s. ts_faults s = [] \<and> tree_inv es d0 (B - D) {} (ts_disk s) \<and> set (ts_backed s) = B
    \<and> (\<forall>i \<in> B - D. \<exists>f sub. file_at d0 (target (es ! i)) = Some f \<and> gget (ts_backup s) i = Some sub \<and> is_file_tree sub f)"
  have B: "B \<subseteq> all_removed es" and Cw: "C \<subseteq> all_written es" using s1(2) by (auto simp: undo_inv_def)
  have "C - {i. i < length es} = {}" "B - {i. i < length es} = {}"
    using B Cw by (auto simp: all_removed_def all_written_def)
  then have "tree_inv es d0 B {} (ts_disk s1)" using s1(2) unfolding undo_inv_def by metis
  then have start: "?I {} s1" using s1(2) by (simp add: undo_inv_def)
  have step: "\<exists>s'. restore_entry i (es ! i) s = ([], s') \<and> ?I (insert i D) s'" if "?I D s" "i < length es" "i \<notin> D" for D i s
    using restore_step [OF fits deep that(2,3) _ _ B, of s] that(1) by blast
  obtain s2 where s2: "gather restore_entry (rev (enumerate 0 es)) s1 = ([], s2)" "?I {i. i < length es} s2"
    using gather_entries [of ?I s1 es restore_entry, OF start step] by blast
  then have "tree_inv es d0 {} {} (ts_disk s2)" using s2(2) \<open>B - {i. i < length es} = {}\<close> by metis
  then show ?thesis using s1(1) s2(1) by (auto simp: rollbackTreeWithStatus_def tree_inv_def fun_eq_iff)
qed

section \<open>A file that is lost\<close>

text \<open>
  The file \<open>src\<close> is to be replaced by \<open>src/a/b.go\<close>. The last step of the commit fails, the renaming of
  the new file, and no call of the rollback does. The directories \<open>src\<close> and \<open>src/a\<close> are left, \<open>src\<close>
  cannot be removed because it is not empty, and the old file is only in the backup, which
  \<open>ReplaceTree\<close> deletes when it returns.
\<close>

definition ex_deep_plan :: "treeEntry list" where
  "ex_deep_plan =
     [\<lparr>te_path = ''src/a/b.go'', te_operation = ManagedFileCreate, te_content = ''new'', te_mode = 420\<rparr>,
      \<lparr>te_path = ''src'', te_operation = ManagedFileDelete, te_content = [], te_mode = 420\<rparr>]"

definition ex_deep_state :: "bool list \<Rightarrow> tree_state" where
  "ex_deep_state faults = \<lparr>ts_disk = [([], DirNode), ([''src''], FileNode ''old'' 420)],
     ts_stage = [(0, [([], FileNode ''new'' 420)])], ts_backup = [], ts_backed = [], ts_committed = [], ts_faults = faults\<rparr>"

definition ex_late_fault :: "bool list" where
  "ex_late_fault = replicate 10 False @ [True]"

lemma rollback_loses_file:
  "fst (commit_tree ex_deep_plan (ex_deep_state ex_late_fault)) = Some EIO"
  "ts_faults (snd (commit_tree ex_deep_plan (ex_deep_state ex_late_fault))) = []"
  "fst (rollbackTreeWithStatus ex_deep_plan (snd (commit_tree ex_deep_plan (ex_deep_state ex_late_fault)))) = False"
  "file_at (ts_disk (snd (rollbackTreeWithStatus ex_deep_plan (snd (commit_tree ex_deep_plan (ex_deep_state ex_late_fault))))))
     [''src''] = None"
  by code_simp+

end
