(* ===== verification/Ledger_Record.thy ===== *)
theory Ledger_Record
  imports Workspace_Paths
begin

text \<open>
  The ledger of a project's working copy (\<open>src/workspace/ledger.go\<close>): the record, the canonical form
  it is stored in, and the interface \<open>Ledger\<close> with its implementation in memory. Nil and empty
  slices are the same list; a revision is a \<open>uint64\<close>.

  Shown: every stored record is in canonical form, whoever wrote it.
\<close>

section \<open>The record\<close>

type_synonym uint64 = nat

definition uint64_add :: "uint64 \<Rightarrow> uint64 \<Rightarrow> uint64" where
  "uint64_add a b = (a + b) mod 2 ^ 64"

text \<open>For evaluation: binary integers, where naturals would be unary.\<close>

lemma uint64_add_code [code]: "uint64_add a b = nat ((int a + int b) mod 2 ^ 64)"
proof -
  have "int (uint64_add a b) = (int a + int b) mod 2 ^ 64" by (simp add: uint64_add_def zmod_int)
  then show ?thesis by linarith
qed

record SourceChange =
  sc_ThreadID :: string
  sc_RunID :: string
  sc_SourceRevision :: uint64

record SourcePathAttribution =
  spa_Path :: string
  spa_ThreadID :: string
  spa_RunID :: string
  spa_SourceRevision :: uint64

record SourceAttribution =
  sa_ThreadID :: string
  sa_RunID :: string
  sa_Paths :: "string list"

record PendingCommit =
  pc_Name :: string
  pc_RequestID :: string
  pc_RepositoryRef :: string
  pc_RepositoryUID :: string
  pc_BundleRef :: string
  pc_BundleDigest :: string
  pc_Message :: string
  pc_Branch :: string
  pc_WorkspaceDigest :: string
  pc_Paths :: "string list"
  pc_SourceRevision :: uint64
  pc_Attributions :: "SourceAttribution list"
  pc_BlockedReason :: string
  pc_BlockedMessage :: string
  pc_BlockedAt :: "time option"
  pc_RetryToken :: string

record CommitSettlement =
  cs_WorkspaceDigest :: string
  cs_Paths :: "string list"

record LedgerRecord =
  lr_SourceRevision :: uint64
  lr_SourceMutationID :: string
  lr_LastSourceChange :: "SourceChange option"
  lr_LastPreviewCheckpoint :: "SourceChange option"
  lr_SourcePathAttributions :: "SourcePathAttribution list"
  lr_UncommittedPaths :: "string list"
  lr_PendingCommit :: "PendingCommit option"
  lr_Settlement :: "CommitSettlement option"

definition empty_record :: LedgerRecord where
  "empty_record = \<lparr>lr_SourceRevision = 0, lr_SourceMutationID = [], lr_LastSourceChange = None,
     lr_LastPreviewCheckpoint = None, lr_SourcePathAttributions = [], lr_UncommittedPaths = [],
     lr_PendingCommit = None, lr_Settlement = None\<rparr>"

section \<open>Canonical form\<close>

definition normalizeLedgerPaths :: "string list \<Rightarrow> string list" where
  "normalizeLedgerPaths paths = sort (remdups (filter (\<lambda>p. p \<noteq> []) (map TrimSpace paths)))"

definition removeLedgerPaths :: "string list \<Rightarrow> string list \<Rightarrow> string list" where
  "removeLedgerPaths current gone = normalizeLedgerPaths (filter (\<lambda>p. p \<notin> set gone) current)"

text \<open>An owner is known when both of its parts are there.\<close>

definition trim_attribution :: "SourcePathAttribution \<Rightarrow> SourcePathAttribution" where
  "trim_attribution a = (let t = TrimSpace (spa_ThreadID a); r = TrimSpace (spa_RunID a)
     in if t = [] \<or> r = [] then a\<lparr>spa_ThreadID := [], spa_RunID := []\<rparr> else a\<lparr>spa_ThreadID := t, spa_RunID := r\<rparr>)"

text \<open>The loop over the values: those by path, and the paths with two owners.\<close>

definition collect_attribution :: "SourcePathAttribution
    \<Rightarrow> (string, SourcePathAttribution) gomap \<times> string set \<Rightarrow> (string, SourcePathAttribution) gomap \<times> string set" where
  "collect_attribution v = (\<lambda>(byPath, ambiguous). case cleanProjectPath (spa_Path v) of
       Inl e \<Rightarrow> (byPath, ambiguous)
     | Inr path \<Rightarrow>
       (let v = trim_attribution (v\<lparr>spa_Path := path\<rparr>)
        in if path \<in> ambiguous then (byPath, ambiguous)
           else (case gget byPath path of
               Some old \<Rightarrow>
                 if spa_ThreadID old \<noteq> spa_ThreadID v \<or> spa_RunID old \<noteq> spa_RunID v
                 then (gdel path byPath, insert path ambiguous) else (byPath, ambiguous)
             | None \<Rightarrow> (gput path v byPath, ambiguous))))"

text \<open>The values of a map in the order of its sorted keys.\<close>

definition by_sorted_key :: "(string, 'v) gomap \<Rightarrow> 'v list" where
  "by_sorted_key m = map (\<lambda>p. the (gget m p)) (sort (map fst (gentries m)))"

definition normalizeSourcePathAttributions :: "SourcePathAttribution list \<Rightarrow> SourcePathAttribution list" where
  "normalizeSourcePathAttributions values = by_sorted_key (fst (fold collect_attribution values ([], {})))"

definition removeSourcePathAttributions :: "SourcePathAttribution list \<Rightarrow> string list \<Rightarrow> SourcePathAttribution list" where
  "removeSourcePathAttributions current gone =
     normalizeSourcePathAttributions (filter (\<lambda>a. spa_Path a \<notin> set gone) current)"

text \<open>Groups: the owner of every allowed path, and the paths two owners claim.\<close>

type_synonym turn_key = "string \<times> string"

definition group_path :: "string set \<Rightarrow> turn_key \<Rightarrow> string \<Rightarrow> (string, turn_key) gomap \<times> string set
    \<Rightarrow> (string, turn_key) gomap \<times> string set" where
  "group_path allowed key raw = (\<lambda>(ownerByPath, ambiguous). case cleanProjectPath raw of
       Inl e \<Rightarrow> (ownerByPath, ambiguous)
     | Inr path \<Rightarrow>
       if path \<notin> allowed \<or> path \<in> ambiguous then (ownerByPath, ambiguous)
       else (case gget ownerByPath path of
           Some old \<Rightarrow> if old \<noteq> key then (gdel path ownerByPath, insert path ambiguous) else (ownerByPath, ambiguous)
         | None \<Rightarrow> (gput path key ownerByPath, ambiguous)))"

definition group_value :: "string set \<Rightarrow> SourceAttribution \<Rightarrow> (string, turn_key) gomap \<times> string set
    \<Rightarrow> (string, turn_key) gomap \<times> string set" where
  "group_value allowed v s =
     (let key = (TrimSpace (sa_ThreadID v), TrimSpace (sa_RunID v))
      in if fst key = [] \<or> snd key = [] then s else fold (group_path allowed key) (sa_Paths v) s)"

text \<open>The owners in order, each with its paths in order.\<close>

definition owner_groups :: "(string, turn_key) gomap \<Rightarrow> SourceAttribution list" where
  "owner_groups m = map (\<lambda>key. \<lparr>sa_ThreadID = fst key, sa_RunID = snd key,
       sa_Paths = sort (map fst (filter (\<lambda>(p, k). k = key) (gentries m)))\<rparr>)
     (sort (remdups (map snd (gentries m))))"

definition allowed_paths :: "string list \<Rightarrow> string set" where
  "allowed_paths raws = set (List.map_filter (\<lambda>raw. case cleanProjectPath raw of Inl e \<Rightarrow> None | Inr p \<Rightarrow> Some p) raws)"

definition NormalizeSourceAttributions :: "SourceAttribution list \<Rightarrow> string list \<Rightarrow> SourceAttribution list" where
  "NormalizeSourceAttributions values committedPaths =
     owner_groups (fst (fold (group_value (allowed_paths committedPaths)) values ([], {})))"

definition trim_pending :: "PendingCommit \<Rightarrow> PendingCommit" where
  "trim_pending p = p\<lparr>pc_Name := TrimSpace (pc_Name p), pc_RequestID := TrimSpace (pc_RequestID p),
     pc_RepositoryRef := TrimSpace (pc_RepositoryRef p), pc_RepositoryUID := TrimSpace (pc_RepositoryUID p),
     pc_BundleRef := TrimSpace (pc_BundleRef p), pc_BundleDigest := TrimSpace (pc_BundleDigest p),
     pc_Message := TrimSpace (pc_Message p), pc_Branch := TrimSpace (pc_Branch p),
     pc_BlockedReason := TrimSpace (pc_BlockedReason p), pc_BlockedMessage := TrimSpace (pc_BlockedMessage p),
     pc_RetryToken := TrimSpace (pc_RetryToken p)\<rparr>"

definition clear_block :: "PendingCommit \<Rightarrow> PendingCommit" where
  "clear_block p = p\<lparr>pc_BlockedReason := [], pc_BlockedMessage := [], pc_BlockedAt := None\<rparr>"

definition valid_intent :: "PendingCommit \<Rightarrow> bool" where
  "valid_intent p \<longleftrightarrow> pc_RequestID p \<noteq> [] \<and> pc_RepositoryRef p \<noteq> [] \<and> pc_RepositoryUID p \<noteq> []
     \<and> pc_BundleRef p \<noteq> [] \<and> pc_BundleDigest p \<noteq> []"

text \<open>A keyed intent that is malformed is kept, and its blank key with it.\<close>

definition normalize_pending :: "PendingCommit \<Rightarrow> PendingCommit option" where
  "normalize_pending raw =
     (let p = trim_pending raw;
          p = (if pc_BlockedReason p = [] then clear_block p else p);
          p = p\<lparr>pc_Paths := normalizeLedgerPaths (pc_Paths p)\<rparr>;
          p = p\<lparr>pc_Attributions := NormalizeSourceAttributions (pc_Attributions p) (pc_Paths p)\<rparr>;
          keyed = pc_RequestID raw \<noteq> [];
          legacy = \<not> keyed \<and> pc_RequestID p = [] \<and> pc_Name p \<noteq> []
      in if (\<not> legacy \<and> \<not> valid_intent p) \<or> pc_WorkspaceDigest p = [] \<or> pc_Paths p = []
         then (if \<not> keyed then None
               else if pc_RequestID p = [] then Some (p\<lparr>pc_RequestID := pc_RequestID raw\<rparr>) else Some p)
         else Some p)"

definition normalize_settlement :: "CommitSettlement \<Rightarrow> CommitSettlement option" where
  "normalize_settlement s =
     (let s = s\<lparr>cs_Paths := normalizeLedgerPaths (cs_Paths s)\<rparr>
      in if cs_WorkspaceDigest s = [] \<or> cs_Paths s = [] then None else Some s)"

definition NormalizeLedgerRecord :: "LedgerRecord \<Rightarrow> LedgerRecord" where
  "NormalizeLedgerRecord r = r\<lparr>lr_UncommittedPaths := normalizeLedgerPaths (lr_UncommittedPaths r),
     lr_SourcePathAttributions := normalizeSourcePathAttributions (lr_SourcePathAttributions r),
     lr_PendingCommit := Option.bind (lr_PendingCommit r) normalize_pending,
     lr_Settlement := Option.bind (lr_Settlement r) normalize_settlement\<rparr>"

section \<open>The ledger in memory\<close>

datatype ledger_error =
    LedgerGone
  | LedgerCapacity
  | LedgerFailed string
  | PathRejected workspace_error
  | SourceRevisionConflict
  | StaleTree string
  | NoPaths
  | PendingExists
  | PendingChanged
  | PendingInvalid string
  | SettlementInvalid string

type_synonym ledger_mutation = "LedgerRecord \<Rightarrow> ledger_error + bool \<times> LedgerRecord"

type_synonym MemoryLedger = "(string, LedgerRecord) gomap"

definition LedgerKey :: "Scope \<Rightarrow> string" where
  "LedgerKey s = join_slash [OrgUUID s, WorkspaceUUID s, ProjectName s, ProjectUID s]"

definition stored_record :: "MemoryLedger \<Rightarrow> string \<Rightarrow> LedgerRecord" where
  "stored_record l k = (case gget l k of None \<Rightarrow> empty_record | Some r \<Rightarrow> r)"

definition MemoryLedger_Read :: "MemoryLedger \<Rightarrow> Scope \<Rightarrow> LedgerRecord" where
  "MemoryLedger_Read l scope = stored_record l (LedgerKey scope)"

definition MemoryLedger_Update :: "Scope \<Rightarrow> ledger_mutation \<Rightarrow> MemoryLedger \<Rightarrow> (ledger_error + LedgerRecord) \<times> MemoryLedger" where
  "MemoryLedger_Update scope mutate l = (case mutate (stored_record l (LedgerKey scope)) of
       Inl e \<Rightarrow> (Inl e, l)
     | Inr (changed, r) \<Rightarrow>
       if \<not> changed then (Inr (stored_record l (LedgerKey scope)), l)
       else (Inr (NormalizeLedgerRecord r), gput (LedgerKey scope) (NormalizeLedgerRecord r) l))"

definition MemoryLedger_Forget :: "Scope \<Rightarrow> MemoryLedger \<Rightarrow> MemoryLedger" where
  "MemoryLedger_Forget scope l = gdel (LedgerKey scope) l"

section \<open>Canonical paths and attributions\<close>

definition paths_normal :: "string list \<Rightarrow> bool" where
  "paths_normal ps \<longleftrightarrow> sorted ps \<and> distinct ps \<and> (\<forall>p \<in> set ps. p \<noteq> [] \<and> TrimSpace p = p)"

lemma set_normalizeLedgerPaths: "set (normalizeLedgerPaths ps) = TrimSpace ` set ps - {[]}"
  by (auto simp: normalizeLedgerPaths_def)

lemma normalizeLedgerPaths_normal: "paths_normal (normalizeLedgerPaths ps)"
  by (auto simp: paths_normal_def normalizeLedgerPaths_def)

lemma normalizeLedgerPaths_id: "paths_normal ps \<Longrightarrow> normalizeLedgerPaths ps = ps"
proof -
  assume n: "paths_normal ps"
  then have "map TrimSpace ps = ps" "filter (\<lambda>p. p \<noteq> []) ps = ps"
    by (auto simp: paths_normal_def map_idI filter_id_conv)
  with n show ?thesis by (simp add: normalizeLedgerPaths_def paths_normal_def distinct_remdups_id sorted_sort_id)
qed

lemma paths_normal_Nil [simp]: "paths_normal []"
  by (simp add: paths_normal_def)

lemma TrimSpace_Nil [simp]: "TrimSpace [] = []"
  by code_simp

text \<open>The owner of a path is unknown or a turn with both of its parts.\<close>

definition owner_ok :: "SourcePathAttribution \<Rightarrow> bool" where
  "owner_ok a \<longleftrightarrow> spa_ThreadID a = [] \<and> spa_RunID a = []
     \<or> spa_ThreadID a \<noteq> [] \<and> spa_RunID a \<noteq> [] \<and> TrimSpace (spa_ThreadID a) = spa_ThreadID a
       \<and> TrimSpace (spa_RunID a) = spa_RunID a"

definition accepted :: "string \<Rightarrow> bool" where
  "accepted p \<longleftrightarrow> (\<exists>raw. cleanProjectPath raw = Inr p)"

definition attributions_normal :: "SourcePathAttribution list \<Rightarrow> bool" where
  "attributions_normal as \<longleftrightarrow> sorted (map spa_Path as) \<and> distinct (map spa_Path as)
     \<and> (\<forall>a \<in> set as. accepted (spa_Path a) \<and> owner_ok a)"

definition keyed :: "(string, SourcePathAttribution) gomap \<Rightarrow> bool" where
  "keyed m \<longleftrightarrow> (\<forall>p v. gget m p = Some v \<longrightarrow> spa_Path v = p)"

lemma trim_attribution_ok: "owner_ok (trim_attribution a)" "spa_Path (trim_attribution a) = spa_Path a"
  by (auto simp: trim_attribution_def owner_ok_def Let_def)

lemma trim_attribution_id: "owner_ok a \<Longrightarrow> trim_attribution a = a"
  by (auto simp: trim_attribution_def owner_ok_def Let_def)

lemma set_sorted_keys: "set (sort (map fst (gentries m))) = {p. gget m p \<noteq> None}"
  using al.entry_keys [of m] by simp

lemma by_sorted_key_keys:
  assumes "keyed m"
  shows "map spa_Path (by_sorted_key m) = sort (map fst (gentries m))"
proof -
  have "spa_Path (the (gget m p)) = p" if "p \<in> set (sort (map fst (gentries m)))" for p
    using that assms unfolding set_sorted_keys keyed_def by auto
  then show ?thesis unfolding by_sorted_key_def map_map by (intro map_idI) (simp only: comp_apply)
qed

lemma set_by_sorted_key: "set (by_sorted_key m) = {v. \<exists>k. gget m k = Some v}"
  unfolding by_sorted_key_def set_map set_sorted_keys by force

text \<open>Looking a path up.\<close>

definition attribution_at :: "SourcePathAttribution list \<Rightarrow> string \<Rightarrow> SourcePathAttribution option" where
  "attribution_at as p = find (\<lambda>a. spa_Path a = p) as"

lemma attribution_at_iff:
  "distinct (map spa_Path as) \<Longrightarrow> attribution_at as p = Some a \<longleftrightarrow> a \<in> set as \<and> spa_Path a = p"
  unfolding attribution_at_def by (induction as) (auto simp: image_iff)

lemma attribution_at_by_sorted_key:
  assumes "keyed m"
  shows "attribution_at (by_sorted_key m) p = gget m p"
proof -
  have d: "distinct (map spa_Path (by_sorted_key m))"
    using al.entries_distinct [of m] by (simp add: by_sorted_key_keys [OF assms])
  have "attribution_at (by_sorted_key m) p = Some a \<longleftrightarrow> gget m p = Some a" for a
    unfolding attribution_at_iff [OF d] set_by_sorted_key using assms by (auto simp: keyed_def)
  then show ?thesis by (metis not_None_eq)
qed

definition sound_map :: "(string, SourcePathAttribution) gomap \<Rightarrow> bool" where
  "sound_map m \<longleftrightarrow> (\<forall>p v. gget m p = Some v \<longrightarrow> spa_Path v = p \<and> accepted p \<and> owner_ok v)"

lemma collect_attribution_sound:
  assumes m: "sound_map m" and c: "collect_attribution v (m, amb) = (m', amb')"
  shows "sound_map m'"
proof (cases "cleanProjectPath (spa_Path v)")
  case (Inr path)
  let ?v = "trim_attribution (v\<lparr>spa_Path := path\<rparr>)"
  have v: "spa_Path ?v = path" "accepted path" "owner_ok ?v"
    using Inr trim_attribution_ok [of "v\<lparr>spa_Path := path\<rparr>"] by (auto simp: accepted_def)
  have "m' = m \<or> m' = gdel path m \<or> m' = gput path ?v m"
    using c Inr by (auto simp: collect_attribution_def Let_def split: if_splits option.splits)
  then show ?thesis using m v by (auto simp: sound_map_def al.get_put al.get_del split: if_splits)
qed (use assms in \<open>auto simp: collect_attribution_def\<close>)

lemma collect_attributions_sound: "sound_map m \<Longrightarrow> sound_map (fst (fold collect_attribution vs (m, amb)))"
proof (induction vs arbitrary: m amb)
  case (Cons v vs)
  obtain m' amb' where c: "collect_attribution v (m, amb) = (m', amb')" by fastforce
  then show ?case using Cons.IH [OF collect_attribution_sound [OF Cons.prems c]] by (simp add: c)
qed simp

lemma normalizeSourcePathAttributions_normal: "attributions_normal (normalizeSourcePathAttributions vs)"
proof -
  let ?m = "fst (fold collect_attribution vs ([], {}))"
  have inv: "sound_map ?m" by (rule collect_attributions_sound) (simp add: sound_map_def)
  then have k: "keyed ?m" by (simp add: keyed_def sound_map_def)
  show ?thesis
    unfolding attributions_normal_def normalizeSourcePathAttributions_def by_sorted_key_keys [OF k]
    using inv al.entries_distinct [of ?m] by (auto simp: set_by_sorted_key sound_map_def)
qed

text \<open>Values that are in order already keep their lookups.\<close>

definition stable_path :: "string \<Rightarrow> bool" where
  "stable_path p \<longleftrightarrow> cleanProjectPath p = Inr p"

lemma trim_left_suffix: "\<exists>k. trim_left s = drop k s"
proof (induction s rule: trim_left.induct)
  case (1 s)
  show ?case
  proof (cases "space_prefix s = 0")
    case True
    then have "trim_left s = drop 0 s" by (simp add: trim_left.simps)
    then show ?thesis ..
  next
    case False
    with 1 obtain k where "trim_left (drop (space_prefix s) s) = drop k (drop (space_prefix s) s)" by blast
    with False have "trim_left s = drop (k + space_prefix s) s" by (simp add: trim_left.simps [of s])
    then show ?thesis ..
  qed
qed

lemma TrimSpace_part: "\<exists>j k. TrimSpace s = take k (drop j s)"
  unfolding TrimSpace_def using trim_left_suffix [of s] trim_right_prefix [of "trim_left s"] by metis

lemma set_TrimSpace_part: "set (TrimSpace s) \<subseteq> set s"
  using TrimSpace_part [of s] by (metis set_drop_subset set_take_subset subset_trans)

lemma TrimSpace_full: "length s \<le> length (TrimSpace s) \<Longrightarrow> TrimSpace s = s"
proof -
  assume l: "length s \<le> length (TrimSpace s)"
  obtain j k where jk: "TrimSpace s = take k (drop j s)" using TrimSpace_part by blast
  with l have "length s \<le> length s - j" "length s \<le> k" by simp_all
  then show ?thesis using jk by (cases "s = []"; cases j) simp_all
qed

lemma set_join_filter: "set (join_slash (filter P ps)) \<subseteq> set (join_slash ps)"
proof (induction ps rule: join_slash.induct)
  case (3 p q ps)
  then show ?case by (cases "filter P (q # ps)") auto
qed auto

text \<open>A path that is its own clean form has no space at its ends.\<close>

lemma stable_trim:
  assumes "stable_path p"
  shows "TrimSpace p = p" "p \<noteq> []"
proof -
  let ?f = "\<lambda>c. if c = CHR 0x5C then slash else c"
  define s where "s = TrimSpace (map ?f p)"
  have s: "s \<noteq> []" "hd s \<noteq> slash" "check_parts (path_parts s) = None" "path_Clean s = p" "p \<noteq> ''.''" "p \<noteq> []"
    using assms by (auto simp: stable_path_def cleanProjectPath_def s_def [symmetric] HasPrefix_def Let_def hd_conv_nth
        take_Suc_conv_app_nth split: if_splits option.splits)
  let ?ps = "filter (\<lambda>p. p \<noteq> [] \<and> p \<noteq> ''.'') (path_parts s)"
  have joined: "p = join_slash ?ps"
    using path_Clean_parts [OF s(1,2)] s(3,4,5) by (auto simp: check_parts_None Let_def split: if_splits)
  moreover have "length (join_slash ?ps) \<le> length s"
    using length_join_slash [of _ "path_parts s"] by (simp add: path_parts_def join_Split)
  ultimately have "length (map ?f p) \<le> length s" by simp
  then have same: "s = map ?f p" unfolding s_def by (rule TrimSpace_full)
  have "p = map ?f p"
  proof (rule nth_equalityI)
    show "length p = length (map ?f p)" by simp
  next
    have "CHR 0x5C \<notin> set p"
    proof
      assume "CHR 0x5C \<in> set p"
      then have "CHR 0x5C \<in> set (join_slash ?ps)" unfolding joined [symmetric] .
      then have "CHR 0x5C \<in> set (join_slash (path_parts s))" using set_join_filter by blast
      then have "CHR 0x5C \<in> set s" by (simp add: path_parts_def join_Split)
      then show False by (auto simp: same)
    qed
    then have "p ! i \<noteq> CHR 0x5C" if "i < length p" for i using nth_mem [OF that] by metis
    then show "p ! i = map ?f p ! i" if "i < length p" for i using that by simp
  qed
  then have unchanged: "map ?f p = p" by simp
  show "TrimSpace p = p" using same unfolding s_def unchanged .
  show "p \<noteq> []" by (rule s(6))
qed

definition tidy :: "SourcePathAttribution list \<Rightarrow> bool" where
  "tidy as \<longleftrightarrow> distinct (map spa_Path as) \<and> (\<forall>a \<in> set as. stable_path (spa_Path a) \<and> owner_ok a)"

lemma collect_tidy:
  assumes "tidy vs" "\<forall>v \<in> set vs. gget m (spa_Path v) = None \<and> spa_Path v \<notin> amb"
  shows "\<exists>m'. fold collect_attribution vs (m, amb) = (m', amb)
    \<and> (\<forall>p. gget m' p = (case attribution_at vs p of Some a \<Rightarrow> Some a | None \<Rightarrow> gget m p))"
  using assms
proof (induction vs arbitrary: m)
  case Nil
  then show ?case by (simp add: attribution_at_def)
next
  case (Cons v vs)
  have "v\<lparr>spa_Path := spa_Path v\<rparr> = v" by simp
  then have c: "collect_attribution v (m, amb) = (gput (spa_Path v) v m, amb)"
    using Cons.prems by (simp add: collect_attribution_def tidy_def stable_path_def trim_attribution_id Let_def)
  have t: "tidy vs" "spa_Path v \<notin> spa_Path ` set vs" using Cons.prems(1) by (auto simp: tidy_def)
  have "\<forall>w \<in> set vs. gget (gput (spa_Path v) v m) (spa_Path w) = None \<and> spa_Path w \<notin> amb"
    using Cons.prems(2) t(2) by (auto simp: al.get_put image_iff)
  from Cons.IH [OF t(1) this] obtain m' where m': "fold collect_attribution vs (gput (spa_Path v) v m, amb) = (m', amb)"
      "\<forall>p. gget m' p = (case attribution_at vs p of Some a \<Rightarrow> Some a | None \<Rightarrow> gget (gput (spa_Path v) v m) p)"
    by blast
  have "attribution_at vs (spa_Path v) = None"
    using t(2) unfolding attribution_at_def find_None_iff by (metis image_eqI)
  then show ?case using m' by (auto simp: c attribution_at_def al.get_put split: option.split)
qed

lemma attribution_at_normalize:
  assumes "tidy vs"
  shows "attribution_at (normalizeSourcePathAttributions vs) p = attribution_at vs p"
proof -
  obtain m where m: "fold collect_attribution vs ([], {}) = (m, {})"
      "\<forall>p. gget m p = (case attribution_at vs p of Some a \<Rightarrow> Some a | None \<Rightarrow> None)"
    using collect_tidy [OF assms, of "[]" "{}"] unfolding gget_Nil by blast
  have g: "gget m p = attribution_at vs p" for p using m(2) by (simp split: option.split)
  have "keyed m" unfolding keyed_def g attribution_at_def by (auto simp: find_Some_iff)
  then show ?thesis
    by (simp add: normalizeSourcePathAttributions_def m(1) attribution_at_by_sorted_key g)
qed

lemma normalize_tidy:
  assumes "tidy vs"
  shows "tidy (normalizeSourcePathAttributions vs)"
proof -
  have n: "attributions_normal (normalizeSourcePathAttributions vs)" by (rule normalizeSourcePathAttributions_normal)
  then have d: "distinct (map spa_Path (normalizeSourcePathAttributions vs))" by (simp add: attributions_normal_def)
  have "a \<in> set vs" if "a \<in> set (normalizeSourcePathAttributions vs)" for a
    using that attribution_at_iff [OF d, of "spa_Path a" a] attribution_at_normalize [OF assms, of "spa_Path a"]
      attribution_at_iff [of vs "spa_Path a" a] assms by (simp add: tidy_def)
  with assms n show ?thesis by (auto simp: tidy_def attributions_normal_def)
qed

section \<open>Normalising again\<close>

lemma sorted_set_eq:
  fixes xs ys :: "('a::linorder) list"
  shows "sorted xs \<Longrightarrow> distinct xs \<Longrightarrow> sorted ys \<Longrightarrow> distinct ys \<Longrightarrow> set xs = set ys \<Longrightarrow> xs = ys"
  by (simp add: sorted_distinct_set_unique)

lemma normalize_attributions_id:
  assumes "attributions_normal as" "\<forall>a \<in> set as. stable_path (spa_Path a)"
  shows "normalizeSourcePathAttributions as = as"
proof -
  let ?bs = "normalizeSourcePathAttributions as"
  have t: "tidy as" using assms by (simp add: tidy_def attributions_normal_def)
  have n: "attributions_normal ?bs" by (rule normalizeSourcePathAttributions_normal)
  have d: "distinct (map spa_Path ?bs)" "distinct (map spa_Path as)"
    using n assms(1) by (simp_all add: attributions_normal_def)
  have same: "a \<in> set ?bs \<longleftrightarrow> a \<in> set as" for a
    using attribution_at_iff [OF d(1), of "spa_Path a" a] attribution_at_iff [OF d(2), of "spa_Path a" a]
      attribution_at_normalize [OF t] by simp
  then have s: "set ?bs = set as" by blast
  have "map spa_Path ?bs = map spa_Path as"
    using n assms(1) s by (intro sorted_set_eq) (simp_all add: attributions_normal_def)
  moreover have "inj_on spa_Path (set ?bs \<union> set as)" using d(2) s by (simp add: distinct_map)
  ultimately show ?thesis by (rule map_inj_on)
qed

text \<open>The groups depend on the lookups alone.\<close>

lemma set_group_paths: "set (map fst (filter (\<lambda>(p, k). k = key) (gentries m))) = {p. gget m p = Some key}"
  by (force simp: al.entries_get)

lemma distinct_group_paths: "distinct (map fst (filter (\<lambda>(p, k). k = key) (gentries m)))"
  using al.entries_distinct [of m] by (rule distinct_map_filter)

lemma owner_groups_cong:
  assumes "\<And>p. gget m p = gget m' p"
  shows "owner_groups m = owner_groups m'"
proof -
  have k: "sort (remdups (map snd (gentries m))) = sort (remdups (map snd (gentries m')))"
    using al.entry_values [of m] al.entry_values [of m'] assms by (intro sorted_set_eq) simp_all
  have p: "sort (map fst (filter (\<lambda>(p, k). k = key) (gentries m))) = sort (map fst (filter (\<lambda>(p, k). k = key) (gentries m')))" for key
    by (rule sorted_set_eq) (simp_all only: sorted_sort distinct_sort set_sort distinct_group_paths set_group_paths assms)
  show ?thesis unfolding owner_groups_def k p ..
qed

lemma owner_groups_paths:
  assumes "v \<in> set (owner_groups m)"
  shows "set (sa_Paths v) = {p. gget m p = Some (sa_ThreadID v, sa_RunID v)}" "distinct (sa_Paths v)" "sa_Paths v \<noteq> []"
proof -
  obtain key where key: "key \<in> snd ` set (gentries m)" "sa_ThreadID v = fst key" "sa_RunID v = snd key"
      "sa_Paths v = sort (map fst (filter (\<lambda>(p, k). k = key) (gentries m)))"
    using assms by (force simp: owner_groups_def)
  show s: "set (sa_Paths v) = {p. gget m p = Some (sa_ThreadID v, sa_RunID v)}"
    unfolding key(4) set_sort set_group_paths key(2,3) by simp
  show "distinct (sa_Paths v)" unfolding key(4) distinct_sort by (rule distinct_group_paths)
  obtain p where "gget m p = Some key" using key(1) by (auto simp: al.entries_get)
  then have "p \<in> set (sa_Paths v)" unfolding s key(2,3) by simp
  then show "sa_Paths v \<noteq> []" by auto
qed

lemma owner_groups_covers: "gget m p = Some key \<Longrightarrow> \<exists>v \<in> set (owner_groups m). sa_ThreadID v = fst key \<and> sa_RunID v = snd key"
  by (force simp: owner_groups_def al.entries_get [symmetric])

lemma owner_groups_distinct: "distinct (map (\<lambda>v. (sa_ThreadID v, sa_RunID v)) (owner_groups m))"
  by (simp add: owner_groups_def comp_def)

text \<open>Grouping groups whose paths are allowed, stable and disjoint.\<close>

lemma group_paths_tidy:
  assumes "\<forall>p \<in> set ps. stable_path p \<and> p \<in> allowed \<and> gget m p = None" "distinct ps"
  shows "\<exists>m'. fold (group_path allowed key) ps (m, {}) = (m', {})
    \<and> (\<forall>p. gget m' p = (if p \<in> set ps then Some key else gget m p))"
  using assms
proof (induction ps arbitrary: m)
  case (Cons p ps)
  have g: "group_path allowed key p (m, {}) = (gput p key m, {})"
    using Cons.prems(1) by (simp add: group_path_def stable_path_def)
  have "\<forall>q \<in> set ps. stable_path q \<and> q \<in> allowed \<and> gget (gput p key m) q = None"
    using Cons.prems by (auto simp: al.get_put)
  from Cons.IH [OF this] Cons.prems(2) show ?case by (auto simp: g al.get_put)
qed simp

definition groups_tidy :: "string set \<Rightarrow> SourceAttribution list \<Rightarrow> bool" where
  "groups_tidy allowed vs \<longleftrightarrow> (\<forall>v \<in> set vs. sa_ThreadID v \<noteq> [] \<and> sa_RunID v \<noteq> []
      \<and> TrimSpace (sa_ThreadID v) = sa_ThreadID v \<and> TrimSpace (sa_RunID v) = sa_RunID v
      \<and> distinct (sa_Paths v) \<and> (\<forall>p \<in> set (sa_Paths v). stable_path p \<and> p \<in> allowed))"

lemma group_values_tidy:
  assumes "groups_tidy allowed vs" "distinct (map (\<lambda>v. (sa_ThreadID v, sa_RunID v)) vs)"
    and "\<forall>v \<in> set vs. \<forall>p \<in> set (sa_Paths v). f p = Some (sa_ThreadID v, sa_RunID v)"
    and "\<forall>p. gget m p = (if \<exists>v \<in> set vs. p \<in> set (sa_Paths v) then None else f p)"
  shows "\<exists>m'. fold (group_value allowed) vs (m, {}) = (m', {}) \<and> (\<forall>p. gget m' p = f p)"
  using assms
proof (induction vs arbitrary: m)
  case (Cons v vs)
  let ?key = "(sa_ThreadID v, sa_RunID v)"
  have v: "group_value allowed v (m, {}) = fold (group_path allowed ?key) (sa_Paths v) (m, {})"
    using Cons.prems(1) by (simp add: group_value_def groups_tidy_def)
  have "\<forall>p \<in> set (sa_Paths v). stable_path p \<and> p \<in> allowed \<and> gget m p = None" "distinct (sa_Paths v)"
    using Cons.prems(1,4) by (auto simp: groups_tidy_def)
  from group_paths_tidy [OF this, of ?key] obtain m' where m': "fold (group_path allowed ?key) (sa_Paths v) (m, {}) = (m', {})"
      "\<forall>p. gget m' p = (if p \<in> set (sa_Paths v) then Some ?key else gget m p)" by blast
  have away: "p \<notin> set (sa_Paths w)" if "w \<in> set vs" "p \<in> set (sa_Paths v)" for w p
  proof
    assume "p \<in> set (sa_Paths w)"
    then have "f p = Some (sa_ThreadID w, sa_RunID w)" using Cons.prems(3) that(1) by auto
    moreover have "f p = Some ?key" using Cons.prems(3) that(2) by auto
    ultimately have "?key \<in> (\<lambda>v. (sa_ThreadID v, sa_RunID v)) ` set vs" using that(1) by force
    then show False using Cons.prems(2) by auto
  qed
  have "\<forall>p. gget m' p = (if \<exists>w \<in> set vs. p \<in> set (sa_Paths w) then None else f p)"
    using m'(2) Cons.prems(3,4) away by auto
  then show ?case using Cons.IH [of m'] Cons.prems(1-3) by (auto simp: v m'(1) groups_tidy_def)
qed simp

text \<open>What the first pass leaves.\<close>

definition good_key :: "turn_key \<Rightarrow> bool" where
  "good_key key \<longleftrightarrow> fst key \<noteq> [] \<and> snd key \<noteq> [] \<and> TrimSpace (fst key) = fst key \<and> TrimSpace (snd key) = snd key"

definition sound_owners :: "string set \<Rightarrow> (string, turn_key) gomap \<Rightarrow> bool" where
  "sound_owners allowed m \<longleftrightarrow> (\<forall>p key. gget m p = Some key \<longrightarrow> p \<in> allowed \<and> good_key key)"

lemma group_path_sound:
  assumes "sound_owners allowed m" "good_key key"
  shows "sound_owners allowed (fst (group_path allowed key raw (m, amb)))"
proof (cases "cleanProjectPath raw")
  case (Inr p)
  let ?n = "fst (group_path allowed key raw (m, amb))"
  have "?n = m \<or> ?n = gdel p m \<or> (?n = gput p key m \<and> p \<in> allowed)"
    using Inr by (auto simp: group_path_def split: option.splits)
  then show ?thesis using assms unfolding sound_owners_def by (auto simp: al.get_put al.get_del split: if_splits)
qed (use assms in \<open>simp add: group_path_def\<close>)

lemma group_values_sound: "sound_owners allowed (fst s) \<Longrightarrow> sound_owners allowed (fst (fold (group_value allowed) vs s))"
proof (induction vs arbitrary: s)
  case (Cons v vs)
  have paths: "sound_owners allowed (fst (fold (group_path allowed key) ps s))"
    if "sound_owners allowed (fst s)" "good_key key"
    for key ps s
    using that
  proof (induction ps arbitrary: s)
    case (Cons p ps)
    obtain m amb where "s = (m, amb)" by fastforce
    then show ?case using Cons group_path_sound [of allowed m key p amb] by simp
  qed simp
  have "sound_owners allowed (fst (group_value allowed v s))"
    using Cons.prems paths [of s "(TrimSpace (sa_ThreadID v), TrimSpace (sa_RunID v))"]
    by (simp add: group_value_def Let_def good_key_def)
  then show ?case using Cons.IH by simp
qed simp

lemma NormalizeSourceAttributions_again:
  assumes "\<forall>p \<in> allowed_paths paths. stable_path p"
  shows "NormalizeSourceAttributions (NormalizeSourceAttributions vs paths) paths = NormalizeSourceAttributions vs paths"
proof -
  let ?A = "allowed_paths paths"
  let ?m = "fst (fold (group_value ?A) vs ([], {}))"
  have sound: "sound_owners ?A ?m" by (rule group_values_sound) (simp add: sound_owners_def)
  have groups: "groups_tidy ?A (owner_groups ?m)"
    unfolding groups_tidy_def
  proof
    fix v assume v: "v \<in> set (owner_groups ?m)"
    obtain p where "p \<in> set (sa_Paths v)" using owner_groups_paths(3) [OF v] by (cases "sa_Paths v") auto
    then have "gget ?m p = Some (sa_ThreadID v, sa_RunID v)" using owner_groups_paths(1) [OF v] by auto
    then show "sa_ThreadID v \<noteq> [] \<and> sa_RunID v \<noteq> [] \<and> TrimSpace (sa_ThreadID v) = sa_ThreadID v
        \<and> TrimSpace (sa_RunID v) = sa_RunID v \<and> distinct (sa_Paths v) \<and> (\<forall>p \<in> set (sa_Paths v). stable_path p \<and> p \<in> ?A)"
      using sound owner_groups_paths(1,2) [OF v] assms by (auto simp: sound_owners_def good_key_def)
  qed
  have "\<forall>p. gget [] p = (if \<exists>v \<in> set (owner_groups ?m). p \<in> set (sa_Paths v) then None else gget ?m p)"
  proof
    fix p show "gget [] p = (if \<exists>v \<in> set (owner_groups ?m). p \<in> set (sa_Paths v) then None else gget ?m p)"
    proof (cases "gget ?m p")
      case (Some key)
      then obtain v where "v \<in> set (owner_groups ?m)" "sa_ThreadID v = fst key" "sa_RunID v = snd key"
        using owner_groups_covers by blast
      then have "p \<in> set (sa_Paths v)" using owner_groups_paths(1) Some by simp
      then show ?thesis using \<open>v \<in> set (owner_groups ?m)\<close> by auto
    qed simp
  qed
  from group_values_tidy [OF groups owner_groups_distinct _ this] owner_groups_paths(1)
  obtain m' where m': "fold (group_value ?A) (owner_groups ?m) ([], {}) = (m', {})" "\<forall>p. gget m' p = gget ?m p"
    by fastforce
  then have "owner_groups m' = owner_groups ?m" by (intro owner_groups_cong) simp
  then show ?thesis by (simp add: NormalizeSourceAttributions_def m'(1))
qed

section \<open>Canonical records\<close>

definition pending_normal :: "PendingCommit \<Rightarrow> bool" where
  "pending_normal p \<longleftrightarrow> paths_normal (pc_Paths p)
     \<and> (pc_BlockedReason p = [] \<longrightarrow> pc_BlockedMessage p = [] \<and> pc_BlockedAt p = None)
     \<and> TrimSpace (pc_Name p) = pc_Name p
     \<and> (pc_RequestID p = [] \<longrightarrow> pc_Name p \<noteq> [] \<and> pc_WorkspaceDigest p \<noteq> [] \<and> pc_Paths p \<noteq> [])"

definition record_normal :: "LedgerRecord \<Rightarrow> bool" where
  "record_normal r \<longleftrightarrow> paths_normal (lr_UncommittedPaths r) \<and> attributions_normal (lr_SourcePathAttributions r)
     \<and> (\<forall>p. lr_PendingCommit r = Some p \<longrightarrow> pending_normal p)
     \<and> (\<forall>s. lr_Settlement r = Some s \<longrightarrow> paths_normal (cs_Paths s) \<and> cs_Paths s \<noteq> [] \<and> cs_WorkspaceDigest s \<noteq> [])"

lemma normalize_pending_normal: "normalize_pending raw = Some p \<Longrightarrow> pending_normal p"
  by (auto simp: normalize_pending_def pending_normal_def Let_def trim_pending_def clear_block_def valid_intent_def
      normalizeLedgerPaths_normal split: if_splits)

lemma NormalizeLedgerRecord_normal: "record_normal (NormalizeLedgerRecord r)"
  unfolding record_normal_def
proof (intro conjI allI impI)
  fix s assume "lr_Settlement (NormalizeLedgerRecord r) = Some s"
  then show "paths_normal (cs_Paths s)" "cs_Paths s \<noteq> []" "cs_WorkspaceDigest s \<noteq> []"
    by (auto simp: NormalizeLedgerRecord_def bind_eq_Some_conv normalize_settlement_def Let_def
        normalizeLedgerPaths_normal split: if_splits)
qed (auto simp: NormalizeLedgerRecord_def normalizeLedgerPaths_normal
    normalizeSourcePathAttributions_normal bind_eq_Some_conv intro: normalize_pending_normal)

lemma empty_record_normal: "record_normal empty_record"
  by (simp add: record_normal_def empty_record_def attributions_normal_def)

text \<open>The canonical form of a record whose paths are stable is its own.\<close>

lemma allowed_paths_stable: "\<forall>p \<in> set ps. stable_path p \<Longrightarrow> allowed_paths ps = set ps"
  unfolding allowed_paths_def by (induction ps) (auto simp: map_filter_simps stable_path_def)

definition pending_fields :: "PendingCommit \<Rightarrow> PendingCommit" where
  "pending_fields raw =
     (let p = trim_pending raw;
          p = (if pc_BlockedReason p = [] then clear_block p else p);
          p = p\<lparr>pc_Paths := normalizeLedgerPaths (pc_Paths p)\<rparr>
      in p\<lparr>pc_Attributions := NormalizeSourceAttributions (pc_Attributions p) (pc_Paths p)\<rparr>)"

lemma normalize_pending_fields:
  "normalize_pending raw =
     (let p = pending_fields raw;
          keyed = pc_RequestID raw \<noteq> [];
          legacy = \<not> keyed \<and> pc_RequestID p = [] \<and> pc_Name p \<noteq> []
      in if (\<not> legacy \<and> \<not> valid_intent p) \<or> pc_WorkspaceDigest p = [] \<or> pc_Paths p = []
         then (if \<not> keyed then None
               else if pc_RequestID p = [] then Some (p\<lparr>pc_RequestID := pc_RequestID raw\<rparr>) else Some p)
         else Some p)"
  by (simp add: normalize_pending_def pending_fields_def Let_def)

lemma pending_fields_again:
  assumes "\<forall>q \<in> set (pc_Paths (pending_fields raw)). stable_path q"
  shows "pending_fields ((pending_fields raw)\<lparr>pc_RequestID := x\<rparr>) = (pending_fields raw)\<lparr>pc_RequestID := TrimSpace x\<rparr>"
proof -
  let ?ps = "normalizeLedgerPaths (pc_Paths raw)"
  have ps: "normalizeLedgerPaths ?ps = ?ps" by (rule normalizeLedgerPaths_id) (rule normalizeLedgerPaths_normal)
  have "\<forall>q \<in> allowed_paths ?ps. stable_path q"
    using assms allowed_paths_stable [of ?ps]
    by (simp add: pending_fields_def trim_pending_def clear_block_def Let_def split: if_splits)
  note again = NormalizeSourceAttributions_again [OF this]
  show ?thesis
    by (simp add: pending_fields_def trim_pending_def clear_block_def Let_def ps again)
qed

lemma normalize_pending_again:
  assumes "normalize_pending raw = Some p" "\<forall>q \<in> set (pc_Paths p). stable_path q"
  shows "normalize_pending p = Some p"
proof -
  have id: "pc_RequestID (pending_fields raw) = TrimSpace (pc_RequestID raw)"
    by (simp add: pending_fields_def trim_pending_def clear_block_def Let_def)
  have "p = pending_fields raw \<or> p = (pending_fields raw)\<lparr>pc_RequestID := pc_RequestID raw\<rparr>"
    using assms(1) by (auto simp: normalize_pending_fields Let_def split: if_splits)
  then have stable: "\<forall>q \<in> set (pc_Paths (pending_fields raw)). stable_path q" using assms(2) by auto
  note again = pending_fields_again [OF stable]
  have trimmed: "(pending_fields raw)\<lparr>pc_RequestID := TrimSpace (pc_RequestID raw)\<rparr> = pending_fields raw"
    unfolding id [symmetric] by simp
  then have same: "pending_fields (pending_fields raw) = pending_fields raw"
    using again [of "TrimSpace (pc_RequestID raw)"] by simp
  show ?thesis
    using assms(1) again [of "pc_RequestID raw"] same
    by (auto simp: normalize_pending_fields [of raw] normalize_pending_fields [of p] id Let_def valid_intent_def split: if_splits)
qed

definition record_stable :: "LedgerRecord \<Rightarrow> bool" where
  "record_stable r \<longleftrightarrow> (\<forall>a \<in> set (lr_SourcePathAttributions r). stable_path (spa_Path a))
     \<and> (\<forall>p. lr_PendingCommit r = Some p \<longrightarrow> (\<forall>q \<in> set (pc_Paths p). stable_path q))"

definition canonical :: "LedgerRecord \<Rightarrow> bool" where
  "canonical r \<longleftrightarrow> NormalizeLedgerRecord r = r"

lemma empty_record_canonical: "canonical empty_record"
  by code_simp

lemma normalize_settlement_again: "normalize_settlement raw = Some s \<Longrightarrow> normalize_settlement s = Some s"
  by (auto simp: normalize_settlement_def Let_def normalizeLedgerPaths_id normalizeLedgerPaths_normal split: if_splits)

lemma NormalizeLedgerRecord_canonical:
  assumes "record_stable (NormalizeLedgerRecord r)"
  shows "canonical (NormalizeLedgerRecord r)"
proof -
  let ?n = "NormalizeLedgerRecord r"
  have "normalizeLedgerPaths (lr_UncommittedPaths ?n) = lr_UncommittedPaths ?n"
    using NormalizeLedgerRecord_normal [of r] by (simp add: record_normal_def normalizeLedgerPaths_id)
  moreover have "normalizeSourcePathAttributions (lr_SourcePathAttributions ?n) = lr_SourcePathAttributions ?n"
    using NormalizeLedgerRecord_normal [of r] assms
    by (intro normalize_attributions_id) (simp_all add: record_normal_def record_stable_def)
  moreover have "Option.bind (lr_PendingCommit ?n) normalize_pending = lr_PendingCommit ?n"
  proof (cases "lr_PendingCommit ?n")
    case (Some p)
    then obtain raw where "normalize_pending raw = Some p" by (auto simp: NormalizeLedgerRecord_def bind_eq_Some_conv)
    then have "normalize_pending p = Some p" using normalize_pending_again assms Some by (simp add: record_stable_def)
    then show ?thesis unfolding Some by simp
  qed simp
  moreover have "Option.bind (lr_Settlement ?n) normalize_settlement = lr_Settlement ?n"
  proof (cases "lr_Settlement ?n")
    case (Some t)
    then obtain raw where "normalize_settlement raw = Some t" by (auto simp: NormalizeLedgerRecord_def bind_eq_Some_conv)
    then show ?thesis unfolding Some using normalize_settlement_again by simp
  qed simp
  ultimately show ?thesis unfolding canonical_def NormalizeLedgerRecord_def [of ?n] by (simp del: NormalizeLedgerRecord_def)
qed

section \<open>The interface\<close>

text \<open>What the callers of a ledger rely on: an update is read, apply, and write in canonical form.\<close>

locale working_copy_ledger =
  fixes ledger_read :: "'l \<Rightarrow> 's \<Rightarrow> LedgerRecord"
    and ledger_update :: "'s \<Rightarrow> ledger_mutation \<Rightarrow> 'l \<Rightarrow> (ledger_error + LedgerRecord) \<times> 'l"
    and same_copy :: "'s \<Rightarrow> 's \<Rightarrow> bool"
  assumes refused: "mutate (ledger_read l k) = Inl e \<Longrightarrow> ledger_update k mutate l = (Inl e, l)"
    and unchanged: "mutate (ledger_read l k) = Inr (False, r) \<Longrightarrow> ledger_update k mutate l = (Inr (ledger_read l k), l)"
    and written: "mutate (ledger_read l k) = Inr (True, r) \<Longrightarrow> ledger_update k mutate l = (res, l')
      \<Longrightarrow> res = Inr (NormalizeLedgerRecord r)
        \<and> ledger_read l' j = (if same_copy k j then NormalizeLedgerRecord r else ledger_read l j)"
begin

lemma update_result:
  assumes "ledger_update k mutate l = (Inr r, l')" "same_copy k k"
  shows "ledger_read l' k = r"
proof (cases "mutate (ledger_read l k)")
  case (Inl e)
  then show ?thesis using refused [of mutate l k e] assms by simp
next
  case (Inr p)
  then show ?thesis
    using unchanged [of mutate l k "snd p"] written [of mutate l k "snd p" "Inr r" l' k] assms by (cases p; cases "fst p") auto
qed

text \<open>An invariant of records that every mutation in use keeps holds of all of them.\<close>

lemma update_keeps:
  assumes inv: "\<And>j. I (ledger_read l j)" and op: "ledger_update k mutate l = (res, l')"
    and keeps: "\<And>r r'. I r \<Longrightarrow> mutate r = Inr (True, r') \<Longrightarrow> I (NormalizeLedgerRecord r')"
  shows "I (ledger_read l' j)"
proof (cases "mutate (ledger_read l k)")
  case (Inl e)
  then show ?thesis using refused [of mutate l k e] inv op by simp
next
  case (Inr p)
  then show ?thesis
    using unchanged [of mutate l k "snd p"] written [of mutate l k "snd p" res l' j] keeps inv op
    by (cases p; cases "fst p") auto
qed

lemma update_normal:
  assumes "\<And>j. record_normal (ledger_read l j)" "ledger_update k mutate l = (res, l')"
  shows "record_normal (ledger_read l' j)"
  by (rule update_keeps [where I = record_normal, OF assms]) (rule NormalizeLedgerRecord_normal)

end

lemma stored_record_gput: "stored_record (gput k r l) j = (if j = k then r else stored_record l j)"
  by (simp add: stored_record_def al.get_put)

interpretation memory_ledger: working_copy_ledger MemoryLedger_Read MemoryLedger_Update
  "\<lambda>a b. LedgerKey a = LedgerKey b"
  by unfold_locales (auto simp: MemoryLedger_Read_def MemoryLedger_Update_def stored_record_gput)

text \<open>Whatever calls a ledger in memory has seen, its records are in canonical form.\<close>

inductive memory_reachable :: "MemoryLedger \<Rightarrow> bool" where
  empty: "memory_reachable []"
| update: "memory_reachable l \<Longrightarrow> memory_reachable (snd (MemoryLedger_Update scope mutate l))"
| forget: "memory_reachable l \<Longrightarrow> memory_reachable (MemoryLedger_Forget scope l)"

lemma memory_reachable_normal: "memory_reachable l \<Longrightarrow> record_normal (MemoryLedger_Read l scope)"
proof (induction arbitrary: scope rule: memory_reachable.induct)
  case empty
  then show ?case by (simp add: MemoryLedger_Read_def stored_record_def empty_record_normal)
next
  case (update l scope' mutate)
  then show ?case using memory_ledger.update_normal [of l scope' mutate] by (metis surjective_pairing)
next
  case (forget l scope')
  then show ?case
    by (auto simp: MemoryLedger_Read_def MemoryLedger_Forget_def stored_record_def al.get_del empty_record_normal)
qed

lemma memory_reachable_canonical:
  "memory_reachable l \<Longrightarrow> record_stable (MemoryLedger_Read l scope) \<Longrightarrow> canonical (MemoryLedger_Read l scope)"
proof (induction arbitrary: scope rule: memory_reachable.induct)
  case empty
  then show ?case by (simp add: MemoryLedger_Read_def stored_record_def empty_record_canonical)
next
  case (update l scope' mutate)
  show ?case
  proof (cases "mutate (MemoryLedger_Read l scope')")
    case (Inl e)
    then have "snd (MemoryLedger_Update scope' mutate l) = l" using memory_ledger.refused by simp
    then show ?thesis using update by simp
  next
    case (Inr p)
    obtain res l' where u: "MemoryLedger_Update scope' mutate l = (res, l')" by fastforce
    have "MemoryLedger_Read l' scope = MemoryLedger_Read l scope
        \<or> (\<exists>r. MemoryLedger_Read l' scope = NormalizeLedgerRecord r)"
      using memory_ledger.unchanged [of mutate l scope' "snd p"] memory_ledger.written [of mutate l scope' "snd p" res l' scope]
        Inr u by (cases p; cases "fst p") auto
    then show ?thesis using update u NormalizeLedgerRecord_canonical by auto
  qed
next
  case (forget l scope')
  then show ?case
    by (auto simp: MemoryLedger_Read_def MemoryLedger_Forget_def stored_record_def al.get_del empty_record_canonical)
qed

end
