(* ===== verification/Source_Changes.thy ===== *)
theory Source_Changes
  imports Ledger_Record
begin

text \<open>
  Who owns the source of a path that is not committed yet (\<open>src/workspace/source_state.go\<close>): the
  attributions of a ledger record and how a change of some paths by a turn moves them.

  Shown: a change joins its author to the owners of the paths it names and to no others, where
  the owners of a path are those who changed it since it was last committed, or since the
  commit in flight took its snapshot.
\<close>

section \<open>Attributions of a record\<close>

definition by_path :: "SourcePathAttribution list \<Rightarrow> (string, SourcePathAttribution) gomap" where
  "by_path as = fold (\<lambda>a. gput (spa_Path a) a) as []"

definition unknown_at :: "uint64 \<Rightarrow> string \<Rightarrow> SourcePathAttribution" where
  "unknown_at revision p = \<lparr>spa_Path = p, spa_ThreadID = [], spa_RunID = [], spa_SourceRevision = revision\<rparr>"

definition sourcePathAttributionsFor :: "SourcePathAttribution list \<Rightarrow> string list \<Rightarrow> SourcePathAttribution list" where
  "sourcePathAttributionsFor current paths = filter (\<lambda>a. spa_Path a \<in> set paths) current"

definition setUnknownSourcePathAttributions :: "string list \<Rightarrow> uint64 \<Rightarrow> LedgerRecord \<Rightarrow> LedgerRecord" where
  "setUnknownSourcePathAttributions paths revision r = r\<lparr>lr_SourcePathAttributions := normalizeSourcePathAttributions
     (gvalues (fold (\<lambda>p. gput p (unknown_at revision p)) paths (by_path (lr_SourcePathAttributions r))))\<rparr>"

text \<open>Puts back what a reservation set to unknown, where nothing else has changed it.\<close>

definition restore_path :: "uint64 \<Rightarrow> (string, SourcePathAttribution) gomap \<Rightarrow> string
    \<Rightarrow> (string, SourcePathAttribution) gomap \<Rightarrow> (string, SourcePathAttribution) gomap" where
  "restore_path revision previous p m = (case gget m p of
       None \<Rightarrow> m
     | Some a \<Rightarrow>
       if spa_ThreadID a \<noteq> [] \<or> spa_RunID a \<noteq> [] \<or> spa_SourceRevision a \<noteq> revision then m
       else (case gget previous p of None \<Rightarrow> gdel p m | Some old \<Rightarrow> gput p old (gdel p m)))"

definition restoreReservedSourcePathAttributions :: "uint64 \<Rightarrow> string list \<Rightarrow> SourcePathAttribution list
    \<Rightarrow> LedgerRecord \<Rightarrow> LedgerRecord" where
  "restoreReservedSourcePathAttributions revision paths previous r =
     (if paths = [] then r
      else r\<lparr>lr_SourcePathAttributions := normalizeSourcePathAttributions
        (gvalues (fold (restore_path revision (by_path previous)) (remdups paths) (by_path (lr_SourcePathAttributions r))))\<rparr>)"

text \<open>The owners a commit in flight has captured; a path that two groups list has none.\<close>

definition capture_path :: "SourceAttribution \<Rightarrow> string \<Rightarrow> (string, SourceAttribution) gomap \<times> string set
    \<Rightarrow> (string, SourceAttribution) gomap \<times> string set" where
  "capture_path a p = (\<lambda>(owners, ambiguous).
     if p \<in> ambiguous then (owners, ambiguous)
     else if gget owners p \<noteq> None then (gdel p owners, insert p ambiguous)
     else (gput p a owners, ambiguous))"

definition pending_owners :: "PendingCommit \<Rightarrow> (string, SourceAttribution) gomap" where
  "pending_owners pc = fst (fold (\<lambda>a. fold (capture_path a) (sa_Paths a)) (pc_Attributions pc) ([], {}))"

definition captured_known :: "PendingCommit \<Rightarrow> string \<Rightarrow> bool" where
  "captured_known pc p = (case gget (pending_owners pc) p of
       None \<Rightarrow> False
     | Some a \<Rightarrow> sa_ThreadID a \<noteq> [] \<and> sa_RunID a \<noteq> [])"

text \<open>The attribution of one path after a change; the author is trimmed.\<close>

definition trim_origin :: "SourceChange \<Rightarrow> SourceChange" where
  "trim_origin o1 = o1\<lparr>sc_ThreadID := TrimSpace (sc_ThreadID o1), sc_RunID := TrimSpace (sc_RunID o1)\<rparr>"

definition known_origin :: "SourceChange \<Rightarrow> bool" where
  "known_origin o1 \<longleftrightarrow> sc_ThreadID o1 \<noteq> [] \<and> sc_RunID o1 \<noteq> []"

definition same_turn :: "SourcePathAttribution \<Rightarrow> SourceChange \<Rightarrow> bool" where
  "same_turn a o1 \<longleftrightarrow> spa_ThreadID a = sc_ThreadID o1 \<and> spa_RunID a = sc_RunID o1"

definition owned_by :: "SourceChange \<Rightarrow> string \<Rightarrow> SourcePathAttribution" where
  "owned_by o1 p = \<lparr>spa_Path = p, spa_ThreadID = sc_ThreadID o1, spa_RunID = sc_RunID o1,
     spa_SourceRevision = sc_SourceRevision o1\<rparr>"

definition changed_after :: "PendingCommit \<Rightarrow> SourcePathAttribution \<Rightarrow> bool" where
  "changed_after pc a \<longleftrightarrow> 0 < pc_SourceRevision pc \<and> pc_SourceRevision pc < spa_SourceRevision a"

definition next_attribution :: "PendingCommit option \<Rightarrow> string set \<Rightarrow> SourceChange \<Rightarrow> string
    \<Rightarrow> SourcePathAttribution option \<Rightarrow> SourcePathAttribution" where
  "next_attribution pending_commit dirty o1 p previous =
     (let unknown = unknown_at (sc_SourceRevision o1) p;
          keep = (\<lambda>a. a\<lparr>spa_SourceRevision := sc_SourceRevision o1\<rparr>);
          outside = (case previous of
              Some a \<Rightarrow> if known_origin o1 \<and> same_turn a o1 then keep a else unknown
            | None \<Rightarrow> if p \<in> dirty \<or> \<not> known_origin o1 then unknown else owned_by o1 p)
      in case pending_commit of
           None \<Rightarrow> outside
         | Some pc \<Rightarrow>
           if p \<notin> set (pc_Paths pc) then outside
           else (case previous of
               Some a \<Rightarrow>
                 if changed_after pc a
                 then if known_origin o1 \<and> spa_ThreadID a \<noteq> [] \<and> spa_RunID a \<noteq> [] \<and> same_turn a o1
                      then keep a else unknown
                 else if 0 < pc_SourceRevision pc \<and> captured_known pc p \<and> known_origin o1
                      then owned_by o1 p else unknown
             | None \<Rightarrow>
                 if 0 < pc_SourceRevision pc \<and> captured_known pc p \<and> known_origin o1
                 then owned_by o1 p else unknown))"

definition change_path :: "PendingCommit option \<Rightarrow> string set \<Rightarrow> SourceChange \<Rightarrow> string
    \<Rightarrow> (string, SourcePathAttribution) gomap \<Rightarrow> (string, SourcePathAttribution) gomap" where
  "change_path pending_commit dirty o1 raw m = (case cleanProjectPath raw of
       Inl e \<Rightarrow> m
     | Inr p \<Rightarrow> gput p (next_attribution pending_commit dirty o1 p (gget m p)) m)"

definition recordSourcePathChanges :: "string list \<Rightarrow> SourceChange \<Rightarrow> LedgerRecord \<Rightarrow> LedgerRecord" where
  "recordSourcePathChanges paths o1 r =
     (if paths = [] then r
      else r\<lparr>lr_SourcePathAttributions := normalizeSourcePathAttributions
        (gvalues (fold (change_path (lr_PendingCommit r) (set (lr_UncommittedPaths r)) (trim_origin o1)) paths
          (by_path (lr_SourcePathAttributions r))))\<rparr>)"

section \<open>Lookups\<close>

lemma gget_by_path:
  assumes "distinct (map spa_Path as)"
  shows "gget (by_path as) p = attribution_at as p"
proof -
  have "gget (fold (\<lambda>a. gput (spa_Path a) a) as m) p
      = (case attribution_at as p of Some a \<Rightarrow> Some a | None \<Rightarrow> gget m p)" for m
    using assms
  proof (induction as arbitrary: m)
    case (Cons a as)
    have "attribution_at as (spa_Path a) = None"
      using Cons.prems unfolding attribution_at_def find_None_iff by (auto simp: image_iff)
    then show ?case
      using Cons by (cases "p = spa_Path a") (auto simp: attribution_at_def al.get_put split: option.split)
  qed (simp add: attribution_at_def)
  from this [of "[]"] show ?thesis by (simp add: by_path_def split: option.split)
qed

definition tidy_map :: "(string, SourcePathAttribution) gomap \<Rightarrow> bool" where
  "tidy_map m \<longleftrightarrow> (\<forall>p a. gget m p = Some a \<longrightarrow> spa_Path a = p \<and> stable_path p \<and> owner_ok a)"

lemma tidy_map_put: "tidy_map m \<Longrightarrow> spa_Path a = p \<Longrightarrow> stable_path p \<Longrightarrow> owner_ok a \<Longrightarrow> tidy_map (gput p a m)"
  by (auto simp: tidy_map_def al.get_put split: if_splits)

lemma tidy_map_del: "tidy_map m \<Longrightarrow> tidy_map (gdel p m)"
  by (auto simp: tidy_map_def al.get_del split: if_splits)

lemma tidy_by_path: "tidy as \<Longrightarrow> tidy_map (by_path as)"
  by (auto simp: tidy_map_def tidy_def gget_by_path attribution_at_def find_Some_iff)

lemma tidy_values:
  assumes "tidy_map m"
  shows "tidy (gvalues m)" "attribution_at (gvalues m) p = gget m p"
proof -
  have keys: "map spa_Path (gvalues m) = map fst (gentries m)"
    using assms unfolding gvalues_def map_map by (intro map_cong refl) (auto simp: tidy_map_def al.entries_get)
  then have d: "distinct (map spa_Path (gvalues m))" using al.entries_distinct [of m] by simp
  show "tidy (gvalues m)" using assms d by (auto simp: tidy_def gvalues_iff tidy_map_def)
  have "attribution_at (gvalues m) p = Some a \<longleftrightarrow> gget m p = Some a" for a
    unfolding attribution_at_iff [OF d] gvalues_iff using assms by (auto simp: tidy_map_def)
  then show "attribution_at (gvalues m) p = gget m p" by (metis not_None_eq)
qed

text \<open>What is written from a map is read back from the record.\<close>

lemma normalize_map:
  assumes "tidy_map m"
  shows "tidy (normalizeSourcePathAttributions (gvalues m))"
    "attribution_at (normalizeSourcePathAttributions (gvalues m)) p = gget m p"
  using tidy_values [OF assms] normalize_tidy attribution_at_normalize by simp_all

section \<open>Owners\<close>

datatype owner = Nobody | Turn string string | Mixed

definition owner_in :: "SourcePathAttribution \<Rightarrow> owner" where
  "owner_in a = (if spa_ThreadID a = [] \<or> spa_RunID a = [] then Mixed else Turn (spa_ThreadID a) (spa_RunID a))"

text \<open>
  The owner of what changed at a path since it was last committed. A commit in flight opens a new
  window for a path whose owner it has captured.
\<close>

definition owner_of :: "LedgerRecord \<Rightarrow> string \<Rightarrow> owner" where
  "owner_of r p =
     (let current = attribution_at (lr_SourcePathAttributions r) p;
          outside = (case current of
              Some a \<Rightarrow> owner_in a
            | None \<Rightarrow> if p \<in> set (lr_UncommittedPaths r) then Mixed else Nobody)
      in case lr_PendingCommit r of
           None \<Rightarrow> outside
         | Some pc \<Rightarrow>
           if p \<notin> set (pc_Paths pc) then outside
           else (let window = (if 0 < pc_SourceRevision pc \<and> captured_known pc p then Nobody else Mixed)
                 in case current of
                      Some a \<Rightarrow> if changed_after pc a then owner_in a else window
                    | None \<Rightarrow> window))"

definition author :: "SourceChange \<Rightarrow> owner" where
  "author o1 = (if known_origin (trim_origin o1) then Turn (TrimSpace (sc_ThreadID o1)) (TrimSpace (sc_RunID o1)) else Mixed)"

definition joined :: "owner \<Rightarrow> owner \<Rightarrow> owner" where
  "joined o1 o2 = (if o1 = Nobody then o2 else if o1 = o2 then o1 else Mixed)"

lemma joined_again: "joined (joined o1 o2) o2 = joined o1 o2"
  by (auto simp: joined_def)

definition tidy_record :: "LedgerRecord \<Rightarrow> bool" where
  "tidy_record r \<longleftrightarrow> tidy (lr_SourcePathAttributions r)"

lemma next_attribution_tidy:
  assumes "tidy_map m"
  shows "spa_Path (next_attribution pc dirty (trim_origin o1) p (gget m p)) = p"
    "owner_ok (next_attribution pc dirty (trim_origin o1) p (gget m p))"
    "spa_SourceRevision (next_attribution pc dirty (trim_origin o1) p (gget m p)) = sc_SourceRevision o1"
  using assms
  by (auto simp: next_attribution_def Let_def unknown_at_def owned_by_def owner_ok_def tidy_map_def known_origin_def
      trim_origin_def same_turn_def split: option.splits)

text \<open>The owner of a path in a record with other attributions.\<close>

lemma owner_of_update:
  "owner_of (r\<lparr>lr_SourcePathAttributions := as\<rparr>) p =
     (case attribution_at as p of
        Some a \<Rightarrow>
          (case lr_PendingCommit r of
             Some pc \<Rightarrow> if p \<in> set (pc_Paths pc) \<and> \<not> changed_after pc a
               then (if 0 < pc_SourceRevision pc \<and> captured_known pc p then Nobody else Mixed) else owner_in a
           | None \<Rightarrow> owner_in a)
      | None \<Rightarrow> owner_of (r\<lparr>lr_SourcePathAttributions := []\<rparr>) p)"
  by (simp add: owner_of_def Let_def attribution_at_def split: option.split)

text \<open>A change that is newer than the snapshot of the commit in flight.\<close>

definition newer :: "LedgerRecord \<Rightarrow> uint64 \<Rightarrow> bool" where
  "newer r revision \<longleftrightarrow> (\<forall>pc. lr_PendingCommit r = Some pc \<longrightarrow> pc_SourceRevision pc < revision)"

definition owner_at :: "LedgerRecord \<Rightarrow> string \<Rightarrow> SourcePathAttribution option \<Rightarrow> owner" where
  "owner_at r p a = owner_of (r\<lparr>lr_SourcePathAttributions := (case a of None \<Rightarrow> [] | Some a \<Rightarrow> [a\<lparr>spa_Path := p\<rparr>])\<rparr>) p"

lemma owner_of_at: "owner_of r p = owner_at r p (attribution_at (lr_SourcePathAttributions r) p)"
  by (auto simp: owner_at_def owner_of_def Let_def attribution_at_def owner_in_def changed_after_def split: option.split)

lemma owner_after_change:
  assumes "newer r (sc_SourceRevision o1)" "\<forall>a. previous = Some a \<longrightarrow> owner_ok a"
  shows "owner_at r p (Some (next_attribution (lr_PendingCommit r) (set (lr_UncommittedPaths r)) (trim_origin o1) p previous))
    = joined (owner_at r p previous) (author o1)"
proof -
  have rev: "sc_SourceRevision (trim_origin o1) = sc_SourceRevision o1" by (simp add: trim_origin_def)
  show ?thesis
    using assms
    by (cases "lr_PendingCommit r"; cases previous)
      (auto simp: owner_at_def owner_of_def Let_def attribution_at_def owner_in_def changed_after_def newer_def
        next_attribution_def unknown_at_def owned_by_def joined_def author_def same_turn_def known_origin_def
        trim_origin_def owner_ok_def)
qed

section \<open>What a change does\<close>

lemma change_path_stable:
  "stable_path p \<Longrightarrow> change_path pc dirty o1 p m = gput p (next_attribution pc dirty o1 p (gget m p)) m"
  by (simp add: change_path_def stable_path_def)

lemma tidy_map_change:
  "tidy_map m \<Longrightarrow> stable_path p \<Longrightarrow> tidy_map (gput p (next_attribution pc dirty (trim_origin o1) p (gget m p)) m)"
  by (rule tidy_map_put) (simp_all add: next_attribution_tidy)

lemma tidy_changes:
  "tidy_map m \<Longrightarrow> \<forall>p \<in> set paths. stable_path p \<Longrightarrow> tidy_map (fold (change_path pc dirty (trim_origin o1)) paths m)"
proof (induction paths arbitrary: m)
  case (Cons p paths)
  then show ?case using tidy_map_change [of m p] by (simp add: change_path_stable)
qed simp

lemma changed_paths:
  assumes "tidy_map m" "\<forall>p \<in> set paths. stable_path p" "newer r (sc_SourceRevision o1)"
  shows "tidy_map (fold (change_path (lr_PendingCommit r) (set (lr_UncommittedPaths r)) (trim_origin o1)) paths m)"
    and "owner_at r q (gget (fold (change_path (lr_PendingCommit r) (set (lr_UncommittedPaths r)) (trim_origin o1)) paths m) q)
      = (if q \<in> set paths then joined (owner_at r q (gget m q)) (author o1) else owner_at r q (gget m q))"
  using assms(1,2)
proof (induction paths arbitrary: m)
  case (Cons p paths)
  { case (1 m)
    let ?m = "gput p (next_attribution (lr_PendingCommit r) (set (lr_UncommittedPaths r)) (trim_origin o1) p (gget m p)) m"
    from 1 have "tidy_map ?m"  using tidy_map_change by simp
    then show ?case using Cons.IH(1) 1(2) by (simp add: change_path_stable) }
  { case (2 m)
    let ?m = "gput p (next_attribution (lr_PendingCommit r) (set (lr_UncommittedPaths r)) (trim_origin o1) p (gget m p)) m"
    from 2 have t: "tidy_map ?m"  using tidy_map_change by simp
    have ok: "\<forall>a. gget m p = Some a \<longrightarrow> owner_ok a" using 2(1) by (simp add: tidy_map_def)
    have here: "owner_at r p (gget ?m p) = joined (owner_at r p (gget m p)) (author o1)"
      unfolding al.get_put_same by (rule owner_after_change [OF assms(3) ok])
    have there: "gget ?m q = gget m q" if "q \<noteq> p" using that by (simp add: al.get_put)
    show ?case
    proof (cases "q = p")
      case True
      then show ?thesis using Cons.IH(2) [OF t] 2(2) here by (simp add: change_path_stable joined_again del: gget_simps)
    next
      case False
      then show ?thesis using Cons.IH(2) [OF t] 2(2) there by (simp add: change_path_stable del: gget_simps)
    qed }
qed simp_all

lemma attributions_update_same: "lr_SourcePathAttributions r = as \<Longrightarrow> r\<lparr>lr_SourcePathAttributions := as\<rparr> = r"
  by simp

text \<open>A change joins its author to the owners of its paths.\<close>

lemma recordSourcePathChanges_owner:
  assumes tidy: "tidy_record r" and paths: "\<forall>p \<in> set paths. stable_path p" and newer: "newer r (sc_SourceRevision o1)"
  shows "owner_of (recordSourcePathChanges paths o1 r) q
      = (if q \<in> set paths then joined (owner_of r q) (author o1) else owner_of r q)"
    and "tidy_record (recordSourcePathChanges paths o1 r)"
proof -
  let ?m = "by_path (lr_SourcePathAttributions r)"
  let ?n = "fold (change_path (lr_PendingCommit r) (set (lr_UncommittedPaths r)) (trim_origin o1)) paths ?m"
  have m: "tidy_map ?m" using tidy by (simp add: tidy_record_def tidy_by_path)
  have look: "gget ?m q = attribution_at (lr_SourcePathAttributions r) q"
    using tidy by (intro gget_by_path) (simp add: tidy_record_def tidy_def)
  note n = changed_paths [OF m paths newer]
  note read = normalize_map [OF n(1)]
  have "owner_of (r\<lparr>lr_SourcePathAttributions := normalizeSourcePathAttributions (gvalues ?n)\<rparr>) q = owner_at r q (gget ?n q)"
    unfolding owner_of_at by (simp add: read(2) owner_at_def)
  then show "owner_of (recordSourcePathChanges paths o1 r) q
      = (if q \<in> set paths then joined (owner_of r q) (author o1) else owner_of r q)"
    using n(2) [of q] unfolding recordSourcePathChanges_def look owner_of_at [symmetric] by simp
  show "tidy_record (recordSourcePathChanges paths o1 r)"
    using tidy read(1) by (simp add: recordSourcePathChanges_def tidy_record_def)
qed

lemma change_paths_present:
  "\<forall>p \<in> set paths. stable_path p \<Longrightarrow> q \<in> set paths \<or> gget m q \<noteq> None
    \<Longrightarrow> gget (fold (change_path pc dirty o1) paths m) q \<noteq> None"
proof (induction paths arbitrary: m)
  case (Cons p paths)
  have "q \<in> set paths \<or> gget (change_path pc dirty o1 p m) q \<noteq> None"
    using Cons.prems by (auto simp: change_path_stable al.get_put)
  then show ?case using Cons.IH Cons.prems(1) by simp
qed simp

lemma recordSourcePathChanges_present:
  assumes "tidy_record r" "\<forall>p \<in> set paths. stable_path p" "q \<in> set paths"
  shows "attribution_at (lr_SourcePathAttributions (recordSourcePathChanges paths o1 r)) q \<noteq> None"
proof -
  let ?n = "fold (change_path (lr_PendingCommit r) (set (lr_UncommittedPaths r)) (trim_origin o1)) paths
    (by_path (lr_SourcePathAttributions r))"
  have "tidy_map ?n"
    using assms(1,2) by (intro tidy_changes) (simp_all add: tidy_record_def tidy_by_path)
  note read = normalize_map(2) [OF this]
  have "gget ?n q \<noteq> None" using change_paths_present [OF assms(2)] assms(3) by blast
  then show ?thesis using assms(3) by (auto simp: recordSourcePathChanges_def read)
qed

text \<open>The fields it leaves alone.\<close>

lemma recordSourcePathChanges_frame [simp]:
  "lr_SourceRevision (recordSourcePathChanges paths o1 r) = lr_SourceRevision r"
  "lr_SourceMutationID (recordSourcePathChanges paths o1 r) = lr_SourceMutationID r"
  "lr_UncommittedPaths (recordSourcePathChanges paths o1 r) = lr_UncommittedPaths r"
  "lr_PendingCommit (recordSourcePathChanges paths o1 r) = lr_PendingCommit r"
  "lr_Settlement (recordSourcePathChanges paths o1 r) = lr_Settlement r"
  "lr_LastSourceChange (recordSourcePathChanges paths o1 r) = lr_LastSourceChange r"
  by (simp_all add: recordSourcePathChanges_def)

lemma setUnknown_frame [simp]:
  "lr_SourceRevision (setUnknownSourcePathAttributions paths n r) = lr_SourceRevision r"
  "lr_SourceMutationID (setUnknownSourcePathAttributions paths n r) = lr_SourceMutationID r"
  "lr_UncommittedPaths (setUnknownSourcePathAttributions paths n r) = lr_UncommittedPaths r"
  "lr_PendingCommit (setUnknownSourcePathAttributions paths n r) = lr_PendingCommit r"
  "lr_Settlement (setUnknownSourcePathAttributions paths n r) = lr_Settlement r"
  "lr_LastSourceChange (setUnknownSourcePathAttributions paths n r) = lr_LastSourceChange r"
  by (simp_all add: setUnknownSourcePathAttributions_def)

lemma restoreReserved_frame [simp]:
  "lr_SourceRevision (restoreReservedSourcePathAttributions n paths old r) = lr_SourceRevision r"
  "lr_SourceMutationID (restoreReservedSourcePathAttributions n paths old r) = lr_SourceMutationID r"
  "lr_UncommittedPaths (restoreReservedSourcePathAttributions n paths old r) = lr_UncommittedPaths r"
  "lr_PendingCommit (restoreReservedSourcePathAttributions n paths old r) = lr_PendingCommit r"
  "lr_Settlement (restoreReservedSourcePathAttributions n paths old r) = lr_Settlement r"
  by (simp_all add: restoreReservedSourcePathAttributions_def)

text \<open>A reservation makes its paths unknown; nothing else changes.\<close>

lemma gget_unknown:
  "gget (fold (\<lambda>p. gput p (unknown_at n p)) paths m) q = (if q \<in> set paths then Some (unknown_at n q) else gget m q)"
  by (induction paths arbitrary: m) (auto simp: al.get_put)

lemma tidy_unknown:
  "tidy_map m \<Longrightarrow> \<forall>p \<in> set paths. stable_path p \<Longrightarrow> tidy_map (fold (\<lambda>p. gput p (unknown_at n p)) paths m)"
proof (induction paths arbitrary: m)
  case (Cons p paths)
  have "tidy_map (gput p (unknown_at n p) m)"
    using Cons.prems by (intro tidy_map_put) (simp_all add: unknown_at_def owner_ok_def)
  then show ?case using Cons by simp
qed simp

lemma setUnknown_lookup:
  assumes "tidy_record r" "\<forall>p \<in> set paths. stable_path p"
  shows "attribution_at (lr_SourcePathAttributions (setUnknownSourcePathAttributions paths n r)) q
      = (if q \<in> set paths then Some (unknown_at n q) else attribution_at (lr_SourcePathAttributions r) q)"
    and "tidy_record (setUnknownSourcePathAttributions paths n r)"
proof -
  let ?m = "fold (\<lambda>p. gput p (unknown_at n p)) paths (by_path (lr_SourcePathAttributions r))"
  have m: "tidy_map ?m" using assms by (intro tidy_unknown) (simp_all add: tidy_record_def tidy_by_path)
  have look: "gget (by_path (lr_SourcePathAttributions r)) q = attribution_at (lr_SourcePathAttributions r) q"
    using assms(1) by (intro gget_by_path) (simp add: tidy_record_def tidy_def)
  show "attribution_at (lr_SourcePathAttributions (setUnknownSourcePathAttributions paths n r)) q
      = (if q \<in> set paths then Some (unknown_at n q) else attribution_at (lr_SourcePathAttributions r) q)"
    by (simp add: setUnknownSourcePathAttributions_def normalize_map(2) [OF m] gget_unknown look)
  show "tidy_record (setUnknownSourcePathAttributions paths n r)"
    by (simp add: setUnknownSourcePathAttributions_def tidy_record_def normalize_map(1) [OF m])
qed

lemma setUnknown_owner:
  assumes "tidy_record r" "\<forall>p \<in> set paths. stable_path p" "newer r n"
  shows "owner_of (setUnknownSourcePathAttributions paths n r) q = (if q \<in> set paths then Mixed else owner_of r q)"
proof -
  let ?r = "setUnknownSourcePathAttributions paths n r"
  have "owner_of ?r q = owner_at ?r q (if q \<in> set paths then Some (unknown_at n q) else attribution_at (lr_SourcePathAttributions r) q)"
    unfolding owner_of_at setUnknown_lookup(1) [OF assms(1,2)] ..
  moreover have "owner_at ?r q a = owner_at r q a" for a by (simp add: owner_at_def owner_of_def)
  moreover have "owner_at r q (Some (unknown_at n q)) = Mixed"
    using assms(3) by (auto simp: owner_at_def owner_of_def Let_def attribution_at_def owner_in_def changed_after_def
        newer_def unknown_at_def split: option.split)
  ultimately show ?thesis by (simp add: owner_of_at)
qed

text \<open>Undoing a reservation.\<close>

lemma gget_restore:
  assumes "distinct paths"
  shows "gget (fold (restore_path n previous) paths m) q = (if q \<in> set paths then gget (restore_path n previous q m) q else gget m q)"
  using assms
proof (induction paths arbitrary: m)
  case (Cons p paths)
  have other: "gget (restore_path n previous p m) q = gget m q" if "q \<noteq> p"
    using that by (auto simp: restore_path_def al.get_put al.get_del split: option.split)
  have cong: "gget (restore_path n previous q m') q = gget (restore_path n previous q m) q" if "gget m' q = gget m q" for m'
    using that by (auto simp: restore_path_def al.get_put al.get_del split: option.split)
  show ?case
    using Cons other cong [of "restore_path n previous p m"] by auto
qed simp

lemma tidy_restore:
  assumes "tidy_map m" "tidy_map previous"
  shows "tidy_map (fold (restore_path n previous) paths m)"
  using assms(1)
proof (induction paths arbitrary: m)
  case (Cons p paths)
  have "tidy_map (restore_path n previous p m)"
    using Cons.prems assms(2)
    by (auto simp: restore_path_def tidy_map_def al.get_put al.get_del split: option.splits if_splits)
  then show ?case using Cons.IH by simp
qed simp

lemma tidy_for: "tidy as \<Longrightarrow> tidy (sourcePathAttributionsFor as paths)"
  by (auto simp: tidy_def sourcePathAttributionsFor_def distinct_map_filter)

lemma attribution_at_for:
  "tidy as \<Longrightarrow> attribution_at (sourcePathAttributionsFor as paths) q = (if q \<in> set paths then attribution_at as q else None)"
  unfolding attribution_at_def sourcePathAttributionsFor_def
  by (induction as) (auto simp: tidy_def find_None_iff)

lemma restoreReserved_lookup:
  assumes "tidy_record r" "tidy old"
  shows "attribution_at (lr_SourcePathAttributions (restoreReservedSourcePathAttributions n paths old r)) q
      = (if q \<in> set paths then
           (case attribution_at (lr_SourcePathAttributions r) q of
              None \<Rightarrow> None
            | Some a \<Rightarrow> if spa_ThreadID a \<noteq> [] \<or> spa_RunID a \<noteq> [] \<or> spa_SourceRevision a \<noteq> n then Some a else attribution_at old q)
         else attribution_at (lr_SourcePathAttributions r) q)"
    and "tidy_record (restoreReservedSourcePathAttributions n paths old r)"
proof -
  let ?m = "fold (restore_path n (by_path old)) (remdups paths) (by_path (lr_SourcePathAttributions r))"
  have d: "distinct (map spa_Path (lr_SourcePathAttributions r))" "distinct (map spa_Path old)"
    using assms by (auto simp: tidy_record_def tidy_def)
  have m: "tidy_map ?m" using assms by (intro tidy_restore tidy_by_path) (simp_all add: tidy_record_def)
  show "attribution_at (lr_SourcePathAttributions (restoreReservedSourcePathAttributions n paths old r)) q
      = (if q \<in> set paths then
           (case attribution_at (lr_SourcePathAttributions r) q of
              None \<Rightarrow> None
            | Some a \<Rightarrow> if spa_ThreadID a \<noteq> [] \<or> spa_RunID a \<noteq> [] \<or> spa_SourceRevision a \<noteq> n then Some a else attribution_at old q)
         else attribution_at (lr_SourcePathAttributions r) q)"
    by (auto simp: restoreReservedSourcePathAttributions_def normalize_map(2) [OF m] gget_restore restore_path_def
        gget_by_path [OF d(1)] gget_by_path [OF d(2)] al.get_put al.get_del split: option.split)
  show "tidy_record (restoreReservedSourcePathAttributions n paths old r)"
    using assms(1) by (simp add: restoreReservedSourcePathAttributions_def tidy_record_def normalize_map(1) [OF m])
qed

text \<open>A reservation that is undone leaves every owner as it was.\<close>

lemma restore_after_reserve:
  assumes "tidy_record r" "\<forall>p \<in> set paths. stable_path p"
  shows "attribution_at (lr_SourcePathAttributions (restoreReservedSourcePathAttributions n paths
      (sourcePathAttributionsFor (lr_SourcePathAttributions r) paths) (setUnknownSourcePathAttributions paths n r))) q
    = attribution_at (lr_SourcePathAttributions r) q"
proof -
  have t: "tidy (lr_SourcePathAttributions r)" using assms(1) by (simp add: tidy_record_def)
  show ?thesis
    unfolding restoreReserved_lookup(1) [OF setUnknown_lookup(2) [OF assms] tidy_for [OF t]] setUnknown_lookup(1) [OF assms]
      attribution_at_for [OF t]
    by (simp add: unknown_at_def)
qed

end
