(* ===== verification/Source_Revision.thy ===== *)
theory Source_Revision
  imports Source_Changes
begin

text \<open>
  The revision of a working copy (\<open>src/workspace/source_state.go\<close>, \<open>src/workspace/tree_revision.go\<close>):
  reserving it before bytes change, completing or failing the change, and the tag that says which
  revision the bytes of this replica are at. What the outside decides about a call is a
  \<open>call_env\<close>: an error before the ledger is asked, what becomes of the ledger's write, whether the
  ledger can be read while the call recovers, and whether the tag can be written.
\<close>

section \<open>Calls of the ledger\<close>

text \<open>
  A write that is rejected may have run the callback on an older record; a write whose response is
  lost has taken place.
\<close>

datatype ledger_outcome =
    Persisted
  | ReadFailed ledger_error
  | Rejected LedgerRecord ledger_error
  | ResponseLost ledger_error

record call_env =
  ce_early :: "ledger_error option"
  ce_outcome :: ledger_outcome
  ce_confirms :: bool
  ce_tags :: bool
  ce_mkdir :: bool

definition ledger_Update :: "ledger_outcome \<Rightarrow> ledger_mutation \<Rightarrow> LedgerRecord \<Rightarrow> (ledger_error + LedgerRecord) \<times> LedgerRecord" where
  "ledger_Update outcome mutate r = (case outcome of
       ReadFailed e \<Rightarrow> (Inl e, r)
     | Rejected r0 e \<Rightarrow> (case mutate r0 of Inl e0 \<Rightarrow> (Inl e0, r) | Inr _ \<Rightarrow> (Inl e, r))
     | _ \<Rightarrow>
       (case mutate r of
          Inl e \<Rightarrow> (Inl e, r)
        | Inr (changed, r') \<Rightarrow>
          if \<not> changed then (Inr r, r)
          else (case outcome of
              ResponseLost e \<Rightarrow> (Inl e, NormalizeLedgerRecord r')
            | _ \<Rightarrow> (Inr (NormalizeLedgerRecord r'), NormalizeLedgerRecord r'))))"

text \<open>The record the callback saw last.\<close>

definition seen_record :: "ledger_outcome \<Rightarrow> LedgerRecord \<Rightarrow> LedgerRecord option" where
  "seen_record outcome r = (case outcome of ReadFailed e \<Rightarrow> None | Rejected r0 e \<Rightarrow> Some r0 | _ \<Rightarrow> Some r)"

section \<open>Revisions\<close>

definition current_revision :: "LedgerRecord \<Rightarrow> uint64" where
  "current_revision r = (if lr_SourceRevision r = 0 then 1 else lr_SourceRevision r)"

definition sourceRevision :: "ledger_error option \<Rightarrow> LedgerRecord \<Rightarrow> ledger_error + uint64" where
  "sourceRevision failed r = (case failed of Some e \<Rightarrow> Inl e | None \<Rightarrow> Inr (current_revision r))"

definition VerifySourceRevision :: "ledger_error option \<Rightarrow> uint64 \<Rightarrow> LedgerRecord \<Rightarrow> ledger_error option" where
  "VerifySourceRevision failed expected r = (case sourceRevision failed r of
       Inl e \<Rightarrow> Some e
     | Inr n \<Rightarrow> if n \<noteq> expected then Some SourceRevisionConflict else None)"

text \<open>One replica's copy: the shared ledger, its own tag, and whether its directory is there.\<close>

record working_copy =
  wc_ledger :: LedgerRecord
  wc_tag :: uint64
  wc_tree :: bool

definition tagLocalTree :: "bool \<Rightarrow> uint64 \<Rightarrow> working_copy \<Rightarrow> working_copy" where
  "tagLocalTree works revision w = (if revision = 0 \<or> \<not> works then w else w\<lparr>wc_tag := revision\<rparr>)"

definition RetainsSource :: "working_copy \<Rightarrow> bool" where
  "RetainsSource w \<longleftrightarrow> wc_tree w \<and> current_revision (wc_ledger w) \<le> wc_tag w"

section \<open>Mutations\<close>

record sourceMutation =
  sm_id :: string
  sm_revision :: uint64
  sm_paths :: "string list"
  sm_previousAttributions :: "SourcePathAttribution list"
  sm_localTreeWasCurrent :: bool

text \<open>The paths in canonical form, each once.\<close>

fun clean_unique :: "string list \<Rightarrow> string list \<Rightarrow> workspace_error + string list" where
  "clean_unique out [] = Inr out"
| "clean_unique out (raw # rest) = (case cleanProjectPath raw of
       Inl e \<Rightarrow> Inl e
     | Inr p \<Rightarrow> clean_unique (if p \<in> set out then out else out @ [p]) rest)"

fun clean_all :: "string list \<Rightarrow> workspace_error + string list" where
  "clean_all [] = Inr []"
| "clean_all (raw # rest) = (case cleanProjectPath raw of
       Inl e \<Rightarrow> Inl e
     | Inr p \<Rightarrow> (case clean_all rest of Inl e \<Rightarrow> Inl e | Inr ps \<Rightarrow> Inr (p # ps)))"

text \<open>Whether this replica may edit: its bytes are at the current revision, or nothing was ever written.\<close>

definition pristine :: "uint64 \<Rightarrow> LedgerRecord \<Rightarrow> bool" where
  "pristine tag r \<longleftrightarrow> lr_SourceRevision r = 0 \<and> tag = 0"

definition tree_is_current :: "uint64 \<Rightarrow> bool \<Rightarrow> LedgerRecord \<Rightarrow> bool" where
  "tree_is_current tag tree r \<longleftrightarrow> tree \<and> tag = current_revision r \<or> pristine tag r"

definition reserve :: "string \<Rightarrow> string list \<Rightarrow> uint64 \<Rightarrow> bool \<Rightarrow> ledger_mutation" where
  "reserve uid paths tag tree r =
     (if \<not> tree_is_current tag tree r then Inl (StaleTree (hd paths))
      else let n = uint64_add (current_revision r) 1
        in Inr (True, setUnknownSourcePathAttributions paths n
             (r\<lparr>lr_SourceRevision := n, lr_SourceMutationID := uid, lr_LastSourceChange := Some \<lparr>sc_ThreadID = [],
               sc_RunID = [], sc_SourceRevision = n\<rparr>\<rparr>)))"

text \<open>What the callback leaves behind in the caller.\<close>

definition reservation :: "string \<Rightarrow> string list \<Rightarrow> uint64 \<Rightarrow> bool \<Rightarrow> LedgerRecord option \<Rightarrow> sourceMutation" where
  "reservation uid paths tag tree seen = (case seen of
       Some r \<Rightarrow>
         if tree_is_current tag tree r
         then \<lparr>sm_id = uid, sm_revision = uint64_add (current_revision r) 1, sm_paths = paths,
           sm_previousAttributions = sourcePathAttributionsFor (lr_SourcePathAttributions r) paths,
           sm_localTreeWasCurrent = True\<rparr>
         else \<lparr>sm_id = uid, sm_revision = 0, sm_paths = paths, sm_previousAttributions = [], sm_localTreeWasCurrent = False\<rparr>
     | None \<Rightarrow> \<lparr>sm_id = uid, sm_revision = 0, sm_paths = paths, sm_previousAttributions = [], sm_localTreeWasCurrent = False\<rparr>)"

text \<open>Whether a read during recovery shows that this mutation's write took place.\<close>

definition readSourceMutation :: "bool \<Rightarrow> uint64 \<Rightarrow> string \<Rightarrow> LedgerRecord \<Rightarrow> LedgerRecord option" where
  "readSourceMutation confirms revision uid r =
     (if confirms \<and> lr_SourceRevision r = revision \<and> lr_SourceMutationID r = uid then Some r else None)"

definition sourceMutationFailureRecorded :: "LedgerRecord \<Rightarrow> uint64 \<Rightarrow> string \<Rightarrow> string list \<Rightarrow> bool" where
  "sourceMutationFailureRecorded r revision uid paths \<longleftrightarrow>
     lr_SourceRevision r = revision \<and> lr_SourceMutationID r = uid
     \<and> (case lr_LastSourceChange r of
          None \<Rightarrow> False
        | Some c \<Rightarrow> sc_SourceRevision c = revision \<and> sc_ThreadID c = [] \<and> sc_RunID c = [])
     \<and> (\<forall>p \<in> set paths. case gget (by_path (lr_SourcePathAttributions r)) p of
          None \<Rightarrow> False
        | Some a \<Rightarrow> spa_SourceRevision a = revision \<and> spa_ThreadID a = [] \<and> spa_RunID a = [])"

definition beginSourceMutation :: "call_env \<Rightarrow> string \<Rightarrow> string list \<Rightarrow> working_copy
    \<Rightarrow> (ledger_error + sourceMutation) \<times> working_copy" where
  "beginSourceMutation env uid raws w = (case ce_early env of
       Some e \<Rightarrow> (Inl e, w)
     | None \<Rightarrow> (case clean_unique [] raws of
         Inl e \<Rightarrow> (Inl (PathRejected e), w)
       | Inr paths \<Rightarrow>
         if paths = [] then (Inl NoPaths, w)
         else (let m = reservation uid paths (wc_tag w) (wc_tree w) (seen_record (ce_outcome env) (wc_ledger w))
           in case ledger_Update (ce_outcome env) (reserve uid paths (wc_tag w) (wc_tree w)) (wc_ledger w) of
             (Inr r, l) \<Rightarrow>
               if sm_revision m = 0 then (Inl (LedgerFailed ''reserve''), w\<lparr>wc_ledger := l\<rparr>)
               else (Inr m, w\<lparr>wc_ledger := l\<rparr>)
           | (Inl e, l) \<Rightarrow>
               (Inl e,
                if e \<noteq> LedgerCapacity \<and> 0 < sm_revision m \<and> sm_localTreeWasCurrent m
                  \<and> (case readSourceMutation (ce_confirms env) (sm_revision m) uid l of
                       None \<Rightarrow> False
                     | Some r \<Rightarrow> sourceMutationFailureRecorded r (sm_revision m) uid paths)
                then tagLocalTree (ce_tags env) (sm_revision m) (w\<lparr>wc_ledger := l\<rparr>)
                else w\<lparr>wc_ledger := l\<rparr>))))"

text \<open>A mutation speaks for the record only while its reservation is the latest.\<close>

definition holds_revision :: "uint64 \<Rightarrow> string \<Rightarrow> LedgerRecord \<Rightarrow> bool" where
  "holds_revision revision uid r \<longleftrightarrow> current_revision r = revision \<and> lr_SourceMutationID r = uid"

definition finish :: "sourceMutation \<Rightarrow> SourceChange \<Rightarrow> ledger_mutation" where
  "finish m origin r =
     (if \<not> holds_revision (sm_revision m) (sm_id m) r then Inl SourceRevisionConflict
      else let origin = origin\<lparr>sc_SourceRevision := sm_revision m\<rparr>;
               r = restoreReservedSourcePathAttributions (sm_revision m) (sm_paths m) (sm_previousAttributions m) r;
               r = r\<lparr>lr_LastSourceChange := Some origin\<rparr>
           in Inr (True, recordSourcePathChanges (sm_paths m) origin r))"

definition completeSourceMutation :: "call_env \<Rightarrow> SourceChange \<Rightarrow> sourceMutation \<Rightarrow> working_copy
    \<Rightarrow> ledger_error option \<times> working_copy" where
  "completeSourceMutation env origin m w = (case ce_early env of
       Some e \<Rightarrow> (Some e, w)
     | None \<Rightarrow> (case ledger_Update (ce_outcome env) (finish m origin) (wc_ledger w) of
         (Inl e, l) \<Rightarrow> (Some e, w\<lparr>wc_ledger := l\<rparr>)
       | (Inr r, l) \<Rightarrow>
         (None, if sm_localTreeWasCurrent m \<and> lr_SourceRevision r = sm_revision m
            then tagLocalTree (ce_tags env) (sm_revision m) (w\<lparr>wc_ledger := l\<rparr>) else w\<lparr>wc_ledger := l\<rparr>)))"

definition abandon :: "sourceMutation \<Rightarrow> ledger_mutation" where
  "abandon m r =
     (if \<not> holds_revision (sm_revision m) (sm_id m) r then Inl SourceRevisionConflict
      else Inr (True, setUnknownSourcePathAttributions (sm_paths m) (sm_revision m)
        (r\<lparr>lr_LastSourceChange := Some \<lparr>sc_ThreadID = [], sc_RunID = [], sc_SourceRevision = sm_revision m\<rparr>\<rparr>)))"

text \<open>The tag comes back only when the caller has proved that the old bytes are back.\<close>

definition restore_tag :: "call_env \<Rightarrow> sourceMutation \<Rightarrow> bool \<Rightarrow> LedgerRecord \<Rightarrow> working_copy
    \<Rightarrow> ledger_error option \<times> working_copy" where
  "restore_tag env m treeRestored r w =
     (if \<not> treeRestored \<or> \<not> sm_localTreeWasCurrent m \<or> lr_SourceRevision r \<noteq> sm_revision m then (None, w)
      else if \<not> ce_mkdir env then (Some (LedgerFailed ''mkdir''), w)
      else (None, tagLocalTree (ce_tags env) (sm_revision m) (w\<lparr>wc_tree := True\<rparr>)))"

definition failSourceMutation :: "call_env \<Rightarrow> sourceMutation option \<Rightarrow> bool \<Rightarrow> working_copy
    \<Rightarrow> ledger_error option \<times> working_copy" where
  "failSourceMutation env mutation treeRestored w = (case mutation of
       None \<Rightarrow> (None, w)
     | Some m \<Rightarrow> (case ce_early env of
         Some e \<Rightarrow> (Some e, w)
       | None \<Rightarrow> (case ledger_Update (ce_outcome env) (abandon m) (wc_ledger w) of
           (Inr r, l) \<Rightarrow> restore_tag env m treeRestored r (w\<lparr>wc_ledger := l\<rparr>)
         | (Inl e, l) \<Rightarrow>
           if e = LedgerCapacity \<or> e = SourceRevisionConflict then (Some e, w\<lparr>wc_ledger := l\<rparr>)
           else (case readSourceMutation (ce_confirms env) (sm_revision m) (sm_id m) l of
               None \<Rightarrow> (Some e, w\<lparr>wc_ledger := l\<rparr>)
             | Some r \<Rightarrow>
               if sourceMutationFailureRecorded r (sm_revision m) (sm_id m) (sm_paths m)
               then restore_tag env m treeRestored r (w\<lparr>wc_ledger := l\<rparr>)
               else (Some e, w\<lparr>wc_ledger := l\<rparr>)))))"

section \<open>Replacing the whole tree\<close>

record sourceTreeMutation =
  tm_id :: string
  tm_revision :: uint64
  tm_paths :: "string list"
  tm_callbackRejected :: bool

definition no_tree_mutation :: sourceTreeMutation where
  "no_tree_mutation = \<lparr>tm_id = [], tm_revision = 0, tm_paths = [], tm_callbackRejected = False\<rparr>"

definition advance :: "string \<Rightarrow> uint64 option \<Rightarrow> string list \<Rightarrow> bool \<Rightarrow> SourceChange \<Rightarrow> ledger_mutation" where
  "advance uid expected paths committed origin r =
     (if expected \<noteq> None \<and> expected \<noteq> Some (current_revision r) then Inl SourceRevisionConflict
      else let n = uint64_add (current_revision r) 1;
               origin = origin\<lparr>sc_SourceRevision := n\<rparr>;
               r = r\<lparr>lr_SourceRevision := n, lr_SourceMutationID := uid, lr_LastSourceChange := Some origin\<rparr>
           in Inr (True,
             if committed
             then r\<lparr>lr_UncommittedPaths := removeLedgerPaths (lr_UncommittedPaths r) paths,
               lr_SourcePathAttributions := removeSourcePathAttributions (lr_SourcePathAttributions r) paths\<rparr>
             else (let r = recordSourcePathChanges paths origin r
               in r\<lparr>lr_UncommittedPaths := normalizeLedgerPaths (lr_UncommittedPaths r @ paths)\<rparr>)))"

definition advance_reserves :: "uint64 option \<Rightarrow> LedgerRecord option \<Rightarrow> uint64" where
  "advance_reserves expected seen = (case seen of
       None \<Rightarrow> 0
     | Some r \<Rightarrow>
       if expected \<noteq> None \<and> expected \<noteq> Some (current_revision r) then 0 else uint64_add (current_revision r) 1)"

definition advanceAndRecord :: "call_env \<Rightarrow> string \<Rightarrow> uint64 option \<Rightarrow> string list \<Rightarrow> bool \<Rightarrow> SourceChange \<Rightarrow> working_copy
    \<Rightarrow> (ledger_error option \<times> sourceTreeMutation) \<times> working_copy" where
  "advanceAndRecord env uid expected raws committed origin w = (case ce_early env of
       Some e \<Rightarrow> ((Some e, no_tree_mutation), w)
     | None \<Rightarrow> (case clean_all raws of
         Inl e \<Rightarrow> ((Some (PathRejected e), no_tree_mutation), w)
       | Inr paths \<Rightarrow>
         (let seen = seen_record (ce_outcome env) (wc_ledger w);
              n = advance_reserves expected seen;
              m = \<lparr>tm_id = uid, tm_revision = n, tm_paths = paths, tm_callbackRejected = (seen \<noteq> None \<and> n = 0)\<rparr>
          in case ledger_Update (ce_outcome env) (advance uid expected paths committed origin) (wc_ledger w) of
             (Inl e, l) \<Rightarrow> ((Some e, if e = LedgerCapacity then m\<lparr>tm_revision := 0\<rparr> else m), w\<lparr>wc_ledger := l\<rparr>)
           | (Inr r, l) \<Rightarrow> ((None, m), tagLocalTree (ce_tags env) (lr_SourceRevision r) (w\<lparr>wc_ledger := l\<rparr>)))))"

definition give_up :: "sourceTreeMutation \<Rightarrow> ledger_mutation" where
  "give_up m r =
     (if \<not> holds_revision (tm_revision m) (tm_id m) r then Inr (False, r)
      else let r = setUnknownSourcePathAttributions (tm_paths m) (tm_revision m)
                 (r\<lparr>lr_LastSourceChange := Some \<lparr>sc_ThreadID = [], sc_RunID = [], sc_SourceRevision = tm_revision m\<rparr>\<rparr>)
           in Inr (True, r\<lparr>lr_UncommittedPaths := normalizeLedgerPaths (lr_UncommittedPaths r @ tm_paths m)\<rparr>))"

definition sourceTreeRollbackRecorded :: "LedgerRecord \<Rightarrow> sourceTreeMutation \<Rightarrow> bool" where
  "sourceTreeRollbackRecorded r m \<longleftrightarrow> sourceMutationFailureRecorded r (tm_revision m) (tm_id m) (tm_paths m)
     \<and> set (tm_paths m) \<subseteq> set (lr_UncommittedPaths r)"

definition reconcileTreeRollback :: "call_env \<Rightarrow> sourceTreeMutation \<Rightarrow> bool \<Rightarrow> working_copy
    \<Rightarrow> ledger_error option \<times> working_copy" where
  "reconcileTreeRollback env m treeRestored w =
     (if tm_revision m = 0 \<or> tm_id m = [] then (None, w)
      else case ce_early env of
        Some e \<Rightarrow> (Some e, w)
      | None \<Rightarrow> (case ledger_Update (ce_outcome env) (give_up m) (wc_ledger w) of
          (Inr r, l) \<Rightarrow>
            if \<not> holds_revision (tm_revision m) (tm_id m) (wc_ledger w) then (None, w\<lparr>wc_ledger := l\<rparr>)
            else if sourceTreeRollbackRecorded r m
            then (None, if treeRestored \<and> lr_SourceRevision r = tm_revision m \<and> lr_SourceMutationID r = tm_id m
              then tagLocalTree (ce_tags env) (tm_revision m) (w\<lparr>wc_ledger := l\<rparr>) else w\<lparr>wc_ledger := l\<rparr>)
            else (Some (LedgerFailed ''not retained''), w\<lparr>wc_ledger := l\<rparr>)
        | (Inl e, l) \<Rightarrow>
            if e = LedgerCapacity then (Some e, w\<lparr>wc_ledger := l\<rparr>)
            else (case readSourceMutation (ce_confirms env) (tm_revision m) (tm_id m) l of
                None \<Rightarrow> (Some e, w\<lparr>wc_ledger := l\<rparr>)
              | Some r \<Rightarrow>
                if sourceTreeRollbackRecorded r m
                then (None, if treeRestored then tagLocalTree (ce_tags env) (tm_revision m) (w\<lparr>wc_ledger := l\<rparr>)
                  else w\<lparr>wc_ledger := l\<rparr>)
                else (Some e, w\<lparr>wc_ledger := l\<rparr>))))"

section \<open>A floor for the revision\<close>

definition raise_floor :: "uint64 \<Rightarrow> ledger_mutation" where
  "raise_floor least r =
     (if least \<le> lr_SourceRevision r then Inr (False, r)
      else Inr (True, r\<lparr>lr_SourceRevision := least, lr_SourceMutationID := []\<rparr>))"

definition EnsureSourceRevisionFloor :: "call_env \<Rightarrow> uint64 \<Rightarrow> working_copy \<Rightarrow> ledger_error option \<times> working_copy" where
  "EnsureSourceRevisionFloor env least w =
     (if least \<le> 1 then (None, w)
      else case ce_early env of
        Some e \<Rightarrow> (Some e, w)
      | None \<Rightarrow> (case ledger_Update (ce_outcome env) (raise_floor least) (wc_ledger w) of
          (Inl e, l) \<Rightarrow> (Some e, w\<lparr>wc_ledger := l\<rparr>)
        | (Inr r, l) \<Rightarrow> (None, w\<lparr>wc_ledger := l\<rparr>)))"

section \<open>Owners after an edit\<close>

lemma owner_of_cong:
  assumes "attribution_at (lr_SourcePathAttributions r) q = attribution_at (lr_SourcePathAttributions r') q"
    "lr_PendingCommit r = lr_PendingCommit r'" "q \<in> set (lr_UncommittedPaths r) \<longleftrightarrow> q \<in> set (lr_UncommittedPaths r')"
  shows "owner_of r q = owner_of r' q"
  using assms by (simp add: owner_of_def Let_def)

lemma canonical_parts:
  assumes "canonical r"
  shows "normalizeLedgerPaths (lr_UncommittedPaths r) = lr_UncommittedPaths r"
    "Option.bind (lr_PendingCommit r) normalize_pending = lr_PendingCommit r"
  using arg_cong [OF assms [unfolded canonical_def], of lr_UncommittedPaths]
    arg_cong [OF assms [unfolded canonical_def], of lr_PendingCommit]
  by (simp_all add: NormalizeLedgerRecord_def)

text \<open>Writing a record whose other parts are canonical keeps every owner.\<close>

lemma written_record:
  assumes "tidy_record r" "normalizeLedgerPaths (lr_UncommittedPaths r) = lr_UncommittedPaths r"
    "Option.bind (lr_PendingCommit r) normalize_pending = lr_PendingCommit r"
  shows "owner_of (NormalizeLedgerRecord r) q = owner_of r q" "tidy_record (NormalizeLedgerRecord r)"
    "attribution_at (lr_SourcePathAttributions (NormalizeLedgerRecord r)) q = attribution_at (lr_SourcePathAttributions r) q"
    "lr_PendingCommit (NormalizeLedgerRecord r) = lr_PendingCommit r"
    "lr_UncommittedPaths (NormalizeLedgerRecord r) = lr_UncommittedPaths r"
proof -
  show "attribution_at (lr_SourcePathAttributions (NormalizeLedgerRecord r)) q = attribution_at (lr_SourcePathAttributions r) q"
    "lr_PendingCommit (NormalizeLedgerRecord r) = lr_PendingCommit r"
    "lr_UncommittedPaths (NormalizeLedgerRecord r) = lr_UncommittedPaths r"
    using assms by (simp_all add: NormalizeLedgerRecord_def attribution_at_normalize tidy_record_def)
  then show "owner_of (NormalizeLedgerRecord r) q = owner_of r q" by (intro owner_of_cong) simp_all
  show "tidy_record (NormalizeLedgerRecord r)"
    using assms(1) by (simp add: NormalizeLedgerRecord_def tidy_record_def normalize_tidy)
qed

lemma normalize_revision [simp]:
  "lr_SourceRevision (NormalizeLedgerRecord r) = lr_SourceRevision r"
  "lr_SourceMutationID (NormalizeLedgerRecord r) = lr_SourceMutationID r"
  "lr_LastSourceChange (NormalizeLedgerRecord r) = lr_LastSourceChange r"
  by (simp_all add: NormalizeLedgerRecord_def)

lemma tidy_record_update [simp]:
  "tidy_record (r\<lparr>lr_SourceRevision := n\<rparr>) = tidy_record r" "tidy_record (r\<lparr>lr_SourceMutationID := i\<rparr>) = tidy_record r"
  "tidy_record (r\<lparr>lr_LastSourceChange := c\<rparr>) = tidy_record r" "tidy_record (r\<lparr>lr_UncommittedPaths := u\<rparr>) = tidy_record r"
  "tidy_record (r\<lparr>lr_PendingCommit := pc\<rparr>) = tidy_record r" "tidy_record (r\<lparr>lr_Settlement := st\<rparr>) = tidy_record r"
  by (simp_all add: tidy_record_def)

lemma owner_of_update_frame [simp]:
  "owner_of (r\<lparr>lr_SourceRevision := n\<rparr>) = owner_of r" "owner_of (r\<lparr>lr_SourceMutationID := i\<rparr>) = owner_of r"
  "owner_of (r\<lparr>lr_LastSourceChange := c\<rparr>) = owner_of r" "owner_of (r\<lparr>lr_Settlement := st\<rparr>) = owner_of r"
  by (simp_all add: owner_of_def fun_eq_iff)

lemma newer_update [simp]:
  "newer (r\<lparr>lr_SourceRevision := k\<rparr>) n = newer r n" "newer (r\<lparr>lr_SourceMutationID := i\<rparr>) n = newer r n"
  "newer (r\<lparr>lr_LastSourceChange := c\<rparr>) n = newer r n" "newer (r\<lparr>lr_SourcePathAttributions := as\<rparr>) n = newer r n"
  by (simp_all add: newer_def)

text \<open>What a reservation writes.\<close>

lemma reserve_written:
  assumes r: "canonical r" "tidy_record r" and paths: "\<forall>p \<in> set paths. stable_path p"
    and op: "reserve uid paths tag tree r = Inr (b, r1)" and n: "n = uint64_add (current_revision r) 1"
  shows "b" "lr_SourceRevision (NormalizeLedgerRecord r1) = n" "lr_SourceMutationID (NormalizeLedgerRecord r1) = uid"
    "tidy_record (NormalizeLedgerRecord r1)" "lr_PendingCommit (NormalizeLedgerRecord r1) = lr_PendingCommit r"
    "lr_UncommittedPaths (NormalizeLedgerRecord r1) = lr_UncommittedPaths r"
    "attribution_at (lr_SourcePathAttributions (NormalizeLedgerRecord r1)) q
      = (if q \<in> set paths then Some (unknown_at n q) else attribution_at (lr_SourcePathAttributions r) q)"
proof -
  let ?r = "r\<lparr>lr_SourceRevision := n, lr_SourceMutationID := uid,
    lr_LastSourceChange := Some \<lparr>sc_ThreadID = [], sc_RunID = [], sc_SourceRevision = n\<rparr>\<rparr>"
  have r1: "r1 = setUnknownSourcePathAttributions paths n ?r" and b: "b"
    using op by (auto simp: reserve_def n Let_def split: if_splits)
  have t: "tidy_record ?r" using r(2) by simp
  note look = setUnknown_lookup [OF t paths]
  note w = written_record [of r1]
  have parts: "normalizeLedgerPaths (lr_UncommittedPaths r1) = lr_UncommittedPaths r1"
    "Option.bind (lr_PendingCommit r1) normalize_pending = lr_PendingCommit r1" "tidy_record r1"
    using canonical_parts [OF r(1)] look(2) by (simp_all add: r1)
  show "b" by (rule b)
  show "lr_SourceRevision (NormalizeLedgerRecord r1) = n" "lr_SourceMutationID (NormalizeLedgerRecord r1) = uid"
    by (simp_all add: r1)
  show "tidy_record (NormalizeLedgerRecord r1)" "lr_PendingCommit (NormalizeLedgerRecord r1) = lr_PendingCommit r"
    "lr_UncommittedPaths (NormalizeLedgerRecord r1) = lr_UncommittedPaths r"
    "attribution_at (lr_SourcePathAttributions (NormalizeLedgerRecord r1)) q
      = (if q \<in> set paths then Some (unknown_at n q) else attribution_at (lr_SourcePathAttributions r) q)"
    using w [OF parts(3,1,2)] look(1) [of n q] by (simp_all add: r1)
qed

text \<open>An edit that completes joins its author to the owners of its paths.\<close>

lemma edit_joins_author:
  assumes r: "canonical r" "tidy_record r" and paths: "paths \<noteq> []" "\<forall>p \<in> set paths. stable_path p"
    and n: "n = uint64_add (current_revision r) 1" "n \<noteq> 0" "newer r n"
    and res: "reserve uid paths tag tree r = Inr (True, r1)"
    and fin: "finish (reservation uid paths tag tree (Some r)) origin (NormalizeLedgerRecord r1) = Inr (b, r2)"
  shows "owner_of (NormalizeLedgerRecord r2) q = (if q \<in> set paths then joined (owner_of r q) (author origin) else owner_of r q)"
proof -
  let ?w = "NormalizeLedgerRecord r1"
  let ?m = "reservation uid paths tag tree (Some r)"
  have m: "sm_id ?m = uid" "sm_revision ?m = n" "sm_paths ?m = paths"
      "sm_previousAttributions ?m = sourcePathAttributionsFor (lr_SourcePathAttributions r) paths"
    using res by (auto simp: reservation_def reserve_def n(1) split: if_splits)
  note w = reserve_written [OF r paths(2) res n(1)]
  let ?o = "origin\<lparr>sc_SourceRevision := n\<rparr>"
  let ?old = "sourcePathAttributionsFor (lr_SourcePathAttributions r) paths"
  let ?r = "(restoreReservedSourcePathAttributions n paths ?old ?w)\<lparr>lr_LastSourceChange := Some ?o\<rparr>"
  have r2: "r2 = recordSourcePathChanges paths ?o ?r"
    using fin by (auto simp: finish_def m Let_def split: if_splits)
  have tidy: "tidy (lr_SourcePathAttributions r)" using r(2) by (simp add: tidy_record_def)
  note undone = restoreReserved_lookup [OF w(4) tidy_for [OF tidy, of paths]]
  have same: "attribution_at (lr_SourcePathAttributions (restoreReservedSourcePathAttributions n paths ?old ?w)) p
      = attribution_at (lr_SourcePathAttributions r) p" for p
    by (subst undone(1)) (simp add: w(7) attribution_at_for [OF tidy] unknown_at_def)
  have "tidy_record ?r" using undone(2) by simp
  moreover have "newer ?r (sc_SourceRevision ?o)" using n(3) w(5) by (simp add: newer_def)
  ultimately have own: "owner_of r2 p = (if p \<in> set paths then joined (owner_of ?r p) (author ?o) else owner_of ?r p)"
      "tidy_record r2" for p
    unfolding r2 using recordSourcePathChanges_owner [of ?r paths ?o] paths(2) by simp_all
  have "owner_of ?r p = owner_of r p" for p
    by (rule owner_of_cong) (simp_all add: same w(5,6))
  moreover have "author ?o = author origin" by (simp add: author_def trim_origin_def known_origin_def)
  moreover have "owner_of (NormalizeLedgerRecord r2) q = owner_of r2 q"
    using canonical_parts [OF r(1)] by (intro written_record(1) own(2)) (simp_all add: r2 w(5,6))
  ultimately show ?thesis using own(1) by simp
qed

text \<open>One that is abandoned leaves their owners unknown.\<close>

lemma abandoned_edit_is_unowned:
  assumes r: "canonical r" "tidy_record r" and m: "\<forall>p \<in> set (sm_paths m). stable_path p" "newer r (sm_revision m)"
    and op: "abandon m r = Inr (b, r')"
  shows "owner_of (NormalizeLedgerRecord r') q = (if q \<in> set (sm_paths m) then Mixed else owner_of r q)"
proof -
  let ?r = "r\<lparr>lr_LastSourceChange := Some \<lparr>sc_ThreadID = [], sc_RunID = [], sc_SourceRevision = sm_revision m\<rparr>\<rparr>"
  have r': "r' = setUnknownSourcePathAttributions (sm_paths m) (sm_revision m) ?r"
    using op by (auto simp: abandon_def split: if_splits)
  have t: "tidy_record ?r" using r(2) by simp
  have "owner_of (NormalizeLedgerRecord r') q = owner_of r' q"
    using canonical_parts [OF r(1)] setUnknown_lookup(2) [OF t m(1)]
    by (intro written_record(1)) (simp_all add: r')
  then show ?thesis using setUnknown_owner [OF t m(1), of "sm_revision m" q] m(2) by (simp add: r')
qed

text \<open>Replacing the tree with one that is not the repository's is an edit of all its paths.\<close>

lemma replacement_joins_author:
  assumes r: "canonical r" "tidy_record r" and paths: "\<forall>p \<in> set paths. stable_path p"
    and n: "n = uint64_add (current_revision r) 1" "newer r n"
    and op: "advance uid expected paths False origin r = Inr (b, r')"
  shows "owner_of (NormalizeLedgerRecord r') q = (if q \<in> set paths then joined (owner_of r q) (author origin) else owner_of r q)"
    "set (lr_UncommittedPaths (NormalizeLedgerRecord r')) = set (lr_UncommittedPaths r) \<union> (TrimSpace ` set paths - {[]})"
proof -
  let ?o = "origin\<lparr>sc_SourceRevision := n\<rparr>"
  let ?r = "r\<lparr>lr_SourceRevision := n, lr_SourceMutationID := uid, lr_LastSourceChange := Some ?o\<rparr>"
  let ?c = "recordSourcePathChanges paths ?o ?r"
  have r': "r' = ?c\<lparr>lr_UncommittedPaths := normalizeLedgerPaths (lr_UncommittedPaths r @ paths)\<rparr>"
    using op by (auto simp: advance_def Let_def n(1) split: if_splits)
  have t: "tidy_record ?r" "newer ?r (sc_SourceRevision ?o)" using r(2) n(2) by simp_all
  note own = recordSourcePathChanges_owner [OF t(1) paths t(2)]
  have unc: "paths_normal (lr_UncommittedPaths r)"
    using canonical_parts(1) [OF r(1)] normalizeLedgerPaths_normal by metis
  then have trimmed: "TrimSpace ` set (lr_UncommittedPaths r) - {[]} = set (lr_UncommittedPaths r)"
    by (force simp: paths_normal_def)
  have dirty: "set (lr_UncommittedPaths r') = set (lr_UncommittedPaths r) \<union> (TrimSpace ` set paths - {[]})"
    using trimmed by (auto simp: r' set_normalizeLedgerPaths image_Un)
  have parts: "tidy_record r'" "normalizeLedgerPaths (lr_UncommittedPaths r') = lr_UncommittedPaths r'"
      "Option.bind (lr_PendingCommit r') normalize_pending = lr_PendingCommit r'"
    using own(2) canonical_parts(2) [OF r(1)] by (simp_all add: r' normalizeLedgerPaths_id normalizeLedgerPaths_normal)
  note w = written_record [OF parts]
  show "set (lr_UncommittedPaths (NormalizeLedgerRecord r')) = set (lr_UncommittedPaths r) \<union> (TrimSpace ` set paths - {[]})"
    using w(5) dirty by simp
  have "owner_of r' q = owner_of ?c q"
  proof (cases "q \<in> set paths")
    case True
    have "attribution_at (lr_SourcePathAttributions ?c) q \<noteq> None"
      by (rule recordSourcePathChanges_present [OF t(1) paths True])
    then show ?thesis by (auto simp: r' owner_of_def Let_def split: option.split)
  next
    case False
    have "q \<notin> TrimSpace ` set paths" using False paths stable_trim by force
    then have "q \<in> set (lr_UncommittedPaths r') \<longleftrightarrow> q \<in> set (lr_UncommittedPaths r)" using dirty by auto
    then show ?thesis by (intro owner_of_cong) (simp_all add: r')
  qed
  moreover have "author ?o = author origin" by (simp add: author_def trim_origin_def known_origin_def)
  ultimately show "owner_of (NormalizeLedgerRecord r') q
      = (if q \<in> set paths then joined (owner_of r q) (author origin) else owner_of r q)"
    using own(1) [of q] by (simp add: w(1))
qed

end
