(* ===== verification/Commit_Slot.thy ===== *)
theory Commit_Slot
  imports Source_Revision
begin

text \<open>
  The one commit in flight of a project, the paths it will make clean and the receipt it leaves
  (\<open>src/workspace/pending_commit.go\<close>, \<open>src/workspace/source_state.go\<close>). Every operation is a mutation of the
  ledger record and the call that runs it. What a call reports as done is what its mutation reports
  as changed.

  Shown: the immutable part of a commit in flight stays as it was reserved until the call that
  names it clears or fails it; a path leaves the set of uncommitted paths only when a commit that
  carried it has landed with the bytes that are there now, or when a caller removes it.
\<close>

section \<open>Calls\<close>

definition run_call :: "call_env \<Rightarrow> ledger_mutation \<Rightarrow> LedgerRecord \<Rightarrow> (ledger_error + bool) \<times> LedgerRecord" where
  "run_call env mutate r = (case ce_early env of
       Some e \<Rightarrow> (Inl e, r)
     | None \<Rightarrow> (case ledger_Update (ce_outcome env) mutate r of
         (Inl e, l) \<Rightarrow> (Inl e, l)
       | (Inr _, l) \<Rightarrow> (Inr (case mutate r of Inl e \<Rightarrow> False | Inr (changed, r') \<Rightarrow> changed), l)))"

section \<open>Uncommitted paths\<close>

definition add_uncommitted :: "string list \<Rightarrow> ledger_mutation" where
  "add_uncommitted paths r =
     (let u = normalizeLedgerPaths (lr_UncommittedPaths r @ paths)
      in Inr (length u \<noteq> length (lr_UncommittedPaths r), r\<lparr>lr_UncommittedPaths := u\<rparr>))"

definition AddUncommittedPaths :: "call_env \<Rightarrow> string list \<Rightarrow> LedgerRecord \<Rightarrow> (ledger_error + string list) \<times> LedgerRecord" where
  "AddUncommittedPaths env raws r = (case ce_early env of
       Some e \<Rightarrow> (Inl e, r)
     | None \<Rightarrow> (case clean_all raws of
         Inl e \<Rightarrow> (Inl (PathRejected e), r)
       | Inr paths \<Rightarrow>
         if paths = [] then (Inr (lr_UncommittedPaths r), r)
         else (case ledger_Update (ce_outcome env) (add_uncommitted paths) r of
             (Inl e, l) \<Rightarrow> (Inl e, l)
           | (Inr r', l) \<Rightarrow> (Inr (lr_UncommittedPaths r'), l))))"

definition remove_uncommitted :: "string list \<Rightarrow> ledger_mutation" where
  "remove_uncommitted paths r =
     (let remaining = filter (\<lambda>p. p \<notin> set paths) (lr_UncommittedPaths r);
          attributions = removeSourcePathAttributions (lr_SourcePathAttributions r) paths
      in if length remaining = length (lr_UncommittedPaths r)
            \<and> length attributions = length (lr_SourcePathAttributions r)
         then Inr (False, r)
         else Inr (True, r\<lparr>lr_UncommittedPaths := remaining, lr_SourcePathAttributions := attributions\<rparr>))"

definition RemoveUncommittedPaths :: "call_env \<Rightarrow> string list \<Rightarrow> LedgerRecord \<Rightarrow> ledger_error option \<times> LedgerRecord" where
  "RemoveUncommittedPaths env raws r = (case ce_early env of
       Some e \<Rightarrow> (Some e, r)
     | None \<Rightarrow> (case clean_all raws of
         Inl e \<Rightarrow> (Some (PathRejected e), r)
       | Inr paths \<Rightarrow>
         if paths = [] then (None, r)
         else (case run_call env (remove_uncommitted paths) r of
             (Inl e, l) \<Rightarrow> (Some e, l)
           | (Inr b, l) \<Rightarrow> (None, l))))"

definition clear_uncommitted :: ledger_mutation where
  "clear_uncommitted r =
     (if lr_UncommittedPaths r = [] \<and> lr_SourcePathAttributions r = [] then Inr (False, r)
      else Inr (True, r\<lparr>lr_UncommittedPaths := [], lr_SourcePathAttributions := []\<rparr>))"

definition ClearUncommittedPaths :: "call_env \<Rightarrow> LedgerRecord \<Rightarrow> (ledger_error + bool) \<times> LedgerRecord" where
  "ClearUncommittedPaths env r = run_call env clear_uncommitted r"

text \<open>Every source file of the tree becomes uncommitted when a repository is attached.\<close>

definition InitializeRepositorySource :: "call_env \<Rightarrow> string list \<Rightarrow> LedgerRecord \<Rightarrow> ledger_error option \<times> LedgerRecord" where
  "InitializeRepositorySource env walked r =
     (if walked = [] then (None, r)
      else case AddUncommittedPaths env walked r of (Inl e, l) \<Rightarrow> (Some e, l) | (Inr u, l) \<Rightarrow> (None, l))"

definition sorted_paths :: "string list \<Rightarrow> string list" where
  "sorted_paths ps = sort (remdups ps)"

definition UncommittedPaths :: "ledger_error option \<Rightarrow> LedgerRecord \<Rightarrow> ledger_error + string list" where
  "UncommittedPaths failed r = (case failed of
       Some e \<Rightarrow> Inl e
     | None \<Rightarrow> (case clean_all (lr_UncommittedPaths r) of
         Inl e \<Rightarrow> Inl (PathRejected e)
       | Inr ps \<Rightarrow> Inr (sorted_paths ps)))"

text \<open>The turns that own some of the selected paths, each with its paths.\<close>

definition owner_key :: "SourcePathAttribution \<Rightarrow> string" where
  "owner_key a = spa_ThreadID a @ CHR 0x00 # spa_RunID a"

definition split_key :: "string \<Rightarrow> string \<times> string" where
  "split_key k = (takeWhile (\<lambda>c. c \<noteq> CHR 0x00) k, drop 1 (dropWhile (\<lambda>c. c \<noteq> CHR 0x00) k))"

definition path_owner_key :: "LedgerRecord \<Rightarrow> string \<Rightarrow> string option" where
  "path_owner_key r p = (case gget (by_path (lr_SourcePathAttributions r)) p of
       None \<Rightarrow> None
     | Some a \<Rightarrow> if spa_ThreadID a = [] \<or> spa_RunID a = [] then None else Some (owner_key a))"

definition SourceAttributions :: "ledger_error option \<Rightarrow> string list \<Rightarrow> LedgerRecord \<Rightarrow> ledger_error + SourceAttribution list" where
  "SourceAttributions failed raws r = (case failed of
       Some e \<Rightarrow> Inl e
     | None \<Rightarrow> (case clean_all raws of
         Inl e \<Rightarrow> Inl (PathRejected e)
       | Inr selected \<Rightarrow>
         Inr (map (\<lambda>k. \<lparr>sa_ThreadID = fst (split_key k), sa_RunID = snd (split_key k),
             sa_Paths = sorted_paths (filter (\<lambda>p. path_owner_key r p = Some k) selected)\<rparr>)
           (sorted_paths (List.map_filter (path_owner_key r) selected)))))"

section \<open>The commit in flight\<close>

definition matchesPendingCommit :: "PendingCommit \<Rightarrow> string \<Rightarrow> string \<Rightarrow> bool" where
  "matchesPendingCommit p requestID name =
     (if requestID \<noteq> [] then name \<noteq> [] \<and> pc_RequestID p = requestID \<and> pc_Name p = name
      else pc_RequestID p = [] \<and> name \<noteq> [] \<and> pc_Name p = name)"

fun join_nul :: "string list \<Rightarrow> string" where
  "join_nul [] = []"
| "join_nul [p] = p"
| "join_nul (p # q # ps) = p @ CHR 0x00 # join_nul (q # ps)"

definition sameAttributions :: "SourceAttribution list \<Rightarrow> SourceAttribution list \<Rightarrow> bool" where
  "sameAttributions a b \<longleftrightarrow> length a = length b
     \<and> list_all (\<lambda>(x, y). sa_ThreadID x = sa_ThreadID y \<and> sa_RunID x = sa_RunID y
          \<and> join_nul (sa_Paths x) = join_nul (sa_Paths y)) (zip a b)"

definition samePendingIntent :: "PendingCommit \<Rightarrow> PendingCommit \<Rightarrow> bool" where
  "samePendingIntent a b \<longleftrightarrow> pc_RequestID a = pc_RequestID b \<and> pc_RepositoryRef a = pc_RepositoryRef b
     \<and> pc_RepositoryUID a = pc_RepositoryUID b \<and> pc_BundleRef a = pc_BundleRef b \<and> pc_BundleDigest a = pc_BundleDigest b
     \<and> pc_Message a = pc_Message b \<and> pc_Branch a = pc_Branch b \<and> pc_WorkspaceDigest a = pc_WorkspaceDigest b
     \<and> pc_SourceRevision a = pc_SourceRevision b \<and> join_nul (pc_Paths a) = join_nul (pc_Paths b)
     \<and> sameAttributions (pc_Attributions a) (pc_Attributions b)"

definition samePendingCommit :: "PendingCommit \<Rightarrow> PendingCommit \<Rightarrow> bool" where
  "samePendingCommit a b \<longleftrightarrow> samePendingIntent a b \<and> pc_Name a = pc_Name b
     \<and> pc_BlockedReason a = pc_BlockedReason b \<and> pc_BlockedMessage a = pc_BlockedMessage b
     \<and> pc_RetryToken a = pc_RetryToken b \<and> pc_BlockedAt a = pc_BlockedAt b"

definition normalizePendingCommit :: "PendingCommit \<Rightarrow> bool \<Rightarrow> ledger_error + PendingCommit" where
  "normalizePendingCommit raw reserving =
     (let p = trim_pending raw
      in if 64 < length (pc_BlockedReason p) \<or> 512 < length (pc_BlockedMessage p) \<or> 160 < length (pc_RetryToken p)
         then Inl (PendingInvalid ''block metadata'')
         else if pc_WorkspaceDigest p = [] then Inl (PendingInvalid ''digest'')
         else (case clean_all (pc_Paths p) of
             Inl e \<Rightarrow> Inl (PathRejected e)
           | Inr ps \<Rightarrow>
             if ps = [] then Inl (PendingInvalid ''paths'')
             else (let p = p\<lparr>pc_Paths := sorted_paths ps\<rparr>;
                       p = p\<lparr>pc_Attributions := NormalizeSourceAttributions (pc_Attributions p) (pc_Paths p)\<rparr>
                   in if pc_RequestID p \<noteq> []
                      then (if \<not> valid_intent p then Inl (PendingInvalid ''identity'')
                            else if reserving \<and> pc_Name p \<noteq> [] then Inl (PendingInvalid ''name'')
                            else Inr p)
                      else if pc_Name p = [] \<or> reserving then Inl (PendingInvalid ''name or request'')
                      else Inr p)))"

definition put_pending :: "PendingCommit \<Rightarrow> LedgerRecord \<Rightarrow> LedgerRecord" where
  "put_pending p r = r\<lparr>lr_PendingCommit := Some p\<rparr>"

definition record_pending :: "PendingCommit \<Rightarrow> ledger_mutation" where
  "record_pending p r = (case lr_PendingCommit r of
       Some old \<Rightarrow> if samePendingCommit old p then Inr (False, r) else Inl PendingExists
     | None \<Rightarrow> Inr (True, put_pending p r))"

definition RecordPendingCommit :: "call_env \<Rightarrow> PendingCommit \<Rightarrow> LedgerRecord \<Rightarrow> (ledger_error + bool) \<times> LedgerRecord" where
  "RecordPendingCommit env raw r = (case ce_early env of
       Some e \<Rightarrow> (Inl e, r)
     | None \<Rightarrow> (case normalizePendingCommit raw False of
         Inl e \<Rightarrow> (Inl e, r)
       | Inr p \<Rightarrow> run_call env (record_pending p) r))"

definition reserve_pending :: "PendingCommit \<Rightarrow> ledger_mutation" where
  "reserve_pending p r = (case lr_PendingCommit r of
       Some old \<Rightarrow> if samePendingIntent old p then Inr (False, r) else Inl PendingExists
     | None \<Rightarrow>
       if current_revision r \<noteq> pc_SourceRevision p then Inl SourceRevisionConflict
       else Inr (True, put_pending p r))"

definition ReservePendingCommit :: "call_env \<Rightarrow> PendingCommit \<Rightarrow> LedgerRecord \<Rightarrow> (ledger_error + bool) \<times> LedgerRecord" where
  "ReservePendingCommit env raw r = (case ce_early env of
       Some e \<Rightarrow> (Inl e, r)
     | None \<Rightarrow> (case normalizePendingCommit (raw\<lparr>pc_Name := []\<rparr>) True of
         Inl e \<Rightarrow> (Inl e, r)
       | Inr p \<Rightarrow> run_call env (reserve_pending p) r))"

definition bind_name :: "string \<Rightarrow> string \<Rightarrow> ledger_mutation" where
  "bind_name requestID name r = (case lr_PendingCommit r of
       None \<Rightarrow> Inl PendingChanged
     | Some p \<Rightarrow>
       if pc_RequestID p \<noteq> requestID then Inl PendingChanged
       else if pc_Name p \<noteq> [] then
         (if pc_Name p = name
          then (if pc_BlockedReason p \<noteq> [] then Inr (True, put_pending (clear_block p) r) else Inr (False, r))
          else Inl PendingChanged)
       else Inr (True, put_pending (clear_block (p\<lparr>pc_Name := name\<rparr>)) r))"

definition BindPendingCommitName :: "call_env \<Rightarrow> string \<Rightarrow> string \<Rightarrow> LedgerRecord \<Rightarrow> (ledger_error + bool) \<times> LedgerRecord" where
  "BindPendingCommitName env requestID name r =
     (if TrimSpace requestID = [] \<or> TrimSpace name = [] then (Inl (PendingInvalid ''bind''), r)
      else run_call env (bind_name (TrimSpace requestID) (TrimSpace name)) r)"

text \<open>A block keeps the time it began while its reason stays the same.\<close>

definition block :: "time \<Rightarrow> string \<Rightarrow> string \<Rightarrow> string \<Rightarrow> string \<Rightarrow> ledger_mutation" where
  "block now requestID name reason message r = (case lr_PendingCommit r of
       None \<Rightarrow> Inr (False, r)
     | Some p \<Rightarrow>
       if pc_RequestID p \<noteq> requestID \<or> pc_Name p \<noteq> name then Inr (False, r)
       else if pc_BlockedReason p = reason \<and> pc_BlockedMessage p = message \<and> pc_BlockedAt p \<noteq> None then Inr (False, r)
       else Inr (True, put_pending (p\<lparr>pc_BlockedReason := reason, pc_BlockedMessage := message,
         pc_BlockedAt := Some (case pc_BlockedAt p of
             Some t \<Rightarrow> if pc_BlockedReason p = reason then t else now | None \<Rightarrow> now)\<rparr>) r))"

definition blockPendingCommit :: "call_env \<Rightarrow> time \<Rightarrow> string \<Rightarrow> string \<Rightarrow> string \<Rightarrow> string \<Rightarrow> LedgerRecord
    \<Rightarrow> (ledger_error + bool) \<times> LedgerRecord" where
  "blockPendingCommit env now requestID name reason message r =
     (let requestID = TrimSpace requestID; name = TrimSpace name; reason = TrimSpace reason; message = TrimSpace message
      in if (requestID = [] \<and> name = []) \<or> reason = [] \<or> message = [] then (Inl (PendingInvalid ''block''), r)
         else if 64 < length reason \<or> 512 < length message then (Inl (PendingInvalid ''block limit''), r)
         else run_call env (block now requestID name reason message) r)"

definition BlockPendingCommit :: "call_env \<Rightarrow> time \<Rightarrow> string \<Rightarrow> string \<Rightarrow> string \<Rightarrow> LedgerRecord
    \<Rightarrow> (ledger_error + bool) \<times> LedgerRecord" where
  "BlockPendingCommit env now requestID reason message r = blockPendingCommit env now requestID [] reason message r"

definition BlockNamedPendingCommit :: "call_env \<Rightarrow> time \<Rightarrow> string \<Rightarrow> string \<Rightarrow> string \<Rightarrow> string \<Rightarrow> LedgerRecord
    \<Rightarrow> (ledger_error + bool) \<times> LedgerRecord" where
  "BlockNamedPendingCommit env now requestID name reason message r =
     (if TrimSpace name = [] then (Inl (PendingInvalid ''block name''), r)
      else blockPendingCommit env now requestID (TrimSpace name) reason message r)"

definition retry_block :: "string \<Rightarrow> string \<Rightarrow> string \<Rightarrow> ledger_mutation" where
  "retry_block requestID name token r = (case lr_PendingCommit r of
       None \<Rightarrow> Inr (False, r)
     | Some p \<Rightarrow>
       if pc_RequestID p \<noteq> requestID \<or> pc_Name p \<noteq> name \<or> pc_BlockedReason p = [] \<or> pc_RetryToken p = token
       then Inr (False, r)
       else Inr (True, put_pending ((clear_block p)\<lparr>pc_RetryToken := token\<rparr>) r))"

definition retryBlockedPendingCommit :: "call_env \<Rightarrow> string \<Rightarrow> string \<Rightarrow> string \<Rightarrow> LedgerRecord
    \<Rightarrow> (ledger_error + bool) \<times> LedgerRecord" where
  "retryBlockedPendingCommit env requestID name token r =
     (let requestID = TrimSpace requestID; name = TrimSpace name; token = TrimSpace token
      in if requestID = [] \<or> token = [] \<or> 160 < length token then (Inl (PendingInvalid ''retry''), r)
         else run_call env (retry_block requestID name token) r)"

definition RetryBlockedPendingCommit :: "call_env \<Rightarrow> string \<Rightarrow> string \<Rightarrow> LedgerRecord \<Rightarrow> (ledger_error + bool) \<times> LedgerRecord" where
  "RetryBlockedPendingCommit env requestID token r = retryBlockedPendingCommit env requestID [] token r"

definition RetryNamedBlockedPendingCommit :: "call_env \<Rightarrow> string \<Rightarrow> string \<Rightarrow> string \<Rightarrow> LedgerRecord
    \<Rightarrow> (ledger_error + bool) \<times> LedgerRecord" where
  "RetryNamedBlockedPendingCommit env requestID name token r =
     (if TrimSpace name = [] then (Inl (PendingInvalid ''retry name''), r)
      else retryBlockedPendingCommit env requestID (TrimSpace name) token r)"

definition clear_named_block :: "string \<Rightarrow> string \<Rightarrow> string \<Rightarrow> time \<Rightarrow> ledger_mutation" where
  "clear_named_block requestID name reason blockedAt r = (case lr_PendingCommit r of
       None \<Rightarrow> Inr (False, r)
     | Some p \<Rightarrow>
       if pc_RequestID p \<noteq> requestID \<or> pc_Name p \<noteq> name \<or> pc_BlockedReason p \<noteq> reason \<or> pc_BlockedAt p \<noteq> Some blockedAt
       then Inr (False, r)
       else Inr (True, put_pending (clear_block p) r))"

definition ClearNamedPendingCommitBlock :: "call_env \<Rightarrow> string \<Rightarrow> string \<Rightarrow> string \<Rightarrow> time option \<Rightarrow> LedgerRecord
    \<Rightarrow> (ledger_error + bool) \<times> LedgerRecord" where
  "ClearNamedPendingCommitBlock env requestID name reason blockedAt r =
     (let requestID = TrimSpace requestID; name = TrimSpace name; reason = TrimSpace reason
      in case blockedAt of
           None \<Rightarrow> (Inl (PendingInvalid ''clear block''), r)
         | Some t \<Rightarrow>
           if name = [] \<or> reason = [] then (Inl (PendingInvalid ''clear block''), r)
           else run_call env (clear_named_block requestID name reason t) r)"

text \<open>Reading the commit in flight refuses a malformed one.\<close>

definition read_pending :: "LedgerRecord \<Rightarrow> ledger_error + PendingCommit option" where
  "read_pending r = (case lr_PendingCommit r of
       None \<Rightarrow> Inr None
     | Some raw \<Rightarrow> (case clean_all (pc_Paths raw) of
         Inl e \<Rightarrow> Inl (PathRejected e)
       | Inr ps \<Rightarrow>
         (let p = trim_pending raw; legacy = (pc_RequestID raw = [] \<and> pc_RequestID p = [] \<and> pc_Name p \<noteq> [])
          in if (\<not> legacy \<and> \<not> valid_intent p) \<or> pc_WorkspaceDigest p = [] \<or> ps = []
             then Inl (PendingInvalid ''stored'')
             else (let p = p\<lparr>pc_Paths := sorted_paths ps\<rparr>
               in Inr (Some (p\<lparr>pc_Attributions := NormalizeSourceAttributions (pc_Attributions p) (pc_Paths p)\<rparr>))))))"

definition PendingCommit_read :: "ledger_error option \<Rightarrow> LedgerRecord \<Rightarrow> ledger_error + PendingCommit option" where
  "PendingCommit_read failed r = (case failed of Some e \<Rightarrow> Inl e | None \<Rightarrow> read_pending r)"

definition clear_pending :: "string \<Rightarrow> string \<Rightarrow> ledger_mutation" where
  "clear_pending requestID name r = (case lr_PendingCommit r of
       None \<Rightarrow> Inr (False, r)
     | Some p \<Rightarrow>
       if \<not> matchesPendingCommit p requestID name then Inr (False, r)
       else Inr (True, r\<lparr>lr_PendingCommit := None\<rparr>))"

text \<open>A keyed commit is named by its key and the name bound to it, a legacy one by its name.\<close>

definition names_commit :: "string \<Rightarrow> string \<Rightarrow> bool" where
  "names_commit requestID name \<longleftrightarrow> \<not> (requestID = [] \<and> name = []) \<and> \<not> (requestID \<noteq> [] \<and> name = [])"

definition ClearPendingCommit :: "call_env \<Rightarrow> string \<Rightarrow> string \<Rightarrow> LedgerRecord \<Rightarrow> (ledger_error + bool) \<times> LedgerRecord" where
  "ClearPendingCommit env requestID name r =
     (if \<not> names_commit (TrimSpace requestID) (TrimSpace name) then (Inl (PendingInvalid ''clear''), r)
      else run_call env (clear_pending (TrimSpace requestID) (TrimSpace name)) r)"

text \<open>
  What the snapshot captured, as the failing of a commit reads it: a path listed twice is dropped,
  and one listed a third time is back.
\<close>

definition toggle_capture :: "SourceAttribution \<Rightarrow> string \<Rightarrow> (string, SourceAttribution) gomap \<Rightarrow> (string, SourceAttribution) gomap" where
  "toggle_capture a p m = (if gget m p \<noteq> None then gdel p m else gput p a m)"

definition captured_owners :: "PendingCommit \<Rightarrow> (string, SourceAttribution) gomap" where
  "captured_owners pc = fold (\<lambda>a. fold (toggle_capture a) (sa_Paths a)) (pc_Attributions pc) []"

definition keep_captured :: "PendingCommit \<Rightarrow> SourcePathAttribution \<Rightarrow> SourcePathAttribution" where
  "keep_captured pc a =
     (if spa_Path a \<notin> set (pc_Paths pc) then a
      else case gget (captured_owners pc) (spa_Path a) of
          None \<Rightarrow> a\<lparr>spa_ThreadID := [], spa_RunID := []\<rparr>
        | Some o1 \<Rightarrow>
          if sa_ThreadID o1 \<noteq> spa_ThreadID a \<or> sa_RunID o1 \<noteq> spa_RunID a
          then a\<lparr>spa_ThreadID := [], spa_RunID := []\<rparr> else a)"

definition fail_pending :: "string \<Rightarrow> string \<Rightarrow> (string \<times> time) option \<Rightarrow> ledger_mutation" where
  "fail_pending requestID name fence r = (case lr_PendingCommit r of
       None \<Rightarrow> Inr (False, r)
     | Some p \<Rightarrow>
       if \<not> matchesPendingCommit p requestID name then Inr (False, r)
       else if (case fence of None \<Rightarrow> False | Some (reason, t) \<Rightarrow> pc_BlockedReason p \<noteq> reason \<or> pc_BlockedAt p \<noteq> Some t)
       then Inr (False, r)
       else Inr (True, r\<lparr>lr_SourcePathAttributions := map (keep_captured p) (lr_SourcePathAttributions r),
         lr_PendingCommit := None\<rparr>))"

definition failPendingCommit :: "call_env \<Rightarrow> string \<Rightarrow> string \<Rightarrow> (string \<times> time) option \<Rightarrow> LedgerRecord
    \<Rightarrow> (ledger_error + bool) \<times> LedgerRecord" where
  "failPendingCommit env requestID name fence r =
     (if \<not> names_commit (TrimSpace requestID) (TrimSpace name) then (Inl (PendingInvalid ''fail''), r)
      else run_call env (fail_pending (TrimSpace requestID) (TrimSpace name) fence) r)"

definition FailPendingCommit :: "call_env \<Rightarrow> string \<Rightarrow> string \<Rightarrow> LedgerRecord \<Rightarrow> (ledger_error + bool) \<times> LedgerRecord" where
  "FailPendingCommit env requestID name r = failPendingCommit env requestID name None r"

definition FailBlockedPendingCommit :: "call_env \<Rightarrow> string \<Rightarrow> string \<Rightarrow> string \<Rightarrow> time option \<Rightarrow> LedgerRecord
    \<Rightarrow> (ledger_error + bool) \<times> LedgerRecord" where
  "FailBlockedPendingCommit env requestID name reason blockedAt r =
     (case blockedAt of
        None \<Rightarrow> (Inl (PendingInvalid ''fail block''), r)
      | Some t \<Rightarrow>
        if TrimSpace name = [] \<or> TrimSpace reason = [] then (Inl (PendingInvalid ''fail block''), r)
        else failPendingCommit env requestID name (Some (TrimSpace reason, t)) r)"

section \<open>The receipt\<close>

definition settle_receipt :: "string \<Rightarrow> string list \<Rightarrow> ledger_error + CommitSettlement" where
  "settle_receipt digest raws =
     (if digest = [] then Inl (SettlementInvalid ''digest'')
      else case clean_all raws of
          Inl e \<Rightarrow> Inl (PathRejected e)
        | Inr ps \<Rightarrow> if ps = [] then Inl (SettlementInvalid ''paths'')
            else Inr \<lparr>cs_WorkspaceDigest = digest, cs_Paths = sorted_paths ps\<rparr>)"

definition RecordCommitSettlement :: "call_env \<Rightarrow> string \<Rightarrow> string list \<Rightarrow> LedgerRecord \<Rightarrow> (ledger_error + bool) \<times> LedgerRecord" where
  "RecordCommitSettlement env digest raws r = (case ce_early env of
       Some e \<Rightarrow> (Inl e, r)
     | None \<Rightarrow> (case settle_receipt digest raws of
         Inl e \<Rightarrow> (Inl e, r)
       | Inr t \<Rightarrow> run_call env (\<lambda>r. Inr (True, r\<lparr>lr_Settlement := Some t\<rparr>)) r))"

definition settle_pending :: "string \<Rightarrow> string \<Rightarrow> CommitSettlement \<Rightarrow> ledger_mutation" where
  "settle_pending requestID name t r = (case lr_PendingCommit r of
       None \<Rightarrow> Inl PendingChanged
     | Some p \<Rightarrow>
       if \<not> matchesPendingCommit p requestID name \<or> pc_Name p = [] then Inl PendingChanged
       else Inr (True, r\<lparr>lr_Settlement := Some t\<rparr>))"

definition RecordPendingCommitSettlement :: "call_env \<Rightarrow> string \<Rightarrow> string \<Rightarrow> string \<Rightarrow> string list \<Rightarrow> LedgerRecord
    \<Rightarrow> (ledger_error + bool) \<times> LedgerRecord" where
  "RecordPendingCommitSettlement env requestID name digest raws r =
     (if \<not> names_commit (TrimSpace requestID) (TrimSpace name) then (Inl (PendingInvalid ''settle''), r)
      else case ce_early env of
        Some e \<Rightarrow> (Inl e, r)
      | None \<Rightarrow> (case settle_receipt digest raws of
          Inl e \<Rightarrow> (Inl e, r)
        | Inr t \<Rightarrow> run_call env (settle_pending (TrimSpace requestID) (TrimSpace name) t) r))"

definition PendingCommitSettlement :: "ledger_error option \<Rightarrow> LedgerRecord \<Rightarrow> ledger_error + CommitSettlement option" where
  "PendingCommitSettlement failed r = (case failed of
       Some e \<Rightarrow> Inl e
     | None \<Rightarrow> (case lr_Settlement r of
         None \<Rightarrow> Inr None
       | Some t \<Rightarrow> (case clean_all (cs_Paths t) of
           Inl e \<Rightarrow> Inl (PathRejected e)
         | Inr ps \<Rightarrow>
           if cs_WorkspaceDigest t = [] \<or> ps = [] then Inl (SettlementInvalid ''stored'')
           else Inr (Some (t\<lparr>cs_Paths := sorted_paths ps\<rparr>)))))"

definition settle :: "CommitSettlement \<Rightarrow> ledger_mutation" where
  "settle t r = (case lr_Settlement r of
       None \<Rightarrow> Inr (False, r)
     | Some now \<Rightarrow>
       if cs_WorkspaceDigest now \<noteq> cs_WorkspaceDigest t then Inr (False, r)
       else Inr (True, r\<lparr>lr_UncommittedPaths := filter (\<lambda>p. p \<notin> set (cs_Paths t)) (lr_UncommittedPaths r),
         lr_SourcePathAttributions := removeSourcePathAttributions (lr_SourcePathAttributions r) (cs_Paths now),
         lr_Settlement := None\<rparr>))"

text \<open>The digest of the local bytes decides; between the read and the update others may write.\<close>

definition ReconcileCommitSettlement :: "call_env \<Rightarrow> (string list \<Rightarrow> ledger_error + string) \<Rightarrow> LedgerRecord \<Rightarrow> LedgerRecord
    \<Rightarrow> (ledger_error + bool) \<times> LedgerRecord" where
  "ReconcileCommitSettlement env digest seen r = (case ce_early env of
       Some e \<Rightarrow> (Inl e, r)
     | None \<Rightarrow> (case lr_Settlement seen of
         None \<Rightarrow> (Inr False, r)
       | Some t \<Rightarrow> (case digest (cs_Paths t) of
           Inl e \<Rightarrow> (Inl e, r)
         | Inr d \<Rightarrow> if cs_WorkspaceDigest t \<noteq> d then (Inr False, r) else run_call env (settle t) r)))"

section \<open>Previews\<close>

definition RecordPreviewCheckpoint :: "call_env \<Rightarrow> SourceChange \<Rightarrow> LedgerRecord \<Rightarrow> (ledger_error + bool) \<times> LedgerRecord" where
  "RecordPreviewCheckpoint env source r = run_call env (\<lambda>r. Inr (True, r\<lparr>lr_LastPreviewCheckpoint := Some source\<rparr>)) r"

definition LastSourceChange :: "ledger_error option \<Rightarrow> LedgerRecord \<Rightarrow> ledger_error + SourceChange option" where
  "LastSourceChange failed r = (case failed of Some e \<Rightarrow> Inl e | None \<Rightarrow> Inr (lr_LastSourceChange r))"

definition LastPreviewCheckpoint :: "ledger_error option \<Rightarrow> LedgerRecord \<Rightarrow> ledger_error + SourceChange option" where
  "LastPreviewCheckpoint failed r = (case failed of Some e \<Rightarrow> Inl e | None \<Rightarrow> Inr (lr_LastPreviewCheckpoint r))"

end
