(* ===== verification/Ledger_Steps.thy ===== *)
theory Ledger_Steps
  imports Commit_Slot
begin

text \<open>
  The ledger of one project under every mutation that the workspace code runs, in any order.

  Shown: revisions do not go back; a commit in flight keeps its intent and its name until the call
  that names it; a path stays uncommitted until a call makes it clean.
\<close>

section \<open>Every mutation of the code\<close>

inductive code_mutation :: "ledger_mutation \<Rightarrow> bool" where
  "code_mutation (reserve uid paths tag tree)"
| "code_mutation (finish m origin)"
| "code_mutation (abandon m)"
| "code_mutation (advance uid expected paths committed origin)"
| "code_mutation (give_up tm)"
| "code_mutation (raise_floor least)"
| "code_mutation (add_uncommitted paths)"
| "code_mutation (remove_uncommitted paths)"
| "code_mutation clear_uncommitted"
| "code_mutation (record_pending p)"
| "code_mutation (reserve_pending p)"
| "TrimSpace name \<noteq> [] \<Longrightarrow> code_mutation (bind_name requestID (TrimSpace name))"
| "code_mutation (block now requestID name reason message)"
| "code_mutation (retry_block requestID name token)"
| "code_mutation (clear_named_block requestID name reason blockedAt)"
| "code_mutation (clear_pending requestID name)"
| "code_mutation (fail_pending requestID name fence)"
| "code_mutation (\<lambda>r. Inr (True, r\<lparr>lr_Settlement := Some t\<rparr>))"
| "code_mutation (settle_pending requestID name t)"
| "code_mutation (settle t)"
| "code_mutation (\<lambda>r. Inr (True, r\<lparr>lr_LastPreviewCheckpoint := Some source\<rparr>))"

definition applies :: "ledger_mutation \<Rightarrow> LedgerRecord \<Rightarrow> LedgerRecord \<Rightarrow> bool" where
  "applies mutate r r' \<longleftrightarrow> (\<exists>next. mutate r = Inr (True, next) \<and> r' = NormalizeLedgerRecord next)"

text \<open>Whatever becomes of a call, the ledger is as it was or the mutation has been applied.\<close>

lemma ledger_Update_applies:
  assumes "ledger_Update outcome mutate r = (res, l)"
  shows "l = r \<or> applies mutate r l"
  using assms by (auto simp: ledger_Update_def applies_def split: ledger_outcome.splits sum.splits prod.splits if_splits)

lemma ledger_Update_result:
  assumes "ledger_Update outcome mutate r = (Inr r', l)"
  shows "r' = l" "l = r \<and> (\<exists>x. mutate r = Inr (False, x)) \<or> applies mutate r l"
  using assms by (auto simp: ledger_Update_def applies_def split: ledger_outcome.splits sum.splits prod.splits if_splits)

section \<open>Revisions\<close>

definition revision_room :: "LedgerRecord \<Rightarrow> bool" where
  "revision_room r \<longleftrightarrow> current_revision r + 1 < 2 ^ 64"

lemma revision_room_code [code]: "revision_room r \<longleftrightarrow> int (current_revision r) + 1 < 2 ^ 64"
  by (simp add: revision_room_def)

lemma next_revision: "revision_room r \<Longrightarrow> uint64_add (current_revision r) 1 = current_revision r + 1"
  by (simp add: revision_room_def uint64_add_def)

lemma put_pending_revision [simp]:
  "lr_SourceRevision (put_pending p r) = lr_SourceRevision r" "lr_SourceMutationID (put_pending p r) = lr_SourceMutationID r"
  by (simp_all add: put_pending_def)

text \<open>A mutation keeps the revision and its owner, or moves on.\<close>

definition moves :: "ledger_mutation \<Rightarrow> bool" where
  "moves mutate \<longleftrightarrow> (\<exists>uid paths tag tree. mutate = reserve uid paths tag tree)
     \<or> (\<exists>uid expected paths committed origin. mutate = advance uid expected paths committed origin)
     \<or> (\<exists>least. mutate = raise_floor least)"

lemma applies_revision:
  assumes "code_mutation mutate" "applies mutate r r'"
  shows "moves mutate \<or> lr_SourceRevision r' = lr_SourceRevision r \<and> lr_SourceMutationID r' = lr_SourceMutationID r"
  using assms
proof (cases rule: code_mutation.cases)
  case 1
  then show ?thesis unfolding moves_def by blast
next
  case 4
  then show ?thesis unfolding moves_def by blast
next
  case 6
  then show ?thesis unfolding moves_def by blast
qed (use assms(2) in \<open>auto simp: applies_def finish_def abandon_def give_up_def add_uncommitted_def remove_uncommitted_def
    clear_uncommitted_def record_pending_def reserve_pending_def bind_name_def block_def retry_block_def
    clear_named_block_def clear_pending_def fail_pending_def settle_pending_def settle_def Let_def
    split: if_splits option.splits\<close>)

lemma reserve_revision:
  assumes "reserve uid paths tag tree r = Inr (b, r')"
  shows "lr_SourceRevision r' = uint64_add (current_revision r) 1" "lr_SourceMutationID r' = uid" "tree_is_current tag tree r"
  using assms by (auto simp: reserve_def Let_def split: if_splits)

lemma advance_revision:
  assumes "advance uid expected paths committed origin r = Inr (b, r')"
  shows "lr_SourceRevision r' = uint64_add (current_revision r) 1" "lr_SourceMutationID r' = uid"
    "expected = None \<or> expected = Some (current_revision r)"
  using assms by (auto simp: advance_def Let_def split: if_splits)

lemma revision_grows:
  assumes "code_mutation mutate" "applies mutate r r'" "revision_room r"
  shows "lr_SourceRevision r \<le> lr_SourceRevision r'"
proof (cases "moves mutate")
  case True
  have "lr_SourceRevision r \<le> current_revision r + 1" by (simp add: current_revision_def)
  then show ?thesis
    using True assms(2) next_revision [OF assms(3)] reserve_revision(1) advance_revision(1)
    by (auto simp: moves_def applies_def raise_floor_def split: if_splits)
next
  case False
  then show ?thesis using applies_revision [OF assms(1,2)] by simp
qed

section \<open>Uncommitted paths\<close>

text \<open>The calls that make a path clean.\<close>

definition cleans :: "ledger_mutation \<Rightarrow> string \<Rightarrow> bool" where
  "cleans mutate p \<longleftrightarrow> (\<exists>paths. mutate = remove_uncommitted paths \<and> p \<in> set paths) \<or> mutate = clear_uncommitted
     \<or> (\<exists>uid expected paths origin. mutate = advance uid expected paths True origin \<and> p \<in> set paths)
     \<or> (\<exists>t. mutate = settle t \<and> p \<in> set (cs_Paths t))"

lemma put_pending_frame [simp]:
  "lr_UncommittedPaths (put_pending p r) = lr_UncommittedPaths r"
  "lr_SourcePathAttributions (put_pending p r) = lr_SourcePathAttributions r"
  "lr_PendingCommit (put_pending p r) = Some p" "lr_Settlement (put_pending p r) = lr_Settlement r"
  by (simp_all add: put_pending_def)

lemma uncommitted_stays:
  assumes code: "code_mutation mutate" and step: "applies mutate r r'" and r: "paths_normal (lr_UncommittedPaths r)"
    and p: "p \<in> set (lr_UncommittedPaths r)" "\<not> cleans mutate p"
  shows "p \<in> set (lr_UncommittedPaths r')"
proof -
  have trimmed: "TrimSpace p = p" "p \<noteq> []" using r p(1) by (auto simp: paths_normal_def)
  obtain n where n: "mutate r = Inr (True, n)" "r' = NormalizeLedgerRecord n" using step by (auto simp: applies_def)
  have norm: "p \<in> set (normalizeLedgerPaths ps)" if "p \<in> set ps" for ps
    using that trimmed by (force simp: set_normalizeLedgerPaths)
  have "p \<in> set (lr_UncommittedPaths n)"
    using code
  proof (cases rule: code_mutation.cases)
    case (4 i ex paths committed origin)
    have "p \<notin> set paths" if committed
    proof -
      have "mutate = advance i ex paths True origin" using 4 that by simp
      then show ?thesis using p(2) unfolding cleans_def by blast
    qed
    with 4 show ?thesis
      using n(1) p(1) norm by (cases committed) (auto simp: advance_def Let_def removeLedgerPaths_def split: if_splits)
  next
    case 5
    then show ?thesis using n(1) p norm by (auto simp: give_up_def Let_def split: if_splits)
  next
    case 7
    then show ?thesis using n(1) p norm by (auto simp: add_uncommitted_def Let_def)
  next
    case 8
    then show ?thesis using n(1) p by (auto simp: remove_uncommitted_def Let_def cleans_def split: if_splits)
  next
    case 9
    then show ?thesis using p(2) by (simp add: cleans_def)
  next
    case 20
    then show ?thesis using n(1) p by (auto simp: settle_def cleans_def split: if_splits option.splits)
  qed (use n(1) p(1) in \<open>auto simp: reserve_def finish_def abandon_def raise_floor_def record_pending_def
      reserve_pending_def bind_name_def block_def retry_block_def clear_named_block_def clear_pending_def
      fail_pending_def settle_pending_def Let_def split: if_splits option.splits\<close>)
  then show ?thesis using norm by (simp add: n(2) NormalizeLedgerRecord_def)
qed

section \<open>The commit in flight\<close>

text \<open>What a commit asks for, which nothing may change while it is in flight.\<close>

definition intent :: "PendingCommit \<Rightarrow> PendingCommit" where
  "intent p = (clear_block p)\<lparr>pc_Name := [], pc_RetryToken := []\<rparr>"

definition ends_commit :: "ledger_mutation \<Rightarrow> PendingCommit \<Rightarrow> bool" where
  "ends_commit mutate p \<longleftrightarrow> (\<exists>requestID name. matchesPendingCommit p requestID name
     \<and> (mutate = clear_pending requestID name \<or> (\<exists>fence. mutate = fail_pending requestID name fence)))"

lemma intent_fields:
  "pc_RequestID (intent p) = pc_RequestID p" "pc_RepositoryRef (intent p) = pc_RepositoryRef p"
  "pc_RepositoryUID (intent p) = pc_RepositoryUID p" "pc_BundleRef (intent p) = pc_BundleRef p"
  "pc_BundleDigest (intent p) = pc_BundleDigest p" "pc_Message (intent p) = pc_Message p" "pc_Branch (intent p) = pc_Branch p"
  "pc_WorkspaceDigest (intent p) = pc_WorkspaceDigest p" "pc_Paths (intent p) = pc_Paths p"
  "pc_SourceRevision (intent p) = pc_SourceRevision p" "pc_Attributions (intent p) = pc_Attributions p"
  by (simp_all add: intent_def clear_block_def)

lemma intent_simps [simp]:
  "intent (clear_block p) = intent p" "intent (p\<lparr>pc_Name := n\<rparr>) = intent p" "intent (p\<lparr>pc_RetryToken := t\<rparr>) = intent p"
  "intent (p\<lparr>pc_BlockedReason := a, pc_BlockedMessage := b, pc_BlockedAt := c\<rparr>) = intent p"
  by (simp_all add: intent_def clear_block_def)

text \<open>The canonical form of a commit: trimmed fields, and the key, which is kept when it is blank.\<close>

definition kept_key :: "string \<Rightarrow> string" where
  "kept_key k = (if TrimSpace k = [] then k else TrimSpace k)"

lemma pending_fields_key: "pc_RequestID (pending_fields x) = TrimSpace (pc_RequestID x)"
  by (simp add: pending_fields_def trim_pending_def clear_block_def Let_def)

lemma pending_fields_name: "pc_Name (pending_fields x) = TrimSpace (pc_Name x)"
  by (simp add: pending_fields_def trim_pending_def clear_block_def Let_def)

lemma same_update: "pc_RequestID x = k \<Longrightarrow> x\<lparr>pc_RequestID := k\<rparr> = x"
  by auto

lemma normalize_pending_form:
  assumes "normalize_pending x = Some y"
  shows "y = (pending_fields x)\<lparr>pc_RequestID := kept_key (pc_RequestID x)\<rparr>"
proof (cases "TrimSpace (pc_RequestID x) = [] \<and> pc_RequestID x \<noteq> []")
  case True
  then show ?thesis
    using assms by (auto simp: normalize_pending_fields Let_def pending_fields_key valid_intent_def kept_key_def split: if_splits)
next
  case False
  then have k: "kept_key (pc_RequestID x) = TrimSpace (pc_RequestID x)" by (auto simp: kept_key_def)
  have "y = pending_fields x"
    using assms False by (auto simp: normalize_pending_fields Let_def pending_fields_key split: if_splits)
  then show ?thesis unfolding k using same_update [OF pending_fields_key] by simp
qed

lemma intent_key: "intent (x\<lparr>pc_RequestID := k\<rparr>) = (intent x)\<lparr>pc_RequestID := k\<rparr>"
  by (simp add: intent_def clear_block_def)

lemma intent_of_fields:
  "intent (pending_fields x) = (trim_pending (intent x))\<lparr>pc_Paths := normalizeLedgerPaths (pc_Paths (intent x)),
      pc_Attributions := NormalizeSourceAttributions (pc_Attributions (intent x)) (normalizeLedgerPaths (pc_Paths (intent x)))\<rparr>"
  by (simp add: pending_fields_def trim_pending_def intent_def clear_block_def Let_def)

lemma valid_intent_of: "valid_intent x = valid_intent (intent x)"
  by (simp add: valid_intent_def intent_fields)

text \<open>A commit with the same intent keeps it in canonical form.\<close>

lemma normalize_same_intent:
  assumes p: "normalize_pending p = Some p" and q: "intent q = intent p" "TrimSpace (pc_Name q) = pc_Name q"
    "pc_Name q \<noteq> [] \<or> pc_RequestID p \<noteq> []"
  shows "\<exists>q'. normalize_pending q = Some q' \<and> intent q' = intent p \<and> pc_Name q' = pc_Name q"
proof -
  have eq: "intent (pending_fields q) = intent (pending_fields p)" unfolding intent_of_fields q(1) ..
  have key: "pc_RequestID q = pc_RequestID p" using arg_cong [OF q(1), of pc_RequestID] by (simp add: intent_fields)
  have valid: "valid_intent (pending_fields q) = valid_intent (pending_fields p)"
      "pc_WorkspaceDigest (pending_fields q) = pc_WorkspaceDigest (pending_fields p)"
      "pc_Paths (pending_fields q) = pc_Paths (pending_fields p)"
    using valid_intent_of [of "pending_fields q"] valid_intent_of [of "pending_fields p"] eq
      arg_cong [OF eq, of pc_WorkspaceDigest] arg_cong [OF eq, of pc_Paths]
    unfolding intent_fields by simp_all
  have "normalize_pending q \<noteq> None"
  proof (cases "pc_RequestID p = []")
    case True
    then show ?thesis
      using p q(2,3) valid key
      by (auto simp: normalize_pending_fields Let_def pending_fields_key pending_fields_name valid_intent_def split: if_splits)
  qed (simp add: normalize_pending_fields Let_def key)
  then obtain q' where q': "normalize_pending q = Some q'" by blast
  have "intent q' = intent p"
    using arg_cong [OF normalize_pending_form [OF q'], of intent] arg_cong [OF normalize_pending_form [OF p], of intent]
    by (simp only: intent_key eq key)
  moreover have "pc_Name q' = pc_Name q"
    using normalize_pending_form [OF q'] q(2) by (simp add: pending_fields_name)
  ultimately show ?thesis using q' by blast
qed

text \<open>
  No mutation but the one that names it ends a commit in flight, changes its intent, or takes its
  name away.
\<close>

lemma canonical_pending: "canonical r \<Longrightarrow> lr_PendingCommit r = Some p \<Longrightarrow> normalize_pending p = Some p"
  using canonical_parts(2) [of r] by simp

lemma pending_name_trimmed:
  assumes "normalize_pending p = Some p"
  shows "TrimSpace (pc_Name p) = pc_Name p" "pc_RequestID p = [] \<Longrightarrow> pc_Name p \<noteq> []"
  using normalize_pending_normal [OF assms] by (simp_all add: pending_normal_def)

lemma written_pending:
  assumes "lr_PendingCommit n = Some q" "normalize_pending p = Some p" "intent q = intent p"
    "TrimSpace (pc_Name q) = pc_Name q" "pc_Name p = [] \<or> pc_Name q = pc_Name p" "pc_Name q \<noteq> [] \<or> pc_RequestID p \<noteq> []"
  shows "\<exists>p'. lr_PendingCommit (NormalizeLedgerRecord n) = Some p' \<and> intent p' = intent p
    \<and> (pc_Name p \<noteq> [] \<longrightarrow> pc_Name p' = pc_Name p)"
  using normalize_same_intent [OF assms(2,3,4,6)] assms(1,5) by (auto simp: NormalizeLedgerRecord_def)

lemma commit_stays_in_flight:
  assumes code: "code_mutation mutate" and step: "applies mutate r r'" and r: "canonical r" "lr_PendingCommit r = Some p"
    and others: "\<not> ends_commit mutate p"
  shows "\<exists>p'. lr_PendingCommit r' = Some p' \<and> intent p' = intent p \<and> (pc_Name p \<noteq> [] \<longrightarrow> pc_Name p' = pc_Name p)"
proof -
  have p: "normalize_pending p = Some p" by (rule canonical_pending [OF r])
  note name = pending_name_trimmed [OF p]
  obtain n where n: "mutate r = Inr (True, n)" "r' = NormalizeLedgerRecord n" using step by (auto simp: applies_def)
  have "\<exists>q. lr_PendingCommit n = Some q \<and> intent q = intent p \<and> TrimSpace (pc_Name q) = pc_Name q
      \<and> (pc_Name p = [] \<or> pc_Name q = pc_Name p) \<and> (pc_Name q \<noteq> [] \<or> pc_RequestID p \<noteq> [])"
    using code
  proof (cases rule: code_mutation.cases)
    case (12 nm requestID)
    then show ?thesis
      using n(1) r(2) name
      by (auto simp: bind_name_def put_pending_def split: if_splits) (auto simp: clear_block_def)
  next
    case 13
    then show ?thesis using n(1) r(2) name by (auto simp: block_def put_pending_def split: if_splits)
  next
    case 14
    then show ?thesis using n(1) r(2) name
      by (auto simp: retry_block_def put_pending_def split: if_splits) (auto simp: clear_block_def)
  next
    case 15
    then show ?thesis using n(1) r(2) name
      by (auto simp: clear_named_block_def put_pending_def split: if_splits) (auto simp: clear_block_def)
  next
    case (16 requestID nm)
    then show ?thesis using n(1) r(2) others unfolding ends_commit_def
      by (auto simp: clear_pending_def split: if_splits)
  next
    case (17 requestID nm fence)
    then show ?thesis using n(1) r(2) others unfolding ends_commit_def
      by (auto simp: fail_pending_def split: if_splits)
  qed (use n(1) r(2) name in \<open>auto simp: reserve_def finish_def abandon_def advance_def give_up_def raise_floor_def
      add_uncommitted_def remove_uncommitted_def clear_uncommitted_def record_pending_def
      reserve_pending_def settle_pending_def settle_def Let_def split: if_splits option.splits\<close>)
  then obtain q where q: "lr_PendingCommit n = Some q" "intent q = intent p" "TrimSpace (pc_Name q) = pc_Name q"
      "pc_Name p = [] \<or> pc_Name q = pc_Name p" "pc_Name q \<noteq> [] \<or> pc_RequestID p \<noteq> []" by blast
  from written_pending [OF q(1) p q(2-5)] show ?thesis unfolding n(2) .
qed

end
