(* ===== verification/Ledger_Replicas.thy ===== *)
theory Ledger_Replicas
  imports Ledger_Steps
begin

text \<open>
  The replicas that hold copies of one project's tree over the shared ledger: their edits, their
  replacements of the tree, their crashes, and every other call.

  Shown: in every reachable state at most one replica's copy counts as current, so an edit of one
  replica never starts from bytes that another has left behind.
\<close>

section \<open>Calls that succeed\<close>

lemma update_succeeds:
  assumes "ledger_Update outcome mutate r = (Inr r', l)" "\<And>r x. mutate r \<noteq> Inr (False, x)"
  shows "\<exists>r1. mutate r = Inr (True, r1) \<and> r' = NormalizeLedgerRecord r1 \<and> l = NormalizeLedgerRecord r1"
  using assms by (auto simp: ledger_Update_def split: ledger_outcome.splits sum.splits prod.splits if_splits)

lemma always_change:
  "reserve uid paths tag tree r \<noteq> Inr (False, x)" "finish m origin r \<noteq> Inr (False, x)" "abandon m r \<noteq> Inr (False, x)"
  "advance uid expected paths committed origin r \<noteq> Inr (False, x)"
  by (simp_all add: reserve_def finish_def abandon_def advance_def Let_def)

lemma begin_succeeds:
  assumes "beginSourceMutation env uid raws w = (Inr m, w')"
  shows "\<exists>paths r1. paths \<noteq> [] \<and> clean_unique [] raws = Inr paths
    \<and> reserve uid paths (wc_tag w) (wc_tree w) (wc_ledger w) = Inr (True, r1)
    \<and> m = reservation uid paths (wc_tag w) (wc_tree w) (Some (wc_ledger w)) \<and> sm_paths m = paths
    \<and> w' = w\<lparr>wc_ledger := NormalizeLedgerRecord r1\<rparr>"
proof -
  obtain paths where p: "ce_early env = None" "clean_unique [] raws = Inr paths" "paths \<noteq> []"
    using assms by (auto simp: beginSourceMutation_def split: option.splits sum.splits if_splits)
  obtain x l where u: "ledger_Update (ce_outcome env) (reserve uid paths (wc_tag w) (wc_tree w)) (wc_ledger w) = (x, l)"
    by fastforce
  then obtain r where x: "x = Inr r" "w' = w\<lparr>wc_ledger := l\<rparr>"
      "m = reservation uid paths (wc_tag w) (wc_tree w) (seen_record (ce_outcome env) (wc_ledger w))"
    using assms p by (cases x) (auto simp: beginSourceMutation_def Let_def split: if_splits)
  obtain r1 where n: "reserve uid paths (wc_tag w) (wc_tree w) (wc_ledger w) = Inr (True, r1)" "l = NormalizeLedgerRecord r1"
    using update_succeeds [OF u [unfolded x(1)] always_change(1)] by blast
  have "seen_record (ce_outcome env) (wc_ledger w) = Some (wc_ledger w)"
    using u x(1) by (auto simp: ledger_Update_def seen_record_def split: ledger_outcome.splits sum.splits)
  then show ?thesis using p n x by (auto simp: reservation_def)
qed

lemma complete_succeeds:
  assumes "completeSourceMutation env origin m w = (None, w')"
  shows "\<exists>r1. finish m origin (wc_ledger w) = Inr (True, r1)
    \<and> w' = (if sm_localTreeWasCurrent m \<and> lr_SourceRevision (NormalizeLedgerRecord r1) = sm_revision m
        then tagLocalTree (ce_tags env) (sm_revision m) (w\<lparr>wc_ledger := NormalizeLedgerRecord r1\<rparr>)
        else w\<lparr>wc_ledger := NormalizeLedgerRecord r1\<rparr>)"
proof -
  obtain x l where u: "ledger_Update (ce_outcome env) (finish m origin) (wc_ledger w) = (x, l)" by fastforce
  then obtain r where x: "x = Inr r" "ce_early env = None"
    using assms by (cases x) (auto simp: completeSourceMutation_def split: option.splits)
  obtain r1 where n: "finish m origin (wc_ledger w) = Inr (True, r1)" "r = NormalizeLedgerRecord r1" "l = r"
    using update_succeeds [OF u [unfolded x(1)] always_change(2)] by blast
  show ?thesis
    using assms u x n(1) unfolding n(2,3) by (intro exI [of _ "r1"]) (simp add: completeSourceMutation_def split: if_splits)
qed

section \<open>Replicas\<close>

text \<open>
  One replica: the tag of its tree, whether the tree is there, and the mutation it has reserved or
  the replacement it has written and may have to undo. A call of a replica runs on the shared
  ledger and its own tag.
\<close>

datatype flight = Idle | Editing sourceMutation | Replacing sourceTreeMutation

record replica =
  rp_tag :: uint64
  rp_tree :: bool
  rp_flight :: flight

record project_copies =
  pr_ledger :: LedgerRecord
  pr_replica :: "nat \<Rightarrow> replica"
  pr_ids :: "string \<Rightarrow> nat option"

definition working_copy_of :: "project_copies \<Rightarrow> nat \<Rightarrow> working_copy" where
  "working_copy_of s k = \<lparr>wc_ledger = pr_ledger s, wc_tag = rp_tag (pr_replica s k), wc_tree = rp_tree (pr_replica s k)\<rparr>"

definition put_copy :: "nat \<Rightarrow> working_copy \<Rightarrow> flight \<Rightarrow> project_copies \<Rightarrow> project_copies" where
  "put_copy k w f s = s\<lparr>pr_ledger := wc_ledger w,
     pr_replica := (pr_replica s)(k := \<lparr>rp_tag = wc_tag w, rp_tree = wc_tree w, rp_flight = f\<rparr>)\<rparr>"

definition issue :: "string \<Rightarrow> nat \<Rightarrow> project_copies \<Rightarrow> project_copies" where
  "issue uid k s = s\<lparr>pr_ids := (pr_ids s)(uid \<mapsto> k)\<rparr>"

text \<open>
  Mutation IDs are new. A replica that crashes forgets what it was doing, and may lose its tag or
  its tree. The ledger moves by any call of the code besides.
\<close>

inductive copies_step :: "project_copies \<Rightarrow> project_copies \<Rightarrow> bool" where
  begin_edit: "rp_flight (pr_replica s k) = Idle \<Longrightarrow> pr_ids s uid = None \<Longrightarrow> uid \<noteq> [] \<Longrightarrow> revision_room (pr_ledger s)
    \<Longrightarrow> beginSourceMutation env uid raws (working_copy_of s k) = (res, w)
    \<Longrightarrow> copies_step s (put_copy k w (case res of Inl e \<Rightarrow> Idle | Inr m \<Rightarrow> Editing m) (issue uid k s))"
| complete_edit: "rp_flight (pr_replica s k) = Editing m
    \<Longrightarrow> completeSourceMutation env origin m (working_copy_of s k) = (res, w)
    \<Longrightarrow> copies_step s (put_copy k w (if res = None then Idle else Editing m) s)"
| fail_edit: "rp_flight (pr_replica s k) = Editing m
    \<Longrightarrow> failSourceMutation env (Some m) restored (working_copy_of s k) = (res, w)
    \<Longrightarrow> copies_step s (put_copy k w Idle s)"
| replace_tree: "rp_flight (pr_replica s k) = Idle \<Longrightarrow> pr_ids s uid = None \<Longrightarrow> uid \<noteq> [] \<Longrightarrow> revision_room (pr_ledger s)
    \<Longrightarrow> advanceAndRecord env uid expected raws committed origin (working_copy_of s k) = ((res, tm), w)
    \<Longrightarrow> copies_step s (put_copy k w (if res = None then Idle else Replacing tm) (issue uid k s))"
| confirm_replace: "rp_flight (pr_replica s k) = Replacing tm
    \<Longrightarrow> readSourceMutation True (tm_revision tm) (tm_id tm) (pr_ledger s) = Some r
    \<Longrightarrow> copies_step s (put_copy k (tagLocalTree works (tm_revision tm) (working_copy_of s k)) Idle s)"
| undo_replace: "rp_flight (pr_replica s k) = Replacing tm
    \<Longrightarrow> reconcileTreeRollback env tm restored (working_copy_of s k) = (res, w)
    \<Longrightarrow> copies_step s (put_copy k w Idle s)"
| crash: "copies_step s (put_copy k \<lparr>wc_ledger = pr_ledger s, wc_tag = (if lost then 0 else rp_tag (pr_replica s k)), wc_tree = tree\<rparr> Idle s)"
| raise_revision: "EnsureSourceRevisionFloor env least (working_copy_of s k) = (res, w)
    \<Longrightarrow> copies_step s (s\<lparr>pr_ledger := wc_ledger w\<rparr>)"
| other_call: "code_mutation mutate \<Longrightarrow> \<not> moves mutate \<Longrightarrow> ledger_Update outcome mutate (pr_ledger s) = (res, l)
    \<Longrightarrow> copies_step s (s\<lparr>pr_ledger := l\<rparr>)"

inductive copies_reachable :: "project_copies \<Rightarrow> bool" where
  start: "pr_ledger s = empty_record \<Longrightarrow> (\<forall>k. rp_tag (pr_replica s k) = 0 \<and> rp_flight (pr_replica s k) = Idle)
    \<Longrightarrow> pr_ids s = Map.empty \<Longrightarrow> copies_reachable s"
| step: "copies_reachable s \<Longrightarrow> copies_step s s' \<Longrightarrow> copies_reachable s'"

text \<open>
  A tag is never ahead of the ledger, and a tag at the current revision belongs to the replica
  that was issued the ID the ledger names.
\<close>

definition tag_ok :: "project_copies \<Rightarrow> nat \<Rightarrow> uint64 \<Rightarrow> bool" where
  "tag_ok s k tag \<longleftrightarrow> tag \<le> lr_SourceRevision (pr_ledger s)
     \<and> (tag = lr_SourceRevision (pr_ledger s) \<and> tag \<noteq> 0 \<longrightarrow> pr_ids s (lr_SourceMutationID (pr_ledger s)) = Some k)"

definition flight_ok :: "project_copies \<Rightarrow> nat \<Rightarrow> flight \<Rightarrow> bool" where
  "flight_ok s k f = (case f of Idle \<Rightarrow> True
     | Editing m \<Rightarrow> pr_ids s (sm_id m) = Some k
     | Replacing tm \<Rightarrow> tm_id tm = [] \<and> tm_revision tm = 0 \<or> pr_ids s (tm_id tm) = Some k)"

definition copies_inv :: "project_copies \<Rightarrow> bool" where
  "copies_inv s \<longleftrightarrow> (\<forall>k. tag_ok s k (rp_tag (pr_replica s k)) \<and> flight_ok s k (rp_flight (pr_replica s k)))
     \<and> pr_ids s [] = None"

text \<open>How one call may move the ledger and the tag of its replica.\<close>

definition ledger_moved :: "string \<Rightarrow> LedgerRecord \<Rightarrow> LedgerRecord \<Rightarrow> bool" where
  "ledger_moved uid l l' \<longleftrightarrow> lr_SourceRevision l < lr_SourceRevision l' \<and> lr_SourceMutationID l' = uid"

definition ledger_kept :: "LedgerRecord \<Rightarrow> LedgerRecord \<Rightarrow> bool" where
  "ledger_kept l l' \<longleftrightarrow> lr_SourceRevision l' = lr_SourceRevision l \<and> lr_SourceMutationID l' = lr_SourceMutationID l"

definition tag_moves :: "string \<Rightarrow> working_copy \<Rightarrow> working_copy \<Rightarrow> bool" where
  "tag_moves uid w w' \<longleftrightarrow> wc_tag w' = wc_tag w
     \<or> wc_tag w' = lr_SourceRevision (wc_ledger w') \<and> lr_SourceMutationID (wc_ledger w') = uid"

lemma tagLocalTree_ledger [simp]: "wc_ledger (tagLocalTree works n w) = wc_ledger w"
  by (simp add: tagLocalTree_def)

lemma tagLocalTree_tag: "wc_tag (tagLocalTree works n w) = wc_tag w \<or> wc_tag (tagLocalTree works n w) = n"
  by (simp add: tagLocalTree_def)

lemma not_moving:
  assumes "ledger_Update outcome mutate r = (res, l)" "code_mutation mutate" "\<not> moves mutate"
  shows "ledger_kept r l"
  using ledger_Update_applies [OF assms(1)] applies_revision [OF assms(2)] assms(3) by (auto simp: ledger_kept_def)

lemma reserve_applies:
  assumes "applies (reserve uid paths tag tree) r r'" "revision_room r"
  shows "ledger_moved uid r r'"
  using assms next_revision [OF assms(2)] reserve_revision(1,2)
  by (auto simp: applies_def ledger_moved_def current_revision_def split: if_splits)

lemma advance_applies:
  assumes "applies (advance uid expected paths committed origin) r r'" "revision_room r"
  shows "ledger_moved uid r r'"
  using assms next_revision [OF assms(2)] advance_revision(1,2)
  by (auto simp: applies_def ledger_moved_def current_revision_def split: if_splits)

lemma fenced_applies:
  "applies (finish m origin) r r' \<Longrightarrow> ledger_kept r r' \<and> holds_revision (sm_revision m) (sm_id m) r"
  "applies (abandon m) r r' \<Longrightarrow> ledger_kept r r' \<and> holds_revision (sm_revision m) (sm_id m) r"
  "applies (give_up tm) r r' \<Longrightarrow> ledger_kept r r' \<and> holds_revision (tm_revision tm) (tm_id tm) r"
  by (auto simp: applies_def finish_def abandon_def give_up_def ledger_kept_def Let_def split: if_splits)

lemma readSourceMutation_Some:
  "readSourceMutation confirms n uid l = Some r \<Longrightarrow> r = l \<and> lr_SourceRevision l = n \<and> lr_SourceMutationID l = uid"
  by (auto simp: readSourceMutation_def split: if_splits)

lemma tag_moves_ledger [simp]: "tag_moves uid w (w\<lparr>wc_ledger := l\<rparr>)"
  by (simp add: tag_moves_def)

lemma tag_moves_tag:
  "lr_SourceRevision l = n \<Longrightarrow> lr_SourceMutationID l = uid \<Longrightarrow> tag_moves uid w (tagLocalTree works n (w\<lparr>wc_ledger := l\<rparr>))"
  by (simp add: tag_moves_def tagLocalTree_def)

lemma tag_moves_confirmed:
  "readSourceMutation confirms n uid l \<noteq> None \<Longrightarrow> tag_moves uid w (tagLocalTree works n (w\<lparr>wc_ledger := l\<rparr>))"
  using readSourceMutation_Some by (blast intro: tag_moves_tag)

lemma tag_moves_restore:
  assumes "restore_tag env m restored r (w\<lparr>wc_ledger := l\<rparr>) = (res, w')" "r = l" "lr_SourceMutationID l = sm_id m"
  shows "tag_moves (sm_id m) w w'" "wc_ledger w' = l"
  using assms by (auto simp: restore_tag_def tag_moves_def tagLocalTree_def split: if_splits)

text \<open>What each call may do to the ledger and to the tag.\<close>

lemma begin_effect:
  assumes "beginSourceMutation env uid raws w = (res, w')" "revision_room (wc_ledger w)"
  shows "ledger_kept (wc_ledger w) (wc_ledger w') \<or> ledger_moved uid (wc_ledger w) (wc_ledger w')"
    "tag_moves uid w w'" "res = Inr m \<Longrightarrow> sm_id m = uid"
proof -
  have kept: "ledger_kept l l" for l by (simp add: ledger_kept_def)
  show "ledger_kept (wc_ledger w) (wc_ledger w') \<or> ledger_moved uid (wc_ledger w) (wc_ledger w')"
  proof -
    have "wc_ledger w' = wc_ledger w \<or> (\<exists>paths. applies (reserve uid paths (wc_tag w) (wc_tree w)) (wc_ledger w) (wc_ledger w'))"
      using assms(1) ledger_Update_applies
      by (fastforce simp: beginSourceMutation_def Let_def split: option.splits sum.splits prod.splits if_splits)
    then show ?thesis using kept reserve_applies [OF _ assms(2)] by metis
  qed
  show "tag_moves uid w w'"
  proof (cases "ce_early env = None \<and> (\<exists>paths. clean_unique [] raws = Inr paths \<and> paths \<noteq> [])")
    case True
    then obtain paths where paths: "ce_early env = None" "clean_unique [] raws = Inr paths" "paths \<noteq> []" by blast
    let ?m = "reservation uid paths (wc_tag w) (wc_tree w) (seen_record (ce_outcome env) (wc_ledger w))"
    obtain x l where u: "ledger_Update (ce_outcome env) (reserve uid paths (wc_tag w) (wc_tree w)) (wc_ledger w) = (x, l)"
      by fastforce
    have "w' = w\<lparr>wc_ledger := l\<rparr> \<or> w' = tagLocalTree (ce_tags env) (sm_revision ?m) (w\<lparr>wc_ledger := l\<rparr>)
        \<and> readSourceMutation (ce_confirms env) (sm_revision ?m) uid l \<noteq> None"
      using assms(1) paths u
      by (cases x) (auto simp: beginSourceMutation_def Let_def split: if_splits option.splits)
    then show ?thesis by (auto intro: tag_moves_confirmed tag_moves_ledger)
  qed (use assms(1) in \<open>auto simp: beginSourceMutation_def tag_moves_def split: option.splits sum.splits if_splits\<close>)
  show "sm_id m = uid" if "res = Inr m"
    using assms(1) that
    by (auto simp: beginSourceMutation_def reservation_def Let_def split: option.splits sum.splits prod.splits if_splits)
qed

lemma complete_effect:
  assumes "completeSourceMutation env origin m w = (res, w')"
  shows "ledger_kept (wc_ledger w) (wc_ledger w')" "tag_moves (sm_id m) w w'"
proof -
  have kept: "ledger_kept l l" for l by (simp add: ledger_kept_def)
  show "ledger_kept (wc_ledger w) (wc_ledger w')"
    using assms ledger_Update_applies fenced_applies(1) kept
    by (fastforce simp: completeSourceMutation_def split: option.splits sum.splits prod.splits if_splits)
  show "tag_moves (sm_id m) w w'"
  proof (cases "ce_early env")
    case None
    obtain x l where u: "ledger_Update (ce_outcome env) (finish m origin) (wc_ledger w) = (x, l)" by fastforce
    show ?thesis
    proof (cases x)
      case (Inl e)
      then show ?thesis using assms None u by (auto simp: completeSourceMutation_def tag_moves_def)
    next
      case (Inr r)
      have "r = l" "lr_SourceMutationID l = sm_id m"
        using ledger_Update_result [OF u [unfolded Inr]] fenced_applies(1)
        by (auto simp: ledger_kept_def holds_revision_def finish_def Let_def split: if_splits)
      moreover have "w' = (if sm_localTreeWasCurrent m \<and> lr_SourceRevision r = sm_revision m
          then tagLocalTree (ce_tags env) (sm_revision m) (w\<lparr>wc_ledger := l\<rparr>) else w\<lparr>wc_ledger := l\<rparr>)"
        using assms None u Inr by (auto simp: completeSourceMutation_def split: if_splits)
      ultimately show ?thesis by (auto simp: tag_moves_def tagLocalTree_def split: if_splits)
    qed
  qed (use assms in \<open>auto simp: completeSourceMutation_def tag_moves_def\<close>)
qed

lemma finished_holds:
  assumes "ledger_Update outcome mutate l0 = (Inr r, l)" "\<And>r x. mutate r \<noteq> Inr (False, x)"
  shows "r = l" "applies mutate l0 l"
  using ledger_Update_result [OF assms(1)] assms(2) by auto

lemma abandon_effect:
  assumes "failSourceMutation env (Some m) restored w = (res, w')"
  shows "ledger_kept (wc_ledger w) (wc_ledger w')" "tag_moves (sm_id m) w w'"
proof -
  have kept: "ledger_kept l l" for l by (simp add: ledger_kept_def)
  have "ledger_kept (wc_ledger w) (wc_ledger w') \<and> tag_moves (sm_id m) w w'"
  proof (cases "ce_early env")
    case None
    obtain x l where u: "ledger_Update (ce_outcome env) (abandon m) (wc_ledger w) = (x, l)" by fastforce
    have moved: "ledger_kept (wc_ledger w) l"
      using ledger_Update_applies [OF u] fenced_applies(2) kept by blast
    show ?thesis
    proof (cases x)
      case (Inl e)
      have "wc_ledger w' = l \<and> (w' = w\<lparr>wc_ledger := l\<rparr>
          \<or> (lr_SourceMutationID l = sm_id m \<and> restore_tag env m restored l (w\<lparr>wc_ledger := l\<rparr>) = (res, w')))"
        using assms None u Inl
        by (auto simp: failSourceMutation_def split: if_splits option.splits
            dest: readSourceMutation_Some tag_moves_restore(2) [OF _ refl])
      then show ?thesis using moved tag_moves_restore(1) tag_moves_ledger by metis
    next
      case (Inr r)
      note r = finished_holds [OF u [unfolded Inr] always_change(3)]
      have "lr_SourceMutationID l = sm_id m"
        using fenced_applies(2) [OF r(2)] by (simp add: ledger_kept_def holds_revision_def)
      moreover have "restore_tag env m restored l (w\<lparr>wc_ledger := l\<rparr>) = (res, w')"
        using assms None u Inr r(1) by (simp add: failSourceMutation_def)
      ultimately show ?thesis using tag_moves_restore [OF _ refl] moved by blast
    qed
  qed (use assms kept in \<open>auto simp: failSourceMutation_def tag_moves_def\<close>)
  then show "ledger_kept (wc_ledger w) (wc_ledger w')" "tag_moves (sm_id m) w w'" by simp_all
qed

lemma replace_effect:
  assumes "advanceAndRecord env uid expected raws committed origin w = ((res, tm), w')" "revision_room (wc_ledger w)"
  shows "ledger_kept (wc_ledger w) (wc_ledger w') \<or> ledger_moved uid (wc_ledger w) (wc_ledger w')"
    "tag_moves uid w w'" "tm_id tm = uid \<or> tm_id tm = [] \<and> tm_revision tm = 0"
proof -
  have kept: "ledger_kept l l" for l by (simp add: ledger_kept_def)
  have "(ledger_kept (wc_ledger w) (wc_ledger w') \<or> ledger_moved uid (wc_ledger w) (wc_ledger w'))
      \<and> tag_moves uid w w' \<and> (tm_id tm = uid \<or> tm_id tm = [] \<and> tm_revision tm = 0)"
  proof (cases "ce_early env = None \<and> (\<exists>paths. clean_all raws = Inr paths)")
    case True
    then obtain paths where paths: "ce_early env = None" "clean_all raws = Inr paths" by blast
    obtain x l where u: "ledger_Update (ce_outcome env) (advance uid expected paths committed origin) (wc_ledger w) = (x, l)"
      by fastforce
    have moved: "ledger_kept (wc_ledger w) l \<or> ledger_moved uid (wc_ledger w) l"
      using ledger_Update_applies [OF u] advance_applies [OF _ assms(2)] kept by blast
    show ?thesis
    proof (cases x)
      case (Inl e)
      have "w' = w\<lparr>wc_ledger := l\<rparr>" "tm_id tm = uid"
        using assms(1) paths u Inl by (auto simp: advanceAndRecord_def Let_def split: if_splits)
      then show ?thesis using moved by simp
    next
      case (Inr r)
      note r = finished_holds [OF u [unfolded Inr] always_change(4)]
      have "lr_SourceMutationID l = uid"
        using advance_applies [OF r(2) assms(2)] by (simp add: ledger_moved_def)
      moreover have "w' = tagLocalTree (ce_tags env) (lr_SourceRevision l) (w\<lparr>wc_ledger := l\<rparr>)" "tm_id tm = uid"
        using assms(1) paths u Inr r(1) by (auto simp: advanceAndRecord_def Let_def)
      ultimately show ?thesis using moved tag_moves_tag [OF refl] by simp
    qed
  qed (use assms(1) kept in \<open>auto simp: advanceAndRecord_def tag_moves_def no_tree_mutation_def split: option.splits sum.splits\<close>)
  then show "ledger_kept (wc_ledger w) (wc_ledger w') \<or> ledger_moved uid (wc_ledger w) (wc_ledger w')"
    "tag_moves uid w w'" "tm_id tm = uid \<or> tm_id tm = [] \<and> tm_revision tm = 0" by simp_all
qed

lemma undo_effect:
  assumes "reconcileTreeRollback env tm restored w = (res, w')"
  shows "ledger_kept (wc_ledger w) (wc_ledger w')" "tag_moves (tm_id tm) w w'" "tm_id tm = [] \<Longrightarrow> w' = w"
proof -
  have kept: "ledger_kept l l" for l by (simp add: ledger_kept_def)
  have "ledger_kept (wc_ledger w) (wc_ledger w') \<and> tag_moves (tm_id tm) w w'"
  proof (cases "tm_revision tm = 0 \<or> tm_id tm = [] \<or> ce_early env \<noteq> None")
    case False
    then have go: "tm_revision tm \<noteq> 0" "tm_id tm \<noteq> []" "ce_early env = None" by auto
    obtain x l where u: "ledger_Update (ce_outcome env) (give_up tm) (wc_ledger w) = (x, l)" by fastforce
    have moved: "ledger_kept (wc_ledger w) l"
      using ledger_Update_applies [OF u] fenced_applies(3) kept by blast
    have "w' = w\<lparr>wc_ledger := l\<rparr> \<or> (lr_SourceMutationID l = tm_id tm \<and> lr_SourceRevision l = tm_revision tm
        \<and> w' = tagLocalTree (ce_tags env) (tm_revision tm) (w\<lparr>wc_ledger := l\<rparr>))"
    proof (cases x)
      case (Inl e)
      then show ?thesis using assms go u
        by (auto simp: reconcileTreeRollback_def split: if_splits option.splits dest: readSourceMutation_Some)
    next
      case (Inr r)
      then have "r = l" using ledger_Update_result(1) u by blast
      then show ?thesis using assms go u Inr by (auto simp: reconcileTreeRollback_def split: if_splits)
    qed
    then show ?thesis using moved tag_moves_tag by auto
  qed (use assms kept in \<open>auto simp: reconcileTreeRollback_def tag_moves_def split: if_splits\<close>)
  then show "ledger_kept (wc_ledger w) (wc_ledger w')" "tag_moves (tm_id tm) w w'" by simp_all
  show "w' = w" if "tm_id tm = []" using assms that by (simp add: reconcileTreeRollback_def)
qed

lemma raise_effect:
  assumes "EnsureSourceRevisionFloor env least w = (res, w')"
  shows "ledger_kept (wc_ledger w) (wc_ledger w') \<or> ledger_moved [] (wc_ledger w) (wc_ledger w')"
proof -
  have "wc_ledger w' = wc_ledger w \<or> applies (raise_floor least) (wc_ledger w) (wc_ledger w')"
    using assms ledger_Update_applies
    by (fastforce simp: EnsureSourceRevisionFloor_def split: if_splits option.splits sum.splits prod.splits)
  then show ?thesis by (auto simp: applies_def raise_floor_def ledger_kept_def ledger_moved_def split: if_splits)
qed

section \<open>The invariant\<close>

text \<open>A step of one replica: its ledger and tag move, the others keep their tags.\<close>

lemma inv_put:
  assumes s: "copies_inv s" and ids: "pr_ids s \<subseteq>\<^sub>m pr_ids s'" "pr_ids s' [] = None"
    and same: "pr_replica s' = pr_replica s"
    and moved: "ledger_kept (pr_ledger s) (wc_ledger w) \<or> ledger_moved uid (pr_ledger s) (wc_ledger w)"
    and tag: "tag_moves uid (working_copy_of s k) w" "wc_tag w \<noteq> rp_tag (pr_replica s k) \<Longrightarrow> pr_ids s' uid = Some k"
    and f: "flight_ok s' k f"
  shows "copies_inv (put_copy k w f s')"
proof -
  have others: "tag_ok (put_copy k w f s') j (rp_tag (pr_replica s j))" for j
  proof -
    have "tag_ok s j (rp_tag (pr_replica s j))" using s by (simp add: copies_inv_def)
    then show ?thesis
      using moved ids(1)
      by (auto simp: tag_ok_def put_copy_def ledger_kept_def ledger_moved_def map_le_def dom_def)
  qed
  have mine: "tag_ok (put_copy k w f s') k (wc_tag w)"
  proof (cases "wc_tag w = rp_tag (pr_replica s k)")
    case True
    then show ?thesis using others [of k] by simp
  next
    case False
    then show ?thesis using tag by (auto simp: tag_ok_def put_copy_def tag_moves_def working_copy_of_def)
  qed
  have "flight_ok (put_copy k w f s') j (rp_flight (pr_replica (put_copy k w f s') j))" for j
  proof (cases "j = k")
    case True
    then show ?thesis using f by (auto simp: flight_ok_def put_copy_def split: flight.splits)
  next
    case False
    have "flight_ok s j (rp_flight (pr_replica s j))" using s by (simp add: copies_inv_def)
    then show ?thesis
      using False ids(1) same by (auto simp: flight_ok_def put_copy_def map_le_def dom_def split: flight.splits)
  qed
  moreover have "rp_tag (pr_replica (put_copy k w f s') j) = (if j = k then wc_tag w else rp_tag (pr_replica s j))" for j
    using same by (simp add: put_copy_def)
  ultimately show ?thesis using others mine ids(2) by (auto simp: copies_inv_def put_copy_def)
qed

lemma map_le_issue: "pr_ids s uid = None \<Longrightarrow> pr_ids s \<subseteq>\<^sub>m pr_ids (issue uid k s)"
  by (auto simp: map_le_def issue_def)

lemma issue_simps [simp]:
  "pr_ledger (issue uid k s) = pr_ledger s" "pr_replica (issue uid k s) = pr_replica s"
  "pr_ids (issue uid k s) = (pr_ids s)(uid \<mapsto> k)"
  by (simp_all add: issue_def)

lemma working_copy_simps [simp]:
  "wc_ledger (working_copy_of s k) = pr_ledger s" "wc_tag (working_copy_of s k) = rp_tag (pr_replica s k)"
  by (simp_all add: working_copy_of_def)

lemma kept_refl [simp]: "ledger_kept l l"
  by (simp add: ledger_kept_def)

text \<open>A step in which only the ledger moves, and not to a revision of some replica.\<close>

lemma inv_ledger:
  assumes s: "copies_inv s" and moved: "ledger_kept (pr_ledger s) l \<or> ledger_moved [] (pr_ledger s) l"
  shows "copies_inv (s\<lparr>pr_ledger := l\<rparr>)"
proof -
  have "tag_ok (s\<lparr>pr_ledger := l\<rparr>) j (rp_tag (pr_replica s j))" for j
  proof -
    have "tag_ok s j (rp_tag (pr_replica s j))" using s by (simp add: copies_inv_def)
    then show ?thesis using moved by (auto simp: tag_ok_def ledger_kept_def ledger_moved_def)
  qed
  then show ?thesis using s by (auto simp: copies_inv_def flight_ok_def split: flight.splits)
qed

lemma inv_flight: "copies_inv s \<Longrightarrow> flight_ok s k (rp_flight (pr_replica s k))" "copies_inv s \<Longrightarrow> pr_ids s [] = None"
  by (simp_all add: copies_inv_def)

lemma copies_inv_step:
  assumes step: "copies_step s s'" and inv: "copies_inv s"
  shows "copies_inv s'"
  using step
proof cases
  case (begin_edit k uid env raws res w)
  note e = begin_effect [OF begin_edit(6)]
  have "pr_ids (issue uid k s) [] = None" using inv_flight(2) [OF inv] begin_edit(4) by simp
  moreover have "flight_ok (issue uid k s) k (case res of Inl e \<Rightarrow> Idle | Inr m \<Rightarrow> Editing m)"
    using e(3) begin_edit(5) by (cases res) (auto simp: flight_ok_def)
  ultimately show ?thesis
    unfolding begin_edit(1) using e(1,2) begin_edit(5) map_le_issue [OF begin_edit(3)]
    by (intro inv_put [OF inv, of _ _ uid]) simp_all
next
  case (complete_edit k m env origin res w)
  note e = complete_effect [OF complete_edit(3)]
  have own: "pr_ids s (sm_id m) = Some k" using inv_flight(1) [OF inv, of k] complete_edit(2) by (simp add: flight_ok_def)
  show ?thesis
    unfolding complete_edit(1) using e own inv_flight(2) [OF inv]
    by (intro inv_put [OF inv, of _ _ "sm_id m"]) (simp_all add: flight_ok_def)
next
  case (fail_edit k m env restored res w)
  note e = abandon_effect [OF fail_edit(3)]
  have own: "pr_ids s (sm_id m) = Some k" using inv_flight(1) [OF inv, of k] fail_edit(2) by (simp add: flight_ok_def)
  show ?thesis
    unfolding fail_edit(1) using e own inv_flight(2) [OF inv]
    by (intro inv_put [OF inv, of _ _ "sm_id m"]) (simp_all add: flight_ok_def)
next
  case (replace_tree k uid env expected raws committed origin res tm w)
  note e = replace_effect [OF replace_tree(6)]
  have "pr_ids (issue uid k s) [] = None" using inv_flight(2) [OF inv] replace_tree(4) by simp
  moreover have "flight_ok (issue uid k s) k (if res = None then Idle else Replacing tm)"
    using e(3) replace_tree(5) by (auto simp: flight_ok_def)
  ultimately show ?thesis
    unfolding replace_tree(1) using e(1,2) replace_tree(5) map_le_issue [OF replace_tree(3)]
    by (intro inv_put [OF inv, of _ _ uid]) simp_all
next
  case (confirm_replace k tm r works)
  have seen: "lr_SourceRevision (pr_ledger s) = tm_revision tm" "lr_SourceMutationID (pr_ledger s) = tm_id tm"
    using readSourceMutation_Some [OF confirm_replace(3)] by simp_all
  have own: "pr_ids s (tm_id tm) = Some k" if "tm_revision tm \<noteq> 0"
    using inv_flight(1) [OF inv, of k] confirm_replace(2) that by (auto simp: flight_ok_def)
  show ?thesis
    unfolding confirm_replace(1) using inv_flight(2) [OF inv] seen own
    by (intro inv_put [OF inv, of _ _ "tm_id tm"])
      (auto simp: flight_ok_def tag_moves_def tagLocalTree_def split: if_splits)
next
  case (undo_replace k tm env restored res w)
  note e = undo_effect [OF undo_replace(3)]
  have own: "pr_ids s (tm_id tm) = Some k" if "tm_id tm \<noteq> []"
    using inv_flight(1) [OF inv, of k] undo_replace(2) that by (auto simp: flight_ok_def)
  show ?thesis
    unfolding undo_replace(1) using e(1,2) inv_flight(2) [OF inv]
  proof (intro inv_put [OF inv, of _ _ "tm_id tm"])
    show "pr_ids s (tm_id tm) = Some k" if "wc_tag w \<noteq> rp_tag (pr_replica s k)"
    proof (cases "tm_id tm = []")
      case True
      then show ?thesis using that e(3) by simp
    qed (rule own)
  qed (simp_all add: flight_ok_def)
next
  case (crash k lost tree)
  show ?thesis
  proof (cases lost)
    case False
    then show ?thesis
      unfolding crash using inv_flight(2) [OF inv]
      by (intro inv_put [OF inv, of _ _ undefined]) (simp_all add: flight_ok_def tag_moves_def)
  next
    case True
    have "tag_ok s j (rp_tag (pr_replica s j))" for j using inv by (simp add: copies_inv_def)
    then show ?thesis
      unfolding crash using inv True
      by (auto simp: copies_inv_def put_copy_def tag_ok_def flight_ok_def split: flight.splits)
  qed
next
  case (raise_revision env least k res w)
  then show ?thesis using inv_ledger [OF inv] raise_effect [OF raise_revision(2)] by simp
next
  case (other_call mutate outcome res l)
  then show ?thesis using inv_ledger [OF inv] not_moving by blast
qed

lemma copies_reachable_inv: "copies_reachable s \<Longrightarrow> copies_inv s"
proof (induction rule: copies_reachable.induct)
  case (start s)
  then show ?case by (simp add: copies_inv_def tag_ok_def flight_ok_def empty_record_def)
next
  case (step s s')
  then show ?case using copies_inv_step by blast
qed

text \<open>Two replicas cannot both be current once anything has been written.\<close>

lemma current_is_unique:
  assumes "copies_reachable s"
    "tree_is_current (rp_tag (pr_replica s a)) (rp_tree (pr_replica s a)) (pr_ledger s)"
    "tree_is_current (rp_tag (pr_replica s b)) (rp_tree (pr_replica s b)) (pr_ledger s)" "a \<noteq> b"
  shows "lr_SourceRevision (pr_ledger s) = 0"
proof (rule ccontr)
  assume n: "lr_SourceRevision (pr_ledger s) \<noteq> 0"
  have "tag_ok s a (rp_tag (pr_replica s a))" "tag_ok s b (rp_tag (pr_replica s b))"
    using copies_reachable_inv [OF assms(1)] by (simp_all add: copies_inv_def)
  then show False
    using assms(2-4) n by (auto simp: tag_ok_def tree_is_current_def pristine_def current_revision_def)
qed

text \<open>An edit that is let in starts from a current copy.\<close>

lemma begin_needs_current:
  assumes "beginSourceMutation env uid raws w = (Inr m, w')"
  shows "tree_is_current (wc_tag w) (wc_tree w) (wc_ledger w)"
  using begin_succeeds [OF assms] reserve_revision(3) by blast

lemma one_replica_begins:
  assumes "copies_reachable s" "a \<noteq> b" "lr_SourceRevision (pr_ledger s) \<noteq> 0"
    "beginSourceMutation env uid raws (working_copy_of s a) = (Inr m, w)"
    "beginSourceMutation env' uid' raws' (working_copy_of s b) = (res, w')"
  shows "\<exists>e. res = Inl e"
proof (cases res)
  case (Inr m')
  show ?thesis
    using begin_needs_current [OF assms(4)] begin_needs_current [OF assms(5) [unfolded Inr]]
      current_is_unique [OF assms(1) _ _ assms(2)] assms(3)
    by (simp add: working_copy_of_def)
qed simp

section \<open>Owners after a whole edit\<close>

lemma whole_edit:
  assumes r: "canonical (wc_ledger w)" "tidy_record (wc_ledger w)" "revision_room (wc_ledger w)"
      "newer (wc_ledger w) (current_revision (wc_ledger w) + 1)"
    and edit: "beginSourceMutation env uid raws w = (Inr m, w1)" "completeSourceMutation env' origin m w1 = (None, w2)"
    and stable: "\<forall>p \<in> set (sm_paths m). stable_path p"
  shows "owner_of (wc_ledger w2) q =
      (if q \<in> set (sm_paths m) then joined (owner_of (wc_ledger w) q) (author origin) else owner_of (wc_ledger w) q)"
    "lr_SourceRevision (wc_ledger w2) = current_revision (wc_ledger w) + 1"
    "ce_tags env' \<Longrightarrow> wc_tag w2 = lr_SourceRevision (wc_ledger w2)"
proof -
  let ?r = "wc_ledger w"
  have room: "uint64_add (current_revision ?r) 1 = current_revision ?r + 1" by (rule next_revision [OF r(3)])
  obtain paths r1 where b: "paths \<noteq> []" "reserve uid paths (wc_tag w) (wc_tree w) ?r = Inr (True, r1)"
      "m = reservation uid paths (wc_tag w) (wc_tree w) (Some ?r)" "sm_paths m = paths"
      "w1 = w\<lparr>wc_ledger := NormalizeLedgerRecord r1\<rparr>"
    using begin_succeeds [OF edit(1)] by blast
  obtain r2 where c: "finish m origin (NormalizeLedgerRecord r1) = Inr (True, r2)"
      "wc_ledger w2 = NormalizeLedgerRecord r2"
      "lr_SourceRevision (NormalizeLedgerRecord r2) = sm_revision m \<Longrightarrow> sm_localTreeWasCurrent m
        \<Longrightarrow> w2 = tagLocalTree (ce_tags env') (sm_revision m) (w1\<lparr>wc_ledger := NormalizeLedgerRecord r2\<rparr>)"
    using complete_succeeds [OF edit(2)] by (auto simp: b(5) split: if_splits)
  have m: "sm_revision m = current_revision ?r + 1" "sm_localTreeWasCurrent m" "sm_id m = uid"
    using b(2,3) room by (auto simp: reservation_def reserve_def split: if_splits)
  show "owner_of (wc_ledger w2) q =
      (if q \<in> set (sm_paths m) then joined (owner_of ?r q) (author origin) else owner_of ?r q)"
    unfolding b(4) c(2) using stable r(4) b(4)
    by (intro edit_joins_author [OF r(1,2) b(1) _ room [symmetric] _ _ b(2) c(1) [unfolded b(3)]]) simp_all
  have "applies (finish m origin) (NormalizeLedgerRecord r1) (NormalizeLedgerRecord r2)" using c(1) by (auto simp: applies_def)
  from fenced_applies(1) [OF this]
  have "lr_SourceRevision (NormalizeLedgerRecord r2) = lr_SourceRevision (NormalizeLedgerRecord r1)"
    unfolding ledger_kept_def by blast
  then show n: "lr_SourceRevision (wc_ledger w2) = current_revision ?r + 1"
    using reserve_revision(1) [OF b(2)] room c(2) by simp
  show "wc_tag w2 = lr_SourceRevision (wc_ledger w2)" if "ce_tags env'"
    using that c(3) n m c(2) by (simp add: tagLocalTree_def)
qed

end
