(* ===== verification/Workspace_Replace.thy ===== *)
theory Workspace_Replace
  imports Workspace_Rollback Ledger_Replicas
begin

text \<open>
  \<open>ReplaceTree\<close> as a whole (\<open>src/workspace/tree.go\<close>, \<open>src/workspace/store.go\<close>): it reads the tree, plans,
  stages, checks that the tree is still the one it read, commits, and moves the ledger; when the
  ledger refuses it rolls back. Stage and backup directories are inside the workspace in the code,
  where no walk sees them; here they are apart from the disk.

  Shown: a replacement that succeeds leaves the wanted files and has moved the ledger; one that
  fails leaves every file as it was, if no call of the rollback fails and no new file lies two
  levels below an old one.
\<close>

section \<open>Reading the tree\<close>

text \<open>
  \<open>strings.EqualFold\<close> with a name in small ASCII letters: besides capitals, the long s and the Kelvin
  sign fold to one.
\<close>

fun fold_name :: "string \<Rightarrow> string" where
  "fold_name [] = []"
| "fold_name (a # s) =
     (if a = CHR 0xC5 \<and> take 1 s = [CHR 0xBF] then CHR ''s'' # fold_name (drop 1 s)
      else if a = CHR 0xE2 \<and> take 2 s = [CHR 0x84, CHR 0xAA] then CHR ''k'' # fold_name (drop 2 s)
      else lower_byte a # fold_name s)"

definition skipped_dir :: "string \<Rightarrow> bool" where
  "skipped_dir name \<longleftrightarrow> name = ''.git'' \<or> name = ''node_modules'' \<or> fold_name name = workspaceSnapshotDirectory
     \<or> HasPrefix name workspaceTempFilePrefix"

definition visible :: "string list \<Rightarrow> bool" where
  "visible q \<longleftrightarrow> q \<noteq> [] \<and> list_all (\<lambda>c. \<not> skipped_dir c) (butlast q) \<and> \<not> HasPrefix (last q) workspaceTempFilePrefix"

definition walkFiles :: "disk \<Rightarrow> string list list" where
  "walkFiles d = filter (\<lambda>q. file_at d q \<noteq> None \<and> visible q) (map fst (gentries d))"

text \<open>The walk stops at the first file too many; the caller refuses such a tree.\<close>

definition allFiles :: "disk \<Rightarrow> string list" where
  "allFiles d = sort (map join_slash (walkFiles d))"

datatype replace_error =
    BadPath workspace_error
  | Refused ledger_error
  | OnDisk fs_error
  | NotAFile string
  | TreeChanged

fun read_tree :: "(string \<Rightarrow> string) \<Rightarrow> disk \<Rightarrow> (string, currentTreeFile) gomap \<Rightarrow> string list
    \<Rightarrow> replace_error + (string, currentTreeFile) gomap" where
  "read_tree fileVersion d result [] = Inr result"
| "read_tree fileVersion d result (p # rest) = (case cleanProjectPath p of
       Inl e \<Rightarrow> Inl (BadPath e)
     | Inr clean \<Rightarrow> (case file_at d (path_parts clean) of
         None \<Rightarrow> Inl (NotAFile clean)
       | Some (content, mode) \<Rightarrow>
         read_tree fileVersion d (gput clean \<lparr>cur_version = fileVersion content, cur_mode = mode\<rparr> result) rest))"

definition currentTree :: "(string \<Rightarrow> string) \<Rightarrow> disk \<Rightarrow> replace_error + (string, currentTreeFile) gomap" where
  "currentTree fileVersion d =
     (if maxWorkspaceTreeFiles < length (allFiles d) then Inl (BadPath TooManyFiles)
      else read_tree fileVersion d [] (allFiles d))"

definition same_versions :: "(string, currentTreeFile) gomap \<Rightarrow> (string, currentTreeFile) gomap \<Rightarrow> bool" where
  "same_versions current observed \<longleftrightarrow> length (gentries observed) = length (gentries current)
     \<and> list_all (\<lambda>(p, before). map_option cur_version (gget observed p) = Some (cur_version before)) (gentries current)"

definition verifyTreeBaseline :: "(string \<Rightarrow> string) \<Rightarrow> (string, currentTreeFile) gomap \<Rightarrow> disk \<Rightarrow> replace_error option" where
  "verifyTreeBaseline fileVersion current d = (case currentTree fileVersion d of
       Inl e \<Rightarrow> Some e
     | Inr observed \<Rightarrow> if same_versions current observed then None else Some TreeChanged)"

section \<open>Staging\<close>

fun stage_entries :: "bool list \<Rightarrow> (nat \<times> treeEntry) list \<Rightarrow> (nat, disk) gomap \<Rightarrow> fs_error + (nat, disk) gomap" where
  "stage_entries faults [] stage = Inr stage"
| "stage_entries faults ((i, e) # rest) stage =
     (if te_operation e = ManagedFileDelete then stage_entries faults rest stage
      else if faults \<noteq> [] \<and> hd faults then Inl EIO
      else stage_entries (drop 1 faults) rest (gput i [([], FileNode (te_content e) (te_mode e))] stage))"

definition stageTreeEntries :: "bool list \<Rightarrow> treeEntry list \<Rightarrow> fs_error + (nat, disk) gomap" where
  "stageTreeEntries faults es = stage_entries faults (enumerate 0 es) []"

section \<open>The replacement\<close>

record replace_env =
  re_read :: "ledger_error option"
  re_mkdir :: "fs_error option"
  re_temp :: "fs_error option"
  re_stage :: "bool list"
  re_other :: "disk \<Rightarrow> disk"
  re_commit :: "bool list"
  re_ledger :: call_env
  re_confirms :: bool
  re_rollback :: "bool list"
  re_undo :: call_env

record replace_options =
  ro_Files :: "ws_file list"
  ro_ExpectedSourceRevision :: "uint64 option"
  ro_PreservePaths :: "string list"
  ro_PreserveOmitted :: bool
  ro_Committed :: bool

record replace_result =
  rr_Written :: "string list"
  rr_Deleted :: "string list"
  rr_SourceRevision :: uint64

record workspace =
  ws_disk :: disk
  ws_copy :: working_copy

definition before_commit :: "disk \<Rightarrow> (nat, disk) gomap \<Rightarrow> bool list \<Rightarrow> tree_state" where
  "before_commit d stage faults = \<lparr>ts_disk = d, ts_stage = stage, ts_backup = [], ts_backed = [], ts_committed = [],
     ts_faults = faults\<rparr>"

definition undo_files :: "replace_env \<Rightarrow> treeEntry list \<Rightarrow> tree_state \<Rightarrow> bool \<times> disk" where
  "undo_files env es s = (case rollbackTreeWithStatus es (s\<lparr>ts_faults := re_rollback env\<rparr>) of
     (restored, s') \<Rightarrow> (restored, ts_disk s'))"

text \<open>From the first rename to the end. A ledger write whose answer was lost is looked for before the rollback.\<close>

definition commit_and_record :: "replace_env \<Rightarrow> string \<Rightarrow> replace_options \<Rightarrow> SourceChange \<Rightarrow> treeEntry list \<Rightarrow> string list
    \<Rightarrow> (nat, disk) gomap \<Rightarrow> workspace \<Rightarrow> (replace_error + uint64) \<times> workspace" where
  "commit_and_record env uid opts origin es changed stage w =
     (case commit_tree es (before_commit (ws_disk w) stage (re_commit env)) of
        (Some e, s) \<Rightarrow> (Inl (OnDisk e), w\<lparr>ws_disk := snd (undo_files env es s)\<rparr>)
      | (None, s) \<Rightarrow>
        (case advanceAndRecord (re_ledger env) uid (ro_ExpectedSourceRevision opts) changed (ro_Committed opts) origin (ws_copy w) of
           ((None, m), c) \<Rightarrow> (Inr (tm_revision m), \<lparr>ws_disk = ts_disk s, ws_copy = c\<rparr>)
         | ((Some e, m), c) \<Rightarrow>
           if \<not> tm_callbackRejected m \<and> 0 < tm_revision m
             \<and> readSourceMutation (re_confirms env) (tm_revision m) (tm_id m) (wc_ledger c) \<noteq> None
           then (Inr (tm_revision m),
             \<lparr>ws_disk = ts_disk s, ws_copy = tagLocalTree (ce_tags (re_ledger env)) (tm_revision m) c\<rparr>)
           else (case undo_files env es s of (restored, d) \<Rightarrow>
             (Inl (Refused e), \<lparr>ws_disk = d, ws_copy = snd (reconcileTreeRollback (re_undo env) m restored c)\<rparr>))))"

definition make_dir :: "workspace \<Rightarrow> workspace" where
  "make_dir w = w\<lparr>ws_disk := (if gget (ws_disk w) [] = None then gput [] DirNode (ws_disk w) else ws_disk w),
     ws_copy := (ws_copy w)\<lparr>wc_tree := True\<rparr>\<rparr>"

text \<open>Before the baseline is verified, other processes may have written to the tree.\<close>

definition found_later :: "replace_env \<Rightarrow> workspace \<Rightarrow> workspace" where
  "found_later env w = (make_dir w)\<lparr>ws_disk := re_other env (ws_disk (make_dir w))\<rparr>"

definition preserved :: "replace_options \<Rightarrow> string list \<Rightarrow> (string, currentTreeFile) gomap \<Rightarrow> string set" where
  "preserved opts kept current = set kept \<union> (if ro_PreserveOmitted opts then set (map fst (gentries current)) else {})"

definition ReplaceTree :: "replace_env \<Rightarrow> (string \<Rightarrow> string) \<Rightarrow> string \<Rightarrow> replace_options \<Rightarrow> SourceChange \<Rightarrow> workspace
    \<Rightarrow> (replace_error + replace_result) \<times> workspace" where
  "ReplaceTree env fileVersion uid opts origin w = (case normalizeTreeFiles (ro_Files opts) of
       Inl e \<Rightarrow> (Inl (BadPath e), w)
     | Inr files \<Rightarrow> (case sourceRevision (re_read env) (wc_ledger (ws_copy w)) of
         Inl e \<Rightarrow> (Inl (Refused e), w)
       | Inr now \<Rightarrow>
         if ro_ExpectedSourceRevision opts \<noteq> None \<and> ro_ExpectedSourceRevision opts \<noteq> Some now
         then (Inl (Refused SourceRevisionConflict), w)
         else (case currentTree fileVersion (ws_disk w) of
           Inl e \<Rightarrow> (Inl e, w)
         | Inr current \<Rightarrow> (case clean_all (ro_PreservePaths opts) of
             Inl e \<Rightarrow> (Inl (BadPath e), w)
           | Inr kept \<Rightarrow>
             (let (es, written, deleted, changed) = planTreeReplacement fileVersion files current (preserved opts kept current)
              in if es = [] then (Inr \<lparr>rr_Written = [], rr_Deleted = [], rr_SourceRevision = now\<rparr>, w)
                 else (case re_mkdir env of
                   Some e \<Rightarrow> (Inl (OnDisk e), w)
                 | None \<Rightarrow> (case re_temp env of
                   Some e \<Rightarrow> (Inl (OnDisk e), make_dir w)
                 | None \<Rightarrow> (case stageTreeEntries (re_stage env) es of
                     Inl e \<Rightarrow> (Inl (OnDisk e), make_dir w)
                   | Inr stage \<Rightarrow>
                     (case verifyTreeBaseline fileVersion current (ws_disk (found_later env w)) of
                        Some e \<Rightarrow> (Inl e, found_later env w)
                      | None \<Rightarrow> (case commit_and_record env uid opts origin es changed stage (found_later env w) of
                          (Inl e, w) \<Rightarrow> (Inl e, w)
                        | (Inr n, w) \<Rightarrow>
                          (Inr \<lparr>rr_Written = written, rr_Deleted = deleted, rr_SourceRevision = n\<rparr>, w)))))))))))"

section \<open>What the walk finds\<close>

definition contents :: "disk \<Rightarrow> string \<Rightarrow> string option" where
  "contents d p = map_option fst (file_at d (path_parts p))"

text \<open>
  Names of files have no slash, and the paths the walk lists are in canonical form, which not every
  accepted path is (\<open>clean_is_not_idempotent\<close>).
\<close>

definition tidy_disk :: "disk \<Rightarrow> bool" where
  "tidy_disk d \<longleftrightarrow> (\<forall>q. file_at d q \<noteq> None \<longrightarrow> (\<forall>c \<in> set q. slash \<notin> set c))
     \<and> (\<forall>q. file_at d q \<noteq> None \<and> visible q \<longrightarrow> stable_path (join_slash q))"

definition as_current :: "(string \<Rightarrow> string) \<Rightarrow> string \<times> nat \<Rightarrow> currentTreeFile" where
  "as_current fileVersion f = \<lparr>cur_version = fileVersion (fst f), cur_mode = snd f\<rparr>"

lemma as_current_pair [simp]: "as_current fileVersion (c, m) = \<lparr>cur_version = fileVersion c, cur_mode = m\<rparr>"
  by (simp add: as_current_def)

lemma join_parts [simp]: "join_slash (path_parts p) = p"
  unfolding path_parts_def by (rule join_Split)

lemma parts_inj: "path_parts p = path_parts q \<longleftrightarrow> p = q"
  by (metis join_parts)

lemma allFiles_iff:
  assumes "tidy_disk d"
  shows "p \<in> set (allFiles d) \<longleftrightarrow> file_at d (path_parts p) \<noteq> None \<and> visible (path_parts p)"
proof -
  have keys: "file_at d q \<noteq> None \<Longrightarrow> q \<in> set (map fst (gentries d))" for q
    using al.entry_keys [of d] by (force simp: file_at_def split: option.splits)
  have "set (walkFiles d) = {q. file_at d q \<noteq> None \<and> visible q}"
    unfolding walkFiles_def set_filter using keys by blast
  then have "set (allFiles d) = join_slash ` {q. file_at d q \<noteq> None \<and> visible q}" by (simp add: allFiles_def)
  moreover have "path_parts (join_slash q) = q" if "file_at d q \<noteq> None" "visible q" for q
    using that assms by (intro parts_join) (auto simp: tidy_disk_def visible_def)
  ultimately show ?thesis by (force simp: image_iff)
qed

lemma read_tree_lookup:
  assumes "read_tree fileVersion d m ps = Inr m'" "\<forall>p \<in> set ps. stable_path p"
  shows "gget m' p = (if p \<in> set ps then map_option (as_current fileVersion) (file_at d (path_parts p)) else gget m p)"
  using assms
proof (induction ps arbitrary: m)
  case (Cons q ps)
  then obtain content mode where q: "cleanProjectPath q = Inr q" "file_at d (path_parts q) = Some (content, mode)"
      "read_tree fileVersion d (gput q \<lparr>cur_version = fileVersion content, cur_mode = mode\<rparr> m) ps = Inr m'"
    by (auto simp: stable_path_def split: option.splits prod.splits)
  show ?case using Cons.IH [OF q(3)] Cons.prems(2) q(2) by (auto simp: al.get_put)
qed simp

lemma currentTree_lookup:
  assumes "currentTree fileVersion d = Inr m" "tidy_disk d"
  shows "gget m p = (if visible (path_parts p) then map_option (as_current fileVersion) (file_at d (path_parts p)) else None)"
proof -
  have "\<forall>p \<in> set (allFiles d). stable_path p"
    using assms(2) allFiles_iff [OF assms(2)] unfolding tidy_disk_def by (metis join_parts)
  moreover have "read_tree fileVersion d [] (allFiles d) = Inr m" using assms(1) by (simp add: currentTree_def split: if_splits)
  ultimately have "gget m p = (if p \<in> set (allFiles d) then map_option (as_current fileVersion) (file_at d (path_parts p)) else None)"
    using read_tree_lookup [of fileVersion d "[]" "allFiles d" m p] by simp
  then show ?thesis using allFiles_iff [OF assms(2), of p] by auto
qed

text \<open>When the versions are the same, so are the paths.\<close>

lemma same_versions_lookup:
  assumes "same_versions current observed"
  shows "map_option cur_version (gget observed p) = map_option cur_version (gget current p)"
proof -
  let ?K = "\<lambda>m. set (map fst (gentries m))"
  have K: "q \<in> ?K m \<longleftrightarrow> gget m q \<noteq> None" for q and m :: "(string, currentTreeFile) gomap" by (rule entry_key_iff)
  have pair: "gget current q = Some f \<Longrightarrow> (q, f) \<in> set (gentries current)" for q f
    using al.entries_get [of q f current] by simp
  have in_both: "map_option cur_version (gget observed q) = Some (cur_version f)" if "gget current q = Some f" for q f
    using assms pair [OF that] by (auto simp: same_versions_def list_all_iff)
  then have sub: "?K current \<subseteq> ?K observed" using K by (metis not_None_eq option.map_disc_iff subsetI)
  have card: "card (?K m) = length (gentries m)" for m :: "(string, currentTreeFile) gomap"
    using al.entries_distinct [of m] by (metis distinct_card length_map)
  have "?K current = ?K observed"
    using card_subset_eq [OF _ sub] card [of current] card [of observed] assms by (simp add: same_versions_def)
  then have "gget observed p \<noteq> None \<longleftrightarrow> gget current p \<noteq> None" using K by blast
  then show ?thesis using in_both [of p] by (cases "gget current p") auto
qed

text \<open>
  A directory that folds to the name of the snapshot directory is skipped by the walk, while the check
  of paths, which compares in lower case, accepts files in it.
\<close>

definition long_s :: string where
  "long_s = [CHR 0xC5, CHR 0xBF]"

lemma accepted_but_not_listed:
  "cleanProjectPath (''.a'' @ long_s @ long_s @ ''istant-snapshots/f'') = Inr (''.a'' @ long_s @ long_s @ ''istant-snapshots/f'')"
  "\<not> visible (path_parts (''.a'' @ long_s @ long_s @ ''istant-snapshots/f''))"
  by code_simp+

section \<open>The plan fits the disk\<close>

text \<open>What is wanted is listed: its paths are canonical and no walk skips them.\<close>

definition listed :: "(string, ws_file) gomap \<Rightarrow> bool" where
  "listed files \<longleftrightarrow> (\<forall>p. gget files p \<noteq> None \<longrightarrow> stable_path p \<and> visible (path_parts p))"

text \<open>\<open>current\<close> has the paths and the versions of the disk; its modes may be older.\<close>

definition shows_disk :: "(string \<Rightarrow> string) \<Rightarrow> (string, currentTreeFile) gomap \<Rightarrow> disk \<Rightarrow> bool" where
  "shows_disk fileVersion current d \<longleftrightarrow> (\<forall>p. map_option cur_version (gget current p)
     = (if visible (path_parts p) then map_option fileVersion (contents d p) else None))"

lemma verified_shows:
  assumes "verifyTreeBaseline fileVersion current d = None" "tidy_disk d"
  shows "shows_disk fileVersion current d"
proof -
  obtain observed where o: "currentTree fileVersion d = Inr observed" "same_versions current observed"
    using assms(1) by (auto simp: verifyTreeBaseline_def split: sum.splits if_splits)
  have "map_option cur_version (map_option (as_current fileVersion) x) = map_option fileVersion (map_option fst x)" for x
    by (cases x) (auto simp: as_current_def)
  then show ?thesis
    unfolding shows_disk_def same_versions_lookup [OF o(2), symmetric] currentTree_lookup [OF o(1) assms(2)] contents_def
    by simp
qed

lemma read_shows: "currentTree fileVersion d = Inr current \<Longrightarrow> tidy_disk d \<Longrightarrow> shows_disk fileVersion current d"
  by (rule verified_shows) (auto simp: verifyTreeBaseline_def same_versions_def list_all_iff al.entries_get)

definition plan_of :: "(string \<Rightarrow> string) \<Rightarrow> (string, ws_file) gomap \<Rightarrow> (string, currentTreeFile) gomap \<Rightarrow> string set \<Rightarrow> treeEntry list" where
  "plan_of fileVersion files current preserve = fst (planTreeReplacement fileVersion files current preserve)"

lemma find_plan: "find (\<lambda>e. te_path e = p) (plan_of fv files current preserve) = plan_entry fv files current preserve p"
proof -
  have "plan_entry fv files current preserve p = None" if "p \<notin> set (plan_paths files current)"
    using that by (simp add: plan_paths_set plan_entry_def)
  then show ?thesis
    unfolding plan_of_def plan_entries
    by (subst find_map_filter) (auto simp: plan_paths_distinct plan_entry_path)
qed

lemma plan_member: "e \<in> set (plan_of fv files current preserve) \<Longrightarrow> plan_entry fv files current preserve (te_path e) = Some e"
  unfolding plan_of_def plan_entries by (auto simp: map_filter_def plan_entry_path)

lemma plan_entry_kind:
  assumes "plan_entry fv files current preserve p = Some e"
  shows "removes e \<longleftrightarrow> gget current p \<noteq> None" "writes e \<longleftrightarrow> gget files p \<noteq> None"
    "te_operation e = ManagedFileDelete \<longleftrightarrow> gget files p = None"
  using assms by (auto simp: plan_entry_def removes_def writes_def split: option.splits if_splits)

lemma target_path: "target e = path_parts p \<longleftrightarrow> te_path e = p"
  by (simp add: target_def parts_inj)

lemma shown_current:
  assumes "shows_disk fv current d"
  shows "gget current p \<noteq> None \<longleftrightarrow> visible (path_parts p) \<and> file_at d (path_parts p) \<noteq> None"
  using assms [unfolded shows_disk_def, rule_format, of p]
  by (cases "gget current p"; cases "file_at d (path_parts p)") (auto simp: contents_def split: if_splits)

lemma plan_stable:
  assumes "shows_disk fv current d" "tidy_disk d" "listed files" "e \<in> set (plan_of fv files current preserve)"
  shows "stable_path (te_path e)"
proof -
  have "gget files (te_path e) \<noteq> None \<or> gget current (te_path e) \<noteq> None"
    using plan_member [OF assms(4)] by (auto simp: plan_entry_def split: option.splits)
  then show ?thesis
    using shown_current [OF assms(1)] assms(2,3) unfolding tidy_disk_def listed_def by (metis join_parts)
qed

lemma plan_fits_disk:
  assumes shown: "shows_disk fv current d" and d: "is_tree d" "tidy_disk d" and files: "listed files"
  shows "plan_fits (plan_of fv files current preserve) d"
proof -
  let ?es = "plan_of fv files current preserve"
  have "distinct (map target ?es)"
  proof -
    have "distinct (map te_path ?es)" unfolding plan_of_def by (rule plan_distinct)
    then show ?thesis by (auto simp: distinct_map inj_on_def target_def parts_inj)
  qed
  moreover have "target e \<noteq> [] \<and> ensureWithin [] (target e) \<and> (removes e \<longleftrightarrow> file_at d (target e) \<noteq> None)" if "e \<in> set ?es" for e
  proof -
    let ?p = "te_path e"
    note e = plan_member [OF that]
    note cur = shown_current [OF shown, of ?p]
    have in_files: "visible (path_parts ?p)" if "gget files ?p \<noteq> None" using files that by (simp add: listed_def)
    have known: "gget files ?p \<noteq> None \<or> gget current ?p \<noteq> None" using e by (auto simp: plan_entry_def split: option.splits)
    have "stable_path ?p" by (rule plan_stable [OF shown d(2) files that])
    then have "ensureWithin [] (target e)" using clean_path_within [of ?p ?p "[]"] by (simp add: stable_path_def target_def)
    moreover have "removes e \<longleftrightarrow> gget current ?p \<noteq> None" by (rule plan_entry_kind(1) [OF e])
    moreover have "gget current ?p \<noteq> None \<longleftrightarrow> file_at d (path_parts ?p) \<noteq> None" using cur known in_files by blast
    moreover have "target e \<noteq> []" by (simp add: target_def path_parts_def)
    ultimately show ?thesis by (simp add: target_def)
  qed
  ultimately show ?thesis using d(1) by (simp add: plan_fits_def)
qed

text \<open>What is staged is there for the commit.\<close>

lemma stage_entries_there:
  assumes "stage_entries faults (enumerate n es) m = Inr m'"
  shows "(\<forall>i < length es. te_operation (es ! i) \<noteq> ManagedFileDelete
      \<longrightarrow> gget m' (n + i) = Some [([], FileNode (te_content (es ! i)) (te_mode (es ! i)))])
    \<and> (\<forall>j < n. gget m' j = gget m j)"
  using assms
proof (induction es arbitrary: faults n m)
  case (Cons e es)
  let ?slot = "\<lambda>e. [([], FileNode (te_content e) (te_mode e))]"
  let ?m = "if te_operation e = ManagedFileDelete then m else gput n (?slot e) m"
  obtain faults' where "stage_entries faults' (enumerate (Suc n) es) ?m = Inr m'"
    using Cons.prems by (cases "te_operation e = ManagedFileDelete") (auto split: if_splits)
  note ih = Cons.IH [OF this]
  show ?case
  proof (intro conjI allI impI)
    fix i assume i: "i < length (e # es)" "te_operation ((e # es) ! i) \<noteq> ManagedFileDelete"
    show "gget m' (n + i) = Some (?slot ((e # es) ! i))"
    proof (cases i)
      case 0
      then show ?thesis using ih i(2) by (simp add: al.get_put)
    next
      case (Suc j)
      then show ?thesis using ih i by simp
    qed
  next
    fix j assume "j < n"
    then show "gget m' j = gget m j" using ih by (simp add: al.get_put)
  qed
qed simp

lemma commit_starts:
  assumes "plan_fits es d" "stageTreeEntries faults es = Inr stage"
  shows "commit_inv es d {} {} (before_commit d stage faults')"
proof -
  have "is_file_tree [([], FileNode (te_content e) (te_mode e))] (entry_file e)" for e
    by (simp add: is_file_tree_def entry_file_def gget_Cons)
  moreover have "writes e \<Longrightarrow> te_operation e \<noteq> ManagedFileDelete" for e by (auto simp: writes_def)
  ultimately show ?thesis
    using assms stage_entries_there [of faults 0 es "[]" stage]
    by (auto simp: commit_inv_def tree_inv_def before_commit_def stageTreeEntries_def plan_fits_def)
qed

section \<open>Success\<close>

text \<open>The contents that are asked for: \<open>keep\<close> are the paths that stay although they are not wanted.\<close>

definition wanted_contents :: "(string, ws_file) gomap \<Rightarrow> string set \<Rightarrow> disk \<Rightarrow> string \<Rightarrow> string option" where
  "wanted_contents files keep d p = (case gget files p of
       Some f \<Rightarrow> Some (file_Content f)
     | None \<Rightarrow> if visible (path_parts p) \<and> p \<notin> keep then None else contents d p)"

lemma plan_contents:
  assumes shown: "shows_disk fv current d" and vers: "versions_differ fv files (contents d)" and files: "listed files"
  shows "(case plan_entry fv files current keep p of None \<Rightarrow> contents d p
      | Some e \<Rightarrow> if te_operation e = ManagedFileDelete then None else Some (te_content e)) = wanted_contents files keep d p"
    "plan_entry fv files current keep p \<noteq> None \<longleftrightarrow> wanted_contents files keep d p \<noteq> contents d p"
proof -
  have cur: "map_option cur_version (gget current p) = (if visible (path_parts p) then map_option fv (contents d p) else None)"
    using shown by (simp add: shows_disk_def)
  have vis: "gget files p \<noteq> None \<Longrightarrow> visible (path_parts p)" using files by (simp add: listed_def)
  have same: "gget files p = Some f \<Longrightarrow> contents d p = Some c \<Longrightarrow> fv c = fv (file_Content f) \<Longrightarrow> c = file_Content f" for f c
    using vers by (simp add: versions_differ_def)
  show "(case plan_entry fv files current keep p of None \<Rightarrow> contents d p
      | Some e \<Rightarrow> if te_operation e = ManagedFileDelete then None else Some (te_content e)) = wanted_contents files keep d p"
    using cur vis same
    by (cases "gget files p"; cases "gget current p"; cases "contents d p")
      (auto simp: plan_entry_def wanted_contents_def split: if_splits)
  show "plan_entry fv files current keep p \<noteq> None \<longleftrightarrow> wanted_contents files keep d p \<noteq> contents d p"
    using cur vis same
    by (cases "gget files p"; cases "gget current p"; cases "contents d p")
      (auto simp: plan_entry_def wanted_contents_def split: if_splits)
qed

lemma committed_contents:
  assumes fits: "plan_fits (plan_of fv files current keep) d"
    and inv: "commit_inv (plan_of fv files current keep) d (all_removed (plan_of fv files current keep))
      (all_written (plan_of fv files current keep)) s"
    and shown: "shows_disk fv current d" "versions_differ fv files (contents d)" "listed files"
  shows "contents (ts_disk s) p = wanted_contents files keep d p"
  unfolding plan_contents(1) [OF shown, symmetric] contents_def committed_files [OF fits inv]
  by (auto simp: target_path find_plan entry_file_def split: option.split)

section \<open>Failure\<close>

text \<open>No wanted file lies two levels or more below a file.\<close>

definition shallow :: "(string, ws_file) gomap \<Rightarrow> disk \<Rightarrow> bool" where
  "shallow files d \<longleftrightarrow> (\<forall>p. gget files p \<noteq> None \<longrightarrow> (\<forall>q. file_at d q \<noteq> None \<and> strict_prefix q (path_parts p)
     \<longrightarrow> length (path_parts p) = Suc (length q)))"

lemma shallow_no_deep:
  assumes "shallow files d" "plan_fits (plan_of fv files current keep) d"
  shows "no_deep (plan_of fv files current keep)"
  unfolding no_deep_def
proof (intro ballI impI)
  fix e f assume e: "e \<in> set (plan_of fv files current keep)" and f: "f \<in> set (plan_of fv files current keep)"
    and "removes e \<and> writes f \<and> strict_prefix (target e) (target f)"
  then have r: "removes e" "writes f" "strict_prefix (target e) (target f)" by simp_all
  have "file_at d (target e) \<noteq> None" using assms(2) e r(1) by (metis plan_fits_def in_set_conv_nth)
  moreover have "gget files (te_path f) \<noteq> None" using plan_entry_kind(2) [OF plan_member [OF f]] r(2) by simp
  ultimately show "length (target f) = Suc (length (target e))" using assms(1) r(3) by (simp add: shallow_def target_def)
qed

lemma undo_restores:
  assumes fits: "plan_fits es d" and deep: "no_deep es" and op: "commit_tree es (before_commit d stage faults) = (r, s)"
    and start: "commit_inv es d {} {} (before_commit d stage faults)" and quiet: "re_rollback env = []"
  shows "fst (undo_files env es s)" "file_at (snd (undo_files env es s)) = file_at d"
proof -
  obtain B C where inv: "commit_inv es d B C s" "C \<inter> all_removed es \<subseteq> B"
    using commit_tree_inv [OF fits start op] by blast
  have "commit_inv es d B C (s\<lparr>ts_faults := []\<rparr>)" using inv(1) by (simp add: commit_inv_def)
  from rollback_restores [OF fits deep this inv(2)]
  show "fst (undo_files env es s)" "file_at (snd (undo_files env es s)) = file_at d"
    by (auto simp: undo_files_def quiet)
qed

section \<open>The ledger\<close>

lemma clean_all_stable: "\<forall>p \<in> set ps. stable_path p \<Longrightarrow> clean_all ps = Inr ps"
  by (induction ps) (simp_all add: stable_path_def)

lemma advance_outcome:
  assumes "advanceAndRecord env uid expected ps committed origin w = ((res, m), c)" "\<forall>p \<in> set ps. stable_path p"
  shows "wc_ledger c = wc_ledger w \<or> applies (advance uid expected ps committed origin) (wc_ledger w) (wc_ledger c)"
    "res = None \<Longrightarrow> applies (advance uid expected ps committed origin) (wc_ledger w) (wc_ledger c)
      \<and> tm_revision m = lr_SourceRevision (wc_ledger c)"
    "0 < tm_revision m \<Longrightarrow> tm_id m = uid"
proof -
  have "(wc_ledger c = wc_ledger w \<or> applies (advance uid expected ps committed origin) (wc_ledger w) (wc_ledger c))
      \<and> (res = None \<longrightarrow> applies (advance uid expected ps committed origin) (wc_ledger w) (wc_ledger c)
          \<and> tm_revision m = lr_SourceRevision (wc_ledger c))
      \<and> (0 < tm_revision m \<longrightarrow> tm_id m = uid)"
  proof (cases "ce_early env")
    case None
    obtain x l where u: "ledger_Update (ce_outcome env) (advance uid expected ps committed origin) (wc_ledger w) = (x, l)"
      by fastforce
    show ?thesis
    proof (cases x)
      case (Inl e)
      then show ?thesis
        using assms(1) None u clean_all_stable [OF assms(2)] ledger_Update_applies [OF u]
        by (auto simp: advanceAndRecord_def Let_def split: if_splits)
    next
      case (Inr r)
      obtain n where n: "advance uid expected ps committed origin (wc_ledger w) = Inr (True, n)" "l = NormalizeLedgerRecord n"
        using update_succeeds [OF u [unfolded Inr] always_change(4)] by blast
      have seen: "seen_record (ce_outcome env) (wc_ledger w) = Some (wc_ledger w)"
        using u Inr by (auto simp: ledger_Update_def seen_record_def split: ledger_outcome.splits sum.splits)
      have "advance_reserves expected (Some (wc_ledger w)) = lr_SourceRevision n"
        using n(1) advance_revision [OF n(1)] by (auto simp: advance_reserves_def)
      then show ?thesis
        using assms(1) None u Inr clean_all_stable [OF assms(2)] seen n
        by (auto simp: advanceAndRecord_def Let_def applies_def)
    qed
  qed (use assms(1) in \<open>auto simp: advanceAndRecord_def no_tree_mutation_def\<close>)
  then show "wc_ledger c = wc_ledger w \<or> applies (advance uid expected ps committed origin) (wc_ledger w) (wc_ledger c)"
    "res = None \<Longrightarrow> applies (advance uid expected ps committed origin) (wc_ledger w) (wc_ledger c)
      \<and> tm_revision m = lr_SourceRevision (wc_ledger c)"
    "0 < tm_revision m \<Longrightarrow> tm_id m = uid" by blast+
qed

section \<open>All or nothing\<close>

lemma commit_and_record_result:
  fixes w :: workspace
  defines "d \<equiv> ws_disk w" and "l \<equiv> wc_ledger (ws_copy w)"
  assumes plan: "es = plan_of fv files current keep" "\<forall>p \<in> set changed. stable_path p" "stageTreeEntries faults es = Inr stage"
    and shown: "shows_disk fv current d" "versions_differ fv files (contents d)" "listed files"
    and disk: "is_tree d" "tidy_disk d" and fresh: "lr_SourceMutationID l \<noteq> uid"
    and op: "commit_and_record env uid opts origin es changed stage w = (res, w')"
  shows "res = Inr n \<Longrightarrow> contents (ws_disk w') = wanted_contents files keep d
      \<and> applies (advance uid (ro_ExpectedSourceRevision opts) changed (ro_Committed opts) origin) l (wc_ledger (ws_copy w'))
      \<and> n = lr_SourceRevision (wc_ledger (ws_copy w'))"
    "res = Inl e \<Longrightarrow> re_rollback env = [] \<Longrightarrow> shallow files d \<Longrightarrow> file_at (ws_disk w') = file_at d"
proof -
  have fits: "plan_fits es d" unfolding plan(1) by (rule plan_fits_disk [OF shown(1) disk shown(3)])
  note start = commit_starts [OF fits plan(3)]
  obtain r s where c: "commit_tree es (before_commit d stage (re_commit env)) = (r, s)" by fastforce
  obtain B C where inv: "commit_inv es d B C s" "r = None \<Longrightarrow> B = all_removed es \<and> C = all_written es"
    using commit_tree_inv [OF fits start c] by blast
  have new: "contents (ts_disk s) = wanted_contents files keep d" if "r = None"
    using committed_contents [OF fits [unfolded plan(1)] _ shown] inv that by (auto simp: plan(1))
  obtain x m k where a: "advanceAndRecord (re_ledger env) uid (ro_ExpectedSourceRevision opts) changed (ro_Committed opts)
      origin (ws_copy w) = ((x, m), k)" by (metis prod.exhaust)
  note led = advance_outcome [OF a plan(2)]
  let ?found = "\<not> tm_callbackRejected m \<and> 0 < tm_revision m
      \<and> readSourceMutation (re_confirms env) (tm_revision m) (tm_id m) (wc_ledger k) \<noteq> None"
  have found: "wc_ledger k \<noteq> l \<and> tm_revision m = lr_SourceRevision (wc_ledger k)" if ?found
  proof -
    have "lr_SourceMutationID (wc_ledger k) = uid" "tm_revision m = lr_SourceRevision (wc_ledger k)"
      using that led(3) readSourceMutation_Some by (auto split: option.splits)
    then show ?thesis using fresh by auto
  qed
  show "res = Inr n \<Longrightarrow> contents (ws_disk w') = wanted_contents files keep d
      \<and> applies (advance uid (ro_ExpectedSourceRevision opts) changed (ro_Committed opts) origin) l (wc_ledger (ws_copy w'))
      \<and> n = lr_SourceRevision (wc_ledger (ws_copy w'))"
  proof -
    assume res: "res = Inr n"
    have r: "r = None" using op c res unfolding commit_and_record_def d_def [symmetric] by (cases r) auto
    show ?thesis
    proof (cases x)
      case None
      have "w' = \<lparr>ws_disk = ts_disk s, ws_copy = k\<rparr>" "n = tm_revision m"
        using op c a res r None unfolding commit_and_record_def d_def [symmetric] by auto
      then show ?thesis using new [OF r] led(2) [OF None] by (simp add: l_def)
    next
      case (Some e)
      have go: "(if ?found then (Inr (tm_revision m), \<lparr>ws_disk = ts_disk s, ws_copy = tagLocalTree (ce_tags (re_ledger env)) (tm_revision m) k\<rparr>)
          else (Inl (Refused e), \<lparr>ws_disk = snd (undo_files env es s), ws_copy = snd (reconcileTreeRollback (re_undo env) m (fst (undo_files env es s)) k)\<rparr>))
          = (res, w')"
        using op c a r Some unfolding commit_and_record_def d_def [symmetric] by (auto simp: case_prod_beta split: if_splits)
      then have f: "?found" using res by (cases "?found") auto
      then have "w' = \<lparr>ws_disk = ts_disk s, ws_copy = tagLocalTree (ce_tags (re_ledger env)) (tm_revision m) k\<rparr>" "n = tm_revision m"
        using go res by auto
      then show ?thesis using new [OF r] led(1) found [OF f] by (simp add: l_def)
    qed
  qed
  show "file_at (ws_disk w') = file_at d" if "res = Inl e" "re_rollback env = []" "shallow files d"
  proof -
    have "no_deep es" using shallow_no_deep [OF that(3)] fits unfolding plan(1) by blast
    note undone = undo_restores [OF fits this c start that(2)]
    have "ws_disk w' = snd (undo_files env es s)"
    proof (cases r)
      case (Some e)
      then show ?thesis using op c unfolding commit_and_record_def d_def [symmetric] by auto
    next
      case None
      then show ?thesis
        using op c a that(1) unfolding commit_and_record_def d_def [symmetric]
        by (cases x; cases "?found") (auto simp: case_prod_beta)
    qed
    then show ?thesis using undone(2) by simp
  qed
qed

text \<open>What the options ask for.\<close>

definition wanted_files :: "replace_options \<Rightarrow> (string, ws_file) gomap" where
  "wanted_files opts = (case normalizeTreeFiles (ro_Files opts) of Inl e \<Rightarrow> [] | Inr files \<Rightarrow> files)"

definition kept_paths :: "replace_options \<Rightarrow> string set" where
  "kept_paths opts = (if ro_PreserveOmitted opts then UNIV
     else case clean_all (ro_PreservePaths opts) of Inl e \<Rightarrow> {} | Inr kept \<Rightarrow> set kept)"

lemma kept_contents:
  assumes "shows_disk fv current d" "clean_all (ro_PreservePaths opts) = Inr kept"
  shows "wanted_contents files (preserved opts kept current) d = wanted_contents files (kept_paths opts) d"
proof (rule ext)
  fix p
  have "gget current p = None \<Longrightarrow> visible (path_parts p) \<Longrightarrow> contents d p = None"
    using shown_current [OF assms(1), of p] by (cases "file_at d (path_parts p)") (auto simp: contents_def)
  moreover have "p \<in> set (map fst (gentries current)) \<longleftrightarrow> gget current p \<noteq> None" by (rule entry_key_iff)
  ultimately show "wanted_contents files (preserved opts kept current) d p = wanted_contents files (kept_paths opts) d p"
    using assms(2) by (auto simp: wanted_contents_def preserved_def kept_paths_def split: option.splits)
qed

lemma plan_changed:
  assumes "planTreeReplacement fv files current keep = (es, written, deleted, changed)"
  shows "es = plan_of fv files current keep" "set changed = te_path ` set es"
    "set changed = set written \<union> set deleted"
proof -
  show es: "es = plan_of fv files current keep" using assms by (simp add: plan_of_def)
  have "written = sort (map te_path (filter (\<lambda>e. te_operation e \<noteq> ManagedFileDelete) es))"
    "deleted = sort (map te_path (filter (\<lambda>e. te_operation e = ManagedFileDelete) es))" "changed = sort (map te_path es)"
    using assms by (auto simp: planTreeReplacement_def Let_def)
  then have "set written = te_path ` {e \<in> set es. te_operation e \<noteq> ManagedFileDelete}"
    "set deleted = te_path ` {e \<in> set es. te_operation e = ManagedFileDelete}" and c: "set changed = te_path ` set es"
    by simp_all
  then show "set changed = te_path ` set es" "set changed = set written \<union> set deleted" by (simp_all, blast)
qed

lemma plan_paths_changed:
  "p \<in> te_path ` set (plan_of fv files current keep) \<longleftrightarrow> plan_entry fv files current keep p \<noteq> None"
proof -
  have "p \<in> te_path ` set (plan_of fv files current keep) \<longleftrightarrow> find (\<lambda>e. te_path e = p) (plan_of fv files current keep) \<noteq> None"
    by (auto simp: find_None_iff)
  then show ?thesis by (simp add: find_plan)
qed

lemma make_dir_files: "file_at (ws_disk (make_dir w)) = file_at (ws_disk w)"
  by (rule ext) (auto simp: make_dir_def file_at_def al.get_put)

text \<open>The three ways a replacement ends.\<close>

lemma ReplaceTree_cases:
  assumes "ReplaceTree env fv uid opts origin w = (res, w')"
  obtains (early) e where "res = Inl e" "w' = w \<or> w' = make_dir w \<or> w' = found_later env w"
  | (idle) files current kept where "normalizeTreeFiles (ro_Files opts) = Inr files" "currentTree fv (ws_disk w) = Inr current"
      "clean_all (ro_PreservePaths opts) = Inr kept" "plan_of fv files current (preserved opts kept current) = []"
      "res = Inr \<lparr>rr_Written = [], rr_Deleted = [], rr_SourceRevision = current_revision (wc_ledger (ws_copy w))\<rparr>" "w' = w"
  | (carried) files current kept es written deleted changed stage res' where
      "normalizeTreeFiles (ro_Files opts) = Inr files" "clean_all (ro_PreservePaths opts) = Inr kept"
      "planTreeReplacement fv files current (preserved opts kept current) = (es, written, deleted, changed)"
      "stageTreeEntries (re_stage env) es = Inr stage" "verifyTreeBaseline fv current (ws_disk (found_later env w)) = None"
      "commit_and_record env uid opts origin es changed stage (found_later env w) = (res', w')"
      "res = (case res' of Inl e \<Rightarrow> Inl e
        | Inr n \<Rightarrow> Inr \<lparr>rr_Written = written, rr_Deleted = deleted, rr_SourceRevision = n\<rparr>)"
proof (cases "normalizeTreeFiles (ro_Files opts)")
  case (Inl e)
  then show thesis using assms early by (auto simp: ReplaceTree_def)
next
  case files: (Inr files)
  show thesis
  proof (cases "re_read env = None
      \<and> \<not> (ro_ExpectedSourceRevision opts \<noteq> None \<and> ro_ExpectedSourceRevision opts \<noteq> Some (current_revision (wc_ledger (ws_copy w))))
      \<and> (\<exists>current. currentTree fv (ws_disk w) = Inr current) \<and> (\<exists>kept. clean_all (ro_PreservePaths opts) = Inr kept)")
    case False
    then show thesis
      using assms early files by (auto simp: ReplaceTree_def sourceRevision_def split: option.splits sum.splits if_splits)
  next
    case True
    then obtain current kept where t: "re_read env = None" "currentTree fv (ws_disk w) = Inr current"
        "clean_all (ro_PreservePaths opts) = Inr kept"
        "\<not> (ro_ExpectedSourceRevision opts \<noteq> None \<and> ro_ExpectedSourceRevision opts \<noteq> Some (current_revision (wc_ledger (ws_copy w))))"
      by blast
    obtain es written deleted changed where plan:
        "planTreeReplacement fv files current (preserved opts kept current) = (es, written, deleted, changed)"
      by (metis prod.exhaust)
    let ?go = "case re_mkdir env of
         Some e \<Rightarrow> (Inl (OnDisk e), w)
       | None \<Rightarrow> (case re_temp env of
         Some e \<Rightarrow> (Inl (OnDisk e), make_dir w)
       | None \<Rightarrow> (case stageTreeEntries (re_stage env) es of
           Inl e \<Rightarrow> (Inl (OnDisk e), make_dir w)
         | Inr stage \<Rightarrow> (case verifyTreeBaseline fv current (ws_disk (found_later env w)) of
             Some e \<Rightarrow> (Inl e, found_later env w)
           | None \<Rightarrow> (case commit_and_record env uid opts origin es changed stage (found_later env w) of
               (Inl e, w) \<Rightarrow> (Inl e, w)
             | (Inr n, w) \<Rightarrow> (Inr \<lparr>rr_Written = written, rr_Deleted = deleted, rr_SourceRevision = n\<rparr>, w)))))"
    have run: "(if es = [] then (Inr \<lparr>rr_Written = [], rr_Deleted = [],
        rr_SourceRevision = current_revision (wc_ledger (ws_copy w))\<rparr>, w) else ?go) = (res, w')"
      using assms files t plan
      by (cases "ro_ExpectedSourceRevision opts") (simp_all add: ReplaceTree_def sourceRevision_def)
    show thesis
    proof (cases "es = []")
      case True
      then show thesis using run plan_changed(1) [OF plan] by - (rule idle [OF files t(2,3)], auto)
    next
      case False
      show thesis
      proof (cases "re_mkdir env = None \<and> re_temp env = None \<and> (\<exists>stage. stageTreeEntries (re_stage env) es = Inr stage)
          \<and> verifyTreeBaseline fv current (ws_disk (found_later env w)) = None")
        case True
        then obtain stage where st: "re_mkdir env = None" "re_temp env = None" "stageTreeEntries (re_stage env) es = Inr stage"
          "verifyTreeBaseline fv current (ws_disk (found_later env w)) = None" by blast
        obtain res' w1 where c: "commit_and_record env uid opts origin es changed stage (found_later env w) = (res', w1)" by fastforce
        have "w1 = w'" "res = (case res' of Inl e \<Rightarrow> Inl e
            | Inr n \<Rightarrow> Inr \<lparr>rr_Written = written, rr_Deleted = deleted, rr_SourceRevision = n\<rparr>)"
          using run False st c by (cases res'; simp)+
        then show thesis using carried [OF files t(3) plan st(3,4)] c by blast
      next
        case bad: False
        then show thesis using run False early by (auto split: option.splits sum.splits)
      qed
    qed
  qed
qed

definition replaced :: "replace_options \<Rightarrow> disk \<Rightarrow> string \<Rightarrow> string option" where
  "replaced opts = wanted_contents (wanted_files opts) (kept_paths opts)"

lemma found_later_simps [simp]:
  "ws_disk (found_later env w) = re_other env (ws_disk (make_dir w))" "wc_ledger (ws_copy (found_later env w)) = wc_ledger (ws_copy w)"
  "wc_ledger (ws_copy (make_dir w)) = wc_ledger (ws_copy w)"
  by (simp_all add: found_later_def make_dir_def)

text \<open>What the code relies on: tidy disks, versions that tell contents apart, and a new mutation ID.\<close>

definition replace_ready :: "replace_env \<Rightarrow> (string \<Rightarrow> string) \<Rightarrow> string \<Rightarrow> replace_options \<Rightarrow> workspace \<Rightarrow> bool" where
  "replace_ready env fv uid opts w \<longleftrightarrow> listed (wanted_files opts) \<and> tidy_disk (ws_disk w)
     \<and> is_tree (ws_disk (found_later env w)) \<and> tidy_disk (ws_disk (found_later env w))
     \<and> versions_differ fv (wanted_files opts) (contents (ws_disk w))
     \<and> versions_differ fv (wanted_files opts) (contents (ws_disk (found_later env w)))
     \<and> lr_SourceMutationID (wc_ledger (ws_copy w)) \<noteq> uid"

lemma ReplaceTree_nothing:
  assumes ready: "replace_ready env fv uid opts w" and files: "normalizeTreeFiles (ro_Files opts) = Inr files"
    and current: "currentTree fv (ws_disk w) = Inr current" and kept: "clean_all (ro_PreservePaths opts) = Inr kept"
    and none: "plan_of fv files current (preserved opts kept current) = []"
  shows "replaced opts (ws_disk w) = contents (ws_disk w)"
proof (rule ext)
  fix p
  have f: "wanted_files opts = files" by (simp add: wanted_files_def files)
  have shown: "shows_disk fv current (ws_disk w)" using read_shows [OF current] ready by (simp add: replace_ready_def)
  have "plan_entry fv files current (preserved opts kept current) p = None"
    using plan_paths_changed [of p fv files current "preserved opts kept current"] none by simp
  then show "replaced opts (ws_disk w) p = contents (ws_disk w) p"
    using plan_contents(2) [OF shown, of files "preserved opts kept current" p] ready kept_contents [OF shown kept, of files]
    by (simp add: replaced_def f replace_ready_def)
qed

lemma ReplaceTree_succeeds:
  fixes w :: workspace and env :: replace_env
  defines "d \<equiv> ws_disk (found_later env w)" and "l \<equiv> wc_ledger (ws_copy w)"
  assumes op: "ReplaceTree env fv uid opts origin w = (Inr r, w')" and ready: "replace_ready env fv uid opts w"
  shows "(w' = w \<and> replaced opts (ws_disk w) = contents (ws_disk w) \<and> rr_Written r = [] \<and> rr_Deleted r = []
      \<and> rr_SourceRevision r = current_revision l)
    \<or> (contents (ws_disk w') = replaced opts d \<and> rr_SourceRevision r = lr_SourceRevision (wc_ledger (ws_copy w'))
      \<and> (\<exists>changed. set changed = {p. contents (ws_disk w') p \<noteq> contents d p} \<and> set changed = set (rr_Written r) \<union> set (rr_Deleted r)
          \<and> applies (advance uid (ro_ExpectedSourceRevision opts) changed (ro_Committed opts) origin) l (wc_ledger (ws_copy w'))))"
  using op
proof (cases rule: ReplaceTree_cases)
  case (idle files current kept)
  then show ?thesis using ReplaceTree_nothing [OF ready idle(1-4)] by (simp add: l_def)
next
  case (carried files current kept es written deleted changed stage res')
  let ?keep = "preserved opts kept current"
  have f: "wanted_files opts = files" by (simp add: wanted_files_def carried(1))
  note plan = plan_changed [OF carried(3)]
  have ok: "tidy_disk d" "is_tree d" "listed files" "versions_differ fv files (contents d)" "lr_SourceMutationID l \<noteq> uid"
    using ready by (simp_all add: replace_ready_def f d_def l_def del: found_later_simps)
  have shown: "shows_disk fv current d" using verified_shows [OF carried(5)] ok(1) by (simp add: d_def)
  have stable: "\<forall>p \<in> set changed. stable_path p"
    using plan_stable [OF shown ok(1,3), of _ ?keep] unfolding plan(1,2) by blast
  obtain n where n: "res' = Inr n" "r = \<lparr>rr_Written = written, rr_Deleted = deleted, rr_SourceRevision = n\<rparr>"
    using carried(7) by (cases res') auto
  have all: "contents (ws_disk w') = wanted_contents files ?keep d
      \<and> applies (advance uid (ro_ExpectedSourceRevision opts) changed (ro_Committed opts) origin) l (wc_ledger (ws_copy w'))
      \<and> n = lr_SourceRevision (wc_ledger (ws_copy w'))"
    using commit_and_record_result(1) [OF plan(1) stable carried(4) _ _ ok(3) _ _ _ carried(6) n(1)] shown ok
    by (simp add: d_def l_def)
  have "set changed = {p. contents (ws_disk w') p \<noteq> contents d p}"
    using plan_paths_changed [of _ fv files current ?keep] plan_contents(2) [OF shown ok(4,3), of ?keep] all
    unfolding plan(1,2) by auto
  then show ?thesis
    using all plan(3) n(2) kept_contents [OF shown carried(2), of files] by (auto simp: replaced_def f)
qed simp

lemma ReplaceTree_fails:
  fixes w :: workspace
  assumes op: "ReplaceTree env fv uid opts origin w = (Inl e, w')" and ready: "replace_ready env fv uid opts w"
    and quiet: "re_rollback env = []" "shallow (wanted_files opts) (ws_disk (found_later env w))"
  shows "file_at (ws_disk w') = file_at (ws_disk w) \<or> file_at (ws_disk w') = file_at (ws_disk (found_later env w))"
  using op
proof (cases rule: ReplaceTree_cases)
  case (early e)
  then show ?thesis using make_dir_files by metis
next
  case (carried files current kept es written deleted changed stage res')
  let ?d = "ws_disk (found_later env w)"
  have f: "wanted_files opts = files" by (simp add: wanted_files_def carried(1))
  note plan = plan_changed [OF carried(3)]
  have ok: "tidy_disk ?d" "is_tree ?d" "listed files" "versions_differ fv files (contents ?d)"
      "lr_SourceMutationID (wc_ledger (ws_copy (found_later env w))) \<noteq> uid"
    using ready by (simp_all add: replace_ready_def f)
  have shown: "shows_disk fv current ?d" by (rule verified_shows [OF carried(5) ok(1)])
  have stable: "\<forall>p \<in> set changed. stable_path p"
    using plan_stable [OF shown ok(1,3), of _ "preserved opts kept current"] unfolding plan(1,2) by blast
  obtain e' where "res' = Inl e'" using carried(7) by (cases res') auto
  from commit_and_record_result(2) [OF plan(1) stable carried(4) shown ok(4,3,2,1,5) carried(6) this quiet(1)] quiet(2)
  show ?thesis by (simp add: f)
qed simp

end
