(* ===== verification/Spec_Workspace.thy ===== *)
theory Spec_Workspace
  imports Workspace_Text Workspace_Replace
begin

text \<open>
  The properties of the files of a project workspace, each with an instance on concrete data.
\<close>

section \<open>Paths\<close>

text \<open>
  C33. A path that is accepted names a file inside the workspace: its components are names, none
  of them \<open>.\<close>, \<open>..\<close>, a reserved directory or one with a NUL byte, and the file is below the directory
  of the workspace.
\<close>

theorem clean_paths_stay_inside:
  assumes "cleanProjectPath raw = Inr clean"
  shows "ensureWithin base (base @ path_parts clean)
    \<and> (\<forall>p \<in> set (path_parts clean). p \<noteq> [] \<and> p \<noteq> ''.'' \<and> p \<noteq> ''..'' \<and> \<not> isReservedPathSegment p
        \<and> CHR 0x00 \<notin> set p)
    \<and> join_slash (path_parts clean) = clean \<and> length clean \<le> MaxProjectPathBytes"
proof -
  obtain ps where "\<forall>p \<in> set ps. plain_part p" "clean = join_slash ps" "path_parts clean = ps"
    "length clean \<le> MaxProjectPathBytes"
    using cleanProjectPath_parts [OF assms] by metis
  then show ?thesis using clean_path_within [OF assms] by (simp add: plain_part_def)
qed

lemma clean_paths_stay_inside_witness:
  "cleanProjectPath '' src//./a/b.go'' = Inr ''src/a/b.go''
    \<and> ensureWithin [''data'', ''p''] [''data'', ''p'', ''src'', ''a'', ''b.go'']"
proof -
  have c: "cleanProjectPath '' src//./a/b.go'' = Inr ''src/a/b.go''"
    and p: "path_parts ''src/a/b.go'' = [''src'', ''a'', ''b.go'']" by code_simp+
  from clean_paths_stay_inside [OF c, of "[''data'', ''p'']"] c show ?thesis by (simp add: p)
qed

section \<open>Contents\<close>

text \<open>
  C34. Text or binary does not depend on how a file is read: whatever chunks its bytes come in, the
  streaming detector decides as \<open>isBinary\<close> does on all of them.
\<close>

theorem chunks_do_not_matter:
  "td_Text (detect_chunks (map (map byte) chunks)) \<longleftrightarrow> \<not> isBinary (concat chunks)"
  by (rule chunks_detect)

section \<open>Replacing the tree\<close>

text \<open>
  C35. Replacing the tree is all or nothing, on disk and in the ledger. If it succeeds, the wanted files
  have the wanted contents, the others that a walk sees are gone unless they are kept, and the ledger
  has moved to the revision that is returned, with exactly the paths whose contents changed; if
  nothing has to change, nothing does. If it fails at any call, the rollback gives every file its
  contents and mode back, when no call of the rollback fails and no wanted file lies two levels
  below an old one. What others write to the tree while files are staged is either noticed or kept.
\<close>

theorem replacement_is_all_or_nothing:
  assumes "ReplaceTree env fv uid opts origin w = (res, w')" "replace_ready env fv uid opts w"
  shows "case res of
      Inr r \<Rightarrow>
        (w' = w \<and> replaced opts (ws_disk w) = contents (ws_disk w) \<and> rr_Written r = [] \<and> rr_Deleted r = []
          \<and> rr_SourceRevision r = current_revision (wc_ledger (ws_copy w)))
        \<or> (contents (ws_disk w') = replaced opts (ws_disk (found_later env w))
          \<and> rr_SourceRevision r = lr_SourceRevision (wc_ledger (ws_copy w'))
          \<and> (\<exists>changed. set changed = {p. contents (ws_disk w') p \<noteq> contents (ws_disk (found_later env w)) p}
              \<and> set changed = set (rr_Written r) \<union> set (rr_Deleted r)
              \<and> applies (advance uid (ro_ExpectedSourceRevision opts) changed (ro_Committed opts) origin)
                  (wc_ledger (ws_copy w)) (wc_ledger (ws_copy w'))))
    | Inl e \<Rightarrow>
        re_rollback env = [] \<and> shallow (wanted_files opts) (ws_disk (found_later env w))
        \<longrightarrow> file_at (ws_disk w') = file_at (ws_disk w) \<or> file_at (ws_disk w') = file_at (ws_disk (found_later env w))"
  using ReplaceTree_succeeds [of env fv uid opts origin w _ w'] ReplaceTree_fails [of env fv uid opts origin w _ w'] assms
  by (auto split: sum.split)

text \<open>A tree with three files: one is kept, one changed, one removed, and a fourth created; then a commit that fails.\<close>

definition ex_tree :: disk where
  "ex_tree = [([], DirNode), ([''keep''], FileNode ''k'' 420), ([''a''], DirNode), ([''a'', ''b''], FileNode ''old'' 384),
     ([''c''], FileNode ''gone'' 420)]"

definition ex_replace :: replace_options where
  "ex_replace = \<lparr>ro_Files = [\<lparr>file_Path = ''a/b'', file_Content = ''new''\<rparr>, \<lparr>file_Path = ''d'', file_Content = ''x''\<rparr>],
     ro_ExpectedSourceRevision = Some 1, ro_PreservePaths = [''keep''], ro_PreserveOmitted = False, ro_Committed = False\<rparr>"

definition ex_calls :: call_env where
  "ex_calls = \<lparr>ce_early = None, ce_outcome = Persisted, ce_confirms = True, ce_tags = True, ce_mkdir = True\<rparr>"

definition ex_replace_env :: "bool list \<Rightarrow> replace_env" where
  "ex_replace_env faults = \<lparr>re_read = None, re_mkdir = None, re_temp = None, re_stage = [], re_other = (\<lambda>d. d),
     re_commit = faults, re_ledger = ex_calls, re_confirms = True, re_rollback = [], re_undo = ex_calls\<rparr>"

definition ex_workspace :: workspace where
  "ex_workspace = \<lparr>ws_disk = ex_tree, ws_copy = \<lparr>wc_ledger = empty_record, wc_tag = 0, wc_tree = True\<rparr>\<rparr>"

definition ex_author :: SourceChange where
  "ex_author = \<lparr>sc_ThreadID = ''t'', sc_RunID = ''r'', sc_SourceRevision = 0\<rparr>"

lemma ex_tree_files:
  "file_at ex_tree q \<noteq> None \<Longrightarrow> q = [''keep''] \<or> q = [''a'', ''b''] \<or> q = [''c'']"
  by (auto simp: file_at_def ex_tree_def gget_Cons split: if_splits)

lemma ex_tidy: "tidy_disk ex_tree"
proof -
  have "slash \<notin> set c" if "file_at ex_tree q \<noteq> None" "c \<in> set q" for q c
    using ex_tree_files [OF that(1)] that(2) by auto
  moreover have "stable_path ''keep'' \<and> stable_path ''a/b'' \<and> stable_path ''c''" by code_simp
  then have "stable_path (join_slash q)" if "file_at ex_tree q \<noteq> None" for q
    using ex_tree_files [OF that] by auto
  ultimately show ?thesis by (auto simp: tidy_disk_def)
qed

lemma ex_is_tree: "is_tree ex_tree"
  unfolding is_tree_def
proof (intro conjI allI impI)
  show "gget ex_tree [] = Some DirNode" by (simp add: ex_tree_def gget_Cons)
  fix p q assume below: "strict_prefix p q" and q: "gget ex_tree q \<noteq> None"
  have "q = [] \<or> q = [''keep''] \<or> q = [''a''] \<or> q = [''a'', ''b''] \<or> q = [''c'']"
    using q by (auto simp: ex_tree_def gget_Cons split: if_splits)
  then have "p = [] \<or> p = [''a'']" using below by (auto simp: strict_prefix_def prefix_Cons)
  then show "gget ex_tree p = Some DirNode" by (auto simp: ex_tree_def gget_Cons)
qed

lemma ex_later: "ws_disk (found_later (ex_replace_env faults) ex_workspace) = ex_tree"
  by (simp add: found_later_def make_dir_def ex_replace_env_def ex_workspace_def ex_tree_def gget_Cons)

lemma ex_wanted: "gget (wanted_files ex_replace) p \<noteq> None \<Longrightarrow> p = ''a/b'' \<or> p = ''d''"
proof -
  have "wanted_files ex_replace = [(''a/b'', \<lparr>file_Path = ''a/b'', file_Content = ''new''\<rparr>), (''d'', \<lparr>file_Path = ''d'', file_Content = ''x''\<rparr>)]"
    by code_simp
  then show "gget (wanted_files ex_replace) p \<noteq> None \<Longrightarrow> p = ''a/b'' \<or> p = ''d''" by (auto simp: gget_Cons split: if_splits)
qed

lemma ex_ready: "replace_ready (ex_replace_env faults) (\<lambda>c. c) ''id'' ex_replace ex_workspace"
proof -
  have "(stable_path ''a/b'' \<and> visible (path_parts ''a/b'')) \<and> stable_path ''d'' \<and> visible (path_parts ''d'')" by code_simp
  then have "listed (wanted_files ex_replace)" using ex_wanted unfolding listed_def by blast
  then show ?thesis
    using ex_tidy ex_is_tree unfolding replace_ready_def ex_later
    by (simp add: versions_differ_def ex_workspace_def empty_record_def)
qed

lemma ex_shallow: "shallow (wanted_files ex_replace) ex_tree"
  unfolding shallow_def
proof (intro allI impI)
  fix p q
  assume "gget (wanted_files ex_replace) p \<noteq> None" and q: "file_at ex_tree q \<noteq> None \<and> strict_prefix q (path_parts p)"
  then have "p = ''a/b'' \<or> p = ''d''" using ex_wanted by blast
  moreover have "path_parts ''a/b'' = [''a'', ''b''] \<and> path_parts ''d'' = [''d'']" by code_simp
  ultimately show "length (path_parts p) = Suc (length q)" using q ex_tree_files [of q] by auto
qed

definition ex_replacing :: "bool list \<Rightarrow> (replace_error + replace_result) \<times> workspace" where
  "ex_replacing faults = ReplaceTree (ex_replace_env faults) (\<lambda>c. c) ''id'' ex_replace ex_author ex_workspace"

lemma replacement_is_all_or_nothing_witness:
  "map (contents (ws_disk (snd (ex_replacing [])))) [''keep'', ''a/b'', ''c'', ''d''] = [Some ''k'', Some ''new'', None, Some ''x'']
    \<and> isl (fst (ex_replacing (replicate 15 False @ [True])))
    \<and> file_at (ws_disk (snd (ex_replacing (replicate 15 False @ [True])))) = file_at ex_tree"
proof (intro conjI)
  note run = replacement_is_all_or_nothing [OF prod.collapse [symmetric] ex_ready, unfolded ex_later]
  have "fst (ex_replacing []) = Inr \<lparr>rr_Written = [''a/b'', ''d''], rr_Deleted = [''c''], rr_SourceRevision = 2\<rparr>" by code_simp
  then have "contents (ws_disk (snd (ex_replacing []))) = replaced ex_replace ex_tree"
    using run [of "[]" ex_author] unfolding ex_replacing_def by auto
  moreover have "map (replaced ex_replace ex_tree) [''keep'', ''a/b'', ''c'', ''d''] = [Some ''k'', Some ''new'', None, Some ''x'']"
    by code_simp
  ultimately show "map (contents (ws_disk (snd (ex_replacing [])))) [''keep'', ''a/b'', ''c'', ''d'']
      = [Some ''k'', Some ''new'', None, Some ''x'']" by simp
  show failed: "isl (fst (ex_replacing (replicate 15 False @ [True])))" by code_simp
  have "ws_disk ex_workspace = ex_tree" "re_rollback (ex_replace_env (replicate 15 False @ [True])) = []"
    by (simp_all add: ex_workspace_def ex_replace_env_def)
  then show "file_at (ws_disk (snd (ex_replacing (replicate 15 False @ [True])))) = file_at ex_tree"
    using run [of "replicate 15 False @ [True]" ex_author] failed ex_shallow unfolding ex_replacing_def by (auto simp: isl_def)
qed

end
