(* ===== verification/Spec_Ledger.thy ===== *)
theory Spec_Ledger
  imports Ledger_Replicas
begin

text \<open>
  The properties of the ledger of a project's working copy, each with an instance on concrete data.
\<close>

section \<open>Records\<close>






section \<open>Edits\<close>

text \<open>
  C37. An edit that is begun and completed joins its author to the owners of its paths and leaves every
  other path's owner alone: a path nobody has changed since its last commit becomes the
  author's, one that another turn has changed becomes mixed. The revision goes up by one, and the
  replica's copy, once tagged, is the current one.
\<close>

theorem edits_join_their_author:
  assumes "canonical (wc_ledger w)" "tidy_record (wc_ledger w)" "revision_room (wc_ledger w)"
    "newer (wc_ledger w) (current_revision (wc_ledger w) + 1)"
    and "beginSourceMutation env uid raws w = (Inr m, w1)" "completeSourceMutation env' origin m w1 = (None, w2)"
    and "\<forall>p \<in> set (sm_paths m). stable_path p"
  shows "owner_of (wc_ledger w2) q =
      (if q \<in> set (sm_paths m) then joined (owner_of (wc_ledger w) q) (author origin) else owner_of (wc_ledger w) q)
    \<and> lr_SourceRevision (wc_ledger w2) = current_revision (wc_ledger w) + 1
    \<and> (ce_tags env' \<longrightarrow> wc_tag w2 = lr_SourceRevision (wc_ledger w2))"
  using whole_edit [OF assms] by simp

definition ex_env :: call_env where
  "ex_env = \<lparr>ce_early = None, ce_outcome = Persisted, ce_confirms = True, ce_tags = True, ce_mkdir = True\<rparr>"

definition ex_origin :: "string \<Rightarrow> SourceChange" where
  "ex_origin run = \<lparr>sc_ThreadID = ''t'', sc_RunID = run, sc_SourceRevision = 0\<rparr>"

text \<open>A copy in which one run has edited two files; another run edits one of them.\<close>

definition ex_edit :: "string \<Rightarrow> string \<Rightarrow> string list \<Rightarrow> working_copy \<Rightarrow> working_copy" where
  "ex_edit uid run paths w = (case beginSourceMutation ex_env uid paths w of
       (Inl e, w1) \<Rightarrow> w1
     | (Inr m, w1) \<Rightarrow> snd (completeSourceMutation ex_env (ex_origin run) m w1))"

definition ex_edited :: working_copy where
  "ex_edited = \<lparr>wc_ledger = empty_record\<lparr>lr_SourceRevision := 2, lr_SourceMutationID := ''1'',
     lr_SourcePathAttributions := map (\<lambda>p. \<lparr>spa_Path = p, spa_ThreadID = ''t'', spa_RunID = ''r1'', spa_SourceRevision = 2\<rparr>) [''a'', ''b'']\<rparr>,
     wc_tag = 2, wc_tree = True\<rparr>"

lemma edits_join_their_author_witness:
  "owner_of (wc_ledger ex_edited) ''a'' = Turn ''t'' ''r1''
    \<and> owner_of (wc_ledger (ex_edit ''2'' ''r2'' [''b''] ex_edited)) ''b'' = Mixed
    \<and> owner_of (wc_ledger (ex_edit ''2'' ''r2'' [''b''] ex_edited)) ''a'' = Turn ''t'' ''r1''"
proof -
  define m where "m = reservation ''2'' [''b''] (wc_tag ex_edited) (wc_tree ex_edited) (Some (wc_ledger ex_edited))"
  obtain w1 where b: "beginSourceMutation ex_env ''2'' [''b''] ex_edited = (Inr m, w1)"
  proof -
    have "fst (beginSourceMutation ex_env ''2'' [''b''] ex_edited) = Inr m" unfolding m_def by code_simp
    then show thesis using that by (metis prod.collapse)
  qed
  have "fst (completeSourceMutation ex_env (ex_origin ''r2'') m (snd (beginSourceMutation ex_env ''2'' [''b''] ex_edited))) = None"
    unfolding m_def by code_simp
  then have c: "completeSourceMutation ex_env (ex_origin ''r2'') m w1 = (None, ex_edit ''2'' ''r2'' [''b''] ex_edited)"
    unfolding ex_edit_def b by (simp add: prod_eq_iff)
  have r: "canonical (wc_ledger ex_edited)" "tidy_record (wc_ledger ex_edited)" "revision_room (wc_ledger ex_edited)"
    and p: "sm_paths m = [''b'']" "stable_path ''b''" and none: "lr_PendingCommit (wc_ledger ex_edited) = None"
    unfolding m_def by code_simp+
  have n: "newer (wc_ledger ex_edited) (current_revision (wc_ledger ex_edited) + 1)" by (simp add: newer_def none)
  have o: "owner_of (wc_ledger ex_edited) ''a'' = Turn ''t'' ''r1''" "owner_of (wc_ledger ex_edited) ''b'' = Turn ''t'' ''r1''"
    "joined (Turn ''t'' ''r1'') (author (ex_origin ''r2'')) = Mixed"
    by code_simp+
  show ?thesis
    using edits_join_their_author [OF r n b c, of "''a''"] edits_join_their_author [OF r n b c, of "''b''"] o p by simp
qed

section \<open>Replicas\<close>

text \<open>
  C38. One replica writes at a time: in every state that replicas can reach by editing, replacing the
  tree, undoing, crashing, and any other call, when one replica can begin an edit, no other
  replica can. (Before anything was written all copies are empty, and all may begin.)
\<close>

theorem one_replica_writes:
  assumes "copies_reachable s" "a \<noteq> b" "lr_SourceRevision (pr_ledger s) \<noteq> 0"
    "beginSourceMutation env uid raws (working_copy_of s a) = (Inr m, w)"
    "beginSourceMutation env' uid' raws' (working_copy_of s b) = (res, w')"
  shows "\<exists>e. res = Inl e"
  by (rule one_replica_begins [OF assms])

text \<open>Replica 0 has edited; it can go on, replica 1 cannot.\<close>

definition ex_copies :: project_copies where
  "ex_copies = \<lparr>pr_ledger = empty_record, pr_replica = (\<lambda>k. \<lparr>rp_tag = 0, rp_tree = True, rp_flight = Idle\<rparr>), pr_ids = Map.empty\<rparr>"

definition ex_begun :: project_copies where
  "ex_begun = (case beginSourceMutation ex_env ''1'' [''a''] (working_copy_of ex_copies 0) of
     (res, w) \<Rightarrow> put_copy 0 w (case res of Inl e \<Rightarrow> Idle | Inr m \<Rightarrow> Editing m) (issue ''1'' 0 ex_copies))"

definition ex_completed :: "sourceMutation \<Rightarrow> project_copies" where
  "ex_completed m = (case completeSourceMutation ex_env (ex_origin ''r'') m (working_copy_of ex_begun 0) of
     (res, w) \<Rightarrow> put_copy 0 w (if res = None then Idle else Editing m) ex_begun)"

definition ex_mutation :: sourceMutation where
  "ex_mutation = reservation ''1'' [''a''] 0 True (Some empty_record)"

lemma ex_completed_reachable: "copies_reachable (ex_completed ex_mutation)"
proof -
  have start: "copies_reachable ex_copies" by (intro copies_reachable.start) (simp_all add: ex_copies_def)
  have room: "revision_room (pr_ledger ex_copies)" by code_simp
  obtain res w where b: "beginSourceMutation ex_env ''1'' [''a''] (working_copy_of ex_copies 0) = (res, w)" by fastforce
  have "copies_step ex_copies ex_begun"
    unfolding ex_begun_def b prod.case
    by (rule copies_step.begin_edit [OF _ _ _ room b]) (simp_all add: ex_copies_def)
  with start have begun: "copies_reachable ex_begun" by (rule copies_reachable.step)
  have flight: "rp_flight (pr_replica ex_begun 0) = Editing ex_mutation" by code_simp
  obtain res w where c: "completeSourceMutation ex_env (ex_origin ''r'') ex_mutation (working_copy_of ex_begun 0) = (res, w)"
    by fastforce
  have "copies_step ex_begun (ex_completed ex_mutation)"
    unfolding ex_completed_def c prod.case by (rule copies_step.complete_edit [OF flight c])
  with begun show ?thesis by (rule copies_reachable.step)
qed

lemma one_replica_writes_witness:
  "(\<exists>m. fst (beginSourceMutation ex_env ''2'' [''a''] (working_copy_of (ex_completed ex_mutation) 0)) = Inr m)
    \<and> (\<exists>e. fst (beginSourceMutation ex_env ''3'' [''a''] (working_copy_of (ex_completed ex_mutation) 1)) = Inl e)"
proof -
  let ?s = "ex_completed ex_mutation"
  have n: "lr_SourceRevision (pr_ledger ?s) \<noteq> 0" by code_simp
  have "\<not> isl (fst (beginSourceMutation ex_env ''2'' [''a''] (working_copy_of ?s 0)))" by code_simp
  then obtain m w where b: "beginSourceMutation ex_env ''2'' [''a''] (working_copy_of ?s 0) = (Inr m, w)"
    by (metis isl_def sum.exhaust_sel prod.collapse)
  obtain res w' where c: "beginSourceMutation ex_env ''3'' [''a''] (working_copy_of ?s 1) = (res, w')" by fastforce
  show ?thesis using one_replica_writes [OF ex_completed_reachable _ n b c] b c by simp
qed

section \<open>Commits\<close>

text \<open>
  C39. A commit in flight keeps what it asks for: whatever call is made on the ledger, and whether its
  write is recorded, lost or rejected, the commit keeps its key, repository, bundle, message,
  branch, digest, paths, revision and attributions, and once it is named its name, until a call
  that names it ends it.
\<close>

theorem commit_in_flight_is_kept:
  assumes "canonical r" "lr_PendingCommit r = Some p"
    and "code_mutation mutate" "\<not> ends_commit mutate p" "ledger_Update outcome mutate r = (res, l)"
  shows "\<exists>p'. lr_PendingCommit l = Some p' \<and> intent p' = intent p \<and> (pc_Name p \<noteq> [] \<longrightarrow> pc_Name p' = pc_Name p)"
  using ledger_Update_applies [OF assms(5)] commit_stays_in_flight [OF assms(3) _ assms(1,2,4)] assms(2) by blast

definition ex_commit :: "string \<Rightarrow> PendingCommit" where
  "ex_commit key = \<lparr>pc_Name = [], pc_RequestID = key, pc_RepositoryRef = ''repo'', pc_RepositoryUID = ''uid'',
     pc_BundleRef = ''bundle'', pc_BundleDigest = ''sha'', pc_Message = ''m'', pc_Branch = ''main'', pc_WorkspaceDigest = ''d'',
     pc_Paths = [''a''], pc_SourceRevision = 2, pc_Attributions = [], pc_BlockedReason = [], pc_BlockedMessage = [],
     pc_BlockedAt = None, pc_RetryToken = []\<rparr>"

text \<open>A second request cannot take the slot; another call's failure cannot clear it.\<close>

definition ex_reserved :: LedgerRecord where
  "ex_reserved = (wc_ledger ex_edited)\<lparr>lr_PendingCommit := Some (ex_commit ''k1'')\<rparr>"

lemma commit_in_flight_is_kept_witness:
  "map_option pc_RequestID (lr_PendingCommit ex_reserved) = Some ''k1''
    \<and> map_option pc_RequestID (lr_PendingCommit (snd (ledger_Update Persisted (reserve_pending (ex_commit ''k2'')) ex_reserved)))
        = Some ''k1''"
proof -
  have r: "canonical ex_reserved" and k: "map_option pc_RequestID (lr_PendingCommit ex_reserved) = Some ''k1''"
    by code_simp+
  then obtain p where p: "lr_PendingCommit ex_reserved = Some p" "pc_RequestID p = ''k1''" by auto
  have "\<not> ends_commit (reserve_pending (ex_commit ''k2'')) p"
  proof
    let ?r = "empty_record\<lparr>lr_SourceRevision := 2\<rparr>"
    assume "ends_commit (reserve_pending (ex_commit ''k2'')) p"
    moreover have "clear_pending i n ?r \<noteq> Inr (True, x)" "fail_pending i n f ?r \<noteq> Inr (True, x)" for i n f x
      by (simp_all add: clear_pending_def fail_pending_def empty_record_def)
    moreover have "\<exists>x. reserve_pending (ex_commit ''k2'') ?r = Inr (True, x)"
      by (simp add: reserve_pending_def empty_record_def current_revision_def ex_commit_def)
    ultimately show False by (auto simp: ends_commit_def)
  qed
  moreover obtain res l where "ledger_Update Persisted (reserve_pending (ex_commit ''k2'')) ex_reserved = (res, l)" by fastforce
  ultimately obtain p' where "lr_PendingCommit l = Some p'" "intent p' = intent p"
    using commit_in_flight_is_kept [OF r p(1) code_mutation.intros(11)] by blast
  then show ?thesis
    using k p(2) intent_fields(1) [of p] intent_fields(1) [of p']
      \<open>ledger_Update Persisted (reserve_pending (ex_commit ''k2'')) ex_reserved = (res, l)\<close> by simp
qed

text \<open>
  C40. A changed path is not forgotten: a path that is to be committed stays in the set of uncommitted
  paths under every call, whatever becomes of its write, until a call that cleans that path.
\<close>

theorem changed_paths_are_not_forgotten:
  assumes "paths_normal (lr_UncommittedPaths r)" "p \<in> set (lr_UncommittedPaths r)"
    and "code_mutation mutate" "\<not> cleans mutate p" "ledger_Update outcome mutate r = (res, l)"
  shows "p \<in> set (lr_UncommittedPaths l)"
  using ledger_Update_applies [OF assms(5)] uncommitted_stays [OF assms(3) _ assms(1,2,4)] assms(2) by blast

definition ex_dirty :: LedgerRecord where
  "ex_dirty = snd (AddUncommittedPaths ex_env [''a'', ''b''] empty_record)"

lemma changed_paths_are_not_forgotten_witness:
  "''b'' \<in> set (lr_UncommittedPaths (snd (ledger_Update Persisted (remove_uncommitted [''a'']) ex_dirty)))
    \<and> ''a'' \<notin> set (lr_UncommittedPaths (snd (ledger_Update Persisted (remove_uncommitted [''a'']) ex_dirty)))"
proof -
  have n: "lr_UncommittedPaths ex_dirty = [''a'', ''b'']" by code_simp
  have dirty: "paths_normal (lr_UncommittedPaths ex_dirty)" by code_simp
  have "\<not> cleans (remove_uncommitted [''a'']) ''b''"
  proof
    let ?r = "empty_record\<lparr>lr_UncommittedPaths := [''b'']\<rparr>"
    assume "cleans (remove_uncommitted [''a'']) ''b''"
    moreover have "remove_uncommitted [''a''] ?r = Inr (False, ?r)" by code_simp
    moreover have "remove_uncommitted paths ?r \<noteq> Inr (False, ?r)" if "''b'' \<in> set paths" for paths
      using that by (auto simp: remove_uncommitted_def empty_record_def Let_def)
    moreover have "clear_uncommitted ?r \<noteq> Inr (False, ?r)" by code_simp
    moreover have "remove_uncommitted [''a''] \<noteq> settle t" for t
    proof
      let ?q = "empty_record\<lparr>lr_UncommittedPaths := [''a'']\<rparr>"
      assume "remove_uncommitted [''a''] = settle t"
      then have "remove_uncommitted [''a''] ?q = Inr (False, ?q)" by (simp add: settle_def empty_record_def)
      moreover have "remove_uncommitted [''a''] ?q \<noteq> Inr (False, ?q)" by code_simp
      ultimately show False by blast
    qed
    ultimately show False by (auto simp: cleans_def dest: always_change(4) [THEN notE])
  qed
  moreover obtain res l where u: "ledger_Update Persisted (remove_uncommitted [''a'']) ex_dirty = (res, l)" by fastforce
  moreover have "''a'' \<notin> set (lr_UncommittedPaths (snd (ledger_Update Persisted (remove_uncommitted [''a'']) ex_dirty)))"
    by code_simp
  ultimately show ?thesis
    using changed_paths_are_not_forgotten [OF dirty _ code_mutation.intros(8), of "''b''" "[''a'']"] n by simp
qed

end
