(* ===== verification/Spec2Isabelle.thy ===== *)
theory Spec2Isabelle
  imports Store_Gaps Encrypted_Gaps Spec_Transcript Spec_Threads Spec_Tables Spec_Files Spec_Encryption Spec_Engine
    Spec_Workspace Spec_Ledger
begin

text \<open>
  A verification library for the App Studio provider (Go). It models the store behind the assistant,
  the wrapper that encrypts it, the limits and the concurrency of assistant runs, the files of a
  project workspace and the ledger of its changes. Definitions keep the names of the code; where a name is taken in HOL or twice in
  Go, the theory says so. \<^bold>\<open>C1\<close> to \<^bold>\<open>C40\<close> number the properties; each stands after a text that states it.

  \<^bold>\<open>The program.\<close> The API server (\<open>src/api\<close>) runs assistant turns: a run manager admits one turn per
  conversation, every model call passes a token budget and the spend guard of its organization,
  and clients read the events of a thread as a stream. All durable state is in a store (\<open>src/store\<close>) with
  a memory and a Postgres implementation; a wrapper encrypts what is confidential before either of
  them sees it. Project files are in a workspace (\<open>src/workspace\<close>), and a bus (\<open>src/internal/reconcilesignal\<close>)
  wakes the controllers.

  \<^bold>\<open>Library.\<close> \<open>Go_Prelude\<close>: strings and bytes, int64 with wrap-around (\<open>wrap64\<close>), time, results
  (\<open>Ok\<close>, \<open>Err\<close>, \<open>Panic\<close>) and operations \<open>'s \<Rightarrow> 'a res * 's\<close>. \<open>Go_Map\<close>: a Go map is an association list whose
  order stands for the iteration order of Go, which is why theorems hold for every order; the locale
  \<open>go_map\<close> is its interface. \<open>Go_Json\<close>, \<open>Go_Json_Struct\<close>, \<open>Go_Base64\<close>, \<open>Go_Float\<close>: encoders and decoders, float64
  with round to even.

  \<^bold>\<open>Store.\<close> \<open>Store_Types\<close> has the data of \<open>store.go\<close>, \<open>thread.go\<close>, \<open>assistant_review_mode.go\<close> with all validation and
  normalisation; \<open>Store_State\<close> the maps of \<open>MemoryStore\<close> and its locale of indexed tables. One theory per group of
  operations of \<open>memory.go\<close>, \<open>thread_memory.go\<close>, \<open>attachment.go\<close>, \<open>claims.go\<close>, \<open>spend.go\<close>, \<open>spend_memory.go\<close>,
  \<open>thread_notify.go\<close>, \<open>project_thumbnail.go\<close>: \<open>Store_Messages\<close> (with \<open>Store_Paging\<close>), \<open>Store_Runs\<close>, \<open>Store_Run_Events\<close>,
  \<open>Store_Log\<close> with \<open>Store_Thread_Log\<close>, \<open>Store_Threads\<close>, \<open>Store_Turns\<close>, \<open>Store_Notify\<close>, \<open>Store_Attachments\<close>, \<open>Store_Retention\<close>, \<open>Store_Claims\<close>,
  \<open>Store_Spend\<close>, \<open>Store_Misc\<close>. A method is a function on the state, its mutex makes it one step; \<open>Store_Steps\<close> puts all
  methods into one step relation with its invariant, \<open>Store_Isolation\<close> and \<open>Store_History\<close> say what every step
  keeps. \<open>Thread_Stream\<close> is the stream loop of \<open>src/api/assistant_threads.go\<close> against a store that others use.
  \<open>Store_Examples\<close> has a project on which the properties are instantiated, \<open>Store_Gaps\<close> states of the store that
  show where the code does not keep what it means to keep.

  \<^bold>\<open>Encryption\<close> (\<open>encryption.go\<close>). \<open>Store_Crypto\<close>: keys, associated data, blobs, messages, attachments;
  \<open>Key_Ring\<close>: parsing a key list; \<open>Store_Encrypted\<close> and \<open>Encrypted_Tables\<close>: every method of \<open>encryptedStore\<close> over
  \<open>MemoryStore\<close>; \<open>Crypto_Roundtrip\<close>: what is encrypted comes back, at its place only; \<open>Encrypted_View\<close>,
  \<open>Refine_Messages\<close>, \<open>Refine_Runs\<close>: the decrypted view of a state is a functional abstraction under which the
  methods of the wrapper are those of the plain store; \<open>Encrypted_Gaps\<close>: where they are not.

  \<^bold>\<open>Limits and concurrency of runs.\<close> \<open>Run_Limits\<close> (limits of \<open>llm.go\<close>, pricing of \<open>assistant_spend.go\<close>), \<open>Rollout_Budget\<close>
  (\<open>assistant_eino_rollout_budget.go\<close>), \<open>Spend_Guard\<close> (the guard of \<open>assistant_spend.go\<close>; its ledger is the locale
  \<open>spend_counters\<close>, interpreted for the memory store and for the wrapper), \<open>Run_Manager\<close> (\<open>assistant_run_manager.go\<close>)
  and \<open>Reconcile_Bus\<close> (\<open>bus.go\<close>), the last two as step relations at the grain of lock and channel operations.

  \<^bold>\<open>Workspace.\<close> \<open>Workspace_Paths\<close> and \<open>Workspace_Text\<close> (\<open>store.go\<close>): accepted paths, bounds of contents, the streaming
  text detector. \<open>Workspace_Tree\<close> (\<open>tree.go\<close>): the plan of a tree replacement; \<open>Workspace_Disk\<close>: the directory tree and the
  calls on it, each of which may fail; \<open>Workspace_Commit\<close>: carrying out the plan; \<open>Workspace_Rollback\<close>: undoing it;
  \<open>Workspace_Replace\<close>: \<open>ReplaceTree\<close> as a whole, with the ledger below.

  \<^bold>\<open>Ledger.\<close> One record per project says which revision its source is at, who changed which path, what is to be
  committed and which commit is in flight; all replicas share it. \<open>Ledger_Record\<close> (\<open>ledger.go\<close>): the record, its
  canonical form, the ledger in memory, and the locale \<open>working_copy_ledger\<close> of what callers rely on. \<open>Source_Changes\<close>
  (\<open>source_state.go\<close>): attribution of paths, against an abstract owner of each path. \<open>Source_Revision\<close>
  (\<open>source_state.go\<close>, \<open>tree_revision.go\<close>): begin, complete and fail an edit, the ledger half of a tree replacement, and
  the tag of a replica's copy; what becomes of a ledger write is a \<open>call_env\<close>. \<open>Commit_Slot\<close> (\<open>pending_commit.go\<close>):
  uncommitted paths, the commit in flight, settlement. \<open>Ledger_Steps\<close>: every mutation of the ledger in any order;
  \<open>Ledger_Replicas\<close>: replicas with copies of the tree as a step relation.

  \<^bold>\<open>Properties.\<close> C1 to C4 (here) span the store: invariant, panics, isolation, history. \<open>Spec_Transcript\<close>: messages,
  runs and their events; \<open>Spec_Threads\<close>: threads, turns, the stream; \<open>Spec_Tables\<close>: claims and spend, with
  lemmas on permits and thumbnails; \<open>Spec_Files\<close>: attachments, retention; \<open>Spec_Encryption\<close>; \<open>Spec_Engine\<close>: budget,
  cap, run manager, bus; \<open>Spec_Workspace\<close>; \<open>Spec_Ledger\<close>.

  \<^bold>\<open>Parameters and hypotheses.\<close> Code outside \<open>src/\<close> is an argument: AES-GCM as a record with \<open>Seal\<close> and \<open>Open\<close>
  (\<open>aead_ok\<close>: opening with the same key and data gives the plaintext; \<open>aead_binds\<close>: other associated data does
  not open), SHA-256, JSON of metadata maps and of conversation payloads, the attachment SDK, the
  model catalog, \<open>ParseFloat\<close>, answers of models and of the random source. Clocks are arguments too. Hypotheses
  name what the code relies on; every property with hypotheses has an instance.

  \<^bold>\<open>Bounds.\<close> Loops of the code are structural recursion, or recursion with a measure. The loops that
  page through a log take as fuel the length of the log plus one, and their theorems say that this is
  enough. Counters keep their int64 width; where a theorem needs that a sum fits, it says so.

  \<^bold>\<open>Not modelled.\<close> The Postgres stores: their behaviour is SQL text, whose meaning is not in the
  repository. HTTP handlers, the orchestration of model calls, sandboxes and browsers, controllers,
  clients and start-up: they consist of calls to remote services. Generated code. Log lines and error
  texts, but for the values an error carries. Of the workspace: symbolic links, the ledger kept on the
  project resource, single-file mutations, snapshots and the migration of old layouts.
\<close>

section \<open>The store as one machine\<close>

text \<open>
  C1. In every state a store can reach, the invariants of all its components hold together:
  messages are filed under their ID and project, runs are well formed and at most one run of a
  thread is unfinished, event logs are numbered without gaps and their indexes agree with them,
  conversation numbers increase, turns belong to their thread, and attachments are well formed.
\<close>

theorem reachable_store_inv: "reachable quota st \<Longrightarrow> store_inv st"
  by (rule reachable_inv)

lemma reachable_store_inv_witness: "store_inv ex_turns"
  by (rule reachable_store_inv [OF ex_reachable(5)])

text \<open>
  C2. No operation panics in a reachable state, except the stop request of a run in a project that
  has no message map; that panic leaves the store as it was.
\<close>

theorem only_a_stop_panics:
  assumes "reachable quota st" "store_step p Panic st st'"
  shows "st' = st \<and> (\<exists>s. p = Some s \<and> gget (messages st) s = None)"
  using store_step_ok [OF assms(2) reachable_inv [OF assms(1)]] by (simp add: step_ok_def)

text \<open>The panic is real: a run saved in a project without messages, then stopped with a message.\<close>

definition ex_lonely :: MemoryStore where
  "ex_lonely = snd (SaveAssistantRun 5 ex_scope (ex_run ''r'' ''q'') (NewMemoryStore ex_quota))"

lemma only_a_stop_panics_witness:
  "fst (RequestAssistantRunStopWithAssistantMessage 6 ex_scope ''r'' 1 (ex_message ''m4'' ''assistant'' 6) 6
     ex_lonely) = Panic \<and> gget (messages ex_lonely) ex_scope = None"
proof -
  let ?run = "RequestAssistantRunStopWithAssistantMessage 6 ex_scope ''r'' 1 (ex_message ''m4'' ''assistant'' 6) 6
     ex_lonely"
  have panic: "fst ?run = Panic" by code_simp
  then have eq: "?run = (Panic, snd ?run)" by (simp add: prod_eq_iff)
  have "reachable ex_quota ex_lonely"
    unfolding ex_lonely_def by (rule reachable_snd [OF reachable.new]) (erule store_step.save_run)
  moreover have "store_step (Some ex_scope) Panic ex_lonely (snd ?run)"
    using store_step.stop_run [OF eq] by (simp add: outcome_def)
  ultimately show ?thesis using panic only_a_stop_panics [of ex_quota ex_lonely "Some ex_scope" "snd ?run"]
    by simp
qed



text \<open>
  C4. No operation rewrites history: a run that is still there keeps its identity, its thread, its
  mode, its client request and its creation time, and its revision stays or moves up by one; a
  thread keeps its owner and creation time; and the event log of a run or of a thread is extended
  at its end or deleted as a whole.
\<close>

theorem history_is_kept:
  assumes "reachable quota st" "store_step p out st st'"
  shows "history st st'"
  by (rule store_step_history [OF assms(2) reachable_inv [OF assms(1)]])

lemma history_is_kept_witness:
  "history ex_threads ex_turns \<and> length (slice2 (threadEvents ex_threads) ex_scope ''t'') = 1
    \<and> length (slice2 (threadEvents ex_turns) ex_scope ''t'') = 3"
proof -
  have "store_step (Some ex_scope) (outcome (fst (CreateAssistantTurn 10 ex_scope
      (ex_turn ''r'' (AssistantTurnStatusUnknown [])) [ex_event [] ''turn.started'', ex_event [] ''text''] ex_threads)))
      ex_threads ex_turns"
    unfolding ex_turns_op by (rule store_step.create_turn) simp
  then have "history ex_threads ex_turns" by (rule history_is_kept [OF ex_reachable(4)])
  moreover have "length (slice2 (threadEvents ex_threads) ex_scope ''t'') = 1
    \<and> length (slice2 (threadEvents ex_turns) ex_scope ''t'') = 3" by code_simp
  ultimately show ?thesis by simp
qed

end
